(* ===== verification/Prelude.thy ===== *)
theory Prelude
  imports Main
begin

text \<open>
  Shared ground of the development: Python strings as lists of code points, the
  outcomes a parsing function can have (a value, \<open>None\<close>, an exception), the
  state-passing combinators that thread the parser's shared ``depth exceeded'' flag,
  a small Hoare-style calculus for them, the models of the Python string methods the
  sources use, and the generic list lemmas the components share.
\<close>

section \<open>Python strings\<close>

text \<open>
  A Python string is a sequence of Unicode code points, lone surrogates included, so a
  character is modelled by its code point and a string by the list of them.  The
  function \<open>u\<close> turns an ASCII literal of HOL into such a list.
\<close>

type_synonym uchar = nat
type_synonym ustr = "uchar list"

definition u :: "string \<Rightarrow> ustr" where
  "u s = map of_char s"

lemma u_Nil: "u [] = []"
  by (simp add: u_def)

lemma u_Cons: "u (ch # s) = of_char ch # u s"
  by (simp add: u_def)

abbreviation CH_TAB :: uchar where "CH_TAB \<equiv> 9"
abbreviation CH_LF :: uchar where "CH_LF \<equiv> 10"
abbreviation CH_CR :: uchar where "CH_CR \<equiv> 13"
abbreviation CH_SPACE :: uchar where "CH_SPACE \<equiv> 32"
abbreviation CH_QUOTE :: uchar where "CH_QUOTE \<equiv> 34"
abbreviation CH_HASH :: uchar where "CH_HASH \<equiv> 35"
abbreviation CH_DOLLAR :: uchar where "CH_DOLLAR \<equiv> 36"
abbreviation CH_LPAREN :: uchar where "CH_LPAREN \<equiv> 40"
abbreviation CH_RPAREN :: uchar where "CH_RPAREN \<equiv> 41"
abbreviation CH_STAR :: uchar where "CH_STAR \<equiv> 42"
abbreviation CH_PLUS :: uchar where "CH_PLUS \<equiv> 43"
abbreviation CH_COMMA :: uchar where "CH_COMMA \<equiv> 44"
abbreviation CH_MINUS :: uchar where "CH_MINUS \<equiv> 45"
abbreviation CH_DOT :: uchar where "CH_DOT \<equiv> 46"
abbreviation CH_SLASH :: uchar where "CH_SLASH \<equiv> 47"
abbreviation CH_COLON :: uchar where "CH_COLON \<equiv> 58"
abbreviation CH_SEMICOLON :: uchar where "CH_SEMICOLON \<equiv> 59"
abbreviation CH_EQUALS :: uchar where "CH_EQUALS \<equiv> 61"
abbreviation CH_GREATER :: uchar where "CH_GREATER \<equiv> 62"
abbreviation CH_LBRACKET :: uchar where "CH_LBRACKET \<equiv> 91"
abbreviation CH_BACKSLASH :: uchar where "CH_BACKSLASH \<equiv> 92"
abbreviation CH_RBRACKET :: uchar where "CH_RBRACKET \<equiv> 93"
abbreviation CH_UNDERSCORE :: uchar where "CH_UNDERSCORE \<equiv> 95"
abbreviation CH_LBRACE :: uchar where "CH_LBRACE \<equiv> 123"
abbreviation CH_RBRACE :: uchar where "CH_RBRACE \<equiv> 125"

text \<open>The ASCII character classes behind \<open>str.isalpha\<close> and \<open>str.isalnum\<close>.\<close>

definition is_ascii_alpha :: "uchar \<Rightarrow> bool" where
  "is_ascii_alpha ch \<longleftrightarrow> (65 \<le> ch \<and> ch \<le> 90) \<or> (97 \<le> ch \<and> ch \<le> 122)"

definition is_ascii_digit :: "uchar \<Rightarrow> bool" where
  "is_ascii_digit ch \<longleftrightarrow> 48 \<le> ch \<and> ch \<le> 57"

text \<open>The exceptions the modelled code can raise; their messages are not modelled.\<close>

datatype py_error =
    EOFError
  | ValueError
  | TypeError
  | IndexError
  | RuntimeError
  | TimeoutError
  | OverflowError

section \<open>Python string methods\<close>

text \<open>
  \<open>s.find(ch, start)\<close> and \<open>s.rfind(ch, 0, stop)\<close> for a one-character needle; the
  source's \<open>-1\<close> is \<open>None\<close>.
\<close>

fun find_from :: "uchar \<Rightarrow> ustr \<Rightarrow> nat \<Rightarrow> nat option" where
  "find_from ch [] i = None"
| "find_from ch (x # xs) i = (if x = ch then Some i else find_from ch xs (Suc i))"

definition str_find :: "uchar \<Rightarrow> ustr \<Rightarrow> nat \<Rightarrow> nat option" where
  "str_find ch s start = find_from ch (drop start s) start"

fun rfind_in :: "uchar \<Rightarrow> ustr \<Rightarrow> nat \<Rightarrow> nat option" where
  "rfind_in ch [] i = None"
| "rfind_in ch (x # xs) i =
     (case rfind_in ch xs (Suc i) of
        Some j \<Rightarrow> Some j
      | None \<Rightarrow> (if x = ch then Some i else None))"

definition str_rfind :: "uchar \<Rightarrow> ustr \<Rightarrow> nat \<Rightarrow> nat option" where
  "str_rfind ch s stop = rfind_in ch (take stop s) 0"

text \<open>\<open>s[start:stop]\<close> for non-negative bounds, \<open>s.split(ch)\<close> and \<open>sep.join(parts)\<close>.\<close>

definition str_slice :: "ustr \<Rightarrow> nat \<Rightarrow> nat \<Rightarrow> ustr" where
  "str_slice s start stop = drop start (take stop s)"

fun str_split :: "uchar \<Rightarrow> ustr \<Rightarrow> ustr list" where
  "str_split ch [] = [[]]"
| "str_split ch (x # xs) =
     (if x = ch then [] # str_split ch xs
      else (case str_split ch xs of
              [] \<Rightarrow> [[x]]
            | w # ws \<Rightarrow> (x # w) # ws))"

fun str_join :: "ustr \<Rightarrow> ustr list \<Rightarrow> ustr" where
  "str_join sep [] = []"
| "str_join sep [w] = w"
| "str_join sep (w # v # ws) = w @ sep @ str_join sep (v # ws)"

text \<open>Decimal rendering of a non-negative integer (\<open>str(n)\<close>).\<close>

fun dec_digits :: "nat \<Rightarrow> ustr" where
  "dec_digits n = (if n < 10 then [48 + n] else dec_digits (n div 10) @ [48 + n mod 10])"

declare dec_digits.simps [simp del]

lemma find_from_Some:
  "find_from ch xs i = Some j \<Longrightarrow>
     i \<le> j \<and> j < i + length xs \<and> xs ! (j - i) = ch \<and> (\<forall>k. i \<le> k \<and> k < j \<longrightarrow> xs ! (k - i) \<noteq> ch)"
proof (induction xs arbitrary: i)
  case Nil
  then show ?case by simp
next
  case (Cons x xs)
  show ?case
  proof (cases "x = ch")
    case True
    with Cons.prems show ?thesis by auto
  next
    case False
    with Cons.prems have "find_from ch xs (Suc i) = Some j" by simp
    note IH = Cons.IH [OF this]
    have "(x # xs) ! (k - i) \<noteq> ch" if "i \<le> k" "k < j" for k
    proof (cases "k = i")
      case True
      with False show ?thesis by simp
    next
      case neq: False
      with that have "Suc i \<le> k" by simp
      with that IH have "xs ! (k - Suc i) \<noteq> ch" by blast
      moreover have "(x # xs) ! (k - i) = xs ! (k - Suc i)"
        using \<open>Suc i \<le> k\<close> by (simp add: nth_Cons' Suc_diff_Suc)
      ultimately show ?thesis by simp
    qed
    moreover have "(x # xs) ! (j - i) = xs ! (j - Suc i)"
      using IH by (simp add: nth_Cons' Suc_diff_Suc)
    ultimately show ?thesis using IH by auto
  qed
qed

lemma find_from_None: "find_from ch xs i = None \<longleftrightarrow> ch \<notin> set xs"
  by (induction xs arbitrary: i) auto

lemma str_find_Some:
  assumes "str_find ch s start = Some j"
  shows "start \<le> j" "j < length s" "s ! j = ch" "\<And>k. start \<le> k \<Longrightarrow> k < j \<Longrightarrow> s ! k \<noteq> ch"
proof -
  note F = find_from_Some [OF assms [unfolded str_find_def]]
  from F show "start \<le> j" "j < length s" by auto
  from F show "s ! j = ch" by auto
  fix k assume "start \<le> k" "k < j"
  with F have "drop start s ! (k - start) \<noteq> ch" by blast
  with \<open>start \<le> k\<close> \<open>k < j\<close> \<open>j < length s\<close> show "s ! k \<noteq> ch" by simp
qed

lemma str_find_bounds: "str_find ch s start = Some j \<Longrightarrow> start \<le> j \<and> j < length s"
  by (blast dest: str_find_Some(1,2))

lemma str_find_None: "str_find ch s start = None \<longleftrightarrow> ch \<notin> set (drop start s)"
  by (simp add: str_find_def find_from_None)

lemma nth_in_drop: "i \<le> k \<Longrightarrow> k < length s \<Longrightarrow> s ! k \<in> set (drop i s)"
  using nth_mem [of "k - i" "drop i s"] by simp

lemma rfind_in_None: "rfind_in ch xs i = None \<longleftrightarrow> ch \<notin> set xs"
proof (induction xs arbitrary: i)
  case (Cons x xs)
  then show ?case by (cases "rfind_in ch xs (Suc i)") (use Cons [of "Suc i"] in auto)
qed simp

lemma rfind_in_snoc:
  "rfind_in ch (xs @ [x]) i = (if x = ch then Some (i + length xs) else rfind_in ch xs i)"
  by (induction xs arbitrary: i) (auto split: option.splits)

lemma length_str_slice [simp]:
  "length (str_slice s i j) = min j (length s) - i"
  by (simp add: str_slice_def)

lemma str_slice_empty [simp]: "str_slice s i i = []"
  by (simp add: str_slice_def)

lemma nth_str_slice:
  "i + k < j \<Longrightarrow> j \<le> length s \<Longrightarrow> str_slice s i j ! k = s ! (i + k)"
  by (simp add: str_slice_def)

lemma str_slice_snoc:
  "i \<le> j \<Longrightarrow> j < length s \<Longrightarrow> str_slice s i (Suc j) = str_slice s i j @ [s ! j]"
  by (simp add: str_slice_def take_Suc_conv_app_nth)

lemma str_slice_append:
  "i \<le> j \<Longrightarrow> j \<le> k \<Longrightarrow> k \<le> length s \<Longrightarrow> str_slice s i j @ str_slice s j k = str_slice s i k"
  by (rule nth_equalityI) (auto simp: nth_append str_slice_def add.commute)

lemma set_str_slice:
  assumes "x \<in> set (str_slice s i j)"
  shows "\<exists>k. i \<le> k \<and> k < j \<and> k < length s \<and> s ! k = x"
proof -
  from assms obtain m where m: "m < min j (length s) - i" and x: "str_slice s i j ! m = x"
    by (auto simp: in_set_conv_nth)
  from m have "i \<le> j" "i \<le> length s" by simp_all
  with m x have "s ! (i + m) = x" by (simp add: str_slice_def)
  with m show ?thesis by (intro exI [of _ "i + m"]) auto
qed

end
