(* ===== verification/Identifiers.thy ===== *)
theory Identifiers
  imports Prelude
begin

text \<open>
  \<open>core/identifier_validation.py\<close>: the character classes of Fluent identifiers and
  the whole-string validator the serializer uses.  The lemmas characterise the strings
  the validator accepts, including the one class of strings outside the grammar that
  its regular expression lets through.
\<close>

definition MAX_IDENTIFIER_LENGTH :: nat where
  "MAX_IDENTIFIER_LENGTH = 256"

definition is_identifier_start :: "uchar \<Rightarrow> bool" where
  "is_identifier_start ch \<longleftrightarrow> ch < 128 \<and> is_ascii_alpha ch"

definition is_identifier_char :: "uchar \<Rightarrow> bool" where
  "is_identifier_char ch \<longleftrightarrow>
     ch < 128 \<and> ((is_ascii_alpha ch \<or> is_ascii_digit ch) \<or> ch = CH_MINUS \<or> ch = CH_UNDERSCORE)"

text \<open>
  The compiled pattern \<open>^[a-zA-Z0-9_-]*$\<close>, applied with \<open>re.match\<close>.  Python's
  \<open>$\<close> matches at the end of the string and also just before a line feed that ends
  the string, so one trailing line feed is let through.
\<close>

definition identifier_class :: "uchar \<Rightarrow> bool" where
  "identifier_class ch \<longleftrightarrow>
     (97 \<le> ch \<and> ch \<le> 122) \<or> (65 \<le> ch \<and> ch \<le> 90) \<or> (48 \<le> ch \<and> ch \<le> 57) \<or> ch = 95 \<or> ch = 45"

definition identifier_continuation_match :: "ustr \<Rightarrow> bool" where
  "identifier_continuation_match s \<longleftrightarrow>
     list_all identifier_class s \<or>
     (s \<noteq> [] \<and> last s = CH_LF \<and> list_all identifier_class (butlast s))"

definition is_valid_identifier :: "ustr \<Rightarrow> bool" where
  "is_valid_identifier name =
     (if name = [] then False
      else if MAX_IDENTIFIER_LENGTH < length name then False
      else if \<not> is_identifier_start (hd name) then False
      else identifier_continuation_match (tl name))"

text \<open>The grammar of the documentation: \<open>[a-zA-Z][a-zA-Z0-9_-]*\<close>, at most 256 characters.\<close>

definition grammar_identifier :: "ustr \<Rightarrow> bool" where
  "grammar_identifier name \<longleftrightarrow>
     name \<noteq> [] \<and> length name \<le> MAX_IDENTIFIER_LENGTH \<and>
     is_identifier_start (hd name) \<and> list_all is_identifier_char (tl name)"

lemma identifier_class_eq: "identifier_class = is_identifier_char"
  by (rule ext) (auto simp: identifier_class_def is_identifier_char_def is_ascii_alpha_def is_ascii_digit_def)

lemma identifier_start_is_char: "is_identifier_start ch \<Longrightarrow> is_identifier_char ch"
  by (simp add: is_identifier_start_def is_identifier_char_def)

lemma identifier_char_not_special [simp]:
  "\<not> is_identifier_char CH_LF" "\<not> is_identifier_char CH_SPACE" "\<not> is_identifier_char CH_DOT"
  "\<not> is_identifier_char CH_EQUALS" "\<not> is_identifier_char CH_LPAREN" "\<not> is_identifier_char CH_RPAREN"
  "\<not> is_identifier_char CH_LBRACE" "\<not> is_identifier_char CH_RBRACE" "\<not> is_identifier_char CH_COLON"
  "\<not> is_identifier_char CH_COMMA" "\<not> is_identifier_char CH_LBRACKET" "\<not> is_identifier_char CH_RBRACKET"
  by (simp_all add: is_identifier_char_def is_ascii_alpha_def is_ascii_digit_def)

lemma identifier_start_not_special [simp]:
  "\<not> is_identifier_start CH_LF" "\<not> is_identifier_start CH_SPACE" "\<not> is_identifier_start CH_DOT"
  "\<not> is_identifier_start CH_MINUS" "\<not> is_identifier_start CH_HASH" "\<not> is_identifier_start CH_QUOTE"
  "\<not> is_identifier_start CH_LBRACE" "\<not> is_identifier_start CH_RBRACE" "\<not> is_identifier_start CH_DOLLAR"
  by (simp_all add: is_identifier_start_def is_ascii_alpha_def)

lemma grammar_identifier_chars:
  "grammar_identifier name \<Longrightarrow> list_all is_identifier_char name"
  by (cases name) (auto simp: grammar_identifier_def identifier_start_is_char)

lemma continuation_match_grammar:
  "list_all is_identifier_char s \<Longrightarrow> identifier_continuation_match s"
  by (simp add: identifier_continuation_match_def identifier_class_eq)

text \<open>The validator accepts the grammar, and beyond it exactly a grammar identifier and one line feed.\<close>

lemma is_valid_identifier_cases:
  "is_valid_identifier name \<longleftrightarrow>
     grammar_identifier name \<or>
     (\<exists>base. grammar_identifier base \<and> length base < MAX_IDENTIFIER_LENGTH \<and> name = base @ [CH_LF])"
proof (cases name)
  case Nil
  then show ?thesis by (simp add: is_valid_identifier_def grammar_identifier_def)
next
  case (Cons ch s)
  show ?thesis
  proof (cases "s \<noteq> [] \<and> last s = CH_LF")
    case True
    then obtain t where s: "s = t @ [CH_LF]" by (metis append_butlast_last_id)
    show ?thesis
      by (auto simp: Cons s is_valid_identifier_def grammar_identifier_def
          identifier_continuation_match_def identifier_class_eq append_eq_Cons_conv)
  next
    case False
    then have "\<And>base. name \<noteq> base @ [CH_LF] \<or> base = []"
      by (cases s rule: rev_cases) (auto simp: Cons append_eq_Cons_conv)
    with False show ?thesis
      by (auto simp: Cons is_valid_identifier_def grammar_identifier_def
          identifier_continuation_match_def identifier_class_eq append_eq_Cons_conv)
  qed
qed

end
