(* ===== verification/Outcomes.thy ===== *)
theory Outcomes
  imports Prelude
begin

text \<open>
  What a parsing function of the source can do: return a value, return \<open>None\<close> (or a
  \<open>ParseError\<close> its caller turns into \<open>None\<close>), raise an exception; in the model it can
  also run out of the fuel its loops are given, which the safety theorems exclude.
  A parsing function also reads and sets the parse context's shared
  \<open>_depth_exceeded_flag\<close>, so it is a function of that flag.  The predicate
  \<open>safe Q p\<close> says that \<open>p\<close> neither raises nor runs out of fuel, and that every value
  it returns satisfies \<open>Q\<close>; the rules collected under \<open>safe_rule\<close> derive it along
  the structure of a parsing function.
\<close>

named_theorems safe_rule "structural rules for the predicate safe"

datatype 'a outcome =
    Returns 'a
  | NoResult
  | Raises py_error
  | OutOfFuel

type_synonym 'a parser = "bool \<Rightarrow> 'a outcome \<times> bool"

definition ret :: "'a \<Rightarrow> 'a parser" where
  "ret a = (\<lambda>flag. (Returns a, flag))"

definition no_result :: "'a parser" where
  "no_result = (\<lambda>flag. (NoResult, flag))"

definition raise_error :: "py_error \<Rightarrow> 'a parser" where
  "raise_error e = (\<lambda>flag. (Raises e, flag))"

definition out_of_fuel :: "'a parser" where
  "out_of_fuel = (\<lambda>flag. (OutOfFuel, flag))"

text \<open>Run \<open>p\<close>; when it returns a value, go on with it (\<open>if r is None: return r\<close>).\<close>

definition and_then :: "'a parser \<Rightarrow> ('a \<Rightarrow> 'b parser) \<Rightarrow> 'b parser" where
  "and_then p k = (\<lambda>flag.
     (case p flag of
        (Returns a, flag') \<Rightarrow> k a flag'
      | (NoResult, flag') \<Rightarrow> (NoResult, flag')
      | (Raises e, flag') \<Rightarrow> (Raises e, flag')
      | (OutOfFuel, flag') \<Rightarrow> (OutOfFuel, flag')))"

text \<open>Run \<open>p\<close> and test its result for \<open>None\<close>; an exception still propagates.\<close>

definition attempt :: "'a parser \<Rightarrow> 'a option parser" where
  "attempt p = (\<lambda>flag.
     (case p flag of
        (Returns a, flag') \<Rightarrow> (Returns (Some a), flag')
      | (NoResult, flag') \<Rightarrow> (Returns None, flag')
      | (Raises e, flag') \<Rightarrow> (Raises e, flag')
      | (OutOfFuel, flag') \<Rightarrow> (OutOfFuel, flag')))"

definition of_option :: "'a option \<Rightarrow> 'a parser" where
  "of_option x = (case x of None \<Rightarrow> no_result | Some a \<Rightarrow> ret a)"

text \<open>The value of a sub-parser that fails with a \<open>ParseError\<close>, which the caller drops.\<close>

definition or_none :: "'e + 'a \<Rightarrow> 'a parser" where
  "or_none x = (case x of Inl _ \<Rightarrow> no_result | Inr a \<Rightarrow> ret a)"

definition or_raise :: "py_error + 'a \<Rightarrow> 'a parser" where
  "or_raise x = (case x of Inl e \<Rightarrow> raise_error e | Inr a \<Rightarrow> ret a)"

definition safe :: "('a \<Rightarrow> bool) \<Rightarrow> 'a parser \<Rightarrow> bool" where
  "safe Q p \<longleftrightarrow>
     (\<forall>flag. case fst (p flag) of
        Returns a \<Rightarrow> Q a
      | NoResult \<Rightarrow> True
      | Raises _ \<Rightarrow> False
      | OutOfFuel \<Rightarrow> False)"

lemma safe_ret [safe_rule]: "Q a \<Longrightarrow> safe Q (ret a)"
  by (simp add: safe_def ret_def)

lemma safe_no_result [safe_rule, simp]: "safe Q no_result"
  by (simp add: safe_def no_result_def)

lemma safe_cases:
  assumes "safe Q p"
  obtains a flag' where "p flag = (Returns a, flag')" "Q a" | flag' where "p flag = (NoResult, flag')"
proof (cases "p flag")
  case (Pair r flag')
  from assms have "case fst (p flag) of Returns a \<Rightarrow> Q a | NoResult \<Rightarrow> True | Raises _ \<Rightarrow> False | OutOfFuel \<Rightarrow> False"
    unfolding safe_def by blast
  with Pair that show ?thesis by (cases r) auto
qed

lemma safe_and_then:
  assumes "safe R p" "\<And>a. R a \<Longrightarrow> safe Q (k a)"
  shows "safe Q (and_then p k)"
proof (unfold safe_def, rule allI)
  fix flag
  show "case fst (and_then p k flag) of Returns a \<Rightarrow> Q a | NoResult \<Rightarrow> True | Raises _ \<Rightarrow> False | OutOfFuel \<Rightarrow> False"
    using assms(1)
  proof (cases rule: safe_cases [where flag = flag])
    case (1 a flag')
    then show ?thesis using assms(2) [of a] by (simp add: and_then_def safe_def)
  next
    case (2 flag')
    then show ?thesis by (simp add: and_then_def)
  qed
qed

lemma safe_attempt:
  assumes "safe R p" "Q None" "\<And>a. R a \<Longrightarrow> Q (Some a)"
  shows "safe Q (attempt p)"
proof (unfold safe_def, rule allI)
  fix flag
  show "case fst (attempt p flag) of Returns a \<Rightarrow> Q a | NoResult \<Rightarrow> True | Raises _ \<Rightarrow> False | OutOfFuel \<Rightarrow> False"
    using assms(1)
    by (cases rule: safe_cases [where flag = flag]) (simp_all add: attempt_def assms(2,3))
qed

lemma safe_of_option: "(\<And>a. x = Some a \<Longrightarrow> Q a) \<Longrightarrow> safe Q (of_option x)"
  by (simp add: of_option_def safe_ret split: option.splits)

lemma safe_or_none: "(\<And>a. x = Inr a \<Longrightarrow> Q a) \<Longrightarrow> safe Q (or_none x)"
  by (simp add: or_none_def safe_ret split: sum.splits)

lemma safe_or_raise: "x = Inr a \<Longrightarrow> Q a \<Longrightarrow> safe Q (or_raise x)"
  by (simp add: or_raise_def safe_ret)

lemma safe_if [safe_rule]:
  "(b \<Longrightarrow> safe Q p) \<Longrightarrow> (\<not> b \<Longrightarrow> safe Q q) \<Longrightarrow> safe Q (if b then p else q)"
  by simp

lemma safe_weaken: "safe R p \<Longrightarrow> (\<And>a. R a \<Longrightarrow> Q a) \<Longrightarrow> safe Q p"
  by (fastforce simp: safe_def split: outcome.splits)

lemma safe_conj: "safe Q p \<Longrightarrow> safe R p \<Longrightarrow> safe (\<lambda>a. Q a \<and> R a) p"
  by (auto simp: safe_def split: outcome.splits)

lemma safe_Returns: "safe Q p \<Longrightarrow> p flag = (Returns a, flag') \<Longrightarrow> Q a"
  by (erule safe_cases [where flag = flag]) auto

lemma safe_no_raise: "safe Q p \<Longrightarrow> fst (p flag) \<noteq> Raises e"
  by (erule safe_cases [where flag = flag]) auto

lemma safe_fuel: "safe Q p \<Longrightarrow> fst (p flag) \<noteq> OutOfFuel"
  by (erule safe_cases [where flag = flag]) auto

lemma safe_map: "safe Q (and_then p (\<lambda>a. ret (f a))) \<longleftrightarrow> safe (\<lambda>a. Q (f a)) p"
proof -
  have "fst (and_then p (\<lambda>a. ret (f a)) flag) =
      (case fst (p flag) of Returns a \<Rightarrow> Returns (f a) | NoResult \<Rightarrow> NoResult
       | Raises e \<Rightarrow> Raises e | OutOfFuel \<Rightarrow> OutOfFuel)" for flag
    by (cases "p flag") (auto simp: and_then_def ret_def split: outcome.split)
  then show ?thesis by (simp add: safe_def split: outcome.split)
qed

lemma safe_attempt_Some:
  assumes "safe R p" "\<And>flag. fst (p flag) \<noteq> NoResult" "\<And>a. R a \<Longrightarrow> Q (Some a)"
  shows "safe Q (attempt p)"
proof (unfold safe_def, rule allI)
  fix flag
  show "case fst (attempt p flag) of Returns a \<Rightarrow> Q a | NoResult \<Rightarrow> True | Raises _ \<Rightarrow> False | OutOfFuel \<Rightarrow> False"
    using assms(1)
  proof (cases rule: safe_cases [where flag = flag])
    case 1
    then show ?thesis by (simp add: attempt_def assms(3))
  next
    case 2
    with assms(2) [of flag] show ?thesis by simp
  qed
qed

text \<open>\<open>yields p\<close>: the function has no \<open>return None\<close>.\<close>

definition yields :: "'a parser \<Rightarrow> bool" where
  "yields p \<longleftrightarrow> (\<forall>flag. fst (p flag) \<noteq> NoResult)"

named_theorems yields_rule "structural rules for the predicate yields"

lemma yields_ret [yields_rule]: "yields (ret a)"
  by (simp add: yields_def ret_def)

lemma yields_raise_error [yields_rule]: "yields (raise_error e)"
  by (simp add: yields_def raise_error_def)

lemma yields_out_of_fuel [yields_rule]: "yields out_of_fuel"
  by (simp add: yields_def out_of_fuel_def)

lemma yields_attempt [yields_rule]: "yields (attempt p)"
  by (auto simp: yields_def attempt_def split: prod.split outcome.split)

lemma yields_and_then [yields_rule]: "yields p \<Longrightarrow> (\<And>a. yields (k a)) \<Longrightarrow> yields (and_then p k)"
  unfolding yields_def
proof (rule allI)
  fix flag
  assume p: "\<forall>flag. fst (p flag) \<noteq> NoResult" and k: "\<And>a. \<forall>flag. fst (k a flag) \<noteq> NoResult"
  obtain r flag' where r: "p flag = (r, flag')" by force
  with p have "r \<noteq> NoResult" by (metis fst_conv)
  with r k show "fst (and_then p k flag) \<noteq> NoResult" by (cases r) (auto simp: and_then_def)
qed

lemma yields_if [yields_rule]: "yields p \<Longrightarrow> yields q \<Longrightarrow> yields (if b then p else q)"
  by simp

lemma safe_yields:
  assumes "safe Q p" "yields p"
  obtains a flag' where "p flag = (Returns a, flag')" "Q a"
  using assms(1)
proof (cases rule: safe_cases [where flag = flag])
  case (2 flag')
  with assms(2) have "fst (p flag) \<noteq> NoResult" unfolding yields_def by blast
  with 2 show ?thesis by simp
qed (rule that)

end
