(* ===== verification/Ast.thy ===== *)
theory Ast
  imports Identifiers Outcomes
begin

text \<open>
  \<open>syntax/ast.py\<close> and the comment type of \<open>enums.py\<close>: the node types of the Fluent
  AST, one datatype per union with the source's constructors, and the checks the
  constructors run (\<open>__post_init__\<close>), which raise.  Then the properties of trees the
  theorems about the parser state: well-formedness of the nodes, position spans inside
  the source, and the nesting depth the parse context counts.
\<close>

section \<open>Nodes\<close>

datatype span = Span (span_start: nat) (span_end: nat)

datatype ident = Identifier (id_name: ustr) (id_span: "span option")

datatype comment_type = COMMENT | GROUP | RESOURCE

text \<open>
  A number literal's value: a Python \<open>int\<close>, or the \<open>Decimal\<close> of a text of the grammar,
  \<open>-?[0-9]+(.[0-9]+)?\<close>, by its sign, its coefficient and the number of digits after the point.
  The decimals of the runtime, which may be anything, are those of Fluent_Values.
\<close>

datatype plain_decimal = Decimal (dec_negative: bool) (dec_coefficient: nat) (dec_scale: nat)

datatype number_value = IntValue int | DecimalValue plain_decimal

definition decimal_eq :: "plain_decimal \<Rightarrow> plain_decimal \<Rightarrow> bool" where
  "decimal_eq a b \<longleftrightarrow>
     (if dec_negative a then - 1 else 1) * int (dec_coefficient a) * 10 ^ dec_scale b =
     (if dec_negative b then - 1 else 1) * int (dec_coefficient b) * 10 ^ dec_scale a"

datatype variant_key =
    KeyIdentifier ident
  | KeyNumber number_value ustr "span option"

datatype expression =
    StringLiteral ustr "span option"
  | NumberLiteral number_value ustr "span option"
  | VariableReference ident "span option"
  | MessageReference ident "ident option" "span option"
  | TermReference ident "ident option" "call_arguments option" "span option"
  | FunctionReference ident call_arguments "span option"
  | NestedPlaceable placeable
  | SelectExpression expression "variant list" "span option"
and call_arguments = CallArguments "expression list" "named_argument list" "span option"
and named_argument = NamedArgument ident expression "span option"
and variant = Variant variant_key pattern bool "span option"
and pattern = Pattern "pattern_element list" "span option"
and pattern_element =
    TextElement ustr "span option"
  | PlaceableElement placeable
and placeable = Placeable expression "span option"

datatype attribute = Attribute (attr_id: ident) (attr_value: pattern) (attr_span: "span option")

datatype comment = Comment (comment_content: ustr) (comment_kind: comment_type) (comment_span: "span option")

datatype annotation =
  Annotation (annot_code: ustr) (annot_message: ustr)
    (annot_arguments: "(ustr \<times> ustr) list option") (annot_span: "span option")

datatype entry =
    Message ident "pattern option" "attribute list" "comment option" "span option"
  | Term ident pattern "attribute list" "comment option" "span option"
  | CommentEntry comment
  | Junk ustr "annotation list" "span option"

datatype resource = Resource (entries: "entry list")

fun variant_default :: "variant \<Rightarrow> bool" where
  "variant_default (Variant k v d sp) = d"

fun variant_key_of :: "variant \<Rightarrow> variant_key" where
  "variant_key_of (Variant k v d sp) = k"

fun variant_value :: "variant \<Rightarrow> pattern" where
  "variant_value (Variant k v d sp) = v"

fun pattern_elements :: "pattern \<Rightarrow> pattern_element list" where
  "pattern_elements (Pattern es sp) = es"

fun entry_span :: "entry \<Rightarrow> span option" where
  "entry_span (Message i v ats cm sp) = sp"
| "entry_span (Term i v ats cm sp) = sp"
| "entry_span (CommentEntry cm) = comment_span cm"
| "entry_span (Junk ct ans sp) = sp"

fun entry_comment :: "entry \<Rightarrow> comment option" where
  "entry_comment (Message i v ats cm sp) = cm"
| "entry_comment (Term i v ats cm sp) = cm"
| "entry_comment (CommentEntry c) = None"
| "entry_comment (Junk ct ans sp) = None"

section \<open>Constructors that check their arguments\<close>

definition mk_span :: "nat \<Rightarrow> nat \<Rightarrow> span parser" where
  "mk_span s e = (if e < s then raise_error ValueError else ret (Span s e))"

definition mk_select_expression ::
    "expression \<Rightarrow> variant list \<Rightarrow> span option \<Rightarrow> expression parser" where
  "mk_select_expression selector variants sp =
     (if variants = [] then raise_error ValueError
      else let default_count = length (filter variant_default variants)
           in if default_count \<noteq> 1 then raise_error ValueError
              else ret (SelectExpression selector variants sp))"

definition mk_message ::
    "ident \<Rightarrow> pattern option \<Rightarrow> attribute list \<Rightarrow> comment option \<Rightarrow> span option \<Rightarrow> entry parser" where
  "mk_message i v ats cm sp =
     (if v = None \<and> ats = [] then raise_error ValueError else ret (Message i v ats cm sp))"

text \<open>
  \<open>int(raw)\<close> and \<open>Decimal(raw)\<close> on the literals of the Fluent grammar,
  \<open>-?[0-9]+\<close> and \<open>-?[0-9]+(.[0-9]+)?\<close>; any other string is \<open>None\<close>, the
  \<open>ValueError\<close> or \<open>InvalidOperation\<close> of the conversion.
\<close>

definition digits_value :: "ustr \<Rightarrow> nat" where
  "digits_value ds = foldl (\<lambda>acc ch. 10 * acc + (ch - 48)) 0 ds"

definition strip_minus :: "ustr \<Rightarrow> bool \<times> ustr" where
  "strip_minus s =
     (case s of [] \<Rightarrow> (False, []) | ch # rest \<Rightarrow> if ch = CH_MINUS then (True, rest) else (False, s))"

definition py_int :: "ustr \<Rightarrow> int option" where
  "py_int s =
     (let (neg, ds) = strip_minus s
      in if ds = [] \<or> \<not> list_all is_ascii_digit ds then None
         else Some (if neg then - int (digits_value ds) else int (digits_value ds)))"

definition py_decimal :: "ustr \<Rightarrow> plain_decimal option" where
  "py_decimal s =
     (let (neg, body) = strip_minus s;
          int_part = takeWhile (\<lambda>ch. ch \<noteq> CH_DOT) body;
          rest = dropWhile (\<lambda>ch. ch \<noteq> CH_DOT) body;
          frac_part = tl rest
      in if int_part = [] \<or> \<not> list_all is_ascii_digit int_part then None
         else if rest = [] then Some (Decimal neg (digits_value int_part) 0)
         else if frac_part = [] \<or> \<not> list_all is_ascii_digit frac_part then None
         else Some (Decimal neg (digits_value (int_part @ frac_part)) (length frac_part)))"

definition number_literal_ok :: "number_value \<Rightarrow> ustr \<Rightarrow> bool" where
  "number_literal_ok v raw =
     (case v of
        IntValue i \<Rightarrow> (case py_int raw of None \<Rightarrow> False | Some parsed \<Rightarrow> parsed = i)
      | DecimalValue d \<Rightarrow> (case py_decimal raw of None \<Rightarrow> False | Some parsed \<Rightarrow> decimal_eq parsed d))"

definition mk_number_literal :: "number_value \<Rightarrow> ustr \<Rightarrow> span option \<Rightarrow> expression parser" where
  "mk_number_literal v raw sp =
     (if number_literal_ok v raw then ret (NumberLiteral v raw sp) else raise_error ValueError)"

definition mk_key_number :: "number_value \<Rightarrow> ustr \<Rightarrow> span option \<Rightarrow> variant_key parser" where
  "mk_key_number v raw sp =
     (if number_literal_ok v raw then ret (KeyNumber v raw sp) else raise_error ValueError)"

lemma safe_mk_span: "s \<le> e \<Longrightarrow> Q (Span s e) \<Longrightarrow> safe Q (mk_span s e)"
  by (simp add: mk_span_def safe_ret)

lemma yields_mk_span [yields_rule]: "yields (mk_span s e)"
  by (simp add: mk_span_def yields_rule)

lemma yields_mk_message [yields_rule]: "yields (mk_message i v ats cm sp)"
  by (simp add: mk_message_def yields_rule)

lemma safe_mk_select_expression:
  "length (filter variant_default vs) = 1 \<Longrightarrow> Q (SelectExpression sel vs sp) \<Longrightarrow>
     safe Q (mk_select_expression sel vs sp)"
  by (auto simp: mk_select_expression_def safe_ret)

lemma safe_mk_message: "Q (Message i (Some v) ats cm sp) \<Longrightarrow> safe Q (mk_message i (Some v) ats cm sp)"
  by (simp add: mk_message_def safe_ret)

lemma safe_mk_number_literal:
  "number_literal_ok v raw \<Longrightarrow> Q (NumberLiteral v raw sp) \<Longrightarrow> safe Q (mk_number_literal v raw sp)"
  by (simp add: mk_number_literal_def safe_ret)

lemma safe_mk_key_number:
  "number_literal_ok v raw \<Longrightarrow> Q (KeyNumber v raw sp) \<Longrightarrow> safe Q (mk_key_number v raw sp)"
  by (simp add: mk_key_number_def safe_ret)

section \<open>Nesting depth\<close>

text \<open>
  The number of placeables and argument lists around the innermost node: what the parse
  context's \<open>current_depth\<close> counts.
\<close>

definition max_list :: "nat list \<Rightarrow> nat" where
  "max_list xs = foldr max xs 0"

lemma max_list_le_iff: "max_list xs \<le> k \<longleftrightarrow> (\<forall>x \<in> set xs. x \<le> k)"
  by (induction xs) (auto simp: max_list_def)

fun nesting_expr :: "expression \<Rightarrow> nat"
and nesting_args :: "call_arguments \<Rightarrow> nat"
and nesting_named :: "named_argument \<Rightarrow> nat"
and nesting_variant :: "variant \<Rightarrow> nat"
and nesting_pattern :: "pattern \<Rightarrow> nat"
and nesting_element :: "pattern_element \<Rightarrow> nat"
and nesting_placeable :: "placeable \<Rightarrow> nat" where
  "nesting_expr (StringLiteral s sp) = 0"
| "nesting_expr (NumberLiteral v raw sp) = 0"
| "nesting_expr (VariableReference i sp) = 0"
| "nesting_expr (MessageReference i a sp) = 0"
| "nesting_expr (TermReference i a None sp) = 0"
| "nesting_expr (TermReference i a (Some args) sp) = Suc (nesting_args args)"
| "nesting_expr (FunctionReference i args sp) = Suc (nesting_args args)"
| "nesting_expr (NestedPlaceable p) = nesting_placeable p"
| "nesting_expr (SelectExpression sel vs sp) =
     max (nesting_expr sel) (max_list (map nesting_variant vs))"
| "nesting_args (CallArguments ps ns sp) =
     max (max_list (map nesting_expr ps)) (max_list (map nesting_named ns))"
| "nesting_named (NamedArgument i v sp) = nesting_expr v"
| "nesting_variant (Variant k v d sp) = nesting_pattern v"
| "nesting_pattern (Pattern es sp) = max_list (map nesting_element es)"
| "nesting_element (TextElement s sp) = 0"
| "nesting_element (PlaceableElement p) = nesting_placeable p"
| "nesting_placeable (Placeable e sp) = Suc (nesting_expr e)"

section \<open>Well-formed trees\<close>

text \<open>A span inside the first \<open>n\<close> positions of the source; a missing span is fine.\<close>

fun span_ok :: "nat \<Rightarrow> span option \<Rightarrow> bool" where
  "span_ok n None = True"
| "span_ok n (Some (Span s e)) = (s \<le> e \<and> e \<le> n)"

fun identifier_ok :: "nat \<Rightarrow> ident \<Rightarrow> bool" where
  "identifier_ok n (Identifier name sp) = (grammar_identifier name \<and> span_ok n sp)"

fun key_ok :: "nat \<Rightarrow> variant_key \<Rightarrow> bool" where
  "key_ok n (KeyIdentifier i) = identifier_ok n i"
| "key_ok n (KeyNumber v raw sp) = (number_literal_ok v raw \<and> span_ok n sp)"

fun is_literal :: "expression \<Rightarrow> bool" where
  "is_literal (StringLiteral s sp) = True"
| "is_literal (NumberLiteral v raw sp) = True"
| "is_literal e = False"

fun is_selector :: "expression \<Rightarrow> bool" where
  "is_selector (NestedPlaceable p) = False"
| "is_selector (SelectExpression sel vs sp) = False"
| "is_selector e = True"

fun is_inline :: "expression \<Rightarrow> bool" where
  "is_inline (SelectExpression sel vs sp) = False"
| "is_inline e = True"

fun named_name :: "named_argument \<Rightarrow> ustr" where
  "named_name (NamedArgument i v sp) = id_name i"

fun wf_expr :: "nat \<Rightarrow> expression \<Rightarrow> bool"
and wf_args :: "nat \<Rightarrow> call_arguments \<Rightarrow> bool"
and wf_named :: "nat \<Rightarrow> named_argument \<Rightarrow> bool"
and wf_variant :: "nat \<Rightarrow> variant \<Rightarrow> bool"
and wf_pattern :: "nat \<Rightarrow> pattern \<Rightarrow> bool"
and wf_element :: "nat \<Rightarrow> pattern_element \<Rightarrow> bool"
and wf_placeable :: "nat \<Rightarrow> placeable \<Rightarrow> bool" where
  "wf_expr n (StringLiteral s sp) = span_ok n sp"
| "wf_expr n (NumberLiteral v raw sp) = (number_literal_ok v raw \<and> span_ok n sp)"
| "wf_expr n (VariableReference i sp) = (identifier_ok n i \<and> span_ok n sp)"
| "wf_expr n (MessageReference i a sp) =
     (identifier_ok n i \<and> pred_option (identifier_ok n) a \<and> span_ok n sp)"
| "wf_expr n (TermReference i a None sp) =
     (identifier_ok n i \<and> pred_option (identifier_ok n) a \<and> span_ok n sp)"
| "wf_expr n (TermReference i a (Some args) sp) =
     (identifier_ok n i \<and> pred_option (identifier_ok n) a \<and> wf_args n args \<and> span_ok n sp)"
| "wf_expr n (FunctionReference i args sp) = (identifier_ok n i \<and> wf_args n args \<and> span_ok n sp)"
| "wf_expr n (NestedPlaceable p) = wf_placeable n p"
| "wf_expr n (SelectExpression sel vs sp) =
     (is_selector sel \<and> wf_expr n sel \<and> list_all (wf_variant n) vs \<and>
      length (filter variant_default vs) = 1 \<and> span_ok n sp)"
| "wf_args n (CallArguments ps ns sp) =
     (list_all (wf_expr n) ps \<and> list_all is_inline ps \<and> list_all (wf_named n) ns \<and> distinct (map named_name ns) \<and> span_ok n sp)"
| "wf_named n (NamedArgument i v sp) = (identifier_ok n i \<and> is_literal v \<and> wf_expr n v \<and> span_ok n sp)"
| "wf_variant n (Variant k v d sp) = (key_ok n k \<and> wf_pattern n v \<and> span_ok n sp)"
| "wf_pattern n (Pattern es sp) = (list_all (wf_element n) es \<and> span_ok n sp)"
| "wf_element n (TextElement s sp) = (s \<noteq> [] \<and> span_ok n sp)"
| "wf_element n (PlaceableElement p) = wf_placeable n p"
| "wf_placeable n (Placeable e sp) = (wf_expr n e \<and> span_ok n sp)"

fun wf_attribute :: "nat \<Rightarrow> attribute \<Rightarrow> bool" where
  "wf_attribute n (Attribute i v sp) = (identifier_ok n i \<and> wf_pattern n v \<and> span_ok n sp)"

fun wf_entry :: "nat \<Rightarrow> entry \<Rightarrow> bool" where
  "wf_entry n (Message i v ats cm sp) =
     (identifier_ok n i \<and> pred_option (wf_pattern n) v \<and> list_all (wf_attribute n) ats \<and>
      ((\<exists>p. v = Some p \<and> pattern_elements p \<noteq> []) \<or> ats \<noteq> []) \<and> span_ok n sp)"
| "wf_entry n (Term i v ats cm sp) =
     (identifier_ok n i \<and> wf_pattern n v \<and> pattern_elements v \<noteq> [] \<and>
      list_all (wf_attribute n) ats \<and> span_ok n sp)"
| "wf_entry n (CommentEntry cm) = span_ok n (comment_span cm)"
| "wf_entry n (Junk ct ans sp) = span_ok n sp"

fun nesting_entry :: "entry \<Rightarrow> nat" where
  "nesting_entry (Message i v ats cm sp) =
     max (case v of None \<Rightarrow> 0 | Some p \<Rightarrow> nesting_pattern p)
       (max_list (map (\<lambda>a. nesting_pattern (attr_value a)) ats))"
| "nesting_entry (Term i v ats cm sp) =
     max (nesting_pattern v) (max_list (map (\<lambda>a. nesting_pattern (attr_value a)) ats))"
| "nesting_entry (CommentEntry cm) = 0"
| "nesting_entry (Junk ct ans sp) = 0"

end
