(* ===== verification/Ordered_Dict.thy ===== *)
theory Ordered_Dict
  imports Prelude "HOL-Library.AList"
begin

text \<open>
  \<open>collections.OrderedDict\<close> as the cache uses it: a dictionary that remembers the order of
  insertion.  The locale states the contract of the operations, and proves from it what
  the cache's update does to the order; the association lists of the model satisfy it.
\<close>

section \<open>The contract\<close>

locale ordered_dict =
  fixes valid :: "'d \<Rightarrow> bool"
    and keys :: "'d \<Rightarrow> 'k list"
    and lookup :: "'d \<Rightarrow> 'k \<Rightarrow> 'v option"
    and set_item :: "'k \<Rightarrow> 'v \<Rightarrow> 'd \<Rightarrow> 'd"
    and del_item :: "'k \<Rightarrow> 'd \<Rightarrow> 'd"
    and move_to_end :: "'k \<Rightarrow> 'd \<Rightarrow> 'd"
    and pop_first :: "'d \<Rightarrow> 'd"
  assumes distinct_keys: "valid d \<Longrightarrow> distinct (keys d)"
    and lookup_keys: "valid d \<Longrightarrow> lookup d k = None \<longleftrightarrow> k \<notin> set (keys d)"
    and valid_set: "valid d \<Longrightarrow> valid (set_item k v d)"
    and keys_set: "valid d \<Longrightarrow> keys (set_item k v d) = (if k \<in> set (keys d) then keys d else keys d @ [k])"
    and lookup_set: "valid d \<Longrightarrow> lookup (set_item k v d) = (lookup d)(k \<mapsto> v)"
    and valid_del: "valid d \<Longrightarrow> valid (del_item k d)"
    and keys_del: "valid d \<Longrightarrow> keys (del_item k d) = removeAll k (keys d)"
    and lookup_del: "valid d \<Longrightarrow> lookup (del_item k d) = (lookup d)(k := None)"
    and valid_move: "valid d \<Longrightarrow> k \<in> set (keys d) \<Longrightarrow> valid (move_to_end k d)"
    and keys_move: "valid d \<Longrightarrow> k \<in> set (keys d) \<Longrightarrow> keys (move_to_end k d) = removeAll k (keys d) @ [k]"
    and lookup_move: "valid d \<Longrightarrow> k \<in> set (keys d) \<Longrightarrow> lookup (move_to_end k d) = lookup d"
    and valid_pop: "valid d \<Longrightarrow> keys d = k # ks \<Longrightarrow> valid (pop_first d)"
    and keys_pop: "valid d \<Longrightarrow> keys d = k # ks \<Longrightarrow> keys (pop_first d) = ks"
    and lookup_pop: "valid d \<Longrightarrow> keys d = k # ks \<Longrightarrow> lookup (pop_first d) = (lookup d)(k := None)"
begin

text \<open>Replacing or inserting at the most recent end, after the eviction a full dictionary needs.\<close>

lemma valid_update:
  assumes "valid d" "k \<in> set (keys d)"
  shows "valid (set_item k v (move_to_end k d))"
    and "keys (set_item k v (move_to_end k d)) = removeAll k (keys d) @ [k]"
    and "lookup (set_item k v (move_to_end k d)) = (lookup d)(k \<mapsto> v)"
  using assms by (simp_all add: valid_set valid_move keys_set keys_move lookup_set lookup_move)

lemma valid_insert:
  assumes "valid d" "k \<notin> set (keys d)" "0 < n"
  defines "d' \<equiv> (if n \<le> length (keys d) then pop_first d else d)"
  shows "valid (set_item k v d')"
    and "keys (set_item k v d') = (if n \<le> length (keys d) then tl (keys d) else keys d) @ [k]"
    and "lookup (set_item k v d') k = Some v"
    and "length (keys d) \<le> n \<Longrightarrow> length (keys (set_item k v d')) \<le> n"
    and "k' \<noteq> k \<Longrightarrow> k' \<in> set (keys (set_item k v d')) \<Longrightarrow> lookup (set_item k v d') k' = lookup d k'"
proof -
  have full: "\<exists>a ks. keys d = a # ks" if "n \<le> length (keys d)"
    using that assms(3) by (cases "keys d") auto
  have d': "valid d'" "keys d' = (if n \<le> length (keys d) then tl (keys d) else keys d)"
    using full assms(1) by (auto simp: d'_def valid_pop keys_pop)
  then have k: "k \<notin> set (keys d')"
    using assms(2) by (cases "keys d") (auto split: if_splits)
  show "valid (set_item k v d')" using d'(1) by (rule valid_set)
  show keys: "keys (set_item k v d') = (if n \<le> length (keys d) then tl (keys d) else keys d) @ [k]"
    using k d' by (simp add: keys_set)
  show "lookup (set_item k v d') k = Some v" using d' by (simp add: lookup_set)
  show "length (keys (set_item k v d')) \<le> n" if "length (keys d) \<le> n"
    using that keys assms(3) by (cases "keys d") auto
  show "lookup (set_item k v d') k' = lookup d k'" if "k' \<noteq> k" "k' \<in> set (keys (set_item k v d'))"
  proof (cases "n \<le> length (keys d)")
    case True
    with full obtain a ks where a: "keys d = a # ks" by blast
    with distinct_keys [OF assms(1)] that keys True have "k' \<noteq> a" by auto
    with a True that d' assms(1) show ?thesis by (simp add: lookup_set d'_def lookup_pop)
  next
    case False
    with that d' show ?thesis by (simp add: lookup_set d'_def)
  qed
qed

end

section \<open>Association lists\<close>

type_synonym ('k, 'v) odict = "('k \<times> 'v) list"

definition od_keys :: "('k, 'v) odict \<Rightarrow> 'k list" where
  "od_keys d = map fst d"

definition od_valid :: "('k, 'v) odict \<Rightarrow> bool" where
  "od_valid d \<longleftrightarrow> distinct (od_keys d)"

definition od_get :: "('k, 'v) odict \<Rightarrow> 'k \<Rightarrow> 'v option" where
  "od_get d k = map_of d k"

definition od_set :: "'k \<Rightarrow> 'v \<Rightarrow> ('k, 'v) odict \<Rightarrow> ('k, 'v) odict" where
  "od_set k v d = AList.update k v d"

definition od_del :: "'k \<Rightarrow> ('k, 'v) odict \<Rightarrow> ('k, 'v) odict" where
  "od_del k d = AList.delete k d"

definition od_move_to_end :: "'k \<Rightarrow> ('k, 'v) odict \<Rightarrow> ('k, 'v) odict" where
  "od_move_to_end k d = (case od_get d k of None \<Rightarrow> d | Some v \<Rightarrow> od_del k d @ [(k, v)])"

definition od_pop_first :: "('k, 'v) odict \<Rightarrow> ('k, 'v) odict" where
  "od_pop_first d = tl d"

lemma od_keys_del: "od_keys (od_del k d) = removeAll k (od_keys d)"
  by (induction d) (auto simp: od_keys_def od_del_def)

lemma od_get_del: "od_get (od_del k d) = (od_get d)(k := None)"
  by (simp add: od_get_def od_del_def delete_conv' fun_eq_iff)

lemma od_keys_set: "od_keys (od_set k v d) = (if k \<in> set (od_keys d) then od_keys d else od_keys d @ [k])"
  by (simp add: od_keys_def od_set_def update_keys)

lemma od_get_set: "od_get (od_set k v d) = (od_get d)(k \<mapsto> v)"
  by (simp add: od_get_def od_set_def update_conv' fun_eq_iff)

lemma od_get_None: "od_get d k = None \<longleftrightarrow> k \<notin> set (od_keys d)"
  by (simp add: od_get_def od_keys_def map_of_eq_None_iff)

lemma od_keys_move: "k \<in> set (od_keys d) \<Longrightarrow> od_keys (od_move_to_end k d) = removeAll k (od_keys d) @ [k]"
  using od_get_None [of d k] od_keys_del [of k d]
  by (auto simp: od_move_to_end_def od_keys_def)

lemma od_get_move: "od_get (od_move_to_end k d) k' = od_get d k'"
proof -
  have "map_of (od_del k d) k'' = (if k'' = k then None else map_of d k'')" for k''
    using fun_cong [OF od_get_del [of k d], of k''] by (simp add: od_get_def)
  then show ?thesis
    by (auto simp: od_move_to_end_def od_get_def map_add_def split: option.splits)
qed

lemma distinct_snoc_removeAll: "distinct xs \<Longrightarrow> distinct (removeAll x xs @ [x])"
  by (simp add: distinct_removeAll)

interpretation od: ordered_dict od_valid od_keys od_get od_set od_del od_move_to_end od_pop_first
proof (unfold_locales, goal_cases)
  case (12 d k ks)
  then show ?case by (cases d) (auto simp: od_valid_def od_keys_def od_pop_first_def)
next
  case (13 d k ks)
  then show ?case by (cases d) (auto simp: od_keys_def od_pop_first_def)
next
  case (14 d k ks)
  then show ?case
    by (cases d) (auto simp: od_valid_def od_keys_def od_pop_first_def od_get_def fun_eq_iff
        map_of_eq_None_iff)
next
  case (9 d k)
  then show ?case using od_keys_move [of k d] distinct_snoc_removeAll [of "od_keys d" k]
    by (simp add: od_valid_def od_keys_def)
qed (auto simp: od_valid_def od_get_None od_keys_del od_get_del od_keys_set od_get_set
    od_keys_move od_get_move fun_eq_iff distinct_removeAll)

end
