(* ===== verification/Reference_Graph.thy ===== *)
theory Reference_Graph
  imports Ordered_Dict Prelude "HOL-Library.List_Lexorder"
begin

text \<open>
  \<open>core/reference_graph.py\<close>: the canonical form of a cycle and the bounded depth-first search
  for cycles.  A graph is a dictionary from nodes to sets of nodes; a set is the list of its
  elements in iteration order.  The two limits, module variables of the source, are arguments,
  and the work stack has its top first.
\<close>

section \<open>Graphs and cycles\<close>

type_synonym graph = "(ustr, ustr list) odict"

definition neighbors :: "graph \<Rightarrow> ustr \<Rightarrow> ustr list" where
  "neighbors g n = (case od_get g n of None \<Rightarrow> [] | Some ns \<Rightarrow> ns)"

text \<open>\<open>xs.index(x)\<close> for an element of the list.\<close>

definition list_index :: "'a list \<Rightarrow> 'a \<Rightarrow> nat" where
  "list_index xs x = length (takeWhile (\<lambda>y. y \<noteq> x) xs)"

definition canonicalize_cycle :: "ustr list \<Rightarrow> ustr list" where
  "canonicalize_cycle cycle =
     (if length cycle \<le> 1 then cycle
      else let nodes = butlast cycle;
               min_idx = list_index nodes (Min (set nodes));
               rotated = drop min_idx nodes @ take min_idx nodes
           in rotated @ [hd rotated])"

definition make_cycle_key :: "ustr list \<Rightarrow> ustr" where
  "make_cycle_key cycle = str_join (u '' -> '') (canonicalize_cycle cycle)"

definition entry_dependency_set :: "ustr set \<Rightarrow> ustr set \<Rightarrow> ustr set" where
  "entry_dependency_set message_refs term_refs =
     (\<lambda>ref. u ''msg:'' @ ref) ` message_refs \<union> (\<lambda>ref. u ''term:'' @ ref) ` term_refs"

section \<open>The search\<close>

text \<open>A work item: a node, whether it is entered or left, and its neighbours.\<close>

type_synonym work_item = "ustr \<times> bool \<times> ustr list"

record dfs =
  df_visited :: "ustr set"
  df_cycles :: "ustr list list"
  df_seen :: "ustr list set"
  df_path :: "ustr list"
  df_rec :: "ustr set"
  df_stack :: "work_item list"

definition append_cycle :: "ustr \<Rightarrow> dfs \<Rightarrow> dfs" where
  "append_cycle neighbor d =
     (let cycle = drop (list_index (df_path d) neighbor) (df_path d) @ [neighbor];
          canonical = canonicalize_cycle cycle
      in if canonical \<in> df_seen d then d
         else d\<lparr>df_seen := insert canonical (df_seen d), df_cycles := df_cycles d @ [cycle]\<rparr>)"

definition queue_neighbor :: "graph \<Rightarrow> nat \<Rightarrow> ustr \<Rightarrow> dfs \<Rightarrow> dfs" where
  "queue_neighbor g max_stack neighbor d =
     (if neighbor \<in> df_rec d \<or> max_stack \<le> length (df_stack d) then d
      else d\<lparr>df_stack := (neighbor, True, neighbors g neighbor) # df_stack d\<rparr>)"

fun scan_neighbors :: "graph \<Rightarrow> nat \<Rightarrow> nat \<Rightarrow> ustr list \<Rightarrow> dfs \<Rightarrow> dfs" where
  "scan_neighbors g max_cycles max_stack [] d = d"
| "scan_neighbors g max_cycles max_stack (x # xs) d =
     (if x \<in> df_rec d then
        let d = append_cycle x d
        in if max_cycles \<le> length (df_cycles d) then d else scan_neighbors g max_cycles max_stack xs d
      else scan_neighbors g max_cycles max_stack xs (queue_neighbor g max_stack x d))"

definition visit_entering_node :: "graph \<Rightarrow> nat \<Rightarrow> nat \<Rightarrow> ustr \<Rightarrow> ustr list \<Rightarrow> dfs \<Rightarrow> dfs" where
  "visit_entering_node g max_cycles max_stack node ns d =
     (if node \<in> df_rec d then d
      else scan_neighbors g max_cycles max_stack ns
             (d\<lparr>df_visited := insert node (df_visited d), df_rec := insert node (df_rec d),
                df_path := df_path d @ [node], df_stack := (node, False, []) # df_stack d\<rparr>))"

definition finish_node :: "ustr \<Rightarrow> dfs \<Rightarrow> dfs" where
  "finish_node node d = d\<lparr>df_path := butlast (df_path d), df_rec := df_rec d - {node}\<rparr>"

definition dfs_step :: "graph \<Rightarrow> nat \<Rightarrow> nat \<Rightarrow> dfs \<Rightarrow> dfs" where
  "dfs_step g max_cycles max_stack d =
     (case df_stack d of
        [] \<Rightarrow> d
      | (node, entering, ns) # rest \<Rightarrow>
          let d = d\<lparr>df_stack := rest\<rparr>
          in if entering then visit_entering_node g max_cycles max_stack node ns d else finish_node node d)"

partial_function (option) dfs_loop :: "graph \<Rightarrow> nat \<Rightarrow> nat \<Rightarrow> dfs \<Rightarrow> dfs option" where
  "dfs_loop g max_cycles max_stack d =
     (if df_stack d = [] \<or> max_cycles \<le> length (df_cycles d) then Some d
      else dfs_loop g max_cycles max_stack (dfs_step g max_cycles max_stack d))"

definition start_dfs :: "graph \<Rightarrow> ustr \<Rightarrow> dfs \<Rightarrow> dfs" where
  "start_dfs g n d = d\<lparr>df_path := [], df_rec := {}, df_stack := [(n, True, neighbors g n)]\<rparr>"

fun detect_from :: "graph \<Rightarrow> nat \<Rightarrow> nat \<Rightarrow> ustr list \<Rightarrow> dfs \<Rightarrow> dfs option" where
  "detect_from g max_cycles max_stack [] d = Some d"
| "detect_from g max_cycles max_stack (n # ns) d =
     (if n \<in> df_visited d then detect_from g max_cycles max_stack ns d
      else if max_cycles \<le> length (df_cycles d) then Some d
      else (case dfs_loop g max_cycles max_stack (start_dfs g n d) of
              None \<Rightarrow> None
            | Some d \<Rightarrow> detect_from g max_cycles max_stack ns d))"

definition empty_dfs :: dfs where
  "empty_dfs = \<lparr>df_visited = {}, df_cycles = [], df_seen = {}, df_path = [], df_rec = {}, df_stack = []\<rparr>"

definition detect_cycles :: "graph \<Rightarrow> nat \<Rightarrow> nat \<Rightarrow> ustr list list option" where
  "detect_cycles g max_cycles max_stack =
     map_option df_cycles (detect_from g max_cycles max_stack (od_keys g) empty_dfs)"

section \<open>Walks and elementary cycles\<close>

definition edge :: "graph \<Rightarrow> ustr \<Rightarrow> ustr \<Rightarrow> bool" where
  "edge g a b \<longleftrightarrow> b \<in> set (neighbors g a)"

abbreviation walk :: "graph \<Rightarrow> ustr list \<Rightarrow> bool" where
  "walk g \<equiv> successively (edge g)"

text \<open>A closed walk without repetition but of its end, as the search reports it.\<close>

definition is_cycle :: "graph \<Rightarrow> ustr list \<Rightarrow> bool" where
  "is_cycle g c \<longleftrightarrow> (\<exists>x xs. c = x # xs @ [x] \<and> distinct (x # xs) \<and> walk g c)"

definition universe :: "graph \<Rightarrow> ustr set" where
  "universe g = set (od_keys g) \<union> (\<Union>ns \<in> snd ` set g. set ns)"

lemma finite_universe: "finite (universe g)"
  by (simp add: universe_def)

lemma edge_universe:
  assumes "edge g a b"
  shows "a \<in> set (od_keys g)" "b \<in> universe g"
proof -
  obtain ns where "map_of g a = Some ns" "b \<in> set ns"
    using assms by (cases "map_of g a") (auto simp: edge_def neighbors_def od_get_def)
  then show "a \<in> set (od_keys g)" "b \<in> universe g"
    by (force simp: od_keys_def universe_def dest: map_of_SomeD)+
qed

lemma keys_universe: "n \<in> set (od_keys g) \<Longrightarrow> n \<in> universe g"
  by (simp add: universe_def)

text \<open>The suffix of a path from a node that it visits once.\<close>

lemma list_index_append:
  assumes "x \<notin> set as"
  shows "list_index (as @ x # bs) x = length as"
proof -
  have "takeWhile (\<lambda>y. y \<noteq> x) (as @ x # bs) = as"
    using assms by (induction as) auto
  then show ?thesis by (simp add: list_index_def)
qed

lemma drop_list_index:
  assumes "x \<notin> set as"
  shows "drop (list_index (as @ x # bs) x) (as @ x # bs) = x # bs"
  unfolding list_index_append [OF assms] by simp

lemma take_list_index:
  assumes "x \<notin> set as"
  shows "take (list_index (as @ x # bs) x) (as @ x # bs) = as"
  unfolding list_index_append [OF assms] by simp

lemma cycle_of_path:
  assumes "walk g p" "distinct p" "x \<in> set p" "edge g (last p) x"
  shows "is_cycle g (drop (list_index p x) p @ [x])"
proof -
  obtain as bs where p: "p = as @ x # bs" "x \<notin> set as" by (meson assms(3) split_list_first)
  have "drop (list_index p x) p @ [x] = x # bs @ [x]" unfolding p(1) drop_list_index [OF p(2)] by simp
  moreover have "distinct (x # bs)" "walk g (x # bs)" "edge g (last (x # bs)) x"
    using assms p by (auto simp: successively_append_iff)
  ultimately show ?thesis
    unfolding is_cycle_def
    by (intro exI [of _ x] exI [of _ bs]) (simp add: successively_append_iff flip: append_Cons)
qed

subsection \<open>The canonical form\<close>

definition rotation :: "'a list \<Rightarrow> 'a list \<Rightarrow> bool" where
  "rotation xs ys \<longleftrightarrow> (\<exists>as bs. xs = as @ bs \<and> ys = bs @ as)"

lemma canonicalize_split:
  assumes "m \<notin> set as" "m = Min (set (as @ m # bs))"
  shows "canonicalize_cycle ((as @ m # bs) @ [x]) = m # bs @ as @ [m]"
proof -
  have "\<not> length ((as @ m # bs) @ [x]) \<le> 1" by simp
  moreover have "butlast ((as @ m # bs) @ [x]) = as @ m # bs" by (rule butlast_snoc)
  ultimately have "canonicalize_cycle ((as @ m # bs) @ [x]) =
      (let rotated = drop (list_index (as @ m # bs) m) (as @ m # bs) @ take (list_index (as @ m # bs) m) (as @ m # bs)
       in rotated @ [hd rotated])"
    unfolding canonicalize_cycle_def Let_def using assms(2) by presburger
  then show ?thesis
    unfolding drop_list_index [OF assms(1)] take_list_index [OF assms(1)] by simp
qed

lemma min_split:
  assumes "xs \<noteq> []"
  obtains as bs where "xs = as @ Min (set xs) # bs" "Min (set xs) \<notin> set as"
  using split_list_first [OF Min_in [of "set xs"]] assms by (metis List.finite_set set_empty)

text \<open>The canonical form names a cycle up to rotation.\<close>

lemma canonicalize_rotation:
  assumes "rotation xs ys" "distinct xs" "xs \<noteq> []"
  shows "canonicalize_cycle (xs @ [x]) = canonicalize_cycle (ys @ [y])"
proof -
  from assms(1) obtain as bs where ab: "xs = as @ bs" "ys = bs @ as" by (auto simp: rotation_def)
  have s: "set ys = set xs" by (auto simp: ab)
  define m where "m = Min (set xs)"
  obtain us vs where uv: "xs = us @ m # vs" "m \<notin> set us" using min_split assms(3) unfolding m_def by blast
  have x: "canonicalize_cycle (xs @ [x]) = m # vs @ us @ [m]"
    using canonicalize_split [of m us vs x] uv m_def by metis
  from uv(1) ab(1) consider ws where "as = us @ m # ws" "vs = ws @ bs" | ws where "us = as @ ws" "bs = ws @ m # vs"
    by (auto simp: append_eq_append_conv2 Cons_eq_append_conv append_eq_Cons_conv)
  then show ?thesis
  proof cases
    case (1 ws)
    then have "ys = (bs @ us) @ m # ws" "m \<notin> set (bs @ us)" using ab uv assms(2) by auto
    with canonicalize_split [of m "bs @ us" ws y] s m_def have "canonicalize_cycle (ys @ [y]) = m # ws @ (bs @ us) @ [m]"
      by metis
    with x 1 show ?thesis by simp
  next
    case (2 ws)
    then have "ys = ws @ m # (vs @ as)" "m \<notin> set ws" using ab uv assms(2) by auto
    with canonicalize_split [of m ws "vs @ as" y] s m_def have "canonicalize_cycle (ys @ [y]) = m # (vs @ as) @ ws @ [m]"
      by metis
    with x 2 show ?thesis by simp
  qed
qed

end
