(* ===== verification/Reference_Graph_Proofs.thy ===== *)
theory Reference_Graph_Proofs
  imports Reference_Graph
begin

text \<open>
  The depth-first search: the invariant of its state, the measure that makes its loop end, and
  what the pending work can still find.
\<close>

section \<open>The invariant\<close>

text \<open>
  The work stack under a path, deepest node first: each item to leave is the next node of the
  path, and above it stand neighbours of that node, off the path, to enter.
\<close>

fun stack_ok :: "graph \<Rightarrow> ustr list \<Rightarrow> work_item list \<Rightarrow> bool" where
  "stack_ok g rp [] \<longleftrightarrow> rp = []"
| "stack_ok g rp ((n, True, ns) # st) \<longleftrightarrow>
     n \<notin> set rp \<and> n \<in> universe g \<and> ns = neighbors g n \<and>
     (case rp of [] \<Rightarrow> True | p # _ \<Rightarrow> edge g p n) \<and> stack_ok g rp st"
| "stack_ok g rp ((n, False, ns) # st) \<longleftrightarrow>
     (case rp of [] \<Rightarrow> False | p # rp' \<Rightarrow> n = p \<and> stack_ok g rp' st)"

definition cycles_ok :: "graph \<Rightarrow> nat \<Rightarrow> dfs \<Rightarrow> bool" where
  "cycles_ok g mc d \<longleftrightarrow>
     (\<forall>c\<in>set (df_cycles d). is_cycle g c) \<and> df_seen d = canonicalize_cycle ` set (df_cycles d) \<and>
     distinct (map canonicalize_cycle (df_cycles d)) \<and> length (df_cycles d) \<le> mc"

definition path_ok :: "graph \<Rightarrow> dfs \<Rightarrow> bool" where
  "path_ok g d \<longleftrightarrow>
     df_rec d = set (df_path d) \<and> distinct (df_path d) \<and> walk g (df_path d) \<and> set (df_path d) \<subseteq> universe g"

definition dfs_ok :: "graph \<Rightarrow> nat \<Rightarrow> dfs \<Rightarrow> bool" where
  "dfs_ok g mc d \<longleftrightarrow> cycles_ok g mc d \<and> path_ok g d \<and> stack_ok g (rev (df_path d)) (df_stack d)"

lemma append_cycle_ok:
  assumes "cycles_ok g mc d" "path_ok g d" "x \<in> df_rec d" "edge g (last (df_path d)) x" "length (df_cycles d) < mc"
  shows "cycles_ok g mc (append_cycle x d)"
proof -
  have "is_cycle g (drop (list_index (df_path d) x) (df_path d) @ [x])"
    using assms(2-4) by (intro cycle_of_path) (auto simp: path_ok_def)
  with assms show ?thesis by (auto simp: append_cycle_def Let_def cycles_ok_def)
qed

lemma append_cycle_same [simp]:
  "df_path (append_cycle x d) = df_path d" "df_rec (append_cycle x d) = df_rec d"
  "df_stack (append_cycle x d) = df_stack d" "df_visited (append_cycle x d) = df_visited d"
  by (simp_all add: append_cycle_def Let_def)

lemma queue_neighbor_same [simp]:
  "df_path (queue_neighbor g ms x d) = df_path d" "df_rec (queue_neighbor g ms x d) = df_rec d"
  "df_cycles (queue_neighbor g ms x d) = df_cycles d" "df_seen (queue_neighbor g ms x d) = df_seen d"
  "df_visited (queue_neighbor g ms x d) = df_visited d"
  by (simp_all add: queue_neighbor_def)

lemma scan_neighbors_ok:
  assumes "dfs_ok g mc d" "df_path d \<noteq> []" "\<forall>x\<in>set xs. edge g (last (df_path d)) x" "length (df_cycles d) < mc"
  shows "dfs_ok g mc (scan_neighbors g mc ms xs d) \<and> df_path (scan_neighbors g mc ms xs d) = df_path d \<and>
    df_visited (scan_neighbors g mc ms xs d) = df_visited d"
  using assms
proof (induction xs arbitrary: d)
  case (Cons x xs)
  have e: "edge g (last (df_path d)) x" using Cons.prems(3) by simp
  show ?case
  proof (cases "x \<in> df_rec d")
    case True
    have "dfs_ok g mc (append_cycle x d)"
      using append_cycle_ok [OF _ _ True e Cons.prems(4)] Cons.prems(1) by (auto simp: dfs_ok_def path_ok_def)
    with True Cons.IH [of "append_cycle x d"] Cons.prems(2,3) show ?thesis by (auto simp: Let_def not_le)
  next
    case False
    have "dfs_ok g mc (queue_neighbor g ms x d)"
      using Cons.prems(1,2) e False edge_universe(2) [OF e]
      by (auto simp: dfs_ok_def path_ok_def cycles_ok_def queue_neighbor_def hd_rev split: list.split)
    with False Cons.IH [of "queue_neighbor g ms x d"] Cons.prems(2-4) show ?thesis by auto
  qed
qed simp

lemma path_snoc: "walk g (p @ [n]) \<longleftrightarrow> walk g p \<and> (p \<noteq> [] \<longrightarrow> edge g (last p) n)"
  by (auto simp: successively_append_iff)

lemma dfs_step_ok:
  assumes "dfs_ok g mc d" "length (df_cycles d) < mc"
  shows "dfs_ok g mc (dfs_step g mc ms d)"
proof (cases "df_stack d")
  case Nil
  with assms show ?thesis by (simp add: dfs_step_def)
next
  case (Cons item rest)
  obtain n entering ns where item: "item = (n, entering, ns)" by (cases item)
  show ?thesis
  proof (cases entering)
    case False
    with assms Cons item obtain rp where "rev (df_path d) = n # rp" "stack_ok g rp rest"
      by (auto simp: dfs_ok_def split: list.splits)
    then have "df_path d = rev rp @ [n]" "stack_ok g rp rest" by (simp_all add: rev_eq_Cons_iff)
    with assms Cons item False show ?thesis
      by (auto simp: dfs_step_def finish_node_def dfs_ok_def path_ok_def cycles_ok_def path_snoc)
  next
    case True
    define d' where "d' = d\<lparr>df_visited := insert n (df_visited d), df_rec := insert n (df_rec d),
      df_path := df_path d @ [n], df_stack := (n, False, []) # rest\<rparr>"
    have top: "n \<notin> set (df_path d)" "n \<in> universe g" "ns = neighbors g n" "df_path d \<noteq> [] \<longrightarrow> edge g (last (df_path d)) n"
        "stack_ok g (rev (df_path d)) rest"
      using assms(1) Cons item True by (auto simp: dfs_ok_def split: list.splits simp flip: hd_rev)
    with assms have "dfs_ok g mc d'"
      by (auto simp: d'_def dfs_ok_def path_ok_def cycles_ok_def path_snoc)
    moreover have "dfs_step g mc ms d = scan_neighbors g mc ms ns d'"
      using assms(1) top Cons item True
      by (simp add: dfs_step_def visit_entering_node_def d'_def dfs_ok_def path_ok_def)
    ultimately show ?thesis
      using scan_neighbors_ok [of g mc d' ns ms] top(3) assms(2) by (simp add: d'_def edge_def)
  qed
qed

section \<open>The loop ends\<close>

text \<open>
  The weight of a work item: one for leaving, and for entering a node at depth \<open>k\<close> of the
  path more than its leaving and all its neighbours one level deeper.
\<close>

definition degree :: "graph \<Rightarrow> nat" where
  "degree g = (\<Sum>n\<in>universe g. length (neighbors g n))"

definition enter_weight :: "graph \<Rightarrow> nat \<Rightarrow> nat" where
  "enter_weight g k = (degree g + 2) ^ Suc (card (universe g) - k)"

fun work :: "graph \<Rightarrow> nat \<Rightarrow> work_item list \<Rightarrow> nat" where
  "work g k [] = 0"
| "work g k ((n, True, ns) # st) = enter_weight g k + work g k st"
| "work g k ((n, False, ns) # st) = 1 + work g (k - 1) st"

lemma length_neighbors: "length (neighbors g n) \<le> degree g"
proof (cases "n \<in> universe g")
  case True
  then show ?thesis
    unfolding degree_def using member_le_sum [of n "universe g" "\<lambda>n. length (neighbors g n)"] finite_universe by simp
next
  case False
  then have "neighbors g n = []"
    using edge_universe(1) [of g n "hd (neighbors g n)"] keys_universe [of n g]
    by (cases "neighbors g n") (auto simp: edge_def)
  then show ?thesis by simp
qed

lemma enter_weight_step:
  assumes "k < card (universe g)"
  shows "1 + degree g * enter_weight g (Suc k) < enter_weight g k"
proof -
  let ?w = "enter_weight g (Suc k)"
  have "enter_weight g k = (degree g + 2) * ?w"
    using assms by (simp add: enter_weight_def Suc_diff_Suc)
  moreover have "0 < ?w" by (simp add: enter_weight_def)
  ultimately show ?thesis by simp
qed

lemma scan_neighbors_work:
  "work g k (df_stack (scan_neighbors g mc ms xs d)) \<le> work g k (df_stack d) + length xs * enter_weight g k"
proof (induction xs arbitrary: d)
  case (Cons x xs)
  have "work g k (df_stack (queue_neighbor g ms x d)) \<le> work g k (df_stack d) + enter_weight g k"
    by (simp add: queue_neighbor_def)
  with Cons [of "queue_neighbor g ms x d"] Cons [of "append_cycle x d"] show ?case by (auto simp: Let_def)
qed simp

lemma dfs_step_work:
  assumes "dfs_ok g mc d" "df_stack d \<noteq> []"
  shows "work g (length (df_path (dfs_step g mc ms d))) (df_stack (dfs_step g mc ms d)) <
    work g (length (df_path d)) (df_stack d)"
proof -
  obtain n entering ns rest where st: "df_stack d = (n, entering, ns) # rest"
    using assms(2) by (metis list.exhaust prod.exhaust)
  show ?thesis
  proof (cases entering)
    case False
    with st show ?thesis by (simp add: dfs_step_def finish_node_def)
  next
    case True
    let ?k = "length (df_path d)"
    define d' where "d' = d\<lparr>df_visited := insert n (df_visited d), df_rec := insert n (df_rec d),
      df_path := df_path d @ [n], df_stack := (n, False, []) # rest\<rparr>"
    have n: "n \<notin> set (df_path d)" "n \<in> universe g" "ns = neighbors g n"
      using assms(1) st True by (auto simp: dfs_ok_def)
    have step: "dfs_step g mc ms d = scan_neighbors g mc ms ns d'"
      using assms(1) n st True by (simp add: dfs_step_def visit_entering_node_def d'_def dfs_ok_def path_ok_def)
    have path: "df_path (scan_neighbors g mc ms xs e) = df_path e" for xs e
      by (induction xs arbitrary: e) (simp_all add: Let_def)
    have "card (insert n (set (df_path d))) \<le> card (universe g)"
      using assms(1) n(2) by (intro card_mono finite_universe) (auto simp: dfs_ok_def path_ok_def)
    then have "?k < card (universe g)"
      using n(1) assms(1) by (simp add: dfs_ok_def path_ok_def distinct_card)
    then have "1 + length ns * enter_weight g (Suc ?k) < enter_weight g ?k"
      using enter_weight_step [of ?k g] length_neighbors [of g n] n(3)
      by (meson add_left_mono le_less_trans mult_le_mono1)
    then have "1 + work g ?k rest + length ns * enter_weight g (Suc ?k) < work g ?k (df_stack d)"
      using st True by simp
    moreover have "work g (Suc ?k) (df_stack (scan_neighbors g mc ms ns d')) \<le>
        1 + work g ?k rest + length ns * enter_weight g (Suc ?k)"
      using scan_neighbors_work [of g "Suc ?k" mc ms ns d'] by (simp add: d'_def)
    ultimately show ?thesis by (simp add: step path) (simp add: d'_def)
  qed
qed

text \<open>The loop returns, with any property that each of its steps keeps.\<close>

lemma dfs_loop_returns:
  assumes "dfs_ok g mc d" "P d"
    and step: "\<And>d. dfs_ok g mc d \<Longrightarrow> P d \<Longrightarrow> df_stack d \<noteq> [] \<Longrightarrow> length (df_cycles d) < mc \<Longrightarrow> P (dfs_step g mc ms d)"
  shows "\<exists>d'. dfs_loop g mc ms d = Some d' \<and> dfs_ok g mc d' \<and> P d' \<and> (df_stack d' = [] \<or> mc \<le> length (df_cycles d'))"
  using assms(1,2)
proof (induction "work g (length (df_path d)) (df_stack d)" arbitrary: d rule: less_induct)
  case less
  show ?case
  proof (cases "df_stack d = [] \<or> mc \<le> length (df_cycles d)")
    case True
    with less.prems show ?thesis by (subst dfs_loop.simps) simp
  next
    case False
    then have "df_stack d \<noteq> []" "length (df_cycles d) < mc" by auto
    with less.hyps [OF dfs_step_work [OF less.prems(1), of ms] dfs_step_ok [OF less.prems(1)] step [OF less.prems]] False
    show ?thesis by (subst dfs_loop.simps) simp
  qed
qed

section \<open>The depth of the work stack\<close>

text \<open>
  Above the item that leaves a node stand at most its neighbours, so the stack never holds
  more than one item for each node and each edge, and one.
\<close>

fun frame_cap :: "graph \<Rightarrow> ustr list \<Rightarrow> nat" where
  "frame_cap g [] = 1"
| "frame_cap g (p # rp) = length (neighbors g p)"

fun frames_ok :: "graph \<Rightarrow> nat \<Rightarrow> ustr list \<Rightarrow> work_item list \<Rightarrow> bool" where
  "frames_ok g k rp [] \<longleftrightarrow> True"
| "frames_ok g k rp ((n, True, ns) # st) \<longleftrightarrow> 0 < k \<and> frames_ok g (k - 1) rp st"
| "frames_ok g k rp ((n, False, ns) # st) \<longleftrightarrow> frames_ok g (frame_cap g (tl rp)) (tl rp) st"

fun room :: "graph \<Rightarrow> ustr list \<Rightarrow> nat" where
  "room g [] = 0"
| "room g (p # rp) = 1 + frame_cap g rp + room g rp"

lemma frames_ok_mono: "frames_ok g k rp st \<Longrightarrow> k \<le> k' \<Longrightarrow> frames_ok g k' rp st"
proof (induction g k rp st arbitrary: k' rule: frames_ok.induct)
  case (2 g k rp n ns st)
  then show ?case by simp
qed simp_all

lemma stack_length: "stack_ok g rp st \<Longrightarrow> frames_ok g k rp st \<Longrightarrow> length st \<le> k + room g rp"
proof (induction g rp st arbitrary: k rule: stack_ok.induct)
  case (2 g rp n ns st)
  then show ?case using "2.IH" [of "k - 1"] by auto
next
  case (3 g rp n ns st)
  then show ?case by (cases rp) fastforce+
qed simp

lemma room_bound:
  assumes "distinct rp" "set rp \<subseteq> universe g"
  shows "frame_cap g rp + room g rp \<le> 1 + card (universe g) + degree g"
proof -
  have "frame_cap g rp + room g rp = 1 + length rp + (\<Sum>p\<leftarrow>rp. length (neighbors g p))"
    by (induction rp) simp_all
  moreover have "length rp \<le> card (universe g)"
    using card_mono [OF finite_universe assms(2)] distinct_card [OF assms(1)] by simp
  moreover have "(\<Sum>p\<leftarrow>rp. length (neighbors g p)) \<le> degree g"
    unfolding degree_def sum_list_distinct_conv_sum_set [OF assms(1)]
    by (rule sum_mono2 [OF finite_universe assms(2)]) simp
  ultimately show ?thesis by simp
qed

lemma scan_neighbors_frames:
  "frames_ok g k rp (df_stack d) \<Longrightarrow> frames_ok g (k + length xs) rp (df_stack (scan_neighbors g mc ms xs d))"
proof (induction xs arbitrary: k d)
  case (Cons x xs)
  have "frames_ok g (Suc k) rp (df_stack (queue_neighbor g ms x d))"
    using Cons.prems frames_ok_mono [OF Cons.prems, of "Suc k"] by (simp add: queue_neighbor_def)
  from Cons.IH [OF this] Cons.IH [of k "append_cycle x d"] Cons.prems show ?case
    by (auto simp: Let_def intro: frames_ok_mono)
qed simp

section \<open>What the pending work finds\<close>

text \<open>The canonical cycles that a search from \<open>n\<close> closes after the path \<open>p\<close>.\<close>

definition path_cycle :: "ustr list \<Rightarrow> ustr \<Rightarrow> ustr list" where
  "path_cycle p x = canonicalize_cycle (drop (list_index p x) p @ [x])"

definition closes :: "graph \<Rightarrow> ustr list \<Rightarrow> ustr \<Rightarrow> ustr list \<Rightarrow> bool" where
  "closes g p n c \<longleftrightarrow> (\<exists>q x. walk g (n # q) \<and> distinct (p @ n # q) \<and> edge g (last (n # q)) x \<and>
     x \<in> set (p @ n # q) \<and> c = path_cycle (p @ n # q) x)"

lemma closes_cases:
  assumes "closes g p n c"
  obtains x where "edge g n x" "x \<in> set (p @ [n])" "c = path_cycle (p @ [n]) x"
  | x where "edge g n x" "x \<notin> set (p @ [n])" "closes g (p @ [n]) x c"
proof -
  obtain q x where q: "walk g (n # q)" "distinct (p @ n # q)" "edge g (last (n # q)) x" "x \<in> set (p @ n # q)"
      "c = path_cycle (p @ n # q) x"
    using assms by (auto simp: closes_def)
  show thesis
  proof (cases q)
    case Nil
    with q that(1) show thesis by auto
  next
    case (Cons y ys)
    with q have "edge g n y" "y \<notin> set (p @ [n])" by auto
    moreover have "closes g (p @ [n]) y c"
      unfolding closes_def using q Cons by (intro exI [of _ ys] exI [of _ x]) auto
    ultimately show thesis by (rule that(2))
  qed
qed

fun pending :: "graph \<Rightarrow> ustr list \<Rightarrow> work_item list \<Rightarrow> ustr list set" where
  "pending g rp [] = {}"
| "pending g rp ((n, True, ns) # st) = {c. closes g (rev rp) n c} \<union> pending g rp st"
| "pending g rp ((n, False, ns) # st) = pending g (tl rp) st"

lemma append_cycle_found:
  "path_cycle (df_path d) x \<in> df_seen (append_cycle x d)" "df_seen d \<subseteq> df_seen (append_cycle x d)"
  by (auto simp: append_cycle_def path_cycle_def Let_def)

lemma scan_neighbors_finds:
  assumes "length (df_cycles (scan_neighbors g mc ms xs d)) < mc" "length (df_stack d) + length xs \<le> ms"
  shows "df_seen d \<subseteq> df_seen (scan_neighbors g mc ms xs d) \<and>
    pending g rp (df_stack d) \<subseteq> pending g rp (df_stack (scan_neighbors g mc ms xs d)) \<and>
    (\<forall>x\<in>set xs. if x \<in> df_rec d then path_cycle (df_path d) x \<in> df_seen (scan_neighbors g mc ms xs d)
       else {c. closes g (rev rp) x c} \<subseteq> pending g rp (df_stack (scan_neighbors g mc ms xs d)))"
  using assms
proof (induction xs arbitrary: d)
  case (Cons x xs)
  show ?case
  proof (cases "x \<in> df_rec d")
    case True
    with Cons.prems have "\<not> mc \<le> length (df_cycles (append_cycle x d))" by (auto simp: Let_def)
    with True Cons.prems Cons.IH [of "append_cycle x d"] append_cycle_found [of d x] show ?thesis
      by (auto simp: Let_def)
  next
    case False
    with Cons.prems Cons.IH [of "queue_neighbor g ms x d"] show ?thesis
      by (auto simp: queue_neighbor_def split: if_splits)
  qed
qed simp

text \<open>A step loses no cycle, and keeps the stack in its frames and the nodes in a closed set.\<close>

definition complete_ok :: "graph \<Rightarrow> ustr set \<Rightarrow> ustr list set \<Rightarrow> nat \<Rightarrow> dfs \<Rightarrow> bool" where
  "complete_ok g R C mc d \<longleftrightarrow>
     frames_ok g (frame_cap g (rev (df_path d))) (rev (df_path d)) (df_stack d) \<and>
     df_visited d \<subseteq> R \<and> fst ` set (df_stack d) \<subseteq> R \<and>
     (length (df_cycles d) < mc \<longrightarrow> C \<subseteq> df_seen d \<union> pending g (rev (df_path d)) (df_stack d))"

lemma scan_neighbors_nodes:
  "fst ` set (df_stack (scan_neighbors g mc ms xs d)) \<subseteq> fst ` set (df_stack d) \<union> set xs"
proof (induction xs arbitrary: d)
  case (Cons x xs)
  have "fst ` set (df_stack (queue_neighbor g ms x d)) \<subseteq> insert x (fst ` set (df_stack d))"
    by (auto simp: queue_neighbor_def)
  with Cons [of "queue_neighbor g ms x d"] Cons [of "append_cycle x d"] show ?case
    by (simp add: Let_def) blast
qed simp

lemma scan_neighbors_cycles: "length (df_cycles d) \<le> length (df_cycles (scan_neighbors g mc ms xs d))"
proof (induction xs arbitrary: d)
  case (Cons x xs)
  have "length (df_cycles d) \<le> length (df_cycles (append_cycle x d))" by (simp add: append_cycle_def Let_def)
  with Cons [of "queue_neighbor g ms x d"] Cons [of "append_cycle x d"] show ?case by (auto simp: Let_def)
qed simp

lemma dfs_step_complete:
  assumes "dfs_ok g mc d" "complete_ok g R C mc d" "df_stack d \<noteq> []" "length (df_cycles d) < mc"
    and closed: "\<And>a b. a \<in> R \<Longrightarrow> edge g a b \<Longrightarrow> b \<in> R" and room: "card (universe g) + degree g < ms"
  shows "complete_ok g R C mc (dfs_step g mc ms d)"
proof -
  obtain n entering ns rest where st: "df_stack d = (n, entering, ns) # rest"
    using assms(3) by (metis list.exhaust prod.exhaust)
  let ?rp = "rev (df_path d)"
  show ?thesis
  proof (cases entering)
    case False
    then obtain rp where rp: "?rp = n # rp"
      using assms(1) st by (auto simp: dfs_ok_def split: list.splits)
    then have "df_path d = rev rp @ [n]" by (simp add: rev_eq_Cons_iff)
    then have "rev (butlast (df_path d)) = rp" by simp
    then show ?thesis
      using assms(2,4) st False rp by (simp add: complete_ok_def dfs_step_def finish_node_def)
  next
    case True
    define d' where "d' = d\<lparr>df_visited := insert n (df_visited d), df_rec := insert n (df_rec d),
      df_path := df_path d @ [n], df_stack := (n, False, []) # rest\<rparr>"
    let ?d = "scan_neighbors g mc ms ns d'"
    have n: "n \<notin> set (df_path d)" "n \<in> universe g" "ns = neighbors g n" "stack_ok g ?rp rest"
      using assms(1) st True by (auto simp: dfs_ok_def)
    have step: "dfs_step g mc ms d = ?d"
      using assms(1) n st True by (simp add: dfs_step_def visit_entering_node_def d'_def dfs_ok_def path_ok_def)
    have path: "df_path (scan_neighbors g mc ms xs e) = df_path e" "df_visited (scan_neighbors g mc ms xs e) = df_visited e"
        for xs e by (induction xs arbitrary: e) (simp_all add: Let_def)
    have frames: "frames_ok g (frame_cap g ?rp) ?rp rest"
      using assms(2) st True frames_ok_mono [of g _ ?rp rest] by (auto simp: complete_ok_def)
    have "length rest + length ns < ms"
    proof -
      have "length rest \<le> frame_cap g ?rp + room g ?rp" by (rule stack_length [OF n(4) frames])
      moreover have "distinct (n # ?rp)" "set (n # ?rp) \<subseteq> universe g"
        using assms(1) n by (auto simp: dfs_ok_def path_ok_def)
      ultimately show ?thesis using room_bound [of "n # ?rp" g] n(3) room by simp
    qed
    then have len: "length (df_stack d') + length ns \<le> ms" by (simp add: d'_def)
    have "frames_ok g (length ns) (n # ?rp) (df_stack ?d)"
      using scan_neighbors_frames [of g 0 "n # ?rp" d' ns mc ms] frames by (simp add: d'_def)
    moreover have "df_visited ?d \<subseteq> R" "fst ` set (df_stack ?d) \<subseteq> R"
    proof -
      have R: "n \<in> R" "fst ` set rest \<subseteq> R" "df_visited d \<subseteq> R"
        using assms(2) st by (simp_all add: complete_ok_def)
      then have "set ns \<subseteq> R" using closed [of n] n(3) by (auto simp: edge_def)
      with R have "fst ` set (df_stack d') \<union> set ns \<subseteq> R" by (simp add: d'_def)
      then show "fst ` set (df_stack ?d) \<subseteq> R" using scan_neighbors_nodes by (rule subset_trans [rotated])
      show "df_visited ?d \<subseteq> R" using R by (simp add: path) (simp add: d'_def)
    qed
    moreover have "C \<subseteq> df_seen ?d \<union> pending g (n # ?rp) (df_stack ?d)" if "length (df_cycles ?d) < mc"
    proof -
      note found = scan_neighbors_finds [OF that len, of "n # ?rp"]
      have "c \<in> df_seen ?d \<union> pending g (n # ?rp) (df_stack ?d)" if "closes g (df_path d) n c" for c
        using that
      proof (cases rule: closes_cases)
        case (1 x)
        then have "x \<in> set ns" "x \<in> df_rec d'"
          using assms(1) n(3) by (auto simp: edge_def d'_def dfs_ok_def path_ok_def)
        with found 1(3) show ?thesis by (auto simp: d'_def)
      next
        case (2 x)
        then have "x \<in> set ns" "x \<notin> df_rec d'"
          using assms(1) n(3) by (auto simp: edge_def d'_def dfs_ok_def path_ok_def)
        with bspec [OF found [THEN conjunct2, THEN conjunct2], of x] 2(3) show ?thesis by auto
      qed
      moreover have "C \<subseteq> df_seen d \<union> {c. closes g (df_path d) n c} \<union> pending g ?rp rest"
        using assms(2,4) st True by (auto simp: complete_ok_def)
      ultimately show ?thesis using found by (auto simp: d'_def)
    qed
    ultimately show ?thesis using n(3) by (simp add: step complete_ok_def path) (simp add: d'_def path)
  qed
qed

section \<open>All start nodes\<close>

abbreviation reaches :: "graph \<Rightarrow> ustr \<Rightarrow> ustr \<Rightarrow> bool" where
  "reaches g \<equiv> (edge g)\<^sup>*\<^sup>*"

definition explored :: "graph \<Rightarrow> ustr set \<Rightarrow> dfs \<Rightarrow> bool" where
  "explored g S d \<longleftrightarrow> df_visited d \<subseteq> {v. \<exists>s\<in>S. reaches g s v} \<and> (\<forall>s\<in>S. {c. closes g [] s c} \<subseteq> df_seen d)"

lemma start_dfs_ok:
  assumes "cycles_ok g mc d" "n \<in> universe g"
  shows "dfs_ok g mc (start_dfs g n d)"
  using assms by (simp add: dfs_ok_def path_ok_def cycles_ok_def start_dfs_def)

lemma detect_from_ok:
  assumes "cycles_ok g mc d" "set ns \<subseteq> universe g"
  shows "\<exists>d'. detect_from g mc ms ns d = Some d' \<and> cycles_ok g mc d'"
  using assms
proof (induction ns arbitrary: d)
  case (Cons n ns)
  obtain d1 where "dfs_loop g mc ms (start_dfs g n d) = Some d1" "dfs_ok g mc d1"
    using dfs_loop_returns [of g mc "start_dfs g n d" "\<lambda>_. True" ms] start_dfs_ok Cons.prems by auto
  with Cons show ?case by (auto simp: dfs_ok_def)
qed simp

lemma detect_from_full: "mc \<le> length (df_cycles d) \<Longrightarrow> detect_from g mc ms ns d = Some d"
  by (induction ns) simp_all

lemma detect_from_complete:
  assumes "cycles_ok g mc d" "explored g S d" "set ns \<subseteq> universe g"
    and room: "card (universe g) + degree g < ms"
    and "detect_from g mc ms ns d = Some d'" "length (df_cycles d') < mc"
  shows "\<exists>S'. S \<subseteq> S' \<and> explored g S' d' \<and> set ns \<subseteq> {v. \<exists>s\<in>S'. reaches g s v}"
  using assms(1-3,5)
proof (induction ns arbitrary: d S)
  case Nil
  then show ?case by auto
next
  case (Cons n ns)
  show ?case
  proof (cases "n \<in> df_visited d")
    case True
    with Cons.prems have rest: "detect_from g mc ms ns d = Some d'" "set ns \<subseteq> universe g" by simp_all
    from Cons.IH [OF Cons.prems(1,2) rest(2,1)] obtain S' where
        S': "S \<subseteq> S'" "explored g S' d'" "set ns \<subseteq> {v. \<exists>s\<in>S'. reaches g s v}" by blast
    moreover have "\<exists>s\<in>S'. reaches g s n"
      using True Cons.prems(2) S'(1) unfolding explored_def by blast
    ultimately show ?thesis by auto
  next
    case False
    have lt: "\<not> mc \<le> length (df_cycles d)" using Cons.prems(4) False assms(6) by (auto split: if_splits)
    let ?S = "insert n S" and ?C = "df_seen d \<union> {c. closes g [] n c}"
    let ?R = "{v. \<exists>s\<in>?S. reaches g s v}"
    have ok: "dfs_ok g mc (start_dfs g n d)" using start_dfs_ok Cons.prems by simp
    have start: "complete_ok g ?R ?C mc (start_dfs g n d)"
      using Cons.prems(2) by (auto simp: complete_ok_def start_dfs_def explored_def)
    have closed: "b \<in> ?R" if "a \<in> ?R" "edge g a b" for a b
      using that by (auto intro: rtranclp.rtrancl_into_rtrancl)
    have step: "complete_ok g ?R ?C mc (dfs_step g mc ms e)"
      if "dfs_ok g mc e" "complete_ok g ?R ?C mc e" "df_stack e \<noteq> []" "length (df_cycles e) < mc" for e
      by (rule dfs_step_complete [OF that _ room]) (rule closed)
    obtain d1 where d1: "dfs_loop g mc ms (start_dfs g n d) = Some d1" "dfs_ok g mc d1" "complete_ok g ?R ?C mc d1"
        "df_stack d1 = [] \<or> mc \<le> length (df_cycles d1)"
      using dfs_loop_returns [of g mc _ "complete_ok g ?R ?C mc", OF ok start step] by blast
    have rest: "detect_from g mc ms ns d1 = Some d'" using Cons.prems(4) False lt d1(1) by simp
    have "length (df_cycles d1) < mc"
      using rest assms(6) detect_from_full [of mc d1 g ms ns] by (cases "mc \<le> length (df_cycles d1)") auto
    with d1(4) have "df_stack d1 = []" "length (df_cycles d1) < mc" by auto
    with d1(3) have "?C \<subseteq> df_seen d1" "df_visited d1 \<subseteq> ?R"
      using d1(2) by (auto simp: complete_ok_def dfs_ok_def)
    with Cons.prems(2) have "explored g ?S d1" unfolding explored_def by blast
    with Cons.IH [of d1 ?S] rest d1(2) Cons.prems(3) obtain S' where
        S': "?S \<subseteq> S'" "explored g S' d'" "set ns \<subseteq> {v. \<exists>s\<in>S'. reaches g s v}"
      by (auto simp: dfs_ok_def)
    then show ?thesis by (intro exI [of _ S']) auto
  qed
qed

section \<open>Every cycle is closed from every node that reaches it\<close>

lemma simple_path:
  assumes "reaches g s v" "v \<in> T"
  shows "\<exists>w x. walk g (w @ [x]) \<and> distinct (w @ [x]) \<and> hd (w @ [x]) = s \<and> x \<in> T \<and> set w \<inter> T = {}"
  using assms
proof (induction rule: converse_rtranclp_induct)
  case base
  then show ?case by (intro exI [of _ "[]"] exI [of _ v]) simp
next
  case (step a b)
  then obtain w x where w: "walk g (w @ [x])" "distinct (w @ [x])" "hd (w @ [x]) = b" "x \<in> T" "set w \<inter> T = {}"
    by blast
  consider "a \<in> T" | as bs where "w = as @ a # bs" "a \<notin> T" | "a \<notin> T" "a \<notin> set w"
    by (metis split_list)
  then show ?case
  proof cases
    case 1
    then show ?thesis by (intro exI [of _ "[]"] exI [of _ a]) simp
  next
    case (2 as bs)
    with w show ?thesis
      by (intro exI [of _ "a # bs"] exI [of _ x]) (auto simp: successively_append_iff)
  next
    case 3
    with w step(1) have "walk g ((a # w) @ [x])" by (cases w) auto
    with 3 w show ?thesis by (intro exI [of _ "a # w"] exI [of _ x]) auto
  qed
qed

lemma reach_closes:
  assumes "reaches g s v" "is_cycle g c" "v \<in> set c"
  shows "closes g [] s (canonicalize_cycle c)"
proof -
  obtain y ys where c: "c = (y # ys) @ [y]" "distinct (y # ys)" "walk g c"
    using assms(2) by (auto simp: is_cycle_def)
  with assms(3) have "v \<in> set (y # ys)" by auto
  from simple_path [OF assms(1) this] obtain w x where w: "walk g (w @ [x])" "distinct (w @ [x])"
      "hd (w @ [x]) = s" "x \<in> set (y # ys)" "set w \<inter> set (y # ys) = {}" by blast
  obtain as bs where ab: "y # ys = as @ x # bs" using w(4) by (meson split_list)
  let ?r = "x # bs @ as"
  have cab: "walk g (as @ x # bs @ [y])" "as \<noteq> [] \<longrightarrow> hd as = y" "as = [] \<longrightarrow> x = y"
    using c ab by (auto simp: Cons_eq_append_conv)
  have "walk g (as @ (x # bs) @ [y])" using cab(1) by simp
  then have parts: "walk g as" "walk g (x # bs)" "edge g (last (x # bs)) y" "as \<noteq> [] \<longrightarrow> edge g (last as) x"
    by (auto simp only: successively_append_iff append_is_Nil_conv list.sel list.distinct hd_append if_False)
  have "walk g ((x # bs) @ as)"
    using parts(1-3) cab(2) by (simp only: successively_append_iff) auto
  moreover have "last ((x # bs) @ as) = (if as = [] then last (x # bs) else last as)" by simp
  ultimately have r: "walk g ?r" "edge g (last ?r) x"
    using parts(3,4) cab(3) by (auto split: if_splits)
  obtain q where q: "s # q = w @ ?r" using w(3) by (cases w) auto
  have "walk g (s # q)" using w(1) r(1) unfolding q by (auto simp: successively_append_iff)
  moreover have "distinct (s # q)"
  proof -
    have "set ?r = set (y # ys)" "distinct ?r" using ab c(2) by auto
    with w show ?thesis unfolding q by auto
  qed
  moreover have "edge g (last (s # q)) x" "x \<in> set (s # q)" using r(2) unfolding q by auto
  moreover have "canonicalize_cycle c = path_cycle (s # q) x"
  proof -
    have "rotation (y # ys) ?r" unfolding rotation_def ab by (intro exI [of _ as] exI [of _ "x # bs"]) simp
    from canonicalize_rotation [OF this c(2), of y x] have "canonicalize_cycle c = canonicalize_cycle (?r @ [x])"
      by (simp add: c(1))
    then show ?thesis
      unfolding path_cycle_def q using drop_list_index [of x w "bs @ as"] w(2) by simp
  qed
  ultimately show ?thesis
    unfolding closes_def append.simps(1) by (intro exI [of _ q] exI [of _ x] conjI)
qed

text \<open>Both halves of the search together.\<close>

lemma empty_dfs_ok: "cycles_ok g mc empty_dfs" "explored g {} empty_dfs"
  by (simp_all add: cycles_ok_def explored_def empty_dfs_def)

lemma detect_cycles_returns: "\<exists>d. detect_from g mc ms (od_keys g) empty_dfs = Some d \<and> cycles_ok g mc d"
  using detect_from_ok [OF empty_dfs_ok(1)] keys_universe by blast

lemma detect_cycles_all:
  assumes "detect_from g mc ms (od_keys g) empty_dfs = Some d" "length (df_cycles d) < mc"
    and "card (universe g) + degree g < ms" "is_cycle g c"
  shows "canonicalize_cycle c \<in> df_seen d"
proof -
  obtain S where S: "explored g S d" "set (od_keys g) \<subseteq> {v. \<exists>s\<in>S. reaches g s v}"
    using detect_from_complete [OF empty_dfs_ok _ assms(3,1,2)] keys_universe by blast
  obtain x xs where c: "c = x # xs @ [x]" "walk g c" using assms(4) by (auto simp: is_cycle_def)
  then have "edge g x (hd (xs @ [x]))" by (cases xs) auto
  then have "x \<in> set (od_keys g)" by (rule edge_universe)
  with S(2) obtain s where s: "s \<in> S" "reaches g s x" by blast
  have "closes g [] s (canonicalize_cycle c)"
    by (rule reach_closes [OF s(2) assms(4)]) (simp add: c(1))
  with S(1) s(1) show ?thesis unfolding explored_def by blast
qed

end
