(* ===== verification/Validation_Results.thy ===== *)
theory Validation_Results
  imports Ast
begin

text \<open>\<open>diagnostics/validation.py\<close>: the errors, warnings and annotations of a validation.\<close>

datatype warning_severity = CRITICAL | WARNING | INFO

text \<open>The code is the name of the \<open>DiagnosticCode\<close> member.\<close>

record validation_error =
  ve_code :: ustr
  ve_message :: ustr
  ve_content :: ustr
  ve_line :: "nat option"
  ve_column :: "nat option"

record validation_warning =
  vw_code :: ustr
  vw_message :: ustr
  vw_context :: "ustr option"
  vw_line :: "nat option"
  vw_column :: "nat option"
  vw_severity :: warning_severity

record validation_result =
  vr_errors :: "validation_error list"
  vr_warnings :: "validation_warning list"
  vr_annotations :: "annotation list"

definition is_valid_result :: "validation_result \<Rightarrow> bool" where
  "is_valid_result r \<longleftrightarrow> length (vr_errors r) = 0 \<and> length (vr_annotations r) = 0"

definition from_annotations :: "annotation list \<Rightarrow> validation_result" where
  "from_annotations ans = \<lparr>vr_errors = [], vr_warnings = [], vr_annotations = ans\<rparr>"

end
