(* ===== verification/Resource_Graph.thy ===== *)
theory Resource_Graph
  imports Reference_Graph_Proofs Validation_Results
begin

text \<open>
  \<open>validation/resource_graph.py\<close>: the warnings about circular references and about chains of
  references that are too long, from a dependency graph.  The longest paths are computed by an
  iterative depth-first search with a memo table.
\<close>

definition startswith :: "ustr \<Rightarrow> ustr \<Rightarrow> bool" where
  "startswith prefix s \<longleftrightarrow> take (length prefix) s = prefix"

section \<open>Circular references\<close>

definition is_msg_node :: "ustr \<Rightarrow> bool" where
  "is_msg_node n = startswith (u ''msg:'') n"

definition is_term_node :: "ustr \<Rightarrow> bool" where
  "is_term_node n = startswith (u ''term:'') n"

definition format_cycle_node :: "ustr \<Rightarrow> ustr list" where
  "format_cycle_node n =
     (if is_msg_node n then [drop 4 n] else if is_term_node n then [u ''-'' @ drop 5 n] else [])"

definition cycle_warning :: "ustr list \<Rightarrow> validation_warning" where
  "cycle_warning cycle =
     (let cycle_str = str_join (u '' -> '') (concat (map format_cycle_node cycle));
          has_messages = list_ex is_msg_node cycle;
          has_terms = list_ex is_term_node cycle;
          kind = (if has_messages \<and> has_terms then u ''Circular cross-reference: ''
                  else if has_terms then u ''Circular term reference: ''
                  else u ''Circular message reference: '')
      in \<lparr>vw_code = u ''VALIDATION_CIRCULAR_REFERENCE'', vw_message = kind @ cycle_str, vw_context = Some cycle_str,
          vw_line = None, vw_column = None, vw_severity = CRITICAL\<rparr>)"

fun warn_cycles :: "ustr list list \<Rightarrow> ustr set \<Rightarrow> validation_warning list" where
  "warn_cycles [] seen = []"
| "warn_cycles (c # cs) seen =
     (if make_cycle_key c \<in> seen then warn_cycles cs seen
      else cycle_warning c # warn_cycles cs (insert (make_cycle_key c) seen))"

definition detect_circular_references :: "graph \<Rightarrow> nat \<Rightarrow> nat \<Rightarrow> validation_warning list option" where
  "detect_circular_references g max_cycles max_stack =
     map_option (\<lambda>cycles. warn_cycles cycles {}) (detect_cycles g max_cycles max_stack)"

section \<open>Longest paths\<close>

type_synonym path_table = "(ustr, nat \<times> ustr list) odict"

record lp_state =
  lp_table :: path_table
  lp_open :: "ustr set"
  lp_stack :: "work_item list"

text \<open>The best continuation over the children that are in the table; the first one wins.\<close>

definition best_child :: "path_table \<Rightarrow> ustr list \<Rightarrow> nat \<times> ustr list" where
  "best_child table children =
     foldl (\<lambda>(best_depth, best_path) child.
         case od_get table child of
           None \<Rightarrow> (best_depth, best_path)
         | Some (child_depth, child_path) \<Rightarrow>
             if best_depth < child_depth + 1 then (child_depth + 1, child_path) else (best_depth, best_path))
       (0, []) children"

definition lp_step :: "graph \<Rightarrow> lp_state \<Rightarrow> lp_state" where
  "lp_step g s =
     (case lp_stack s of
        [] \<Rightarrow> s
      | (node, True, children) # rest \<Rightarrow>
          if od_get (lp_table s) node \<noteq> None then s\<lparr>lp_stack := rest\<rparr>
          else
            let opened = insert node (lp_open s);
                queued = map (\<lambda>child. (child, True, neighbors g child))
                           (filter (\<lambda>child. od_get (lp_table s) child = None \<and> child \<notin> opened) children)
            in s\<lparr>lp_open := opened, lp_stack := rev queued @ (node, False, children) # rest\<rparr>
      | (node, False, children) # rest \<Rightarrow>
          (case best_child (lp_table s) children of
             (best_depth, best_path) \<Rightarrow>
               s\<lparr>lp_open := lp_open s - {node}, lp_stack := rest,
                 lp_table := od_set node (best_depth, node # best_path) (lp_table s)\<rparr>))"

partial_function (option) lp_loop :: "graph \<Rightarrow> lp_state \<Rightarrow> lp_state option" where
  "lp_loop g s = (if lp_stack s = [] then Some s else lp_loop g (lp_step g s))"

fun longest_from :: "graph \<Rightarrow> ustr list \<Rightarrow> lp_state \<Rightarrow> lp_state option" where
  "longest_from g [] s = Some s"
| "longest_from g (n # ns) s =
     (if od_get (lp_table s) n \<noteq> None then longest_from g ns s
      else (case lp_loop g (s\<lparr>lp_stack := [(n, True, neighbors g n)]\<rparr>) of
              None \<Rightarrow> None
            | Some s \<Rightarrow> longest_from g ns s))"

definition empty_lp :: lp_state where
  "empty_lp = \<lparr>lp_table = [], lp_open = {}, lp_stack = []\<rparr>"

definition compute_longest_paths :: "graph \<Rightarrow> path_table option" where
  "compute_longest_paths g = map_option lp_table (longest_from g (od_keys g) empty_lp)"

section \<open>Long chains\<close>

definition format_chain_node :: "ustr \<Rightarrow> ustr" where
  "format_chain_node n = (if is_msg_node n then drop 4 n else u ''-'' @ drop 5 n)"

definition chain_warning :: "int \<Rightarrow> nat \<times> ustr list \<Rightarrow> validation_warning" where
  "chain_warning max_depth chain =
     (case chain of (chain_depth, chain_path) \<Rightarrow>
        let chain_str =
              str_join (u '' -> '') (map format_chain_node (take 10 chain_path)) @
              (if 10 < length chain_path
               then u '' -> ... ('' @ dec_digits (length chain_path) @ u '' total)'' else []);
            limit = (if max_depth < 0 then CH_MINUS # dec_digits (nat (- max_depth)) else dec_digits (nat max_depth))
        in \<lparr>vw_code = u ''VALIDATION_CHAIN_DEPTH_EXCEEDED'',
            vw_message = u ''Reference chain depth ('' @ dec_digits chain_depth @ u '') exceeds maximum ('' @ limit @
              u ''); will fail at runtime with MAX_DEPTH_EXCEEDED'',
            vw_context = Some chain_str, vw_line = None, vw_column = None, vw_severity = WARNING\<rparr>)"

definition exceeding_chains :: "int \<Rightarrow> path_table \<Rightarrow> (nat \<times> ustr list) list" where
  "exceeding_chains max_depth table =
     map snd (filter (\<lambda>(node, depth, path). max_depth < int depth \<and> path \<noteq> [] \<and> hd path = node) table)"

text \<open>\<open>sort(key=depth, reverse=True)\<close> keeps the order of equal depths.\<close>

definition detect_long_chains :: "graph \<Rightarrow> int \<Rightarrow> validation_warning list option" where
  "detect_long_chains g max_depth =
     (if g = [] then Some []
      else map_option (\<lambda>table. map (chain_warning max_depth)
             (sort_key (\<lambda>chain. - int (fst chain)) (exceeding_chains max_depth table))) (compute_longest_paths g))"

section \<open>The invariant of the search\<close>

text \<open>Every entry of the table is a walk that starts at its node and has the length it states.\<close>

definition table_sound :: "graph \<Rightarrow> path_table \<Rightarrow> bool" where
  "table_sound g table \<longleftrightarrow>
     (\<forall>n d p. od_get table n = Some (d, p) \<longrightarrow> walk g p \<and> p \<noteq> [] \<and> hd p = n \<and> length p = Suc d)"

text \<open>The children of the nodes that are open: known, open, or waiting above.\<close>

fun kids_ok :: "ustr set \<Rightarrow> work_item list \<Rightarrow> bool" where
  "kids_ok known [] \<longleftrightarrow> True"
| "kids_ok known ((n, True, ns) # st) \<longleftrightarrow> kids_ok (insert n known) st"
| "kids_ok known ((n, False, ns) # st) \<longleftrightarrow> set ns \<subseteq> known \<and> kids_ok known st"

definition lp_ok :: "graph \<Rightarrow> ustr list \<Rightarrow> lp_state \<Rightarrow> bool" where
  "lp_ok g rp s \<longleftrightarrow>
     lp_open s = set rp \<and> distinct rp \<and> walk g (rev rp) \<and> set rp \<subseteq> universe g \<and>
     stack_ok g rp (lp_stack s) \<and> (\<forall>(n, e, ns)\<in>set (lp_stack s). ns = neighbors g n) \<and>
     kids_ok (set (od_keys (lp_table s)) \<union> set rp) (lp_stack s) \<and>
     set (od_keys (lp_table s)) \<subseteq> universe g \<and> set (od_keys (lp_table s)) \<inter> set rp = {} \<and>
     table_sound g (lp_table s) \<and> distinct (od_keys (lp_table s))"

lemma kids_ok_mono: "kids_ok a st \<Longrightarrow> a \<subseteq> b \<Longrightarrow> kids_ok b st"
proof (induction a st arbitrary: b rule: kids_ok.induct)
  case (2 known n ns st)
  then show ?case using "2.IH" [of "insert n b"] by auto
qed auto

lemma best_child_spec:
  assumes "table_sound g table" "\<forall>c\<in>set children. edge g n c"
  shows "walk g (n # snd (best_child table children)) \<and>
    length (snd (best_child table children)) = fst (best_child table children)"
    and "c \<in> set children \<Longrightarrow> od_get table c = Some (d, p) \<Longrightarrow> d < fst (best_child table children)"
proof -
  let ?f = "\<lambda>(bd, bp) child. case od_get table child of None \<Rightarrow> (bd, bp)
      | Some (cd, cp) \<Rightarrow> if bd < cd + 1 then (cd + 1, cp) else (bd, bp)"
  have "walk g (n # snd (foldl ?f (bd, bp) cs)) \<and> length (snd (foldl ?f (bd, bp) cs)) = fst (foldl ?f (bd, bp) cs) \<and>
      bd \<le> fst (foldl ?f (bd, bp) cs) \<and>
      (\<forall>c\<in>set cs. \<forall>d p. od_get table c = Some (d, p) \<longrightarrow> d < fst (foldl ?f (bd, bp) cs))"
    if "walk g (n # bp)" "length bp = bd" "set cs \<subseteq> set children" for bd bp cs
    using that
  proof (induction cs arbitrary: bd bp)
    case (Cons c cs)
    show ?case
    proof (cases "od_get table c")
      case None
      with Cons show ?thesis by simp
    next
      case (Some e)
      obtain cd cp where e: "e = (cd, cp)" by (cases e)
      have "walk g cp" "cp \<noteq> []" "hd cp = c" "length cp = Suc cd"
        using assms(1) Some e unfolding table_sound_def by blast+
      moreover have "edge g n c" using assms(2) Cons.prems(3) by simp
      ultimately have "walk g (n # cp)" "length cp = cd + 1" by (auto simp: successively_Cons)
      with Cons.IH [of cp "cd + 1"] Cons.IH [of bp bd] Cons.prems show ?thesis
        by (simp add: Some e)
    qed
  qed simp
  from this [of "[]" 0 children]
  have "walk g (n # snd (best_child table children)) \<and>
      length (snd (best_child table children)) = fst (best_child table children) \<and>
      (\<forall>c\<in>set children. \<forall>d p. od_get table c = Some (d, p) \<longrightarrow> d < fst (best_child table children))"
    by (simp add: best_child_def)
  then show "walk g (n # snd (best_child table children)) \<and>
      length (snd (best_child table children)) = fst (best_child table children)"
    and "c \<in> set children \<Longrightarrow> od_get table c = Some (d, p) \<Longrightarrow> d < fst (best_child table children)"
    by blast+
qed

definition table_max :: "graph \<Rightarrow> path_table \<Rightarrow> bool" where
  "table_max g table \<longleftrightarrow> (\<forall>n d p w. od_get table n = Some (d, p) \<longrightarrow> walk g (n # w) \<longrightarrow> length w \<le> d)"

definition lp_measure :: "graph \<Rightarrow> lp_state \<Rightarrow> nat" where
  "lp_measure g s =
     card (universe g - set (od_keys (lp_table s)) - lp_open s) * (degree g + 2) + length (lp_stack s)"

lemma od_get_Some_key: "od_get d k \<noteq> None \<longleftrightarrow> k \<in> set (od_keys d)"
  using od_get_None [of d k] by auto

lemma lp_skip:
  assumes "lp_ok g rp s" "lp_stack s = (n, True, ns) # rest" "od_get (lp_table s) n \<noteq> None"
  shows "lp_ok g rp (lp_step g s) \<and> lp_measure g (lp_step g s) < lp_measure g s \<and>
    lp_table (lp_step g s) = lp_table s"
proof -
  have "n \<in> set (od_keys (lp_table s))" using assms(3) by (simp only: od_get_Some_key [symmetric] not_False_eq_True)
  then have "insert n (set (od_keys (lp_table s)) \<union> set rp) = set (od_keys (lp_table s)) \<union> set rp" by auto
  with assms show ?thesis by (auto simp: lp_step_def lp_ok_def lp_measure_def)
qed

lemma queued_ok:
  assumes "kids_ok (known \<union> set cs) st" "stack_ok g (n # rp) st"
    and "\<forall>c\<in>set cs. c \<notin> set (n # rp) \<and> edge g n c"
  shows "kids_ok known (rev (map (\<lambda>c. (c, True, neighbors g c)) cs) @ st) \<and>
    stack_ok g (n # rp) (rev (map (\<lambda>c. (c, True, neighbors g c)) cs) @ st)"
  using assms
proof (induction cs arbitrary: known rule: rev_induct)
  case (snoc c cs)
  from snoc.IH [of "insert c known"] snoc.prems edge_universe(2) [of g n c] show ?case by simp
qed simp

lemma lp_enter:
  assumes "lp_ok g rp s" "lp_stack s = (n, True, ns) # rest" "od_get (lp_table s) n = None"
  shows "lp_ok g (n # rp) (lp_step g s) \<and> lp_measure g (lp_step g s) < lp_measure g s \<and>
    lp_table (lp_step g s) = lp_table s"
proof -
  let ?known = "set (od_keys (lp_table s)) \<union> set (n # rp)"
  define cs where "cs = filter (\<lambda>c. od_get (lp_table s) c = None \<and> c \<notin> set (n # rp)) ns"
  let ?queued = "rev (map (\<lambda>c. (c, True, neighbors g c)) cs)"
  have n: "n \<notin> set rp" "n \<in> universe g" "ns = neighbors g n" "n \<notin> set (od_keys (lp_table s))"
      "case rp of [] \<Rightarrow> True | p # x \<Rightarrow> edge g p n" "stack_ok g rp rest"
    using assms by (auto simp: lp_ok_def od_get_None)
  have step: "lp_step g s = s\<lparr>lp_open := set (n # rp), lp_stack := ?queued @ (n, False, ns) # rest\<rparr>"
    using assms by (simp add: lp_step_def lp_ok_def cs_def)
  have "set ns \<subseteq> ?known \<union> set cs" by (auto simp: cs_def od_get_None)
  moreover have "kids_ok ?known rest"
    using assms(1,2) by (auto simp: lp_ok_def elim: kids_ok_mono)
  ultimately have "kids_ok (?known \<union> set cs) ((n, False, ns) # rest)"
    by (auto elim: kids_ok_mono)
  moreover have "\<forall>c\<in>set cs. c \<notin> set (n # rp) \<and> edge g n c"
    using n(3) by (auto simp: cs_def edge_def)
  moreover have "stack_ok g (n # rp) ((n, False, ns) # rest)" using n(6) by simp
  ultimately have stack: "kids_ok ?known (?queued @ (n, False, ns) # rest)"
      "stack_ok g (n # rp) (?queued @ (n, False, ns) # rest)"
    using queued_ok by blast+
  have "walk g (rev (n # rp))"
    using assms(1) n(5) by (auto simp: lp_ok_def successively_append_iff last_rev split: list.splits)
  with assms stack n have "lp_ok g (n # rp) (lp_step g s)"
    by (auto simp: lp_ok_def step)
  moreover have "lp_measure g (lp_step g s) < lp_measure g s"
  proof -
    let ?A = "universe g - set (od_keys (lp_table s)) - set rp"
    have "card ?A = Suc (card (?A - {n}))"
      using n finite_universe by (metis Diff_iff card.remove finite_Diff)
    moreover have "universe g - set (od_keys (lp_table s)) - set (n # rp) = ?A - {n}" by auto
    moreover have "length cs \<le> degree g"
      using length_neighbors [of g n] length_filter_le le_trans unfolding cs_def n(3) by blast
    ultimately show ?thesis using assms(1,2) by (simp add: lp_measure_def step lp_ok_def)
  qed
  ultimately show ?thesis by (simp add: step)
qed

lemma walk_reaches: "walk g (x # xs) \<Longrightarrow> reaches g x (last (x # xs))"
proof (induction xs arbitrary: x)
  case (Cons y ys)
  then have "edge g x y" "reaches g y (last (y # ys))" by auto
  then show ?case by (simp add: converse_rtranclp_into_rtranclp)
qed simp

lemma lp_exit:
  assumes "lp_ok g rp s" "lp_stack s = (n, False, ns) # rest"
  shows "lp_ok g (tl rp) (lp_step g s) \<and> lp_measure g (lp_step g s) < lp_measure g s \<and>
    (acyclicP (edge g) \<and> table_max g (lp_table s) \<longrightarrow> table_max g (lp_table (lp_step g s)))"
proof -
  obtain rp' where rp: "rp = n # rp'" "stack_ok g rp' rest"
    using assms by (auto simp: lp_ok_def split: list.splits)
  have ns: "ns = neighbors g n" "n \<notin> set (od_keys (lp_table s))" "n \<in> universe g" "n \<notin> set rp'"
    using assms rp by (auto simp: lp_ok_def)
  obtain bd bp where best: "best_child (lp_table s) ns = (bd, bp)" by (cases "best_child (lp_table s) ns")
  let ?t = "od_set n (bd, n # bp) (lp_table s)"
  have step: "lp_step g s = s\<lparr>lp_open := set rp', lp_stack := rest, lp_table := ?t\<rparr>"
    using assms rp ns(4) best by (auto simp: lp_step_def lp_ok_def)
  have keys: "set (od_keys ?t) = insert n (set (od_keys (lp_table s)))" by (auto simp: od_keys_set)
  have spec: "walk g (n # bp)" "length bp = bd"
      "\<And>c d p. c \<in> set ns \<Longrightarrow> od_get (lp_table s) c = Some (d, p) \<Longrightarrow> d < bd"
  proof -
    have "table_sound g (lp_table s)" "\<forall>c\<in>set ns. edge g n c" using assms(1) ns(1) by (simp_all add: lp_ok_def edge_def)
    from best_child_spec [OF this] show "walk g (n # bp)" "length bp = bd"
        "\<And>c d p. c \<in> set ns \<Longrightarrow> od_get (lp_table s) c = Some (d, p) \<Longrightarrow> d < bd"
      unfolding best by auto
  qed
  have "walk g (rev rp')" using assms(1) by (auto simp: lp_ok_def rp(1) successively_append_iff)
  moreover have "table_sound g ?t"
    using assms(1) spec(1,2) by (auto simp: lp_ok_def table_sound_def od_get_set)
  moreover have "kids_ok (set (od_keys ?t) \<union> set rp') rest"
    using assms rp(1) by (auto simp: lp_ok_def keys elim: kids_ok_mono)
  moreover have "distinct (od_keys ?t)" using assms(1) by (simp add: od_keys_set lp_ok_def)
  ultimately have "lp_ok g rp' (lp_step g s)"
    using assms rp ns unfolding lp_ok_def step by (auto simp: keys)
  moreover have "lp_measure g (lp_step g s) < lp_measure g s"
  proof -
    have "universe g - set (od_keys ?t) - set rp' = universe g - set (od_keys (lp_table s)) - set rp"
      using rp(1) by (auto simp: keys)
    with assms show ?thesis by (simp add: lp_measure_def step lp_ok_def)
  qed
  moreover have "table_max g ?t" if "acyclicP (edge g)" "table_max g (lp_table s)"
  proof -
    have "length w \<le> bd" if "walk g (n # w)" for w
    proof (cases w)
      case (Cons c w')
      then have e: "edge g n c" "walk g (c # w')" using that by auto
      have "c \<notin> set rp"
      proof
        assume "c \<in> set rp"
        then obtain as bs where "rev rp = as @ c # bs" by (metis set_rev split_list)
        moreover have "walk g (rev rp)" "last (rev rp) = n" using assms(1) by (auto simp: lp_ok_def rp(1))
        ultimately have "walk g (c # bs)" "last (c # bs) = n" by (auto simp: successively_append_iff)
        then have "reaches g c n" using walk_reaches [of g c bs] by simp
        with e(1) have "(edge g)\<^sup>+\<^sup>+ n n" by (rule rtranclp_into_tranclp2)
        with \<open>acyclicP (edge g)\<close> show False by (auto simp: acyclic_def tranclp_unfold)
      qed
      then have "c \<in> set (od_keys (lp_table s))"
        using assms e(1) ns(1) by (auto simp: lp_ok_def edge_def)
      then have "od_get (lp_table s) c \<noteq> None" by (simp only: od_get_Some_key)
      then obtain d p where "od_get (lp_table s) c = Some (d, p)" by auto
      with e spec(3) [of c d p] \<open>table_max g (lp_table s)\<close> ns(1) Cons show ?thesis
        unfolding table_max_def edge_def by fastforce
    qed simp
    with that(2) show ?thesis unfolding table_max_def by (auto simp: od_get_set)
  qed
  ultimately show ?thesis by (simp add: step rp(1))
qed

text \<open>One step keeps the invariant, and in an acyclic graph the maximality of the table.\<close>

definition lp_good :: "graph \<Rightarrow> ustr \<Rightarrow> lp_state \<Rightarrow> bool" where
  "lp_good g n s \<longleftrightarrow>
     (\<exists>rp. lp_ok g rp s) \<and> (acyclicP (edge g) \<longrightarrow> table_max g (lp_table s)) \<and>
     n \<in> set (od_keys (lp_table s)) \<union> lp_open s \<union> fst ` set (lp_stack s)"

lemma lp_step_keys: "set (od_keys (lp_table s)) \<subseteq> set (od_keys (lp_table (lp_step g s)))"
  by (auto simp: lp_step_def od_keys_set split: list.split prod.split bool.split)

lemma lp_step_keeps:
  assumes "lp_stack s \<noteq> []" "n \<in> set (od_keys (lp_table s)) \<union> lp_open s \<union> fst ` set (lp_stack s)"
  shows "n \<in> set (od_keys (lp_table (lp_step g s))) \<union> lp_open (lp_step g s) \<union> fst ` set (lp_stack (lp_step g s))"
  using assms od_get_None [of "lp_table s" "fst (hd (lp_stack s))"]
  by (auto simp: lp_step_def od_keys_set split: list.split prod.split bool.split)

lemma lp_step_good:
  assumes "lp_good g n s" "lp_stack s \<noteq> []"
  shows "lp_good g n (lp_step g s) \<and> lp_measure g (lp_step g s) < lp_measure g s"
proof -
  obtain rp where rp: "lp_ok g rp s" using assms(1) by (auto simp: lp_good_def)
  obtain m e ns rest where st: "lp_stack s = (m, e, ns) # rest" using assms(2) by (metis list.exhaust prod.exhaust)
  have "\<exists>rp'. lp_ok g rp' (lp_step g s) \<and> lp_measure g (lp_step g s) < lp_measure g s \<and>
      (acyclicP (edge g) \<and> table_max g (lp_table s) \<longrightarrow> table_max g (lp_table (lp_step g s)))"
  proof (cases e)
    case False
    with st have "lp_stack s = (m, False, ns) # rest" by simp
    from lp_exit [OF rp this] show ?thesis by blast
  next
    case True
    with lp_skip [OF rp, of m ns rest] lp_enter [OF rp, of m ns rest] st show ?thesis
      by (cases "od_get (lp_table s) m = None") auto
  qed
  with assms lp_step_keeps [OF assms(2), of n g] show ?thesis by (auto simp: lp_good_def)
qed

lemma lp_loop_returns:
  "lp_good g n s \<Longrightarrow> \<exists>s'. lp_loop g s = Some s' \<and> lp_good g n s' \<and> lp_stack s' = [] \<and>
    set (od_keys (lp_table s)) \<subseteq> set (od_keys (lp_table s'))"
proof (induction "lp_measure g s" arbitrary: s rule: less_induct)
  case less
  show ?case
  proof (cases "lp_stack s = []")
    case True
    with less.prems show ?thesis by (subst lp_loop.simps) simp
  next
    case False
    with lp_step_good [OF less.prems] less.hyps [of "lp_step g s"] lp_step_keys [of s g] show ?thesis
      by (subst lp_loop.simps) (simp, blast)
  qed
qed

definition lp_done :: "graph \<Rightarrow> lp_state \<Rightarrow> bool" where
  "lp_done g s \<longleftrightarrow> lp_ok g [] s \<and> (acyclicP (edge g) \<longrightarrow> table_max g (lp_table s)) \<and> lp_stack s = []"

lemma longest_from_returns:
  assumes "lp_done g s" "set ns \<subseteq> universe g"
  shows "\<exists>s'. longest_from g ns s = Some s' \<and> lp_done g s' \<and>
    set (od_keys (lp_table s)) \<union> set ns \<subseteq> set (od_keys (lp_table s'))"
  using assms
proof (induction ns arbitrary: s)
  case (Cons n ns)
  show ?case
  proof (cases "n \<in> set (od_keys (lp_table s))")
    case True
    then have "od_get (lp_table s) n \<noteq> None" by (simp only: od_get_Some_key)
    with True Cons.IH [OF Cons.prems(1)] Cons.prems(2) show ?thesis by auto
  next
    case False
    then have none: "od_get (lp_table s) n = None" by (simp add: od_get_None)
    let ?s = "s\<lparr>lp_stack := [(n, True, neighbors g n)]\<rparr>"
    have "lp_ok g [] ?s" using Cons.prems by (auto simp: lp_done_def lp_ok_def)
    then have "lp_good g n ?s" using Cons.prems(1) by (auto simp: lp_good_def lp_done_def)
    from lp_loop_returns [OF this] obtain s1 where s1: "lp_loop g ?s = Some s1" "lp_good g n s1" "lp_stack s1 = []"
        "set (od_keys (lp_table s)) \<subseteq> set (od_keys (lp_table s1))" by auto
    from s1(2,3) have fin: "lp_ok g [] s1" by (auto simp: lp_good_def lp_ok_def)
    with s1 have "lp_done g s1" "n \<in> set (od_keys (lp_table s1))"
      by (auto simp: lp_done_def lp_good_def lp_ok_def)
    with Cons.IH [of s1] Cons.prems(2) s1 none show ?thesis by fastforce
  qed
qed simp

lemma compute_longest_paths_returns:
  "\<exists>table. compute_longest_paths g = Some table \<and> table_sound g table \<and> set (od_keys g) \<subseteq> set (od_keys table) \<and>
    distinct (od_keys table) \<and> (acyclicP (edge g) \<longrightarrow> table_max g table)"
proof -
  have "lp_done g empty_lp"
    by (simp add: lp_done_def lp_ok_def empty_lp_def od_keys_def table_sound_def table_max_def od_get_def)
  from longest_from_returns [OF this, of "od_keys g"] obtain s where
      "longest_from g (od_keys g) empty_lp = Some s" "lp_done g s" "set (od_keys g) \<subseteq> set (od_keys (lp_table s))"
    using keys_universe by blast
  then show ?thesis by (auto simp: compute_longest_paths_def lp_done_def lp_ok_def)
qed

end
