(* ===== verification/Reference_Extraction.thy ===== *)
theory Reference_Extraction
  imports Ast Resource_Graph
begin

text \<open>
  \<open>syntax/reference_extraction.py\<close> over the traversal of \<open>syntax/visitor.py\<close>, and the
  construction of the dependency graph in \<open>validation/resource_graph.py\<close>.  The visitor counts
  one level for every node it enters, spans included, and raises above its limit (None).  The
  iteration order of a set is the parameter \<open>order\<close>.
\<close>

section \<open>The visitor\<close>

type_synonym refs = "ustr set \<times> ustr set"

definition guarded :: "int \<Rightarrow> int \<Rightarrow> refs option \<Rightarrow> refs option" where
  "guarded limit d r = (if limit \<le> d then None else r)"

definition join_refs :: "refs option list \<Rightarrow> refs option" where
  "join_refs rs =
     foldr (\<lambda>r acc. case (r, acc) of (Some (m, t), Some (m', t')) \<Rightarrow> Some (m \<union> m', t \<union> t') | _ \<Rightarrow> None) rs (Some ({}, {}))"

definition visit_span :: "int \<Rightarrow> int \<Rightarrow> span option \<Rightarrow> refs option" where
  "visit_span limit d sp = (case sp of None \<Rightarrow> Some ({}, {}) | Some s \<Rightarrow> guarded limit d (Some ({}, {})))"

fun visit_ident :: "int \<Rightarrow> int \<Rightarrow> ident \<Rightarrow> refs option" where
  "visit_ident limit d (Identifier name sp) = guarded limit d (visit_span limit (d + 1) sp)"

definition ref_name :: "ident \<Rightarrow> ident option \<Rightarrow> ustr" where
  "ref_name i a = (case a of None \<Rightarrow> id_name i | Some b \<Rightarrow> id_name i @ u ''.'' @ id_name b)"

definition visit_option :: "('a \<Rightarrow> refs option) \<Rightarrow> 'a option \<Rightarrow> refs option" where
  "visit_option f x = (case x of None \<Rightarrow> Some ({}, {}) | Some y \<Rightarrow> f y)"

fun visit_key :: "int \<Rightarrow> int \<Rightarrow> variant_key \<Rightarrow> refs option" where
  "visit_key limit d (KeyIdentifier i) = visit_ident limit d i"
| "visit_key limit d (KeyNumber v raw sp) = guarded limit d (visit_span limit (d + 1) sp)"

text \<open>\<open>visit\<close> of each node: a message reference is collected and its children are not visited, a
  term reference is collected and its children are visited one level deeper.\<close>

fun visit_expression :: "int \<Rightarrow> int \<Rightarrow> expression \<Rightarrow> refs option"
and visit_arguments :: "int \<Rightarrow> int \<Rightarrow> call_arguments \<Rightarrow> refs option"
and visit_named :: "int \<Rightarrow> int \<Rightarrow> named_argument \<Rightarrow> refs option"
and visit_variant :: "int \<Rightarrow> int \<Rightarrow> variant \<Rightarrow> refs option"
and visit_pattern :: "int \<Rightarrow> int \<Rightarrow> pattern \<Rightarrow> refs option"
and visit_element :: "int \<Rightarrow> int \<Rightarrow> pattern_element \<Rightarrow> refs option"
and visit_placeable :: "int \<Rightarrow> int \<Rightarrow> placeable \<Rightarrow> refs option" where
  "visit_expression L d (StringLiteral s sp) = guarded L d (visit_span L (d + 1) sp)"
| "visit_expression L d (NumberLiteral v raw sp) = guarded L d (visit_span L (d + 1) sp)"
| "visit_expression L d (VariableReference i sp) =
     guarded L d (join_refs [visit_ident L (d + 1) i, visit_span L (d + 1) sp])"
| "visit_expression L d (MessageReference i a sp) = guarded L d (Some ({ref_name i a}, {}))"
| "visit_expression L d (TermReference i a None sp) =
     guarded L d (join_refs [Some ({}, {ref_name i a}), guarded L (d + 1) (join_refs
       [visit_ident L (d + 2) i, visit_option (visit_ident L (d + 2)) a, visit_span L (d + 2) sp])])"
| "visit_expression L d (TermReference i a (Some args) sp) =
     guarded L d (join_refs [Some ({}, {ref_name i a}), guarded L (d + 1) (join_refs
       [visit_ident L (d + 2) i, visit_option (visit_ident L (d + 2)) a, visit_arguments L (d + 2) args,
        visit_span L (d + 2) sp])])"
| "visit_expression L d (FunctionReference i args sp) =
     guarded L d (join_refs [visit_ident L (d + 1) i, visit_arguments L (d + 1) args, visit_span L (d + 1) sp])"
| "visit_expression L d (NestedPlaceable p) = visit_placeable L d p"
| "visit_expression L d (SelectExpression sel vs sp) =
     guarded L d (join_refs (visit_expression L (d + 1) sel # map (visit_variant L (d + 1)) vs @ [visit_span L (d + 1) sp]))"
| "visit_arguments L d (CallArguments ps ns sp) =
     guarded L d (join_refs (map (visit_expression L (d + 1)) ps @ map (visit_named L (d + 1)) ns @ [visit_span L (d + 1) sp]))"
| "visit_named L d (NamedArgument i e sp) =
     guarded L d (join_refs [visit_ident L (d + 1) i, visit_expression L (d + 1) e, visit_span L (d + 1) sp])"
| "visit_variant L d (Variant k p b sp) =
     guarded L d (join_refs [visit_key L (d + 1) k, visit_pattern L (d + 1) p, visit_span L (d + 1) sp])"
| "visit_pattern L d (Pattern es sp) =
     guarded L d (join_refs (map (visit_element L (d + 1)) es @ [visit_span L (d + 1) sp]))"
| "visit_element L d (TextElement s sp) = guarded L d (visit_span L (d + 1) sp)"
| "visit_element L d (PlaceableElement p) = visit_placeable L d p"
| "visit_placeable L d (Placeable e sp) =
     guarded L d (join_refs [visit_expression L (d + 1) e, visit_span L (d + 1) sp])"

section \<open>Extraction\<close>

type_synonym entry_data = "pattern option \<times> attribute list"

definition extract_references :: "int \<Rightarrow> entry_data \<Rightarrow> refs option" where
  "extract_references limit entry =
     join_refs (visit_option (visit_pattern limit 0) (fst entry) #
       map (\<lambda>a. visit_pattern limit 0 (attr_value a)) (snd entry))"

text \<open>By attribute, None for the value; of attributes with one name the last one counts.\<close>

fun extract_attributes ::
    "int \<Rightarrow> attribute list \<Rightarrow> (ustr option, refs) odict \<Rightarrow> (ustr option, refs) odict option" where
  "extract_attributes limit [] acc = Some acc"
| "extract_attributes limit (a # as) acc =
     (case visit_pattern limit 0 (attr_value a) of
        None \<Rightarrow> None
      | Some r \<Rightarrow> extract_attributes limit as (od_set (Some (id_name (attr_id a))) r acc))"

definition extract_references_by_attribute :: "int \<Rightarrow> entry_data \<Rightarrow> (ustr option, refs) odict option" where
  "extract_references_by_attribute limit entry =
     (case fst entry of
        None \<Rightarrow> extract_attributes limit (snd entry) []
      | Some p \<Rightarrow>
          (case visit_pattern limit 0 p of
             None \<Rightarrow> None
           | Some r \<Rightarrow> extract_attributes limit (snd entry) [(None, r)]))"

section \<open>The dependency graph\<close>

type_synonym set_graph = "(ustr, ustr set) odict"

definition resolve_reference ::
    "ustr \<Rightarrow> ustr \<Rightarrow> (ustr, entry_data) odict \<Rightarrow> ustr set option \<Rightarrow> ustr option" where
  "resolve_reference ref prefix local_entries known =
     (let is_known = (\<lambda>name. name \<in> set (od_keys local_entries) \<or>
            (case known of None \<Rightarrow> False | Some ids \<Rightarrow> name \<in> ids))
      in if CH_DOT \<in> set ref then
           (let base = takeWhile (\<lambda>ch. ch \<noteq> CH_DOT) ref; attr = tl (dropWhile (\<lambda>ch. ch \<noteq> CH_DOT) ref)
            in if is_known base then Some (prefix @ u '':'' @ base @ u ''.'' @ attr) else None)
         else if is_known ref then Some (prefix @ u '':'' @ ref) else None)"

definition entry_deps ::
    "(ustr, entry_data) odict \<Rightarrow> (ustr, entry_data) odict \<Rightarrow> ustr set option \<Rightarrow> ustr set option \<Rightarrow> refs \<Rightarrow> ustr set" where
  "entry_deps messages terms known_messages known_terms r =
     {n. \<exists>ref \<in> fst r. resolve_reference ref (u ''msg'') messages known_messages = Some n} \<union>
     {n. \<exists>ref \<in> snd r. resolve_reference ref (u ''term'') terms known_terms = Some n}"

definition node_key :: "ustr \<Rightarrow> ustr \<Rightarrow> ustr option \<Rightarrow> ustr" where
  "node_key prefix name attr =
     (case attr of None \<Rightarrow> prefix @ u '':'' @ name | Some a \<Rightarrow> prefix @ u '':'' @ name @ u ''.'' @ a)"

fun add_entry_nodes ::
    "int \<Rightarrow> (refs \<Rightarrow> ustr set) \<Rightarrow> ustr \<Rightarrow> (ustr, entry_data) odict \<Rightarrow> set_graph \<Rightarrow> set_graph option" where
  "add_entry_nodes limit deps prefix [] graph = Some graph"
| "add_entry_nodes limit deps prefix ((name, entry) # rest) graph =
     (case extract_references_by_attribute limit entry of
        None \<Rightarrow> None
      | Some by_attr \<Rightarrow>
          add_entry_nodes limit deps prefix rest
            (fold (\<lambda>(attr, r). od_set (node_key prefix name attr) (deps r)) by_attr graph))"

definition add_known_entries ::
    "(ustr set \<Rightarrow> ustr list) \<Rightarrow> ustr set option \<Rightarrow> ustr \<Rightarrow> (ustr \<rightharpoonup> ustr set) option \<Rightarrow> set_graph \<Rightarrow> set_graph" where
  "add_known_entries order known prefix known_deps graph =
     (case known of
        None \<Rightarrow> graph
      | Some ids \<Rightarrow>
          fold (\<lambda>known_id graph.
              let key = prefix @ u '':'' @ known_id
              in if key \<in> set (od_keys graph) then graph
                 else od_set key
                   (case known_deps of None \<Rightarrow> {} | Some deps \<Rightarrow> (case deps known_id of None \<Rightarrow> {} | Some ds \<Rightarrow> ds))
                   graph)
            (order ids) graph)"

definition build_dependency_graph ::
    "int \<Rightarrow> (ustr set \<Rightarrow> ustr list) \<Rightarrow> (ustr, entry_data) odict \<Rightarrow> (ustr, entry_data) odict \<Rightarrow>
     ustr set option \<Rightarrow> ustr set option \<Rightarrow> (ustr \<rightharpoonup> ustr set) option \<Rightarrow> (ustr \<rightharpoonup> ustr set) option \<Rightarrow> set_graph option" where
  "build_dependency_graph limit order messages terms known_messages known_terms known_msg_deps known_term_deps =
     (let deps = entry_deps messages terms known_messages known_terms
      in case add_entry_nodes limit deps (u ''msg'') messages [] of
           None \<Rightarrow> None
         | Some graph \<Rightarrow>
             (case add_entry_nodes limit deps (u ''term'') terms graph of
                None \<Rightarrow> None
              | Some graph \<Rightarrow>
                  Some (add_known_entries order known_terms (u ''term'') known_term_deps
                    (add_known_entries order known_messages (u ''msg'') known_msg_deps graph))))"

text \<open>The graph as the searches iterate over it.\<close>

definition iterated :: "(ustr set \<Rightarrow> ustr list) \<Rightarrow> set_graph \<Rightarrow> graph" where
  "iterated order g = map (\<lambda>(n, ds). (n, order ds)) g"

end
