(* ===== verification/Fluent_Values.thy ===== *)
theory Fluent_Values
  imports Ast
begin

text \<open>
  \<open>core/value_types.py\<close>, the rendering of values in \<open>runtime/resolver_runtime.py\<close>, and what the
  runtime uses of Python's \<open>decimal\<close>: what a Fluent expression evaluates to.  A float is its
  \<open>repr\<close>, a date or datetime its \<open>isoformat()\<close> and its \<open>str\<close>; a sequence or mapping has the name
  of its class, which for a subclass of \<open>list\<close>, \<open>tuple\<close> or \<open>dict\<close> is another name; a value of
  another class is its class name and its \<open>str\<close>.
\<close>

section \<open>Decimals\<close>

text \<open>
  \<open>decimal.Decimal\<close>: sign, coefficient and exponent; an infinity; or a NaN with its sign, whether
  it is signaling, and the digits it carries (0 for none).
\<close>

datatype decimal_number =
    Finite bool nat int
  | Infinite bool
  | NotANumber bool bool nat

datatype numeric = IntNumber int | DecimalNumber decimal_number

definition is_nan :: "decimal_number \<Rightarrow> bool" where
  "is_nan d = (case d of NotANumber neg signaling payload \<Rightarrow> True | _ \<Rightarrow> False)"

definition is_signaling :: "decimal_number \<Rightarrow> bool" where
  "is_signaling d = (case d of NotANumber neg signaling payload \<Rightarrow> signaling | _ \<Rightarrow> False)"

definition is_infinite :: "decimal_number \<Rightarrow> bool" where
  "is_infinite d = (case d of Infinite neg \<Rightarrow> True | _ \<Rightarrow> False)"

definition literal_number :: "plain_decimal \<Rightarrow> decimal_number" where
  "literal_number d = Finite (dec_negative d) (dec_coefficient d) (- int (dec_scale d))"

definition signed :: "bool \<Rightarrow> nat \<Rightarrow> int" where
  "signed neg c = (if neg then - int c else int c)"

text \<open>\<open>a == b\<close> of two decimals; None is the \<open>InvalidOperation\<close> of a signaling NaN.\<close>

definition decimal_equal :: "decimal_number \<Rightarrow> decimal_number \<Rightarrow> bool option" where
  "decimal_equal a b =
     (if is_signaling a \<or> is_signaling b then None
      else Some
        (case (a, b) of
           (Finite s c x, Finite t d y) \<Rightarrow>
             signed s c * 10 ^ nat (x - min x y) = signed t d * 10 ^ nat (y - min x y)
         | (Infinite s, Infinite t) \<Rightarrow> s = t
         | _ \<Rightarrow> False))"

text \<open>\<open>c\<close> divided by \<open>10 ^ k\<close>, rounded half to even.\<close>

definition half_even :: "nat \<Rightarrow> nat \<Rightarrow> nat" where
  "half_even c k =
     (let q = c div 10 ^ k; r = c mod 10 ^ k
      in if 10 ^ k < 2 * r \<or> (2 * r = 10 ^ k \<and> odd q) then q + 1 else q)"

text \<open>
  \<open>d.quantize(q, rounding=ROUND_HALF_EVEN)\<close> of a finite decimal for a \<open>q\<close> with exponent \<open>y \<le> 0\<close>, in
  a context of \<open>prec\<close> digits; None is \<open>InvalidOperation\<close>.  Zero takes every exponent; another
  number must fit into \<open>prec\<close> digits before and after the rounding.
\<close>

definition quantize :: "nat \<Rightarrow> bool \<Rightarrow> nat \<Rightarrow> int \<Rightarrow> int \<Rightarrow> decimal_number option" where
  "quantize prec neg c x y =
     (if c = 0 then Some (Finite neg 0 y)
      else if int prec < x + int (length (dec_digits c)) - y then None
      else
        let r = (if y \<le> x then c * 10 ^ nat (x - y) else half_even c (nat (y - x)))
        in if prec < length (dec_digits r) then None else Some (Finite neg r y))"

text \<open>
  The exponent of \<open>Decimal(10) ** -p\<close>: below the least exponent of the context (its \<open>Emin\<close> is
  \<open>-999999\<close>) the power underflows to a zero with that exponent.
\<close>

definition quantizer_exponent :: "nat \<Rightarrow> int \<Rightarrow> int" where
  "quantizer_exponent prec p = - min p (999998 + int prec)"

section \<open>Values\<close>

datatype sequence_kind = ListValue | TupleValue | OtherSequence

datatype mapping_kind = DictValue | OtherMapping

datatype fvalue =
    VStr ustr
  | VBool bool
  | VInt int
  | VDecimal decimal_number
  | VFloat ustr
  | VNone
  | VNumber numeric ustr "int option"
  | VDate ustr ustr
  | VDatetime ustr "ustr option" ustr
  | VSequence sequence_kind ustr "fvalue list"
  | VMapping mapping_kind ustr "(ustr \<times> fvalue) list"
  | VOther ustr ustr

text \<open>\<open>FluentNumber(value, formatted, precision)\<close> and its check.\<close>

definition mk_fluent_number :: "fvalue \<Rightarrow> ustr \<Rightarrow> int option \<Rightarrow> py_error + fvalue" where
  "mk_fluent_number v formatted precision =
     (case v of
        VInt i \<Rightarrow>
          if (case precision of None \<Rightarrow> False | Some p \<Rightarrow> p < 0) then Inl ValueError
          else Inr (VNumber (IntNumber i) formatted precision)
      | VDecimal d \<Rightarrow>
          if (case precision of None \<Rightarrow> False | Some p \<Rightarrow> p < 0) then Inl ValueError
          else Inr (VNumber (DecimalNumber d) formatted precision)
      | _ \<Rightarrow> Inl TypeError)"

text \<open>The value of a number literal.\<close>

definition literal_value :: "number_value \<Rightarrow> fvalue" where
  "literal_value v = (case v of IntValue i \<Rightarrow> VInt i | DecimalValue d \<Rightarrow> VDecimal (literal_number d))"

section \<open>Numbers as text\<close>

text \<open>
  \<open>str(i)\<close> of an integer raises \<open>ValueError\<close> when it has more digits than the
  interpreter's limit (\<open>sys.get_int_max_str_digits()\<close>, 0 for no limit).
\<close>

definition str_int :: "nat \<Rightarrow> int \<Rightarrow> py_error + ustr" where
  "str_int limit i =
     (let ds = dec_digits (nat \<bar>i\<bar>)
      in if 0 < limit \<and> limit < length ds then Inl ValueError
         else Inr (if i < 0 then CH_MINUS # ds else ds))"

text \<open>
  \<open>str(d)\<close> of a decimal: plain notation when the exponent is not positive and not far below
  the digits, else one digit before the point and the exponent.
\<close>

definition finite_text :: "ustr \<Rightarrow> int \<Rightarrow> ustr" where
  "finite_text ds x =
     (let n = int (length ds); left = n + x
      in if x \<le> 0 \<and> - 6 < left then
           (if left \<le> 0 then [48, CH_DOT] @ replicate (nat (- left)) 48 @ ds
            else if n \<le> left then ds
            else take (nat left) ds @ [CH_DOT] @ drop (nat left) ds)
         else
           take 1 ds @ (if 1 < n then CH_DOT # drop 1 ds else []) @
           [69, if left - 1 < 0 then CH_MINUS else CH_PLUS] @ dec_digits (nat \<bar>left - 1\<bar>))"

definition str_decimal :: "decimal_number \<Rightarrow> ustr" where
  "str_decimal d =
     (case d of
        Finite neg c x \<Rightarrow> (if neg then [CH_MINUS] else []) @ finite_text (dec_digits c) x
      | Infinite neg \<Rightarrow> (if neg then [CH_MINUS] else []) @ u ''Infinity''
      | NotANumber neg signaling payload \<Rightarrow>
          (if neg then [CH_MINUS] else []) @ (if signaling then [115] else []) @ u ''NaN'' @
          (if payload = 0 then [] else dec_digits payload))"

text \<open>The numeric value of a selector: a number that is not a bool.\<close>

definition numeric_of :: "fvalue \<Rightarrow> numeric option" where
  "numeric_of v =
     (case v of
        VNumber n formatted precision \<Rightarrow> Some n
      | VInt i \<Rightarrow> Some (IntNumber i)
      | VDecimal d \<Rightarrow> Some (DecimalNumber d)
      | _ \<Rightarrow> None)"

definition precision_of :: "fvalue \<Rightarrow> int option" where
  "precision_of v = (case v of VNumber n formatted precision \<Rightarrow> precision | _ \<Rightarrow> None)"

text \<open>\<open>Decimal(str(n))\<close>: the text of a decimal reads back as the decimal.\<close>

definition to_decimal :: "nat \<Rightarrow> numeric \<Rightarrow> py_error + decimal_number" where
  "to_decimal limit n =
     (case n of
        DecimalNumber d \<Rightarrow> Inr d
      | IntNumber i \<Rightarrow>
          (case str_int limit i of Inl e \<Rightarrow> Inl e | Inr s \<Rightarrow> Inr (Finite (i < 0) (nat \<bar>i\<bar>) 0)))"

text \<open>What \<open>_format_value\<close> does with a value; a float is refused.\<close>

datatype format_result = Formatted ustr | FloatRefused ustr | FormatRaises py_error

definition format_value :: "nat \<Rightarrow> fvalue \<Rightarrow> format_result" where
  "format_value limit v =
     (case v of
        VStr s \<Rightarrow> Formatted s
      | VBool b \<Rightarrow> Formatted (if b then u ''true'' else u ''false'')
      | VInt i \<Rightarrow> (case str_int limit i of Inl e \<Rightarrow> FormatRaises e | Inr s \<Rightarrow> Formatted s)
      | VNone \<Rightarrow> Formatted []
      | VFloat r \<Rightarrow> FloatRefused r
      | VDate i s \<Rightarrow> Formatted s
      | VDatetime i tz s \<Rightarrow> Formatted s
      | VSequence kind name xs \<Rightarrow> Formatted (u ''['' @ name @ u '']'')
      | VMapping kind name kvs \<Rightarrow> Formatted (u ''['' @ name @ u '']'')
      | VDecimal d \<Rightarrow> Formatted (str_decimal d)
      | VNumber n formatted precision \<Rightarrow> Formatted formatted
      | VOther name s \<Rightarrow> Formatted s)"

end
