(* ===== verification/Bytes.thy ===== *)
theory Bytes
  imports Prelude
begin

text \<open>
  Byte strings as the hashing code builds them: \<open>str.encode("utf-8", "surrogatepass")\<close>,
  \<open>int.to_bytes(n, "big")\<close>, and strings framed by their length.  The encodings are
  injective, and a framed string can be told from whatever follows it.
\<close>

type_synonym bytes = "nat list"

section \<open>Results that may be an exception\<close>

definition res_bind :: "'e + 'a \<Rightarrow> ('a \<Rightarrow> 'e + 'b) \<Rightarrow> 'e + 'b" where
  "res_bind x f = (case x of Inl e \<Rightarrow> Inl e | Inr a \<Rightarrow> f a)"

lemma res_bind_simps [simp]: "res_bind (Inl e) f = Inl e" "res_bind (Inr a) f = f a"
  by (simp_all add: res_bind_def)

lemma res_bind_Inr: "res_bind x f = Inr b \<longleftrightarrow> (\<exists>a. x = Inr a \<and> f a = Inr b)"
  by (cases x) auto

text \<open>The concatenation of the byte strings a list yields, or its first exception.\<close>

fun res_concat :: "('e + bytes) list \<Rightarrow> 'e + bytes" where
  "res_concat [] = Inr []"
| "res_concat (x # xs) = res_bind x (\<lambda>a. res_bind (res_concat xs) (\<lambda>b. Inr (a @ b)))"

section \<open>UTF-8\<close>

definition utf8_char :: "uchar \<Rightarrow> bytes" where
  "utf8_char ch =
     (if ch < 0x80 then [ch]
      else if ch < 0x800 then [192 + ch div 64, 128 + ch mod 64]
      else if ch < 0x10000 then [224 + ch div 4096, 128 + ch div 64 mod 64, 128 + ch mod 64]
      else [240 + ch div 262144, 128 + ch div 4096 mod 64, 128 + ch div 64 mod 64, 128 + ch mod 64])"

definition utf8 :: "ustr \<Rightarrow> bytes" where
  "utf8 s = concat (map utf8_char s)"

fun utf8_decode :: "bytes \<Rightarrow> ustr" where
  "utf8_decode [] = []"
| "utf8_decode (a # rest) =
     (if a < 128 then a # utf8_decode rest
      else if a < 224 then
        (case rest of b # r \<Rightarrow> ((a - 192) * 64 + (b - 128)) # utf8_decode r | _ \<Rightarrow> [])
      else if a < 240 then
        (case rest of b # c # r \<Rightarrow> ((a - 224) * 4096 + (b - 128) * 64 + (c - 128)) # utf8_decode r | _ \<Rightarrow> [])
      else
        (case rest of
           b # c # d # r \<Rightarrow>
             ((a - 240) * 262144 + (b - 128) * 4096 + (c - 128) * 64 + (d - 128)) # utf8_decode r
         | _ \<Rightarrow> []))"

lemma split_base: "(ch::nat) div (k * 64) * 64 + ch div k mod 64 = ch div k"
proof -
  have "ch div (k * 64) = ch div k div 64" by (rule div_mult2_eq)
  then show ?thesis by (metis div_mult_mod_eq)
qed

lemma utf8_decode_char: "utf8_decode (utf8_char ch @ r) = ch # utf8_decode r"
proof -
  have d1: "ch div 64 * 64 + ch mod 64 = ch" by simp
  have d2: "ch div 4096 * 64 + ch div 64 mod 64 = ch div 64" using split_base [of ch 64] by simp
  have d3: "ch div 262144 * 64 + ch div 4096 mod 64 = ch div 4096" using split_base [of ch 4096] by simp
  consider "ch < 0x80" | "0x80 \<le> ch" "ch < 0x800" | "0x800 \<le> ch" "ch < 0x10000" | "0x10000 \<le> ch"
    by linarith
  then show ?thesis
  proof cases
    case 1
    then show ?thesis by (simp add: utf8_char_def)
  next
    case 2
    then have "ch div 64 < 32" by (simp add: less_mult_imp_div_less)
    with 2 show ?thesis by (simp add: utf8_char_def)
  next
    case 3
    then have "ch div 4096 < 16" by (simp add: less_mult_imp_div_less)
    moreover have "ch div 4096 * 4096 + ch div 64 mod 64 * 64 + ch mod 64 = ch"
      using d1 d2 by linarith
    ultimately show ?thesis using 3 by (simp add: utf8_char_def)
  next
    case 4
    have "ch div 262144 * 262144 + ch div 4096 mod 64 * 4096 + ch div 64 mod 64 * 64 + ch mod 64 = ch"
      using d1 d2 d3 by linarith
    with 4 show ?thesis by (simp add: utf8_char_def)
  qed
qed

lemma utf8_decode_utf8: "utf8_decode (utf8 s) = s"
  by (induction s) (simp_all add: utf8_def utf8_decode_char)

lemma utf8_inj: "utf8 s = utf8 t \<Longrightarrow> s = t"
  by (metis utf8_decode_utf8)

section \<open>Big-endian integers\<close>

fun big_endian :: "nat \<Rightarrow> nat \<Rightarrow> bytes" where
  "big_endian 0 v = []"
| "big_endian (Suc n) v = big_endian n (v div 256) @ [v mod 256]"

definition to_bytes :: "nat \<Rightarrow> nat \<Rightarrow> py_error + bytes" where
  "to_bytes n v = (if v < 256 ^ n then Inr (big_endian n v) else Inl OverflowError)"

definition to_bytes_signed :: "nat \<Rightarrow> int \<Rightarrow> py_error + bytes" where
  "to_bytes_signed n v =
     (if - (2 ^ (8 * n - 1)) \<le> v \<and> v < 2 ^ (8 * n - 1)
      then Inr (big_endian n (nat (v mod 256 ^ n))) else Inl OverflowError)"

lemma length_big_endian [simp]: "length (big_endian n v) = n"
  by (induction n arbitrary: v) auto

lemma big_endian_inj: "big_endian n v = big_endian n w \<Longrightarrow> v < 256 ^ n \<Longrightarrow> w < 256 ^ n \<Longrightarrow> v = w"
proof (induction n arbitrary: v w)
  case (Suc n)
  then have "v div 256 = w div 256" "v mod 256 = w mod 256"
    by (auto simp: less_mult_imp_div_less mult.commute)
  then show ?case by (metis div_mult_mod_eq)
qed simp

section \<open>Framed strings\<close>

text \<open>\<open>_hash_string\<close>: the length of the encoded string in four bytes, and the string.\<close>

definition frame :: "ustr \<Rightarrow> py_error + bytes" where
  "frame s = res_bind (to_bytes 4 (length (utf8 s))) (\<lambda>n. Inr (n @ utf8 s))"

lemma frame_Inr: "frame s = Inr b \<longleftrightarrow> length (utf8 s) < 256 ^ 4 \<and> b = big_endian 4 (length (utf8 s)) @ utf8 s"
  by (auto simp: frame_def to_bytes_def)

text \<open>A short ASCII string is framed by three zero bytes and its length.\<close>

lemma utf8_ascii: "\<forall>ch \<in> set s. ch < 128 \<Longrightarrow> utf8 s = s"
  by (induction s) (auto simp: utf8_def utf8_char_def)

lemma big_endian_4:
  "big_endian 4 v = [v div 256 div 256 div 256 mod 256, v div 256 div 256 mod 256, v div 256 mod 256, v mod 256]"
proof -
  have "(4::nat) = Suc (Suc (Suc (Suc 0)))" by simp
  then show ?thesis by (simp only: big_endian.simps append.simps)
qed

lemma big_endian_small: "v < 256 \<Longrightarrow> big_endian 4 v = [0, 0, 0, v]"
  by (simp add: big_endian_4)

lemma frame_ascii:
  "\<forall>ch \<in> set s. ch < 128 \<Longrightarrow> length s < 256 \<Longrightarrow> frame s = Inr ([0, 0, 0, length s] @ s)"
  by (simp add: frame_def to_bytes_def utf8_ascii big_endian_small)

lemma frame_prefix:
  assumes "frame s = Inr a" "frame t = Inr b" "a @ x = b @ y"
  shows "s = t \<and> x = y"
proof -
  let ?n = "length (utf8 s)" and ?m = "length (utf8 t)"
  have a: "?n < 256 ^ 4" "a = big_endian 4 ?n @ utf8 s" and b: "?m < 256 ^ 4" "b = big_endian 4 ?m @ utf8 t"
    using assms(1,2) by (simp_all add: frame_Inr)
  have "big_endian 4 ?n = big_endian 4 ?m" "utf8 s @ x = utf8 t @ y"
    using assms(3) a(2) b(2) by (simp_all add: append_eq_append_conv)
  then have "?n = ?m" using a(1) b(1) big_endian_inj by blast
  with \<open>utf8 s @ x = utf8 t @ y\<close> have "utf8 s = utf8 t" "x = y" by (simp_all add: append_eq_append_conv)
  then show ?thesis using utf8_inj by blast
qed

end
