(* ===== verification/Frozen_Errors.thy ===== *)
theory Frozen_Errors
  imports Bytes
begin

text \<open>
  \<open>diagnostics/codes.py\<close> and \<open>diagnostics/errors.py\<close>: diagnostics, error contexts and the
  content-addressed error, whose hash is BLAKE2b of a byte string built from all fields.
  The hash function of \<open>hashlib\<close> is the argument \<open>H\<close>: digest size and input to digest.
\<close>

type_synonym digest = "nat \<Rightarrow> bytes \<Rightarrow> bytes"

section \<open>Fields\<close>

record source_span =
  ss_start :: int
  ss_end :: int
  ss_line :: int
  ss_column :: int

definition mk_source_span :: "int \<Rightarrow> int \<Rightarrow> int \<Rightarrow> int \<Rightarrow> py_error + source_span" where
  "mk_source_span s e l c =
     (if s < 0 then Inl ValueError
      else if e < s then Inl ValueError
      else if l < 1 then Inl ValueError
      else if c < 1 then Inl ValueError
      else Inr \<lparr>ss_start = s, ss_end = e, ss_line = l, ss_column = c\<rparr>)"

datatype error_category = REFERENCE | RESOLUTION | CYCLIC | PARSE | FORMATTING

fun category_value :: "error_category \<Rightarrow> ustr" where
  "category_value REFERENCE = u ''reference''"
| "category_value RESOLUTION = u ''resolution''"
| "category_value CYCLIC = u ''cyclic''"
| "category_value PARSE = u ''parse''"
| "category_value FORMATTING = u ''formatting''"

record error_context =
  ctx_input_value :: ustr
  ctx_locale_code :: ustr
  ctx_parse_type :: ustr
  ctx_fallback_value :: ustr

text \<open>The code is the name of the \<open>DiagnosticCode\<close> member.\<close>

record diagnostic =
  diag_code :: ustr
  diag_message :: ustr
  diag_span :: "source_span option"
  diag_hint :: "ustr option"
  diag_help_url :: "ustr option"
  diag_function_name :: "ustr option"
  diag_argument_name :: "ustr option"
  diag_expected_type :: "ustr option"
  diag_received_type :: "ustr option"
  diag_ftl_location :: "ustr option"
  diag_severity :: ustr
  diag_resolution_path :: "ustr list option"

record fluent_error =
  fe_message :: ustr
  fe_category :: error_category
  fe_diagnostic :: "diagnostic option"
  fe_context :: "error_context option"
  fe_content_hash :: bytes

section \<open>The content hash\<close>

definition optional_fields :: "diagnostic \<Rightarrow> ustr option list" where
  "optional_fields d =
     [diag_hint d, diag_help_url d, diag_function_name d, diag_argument_name d, diag_expected_type d,
      diag_received_type d, diag_ftl_location d]"

definition span_bytes :: "source_span option \<Rightarrow> py_error + bytes" where
  "span_bytes sp =
     (case sp of
        None \<Rightarrow> Inr ([0, 0, 0, 0] @ u ''NOSPAN'')
      | Some p \<Rightarrow>
          res_concat [to_bytes_signed 4 (ss_start p), to_bytes_signed 4 (ss_end p),
                      to_bytes_signed 4 (ss_line p), to_bytes_signed 4 (ss_column p)])"

definition optional_bytes :: "ustr option \<Rightarrow> py_error + bytes" where
  "optional_bytes x = (case x of Some s \<Rightarrow> frame s | None \<Rightarrow> Inr (0 # u ''NONE''))"

definition path_bytes :: "ustr list option \<Rightarrow> py_error + bytes" where
  "path_bytes p =
     (case p of
        None \<Rightarrow> Inr (0 # u ''NOPATH'')
      | Some es \<Rightarrow> res_concat (to_bytes 4 (length es) # map frame es))"

definition diagnostic_bytes :: "diagnostic option \<Rightarrow> py_error + bytes" where
  "diagnostic_bytes d =
     (case d of
        None \<Rightarrow> Inr (0 # u ''NODIAG'')
      | Some d \<Rightarrow>
          res_concat
            ([Inr (1 # u ''DIAG''), frame (diag_code d), frame (diag_message d), span_bytes (diag_span d)] @
             map optional_bytes (optional_fields d) @
             [frame (diag_severity d), path_bytes (diag_resolution_path d)]))"

definition context_bytes :: "error_context option \<Rightarrow> py_error + bytes" where
  "context_bytes c =
     (case c of
        None \<Rightarrow> Inr (0 # u ''NOCTX'')
      | Some c \<Rightarrow>
          res_concat [Inr (1 # u ''CTX''), frame (ctx_input_value c), frame (ctx_locale_code c),
                      frame (ctx_parse_type c), frame (ctx_fallback_value c)])"

text \<open>What is fed to the hasher, in order.\<close>

definition error_bytes ::
    "ustr \<Rightarrow> error_category \<Rightarrow> diagnostic option \<Rightarrow> error_context option \<Rightarrow> py_error + bytes" where
  "error_bytes m k d c =
     res_concat [frame m, frame (category_value k), diagnostic_bytes d, context_bytes c]"

definition error_hash ::
    "digest \<Rightarrow> ustr \<Rightarrow> error_category \<Rightarrow> diagnostic option \<Rightarrow> error_context option \<Rightarrow> py_error + bytes" where
  "error_hash H m k d c = res_bind (error_bytes m k d c) (\<lambda>b. Inr (H 16 b))"

definition mk_fluent_error ::
    "digest \<Rightarrow> ustr \<Rightarrow> error_category \<Rightarrow> diagnostic option \<Rightarrow> error_context option \<Rightarrow> py_error + fluent_error" where
  "mk_fluent_error H m k d c =
     res_bind (error_hash H m k d c) (\<lambda>h.
       Inr \<lparr>fe_message = m, fe_category = k, fe_diagnostic = d, fe_context = c, fe_content_hash = h\<rparr>)"

definition verify_integrity :: "digest \<Rightarrow> fluent_error \<Rightarrow> py_error + bool" where
  "verify_integrity H e =
     res_bind (error_hash H (fe_message e) (fe_category e) (fe_diagnostic e) (fe_context e)) (\<lambda>expected.
       Inr (fe_content_hash e = expected))"

text \<open>\<open>__eq__\<close> compares the four defining fields, not the hash.\<close>

definition error_eq :: "fluent_error \<Rightarrow> fluent_error \<Rightarrow> bool" where
  "error_eq a b \<longleftrightarrow>
     fe_message a = fe_message b \<and> fe_category a = fe_category b \<and>
     fe_diagnostic a = fe_diagnostic b \<and> fe_context a = fe_context b"

section \<open>The weight of an error in the cache\<close>

definition ERROR_BASE_OVERHEAD :: nat where
  "ERROR_BASE_OVERHEAD = 100"

definition option_length :: "ustr option \<Rightarrow> nat" where
  "option_length x = (case x of None \<Rightarrow> 0 | Some s \<Rightarrow> length s)"

definition estimate_error_weight :: "fluent_error \<Rightarrow> nat" where
  "estimate_error_weight e =
     ERROR_BASE_OVERHEAD + length (fe_message e) +
     (case fe_diagnostic e of
        None \<Rightarrow> 0
      | Some d \<Rightarrow>
          length (diag_message d) + sum_list (map option_length (optional_fields d)) +
          (case diag_resolution_path d of None \<Rightarrow> 0 | Some p \<Rightarrow> sum_list (map length p))) +
     (case fe_context e of
        None \<Rightarrow> 0
      | Some c \<Rightarrow>
          length (ctx_input_value c) + length (ctx_locale_code c) + length (ctx_parse_type c) +
          length (ctx_fallback_value c))"

section \<open>Properties\<close>

text \<open>An error that was constructed verifies, for every hash function, and two equal errors
  (the four fields) carry the same hash.\<close>

theorem fresh_error_verifies:
  assumes "mk_fluent_error H m k d c = Inr e"
  shows "verify_integrity H e = Inr True \<and>
    (\<forall>e'. mk_fluent_error H (fe_message e) (fe_category e) (fe_diagnostic e) (fe_context e) = Inr e' \<longrightarrow>
       fe_content_hash e' = fe_content_hash e \<and> error_eq e e')"
  using assms
  by (auto simp: mk_fluent_error_def verify_integrity_def error_eq_def res_bind_Inr)

theorem fresh_error_verifies_witness:
  "verify_integrity (\<lambda>n b. take n b) \<lparr>fe_message = [109], fe_category = PARSE, fe_diagnostic = None,
     fe_context = None, fe_content_hash = [0, 0, 0, 1, 109, 0, 0, 0, 5, 112, 97, 114, 115, 101, 0, 78]\<rparr> = Inr True"
proof -
  have f: "frame [109] = Inr [0, 0, 0, 1, 109]" by (simp add: frame_ascii)
  have "category_value PARSE = [112, 97, 114, 115, 101]" by code_simp
  then have k: "frame (category_value PARSE) = Inr [0, 0, 0, 5, 112, 97, 114, 115, 101]"
    by (simp add: frame_ascii)
  have d: "diagnostic_bytes None = Inr [0, 78, 79, 68, 73, 65, 71]" and c: "context_bytes None = Inr [0, 78, 79, 67, 84, 88]"
    by (code_simp, code_simp)
  have "mk_fluent_error (\<lambda>n b. take n b) [109] PARSE None None =
     Inr \<lparr>fe_message = [109], fe_category = PARSE, fe_diagnostic = None, fe_context = None,
          fe_content_hash = [0, 0, 0, 1, 109, 0, 0, 0, 5, 112, 97, 114, 115, 101, 0, 78]\<rparr>"
    unfolding mk_fluent_error_def error_hash_def error_bytes_def res_concat.simps f k d c by simp
  from fresh_error_verifies [OF this] show ?thesis by (elim conjE)
qed

section \<open>The hash input is ambiguous\<close>

text \<open>
  An absent optional field is written as five bytes, a present one as a four-byte length
  and its text.  A text of \<open>5132110\<close> characters that begins with \<open>E\<close> starts with the
  same five bytes, and its rest can spell out other fields.
\<close>

definition plain_diagnostic :: diagnostic where
  "plain_diagnostic =
     \<lparr>diag_code = [], diag_message = [], diag_span = None, diag_hint = None, diag_help_url = None,
      diag_function_name = None, diag_argument_name = None, diag_expected_type = None,
      diag_received_type = None, diag_ftl_location = None, diag_severity = [], diag_resolution_path = None\<rparr>"

definition none_fields :: bytes where
  "none_fields = concat (replicate 6 [0, 78, 79, 78, 69])"

text \<open>What follows the hint: six absent fields, the empty severity, no path.\<close>

definition after_hint :: bytes where
  "after_hint = none_fields @ [0, 0, 0, 0] @ [0, 78, 79, 80, 65, 84, 72]"

definition filler :: bytes where
  "filler = replicate 5132048 65"

definition tail_text :: ustr where
  "tail_text = filler @ after_hint @ [0, 78, 79, 67, 84, 88]"

definition crafted_hint :: ustr where
  "crafted_hint =
     [69] @ after_hint @ [1, 67, 84, 88] @ [0, 0, 0, 0] @ [0, 0, 0, 0] @ [0, 0, 0, 0] @
     [0, 78, 79, 63] @ filler"

lemma optional_None: "optional_bytes None = Inr [0, 78, 79, 78, 69]"
  by code_simp

lemma after_hint_bytes:
  "after_hint =
     [0, 78, 79, 78, 69] @ [0, 78, 79, 78, 69] @ [0, 78, 79, 78, 69] @ [0, 78, 79, 78, 69] @
     [0, 78, 79, 78, 69] @ [0, 78, 79, 78, 69] @ [0, 0, 0, 0] @ [0, 78, 79, 80, 65, 84, 72]"
  by code_simp

lemma filler_facts: "length filler = 5132048" "\<forall>ch \<in> set filler. ch < 128"
  by (simp_all add: filler_def del: replicate.simps)

lemma frame_long:
  assumes "\<forall>ch \<in> set s. ch < 128" "length s < 256 ^ 4"
  shows "frame s = Inr (big_endian 4 (length s) @ s)"
  using assms by (simp add: frame_def to_bytes_def utf8_ascii)

lemma frame_crafted_hint: "frame crafted_hint = Inr ([0, 78, 79, 78] @ crafted_hint)"
proof -
  have "length crafted_hint = 5132110"
    unfolding crafted_hint_def after_hint_bytes by (simp add: filler_facts)
  moreover have "\<forall>ch \<in> set crafted_hint. ch < 128"
    using filler_facts(2) unfolding crafted_hint_def after_hint_bytes by auto
  ultimately show ?thesis by (simp add: frame_long big_endian_4)
qed

lemma frame_tail_text: "frame tail_text = Inr ([0, 78, 79, 63] @ tail_text)"
proof -
  have "length tail_text = 5132095"
    unfolding tail_text_def after_hint_bytes by (simp add: filler_facts)
  moreover have "\<forall>ch \<in> set tail_text. ch < 128"
    using filler_facts(2) unfolding tail_text_def after_hint_bytes by auto
  ultimately show ?thesis by (simp add: frame_long big_endian_4)
qed

lemma frame_empty: "frame [] = Inr [0, 0, 0, 0]"
  by (simp add: frame_ascii)

lemma fixed_parts:
  "path_bytes None = Inr [0, 78, 79, 80, 65, 84, 72]" "context_bytes None = Inr [0, 78, 79, 67, 84, 88]"
  "u ''CTX'' = [67, 84, 88]"
  by (simp_all add: path_bytes_def context_bytes_def u_def)

text \<open>Two different errors, one with a hint and no context, one without a hint and with a
  context, feed the same bytes to the hasher, so every hash function gives them the same
  content hash.\<close>

theorem error_bytes_collision:
  "error_bytes m k (Some (plain_diagnostic\<lparr>diag_hint := Some crafted_hint\<rparr>)) None =
   error_bytes m k (Some plain_diagnostic)
     (Some \<lparr>ctx_input_value = [], ctx_locale_code = [], ctx_parse_type = [], ctx_fallback_value = tail_text\<rparr>)"
proof -
  let ?head = "(1 # u ''DIAG'') @ [0, 0, 0, 0] @ [0, 0, 0, 0] @ ([0, 0, 0, 0] @ u ''NOSPAN'')"
  have span: "span_bytes None = Inr ([0, 0, 0, 0] @ u ''NOSPAN'')" by (simp add: span_bytes_def)
  have hint: "optional_bytes (Some crafted_hint) = Inr ([0, 78, 79, 78] @ crafted_hint)"
    by (simp add: optional_bytes_def frame_crafted_hint)
  have "diagnostic_bytes (Some (plain_diagnostic\<lparr>diag_hint := Some crafted_hint\<rparr>)) =
      Inr (?head @ [0, 78, 79, 78] @ crafted_hint @ after_hint)"
    by (simp add: diagnostic_bytes_def plain_diagnostic_def optional_fields_def hint optional_None frame_empty
        fixed_parts span after_hint_bytes)
  moreover have "diagnostic_bytes (Some plain_diagnostic) = Inr (?head @ [0, 78, 79, 78, 69] @ after_hint)"
    by (simp add: diagnostic_bytes_def plain_diagnostic_def optional_fields_def optional_None frame_empty
        fixed_parts span after_hint_bytes)
  moreover have "context_bytes (Some \<lparr>ctx_input_value = [], ctx_locale_code = [], ctx_parse_type = [],
        ctx_fallback_value = tail_text\<rparr>) =
      Inr ([1, 67, 84, 88] @ [0, 0, 0, 0] @ [0, 0, 0, 0] @ [0, 0, 0, 0] @ [0, 78, 79, 63] @ tail_text)"
    by (simp add: context_bytes_def frame_empty frame_tail_text fixed_parts)
  ultimately show ?thesis
    by (simp add: error_bytes_def fixed_parts crafted_hint_def tail_text_def res_bind_def split: sum.split)
qed

end
