(* ===== verification/Resolution_Context.thy ===== *)
theory Resolution_Context
  imports Fluent_Values Frozen_Errors
begin

text \<open>
  \<open>runtime/resolution_context.py\<close>, \<open>core/depth_guard.py\<close> and the error templates the
  resolver uses, with the effects of the resolver: a state (the resolution context, the
  list of collected errors, the per-task depth), and outcomes that are a value, a raised
  \<open>FrozenFluentError\<close>, or another exception.
\<close>

section \<open>Errors\<close>

text \<open>
  A \<open>FrozenFluentError\<close> of the resolver is one of the templates of
  \<open>diagnostics/templates.py\<close> with its arguments, the refusal of a float, or one that a
  function constructed and raised, given by the arguments of its constructor.
\<close>

datatype resolution_error =
    AttributeNotFound ustr ustr
  | MessageNoValue ustr
  | MessageNotFound ustr
  | TermNotFound ustr
  | TermAttributeNotFound ustr ustr
  | TermPositionalArgsIgnored ustr nat
  | PluralSupportUnavailable
  | VariableNotProvided ustr "ustr list option"
  | CyclicReference "ustr list"
  | MaxDepthExceeded ustr int
  | DepthExceeded int
  | ExpansionBudgetExceeded int int
  | NoVariants
  | FunctionNotFound ustr
  | FunctionFailed ustr ustr
  | FunctionArityMismatch ustr nat nat
  | FloatNotAllowed ustr
  | RaisedByFunction ustr error_category "diagnostic option" "error_context option"

fun category_of :: "resolution_error \<Rightarrow> error_category" where
  "category_of (AttributeNotFound a m) = REFERENCE"
| "category_of (MessageNoValue m) = REFERENCE"
| "category_of (MessageNotFound m) = REFERENCE"
| "category_of (TermNotFound t) = REFERENCE"
| "category_of (TermAttributeNotFound a t) = REFERENCE"
| "category_of (TermPositionalArgsIgnored t n) = RESOLUTION"
| "category_of PluralSupportUnavailable = RESOLUTION"
| "category_of (VariableNotProvided v p) = REFERENCE"
| "category_of (CyclicReference p) = CYCLIC"
| "category_of (MaxDepthExceeded k n) = REFERENCE"
| "category_of (DepthExceeded n) = RESOLUTION"
| "category_of (ExpansionBudgetExceeded t m) = RESOLUTION"
| "category_of NoVariants = RESOLUTION"
| "category_of (FunctionNotFound f) = RESOLUTION"
| "category_of (FunctionFailed f t) = RESOLUTION"
| "category_of (FunctionArityMismatch f e n) = RESOLUTION"
| "category_of (FloatNotAllowed r) = RESOLUTION"
| "category_of (RaisedByFunction m k d c) = k"

text \<open>\<open>fallback_value\<close>, when it is not empty: only an error with a context has one.\<close>

fun fallback_of :: "resolution_error \<Rightarrow> ustr option" where
  "fallback_of (RaisedByFunction m k d ctx) =
     (case ctx of
        None \<Rightarrow> None
      | Some c \<Rightarrow> if ctx_fallback_value c = [] then None else Some (ctx_fallback_value c))"
| "fallback_of _ = None"

text \<open>
  The exceptions that are no \<open>FrozenFluentError\<close>: \<open>InvalidOperation\<close> of the decimal module, the
  \<open>BabelImportError\<close> of a missing Babel, and what a plural rule of Babel raises, by its name.
\<close>

datatype fatal_error =
    DataIntegrityError
  | PyError py_error
  | InvalidOperation
  | BabelImportError
  | PluralRuleError ustr
  | Cancelled

section \<open>The context\<close>

text \<open>
  The fields of \<open>ResolutionContext\<close>, its \<open>DepthGuard\<close> inlined (limit after clamping and
  current depth), the error list of the running resolution and the per-task depth of
  \<open>GlobalDepthGuard\<close>.
\<close>

record rstate =
  rs_stack :: "ustr list"
  rs_seen :: "ustr set"
  rs_max_depth :: int
  rs_max_expression_depth :: int
  rs_max_expansion :: int
  rs_chars :: int
  rs_depth :: int
  rs_errors :: "resolution_error list"
  rs_global :: int

definition depth_clamp :: "int \<Rightarrow> int \<Rightarrow> int" where
  "depth_clamp recursion_limit requested =
     (let max_safe = recursion_limit - 50 in if max_safe < requested then max_safe else requested)"

definition mk_context :: "int \<Rightarrow> int \<Rightarrow> int \<Rightarrow> int \<Rightarrow> int \<Rightarrow> rstate" where
  "mk_context recursion_limit max_depth max_expression_depth max_expansion global_depth =
     \<lparr>rs_stack = [], rs_seen = {}, rs_max_depth = max_depth,
      rs_max_expression_depth = depth_clamp recursion_limit max_expression_depth,
      rs_max_expansion = max_expansion, rs_chars = 0, rs_depth = 0, rs_errors = [], rs_global = global_depth\<rparr>"

section \<open>Effects\<close>

datatype 'a rresult = Value 'a | Fluent resolution_error | Fatal fatal_error | Exhausted

type_synonym 'a res = "rstate \<Rightarrow> 'a rresult \<times> rstate"

definition rret :: "'a \<Rightarrow> 'a res" where
  "rret a = (\<lambda>s. (Value a, s))"

definition rbind :: "'a res \<Rightarrow> ('a \<Rightarrow> 'b res) \<Rightarrow> 'b res" where
  "rbind p k = (\<lambda>s.
     (case p s of
        (Value a, s') \<Rightarrow> k a s'
      | (Fluent e, s') \<Rightarrow> (Fluent e, s')
      | (Fatal e, s') \<Rightarrow> (Fatal e, s')
      | (Exhausted, s') \<Rightarrow> (Exhausted, s')))"

definition rthrow :: "resolution_error \<Rightarrow> 'a res" where
  "rthrow e = (\<lambda>s. (Fluent e, s))"

definition rfatal :: "fatal_error \<Rightarrow> 'a res" where
  "rfatal e = (\<lambda>s. (Fatal e, s))"

definition rexhausted :: "'a res" where
  "rexhausted = (\<lambda>s. (Exhausted, s))"

text \<open>\<open>try: p except FrozenFluentError as e: h(e)\<close>\<close>

definition rcatch :: "'a res \<Rightarrow> (resolution_error \<Rightarrow> 'a res) \<Rightarrow> 'a res" where
  "rcatch p h = (\<lambda>s. case p s of (Fluent e, s') \<Rightarrow> h e s' | x \<Rightarrow> x)"

text \<open>\<open>try: p finally: q\<close>; an exception of \<open>q\<close> replaces the outcome of \<open>p\<close>.\<close>

definition rfinally :: "'a res \<Rightarrow> unit res \<Rightarrow> 'a res" where
  "rfinally p q = (\<lambda>s.
     (case p s of
        (Exhausted, s') \<Rightarrow> (Exhausted, s')
      | (r, s') \<Rightarrow>
          (case q s' of
             (Value _, s'') \<Rightarrow> (r, s'')
           | (Fluent e, s'') \<Rightarrow> (Fluent e, s'')
           | (Fatal e, s'') \<Rightarrow> (Fatal e, s'')
           | (Exhausted, s'') \<Rightarrow> (Exhausted, s''))))"

definition with_state :: "(rstate \<Rightarrow> 'a res) \<Rightarrow> 'a res" where
  "with_state f = (\<lambda>s. f s s)"

definition append_error :: "resolution_error \<Rightarrow> unit res" where
  "append_error e = (\<lambda>s. (Value (), s\<lparr>rs_errors := rs_errors s @ [e]\<rparr>))"

definition extend_errors :: "resolution_error list \<Rightarrow> unit res" where
  "extend_errors es = (\<lambda>s. (Value (), s\<lparr>rs_errors := rs_errors s @ es\<rparr>))"

text \<open>Run \<open>p\<close> with an error list of its own, which it returns.\<close>

definition own_errors :: "'a res \<Rightarrow> ('a \<times> resolution_error list) res" where
  "own_errors p = (\<lambda>s.
     (case p (s\<lparr>rs_errors := []\<rparr>) of
        (Value a, s') \<Rightarrow> (Value (a, rs_errors s'), s'\<lparr>rs_errors := rs_errors s\<rparr>)
      | (Fluent e, s') \<Rightarrow> (Fluent e, s'\<lparr>rs_errors := rs_errors s\<rparr>)
      | (Fatal e, s') \<Rightarrow> (Fatal e, s'\<lparr>rs_errors := rs_errors s\<rparr>)
      | (Exhausted, s') \<Rightarrow> (Exhausted, s'\<lparr>rs_errors := rs_errors s\<rparr>)))"

section \<open>Operations of the context\<close>

definition push :: "ustr \<Rightarrow> unit res" where
  "push key = (\<lambda>s. (Value (), s\<lparr>rs_stack := rs_stack s @ [key], rs_seen := insert key (rs_seen s)\<rparr>))"

definition pop :: "ustr res" where
  "pop = (\<lambda>s.
     (if rs_stack s = [] then (Fatal DataIntegrityError, s)
      else let key = last (rs_stack s)
           in if key \<notin> rs_seen s then (Fatal DataIntegrityError, s)
              else (Value key, s\<lparr>rs_stack := butlast (rs_stack s), rs_seen := rs_seen s - {key}\<rparr>)))"

definition contains :: "ustr \<Rightarrow> rstate \<Rightarrow> bool" where
  "contains key s \<longleftrightarrow> key \<in> rs_seen s"

definition context_depth :: "rstate \<Rightarrow> int" where
  "context_depth s = int (length (rs_stack s))"

definition is_depth_exceeded :: "rstate \<Rightarrow> bool" where
  "is_depth_exceeded s \<longleftrightarrow> rs_max_depth s \<le> context_depth s"

definition get_cycle_path :: "ustr \<Rightarrow> rstate \<Rightarrow> ustr list" where
  "get_cycle_path key s = rs_stack s @ [key]"

definition track_expansion :: "nat \<Rightarrow> unit res" where
  "track_expansion n = (\<lambda>s. (Value (), s\<lparr>rs_chars := rs_chars s + int n\<rparr>))"

definition over_budget :: "rstate \<Rightarrow> bool" where
  "over_budget s \<longleftrightarrow> rs_max_expansion s < rs_chars s"

definition budget_error :: "rstate \<Rightarrow> resolution_error" where
  "budget_error s = ExpansionBudgetExceeded (rs_chars s) (rs_max_expansion s)"

text \<open>\<open>with context.expression_guard: p\<close>; the guard is not entered when it raises.\<close>

definition expression_guarded :: "'a res \<Rightarrow> 'a res" where
  "expression_guarded p = (\<lambda>s.
     (if rs_max_expression_depth s \<le> rs_depth s then (Fluent (DepthExceeded (rs_max_expression_depth s)), s)
      else (case p (s\<lparr>rs_depth := rs_depth s + 1\<rparr>) of
              (r, s') \<Rightarrow> (r, s'\<lparr>rs_depth := rs_depth s' - 1\<rparr>))))"

text \<open>\<open>with GlobalDepthGuard(max_depth): p\<close>; leaving resets the variable to its old value.\<close>

definition globally_guarded :: "int \<Rightarrow> int \<Rightarrow> 'a res \<Rightarrow> 'a res" where
  "globally_guarded recursion_limit max_depth p = (\<lambda>s.
     (let limit = depth_clamp recursion_limit max_depth
      in if limit \<le> rs_global s then (Fluent (DepthExceeded limit), s)
         else (case p (s\<lparr>rs_global := rs_global s + 1\<rparr>) of
                 (r, s') \<Rightarrow> (r, s'\<lparr>rs_global := rs_global s\<rparr>))))"

end
