(* ===== verification/Function_Registry.thy ===== *)
theory Function_Registry
  imports Resolution_Context Ordered_Dict "HOL-Library.List_Lexorder"
begin

text \<open>
  \<open>runtime/function_bridge.py\<close>, \<open>function_registry_helpers.py\<close>,
  \<open>function_registry_introspection.py\<close> and \<open>function_metadata.py\<close>: the registry of the
  functions a Fluent call can reach.  A Python function is what \<open>inspect\<close> tells of it and
  its behaviour, which may depend on the per-task resolution depth because a function may
  format messages itself.  Names are ASCII (\<open>upper\<close>, \<open>capitalize\<close>).
\<close>

section \<open>Python functions\<close>

datatype call_outcome =
    Returned fvalue
  | RaisedFluent resolution_error
  | RaisedValueOrType ustr
  | RaisedException ustr ustr
  | RaisedCancelled

datatype param_kind = POSITIONAL_ONLY | POSITIONAL_OR_KEYWORD | VAR_POSITIONAL | KEYWORD_ONLY | VAR_KEYWORD

text \<open>The parameters are None when the callable has no inspectable signature.\<close>

record python_function =
  pf_name :: "ustr option"
  pf_params :: "(ustr \<times> param_kind) list option"
  pf_requires_locale :: bool
  pf_call :: "int \<Rightarrow> fvalue list \<Rightarrow> (ustr, fvalue) odict \<Rightarrow> call_outcome"

record function_signature =
  fs_python_name :: ustr
  fs_ftl_name :: ustr
  fs_param_mapping :: "(ustr \<times> ustr) list"
  fs_callable :: python_function

record function_registry =
  fr_functions :: "(ustr, function_signature) odict"
  fr_frozen :: bool

section \<open>Names\<close>

definition ascii_upper :: "uchar \<Rightarrow> uchar" where
  "ascii_upper ch = (if 97 \<le> ch \<and> ch \<le> 122 then ch - 32 else ch)"

definition ascii_lower :: "uchar \<Rightarrow> uchar" where
  "ascii_lower ch = (if 65 \<le> ch \<and> ch \<le> 90 then ch + 32 else ch)"

definition str_capitalize :: "ustr \<Rightarrow> ustr" where
  "str_capitalize s = (case s of [] \<Rightarrow> [] | ch # rest \<Rightarrow> ascii_upper ch # map ascii_lower rest)"

definition to_camel_case :: "ustr \<Rightarrow> ustr" where
  "to_camel_case s =
     (case str_split CH_UNDERSCORE s of
        [] \<Rightarrow> []
      | w # ws \<Rightarrow> w @ concat (map str_capitalize ws))"

section \<open>Registration\<close>

text \<open>The automatic mapping of Fluent names to parameters; two parameters must not collide.\<close>

fun build_auto_map :: "(ustr \<times> param_kind) list \<Rightarrow> (ustr, ustr) odict \<Rightarrow> py_error + (ustr, ustr) odict" where
  "build_auto_map [] m = Inr m"
| "build_auto_map ((name, kind) # ps) m =
     (if name = u ''self'' \<or> name = u ''/'' \<or> name = u ''*'' then build_auto_map ps m
      else let camel = to_camel_case (dropWhile (\<lambda>ch. ch = CH_UNDERSCORE) name)
           in case od_get m camel of
                Some other \<Rightarrow>
                  if other \<noteq> name then Inl ValueError else build_auto_map ps (od_set camel name m)
              | None \<Rightarrow> build_auto_map ps (od_set camel name m))"

definition positional_capable :: "ustr \<times> param_kind \<Rightarrow> bool" where
  "positional_capable p \<longleftrightarrow>
     (snd p = POSITIONAL_ONLY \<or> snd p = POSITIONAL_OR_KEYWORD) \<and> fst p \<noteq> u ''self''"

definition locale_signature_ok :: "(ustr \<times> param_kind) list \<Rightarrow> bool" where
  "locale_signature_ok ps \<longleftrightarrow>
     list_ex (\<lambda>p. snd p = VAR_POSITIONAL) ps \<or> 2 \<le> length (filter positional_capable ps)"

definition build_function_signature ::
    "python_function \<Rightarrow> ustr option \<Rightarrow> (ustr \<times> ustr) list \<Rightarrow> py_error + function_signature" where
  "build_function_signature f ftl_name param_map =
     (let python_name = (case pf_name f of Some n \<Rightarrow> n | None \<Rightarrow> u ''unknown'');
          ftl = (case ftl_name of Some n \<Rightarrow> n | None \<Rightarrow> map ascii_upper python_name)
      in case pf_params f of
           None \<Rightarrow> Inl TypeError
         | Some ps \<Rightarrow>
             if pf_requires_locale f \<and> \<not> locale_signature_ok ps then Inl TypeError
             else (case build_auto_map ps [] of
                     Inl e \<Rightarrow> Inl e
                   | Inr auto \<Rightarrow>
                       let final_map = fold (\<lambda>(k, v). od_set k v) param_map auto
                       in Inr \<lparr>fs_python_name = python_name, fs_ftl_name = ftl,
                               fs_param_mapping = sort_key fst final_map, fs_callable = f\<rparr>))"

definition empty_registry :: function_registry where
  "empty_registry = \<lparr>fr_functions = [], fr_frozen = False\<rparr>"

definition register ::
    "python_function \<Rightarrow> ustr option \<Rightarrow> (ustr \<times> ustr) list \<Rightarrow> function_registry \<Rightarrow> py_error + function_registry" where
  "register f ftl_name param_map r =
     (if fr_frozen r then Inl TypeError
      else case build_function_signature f ftl_name param_map of
             Inl e \<Rightarrow> Inl e
           | Inr sig \<Rightarrow> Inr (r\<lparr>fr_functions := od_set (fs_ftl_name sig) sig (fr_functions r)\<rparr>))"

definition freeze :: "function_registry \<Rightarrow> function_registry" where
  "freeze r = r\<lparr>fr_frozen := True\<rparr>"

definition copy_registry :: "function_registry \<Rightarrow> function_registry" where
  "copy_registry r = \<lparr>fr_functions = fr_functions r, fr_frozen = False\<rparr>"

definition has_function :: "function_registry \<Rightarrow> ustr \<Rightarrow> bool" where
  "has_function r name \<longleftrightarrow> name \<in> set (od_keys (fr_functions r))"

definition get_python_name :: "function_registry \<Rightarrow> ustr \<Rightarrow> ustr option" where
  "get_python_name r name = map_option fs_python_name (od_get (fr_functions r) name)"

definition list_functions :: "function_registry \<Rightarrow> ustr list" where
  "list_functions r = od_keys (fr_functions r)"

definition get_function_info :: "function_registry \<Rightarrow> ustr \<Rightarrow> function_signature option" where
  "get_function_info r name = od_get (fr_functions r) name"

definition get_callable :: "function_registry \<Rightarrow> ustr \<Rightarrow> python_function option" where
  "get_callable r name = map_option fs_callable (od_get (fr_functions r) name)"

definition should_inject_locale :: "function_registry \<Rightarrow> ustr \<Rightarrow> bool" where
  "should_inject_locale r name =
     (case od_get (fr_functions r) name of None \<Rightarrow> False | Some sig \<Rightarrow> pf_requires_locale (fs_callable sig))"

text \<open>The built-in functions all expect one positional argument.\<close>

definition builtin_functions :: "ustr list" where
  "builtin_functions = [u ''NUMBER'', u ''DATETIME'', u ''CURRENCY'']"

definition get_expected_positional_args :: "ustr \<Rightarrow> nat option" where
  "get_expected_positional_args name = (if name \<in> set builtin_functions then Some 1 else None)"

section \<open>Calls\<close>

text \<open>The keyword arguments of the call, by Python name.\<close>

definition python_kwargs :: "function_signature \<Rightarrow> (ustr, fvalue) odict \<Rightarrow> (ustr, fvalue) odict" where
  "python_kwargs sig named =
     fold (\<lambda>(k, v). od_set (case map_of (fs_param_mapping sig) k of Some p \<Rightarrow> p | None \<Rightarrow> k) v) named []"

definition call_registered_function ::
    "function_signature \<Rightarrow> ustr \<Rightarrow> fvalue list \<Rightarrow> (ustr, fvalue) odict \<Rightarrow> int \<Rightarrow> call_outcome" where
  "call_registered_function sig name positional named global_depth =
     (case pf_call (fs_callable sig) global_depth positional (python_kwargs sig named) of
        RaisedValueOrType text \<Rightarrow> RaisedFluent (FunctionFailed name text)
      | x \<Rightarrow> x)"

definition registry_call ::
    "function_registry \<Rightarrow> ustr \<Rightarrow> fvalue list \<Rightarrow> (ustr, fvalue) odict \<Rightarrow> int \<Rightarrow> call_outcome" where
  "registry_call r name positional named global_depth =
     (case od_get (fr_functions r) name of
        None \<Rightarrow> RaisedFluent (FunctionNotFound name)
      | Some sig \<Rightarrow> call_registered_function sig name positional named global_depth)"

end
