(* ===== verification/Locale_Codes.thy ===== *)
theory Locale_Codes
  imports Function_Registry
begin

text \<open>
  \<open>core/locale_utils.py\<close>, \<open>core/validators.py\<close> and the factories of
  \<open>runtime/locale_context.py\<close>: validation and normalization of locale codes, the system
  locale, and the cache of locale contexts.  \<open>Locale.parse\<close> of Babel is a parameter;
  \<open>lower\<close> and \<open>upper\<close> are those of ASCII, which is what a valid code consists of.
\<close>

section \<open>Codes\<close>

definition MAX_LOCALE_LENGTH_HARD_LIMIT :: nat where
  "MAX_LOCALE_LENGTH_HARD_LIMIT = 1000"

definition MAX_LOCALE_CACHE_SIZE :: nat where
  "MAX_LOCALE_CACHE_SIZE = 128"

text \<open>\<open>^[a-zA-Z][a-zA-Z0-9]*([_-][a-zA-Z0-9]+)*\Z\<close>\<close>

definition is_ascii_alnum :: "uchar \<Rightarrow> bool" where
  "is_ascii_alnum ch \<longleftrightarrow> is_ascii_alpha ch \<or> is_ascii_digit ch"

fun match_subtags :: "ustr \<Rightarrow> bool" where
  "match_subtags [] = True"
| "match_subtags (ch # s) =
     (if is_ascii_alnum ch then match_subtags s
      else if ch = CH_UNDERSCORE \<or> ch = CH_MINUS then
        (case s of [] \<Rightarrow> False | c # rest \<Rightarrow> is_ascii_alnum c \<and> match_subtags rest)
      else False)"

definition is_structurally_valid_locale_code :: "ustr \<Rightarrow> bool" where
  "is_structurally_valid_locale_code s =
     (case s of [] \<Rightarrow> False | ch # rest \<Rightarrow> is_ascii_alpha ch \<and> match_subtags rest)"

definition normalize_locale :: "ustr \<Rightarrow> ustr" where
  "normalize_locale s = map (\<lambda>ch. ascii_lower (if ch = CH_MINUS then CH_UNDERSCORE else ch)) s"

text \<open>\<open>str.strip()\<close>\<close>

definition is_py_space :: "uchar \<Rightarrow> bool" where
  "is_py_space ch \<longleftrightarrow>
     (9 \<le> ch \<and> ch \<le> 13) \<or> (28 \<le> ch \<and> ch \<le> 32) \<or> ch = 0x85 \<or> ch = 0xA0 \<or> ch = 0x1680 \<or>
     (0x2000 \<le> ch \<and> ch \<le> 0x200A) \<or> ch = 0x2028 \<or> ch = 0x2029 \<or> ch = 0x202F \<or> ch = 0x205F \<or> ch = 0x3000"

definition py_strip :: "ustr \<Rightarrow> ustr" where
  "py_strip s = rev (dropWhile is_py_space (rev (dropWhile is_py_space s)))"

text \<open>A value at the boundary: a string, or an object of another type.\<close>

definition require_locale_code :: "ustr option \<Rightarrow> py_error + ustr" where
  "require_locale_code value_text =
     (case value_text of
        None \<Rightarrow> Inl TypeError
      | Some s \<Rightarrow>
          let locale_code = py_strip s
          in if locale_code = [] then Inl ValueError
             else if MAX_LOCALE_LENGTH_HARD_LIMIT < length locale_code then Inl ValueError
             else if \<not> is_structurally_valid_locale_code locale_code then Inl ValueError
             else Inr (normalize_locale locale_code))"

section \<open>The system locale\<close>

text \<open>\<open>s.split(ch, 1)[0]\<close>\<close>

definition split_first :: "uchar \<Rightarrow> ustr \<Rightarrow> ustr" where
  "split_first ch s = takeWhile (\<lambda>c. c \<noteq> ch) s"

definition is_pseudo_locale :: "ustr \<Rightarrow> bool" where
  "is_pseudo_locale s =
     (let base = map ascii_upper (split_first 64 (split_first CH_DOT s)) in base = u ''C'' \<or> base = u ''POSIX'')"

fun first_env_locale :: "ustr option list \<Rightarrow> ustr option" where
  "first_env_locale [] = None"
| "first_env_locale (x # xs) =
     (case x of
        None \<Rightarrow> first_env_locale xs
      | Some s \<Rightarrow>
          if s = [] then first_env_locale xs
          else if is_pseudo_locale (split_first CH_DOT s) then first_env_locale xs
          else Some (normalize_locale (split_first CH_DOT s)))"

text \<open>\<open>os_locale\<close> is the first component of \<open>locale.getlocale()\<close> (None also when it raises), \<open>env\<close>
  the values of \<open>LC_ALL\<close>, \<open>LC_MESSAGES\<close> and \<open>LANG\<close>; None is \<open>RuntimeError\<close>.\<close>

definition get_system_locale :: "ustr option \<Rightarrow> ustr option list \<Rightarrow> bool \<Rightarrow> ustr option" where
  "get_system_locale os_locale env raise_on_failure =
     (let from_env =
            (case first_env_locale env of
               Some s \<Rightarrow> Some s
             | None \<Rightarrow> if raise_on_failure then None else Some (normalize_locale (u ''en_US'')))
      in case os_locale of
           None \<Rightarrow> from_env
         | Some s \<Rightarrow>
             if s = [] then from_env
             else if is_pseudo_locale (split_first CH_DOT s) then from_env
             else Some (normalize_locale (split_first CH_DOT s)))"

section \<open>Validators\<close>

text \<open>What the validators distinguish of a Python object.\<close>

datatype py_object = ObjBool bool | ObjInt int | ObjValue fvalue | ObjOther

definition require_positive_int :: "py_object \<Rightarrow> py_error + int" where
  "require_positive_int x =
     (case x of
        ObjBool b \<Rightarrow> Inl TypeError
      | ObjInt i \<Rightarrow> if i \<le> 0 then Inl ValueError else Inr i
      | _ \<Rightarrow> Inl TypeError)"

definition require_date :: "fvalue \<Rightarrow> py_error + fvalue" where
  "require_date v = (case v of VDatetime i tz s \<Rightarrow> Inl TypeError | VDate i s \<Rightarrow> Inr v | _ \<Rightarrow> Inl TypeError)"

definition require_datetime :: "fvalue \<Rightarrow> py_error + fvalue" where
  "require_datetime v = (case v of VDatetime i tz s \<Rightarrow> Inr v | _ \<Rightarrow> Inl TypeError)"

definition require_fluent_number :: "fvalue \<Rightarrow> py_error + fvalue" where
  "require_fluent_number v = (case v of VNumber n formatted p \<Rightarrow> Inr v | _ \<Rightarrow> Inl TypeError)"

section \<open>Locale contexts\<close>

datatype 'l locale_parse = KnownLocale 'l | UnknownLocaleError | MalformedLocale

record 'l locale_context =
  lc_locale_code :: ustr
  lc_babel_locale :: 'l
  lc_is_fallback :: bool

type_synonym 'l context_cache = "(ustr, 'l locale_context) odict"

text \<open>\<open>create\<close>; \<open>en_us\<close> is what Babel parses for \<open>en_US\<close>.\<close>

definition new_locale_context :: "(ustr \<Rightarrow> 'l locale_parse) \<Rightarrow> 'l \<Rightarrow> ustr \<Rightarrow> 'l locale_context" where
  "new_locale_context babel_parse en_us code =
     (case babel_parse code of
        KnownLocale l \<Rightarrow> \<lparr>lc_locale_code = code, lc_babel_locale = l, lc_is_fallback = False\<rparr>
      | _ \<Rightarrow> \<lparr>lc_locale_code = code, lc_babel_locale = en_us, lc_is_fallback = True\<rparr>)"

definition create_context ::
    "(ustr \<Rightarrow> 'l locale_parse) \<Rightarrow> 'l \<Rightarrow> ustr option \<Rightarrow> 'l context_cache \<Rightarrow>
     (py_error + 'l locale_context) \<times> 'l context_cache" where
  "create_context babel_parse en_us locale_code cache =
     (case require_locale_code locale_code of
        Inl e \<Rightarrow> (Inl e, cache)
      | Inr code \<Rightarrow>
          (case od_get cache code of
             Some ctx \<Rightarrow> (Inr ctx, od_move_to_end code cache)
           | None \<Rightarrow>
               let ctx = new_locale_context babel_parse en_us code;
                   cache = (if MAX_LOCALE_CACHE_SIZE \<le> length cache then od_pop_first cache else cache)
               in (Inr ctx, od_set code ctx cache)))"

definition create_or_raise ::
    "(ustr \<Rightarrow> 'l locale_parse) \<Rightarrow> 'l \<Rightarrow> ustr option \<Rightarrow> 'l context_cache \<Rightarrow>
     (py_error + 'l locale_context) \<times> 'l context_cache" where
  "create_or_raise babel_parse en_us locale_code cache =
     (case require_locale_code locale_code of
        Inl e \<Rightarrow> (Inl e, cache)
      | Inr code \<Rightarrow>
          (case babel_parse code of
             KnownLocale l \<Rightarrow> create_context babel_parse en_us (Some code) cache
           | UnknownLocaleError \<Rightarrow> (Inl ValueError, cache)
           | MalformedLocale \<Rightarrow> (Inl ValueError, cache)))"

section \<open>Properties\<close>

definition normal_char :: "uchar \<Rightarrow> uchar" where
  "normal_char ch = ascii_lower (if ch = CH_MINUS then CH_UNDERSCORE else ch)"

lemma normalize_Cons: "normalize_locale [] = []" "normalize_locale (ch # s) = normal_char ch # normalize_locale s"
  by (simp_all add: normalize_locale_def normal_char_def)

lemma normal_char_class:
  "is_ascii_alnum ch \<Longrightarrow> is_ascii_alnum (normal_char ch)"
  "is_ascii_alpha ch \<Longrightarrow> is_ascii_alpha (normal_char ch)"
  "ch = CH_UNDERSCORE \<or> ch = CH_MINUS \<Longrightarrow> normal_char ch = CH_UNDERSCORE"
  "\<not> is_ascii_alnum CH_UNDERSCORE"
  by (simp_all add: normal_char_def is_ascii_alnum_def is_ascii_alpha_def is_ascii_digit_def ascii_lower_def) auto

lemma match_subtags_normalize: "match_subtags s \<Longrightarrow> match_subtags (normalize_locale s)"
proof (induction s rule: match_subtags.induct)
  case (2 ch s)
  show ?case
  proof (cases "is_ascii_alnum ch")
    case True
    with 2 show ?thesis by (simp add: normalize_Cons normal_char_class)
  next
    case False
    with 2(3) obtain c rest where s: "s = c # rest" "is_ascii_alnum c" "match_subtags rest" "normal_char ch = CH_UNDERSCORE"
      by (cases s) (auto simp: normal_char_class split: if_splits)
    with 2(2) False 2(3) show ?thesis by (simp add: normalize_Cons normal_char_class split: if_splits)
  qed
qed (simp add: normalize_Cons)

text \<open>A canonical code: lower case, digits and underscores.\<close>

definition canonical_code :: "ustr \<Rightarrow> bool" where
  "canonical_code s \<longleftrightarrow> is_structurally_valid_locale_code s \<and>
     list_all (\<lambda>ch. is_ascii_digit ch \<or> (97 \<le> ch \<and> ch \<le> 122) \<or> ch = CH_UNDERSCORE) s"

lemma match_subtags_chars:
  "match_subtags s \<Longrightarrow> ch \<in> set s \<Longrightarrow> is_ascii_alnum ch \<or> ch = CH_UNDERSCORE \<or> ch = CH_MINUS"
  by (induction s rule: match_subtags.induct) (auto split: if_splits list.splits)

lemma normalize_valid:
  assumes "is_structurally_valid_locale_code s"
  shows "canonical_code (normalize_locale s)"
proof -
  obtain ch rest where s: "s = ch # rest" "is_ascii_alpha ch" "match_subtags rest"
    using assms by (cases s) (auto simp: is_structurally_valid_locale_code_def)
  have "is_structurally_valid_locale_code (normalize_locale s)"
    using s match_subtags_normalize [OF s(3)]
    by (simp add: is_structurally_valid_locale_code_def normalize_Cons normal_char_class)
  moreover have "is_ascii_alnum c \<or> c = CH_UNDERSCORE \<or> c = CH_MINUS" if "c \<in> set s" for c
    using that s match_subtags_chars by (auto simp: is_ascii_alnum_def)
  ultimately show ?thesis
    unfolding canonical_code_def list_all_iff normalize_locale_def
    by (fastforce simp: is_ascii_alnum_def is_ascii_alpha_def is_ascii_digit_def ascii_lower_def)
qed

lemma canonical_normal: "canonical_code s \<Longrightarrow> normalize_locale s = s"
  unfolding canonical_code_def normalize_locale_def
  by (intro map_idI) (auto simp: list_all_iff is_ascii_digit_def ascii_lower_def)

lemma canonical_strip: "canonical_code s \<Longrightarrow> py_strip s = s"
proof -
  assume "canonical_code s"
  then have "\<forall>ch \<in> set s. \<not> is_py_space ch"
    by (auto simp: canonical_code_def list_all_iff is_ascii_digit_def is_py_space_def)
  then have "dropWhile is_py_space t = t" if "set t \<subseteq> set s" for t
    using that by (cases t) auto
  then have "dropWhile is_py_space s = s" "dropWhile is_py_space (rev s) = rev s" by simp_all
  then show ?thesis by (simp add: py_strip_def)
qed

lemma require_canonical:
  assumes "require_locale_code x = Inr code"
  shows "canonical_code code" "length code \<le> MAX_LOCALE_LENGTH_HARD_LIMIT" "code \<noteq> []"
    "require_locale_code (Some code) = Inr code"
proof -
  show c: "canonical_code code" "length code \<le> MAX_LOCALE_LENGTH_HARD_LIMIT" "code \<noteq> []"
    using assms
    by (auto simp: require_locale_code_def Let_def normalize_valid split: option.splits if_splits)
      (simp_all add: normalize_locale_def)
  then show "require_locale_code (Some code) = Inr code"
    by (simp add: require_locale_code_def canonical_strip canonical_normal)
      (simp add: canonical_code_def)
qed

text \<open>Every cached context keeps the code it is stored under, in a cache of bounded size.\<close>

definition context_cache_ok :: "'l context_cache \<Rightarrow> bool" where
  "context_cache_ok cache \<longleftrightarrow>
     od_valid cache \<and> length cache \<le> MAX_LOCALE_CACHE_SIZE \<and>
     list_all (\<lambda>(k, ctx). lc_locale_code ctx = k \<and> canonical_code k) cache"

lemma od_length_set: "length (od_set k v d) = (if k \<in> set (od_keys d) then length d else Suc (length d))"
  using arg_cong [OF od_keys_set [of k v d], of length] by (simp add: od_keys_def split: if_splits)

lemma od_items: "od_valid d \<Longrightarrow> (k, v) \<in> set d \<longleftrightarrow> od_get d k = Some v"
  by (simp add: od_valid_def od_keys_def od_get_def)


lemma insert_context:
  assumes "context_cache_ok cache" "od_get cache code = None" "canonical_code code" "lc_locale_code ctx = code"
  shows "context_cache_ok (od_set code ctx (if MAX_LOCALE_CACHE_SIZE \<le> length cache then od_pop_first cache else cache))"
proof -
  let ?d = "if MAX_LOCALE_CACHE_SIZE \<le> length cache then od_pop_first cache else cache"
  have d: "od_valid ?d" "set ?d \<subseteq> set cache" "length ?d < MAX_LOCALE_CACHE_SIZE" "code \<notin> set (od_keys ?d)"
    using assms
    by (cases cache; auto simp: context_cache_ok_def od_valid_def od_keys_def od_pop_first_def MAX_LOCALE_CACHE_SIZE_def
        od_get_None)+
  have v: "od_valid (od_set code ctx ?d)" using d(1) by (rule od.valid_set)
  have "lc_locale_code x = k \<and> canonical_code k" if "(k, x) \<in> set (od_set code ctx ?d)" for k x
  proof -
    have "((od_get ?d)(code \<mapsto> ctx)) k = Some x" using that od_items [OF v] by (simp add: od_get_set)
    then show ?thesis
      using assms od_items [OF d(1), of k x] d(2)
      by (auto simp: context_cache_ok_def list_all_iff split: if_splits)
  qed
  then show ?thesis using v d(3,4) by (auto simp: context_cache_ok_def list_all_iff od_length_set)
qed

lemma touch_context:
  assumes "context_cache_ok cache" "od_get cache code = Some ctx"
  shows "context_cache_ok (od_move_to_end code cache)" "od_get (od_move_to_end code cache) code = Some ctx"
    "lc_locale_code ctx = code"
proof -
  have v: "od_valid cache" and k: "code \<in> set (od_keys cache)"
    using assms od_get_None [of cache code] by (auto simp: context_cache_ok_def)
  have m: "od_valid (od_move_to_end code cache)" using v k by (rule od.valid_move)
  have "(k, x) \<in> set (od_move_to_end code cache) \<longleftrightarrow> (k, x) \<in> set cache" for k x
    using od_items [OF m] od_items [OF v] by (simp add: od_get_move)
  moreover have "length (od_move_to_end code cache) = length cache"
    using arg_cong [OF od_keys_move [OF k], of length] v k
    by (simp add: od_keys_def od_valid_def distinct_remove1_removeAll [symmetric] length_remove1)
      (metis length_pos_if_in_set list.set_map length_map Suc_pred)
  ultimately show "context_cache_ok (od_move_to_end code cache)"
    using assms(1) m by (auto simp: context_cache_ok_def list_all_iff)
  show "od_get (od_move_to_end code cache) code = Some ctx" using assms(2) by (simp add: od_get_move)
  show "lc_locale_code ctx = code"
    using assms od_items [OF v, of code ctx] by (fastforce simp: context_cache_ok_def list_all_iff)
qed

text \<open>Creating a locale context either raises and leaves the cache alone, or returns a context
  with a canonical code (lower case, digits and underscores, a letter first, accepted again
  unchanged); the cache stays within its size, holds the context and keeps every context
  under its own code.\<close>

theorem create_context_canonical:
  assumes "context_cache_ok cache"
  shows "case create_context babel_parse en_us locale_code cache of
      (Inl e, cache') \<Rightarrow> cache' = cache
    | (Inr ctx, cache') \<Rightarrow>
        canonical_code (lc_locale_code ctx) \<and>
        require_locale_code (Some (lc_locale_code ctx)) = Inr (lc_locale_code ctx) \<and>
        context_cache_ok cache' \<and> od_get cache' (lc_locale_code ctx) = Some ctx"
proof (cases "require_locale_code locale_code")
  case (Inr code)
  note c = require_canonical [OF Inr]
  show ?thesis
  proof (cases "od_get cache code")
    case None
    have "lc_locale_code (new_locale_context babel_parse en_us code) = code"
      by (simp add: new_locale_context_def split: locale_parse.split)
    then show ?thesis
      using Inr c insert_context [OF assms None c(1)] None by (simp add: create_context_def Let_def od_get_set)
  next
    case (Some ctx)
    then show ?thesis using Inr c touch_context [OF assms Some] by (simp add: create_context_def)
  qed
qed (simp add: create_context_def)

theorem create_context_canonical_witness:
  "canonical_code (u ''pt_br'') \<and> require_locale_code (Some (u ''pt_br'')) = Inr (u ''pt_br'')"
proof -
  have "create_context (\<lambda>s. KnownLocale s) [] (Some (u '' pt-BR '')) [] =
      (Inr \<lparr>lc_locale_code = u ''pt_br'', lc_babel_locale = u ''pt_br'', lc_is_fallback = False\<rparr>,
       [(u ''pt_br'', \<lparr>lc_locale_code = u ''pt_br'', lc_babel_locale = u ''pt_br'', lc_is_fallback = False\<rparr>)])"
    by (simp add: create_context_def require_locale_code_def py_strip_def is_py_space_def u_def
        is_structurally_valid_locale_code_def is_ascii_alpha_def is_ascii_digit_def is_ascii_alnum_def
        MAX_LOCALE_LENGTH_HARD_LIMIT_def normalize_locale_def ascii_lower_def od_get_def od_set_def
        new_locale_context_def MAX_LOCALE_CACHE_SIZE_def Let_def)
  with create_context_canonical [of "[]" "\<lambda>s. KnownLocale s" "[]" "Some (u '' pt-BR '')"] show ?thesis
    by (simp add: context_cache_ok_def od_valid_def od_keys_def)
qed

text \<open>The system locale of \<open>LANG=de_DE@euro\<close> keeps its modifier, and is refused as a locale
  code by the constructor of a bundle.\<close>

theorem system_locale_refused:
  "get_system_locale None [None, None, Some (u ''de_DE@euro'')] True = Some (u ''de_de@euro'') \<and>
   require_locale_code (Some (u ''de_de@euro'')) = Inl ValueError"
  by (simp add: get_system_locale_def is_pseudo_locale_def split_first_def u_def ascii_upper_def normalize_locale_def
      ascii_lower_def require_locale_code_def py_strip_def is_py_space_def is_structurally_valid_locale_code_def
      is_ascii_alpha_def is_ascii_digit_def is_ascii_alnum_def Let_def)

end
