(* ===== verification/Resolver.thy ===== *)
theory Resolver
  imports Locale_Codes
begin

text \<open>
  \<open>runtime/resolver.py\<close>, \<open>resolver_runtime.py\<close> and \<open>resolver_selection.py\<close>: from the
  AST to text.  Within one entry the recursion follows the tree; a reference to another
  message or term goes on with the argument \<open>rp\<close>, the pattern resolver for one level
  deeper, and \<open>resolve_pattern_at\<close> ties the knot with one unit of fuel per level.
  Babel is a parameter: whether it is installed, and what \<open>Locale.parse\<close> makes of a code, by the
  plural rules of the locale.
\<close>

section \<open>Plural categories\<close>

text \<open>
  \<open>Locale.plural_form\<close> and, with True, \<open>Locale.ordinal_form\<close>: the category of a number, or the
  name of the exception that the rule raises.
\<close>

type_synonym plural_rules = "bool \<Rightarrow> numeric \<Rightarrow> ustr + ustr"

record plural_support =
  ps_installed :: bool
  ps_parse :: "ustr \<Rightarrow> plural_rules locale_parse"

text \<open>\<open>core/locale_utils.py\<close>; the cache of the parsed locales is not observed.\<close>

definition get_babel_locale :: "plural_support \<Rightarrow> ustr \<Rightarrow> plural_rules locale_parse" where
  "get_babel_locale B locale_code =
     (case require_locale_code (Some locale_code) of
        Inl e \<Rightarrow> MalformedLocale
      | Inr code \<Rightarrow> ps_parse B code)"

text \<open>The rules of the locale, else those of the root locale.\<close>

definition find_plural_rules :: "plural_support \<Rightarrow> ustr \<Rightarrow> plural_rules option" where
  "find_plural_rules B locale =
     (case get_babel_locale B locale of
        KnownLocale rules \<Rightarrow> Some rules
      | _ \<Rightarrow>
          (case get_babel_locale B (u ''root'') of
             KnownLocale rules \<Rightarrow> Some rules
           | _ \<Rightarrow> None))"

definition apply_rule :: "plural_rules \<Rightarrow> bool \<Rightarrow> numeric \<Rightarrow> fatal_error + ustr" where
  "apply_rule rules ordinal n =
     (case rules ordinal n of Inl kind \<Rightarrow> Inl (PluralRuleError kind) | Inr category \<Rightarrow> Inr category)"

text \<open>\<open>Decimal(str(n)).quantize(Decimal(10) ** -precision, rounding=ROUND_HALF_EVEN)\<close>\<close>

definition with_precision :: "nat \<Rightarrow> nat \<Rightarrow> numeric \<Rightarrow> int \<Rightarrow> fatal_error + decimal_number" where
  "with_precision prec limit n precision =
     (case to_decimal limit n of
        Inl e \<Rightarrow> Inl (PyError e)
      | Inr d \<Rightarrow>
          (case d of
             Finite neg c x \<Rightarrow>
               (case quantize prec neg c x (quantizer_exponent prec precision) of
                  None \<Rightarrow> Inl InvalidOperation
                | Some q \<Rightarrow> Inr q)
           | _ \<Rightarrow> Inl InvalidOperation))"

definition non_finite :: "numeric \<Rightarrow> bool" where
  "non_finite n = (case n of IntNumber i \<Rightarrow> False | DecimalNumber d \<Rightarrow> is_nan d \<or> is_infinite d)"

definition select_plural_category ::
    "plural_support \<Rightarrow> nat \<Rightarrow> nat \<Rightarrow> numeric \<Rightarrow> ustr \<Rightarrow> int option \<Rightarrow> bool \<Rightarrow> fatal_error + ustr" where
  "select_plural_category B prec limit n locale precision ordinal =
     (if \<not> ps_installed B then Inl BabelImportError
      else
        (case find_plural_rules B locale of
           None \<Rightarrow> Inr (u ''other'')
         | Some rules \<Rightarrow>
             if non_finite n then Inr (u ''other'')
             else
               (case precision of
                  None \<Rightarrow> apply_rule rules ordinal n
                | Some p \<Rightarrow>
                    if 0 \<le> p then
                      (case with_precision prec limit n p of
                         Inl e \<Rightarrow> Inl e
                       | Inr d \<Rightarrow> apply_rule rules ordinal (DecimalNumber d))
                    else apply_rule rules ordinal n)))"

section \<open>The resolver\<close>

type_synonym message_data = "ident \<times> pattern option \<times> attribute list"
type_synonym term_data = "ident \<times> pattern \<times> attribute list"
type_synonym fargs = "ustr \<rightharpoonup> fvalue"
type_synonym pattern_resolver = "pattern \<Rightarrow> fargs \<Rightarrow> ustr res"

record resolver =
  rv_locale :: ustr
  rv_messages :: "ustr \<rightharpoonup> message_data"
  rv_terms :: "ustr \<rightharpoonup> term_data"
  rv_registry :: function_registry
  rv_use_isolating :: bool
  rv_max_nesting_depth :: int
  rv_max_expansion_size :: int
  rv_recursion_limit :: int
  rv_int_digits :: nat
  rv_decimal_prec :: nat
  rv_babel :: plural_support

definition FSI :: uchar where "FSI = 0x2068"
definition PDI :: uchar where "PDI = 0x2069"

section \<open>Fallback texts\<close>

definition fallback_message :: "ustr \<Rightarrow> ustr" where
  "fallback_message name = u ''{'' @ name @ u ''}''"

definition fallback_variable :: "ustr \<Rightarrow> ustr" where
  "fallback_variable name = u ''{$'' @ name @ u ''}''"

definition fallback_term :: "ustr \<Rightarrow> ustr" where
  "fallback_term name = u ''{-'' @ name @ u ''}''"

definition fallback_function :: "ustr \<Rightarrow> ustr" where
  "fallback_function name = u ''{!'' @ name @ u ''}''"

definition FALLBACK_INVALID :: ustr where
  "FALLBACK_INVALID = u ''{???}''"

definition qualified_id :: "ident \<Rightarrow> ident option \<Rightarrow> ustr" where
  "qualified_id i attr =
     (case attr of None \<Rightarrow> id_name i | Some a \<Rightarrow> id_name i @ u ''.'' @ id_name a)"

fun get_fallback :: "expression \<Rightarrow> int \<Rightarrow> ustr" where
  "get_fallback (VariableReference i sp) depth =
     (if depth \<le> 0 then FALLBACK_INVALID else fallback_variable (id_name i))"
| "get_fallback (MessageReference i attr sp) depth =
     (if depth \<le> 0 then FALLBACK_INVALID else fallback_message (qualified_id i attr))"
| "get_fallback (TermReference i attr as sp) depth =
     (if depth \<le> 0 then FALLBACK_INVALID else fallback_term (qualified_id i attr))"
| "get_fallback (FunctionReference i as sp) depth =
     (if depth \<le> 0 then FALLBACK_INVALID else fallback_function (id_name i))"
| "get_fallback (SelectExpression sel vs sp) depth =
     (if depth \<le> 0 then FALLBACK_INVALID else u ''{'' @ get_fallback sel (depth - 1) @ u '' -> ...}'')"
| "get_fallback (NestedPlaceable (Placeable e sp)) depth =
     (if depth \<le> 0 then FALLBACK_INVALID else get_fallback e (depth - 1))"
| "get_fallback (StringLiteral s sp) depth = (if depth \<le> 0 then FALLBACK_INVALID else s)"
| "get_fallback (NumberLiteral v raw sp) depth = (if depth \<le> 0 then FALLBACK_INVALID else raw)"

section \<open>Choosing a variant\<close>

text \<open>
  Pass 1: the exact match.  A malformed number key raises \<open>InvalidOperation\<close>, and so does the
  comparison with a signaling NaN.
\<close>

fun scan_exact :: "variant list \<Rightarrow> decimal_number option \<Rightarrow> ustr \<Rightarrow> fatal_error + variant option" where
  "scan_exact [] d text = Inr None"
| "scan_exact (w # ws) d text =
     (case variant_key_of w of
        KeyIdentifier i \<Rightarrow> if id_name i = text then Inr (Some w) else scan_exact ws d text
      | KeyNumber v raw sp \<Rightarrow>
          (case d of
             None \<Rightarrow> scan_exact ws d text
           | Some sel \<Rightarrow>
               (case py_decimal raw of
                  None \<Rightarrow> Inl InvalidOperation
                | Some k \<Rightarrow>
                    (case decimal_equal (literal_number k) sel of
                       None \<Rightarrow> Inl InvalidOperation
                     | Some equal \<Rightarrow> if equal then Inr (Some w) else scan_exact ws d text))))"

definition find_exact :: "nat \<Rightarrow> variant list \<Rightarrow> fvalue \<Rightarrow> ustr \<Rightarrow> fatal_error + variant option" where
  "find_exact limit vs value text =
     (case numeric_of value of
        None \<Rightarrow> scan_exact vs None text
      | Some n \<Rightarrow>
          (case to_decimal limit n of
             Inl e \<Rightarrow> Inl (PyError e)
           | Inr d \<Rightarrow> scan_exact vs (Some d) text))"

text \<open>Pass 2: the plural category.\<close>

fun find_plural :: "variant list \<Rightarrow> ustr \<Rightarrow> variant option" where
  "find_plural [] category = None"
| "find_plural (w # ws) category =
     (case variant_key_of w of
        KeyIdentifier i \<Rightarrow> if id_name i = category then Some w else find_plural ws category
      | KeyNumber v raw sp \<Rightarrow> find_plural ws category)"

fun find_default :: "variant list \<Rightarrow> variant option" where
  "find_default [] = None"
| "find_default (w # ws) = (if variant_default w then Some w else find_default ws)"

text \<open>The variant taken when no selector value decides.\<close>

definition fallback_variant :: "variant list \<Rightarrow> variant option" where
  "fallback_variant vs =
     (case find_default vs of
        Some w \<Rightarrow> Some w
      | None \<Rightarrow> (case vs of [] \<Rightarrow> None | w # ws \<Rightarrow> Some w))"

text \<open>
  The decision for a selector value: the variant, whether plural support was missing, or
  an exception; of those of \<open>select_plural_category\<close> only \<open>BabelImportError\<close> is caught.
\<close>

definition choose_variant ::
    "resolver \<Rightarrow> variant list \<Rightarrow> fvalue \<Rightarrow> ustr \<Rightarrow> fatal_error + variant option \<times> bool" where
  "choose_variant R vs value text =
     (case find_exact (rv_int_digits R) vs value text of
        Inl e \<Rightarrow> Inl e
      | Inr (Some w) \<Rightarrow> Inr (Some w, False)
      | Inr None \<Rightarrow>
          (case numeric_of value of
             None \<Rightarrow> Inr (fallback_variant vs, False)
           | Some n \<Rightarrow>
               (case select_plural_category (rv_babel R) (rv_decimal_prec R) (rv_int_digits R) n (rv_locale R)
                       (precision_of value) False of
                  Inl BabelImportError \<Rightarrow> Inr (fallback_variant vs, True)
                | Inl e \<Rightarrow> Inl e
                | Inr category \<Rightarrow>
                    (case find_plural vs category of
                       Some w \<Rightarrow> Inr (Some w, False)
                     | None \<Rightarrow> Inr (fallback_variant vs, False)))))"

lemma scan_exact_in: "scan_exact vs d text = Inr (Some w) \<Longrightarrow> w \<in> set vs"
  by (induction vs) (auto split: variant_key.splits if_splits option.splits)

lemma find_plural_in: "find_plural vs category = Some w \<Longrightarrow> w \<in> set vs"
  by (induction vs) (auto split: variant_key.splits if_splits)

lemma find_default_in: "find_default vs = Some w \<Longrightarrow> w \<in> set vs"
  by (induction vs) (auto split: if_splits)

lemma fallback_variant_in: "fallback_variant vs = Some w \<Longrightarrow> w \<in> set vs"
  by (auto simp: fallback_variant_def split: option.splits list.splits dest: find_default_in)

lemma choose_variant_in: "choose_variant R vs value text = Inr (Some w, b) \<Longrightarrow> w \<in> set vs"
  by (auto simp: choose_variant_def find_exact_def split: option.splits sum.splits fatal_error.splits
      dest: scan_exact_in find_plural_in fallback_variant_in)

lemma variant_value_size: "size (variant_value w) < size w"
  by (cases w) simp

lemma fallback_variant_size [termination_simp]:
  "fallback_variant vs = Some w \<Longrightarrow> size (variant_value w) < Suc (size_list size vs + k)"
  using variant_value_size [of w] size_list_estimation' [of w vs "size w" size]
  by (fastforce dest: fallback_variant_in)

lemma choose_variant_size [termination_simp]:
  "choose_variant R vs value text = Inr b \<Longrightarrow> (Some w, no) = b \<Longrightarrow>
     size (variant_value w) < Suc (size_list size vs + k)"
  using variant_value_size [of w] size_list_estimation' [of w vs "size w" size]
  by (fastforce dest: choose_variant_in)

section \<open>Functions\<close>

definition lift_format :: "nat \<Rightarrow> fvalue \<Rightarrow> ustr res" where
  "lift_format limit v =
     (case format_value limit v of
        Formatted s \<Rightarrow> rret s
      | FloatRefused r \<Rightarrow> rthrow (FloatNotAllowed r)
      | FormatRaises e \<Rightarrow> rfatal (PyError e))"

definition call_function_safe ::
    "resolver \<Rightarrow> ustr \<Rightarrow> fvalue list \<Rightarrow> (ustr, fvalue) odict \<Rightarrow> fvalue res" where
  "call_function_safe R name positional named = with_state (\<lambda>s.
     (case registry_call (rv_registry R) name positional named (rs_global s) of
        Returned v \<Rightarrow> rret v
      | RaisedFluent e \<Rightarrow> rthrow e
      | RaisedCancelled \<Rightarrow> rfatal Cancelled
      | RaisedException kind text \<Rightarrow>
          rbind (append_error (FunctionFailed name (u ''Uncaught exception: '' @ kind @ u '': '' @ text)))
            (\<lambda>_. rret (VStr (fallback_function name)))
      | RaisedValueOrType text \<Rightarrow> rthrow (FunctionFailed name text)))"

definition dispatch_function ::
    "resolver \<Rightarrow> ustr \<Rightarrow> fvalue list \<Rightarrow> (ustr, fvalue) odict \<Rightarrow> fvalue res" where
  "dispatch_function R name positional named =
     (if should_inject_locale (rv_registry R) name then
        (case get_expected_positional_args name of
           Some expected \<Rightarrow>
             if length positional \<noteq> expected
             then rthrow (FunctionArityMismatch name expected (length positional))
             else call_function_safe R name (positional @ [VStr (rv_locale R)]) named
         | None \<Rightarrow> call_function_safe R name (positional @ [VStr (rv_locale R)]) named)
      else call_function_safe R name positional named)"

section \<open>Messages\<close>

fun find_attribute :: "attribute list \<Rightarrow> ustr \<Rightarrow> attribute option" where
  "find_attribute [] name = None"
| "find_attribute (a # as) name =
     (case find_attribute as name of
        Some b \<Rightarrow> Some b
      | None \<Rightarrow> if id_name (attr_id a) = name then Some a else None)"

text \<open>The pattern that \<open>resolve_message\<close> selects, or the error and the name of the fallback.\<close>

definition select_pattern ::
    "message_data \<Rightarrow> ustr option \<Rightarrow> resolution_error \<times> ustr + ustr \<times> pattern" where
  "select_pattern m attribute =
     (case m of (i, value, attributes) \<Rightarrow>
        (case attribute of
           Some name \<Rightarrow>
             if name = [] then
               (case value of
                  None \<Rightarrow> Inl (MessageNoValue (id_name i), id_name i)
                | Some p \<Rightarrow> Inr (id_name i, p))
             else
               (case find_attribute attributes name of
                  None \<Rightarrow> Inl (AttributeNotFound name (id_name i), id_name i @ u ''.'' @ name)
                | Some a \<Rightarrow> Inr (id_name i @ u ''.'' @ name, attr_value a))
         | None \<Rightarrow>
             (case value of
                None \<Rightarrow> Inl (MessageNoValue (id_name i), id_name i)
              | Some p \<Rightarrow> Inr (id_name i, p))))"

definition error_text :: "resolution_error \<Rightarrow> ustr \<Rightarrow> ustr res" where
  "error_text e text = rbind (append_error e) (\<lambda>_. rret text)"

definition resolve_message ::
    "resolver \<Rightarrow> pattern_resolver \<Rightarrow> message_data \<Rightarrow> fargs \<Rightarrow> ustr option \<Rightarrow>
     (ustr \<times> resolution_error list) res" where
  "resolve_message R rp m args attribute = own_errors
     (case select_pattern m attribute of
        Inl (e, name) \<Rightarrow> error_text e (fallback_message name)
      | Inr (key, pattern) \<Rightarrow> with_state (\<lambda>s.
          if contains key s then error_text (CyclicReference (get_cycle_path key s)) (fallback_message key)
          else if is_depth_exceeded s then
            error_text (MaxDepthExceeded key (rs_max_depth s)) (fallback_message key)
          else
            rcatch
              (globally_guarded (rv_recursion_limit R) (rs_max_depth s)
                (rbind (push key) (\<lambda>_.
                   rfinally (rp pattern args) (rbind pop (\<lambda>_. rret ())))))
              (\<lambda>e. error_text e (fallback_message key))))"

section \<open>Terms\<close>

definition term_pattern :: "term_data \<Rightarrow> ident option \<Rightarrow> resolution_error + pattern" where
  "term_pattern t attr =
     (case t of (i, value, attributes) \<Rightarrow>
        (case attr of
           None \<Rightarrow> Inr value
         | Some a \<Rightarrow>
             (case find_attribute attributes (id_name a) of
                None \<Rightarrow> Inl (TermAttributeNotFound (id_name a) (id_name i))
              | Some b \<Rightarrow> Inr (attr_value b))))"

text \<open>From the term's key on; \<open>eval\<close> evaluates the arguments in the caller's scope.\<close>

definition resolve_term ::
    "pattern_resolver \<Rightarrow> ustr \<Rightarrow> pattern \<Rightarrow> fargs res \<Rightarrow> ustr res" where
  "resolve_term rp name pattern eval = with_state (\<lambda>s.
     if contains (u ''-'' @ name) s then
       error_text (CyclicReference (get_cycle_path (u ''-'' @ name) s)) (fallback_term name)
     else if is_depth_exceeded s then
       error_text (MaxDepthExceeded (u ''-'' @ name) (rs_max_depth s)) (fallback_term name)
     else
       rbind eval (\<lambda>term_args.
         rfinally (rbind (push (u ''-'' @ name)) (\<lambda>_. rp pattern term_args)) (rbind pop (\<lambda>_. rret ()))))"

section \<open>Patterns\<close>

text \<open>
  The end of a placeable that was evaluated: count its text and give the part, or None when
  the budget is exceeded; the error is reported where the limit was crossed.
\<close>

definition emit_placeable :: "resolver \<Rightarrow> ustr \<Rightarrow> ustr option res" where
  "emit_placeable R formatted = with_state (\<lambda>s0.
     rbind (track_expansion (length formatted)) (\<lambda>_. with_state (\<lambda>s.
       if over_budget s then
         (if rs_chars s0 \<le> rs_max_expansion s
          then rbind (append_error (budget_error s)) (\<lambda>_. rret None) else rret None)
       else rret (Some (if rv_use_isolating R then [FSI] @ formatted @ [PDI] else formatted)))))"

text \<open>The readable text of a placeable that raised.\<close>

definition placeable_fallback :: "expression \<Rightarrow> resolution_error \<Rightarrow> ustr" where
  "placeable_fallback e err =
     (case (if category_of err = FORMATTING then fallback_of err else None) of
        Some text \<Rightarrow> if text \<noteq> [] then text else get_fallback e 10
      | None \<Rightarrow> get_fallback e 10)"

text \<open>\<open>with expression_guard: eval\<close>, formatted and counted, inside the \<open>try\<close>.\<close>

definition placeable_part :: "resolver \<Rightarrow> expression \<Rightarrow> fvalue res \<Rightarrow> ustr option res" where
  "placeable_part R e eval =
     rcatch
       (rbind (expression_guarded eval) (\<lambda>v.
          rbind (lift_format (rv_int_digits R) v) (emit_placeable R)))
       (\<lambda>err. rbind (append_error err) (\<lambda>_. rret (Some (placeable_fallback e err))))"

definition text_part :: "ustr \<Rightarrow> ustr option res" where
  "text_part text =
     rbind (track_expansion (length text)) (\<lambda>_. with_state (\<lambda>s.
       if over_budget s then rbind (append_error (budget_error s)) (\<lambda>_. rret None)
       else rret (Some text)))"

text \<open>One step of the element loop: stop (\<open>break\<close>) or go on with the rest.\<close>

definition then_rest :: "ustr option res \<Rightarrow> ustr list res \<Rightarrow> ustr list res" where
  "then_rest part rest =
     rbind part (\<lambda>x. case x of
        None \<Rightarrow> rret []
      | Some text \<Rightarrow> rbind rest (\<lambda>parts. rret (text # parts)))"

text \<open>The evaluation of a selector; None when it raised, the error being collected.\<close>

definition try_selector :: "fvalue res \<Rightarrow> fvalue option res" where
  "try_selector eval =
     rcatch (rbind (expression_guarded eval) (\<lambda>v. rret (Some v)))
       (\<lambda>err. rbind (append_error err) (\<lambda>_. rret None))"

text \<open>The warning about positional arguments of a term.\<close>

definition warn_positional :: "ustr \<Rightarrow> nat \<Rightarrow> unit res" where
  "warn_positional name n =
     (if n = 0 then rret () else append_error (TermPositionalArgsIgnored name n))"

function (sequential) resolve_expression :: "resolver \<Rightarrow> pattern_resolver \<Rightarrow> expression \<Rightarrow> fargs \<Rightarrow> fvalue res"
and resolve_named :: "resolver \<Rightarrow> pattern_resolver \<Rightarrow> named_argument \<Rightarrow> fargs \<Rightarrow> (ustr \<times> fvalue) res"
and resolve_positionals :: "resolver \<Rightarrow> pattern_resolver \<Rightarrow> expression list \<Rightarrow> fargs \<Rightarrow> fvalue list res"
and resolve_nameds ::
    "resolver \<Rightarrow> pattern_resolver \<Rightarrow> named_argument list \<Rightarrow> fargs \<Rightarrow> (ustr \<times> fvalue) list res"
and term_nameds :: "resolver \<Rightarrow> pattern_resolver \<Rightarrow> named_argument list \<Rightarrow> fargs \<Rightarrow> fargs \<Rightarrow> fargs res"
and term_positionals :: "resolver \<Rightarrow> pattern_resolver \<Rightarrow> expression list \<Rightarrow> fargs \<Rightarrow> unit res"
and resolve_elements :: "resolver \<Rightarrow> pattern_resolver \<Rightarrow> pattern_element list \<Rightarrow> fargs \<Rightarrow> ustr list res"
and resolve_pattern :: "resolver \<Rightarrow> pattern_resolver \<Rightarrow> pattern \<Rightarrow> fargs \<Rightarrow> ustr res" where
  "resolve_expression R rp (StringLiteral s sp) args = rret (VStr s)"
| "resolve_expression R rp (NumberLiteral v raw sp) args =
     rret (literal_value v)"
| "resolve_expression R rp (VariableReference i sp) args =
     (case args (id_name i) of
        Some v \<Rightarrow> rret v
      | None \<Rightarrow> with_state (\<lambda>s.
          rthrow (VariableNotProvided (id_name i) (if rs_stack s = [] then None else Some (rs_stack s)))))"
| "resolve_expression R rp (MessageReference i attr sp) args =
     (case rv_messages R (id_name i) of
        None \<Rightarrow> rthrow (MessageNotFound (id_name i))
      | Some m \<Rightarrow>
          rbind (resolve_message R rp m args (map_option id_name attr)) (\<lambda>(text, errors).
            rbind (extend_errors errors) (\<lambda>_. rret (VStr text))))"
| "resolve_expression R rp (TermReference i attr None sp) args =
     (case rv_terms R (id_name i) of
        None \<Rightarrow> rthrow (TermNotFound (id_name i))
      | Some t \<Rightarrow>
          (case term_pattern t attr of
             Inl e \<Rightarrow> rthrow e
           | Inr pattern \<Rightarrow>
               rbind (resolve_term rp (qualified_id i attr) pattern (rret Map.empty)) (\<lambda>text. rret (VStr text))))"
| "resolve_expression R rp (TermReference i attr (Some (CallArguments ps ns asp)) sp) args =
     (case rv_terms R (id_name i) of
        None \<Rightarrow> rthrow (TermNotFound (id_name i))
      | Some t \<Rightarrow>
          (case term_pattern t attr of
             Inl e \<Rightarrow> rthrow e
           | Inr pattern \<Rightarrow>
               rbind
                 (resolve_term rp (qualified_id i attr) pattern
                   (rbind (term_nameds R rp ns args Map.empty) (\<lambda>term_args.
                      rbind (term_positionals R rp ps args) (\<lambda>_.
                        rbind (warn_positional (id_name i) (length ps)) (\<lambda>_. rret term_args)))))
                 (\<lambda>text. rret (VStr text))))"
| "resolve_expression R rp (FunctionReference i (CallArguments ps ns asp) sp) args =
     rbind
       (expression_guarded
         (rbind (resolve_positionals R rp ps args) (\<lambda>positional.
            rbind (resolve_nameds R rp ns args) (\<lambda>named. rret (positional, named)))))
       (\<lambda>(positional, named).
          dispatch_function R (id_name i) positional (fold (\<lambda>(k, v). od_set k v) named []))"
| "resolve_expression R rp (NestedPlaceable (Placeable e psp)) args =
     expression_guarded (resolve_expression R rp e args)"
| "resolve_expression R rp (SelectExpression sel vs sp) args =
     rbind
       (rbind (try_selector (resolve_expression R rp sel args)) (\<lambda>r.
          case r of
            None \<Rightarrow>
              (case fallback_variant vs of
                 None \<Rightarrow> rthrow NoVariants
               | Some w \<Rightarrow> resolve_pattern R rp (variant_value w) args)
          | Some value \<Rightarrow>
              rbind (lift_format (rv_int_digits R) value) (\<lambda>text.
                case choose_variant R vs value text of
                  Inl e \<Rightarrow> rfatal e
                | Inr (chosen, no_plurals) \<Rightarrow>
                    rbind (if no_plurals then append_error PluralSupportUnavailable else rret ()) (\<lambda>_.
                      case chosen of
                        None \<Rightarrow> rthrow NoVariants
                      | Some w \<Rightarrow> resolve_pattern R rp (variant_value w) args))))
       (\<lambda>text. rret (VStr text))"
| "resolve_named R rp (NamedArgument i e sp) args =
     rbind (resolve_expression R rp e args) (\<lambda>v. rret (id_name i, v))"
| "resolve_positionals R rp [] args = rret []"
| "resolve_positionals R rp (e # es) args =
     rbind (resolve_expression R rp e args) (\<lambda>v.
       rbind (resolve_positionals R rp es args) (\<lambda>vs. rret (v # vs)))"
| "resolve_nameds R rp [] args = rret []"
| "resolve_nameds R rp (n # ns) args =
     rbind (resolve_named R rp n args) (\<lambda>v.
       rbind (resolve_nameds R rp ns args) (\<lambda>vs. rret (v # vs)))"
| "term_nameds R rp [] args acc = rret acc"
| "term_nameds R rp (n # ns) args acc =
     rbind (expression_guarded (resolve_named R rp n args)) (\<lambda>(name, v).
       term_nameds R rp ns args (acc(name \<mapsto> v)))"
| "term_positionals R rp [] args = rret ()"
| "term_positionals R rp (e # es) args =
     rbind (expression_guarded (resolve_expression R rp e args)) (\<lambda>_. term_positionals R rp es args)"
| "resolve_elements R rp [] args = rret []"
| "resolve_elements R rp (TextElement text sp # es) args =
     then_rest (text_part text) (resolve_elements R rp es args)"
| "resolve_elements R rp (PlaceableElement (Placeable e psp) # es) args =
     then_rest (placeable_part R e (resolve_expression R rp e args)) (resolve_elements R rp es args)"
| "resolve_pattern R rp (Pattern es sp) args = with_state (\<lambda>s.
     if over_budget s then rbind (append_error (budget_error s)) (\<lambda>_. rret [])
     else rbind (resolve_elements R rp es args) (\<lambda>parts. rret (concat parts)))"

  by pat_completeness auto

termination
proof (relation "measure (case_sum
    (case_sum (case_sum (\<lambda>(R, rp, e, args). size e) (\<lambda>(R, rp, n, args). size n))
      (case_sum (\<lambda>(R, rp, es, args). size_list size es) (\<lambda>(R, rp, ns, args). size_list size ns)))
    (case_sum (case_sum (\<lambda>(R, rp, ns, args, acc). size_list size ns) (\<lambda>(R, rp, es, args). size_list size es))
      (case_sum (\<lambda>(R, rp, es, args). size_list size es) (\<lambda>(R, rp, p, args). size p))))", goal_cases)
qed (simp_all add: termination_simp)


text \<open>One unit of fuel for each message or term that is entered.\<close>

primrec resolve_pattern_at :: "resolver \<Rightarrow> nat \<Rightarrow> pattern_resolver" where
  "resolve_pattern_at R 0 = (\<lambda>p args. rexhausted)"
| "resolve_pattern_at R (Suc n) = (\<lambda>p args. resolve_pattern R (resolve_pattern_at R n) p args)"

section \<open>The entry points\<close>

text \<open>\<open>resolve_message\<close> in a context that the caller provides.\<close>

definition resolve_message_in ::
    "resolver \<Rightarrow> message_data \<Rightarrow> fargs \<Rightarrow> ustr option \<Rightarrow> (ustr \<times> resolution_error list) res" where
  "resolve_message_in R m args attribute = with_state (\<lambda>s.
     resolve_message R (resolve_pattern_at R (nat (rs_max_depth s - context_depth s))) m args attribute)"

definition mk_resolver ::
    "ustr \<Rightarrow> (ustr \<rightharpoonup> message_data) \<Rightarrow> (ustr \<rightharpoonup> term_data) \<Rightarrow> function_registry \<Rightarrow> bool \<Rightarrow> int \<Rightarrow> int \<Rightarrow>
     int \<Rightarrow> nat \<Rightarrow> nat \<Rightarrow> plural_support \<Rightarrow> resolver" where
  "mk_resolver locale messages terms registry isolating max_nesting max_expansion recursion_limit int_digits prec babel =
     \<lparr>rv_locale = locale, rv_messages = messages, rv_terms = terms, rv_registry = registry,
      rv_use_isolating = isolating, rv_max_nesting_depth = depth_clamp recursion_limit max_nesting,
      rv_max_expansion_size = max_expansion, rv_recursion_limit = recursion_limit, rv_int_digits = int_digits,
      rv_decimal_prec = prec, rv_babel = babel\<rparr>"

text \<open>\<open>resolve_message\<close> with a fresh context, in a task of the given global depth.\<close>

definition fresh_context :: "resolver \<Rightarrow> int \<Rightarrow> rstate" where
  "fresh_context R global_depth =
     mk_context (rv_recursion_limit R) (rv_max_nesting_depth R) (rv_max_nesting_depth R)
       (rv_max_expansion_size R) global_depth"

definition resolve ::
    "resolver \<Rightarrow> int \<Rightarrow> message_data \<Rightarrow> fargs \<Rightarrow> ustr option \<Rightarrow> (ustr \<times> resolution_error list) rresult" where
  "resolve R global_depth m args attribute = fst (resolve_message_in R m args attribute (fresh_context R global_depth))"

end
