(* ===== verification/Resolver_Safety.thy ===== *)
theory Resolver_Safety
  imports Resolver
begin

text \<open>
  A Hoare-style calculus for the resolver's effects and the proof, along the structure of
  the resolver, that every step keeps the context (the stack and its lookup set, the depths),
  only adds to the errors, reports every overrun of the expansion budget, and ends.
\<close>

named_theorems rsafe_rule \<open>rules for the predicate rsafe\<close>

section \<open>What every step keeps\<close>

fun is_budget_error :: "resolution_error \<Rightarrow> bool" where
  "is_budget_error (ExpansionBudgetExceeded used allowed) = True"
| "is_budget_error _ = False"

definition reported :: "rstate \<Rightarrow> resolution_error list \<Rightarrow> rstate \<Rightarrow> bool" where
  "reported s es s' \<longleftrightarrow> (over_budget s' \<longrightarrow> over_budget s \<or> list_ex is_budget_error es)"

definition same_place :: "rstate \<Rightarrow> rstate \<Rightarrow> bool" where
  "same_place s s' \<longleftrightarrow>
     rs_stack s' = rs_stack s \<and> rs_seen s' = rs_seen s \<and> rs_max_depth s' = rs_max_depth s \<and>
     rs_max_expression_depth s' = rs_max_expression_depth s \<and> rs_max_expansion s' = rs_max_expansion s \<and>
     rs_depth s' = rs_depth s \<and> rs_global s' = rs_global s \<and> rs_chars s \<le> rs_chars s'"

definition keeps :: "rstate \<Rightarrow> rstate \<Rightarrow> bool" where
  "keeps s s' \<longleftrightarrow>
     same_place s s' \<and> (\<exists>es. rs_errors s' = rs_errors s @ es \<and> reported s es s')"

lemma same_place_refl [simp]: "same_place s s"
  by (simp add: same_place_def)

lemma same_place_trans: "same_place a b \<Longrightarrow> same_place b c \<Longrightarrow> same_place a c"
  by (simp add: same_place_def)

lemma keeps_same_place: "keeps s s' \<Longrightarrow> same_place s s'"
  by (simp add: keeps_def)

lemma keeps_refl [simp]: "keeps s s"
  by (auto simp: keeps_def reported_def)

lemma keeps_trans: "keeps a b \<Longrightarrow> keeps b c \<Longrightarrow> keeps a c"
  unfolding keeps_def same_place_def reported_def by fastforce

text \<open>The context is consistent, and \<open>n\<close> exceeds the number of levels that are left.\<close>

definition level :: "nat \<Rightarrow> rstate \<Rightarrow> bool" where
  "level n s \<longleftrightarrow>
     distinct (rs_stack s) \<and> rs_seen s = set (rs_stack s) \<and> rs_max_depth s - context_depth s < int n"

lemma level_keeps: "level n s \<Longrightarrow> keeps s s' \<Longrightarrow> level n s'"
  by (simp add: level_def keeps_def same_place_def context_depth_def)

section \<open>The calculus\<close>

definition rsafe ::
    "(fatal_error \<Rightarrow> bool) \<Rightarrow> (resolution_error \<Rightarrow> bool) \<Rightarrow> nat \<Rightarrow> ('a \<Rightarrow> bool) \<Rightarrow> 'a res \<Rightarrow> bool" where
  "rsafe A E n Q p \<longleftrightarrow>
     (\<forall>s. level n s \<longrightarrow>
        (case p s of
           (Value a, s') \<Rightarrow> keeps s s' \<and> Q a
         | (Fluent e, s') \<Rightarrow> keeps s s' \<and> E e
         | (Fatal f, s') \<Rightarrow> same_place s s' \<and> A f
         | (Exhausted, s') \<Rightarrow> False))"

abbreviation rsteps :: "(fatal_error \<Rightarrow> bool) \<Rightarrow> (resolution_error \<Rightarrow> bool) \<Rightarrow> nat \<Rightarrow> 'a res \<Rightarrow> bool" where
  "rsteps A E n p \<equiv> rsafe A E n (\<lambda>_. True) p"

lemma rsafeD:
  assumes "rsafe A E n Q p" "level n s"
  shows "p s = (Value a, s') \<Longrightarrow> keeps s s' \<and> Q a" "p s = (Fluent e, s') \<Longrightarrow> keeps s s' \<and> E e"
    "p s = (Fatal f, s') \<Longrightarrow> same_place s s' \<and> A f" "fst (p s) \<noteq> Exhausted"
  using assms by (auto simp: rsafe_def)

lemma rsafeI:
  assumes "\<And>s. level n s \<Longrightarrow>
    (case p s of
       (Value a, s') \<Rightarrow> keeps s s' \<and> Q a
     | (Fluent e, s') \<Rightarrow> keeps s s' \<and> E e
     | (Fatal f, s') \<Rightarrow> same_place s s' \<and> A f
     | (Exhausted, s') \<Rightarrow> False)"
  shows "rsafe A E n Q p"
  using assms by (simp add: rsafe_def)

lemma rsafe_weaken: "rsafe A E n Q p \<Longrightarrow> (\<And>a. Q a \<Longrightarrow> Q' a) \<Longrightarrow> rsafe A E n Q' p"
  unfolding rsafe_def by (fastforce split: rresult.splits prod.splits)

lemma rsteps_weaken: "rsafe A E n Q p \<Longrightarrow> rsteps A E n p"
  by (rule rsafe_weaken) auto

lemma rsafe_rret [rsafe_rule]: "Q a \<Longrightarrow> rsafe A E n Q (rret a)"
  by (simp add: rsafe_def rret_def)

lemma rsafe_rthrow [rsafe_rule]: "E e \<Longrightarrow> rsafe A E n Q (rthrow e)"
  by (simp add: rsafe_def rthrow_def)

lemma rsafe_rfatal [rsafe_rule]: "A e \<Longrightarrow> rsafe A E n Q (rfatal e)"
  by (simp add: rsafe_def rfatal_def)

lemma rsteps_append_error [rsafe_rule]: "rsteps A E n (append_error e)"
  by (auto simp: rsafe_def append_error_def keeps_def same_place_def reported_def over_budget_def)

lemma rsafe_bind:
  assumes p: "rsafe A E n P p" and k: "\<And>a. P a \<Longrightarrow> rsafe A E n Q (k a)"
  shows "rsafe A E n Q (rbind p k)"
proof (rule rsafeI)
  fix s assume s: "level n s"
  show "case rbind p k s of (Value a, s') \<Rightarrow> keeps s s' \<and> Q a | (Fluent e, s') \<Rightarrow> keeps s s' \<and> E e
    | (Fatal f, s') \<Rightarrow> same_place s s' \<and> A f | (Exhausted, s') \<Rightarrow> False"
  proof (cases "p s")
    case (Pair r s')
    show ?thesis
    proof (cases r)
      case (Value a)
      with Pair rsafeD(1) [OF p s] have a: "keeps s s'" "P a" by auto
      then have "level n s'" using s level_keeps by blast
      note k = rsafeD [OF k [OF a(2)] this]
      show ?thesis
        using Pair Value k keeps_trans [OF a(1)] same_place_trans [OF keeps_same_place [OF a(1)]]
        by (cases "k a s'") (fastforce simp: rbind_def split: rresult.split)
    qed (use Pair rsafeD [OF p s] in \<open>auto simp: rbind_def\<close>)
  qed
qed

lemma rsafe_then [rsafe_rule]:
  "rsteps A E n p \<Longrightarrow> (\<And>a. rsafe A E n Q (k a)) \<Longrightarrow> rsafe A E n Q (rbind p k)"
  by (rule rsafe_bind) auto

lemma rsafe_with_state [rsafe_rule]: "(\<And>s. rsafe A E n Q (f s)) \<Longrightarrow> rsafe A E n Q (with_state f)"
  by (simp add: rsafe_def with_state_def)

lemma rsafe_catch [rsafe_rule]:
  assumes p: "rsafe A E n Q p" and h: "\<And>e. E e \<Longrightarrow> rsafe A E n Q (h e)"
  shows "rsafe A E n Q (rcatch p h)"
proof (rule rsafeI)
  fix s assume s: "level n s"
  show "case rcatch p h s of (Value a, s') \<Rightarrow> keeps s s' \<and> Q a | (Fluent e, s') \<Rightarrow> keeps s s' \<and> E e
    | (Fatal f, s') \<Rightarrow> same_place s s' \<and> A f | (Exhausted, s') \<Rightarrow> False"
  proof (cases "p s")
    case (Pair r s')
    show ?thesis
    proof (cases r)
      case (Fluent e)
      with Pair rsafeD(2) [OF p s] have a: "keeps s s'" "E e" by auto
      then have "level n s'" using s level_keeps by blast
      note h = rsafeD [OF h [OF a(2)] this]
      show ?thesis
        using Pair Fluent h keeps_trans [OF a(1)] same_place_trans [OF keeps_same_place [OF a(1)]]
        by (cases "h e s'") (fastforce simp: rcatch_def split: rresult.split)
    qed (use Pair rsafeD [OF p s] in \<open>auto simp: rcatch_def\<close>)
  qed
qed

lemma rsafe_guarded [rsafe_rule]:
  assumes p: "rsafe A E n Q p" and e: "\<And>k. E (DepthExceeded k)"
  shows "rsafe A E n Q (expression_guarded p)"
proof (rule rsafeI)
  fix s assume "level n s"
  let ?s = "s\<lparr>rs_depth := rs_depth s + 1\<rparr>"
  have "level n ?s" using \<open>level n s\<close> by (simp add: level_def context_depth_def)
  note p = rsafeD [OF p this]
  have k: "keeps s (s'\<lparr>rs_depth := rs_depth s' - 1\<rparr>)" if "keeps ?s s'" for s'
    using that by (auto simp: keeps_def same_place_def reported_def over_budget_def)
  have k': "same_place s (s'\<lparr>rs_depth := rs_depth s' - 1\<rparr>)" if "same_place ?s s'" for s'
    using that by (auto simp: same_place_def)
  show "case expression_guarded p s of (Value a, s') \<Rightarrow> keeps s s' \<and> Q a | (Fluent e, s') \<Rightarrow> keeps s s' \<and> E e
    | (Fatal f, s') \<Rightarrow> same_place s s' \<and> A f | (Exhausted, s') \<Rightarrow> False"
  proof (cases "p ?s")
    case (Pair r s')
    with p k k' e show ?thesis by (cases r) (auto simp: expression_guarded_def)
  qed
qed

text \<open>A part of a pattern: what it adds is counted, or is a fallback of at most \<open>b\<close> characters.\<close>

definition part_bound :: "nat \<Rightarrow> rstate \<Rightarrow> ustr option \<Rightarrow> rstate \<Rightarrow> bool" where
  "part_bound b s x s' \<longleftrightarrow>
     (case x of
        None \<Rightarrow> True
      | Some text \<Rightarrow>
          int (length text) \<le> int b \<or>
          int (length text) \<le> rs_chars s' - rs_chars s + int b \<and> rs_chars s' \<le> rs_max_expansion s)"

lemma text_part_keeps:
  "case text_part t s of (Value x, s') \<Rightarrow> keeps s s' \<and> part_bound 0 s x s' | _ \<Rightarrow> False"
  by (auto simp: text_part_def rbind_def with_state_def track_expansion_def append_error_def rret_def
      over_budget_def budget_error_def keeps_def same_place_def reported_def part_bound_def)

lemma emit_placeable_keeps:
  "case emit_placeable R t s of (Value x, s') \<Rightarrow> keeps s s' \<and> part_bound 2 s x s' | _ \<Rightarrow> False"
  by (auto simp: emit_placeable_def rbind_def with_state_def track_expansion_def append_error_def rret_def
      over_budget_def budget_error_def keeps_def same_place_def reported_def part_bound_def)

lemma rsteps_text_part: "rsteps A E n (text_part t)"
proof (rule rsafeI)
  fix s
  show "case text_part t s of (Value a, s') \<Rightarrow> keeps s s' \<and> True | (Fluent e, s') \<Rightarrow> keeps s s' \<and> E e
    | (Fatal f, s') \<Rightarrow> same_place s s' \<and> A f | (Exhausted, s') \<Rightarrow> False"
    using text_part_keeps [where t = t and s = s] by (cases "text_part t s") (auto split: rresult.splits)
qed

lemma rsteps_emit [rsafe_rule]: "rsteps A E n (emit_placeable R t)"
proof (rule rsafeI)
  fix s
  show "case emit_placeable R t s of (Value a, s') \<Rightarrow> keeps s s' \<and> True | (Fluent e, s') \<Rightarrow> keeps s s' \<and> E e
    | (Fatal f, s') \<Rightarrow> same_place s s' \<and> A f | (Exhausted, s') \<Rightarrow> False"
    using emit_placeable_keeps [where t = t and s = s and R = R] by (cases "emit_placeable R t s") (auto split: rresult.splits)
qed

section \<open>Entering a message or a term\<close>

text \<open>Push a new key, resolve one level deeper, pop: the context is as before.\<close>

lemma enter_keeps:
  assumes p: "rsteps A E n p" and s: "level (Suc n) s" "key \<notin> rs_seen s"
  defines "body \<equiv> rbind (push key) (\<lambda>_. rfinally p (rbind pop (\<lambda>_. rret ())))"
  shows "case body s of
      (Value a, s') \<Rightarrow> keeps s s' | (Fluent e, s') \<Rightarrow> keeps s s' \<and> E e
    | (Fatal f, s') \<Rightarrow> same_place s s' \<and> A f | (Exhausted, s') \<Rightarrow> False"
    and "rfinally (rbind (push key) (\<lambda>_. p)) (rbind pop (\<lambda>_. rret ())) s = body s"
proof -
  let ?s = "s\<lparr>rs_stack := rs_stack s @ [key], rs_seen := insert key (rs_seen s)\<rparr>"
  have "level n ?s" using s by (auto simp: level_def context_depth_def)
  note p = rsafeD [OF p this]
  have out: "keeps s (s'\<lparr>rs_stack := rs_stack s, rs_seen := rs_seen s\<rparr>)" if "keeps ?s s'" for s'
    using that by (auto simp: keeps_def same_place_def reported_def over_budget_def)
  have out': "same_place s (s'\<lparr>rs_stack := rs_stack s, rs_seen := rs_seen s\<rparr>)" if "same_place ?s s'" for s'
    using that by (auto simp: same_place_def)
  have pop: "pop s' = (Value key, s'\<lparr>rs_stack := rs_stack s, rs_seen := rs_seen s\<rparr>)" if "same_place ?s s'" for s'
    using that s(2) by (auto simp: pop_def same_place_def)
  have b: "body s = rfinally p (rbind pop (\<lambda>_. rret ())) ?s"
    by (simp add: body_def rbind_def push_def)
  show "rfinally (rbind (push key) (\<lambda>_. p)) (rbind pop (\<lambda>_. rret ())) s = body s"
    unfolding b by (simp add: rbind_def push_def rfinally_def)
  show "case body s of
      (Value a, s') \<Rightarrow> keeps s s' | (Fluent e, s') \<Rightarrow> keeps s s' \<and> E e
    | (Fatal f, s') \<Rightarrow> same_place s s' \<and> A f | (Exhausted, s') \<Rightarrow> False"
    unfolding b
  proof (cases "p ?s")
    case (Pair r s')
    then show "case rfinally p (rbind pop (\<lambda>_. rret ())) ?s of
        (Value a, s') \<Rightarrow> keeps s s' | (Fluent e, s') \<Rightarrow> keeps s s' \<and> E e
      | (Fatal f, s') \<Rightarrow> same_place s s' \<and> A f | (Exhausted, s') \<Rightarrow> False"
      using p out out' pop keeps_same_place by (cases r) (auto simp: rfinally_def rbind_def rret_def)
  qed
qed


section \<open>What the resolver may raise\<close>

text \<open>
  What the selection of a variant raises for a value: the comparison with a signaling NaN, and
  what the plural category of a number raises, unless that is the missing Babel.
\<close>

definition signaling_number :: "numeric \<Rightarrow> bool" where
  "signaling_number n \<longleftrightarrow> (case n of IntNumber i \<Rightarrow> False | DecimalNumber d \<Rightarrow> is_signaling d)"

definition category_of_number :: "resolver \<Rightarrow> fvalue \<Rightarrow> numeric \<Rightarrow> fatal_error + ustr" where
  "category_of_number R value n =
     select_plural_category (rv_babel R) (rv_decimal_prec R) (rv_int_digits R) n (rv_locale R) (precision_of value) False"

definition selection_raises :: "resolver \<Rightarrow> fvalue \<Rightarrow> fatal_error \<Rightarrow> bool" where
  "selection_raises R value f \<longleftrightarrow>
     (case numeric_of value of
        None \<Rightarrow> False
      | Some n \<Rightarrow>
          signaling_number n \<and> f = InvalidOperation \<or>
          category_of_number R value n = Inl f \<and> f \<noteq> BabelImportError)"

text \<open>
  The only exceptions that leave the resolver: the \<open>ValueError\<close> of an integer with too many
  digits, where the interpreter has a limit, the cancellation of a function, and what selection
  raises for one of the values \<open>V\<close>.
\<close>

definition fatal_ok :: "resolver \<Rightarrow> fvalue set \<Rightarrow> fatal_error \<Rightarrow> bool" where
  "fatal_ok R V f \<longleftrightarrow>
     f = PyError ValueError \<and> 0 < rv_int_digits R \<or>
     f = Cancelled \<and> (\<exists>name ps ns g. registry_call (rv_registry R) name ps ns g = RaisedCancelled) \<or>
     (\<exists>v \<in> V. selection_raises R v f)"

text \<open>The values an expression can have: texts, literals, arguments and results of functions.\<close>

definition closed_values :: "resolver \<Rightarrow> fvalue set \<Rightarrow> bool" where
  "closed_values R V \<longleftrightarrow>
     range VStr \<subseteq> V \<and> range literal_value \<subseteq> V \<and>
     (\<forall>name ps ns g v. registry_call (rv_registry R) name ps ns g = Returned v \<longrightarrow> v \<in> V)"

definition provided_values :: "resolver \<Rightarrow> fargs \<Rightarrow> fvalue set" where
  "provided_values R args =
     range VStr \<union> range literal_value \<union> ran args \<union>
     {v. \<exists>name ps ns g. registry_call (rv_registry R) name ps ns g = Returned v}"

lemma provided_closed: "closed_values R (provided_values R args)" "ran args \<subseteq> provided_values R args"
  by (auto simp: closed_values_def provided_values_def)

lemma closed_valuesD:
  assumes "closed_values R V"
  shows "VStr t \<in> V" "literal_value v \<in> V" "registry_call (rv_registry R) name ps ns g = Returned w \<Longrightarrow> w \<in> V"
  using assms by (auto simp: closed_values_def)

definition errors_ok :: "resolver \<Rightarrow> (resolution_error \<Rightarrow> bool) \<Rightarrow> bool" where
  "errors_ok R E \<longleftrightarrow>
     (\<forall>e. fallback_of e = None \<longrightarrow> E e) \<and>
     (\<forall>name ps ns g e. registry_call (rv_registry R) name ps ns g = RaisedFluent e \<longrightarrow> E e)"

definition wf_attributes :: "attribute list \<Rightarrow> bool" where
  "wf_attributes as \<longleftrightarrow> list_all (\<lambda>a. \<exists>k. wf_pattern k (attr_value a)) as"

definition wf_message :: "message_data \<Rightarrow> bool" where
  "wf_message m \<longleftrightarrow>
     (case m of (i, value, attributes) \<Rightarrow> pred_option (\<lambda>p. \<exists>k. wf_pattern k p) value \<and> wf_attributes attributes)"

definition wf_term :: "term_data \<Rightarrow> bool" where
  "wf_term t \<longleftrightarrow> (case t of (i, value, attributes) \<Rightarrow> (\<exists>k. wf_pattern k value) \<and> wf_attributes attributes)"

definition wf_resolver :: "resolver \<Rightarrow> bool" where
  "wf_resolver R \<longleftrightarrow>
     (\<forall>name m. rv_messages R name = Some m \<longrightarrow> wf_message m) \<and>
     (\<forall>name t. rv_terms R name = Some t \<longrightarrow> wf_term t)"

text \<open>The resolver for one level deeper is safe, unless no level is left.\<close>

definition deeper :: "resolver \<Rightarrow> fvalue set \<Rightarrow> (resolution_error \<Rightarrow> bool) \<Rightarrow> nat \<Rightarrow> pattern_resolver \<Rightarrow> bool" where
  "deeper R V E n rp \<longleftrightarrow>
     n = 0 \<or> (\<forall>k p args. wf_pattern k p \<longrightarrow> ran args \<subseteq> V \<longrightarrow> rsteps (fatal_ok R V) E n (rp p args))"

lemma level_not_exceeded: "level (Suc n) s \<Longrightarrow> \<not> is_depth_exceeded s \<Longrightarrow> n \<noteq> 0"
  by (auto simp: level_def is_depth_exceeded_def)

lemma errors_okD:
  assumes "errors_ok R E"
  shows "fallback_of e = None \<Longrightarrow> E e" "registry_call (rv_registry R) name ps ns g = RaisedFluent e \<Longrightarrow> E e"
  using assms by (auto simp: errors_ok_def)

lemma error_text_run: "error_text e x s = (Value x, s\<lparr>rs_errors := rs_errors s @ [e]\<rparr>)"
  by (simp add: error_text_def rbind_def append_error_def rret_def)

lemma keeps_error: "keeps s (s\<lparr>rs_errors := rs_errors s @ [e]\<rparr>)"
  by (auto simp: keeps_def same_place_def reported_def over_budget_def)

lemma error_text_steps: "rsteps A E n (error_text e t)"
  by (auto simp: error_text_def intro: rsafe_rule)

lemma find_attribute_in: "find_attribute as name = Some a \<Longrightarrow> a \<in> set as"
  by (induction as) (auto split: option.splits if_splits)

lemma select_pattern_wf:
  "wf_message m \<Longrightarrow> select_pattern m attribute = Inr (key, p) \<Longrightarrow> \<exists>k. wf_pattern k p"
  by (auto simp: wf_message_def select_pattern_def wf_attributes_def list_all_iff
      split: prod.splits option.splits if_splits dest!: find_attribute_in)

lemma term_pattern_wf: "wf_term t \<Longrightarrow> term_pattern t attr = Inr p \<Longrightarrow> \<exists>k. wf_pattern k p"
  by (auto simp: wf_term_def term_pattern_def wf_attributes_def list_all_iff
      split: prod.splits option.splits dest!: find_attribute_in)

lemma term_pattern_error: "term_pattern t attr = Inl e \<Longrightarrow> fallback_of e = None"
  by (auto simp: term_pattern_def split: prod.splits option.splits)

lemma globally_guarded_keeps:
  assumes "\<And>s'. s' = s\<lparr>rs_global := rs_global s + 1\<rparr> \<Longrightarrow> case p s' of
      (Value a, t) \<Rightarrow> keeps s' t | (Fluent e, t) \<Rightarrow> keeps s' t \<and> E e
    | (Fatal f, t) \<Rightarrow> same_place s' t \<and> A f | (Exhausted, t) \<Rightarrow> False" "\<And>k. E (DepthExceeded k)"
  shows "case globally_guarded lim m p s of
      (Value a, t) \<Rightarrow> keeps s t | (Fluent e, t) \<Rightarrow> keeps s t \<and> E e
    | (Fatal f, t) \<Rightarrow> same_place s t \<and> A f | (Exhausted, t) \<Rightarrow> False"
proof -
  let ?s = "s\<lparr>rs_global := rs_global s + 1\<rparr>"
  have k: "keeps s (t\<lparr>rs_global := rs_global s\<rparr>)" if "keeps ?s t" for t
    using that by (auto simp: keeps_def same_place_def reported_def over_budget_def)
  have k': "same_place s (t\<lparr>rs_global := rs_global s\<rparr>)" if "same_place ?s t" for t
    using that by (auto simp: same_place_def)
  show ?thesis
  proof (cases "p ?s")
    case (Pair r t)
    then show ?thesis using assms(1) [OF refl] assms(2) k k'
      by (cases r) (auto simp: globally_guarded_def Let_def)
  qed
qed

text \<open>A message reference: resolve with an error list of its own, then add its errors.\<close>

lemma message_reference_steps:
  assumes E: "errors_ok R E" and rp: "deeper R V E n rp" and m: "wf_message m" and args: "ran args \<subseteq> V"
  shows "rsafe (fatal_ok R V) E (Suc n) (\<lambda>a. \<exists>t. a = g t)
    (rbind (resolve_message R rp m args a) (\<lambda>(t, errors). rbind (extend_errors errors) (\<lambda>_. rret (g t))))"
    (is "rsafe _ _ _ _ ?p")
proof (rule rsafeI)
  fix s assume s: "level (Suc n) s"
  let ?s = "s\<lparr>rs_errors := []\<rparr>"
  have s0: "level (Suc n) ?s" using s by (simp add: level_def context_depth_def)
  define inner where "inner = (case select_pattern m a of
        Inl (e, name) \<Rightarrow> error_text e (fallback_message name)
      | Inr (key, pattern) \<Rightarrow> with_state (\<lambda>s.
          if contains key s then error_text (CyclicReference (get_cycle_path key s)) (fallback_message key)
          else if is_depth_exceeded s then
            error_text (MaxDepthExceeded key (rs_max_depth s)) (fallback_message key)
          else
            rcatch
              (globally_guarded (rv_recursion_limit R) (rs_max_depth s)
                (rbind (push key) (\<lambda>_. rfinally (rp pattern args) (rbind pop (\<lambda>_. rret ())))))
              (\<lambda>e. error_text e (fallback_message key))))"
  have "case inner ?s of (Value t, s') \<Rightarrow> keeps ?s s' | (Fluent e, s') \<Rightarrow> False
    | (Fatal f, s') \<Rightarrow> same_place ?s s' \<and> fatal_ok R V f | (Exhausted, s') \<Rightarrow> False"
  proof (cases "select_pattern m a")
    case (Inl b)
    then show ?thesis using keeps_error [of ?s]
      by (cases b) (auto simp: inner_def error_text_run)
  next
    case (Inr b)
    obtain key pat where b: "b = (key, pat)" by (cases b)
    obtain k where k: "wf_pattern k pat" using select_pattern_wf [OF m] Inr b by blast
    show ?thesis
    proof (cases "contains key ?s \<or> is_depth_exceeded ?s")
      case True
      then show ?thesis using Inr b keeps_error [of ?s]
        by (auto simp: inner_def with_state_def error_text_run)
    next
      case False
      then have "n \<noteq> 0" using level_not_exceeded [OF s0] by blast
      then have p: "rsteps (fatal_ok R V) E n (rp pat args)" using rp k args by (auto simp: deeper_def)
      let ?q = "rbind (push key) (\<lambda>_. rfinally (rp pat args) (rbind pop (\<lambda>_. rret ())))"
      have "case globally_guarded (rv_recursion_limit R) (rs_max_depth ?s) ?q ?s of
          (Value a, t) \<Rightarrow> keeps ?s t | (Fluent e, t) \<Rightarrow> keeps ?s t \<and> E e
        | (Fatal f, t) \<Rightarrow> same_place ?s t \<and> fatal_ok R V f | (Exhausted, t) \<Rightarrow> False"
      proof (rule globally_guarded_keeps)
        fix s' assume s': "s' = ?s\<lparr>rs_global := rs_global ?s + 1\<rparr>"
        have "level (Suc n) s'" "key \<notin> rs_seen s'"
          using s0 False by (auto simp: s' level_def context_depth_def contains_def)
        then show "case ?q s' of (Value a, t) \<Rightarrow> keeps s' t | (Fluent e, t) \<Rightarrow> keeps s' t \<and> E e
          | (Fatal f, t) \<Rightarrow> same_place s' t \<and> fatal_ok R V f | (Exhausted, t) \<Rightarrow> False"
          by (rule enter_keeps(1) [OF p])
      qed (use E in \<open>simp add: errors_ok_def\<close>)
      moreover have "inner ?s = rcatch (globally_guarded (rv_recursion_limit R) (rs_max_depth ?s) ?q)
          (\<lambda>e. error_text e (fallback_message key)) ?s"
        using False Inr b by (simp add: inner_def with_state_def)
      ultimately show ?thesis
        using keeps_trans [OF _ keeps_error]
        by (cases "globally_guarded (rv_recursion_limit R) (rs_max_depth ?s) ?q ?s")
          (auto simp: rcatch_def error_text_run split: rresult.splits)
    qed
  qed
  moreover have "?p s = (case inner ?s of
      (Value t, s') \<Rightarrow> (Value (g t), s'\<lparr>rs_errors := rs_errors s @ rs_errors s'\<rparr>)
    | (Fluent e, s') \<Rightarrow> (Fluent e, s'\<lparr>rs_errors := rs_errors s\<rparr>)
    | (Fatal e, s') \<Rightarrow> (Fatal e, s'\<lparr>rs_errors := rs_errors s\<rparr>)
    | (Exhausted, s') \<Rightarrow> (Exhausted, s'\<lparr>rs_errors := rs_errors s\<rparr>))"
    by (simp add: resolve_message_def own_errors_def inner_def [symmetric] rbind_def extend_errors_def rret_def
        split: prod.split rresult.split)
  moreover have out: "keeps s (t\<lparr>rs_errors := rs_errors s @ rs_errors t\<rparr>)" if "keeps ?s t" for t
    using that by (auto simp: keeps_def same_place_def reported_def over_budget_def)
  moreover have out': "same_place s (t\<lparr>rs_errors := rs_errors s\<rparr>)" if "same_place ?s t" for t
    using that by (auto simp: same_place_def)
  ultimately show "case ?p s of (Value a, s') \<Rightarrow> keeps s s' \<and> (\<exists>t. a = g t) | (Fluent e, s') \<Rightarrow> keeps s s' \<and> E e
    | (Fatal f, s') \<Rightarrow> same_place s s' \<and> fatal_ok R V f | (Exhausted, s') \<Rightarrow> False"
    by (cases "inner ?s") (auto split: rresult.splits)
qed


lemma term_steps:
  assumes E: "errors_ok R E" and rp: "deeper R V E n rp" and pat: "wf_pattern k pat"
    and eval: "rsafe (fatal_ok R V) E (Suc n) (\<lambda>targs. ran targs \<subseteq> V) eval"
  shows "rsteps (fatal_ok R V) E (Suc n) (resolve_term rp name pat eval)"
proof (rule rsafeI)
  fix s assume s: "level (Suc n) s"
  let ?key = "u ''-'' @ name"
  let ?k = "\<lambda>targs. rfinally (rbind (push ?key) (\<lambda>_. rp pat targs)) (rbind pop (\<lambda>_. rret ()))"
  show "case resolve_term rp name pat eval s of (Value a, s') \<Rightarrow> keeps s s' \<and> True
    | (Fluent e, s') \<Rightarrow> keeps s s' \<and> E e
    | (Fatal f, s') \<Rightarrow> same_place s s' \<and> fatal_ok R V f | (Exhausted, s') \<Rightarrow> False"
  proof (cases "contains ?key s \<or> is_depth_exceeded s")
    case True
    then show ?thesis using keeps_error [of s]
      by (auto simp: resolve_term_def with_state_def error_text_run)
  next
    case False
    then have run: "resolve_term rp name pat eval s = rbind eval ?k s"
      by (simp add: resolve_term_def with_state_def)
    have "n \<noteq> 0" using False level_not_exceeded [OF s] by blast
    then have p: "rsteps (fatal_ok R V) E n (rp pat targs)" if "ran targs \<subseteq> V" for targs
      using rp pat that by (auto simp: deeper_def)
    note ev = rsafeD [OF eval s]
    show ?thesis
    proof (cases "eval s")
      case (Pair r s')
      show ?thesis
      proof (cases r)
        case (Value targs)
        then have s': "keeps s s'" and targs: "ran targs \<subseteq> V" using ev(1) Pair by auto
        from s' have "level (Suc n) s'" "?key \<notin> rs_seen s'"
          using s level_keeps False by (auto simp: keeps_def same_place_def contains_def)
        note enter = enter_keeps [OF p [OF targs] this]
        from s' enter show ?thesis
          using keeps_trans [OF s'] same_place_trans [OF keeps_same_place [OF s']] Pair Value
          unfolding run rbind_def by (cases "?k targs s'") (auto simp: rbind_def split: rresult.splits)
      qed (use ev Pair in \<open>auto simp: run rbind_def\<close>)
    qed
  qed
qed

lemma lift_format_steps:
  "errors_ok R E \<Longrightarrow> rsteps (fatal_ok R V) E n (lift_format (rv_int_digits R) v)"
  by (auto simp: lift_format_def format_value_def str_int_def Let_def fatal_ok_def errors_ok_def
      intro!: rsafe_rule split: format_result.splits fvalue.splits sum.splits if_splits)

lemma call_steps:
  assumes "errors_ok R E" "closed_values R V"
  shows "rsafe (fatal_ok R V) E n (\<lambda>v. v \<in> V) (call_function_safe R name ps ns)"
  unfolding call_function_safe_def
proof (rule rsafe_with_state)
  fix s
  show "rsafe (fatal_ok R V) E n (\<lambda>v. v \<in> V) (case registry_call (rv_registry R) name ps ns (rs_global s) of
      Returned v \<Rightarrow> rret v
    | RaisedFluent e \<Rightarrow> rthrow e
    | RaisedValueOrType text \<Rightarrow> rthrow (FunctionFailed name text)
    | RaisedException kind text \<Rightarrow>
        rbind (append_error (FunctionFailed name (u ''Uncaught exception: '' @ kind @ u '': '' @ text)))
          (\<lambda>_. rret (VStr (fallback_function name)))
    | RaisedCancelled \<Rightarrow> rfatal Cancelled)"
    using errors_okD [OF assms(1)] closed_valuesD [OF assms(2)]
    by (cases "registry_call (rv_registry R) name ps ns (rs_global s)")
      (auto simp: fatal_ok_def intro!: rsafe_rule exI)
qed

lemma dispatch_steps:
  "errors_ok R E \<Longrightarrow> closed_values R V \<Longrightarrow> rsafe (fatal_ok R V) E n (\<lambda>v. v \<in> V) (dispatch_function R name ps ns)"
  by (auto simp: dispatch_function_def errors_ok_def intro!: rsafe_rule call_steps split: option.splits)

lemma digits_decimal: "py_int raw \<noteq> None \<Longrightarrow> py_decimal raw \<noteq> None"
proof -
  assume "py_int raw \<noteq> None"
  then obtain neg ds where s: "strip_minus raw = (neg, ds)" "ds \<noteq> []" "list_all is_ascii_digit ds"
    by (cases "strip_minus raw") (auto simp: py_int_def split: if_splits)
  then have "takeWhile (\<lambda>ch. ch \<noteq> CH_DOT) ds = ds" "dropWhile (\<lambda>ch. ch \<noteq> CH_DOT) ds = []"
    by (auto simp: takeWhile_eq_all_conv list_all_iff is_ascii_digit_def)
  with s show ?thesis by (simp add: py_decimal_def Let_def del: takeWhile_eq_all_conv dropWhile_eq_Nil_conv)
qed

lemma key_decimal: "key_ok k (KeyNumber v raw sp) \<Longrightarrow> py_decimal raw \<noteq> None"
  using digits_decimal [of raw] by (auto simp: number_literal_ok_def split: number_value.splits option.splits)

lemma wf_variant_key: "wf_variant k w \<Longrightarrow> key_ok k (variant_key_of w)"
  by (cases w) simp

lemma literal_not_signaling [simp]: "\<not> is_signaling (literal_number d)"
  by (simp add: literal_number_def is_signaling_def)

lemma decimal_equal_None: "decimal_equal a b = None \<longleftrightarrow> is_signaling a \<or> is_signaling b"
  by (simp add: decimal_equal_def)

lemma scan_exact_raises:
  "list_all (wf_variant k) vs \<Longrightarrow> scan_exact vs d t = Inl e \<Longrightarrow>
     e = InvalidOperation \<and> (\<exists>sel. d = Some sel \<and> is_signaling sel)"
  by (induction vs) (auto dest!: wf_variant_key dest: key_decimal simp: decimal_equal_None simp del: key_ok.simps
      split: variant_key.splits option.splits if_splits)

lemma find_exact_raises:
  assumes "list_all (wf_variant k) vs" "find_exact limit vs value t = Inl e"
  shows "e = PyError ValueError \<and> 0 < limit \<or>
    e = InvalidOperation \<and> (\<exists>n. numeric_of value = Some n \<and> signaling_number n)"
proof (cases "numeric_of value")
  case None
  with assms scan_exact_raises [OF assms(1), of None] show ?thesis by (auto simp: find_exact_def)
next
  case (Some n)
  show ?thesis
  proof (cases n)
    case (IntNumber i)
    have "scan_exact vs (Some (Finite (i < 0) (nat \<bar>i\<bar>) 0)) t \<noteq> Inl e"
      using scan_exact_raises [OF assms(1), of "Some (Finite (i < 0) (nat \<bar>i\<bar>) 0)"] by (auto simp: is_signaling_def)
    with IntNumber Some assms(2) show ?thesis
      by (auto simp: find_exact_def to_decimal_def str_int_def Let_def split: if_splits)
  next
    case (DecimalNumber d)
    with Some assms scan_exact_raises [OF assms(1), of "Some d"] show ?thesis
      by (auto simp: find_exact_def to_decimal_def signaling_number_def)
  qed
qed

lemma choose_variant_raises:
  assumes "list_all (wf_variant k) vs" "choose_variant R vs value t = Inl e"
  shows "e = PyError ValueError \<and> 0 < rv_int_digits R \<or> selection_raises R value e"
proof (cases "find_exact (rv_int_digits R) vs value t")
  case (Inl e')
  with assms(2) have "e' = e" by (simp add: choose_variant_def)
  with find_exact_raises [OF assms(1) Inl] show ?thesis by (auto simp: selection_raises_def)
next
  case (Inr w)
  with assms(2) obtain n where n: "numeric_of value = Some n"
    by (auto simp: choose_variant_def split: option.splits)
  with Inr assms(2) have "category_of_number R value n = Inl e \<and> e \<noteq> BabelImportError"
    by (auto simp: choose_variant_def category_of_number_def split: option.splits sum.splits fatal_error.splits)
  with n show ?thesis by (simp add: selection_raises_def)
qed

lemma choose_variant_fatal:
  "list_all (wf_variant k) vs \<Longrightarrow> v \<in> V \<Longrightarrow> choose_variant R vs v t = Inl e \<Longrightarrow> fatal_ok R V e"
  using choose_variant_raises [of k vs R v t e] by (auto simp: fatal_ok_def)

lemma wf_variant_value: "list_all (wf_variant k) vs \<Longrightarrow> w \<in> set vs \<Longrightarrow> wf_pattern k (variant_value w)"
  by (cases w) (auto simp: list_all_iff)

lemma try_selector_safe:
  assumes "errors_ok R E" "rsafe A E n Q p"
  shows "rsafe A E n (pred_option Q) (try_selector p)"
  unfolding try_selector_def
  by (intro rsafe_catch rsafe_bind [OF rsafe_guarded [OF assms(2)]])
    (use assms(1) in \<open>auto simp: errors_ok_def intro!: rsafe_rule\<close>)

lemma placeable_part_steps:
  "errors_ok R E \<Longrightarrow> rsteps (fatal_ok R V) E n p \<Longrightarrow> rsteps (fatal_ok R V) E n (placeable_part R e p)"
  unfolding placeable_part_def
  by (intro rsafe_rule lift_format_steps) (auto simp: errors_ok_def intro: rsafe_rule)

lemma then_rest_steps: "rsteps A E n p \<Longrightarrow> rsteps A E n q \<Longrightarrow> rsteps A E n (then_rest p q)"
  unfolding then_rest_def by (intro rsafe_rule) (auto intro!: rsafe_rule split: option.split)

section \<open>The whole resolver\<close>

text \<open>Lists of arguments and of elements, given what holds of each.\<close>

lemma positionals_steps:
  "(\<And>e. e \<in> set es \<Longrightarrow> rsteps A E n (resolve_expression R rp e args)) \<Longrightarrow>
     rsteps A E n (resolve_positionals R rp es args)"
  by (induction es) (auto intro!: rsafe_rule)

lemma nameds_steps:
  "(\<And>na. na \<in> set ns \<Longrightarrow> rsteps A E n (resolve_named R rp na args)) \<Longrightarrow>
     rsteps A E n (resolve_nameds R rp ns args)"
  by (induction ns) (auto intro!: rsafe_rule)

lemma ran_upd_subset: "ran m \<subseteq> V \<Longrightarrow> v \<in> V \<Longrightarrow> ran (m(k \<mapsto> v)) \<subseteq> V"
  by (auto simp: ran_def)

lemma term_nameds_safe:
  assumes E: "errors_ok R E"
    and ns: "\<And>na. na \<in> set ns \<Longrightarrow> rsafe A E n (\<lambda>(k, v). v \<in> V) (resolve_named R rp na args)"
  shows "ran acc \<subseteq> V \<Longrightarrow> rsafe A E n (\<lambda>targs. ran targs \<subseteq> V) (term_nameds R rp ns args acc)"
  using ns
proof (induction ns arbitrary: acc)
  case Nil
  then show ?case by (simp add: rsafe_rule)
next
  case (Cons na ns)
  have "rsafe A E n (\<lambda>(k, v). v \<in> V) (expression_guarded (resolve_named R rp na args))"
    using Cons.prems(2) E by (auto intro: rsafe_guarded simp: errors_okD)
  moreover have "rsafe A E n (\<lambda>targs. ran targs \<subseteq> V) (term_nameds R rp ns args (acc(name \<mapsto> v)))" if "v \<in> V" for name v
    by (rule Cons.IH [OF ran_upd_subset [OF Cons.prems(1) that]]) (use Cons.prems(2) in simp)
  ultimately show ?case unfolding term_nameds.simps by (elim rsafe_bind) auto
qed

lemma term_positionals_steps:
  "errors_ok R E \<Longrightarrow> (\<And>e. e \<in> set es \<Longrightarrow> rsteps A E n (resolve_expression R rp e args)) \<Longrightarrow>
     rsteps A E n (term_positionals R rp es args)"
  by (induction es) (auto intro!: rsafe_rule simp: errors_ok_def)

fun element_expression :: "pattern_element \<Rightarrow> expression option" where
  "element_expression (TextElement t sp) = None"
| "element_expression (PlaceableElement (Placeable e sp)) = Some e"

lemma elements_steps:
  assumes "errors_ok R E"
    and "\<And>el e. el \<in> set els \<Longrightarrow> element_expression el = Some e \<Longrightarrow>
      rsteps (fatal_ok R V) E n (resolve_expression R rp e args)"
  shows "rsteps (fatal_ok R V) E n (resolve_elements R rp els args)"
  using assms(2)
proof (induction els)
  case Nil
  then show ?case by (simp add: rsafe_rule)
next
  case (Cons el els)
  then have rest: "rsteps (fatal_ok R V) E n (resolve_elements R rp els args)"
    by (intro Cons.IH Cons.prems) auto
  show ?case
  proof (cases "element_expression el")
    case None
    then obtain t sp where "el = TextElement t sp" by (cases el rule: element_expression.cases) auto
    then show ?thesis using rest by (simp add: then_rest_steps rsteps_text_part)
  next
    case (Some e)
    then obtain sp where "el = PlaceableElement (Placeable e sp)"
      by (cases el rule: element_expression.cases) auto
    then show ?thesis using rest Cons.prems [of el e] assms(1) Some
      by (auto intro!: then_rest_steps placeable_part_steps)
  qed
qed

text \<open>A step whose value is one of \<open>V\<close>.\<close>

abbreviation rvalue :: "resolver \<Rightarrow> fvalue set \<Rightarrow> (resolution_error \<Rightarrow> bool) \<Rightarrow> nat \<Rightarrow> fvalue res \<Rightarrow> bool" where
  "rvalue R V E n p \<equiv> rsafe (fatal_ok R V) E n (\<lambda>v. v \<in> V) p"

lemma resolver_steps:
  assumes E: "errors_ok R E" and R: "wf_resolver R" and V: "closed_values R V" and rp: "deeper R V E n rp"
  shows "wf_expr k e \<Longrightarrow> \<forall>args. ran args \<subseteq> V \<longrightarrow> rvalue R V E (Suc n) (resolve_expression R rp e args)"
    and "wf_args k ca \<Longrightarrow> \<forall>args. ran args \<subseteq> V \<longrightarrow> (case ca of CallArguments ps ns sp \<Rightarrow>
      (\<forall>e \<in> set ps. rvalue R V E (Suc n) (resolve_expression R rp e args)) \<and>
      (\<forall>na \<in> set ns. rsafe (fatal_ok R V) E (Suc n) (\<lambda>(k, v). v \<in> V) (resolve_named R rp na args)))"
    and "wf_named k na \<Longrightarrow> \<forall>args. ran args \<subseteq> V \<longrightarrow>
      rsafe (fatal_ok R V) E (Suc n) (\<lambda>(k, v). v \<in> V) (resolve_named R rp na args)"
    and "wf_variant k w \<Longrightarrow> \<forall>args. ran args \<subseteq> V \<longrightarrow>
      rsteps (fatal_ok R V) E (Suc n) (resolve_pattern R rp (variant_value w) args)"
    and "wf_pattern k p \<Longrightarrow> \<forall>args. ran args \<subseteq> V \<longrightarrow> rsteps (fatal_ok R V) E (Suc n) (resolve_pattern R rp p args)"
    and "wf_element k el \<Longrightarrow> \<forall>args e. ran args \<subseteq> V \<longrightarrow> element_expression el = Some e \<longrightarrow>
      rvalue R V E (Suc n) (resolve_expression R rp e args)"
    and "wf_placeable k pl \<Longrightarrow> \<forall>args. ran args \<subseteq> V \<longrightarrow> (case pl of Placeable e sp \<Rightarrow>
      rvalue R V E (Suc n) (resolve_expression R rp e args))"
proof (induction e and ca and na and w and p and el and pl)
  case (StringLiteral s sp)
  then show ?case by (simp add: rsafe_rule closed_valuesD [OF V])
next
  case (NumberLiteral v raw sp)
  then show ?case by (simp add: rsafe_rule closed_valuesD [OF V])
next
  case (VariableReference i sp)
  then show ?case using E by (auto intro!: rsafe_rule simp: errors_ok_def ranI subset_iff split: option.split)
next
  case (MessageReference i attr sp)
  show ?case
  proof (cases "rv_messages R (id_name i)")
    case None
    then show ?thesis using E by (auto intro!: rsafe_rule simp: errors_okD)
  next
    case (Some m)
    then have "wf_message m" using R unfolding wf_resolver_def by blast
    then have "rvalue R V E (Suc n) (resolve_expression R rp (MessageReference i attr sp) args)" if "ran args \<subseteq> V" for args
      unfolding resolve_expression.simps Some option.case
      by (rule rsafe_weaken [OF message_reference_steps [OF E rp _ that, where g = VStr]])
        (auto simp: closed_valuesD [OF V])
    then show ?thesis by blast
  qed
next
  case (TermReference i attr as sp)
  have t: "rsteps (fatal_ok R V) E (Suc n) (resolve_term rp (qualified_id i attr) pat eval)"
    if "rv_terms R (id_name i) = Some t" "term_pattern t attr = Inr pat"
      "rsafe (fatal_ok R V) E (Suc n) (\<lambda>targs. ran targs \<subseteq> V) eval" for t pat eval
  proof -
    have "wf_term t" using that(1) R unfolding wf_resolver_def by blast
    then show ?thesis using term_pattern_wf that(2,3) term_steps [OF E rp] by blast
  qed
  show ?case
  proof (cases as)
    case None
    then show ?thesis using E
      by (auto intro!: rsafe_rule t simp: errors_okD term_pattern_error closed_valuesD [OF V] split: option.split sum.split)
  next
    case (Some ca)
    obtain ps ns asp where ca: "ca = CallArguments ps ns asp" by (cases ca)
    have eval: "rsafe (fatal_ok R V) E (Suc n) (\<lambda>targs. ran targs \<subseteq> V)
        (rbind (term_nameds R rp ns args Map.empty) (\<lambda>term_args.
           rbind (term_positionals R rp ps args) (\<lambda>_.
             rbind (warn_positional (id_name i) (length ps)) (\<lambda>_. rret term_args))))"
      if args: "ran args \<subseteq> V" for args
    proof (rule rsafe_bind [OF term_nameds_safe [OF E]])
      have e: "rsteps (fatal_ok R V) E (Suc n) (resolve_expression R rp e args)" if "e \<in> set ps" for e
        using TermReference Some ca args that by (auto dest: rsteps_weaken)
      show "rsafe (fatal_ok R V) E (Suc n) (\<lambda>targs. ran targs \<subseteq> V)
          (rbind (term_positionals R rp ps args) (\<lambda>_.
             rbind (warn_positional (id_name i) (length ps)) (\<lambda>_. rret term_args)))" if "ran term_args \<subseteq> V" for term_args
        using e that E by (auto intro!: rsafe_rule term_positionals_steps simp: warn_positional_def)
    qed (use TermReference Some ca args in auto)
    show ?thesis unfolding Some ca using E
      by (auto intro!: rsafe_rule t eval simp: errors_okD term_pattern_error closed_valuesD [OF V]
          split: option.split sum.split)
  qed
next
  case (FunctionReference i ca sp)
  then show ?case using E
    by (cases ca) (auto intro!: rsafe_rule positionals_steps nameds_steps dispatch_steps V rsteps_weaken simp: errors_okD)
next
  case (NestedPlaceable pl)
  then show ?case using E by (cases pl) (auto intro!: rsafe_rule simp: errors_okD)
next
  case (SelectExpression sel vs sp)
  then have vs: "list_all (wf_variant k) vs" by simp
  have "rvalue R V E (Suc n) (resolve_expression R rp (SelectExpression sel vs sp) args)" if args: "ran args \<subseteq> V" for args
  proof -
    have sel: "rvalue R V E (Suc n) (resolve_expression R rp sel args)"
      and pats: "w \<in> set vs \<Longrightarrow> rsteps (fatal_ok R V) E (Suc n) (resolve_pattern R rp (variant_value w) args)" for w
      using SelectExpression args by (auto simp: list_all_iff)
    show ?thesis unfolding resolve_expression.simps
    proof (rule rsafe_then [OF rsafe_bind [OF try_selector_safe [OF E sel]]])
      fix r :: "fvalue option" assume "pred_option (\<lambda>v. v \<in> V) r"
      then show "rsteps (fatal_ok R V) E (Suc n) (case r of
            None \<Rightarrow>
              (case fallback_variant vs of
                 None \<Rightarrow> rthrow NoVariants
               | Some w \<Rightarrow> resolve_pattern R rp (variant_value w) args)
          | Some value \<Rightarrow>
              rbind (lift_format (rv_int_digits R) value) (\<lambda>text.
                case choose_variant R vs value text of
                  Inl e \<Rightarrow> rfatal e
                | Inr (chosen, no_plurals) \<Rightarrow>
                    rbind (if no_plurals then append_error PluralSupportUnavailable else rret ()) (\<lambda>_.
                      case chosen of
                        None \<Rightarrow> rthrow NoVariants
                      | Some w \<Rightarrow> resolve_pattern R rp (variant_value w) args)))" using E
        by (auto intro!: rsafe_rule lift_format_steps pats simp: errors_okD split: option.split sum.split)
          (use choose_variant_in fallback_variant_in choose_variant_fatal [OF vs] in blast)+
    qed (simp add: rsafe_rule closed_valuesD [OF V])
  qed
  then show ?case by blast
next
  case (CallArguments ps ns sp)
  then show ?case by (auto simp: list_all_iff)
next
  case (NamedArgument i e sp)
  then have "rvalue R V E (Suc n) (resolve_expression R rp e args)" if "ran args \<subseteq> V" for args using that by simp
  then show ?case by (fastforce intro: rsafe_bind rsafe_rret)
next
  case (Variant key v d sp)
  then show ?case by auto
next
  case (Pattern els sp)
  then show ?case using E
    by (auto intro!: rsafe_rule elements_steps simp: list_all_iff) (blast dest: rsteps_weaken)
next
  case (TextElement t sp)
  then show ?case by simp
next
  case (PlaceableElement pl)
  then show ?case by (cases pl) auto
next
  case (Placeable e sp)
  then show ?case by auto
qed

lemma level_steps:
  assumes "errors_ok R E" "wf_resolver R" "closed_values R V"
  shows "deeper R V E n (resolve_pattern_at R n)"
proof (induction n)
  case 0
  then show ?case by (simp add: deeper_def)
next
  case (Suc n)
  then show ?case using resolver_steps(5) [OF assms Suc] by (auto simp: deeper_def)
qed

text \<open>A context in which a message can be resolved.\<close>

definition consistent :: "rstate \<Rightarrow> bool" where
  "consistent s \<longleftrightarrow> distinct (rs_stack s) \<and> rs_seen s = set (rs_stack s)"

lemma consistent_level: "consistent s \<Longrightarrow> level (Suc (nat (rs_max_depth s - context_depth s))) s"
  by (simp add: consistent_def level_def)

lemma consistent_fresh: "consistent (fresh_context R g)"
  by (simp add: consistent_def fresh_context_def mk_context_def)

lemma message_safe:
  assumes "errors_ok R E" "wf_resolver R" "wf_message m" "consistent s"
  shows "case resolve_message_in R m args a s of
      (Value (t, errors), s') \<Rightarrow> keeps s (s'\<lparr>rs_errors := rs_errors s' @ errors\<rparr>)
    | (Fluent e, s') \<Rightarrow> E e
    | (Fatal f, s') \<Rightarrow> same_place s s' \<and> fatal_ok R (provided_values R args) f
    | (Exhausted, s') \<Rightarrow> False"
proof -
  let ?V = "provided_values R args"
  let ?n = "nat (rs_max_depth s - context_depth s)"
  let ?m = "resolve_message R (resolve_pattern_at R ?n) m args a"
  have "rsteps (fatal_ok R ?V) E (Suc ?n)
      (rbind ?m (\<lambda>(t, errors). rbind (extend_errors errors) (\<lambda>_. rret ())))"
    by (rule rsteps_weaken [OF message_reference_steps [OF assms(1) level_steps [OF assms(1,2) provided_closed(1)]
          assms(3) provided_closed(2), where g = "\<lambda>_. ()"]])
  from rsafeD [OF this consistent_level [OF assms(4)]] show ?thesis
    by (cases "?m s") (auto simp: resolve_message_in_def with_state_def rbind_def extend_errors_def rret_def
        split: rresult.splits)
qed

end
