(* ===== verification/Resolver_Properties.thy ===== *)
theory Resolver_Properties
  imports Resolver_Safety
begin

text \<open>
  What the resolver guarantees for every message of a well-formed bundle: it ends, raises
  nothing but a few named exceptions, leaves the context as it was, reports an overrun of the
  expansion budget, and bounds the text it returns.
\<close>

lemma any_error_ok: "errors_ok R (\<lambda>_. True)"
  by (simp add: errors_ok_def)

lemma message_never_fluent: "fst (resolve_message R rp m args a s) \<noteq> Fluent e"
proof -
  have "fst (rcatch p (\<lambda>e. error_text e x) s) \<noteq> Fluent e" for p x s
    by (auto simp: rcatch_def error_text_run split: rresult.splits prod.splits)
  then show ?thesis
    by (auto simp: resolve_message_def own_errors_def with_state_def error_text_run
        split: prod.splits sum.splits rresult.splits if_splits)
      (metis fst_conv)+
qed

section \<open>A small bundle\<close>

text \<open>\<open>loop = { loop }\<close>, \<open>hello = Hi { $name }\<close>, \<open>wide = { hello }{ hello }\<close> and the term
  \<open>-brand = Acme\<close>.\<close>

definition id_of :: "string \<Rightarrow> ident" where
  "id_of s = Identifier (u s) None"

definition message_ref :: "string \<Rightarrow> pattern_element" where
  "message_ref s = PlaceableElement (Placeable (MessageReference (id_of s) None None) None)"

definition loop_message :: message_data where
  "loop_message = (id_of ''loop'', Some (Pattern [message_ref ''loop''] None), [])"

definition hello_message :: message_data where
  "hello_message =
     (id_of ''hello'',
      Some (Pattern [TextElement (u ''Hi '') None,
              PlaceableElement (Placeable (VariableReference (id_of ''name'') None) None)] None), [])"

definition wide_message :: message_data where
  "wide_message = (id_of ''wide'', Some (Pattern [message_ref ''hello'', message_ref ''hello''] None), [])"

text \<open>A Babel that knows every locale, with the rule that 1 is \<open>one\<close>.\<close>

definition demo_rules :: plural_rules where
  "demo_rules ordinal n =
     Inr (if n = IntNumber 1 \<or> n = DecimalNumber (Finite False 1 0) then u ''one'' else u ''other'')"

definition demo_babel :: plural_support where
  "demo_babel = \<lparr>ps_installed = True, ps_parse = (\<lambda>code. KnownLocale demo_rules)\<rparr>"

definition demo_resolver :: "int \<Rightarrow> resolver" where
  "demo_resolver budget =
     mk_resolver (u ''en'')
       [u ''loop'' \<mapsto> loop_message, u ''hello'' \<mapsto> hello_message, u ''wide'' \<mapsto> wide_message] Map.empty
       empty_registry False 100 budget 1000 4300 28 demo_babel"

lemmas demo_defs = demo_resolver_def mk_resolver_def loop_message_def hello_message_def wide_message_def
  message_ref_def id_of_def empty_registry_def

lemma grammar_ids: "grammar_identifier (u ''loop'')" "grammar_identifier (u ''hello'')"
  "grammar_identifier (u ''name'')" "grammar_identifier (u ''wide'')"
  by code_simp+

lemma demo_wf: "wf_message loop_message" "wf_message hello_message" "wf_message wide_message"
  "wf_resolver (demo_resolver budget)"
proof -
  show m: "wf_message loop_message" "wf_message hello_message" "wf_message wide_message"
    using grammar_ids
    by (simp_all add: wf_message_def demo_defs wf_attributes_def u_def)
  show "wf_resolver (demo_resolver budget)"
    using m by (auto simp: wf_resolver_def demo_resolver_def mk_resolver_def depth_clamp_def split: if_splits)
qed

lemma demo_no_cancel: "registry_call (rv_registry (demo_resolver budget)) name ps ns g \<noteq> RaisedCancelled"
  by (simp add: demo_defs registry_call_def od_get_def)

section \<open>Termination and exceptions\<close>

lemma resolves:
  assumes "wf_resolver R" "wf_message m"
  shows "case resolve R g m args attribute of
      Value (t, errors) \<Rightarrow> True
    | Fluent e \<Rightarrow> False
    | Fatal f \<Rightarrow> fatal_ok R (provided_values R args) f
    | Exhausted \<Rightarrow> False"
  using message_safe [OF any_error_ok assms consistent_fresh [of R g], of args attribute]
    message_never_fluent
  by (auto simp: resolve_def resolve_message_in_def with_state_def split: rresult.splits prod.splits)

text \<open>C5: the resolver ends on every message of a well-formed bundle, cyclic ones included, and
  returns a text with its errors.  Besides, what can leave it is the cancellation of a function;
  where the interpreter limits the digits of an integer, the \<open>ValueError\<close> of its \<open>str\<close>; and
  what the selection of a variant raises for a number among the arguments, the literals and the
  results of functions: \<open>InvalidOperation\<close> of a signaling NaN or of a precision that the decimal
  context cannot hold, and what a plural rule of Babel raises, but never a missing Babel.\<close>

theorem resolve_returns:
  assumes "wf_resolver R" "wf_message m"
  shows "case resolve R g m args attribute of
      Value (t, errors) \<Rightarrow> True
    | Fluent e \<Rightarrow> False
    | Fatal f \<Rightarrow> fatal_ok R (provided_values R args) f
    | Exhausted \<Rightarrow> False"
  using assms by (rule resolves)

theorem resolve_returns_witness:
  "case resolve (demo_resolver 1000) 0 loop_message Map.empty None of
      Value (t, errors) \<Rightarrow> True | Fluent e \<Rightarrow> False
    | Fatal f \<Rightarrow> fatal_ok (demo_resolver 1000) (provided_values (demo_resolver 1000) Map.empty) f | Exhausted \<Rightarrow> False"
  by (rule resolve_returns [OF demo_wf(4,1)])

subsection \<open>Which numbers make the selection raise\<close>

text \<open>
  A number that a precision of \<open>p\<close> fraction digits fits: zero, or at most \<open>prec\<close> digits before and
  after the rounding.
\<close>

definition fits_precision :: "nat \<Rightarrow> numeric \<Rightarrow> int \<Rightarrow> bool" where
  "fits_precision prec n p \<longleftrightarrow>
     (case n of
        IntNumber i \<Rightarrow> quantize prec (i < 0) (nat \<bar>i\<bar>) 0 (quantizer_exponent prec p) \<noteq> None
      | DecimalNumber (Finite neg c x) \<Rightarrow> quantize prec neg c x (quantizer_exponent prec p) \<noteq> None
      | DecimalNumber d \<Rightarrow> True)"

text \<open>
  Selection raises \<open>InvalidOperation\<close> for a number exactly when it is a signaling NaN, or when
  Babel has rules for the locale and the number does not fit its precision.
\<close>

lemma apply_rule_not_invalid: "apply_rule rules ordinal n \<noteq> Inl InvalidOperation"
  by (simp add: apply_rule_def split: sum.split)

lemma with_precision_invalid:
  "\<not> non_finite n \<Longrightarrow> with_precision prec limit n p = Inl InvalidOperation \<longleftrightarrow>
     (\<exists>d. to_decimal limit n = Inr d) \<and> \<not> fits_precision prec n p"
  by (cases n) (auto simp: with_precision_def to_decimal_def fits_precision_def non_finite_def is_nan_def is_infinite_def
      str_int_def Let_def split: decimal_number.splits option.splits)

lemma category_invalid:
  "select_plural_category B prec limit n locale precision ordinal = Inl InvalidOperation \<longleftrightarrow>
     ps_installed B \<and> find_plural_rules B locale \<noteq> None \<and> \<not> non_finite n \<and> (\<exists>d. to_decimal limit n = Inr d) \<and>
     (\<exists>p. precision = Some p \<and> 0 \<le> p \<and> \<not> fits_precision prec n p)"
proof (cases "ps_installed B \<and> \<not> non_finite n")
  case True
  then have w: "with_precision prec limit n p = Inl InvalidOperation \<longleftrightarrow>
      (\<exists>d. to_decimal limit n = Inr d) \<and> \<not> fits_precision prec n p" for p
    by (simp add: with_precision_invalid)
  have s: "(case r of Inl e \<Rightarrow> Inl e | Inr d \<Rightarrow> apply_rule rules ordinal (DecimalNumber d)) = Inl InvalidOperation \<longleftrightarrow>
      r = Inl InvalidOperation" for r rules
    by (auto simp: apply_rule_not_invalid split: sum.split)
  show ?thesis using True
    by (auto simp: select_plural_category_def apply_rule_not_invalid s w split: option.split)
qed (auto simp: select_plural_category_def split: option.split)

text \<open>An invalid operation leaves the resolver only if an argument or the result of a function is
  a signaling NaN or a number that does not fit its precision.\<close>

theorem invalid_operation_provided:
  assumes "wf_resolver R" "wf_message m" "resolve R g m args attribute = Fatal InvalidOperation"
  shows "\<exists>v n. v \<in> provided_values R args \<and> numeric_of v = Some n \<and>
    (signaling_number n \<or> (\<exists>p. precision_of v = Some p \<and> 0 \<le> p \<and> \<not> fits_precision (rv_decimal_prec R) n p))"
  using resolves [OF assms(1,2), where g = g and args = args and attribute = attribute] assms(3)
  by (fastforce simp: fatal_ok_def selection_raises_def category_of_number_def category_invalid split: option.splits)

section \<open>The context\<close>

text \<open>C31: whatever happens inside, exceptions included, the resolver leaves the stack, its lookup
  set, the limits and both depths as it found them, and only adds to the character count.\<close>

theorem context_restored:
  assumes "wf_resolver R" "wf_message m" "consistent s"
  shows "same_place s (snd (resolve_message_in R m args attribute s))"
proof (cases "resolve_message_in R m args attribute s")
  case (Pair r s')
  moreover have "r \<noteq> Fluent e" for e
    using message_never_fluent Pair unfolding resolve_message_in_def with_state_def by (metis fst_conv)
  ultimately show ?thesis
    using message_safe [OF any_error_ok assms, of args attribute]
    by (cases r) (auto simp: keeps_def same_place_def)
qed

theorem context_restored_witness:
  "rs_stack (snd (resolve_message_in (demo_resolver 1000) loop_message Map.empty None
     (fresh_context (demo_resolver 1000) 3))) = [] \<and>
   rs_global (snd (resolve_message_in (demo_resolver 1000) loop_message Map.empty None
     (fresh_context (demo_resolver 1000) 3))) = 3"
  using context_restored [OF demo_wf(4,1) consistent_fresh [of "demo_resolver 1000" 3],
      where args = Map.empty and attribute = None]
  by (simp add: same_place_def fresh_context_def mk_context_def)

section \<open>The expansion budget\<close>

text \<open>C32: an overrun of the expansion budget never goes unnoticed: when the characters counted
  exceed the budget after a resolution, the errors it returns say so.\<close>

theorem overrun_reported:
  assumes "wf_resolver R" "wf_message m" "consistent s" "\<not> over_budget s"
    and "resolve_message_in R m args attribute s = (Value (t, errors), s')" "over_budget s'"
    and "rs_errors s = []"
  shows "list_ex is_budget_error (rs_errors s' @ errors)"
proof -
  have "keeps s (s'\<lparr>rs_errors := rs_errors s' @ errors\<rparr>)"
    using message_safe [OF any_error_ok assms(1,2,3), of args attribute] assms(5) by simp
  then show ?thesis using assms(4,6,7) by (auto simp: keeps_def reported_def over_budget_def)
qed

lemma resolve_pattern_at_pos:
  "0 < n \<Longrightarrow> resolve_pattern_at R n = (\<lambda>p args. resolve_pattern R (resolve_pattern_at R (n - 1)) p args)"
  by (cases n) simp_all

lemmas run_defs = resolve_message_in_def with_state_def fresh_context_def mk_context_def demo_defs depth_clamp_def
  context_depth_def resolve_pattern_at_pos resolve_message_def own_errors_def select_pattern_def contains_def
  is_depth_exceeded_def rcatch_def globally_guarded_def rbind_def push_def rfinally_def pop_def rret_def
  over_budget_def then_rest_def text_part_def track_expansion_def append_error_def budget_error_def u_def
  placeable_part_def expression_guarded_def lift_format_def format_value_def emit_placeable_def

text \<open>With a budget of two characters the text \<open>Hi\<close> and a space are too long already.\<close>

lemma hello_run:
  "resolve_message_in (demo_resolver 2) hello_message Map.empty None (fresh_context (demo_resolver 2) 0) =
     (Value ([], [ExpansionBudgetExceeded 3 2]), (fresh_context (demo_resolver 2) 0)\<lparr>rs_chars := 3\<rparr>)"
  by (simp add: run_defs)

lemma hello_bob_run:
  "resolve_message_in (demo_resolver 1000) hello_message [u ''name'' \<mapsto> VStr (u ''Bob'')] None
       (fresh_context (demo_resolver 1000) 0) =
     (Value (u ''Hi Bob'', []), (fresh_context (demo_resolver 1000) 0)\<lparr>rs_chars := 6\<rparr>)"
  by (simp add: run_defs)

theorem overrun_reported_witness:
  "list_ex is_budget_error [ExpansionBudgetExceeded 3 2]"
  using overrun_reported [OF demo_wf(4,2) consistent_fresh [of "demo_resolver 2" 0] _ hello_run]
  by (simp add: over_budget_def fresh_context_def mk_context_def demo_resolver_def mk_resolver_def)

subsection \<open>The length of the text\<close>

text \<open>What a pattern can add beyond the characters it counts: two isolation marks, or the
  fallback text, for each placeable.\<close>

fun element_overhead :: "nat \<Rightarrow> pattern_element \<Rightarrow> nat" where
  "element_overhead b (TextElement t sp) = 0"
| "element_overhead b (PlaceableElement (Placeable e sp)) = 2 + b + length (get_fallback e 10)"

fun pattern_overhead :: "nat \<Rightarrow> pattern \<Rightarrow> nat" where
  "pattern_overhead b (Pattern es sp) = sum_list (map (element_overhead b) es)"

text \<open>Functions raise errors whose fallback value has at most \<open>b\<close> characters.\<close>

definition short_fallback :: "nat \<Rightarrow> resolution_error \<Rightarrow> bool" where
  "short_fallback b e \<longleftrightarrow> (case fallback_of e of None \<Rightarrow> True | Some t \<Rightarrow> length t \<le> b)"

definition budget_left :: "rstate \<Rightarrow> int" where
  "budget_left s = max 0 (rs_max_expansion s - rs_chars s)"

lemma text_part_bound: "text_part t s = (Value x, s') \<Longrightarrow> keeps s s' \<and> part_bound 0 s x s'"
  using text_part_keeps [where t = t and s = s] by simp

lemma placeable_part_bound:
  assumes E: "errors_ok R (short_fallback b)" and p: "rsteps (fatal_ok R V) (short_fallback b) n p" "level n s"
    and run: "placeable_part R e p s = (Value x, s')"
  shows "keeps s s' \<and> part_bound (2 + b + length (get_fallback e 10)) s x s'"
proof -
  let ?b = "2 + b + length (get_fallback e 10)"
  let ?q = "rbind (expression_guarded p) (\<lambda>v. rbind (lift_format (rv_int_digits R) v) (emit_placeable R))"
  have g: "rsteps (fatal_ok R V) (short_fallback b) n (expression_guarded p)"
    using p(1) E by (auto intro!: rsafe_rule simp: errors_okD)
  have q: "rsteps (fatal_ok R V) (short_fallback b) n ?q"
    using g E by (auto intro!: rsafe_rule lift_format_steps)
  note gd = rsafeD [OF g p(2)]
  have fb: "length (placeable_fallback e err) \<le> ?b" if "short_fallback b err" for err
    using that by (auto simp: placeable_fallback_def short_fallback_def split: option.splits)
  have part: "part_bound ?b s x s'" if "keeps s s1" "part_bound 2 s1 x s'" for s1
    using that by (auto simp: part_bound_def keeps_def same_place_def split: option.splits)
  have k: "keeps s s'"
    using rsafeD(1) [OF placeable_part_steps [OF E p(1)] p(2) run] by simp
  have "part_bound ?b s x s'"
  proof (cases "?q s")
    case (Pair r t)
    show ?thesis
    proof (cases r)
      case (Value y)
      then obtain v s1 t1 s2 where "expression_guarded p s = (Value v, s1)"
          "lift_format (rv_int_digits R) v s1 = (Value t1, s2)" "emit_placeable R t1 s2 = (Value y, t)"
        using Pair by (auto simp: rbind_def split: prod.splits rresult.splits)
      moreover from this(2) have "s2 = s1"
        by (auto simp: lift_format_def rret_def rthrow_def rfatal_def split: format_result.splits)
      ultimately show ?thesis
        using gd(1) emit_placeable_keeps [where R = R and t = t1 and s = s2] Pair Value run part
        by (auto simp: placeable_part_def rcatch_def)
    next
      case (Fluent err)
      then have "x = Some (placeable_fallback e err)"
        using Pair run by (auto simp: placeable_part_def rcatch_def rbind_def append_error_def rret_def)
      moreover have "short_fallback b err"
        using rsafeD(2) [OF q p(2)] Pair Fluent by auto
      ultimately show ?thesis using fb unfolding part_bound_def by (simp only: option.case of_nat_le_iff simp_thms)
    qed (use Pair run in \<open>auto simp: placeable_part_def rcatch_def\<close>)
  qed
  with k show ?thesis by simp
qed

lemma part_then_rest:
  assumes "then_rest p rest s = (Value parts, s')"
    and "\<And>x s1. p s = (Value x, s1) \<Longrightarrow> keeps s s1 \<and> part_bound b s x s1"
    and "\<And>s1 ps s2. keeps s s1 \<Longrightarrow> rest s1 = (Value ps, s2) \<Longrightarrow> int (length (concat ps)) \<le> budget_left s1 + int o1"
  shows "int (length (concat parts)) \<le> budget_left s + int (b + o1)"
proof (cases "p s")
  case (Pair r s1)
  with assms(1) obtain x where r: "r = Value x" by (cases r) (auto simp: then_rest_def rbind_def)
  with assms(2) Pair have x: "keeps s s1" "part_bound b s x s1" by auto
  show ?thesis
  proof (cases x)
    case None
    with assms(1) Pair r show ?thesis by (simp add: then_rest_def rbind_def rret_def budget_left_def)
  next
    case (Some t)
    then obtain ps where ps: "rest s1 = (Value ps, s')" "parts = t # ps"
      using assms(1) Pair r by (auto simp: then_rest_def rbind_def rret_def split: prod.splits rresult.splits)
    with assms(3) x have "int (length (concat ps)) \<le> budget_left s1 + int o1" by blast
    with x ps(2) Some show ?thesis
      by (auto simp: part_bound_def budget_left_def keeps_def same_place_def)
  qed
qed

lemma all_values: "closed_values R UNIV"
  by (simp add: closed_values_def)

lemma elements_bound:
  assumes E: "errors_ok R (short_fallback b)" and R: "wf_resolver R"
    and rp: "deeper R UNIV (short_fallback b) n rp"
  shows "list_all (wf_element k) els \<Longrightarrow> level (Suc n) s \<Longrightarrow>
    resolve_elements R rp els args s = (Value parts, s') \<Longrightarrow>
    int (length (concat parts)) \<le> budget_left s + int (sum_list (map (element_overhead b) els))"
proof (induction els arbitrary: s parts s')
  case Nil
  then show ?case by (simp add: rret_def budget_left_def)
next
  case (Cons el els)
  have rest: "int (length (concat ps)) \<le> budget_left s1 + int (sum_list (map (element_overhead b) els))"
    if "keeps s s1" "resolve_elements R rp els args s1 = (Value ps, s2)" for s1 ps s2
    using Cons.IH [of s1 ps s2] Cons.prems that level_keeps [of "Suc n" s s1] by simp
  show ?case
  proof (cases "element_expression el")
    case None
    then obtain t sp where el: "el = TextElement t sp" by (cases el rule: element_expression.cases) auto
    show ?thesis
      using part_then_rest [of "text_part t" "resolve_elements R rp els args" s parts s' 0] Cons.prems(3)
        text_part_bound [of t s] rest by (simp add: el)
  next
    case (Some e)
    then obtain sp where el: "el = PlaceableElement (Placeable e sp)"
      by (cases el rule: element_expression.cases) auto
    have "rsteps (fatal_ok R UNIV) (short_fallback b) (Suc n) (resolve_expression R rp e args)"
      using resolver_steps(1) [OF E R all_values rp, of k e] Cons.prems(1) by (simp add: el)
    from placeable_part_bound [OF E this Cons.prems(2)]
    have p: "placeable_part R e (resolve_expression R rp e args) s = (Value x, s1) \<Longrightarrow>
        keeps s s1 \<and> part_bound (2 + b + length (get_fallback e 10)) s x s1" for x s1 by blast
    show ?thesis
      using part_then_rest [of "placeable_part R e (resolve_expression R rp e args)"
          "resolve_elements R rp els args" s parts s', OF _ p rest] Cons.prems(3)
      by (simp add: el)
  qed
qed

lemma pattern_bound:
  assumes "errors_ok R (short_fallback b)" "wf_resolver R" "deeper R UNIV (short_fallback b) n rp"
    and "wf_pattern k p" "level (Suc n) s" "resolve_pattern R rp p args s = (Value t, s')"
  shows "int (length t) \<le> budget_left s + int (pattern_overhead b p)"
proof (cases p)
  case (Pattern es sp)
  show ?thesis
  proof (cases "over_budget s")
    case True
    with assms(6) Pattern show ?thesis
      by (auto simp: with_state_def rbind_def append_error_def rret_def budget_left_def)
  next
    case False
    with assms(6) Pattern obtain parts where "resolve_elements R rp es args s = (Value parts, s')" "t = concat parts"
      by (auto simp: with_state_def rbind_def rret_def split: prod.splits rresult.splits)
    with elements_bound [OF assms(1,2,3), of k es s args parts s'] assms(4,5) Pattern show ?thesis by simp
  qed
qed

text \<open>The text of a message is bounded by the expansion budget, whatever references it
  expands, up to what the placeables of its own pattern add (isolation marks, fallback texts);
  otherwise it is the fallback for its key.\<close>

theorem expansion_bounded:
  assumes "wf_resolver R" "wf_message m" "errors_ok R (short_fallback b)" "consistent s"
    and "select_pattern m attribute = Inr (key, p)"
    and "resolve_message_in R m args attribute s = (Value (t, errors), s')"
  shows "int (length t) \<le> max 0 (rs_max_expansion s - rs_chars s) + int (pattern_overhead b p) + int (length (fallback_message key))"
proof -
  define n where "n = nat (rs_max_depth s - context_depth s)"
  let ?s = "s\<lparr>rs_errors := []\<rparr>"
  let ?rp = "resolve_pattern_at R n"
  let ?q = "rbind (push key) (\<lambda>_. rfinally (?rp p args) (rbind pop (\<lambda>_. rret ())))"
  show ?thesis
  proof (cases "t = fallback_message key")
    case False
    have msg: "fst (resolve_message R ?rp m args attribute s) = Value (t, errors)"
      using assms(6) by (simp add: resolve_message_in_def with_state_def n_def)
    have c: "\<not> contains key ?s" "\<not> is_depth_exceeded ?s"
      using msg False assms(5)
      by (auto simp: resolve_message_def own_errors_def with_state_def error_text_run split: if_splits)
    have gl: "fst (globally_guarded (rv_recursion_limit R) (rs_max_depth ?s) ?q ?s) = Value t"
      using msg False c assms(5)
      by (auto simp: resolve_message_def own_errors_def with_state_def error_text_run rcatch_def
          split: prod.splits rresult.splits)
    let ?s1 = "?s\<lparr>rs_global := rs_global s + 1\<rparr>"
    let ?s2 = "?s1\<lparr>rs_stack := rs_stack s @ [key], rs_seen := insert key (rs_seen s)\<rparr>"
    have "fst (?q ?s1) = Value t"
      using gl by (auto simp: globally_guarded_def Let_def split: prod.splits if_splits)
    then have "fst (?rp p args ?s2) = Value t"
      by (auto simp: rbind_def push_def rfinally_def split: prod.splits rresult.splits)
    then obtain s2' where run: "?rp p args ?s2 = (Value t, s2')" by (cases "?rp p args ?s2") auto
    have n: "0 < n" using c(2) by (simp add: n_def is_depth_exceeded_def context_depth_def)
    then obtain n' where n': "n = Suc n'" by (cases n) auto
    have lv: "level (Suc n') ?s2"
      using assms(4) c n n' by (auto simp: level_def consistent_def contains_def context_depth_def n_def)
    obtain k where k: "wf_pattern k p" using select_pattern_wf [OF assms(2,5)] by blast
    have "int (length t) \<le> budget_left ?s2 + int (pattern_overhead b p)"
      using pattern_bound [OF assms(3,1) level_steps [OF assms(3,1) all_values] k lv] run by (simp add: n')
    then show ?thesis by (simp add: budget_left_def)
  qed simp
qed

theorem expansion_bounded_witness:
  "int (length (u ''Hi Bob'')) \<le> 1000 + int (pattern_overhead 0 (the (fst (snd hello_message)))) +
     int (length (fallback_message (u ''hello'')))"
proof -
  have "errors_ok (demo_resolver 1000) (short_fallback 0)"
    by (auto simp: errors_ok_def short_fallback_def demo_defs registry_call_def od_get_def)
  moreover have "select_pattern hello_message None = Inr (u ''hello'', the (fst (snd hello_message)))"
    by (simp add: select_pattern_def hello_message_def id_of_def)
  ultimately show ?thesis
    using expansion_bounded [OF demo_wf(4,2) _ consistent_fresh _ hello_bob_run, of 0 "u ''hello''"]
    by (simp add: fresh_context_def mk_context_def demo_resolver_def mk_resolver_def)
qed

section \<open>Numbers that make the resolver raise\<close>

lemma length_dec_digits: "10 ^ k \<le> n \<Longrightarrow> k < length (dec_digits n)"
proof (induction k arbitrary: n)
  case 0
  then show ?case by (subst dec_digits.simps) simp
next
  case (Suc k)
  then have k: "10 ^ k \<le> n div 10" by (simp add: less_eq_div_iff_mult_less_eq mult.commute)
  then have "n div 10 \<noteq> 0" by (metis le_zero_eq power_not_zero zero_neq_numeral)
  then have "\<not> n < 10" by auto
  with Suc.IH [OF k] show ?case by (subst dec_digits.simps) simp
qed

lemma str_int_huge:
  assumes "0 < limit" "10 ^ limit \<le> nat \<bar>i\<bar>"
  shows "str_int limit i = Inl ValueError"
  using assms length_dec_digits [of limit "nat \<bar>i\<bar>"] by (simp add: str_int_def Let_def)

text \<open>An integer argument with more digits than the interpreter's limit makes the resolver
  raise: the conversion to text is outside the handling of errors.\<close>

theorem huge_integer_raises:
  assumes "0 < limit" "10 ^ limit \<le> nat \<bar>i\<bar>"
  shows "resolve (demo_resolver 1000\<lparr>rv_int_digits := limit\<rparr>) 0 hello_message [u ''name'' \<mapsto> VInt i] None =
    Fatal (PyError ValueError)"
  using str_int_huge [OF assms] by (simp add: resolve_def run_defs rfatal_def)

theorem huge_integer_raises_witness:
  "resolve (demo_resolver 1000\<lparr>rv_int_digits := 4300\<rparr>) 0 hello_message
     [u ''name'' \<mapsto> VInt (int (10 ^ 4300))] None = Fatal (PyError ValueError)"
  by (rule huge_integer_raises) (simp_all only: zero_less_numeral abs_of_nat nat_int order_refl)

text \<open>\<open>count = { $n -> [1] A *[other] B }\<close>\<close>

definition count_variants :: "variant list" where
  "count_variants =
     [Variant (KeyNumber (IntValue 7) (u ''7'') None) (Pattern [TextElement (u ''A'') None] None) False None,
      Variant (KeyIdentifier (id_of ''other'')) (Pattern [TextElement (u ''B'') None] None) True None]"

definition count_message :: message_data where
  "count_message =
     (id_of ''count'',
      Some (Pattern [PlaceableElement (Placeable
        (SelectExpression (VariableReference (id_of ''n'') None) count_variants None) None)] None), [])"

lemma count_raises:
  assumes "format_value 4300 v = Formatted t" "choose_variant (demo_resolver 1000) count_variants v t = Inl e"
  shows "resolve (demo_resolver 1000) 0 count_message [u ''n'' \<mapsto> v] None = Fatal e"
proof -
  have l: "lift_format 4300 v = rret t" using assms(1) by (simp add: lift_format_def)
  show ?thesis
    using assms(2)
    by (simp add: resolve_message_in_def with_state_def fresh_context_def mk_context_def demo_defs depth_clamp_def
        context_depth_def resolve_pattern_at_pos resolve_message_def own_errors_def select_pattern_def contains_def
        is_depth_exceeded_def rcatch_def globally_guarded_def rbind_def push_def rfinally_def pop_def rret_def
        over_budget_def then_rest_def placeable_part_def expression_guarded_def l u_def count_message_def try_selector_def
        rfatal_def resolve_def)
qed

lemmas choose_defs = choose_variant_def find_exact_def count_variants_def py_decimal_def strip_minus_def
  is_ascii_digit_def digits_value_def numeric_of_def to_decimal_def decimal_equal_def is_signaling_def literal_number_def
  u_def demo_defs

text \<open>A number whose precision is beyond the 28 digits of the default decimal context, and a
  signaling NaN, make the selection of a variant raise \<open>InvalidOperation\<close> out of the resolver: only
  \<open>BabelImportError\<close> is caught there.\<close>

theorem precision_raises:
  assumes "28 \<le> p"
  shows "resolve (demo_resolver 1000) 0 count_message [u ''n'' \<mapsto> VNumber (IntNumber 1) (u ''1'') (Some p)] None =
    Fatal InvalidOperation"
proof (rule count_raises)
  have "find_plural_rules demo_babel (u ''en'') = Some demo_rules"
    by (simp add: find_plural_rules_def get_babel_locale_def require_locale_code_def py_strip_def is_py_space_def u_def Let_def
        is_structurally_valid_locale_code_def is_ascii_alpha_def is_ascii_digit_def is_ascii_alnum_def
        MAX_LOCALE_LENGTH_HARD_LIMIT_def demo_babel_def)
  moreover have "with_precision 28 4300 (IntNumber 1) p = Inl InvalidOperation"
    using assms by (simp add: with_precision_def to_decimal_def str_int_def dec_digits.simps quantize_def quantizer_exponent_def)
  ultimately have "select_plural_category demo_babel 28 4300 (IntNumber 1) (u ''en'') (Some p) False = Inl InvalidOperation"
    using assms by (simp add: select_plural_category_def demo_babel_def non_finite_def)
  then show "choose_variant (demo_resolver 1000) count_variants (VNumber (IntNumber 1) (u ''1'') (Some p)) (u ''1'') =
      Inl InvalidOperation"
    by (simp add: choose_defs precision_of_def str_int_def dec_digits.simps signed_def)
qed (simp add: format_value_def)

theorem precision_raises_witness:
  "resolve (demo_resolver 1000) 0 count_message [u ''n'' \<mapsto> VNumber (IntNumber 1) (u ''1'') (Some 30)] None =
    Fatal InvalidOperation"
  by (rule precision_raises) simp

theorem signaling_nan_raises:
  "resolve (demo_resolver 1000) 0 count_message [u ''n'' \<mapsto> VDecimal (NotANumber neg True payload)] None =
    Fatal InvalidOperation"
  by (rule count_raises) (simp_all add: format_value_def choose_defs)

end
