(* ===== verification/Selection_Properties.thy ===== *)
theory Selection_Properties
  imports Complex_Main Resolver_Properties
begin

text \<open>
  The selection of a variant against its specification over exact numbers, the text of a
  message without references, and the parameter names of registered functions.
\<close>

section \<open>Decimals as numbers\<close>

definition decimal_value :: "plain_decimal \<Rightarrow> rat" where
  "decimal_value d = (if dec_negative d then - 1 else 1) * of_nat (dec_coefficient d) / 10 ^ dec_scale d"

definition number_rat :: "number_value \<Rightarrow> rat" where
  "number_rat n = (case n of IntValue i \<Rightarrow> of_int i | DecimalValue d \<Rightarrow> decimal_value d)"

lemma decimal_eq_value: "decimal_eq a b \<longleftrightarrow> decimal_value a = decimal_value b"
proof -
  have "decimal_eq a b \<longleftrightarrow>
      (of_int ((if dec_negative a then - 1 else 1) * int (dec_coefficient a) * 10 ^ dec_scale b) :: rat) =
      of_int ((if dec_negative b then - 1 else 1) * int (dec_coefficient b) * 10 ^ dec_scale a)"
    by (simp only: decimal_eq_def of_int_eq_iff)
  then show ?thesis by (simp add: decimal_value_def frac_eq_eq)
qed

text \<open>The value of a runtime number, if it is finite.\<close>

definition finite_value :: "decimal_number \<Rightarrow> rat option" where
  "finite_value d = (case d of Finite neg c x \<Rightarrow> Some (of_int (signed neg c) * 10 powi x) | _ \<Rightarrow> None)"

definition numeric_rat :: "numeric \<Rightarrow> rat option" where
  "numeric_rat n = (case n of IntNumber i \<Rightarrow> Some (of_int i) | DecimalNumber d \<Rightarrow> finite_value d)"

lemma powi_split: "m \<le> x \<Longrightarrow> (10::rat) powi x = 10 ^ nat (x - m) * 10 powi m"
  by (metis add.commute diff_add_cancel nat_0_le diff_ge_0_iff_ge power_int_add power_int_of_nat zero_neq_numeral)

lemma decimal_equal_finite:
  "decimal_equal (Finite s c x) (Finite t d y) =
     Some (finite_value (Finite s c x) = finite_value (Finite t d y))"
proof -
  let ?m = "min x y"
  have "(10::rat) powi x = 10 ^ nat (x - ?m) * 10 powi ?m" "(10::rat) powi y = 10 ^ nat (y - ?m) * 10 powi ?m"
    by (rule powi_split; simp)+
  then have "finite_value (Finite s c x) = finite_value (Finite t d y) \<longleftrightarrow>
      (of_int (signed s c) * 10 ^ nat (x - ?m) :: rat) = of_int (signed t d) * 10 ^ nat (y - ?m)"
    by (simp add: finite_value_def del: min_def)
  also have "\<dots> \<longleftrightarrow> (of_int (signed s c * 10 ^ nat (x - ?m)) :: rat) = of_int (signed t d * 10 ^ nat (y - ?m))"
    by simp
  finally show ?thesis by (simp only: of_int_eq_iff) (simp add: decimal_equal_def is_signaling_def)
qed

lemma literal_value_rat: "finite_value (literal_number d) = Some (decimal_value d)"
  by (simp add: finite_value_def literal_number_def decimal_value_def signed_def power_int_minus field_simps)

lemma decimal_equal_literal:
  "\<not> is_signaling sel \<Longrightarrow> decimal_equal (literal_number k) sel = Some (finite_value sel = Some (decimal_value k))"
  using literal_value_rat [of k] decimal_equal_finite
  by (cases sel) (auto simp: literal_number_def decimal_equal_def is_signaling_def finite_value_def)

lemma literal_numeric: "Option.bind (numeric_of (literal_value v)) numeric_rat = Some (number_rat v)"
  by (cases v) (simp_all add: literal_value_def numeric_of_def numeric_rat_def number_rat_def literal_value_rat)

lemma to_decimal_value: "to_decimal limit n = Inr d \<Longrightarrow> finite_value d = numeric_rat n"
  by (auto simp: to_decimal_def numeric_rat_def finite_value_def signed_def split: numeric.splits sum.splits)

text \<open>The text of a number literal denotes its value.\<close>

lemma ascii_digits_no_dot:
  assumes "list_all is_ascii_digit ds"
  shows "takeWhile (\<lambda>ch. ch \<noteq> CH_DOT) ds = ds" "dropWhile (\<lambda>ch. ch \<noteq> CH_DOT) ds = []"
proof -
  have "ch \<in> set ds \<Longrightarrow> ch \<noteq> CH_DOT" for ch
    using assms by (auto simp: list_all_iff is_ascii_digit_def)
  then show "takeWhile (\<lambda>ch. ch \<noteq> CH_DOT) ds = ds" "dropWhile (\<lambda>ch. ch \<noteq> CH_DOT) ds = []"
    by (auto simp: takeWhile_eq_all_conv dropWhile_eq_Nil_conv)
qed

lemma literal_text_value:
  assumes "number_literal_ok v raw"
  obtains d where "py_decimal raw = Some d" "decimal_value d = number_rat v"
proof (cases v)
  case (IntValue i)
  obtain neg ds where raw: "strip_minus raw = (neg, ds)" by (cases "strip_minus raw")
  with assms IntValue have ds: "ds \<noteq> []" "list_all is_ascii_digit ds"
      "i = (if neg then - int (digits_value ds) else int (digits_value ds))"
    by (auto simp: number_literal_ok_def py_int_def split: if_splits)
  with raw have "py_decimal raw = Some (Decimal neg (digits_value ds) 0)"
    by (simp add: py_decimal_def ascii_digits_no_dot)
  with that show thesis using ds(3) by (simp add: IntValue number_rat_def decimal_value_def)
next
  case (DecimalValue d)
  with assms that show thesis
    by (auto simp: number_literal_ok_def number_rat_def decimal_eq_value split: option.splits)
qed

section \<open>Selection\<close>

text \<open>
  The specification: the first variant with the text of the value or with an equal number,
  else for a number the first variant of its plural category, else the default.
\<close>

definition matches :: "fvalue \<Rightarrow> ustr \<Rightarrow> variant \<Rightarrow> bool" where
  "matches value text w =
     (case variant_key_of w of
        KeyIdentifier i \<Rightarrow> id_name i = text
      | KeyNumber v raw sp \<Rightarrow> Option.bind (numeric_of value) numeric_rat = Some (number_rat v))"

definition names_category :: "ustr \<Rightarrow> variant \<Rightarrow> bool" where
  "names_category category w =
     (case variant_key_of w of KeyIdentifier i \<Rightarrow> id_name i = category | KeyNumber v raw sp \<Rightarrow> False)"

definition plural_category :: "resolver \<Rightarrow> fvalue \<Rightarrow> ustr option" where
  "plural_category R value =
     Option.bind (numeric_of value) (\<lambda>n. case category_of_number R value n of Inl e \<Rightarrow> None | Inr category \<Rightarrow> Some category)"

definition selected :: "resolver \<Rightarrow> variant list \<Rightarrow> fvalue \<Rightarrow> ustr \<Rightarrow> variant option" where
  "selected R vs value text =
     (case find (matches value text) vs of
        Some w \<Rightarrow> Some w
      | None \<Rightarrow>
          (case Option.bind (plural_category R value) (\<lambda>category. find (names_category category) vs) of
             Some w \<Rightarrow> Some w
           | None \<Rightarrow> find variant_default vs))"

text \<open>
  The specification of the exceptions.  A number must have a text; a signaling NaN must not meet
  a number key; and without an exact match the category of a number must not raise, except for
  a missing Babel.
\<close>

definition is_number_key :: "variant \<Rightarrow> bool" where
  "is_number_key w = (case variant_key_of w of KeyIdentifier i \<Rightarrow> False | KeyNumber v raw sp \<Rightarrow> True)"

definition meets_number_key :: "variant list \<Rightarrow> ustr \<Rightarrow> bool" where
  "meets_number_key vs text =
     (case find (\<lambda>w. is_number_key w \<or> names_category text w) vs of None \<Rightarrow> False | Some w \<Rightarrow> is_number_key w)"

definition babel_missing :: "resolver \<Rightarrow> variant list \<Rightarrow> fvalue \<Rightarrow> ustr \<Rightarrow> bool" where
  "babel_missing R vs value text \<longleftrightarrow>
     numeric_of value \<noteq> None \<and> find (matches value text) vs = None \<and> \<not> ps_installed (rv_babel R)"

definition selection_error :: "resolver \<Rightarrow> variant list \<Rightarrow> fvalue \<Rightarrow> ustr \<Rightarrow> fatal_error option" where
  "selection_error R vs value text =
     (case numeric_of value of
        None \<Rightarrow> None
      | Some n \<Rightarrow>
          (case to_decimal (rv_int_digits R) n of
             Inl e \<Rightarrow> Some (PyError e)
           | Inr d \<Rightarrow>
               if signaling_number n \<and> meets_number_key vs text then Some InvalidOperation
               else if find (matches value text) vs \<noteq> None \<or> \<not> ps_installed (rv_babel R) then None
               else (case category_of_number R value n of Inl e \<Rightarrow> Some e | Inr category \<Rightarrow> None)))"

lemma meets_number_key_simps:
  "\<not> meets_number_key [] text"
  "variant_key_of w = KeyIdentifier i \<Longrightarrow> meets_number_key (w # ws) text \<longleftrightarrow> id_name i \<noteq> text \<and> meets_number_key ws text"
  "variant_key_of w = KeyNumber v raw sp \<Longrightarrow> meets_number_key (w # ws) text"
  by (simp_all add: meets_number_key_def is_number_key_def [of w] names_category_def [of _ w])

lemma matches_key:
  "variant_key_of w = KeyIdentifier i \<Longrightarrow> matches value text w \<longleftrightarrow> id_name i = text"
  "variant_key_of w = KeyNumber v raw sp \<Longrightarrow>
     matches value text w \<longleftrightarrow> Option.bind (numeric_of value) numeric_rat = Some (number_rat v)"
  by (simp_all add: matches_def)

lemma scan_exact_find:
  assumes "list_all (\<lambda>w. key_ok k (variant_key_of w)) vs"
    and "Option.bind d finite_value = Option.bind (numeric_of value) numeric_rat"
  shows "scan_exact vs d text =
    (if pred_option is_signaling d \<and> d \<noteq> None \<and> meets_number_key vs text then Inl InvalidOperation
     else Inr (find (matches value text) vs))"
  using assms(1)
proof (induction vs)
  case Nil
  then show ?case by (simp add: meets_number_key_simps)
next
  case (Cons w ws)
  show ?case
  proof (cases "variant_key_of w")
    case (KeyIdentifier i)
    with Cons show ?thesis by (simp add: matches_key meets_number_key_simps)
  next
    case (KeyNumber v raw sp)
    with Cons.prems obtain e where e: "py_decimal raw = Some e" "decimal_value e = number_rat v"
      using literal_text_value by auto
    show ?thesis
    proof (cases "d = None \<or> is_signaling (the d)")
      case True
      then show ?thesis using KeyNumber Cons e assms(2)
        by (cases d) (auto simp: matches_key meets_number_key_simps decimal_equal_def)
    next
      case False
      then obtain sel where sel: "d = Some sel" "\<not> is_signaling sel" by auto
      with assms(2) have "finite_value sel = Option.bind (numeric_of value) numeric_rat" by simp
      with sel KeyNumber Cons e show ?thesis by (auto simp: matches_key decimal_equal_literal)
    qed
  qed
qed

lemma find_plural_find: "find_plural vs category = find (names_category category) vs"
  by (induction vs) (auto simp: names_category_def split: variant_key.split)

lemma find_default_find: "find_default vs = find variant_default vs"
  by (induction vs) auto

lemma default_exists: "length (filter variant_default vs) = 1 \<Longrightarrow> find variant_default vs \<noteq> None"
  by (cases "filter variant_default vs") (auto simp: find_None_iff filter_eq_Cons_iff)

lemma find_exact_find:
  assumes "list_all (\<lambda>w. key_ok k (variant_key_of w)) vs"
  shows "find_exact (rv_int_digits R) vs value text =
    (case numeric_of value of
       None \<Rightarrow> Inr (find (matches value text) vs)
     | Some n \<Rightarrow>
         (case to_decimal (rv_int_digits R) n of
            Inl e \<Rightarrow> Inl (PyError e)
          | Inr d \<Rightarrow>
              if signaling_number n \<and> meets_number_key vs text then Inl InvalidOperation
              else Inr (find (matches value text) vs)))"
proof (cases "numeric_of value")
  case None
  then show ?thesis using scan_exact_find [OF assms, of None "value"] by (simp add: find_exact_def)
next
  case (Some n)
  have sig: "is_signaling d \<longleftrightarrow> signaling_number n" if "to_decimal (rv_int_digits R) n = Inr d" for d
    using that by (auto simp: to_decimal_def signaling_number_def is_signaling_def split: numeric.splits sum.splits)
  show ?thesis
    using Some scan_exact_find [OF assms, of _ "value"] to_decimal_value sig
    by (auto simp: find_exact_def split: sum.split)
qed

lemma category_missing: "category_of_number R value n = Inl BabelImportError \<longleftrightarrow> \<not> ps_installed (rv_babel R)"
proof -
  have r: "apply_rule rules b m \<noteq> Inl BabelImportError" for rules b m by (simp add: apply_rule_def split: sum.split)
  have w: "with_precision prec limit m p \<noteq> Inl BabelImportError" for prec limit m p
    by (auto simp: with_precision_def split: sum.split decimal_number.split option.split)
  show ?thesis
    by (auto simp: category_of_number_def select_plural_category_def r w split: option.split sum.split)
qed

lemma selected_exists:
  "length (filter variant_default vs) = 1 \<Longrightarrow> \<exists>w \<in> set vs. selected R vs value text = Some w"
  using default_exists [of vs]
  by (auto simp: selected_def bind_eq_Some_conv split: option.split)
    (auto simp: find_Some_iff in_set_conv_nth split: option.splits)

text \<open>C26: on a select expression with well-formed keys and one default, the resolver takes the variant
  of the specification, with numbers compared by value whatever their notation, and there is
  always one; the exceptions that leave the selection are exactly those of the specification, and
  the missing plural support is reported exactly when a number without an exact match would
  have needed it.\<close>

theorem selection_correct:
  assumes "list_all (\<lambda>w. key_ok k (variant_key_of w)) vs" "length (filter variant_default vs) = 1"
  shows "choose_variant R vs value text =
      (case selection_error R vs value text of
         Some e \<Rightarrow> Inl e
       | None \<Rightarrow> Inr (selected R vs value text, babel_missing R vs value text)) \<and>
    (\<exists>w \<in> set vs. selected R vs value text = Some w)"
proof
  obtain w where w: "find variant_default vs = Some w" using default_exists [OF assms(2)] by blast
  then have fb: "fallback_variant vs = find variant_default vs" by (simp add: fallback_variant_def find_default_find)
  show "choose_variant R vs value text =
      (case selection_error R vs value text of
         Some e \<Rightarrow> Inl e
       | None \<Rightarrow> Inr (selected R vs value text, babel_missing R vs value text))"
  proof (cases "numeric_of value")
    case None
    then show ?thesis
      by (simp add: choose_variant_def find_exact_find [OF assms(1)] selection_error_def selected_def plural_category_def
          babel_missing_def fb split: option.split)
  next
    case (Some n)
    show ?thesis
    proof (cases "category_of_number R value n")
      case (Inl e)
      then show ?thesis using Some category_missing [of R "value" n]
        by (cases e) (auto simp: choose_variant_def find_exact_find [OF assms(1)] selection_error_def selected_def
            plural_category_def babel_missing_def fb category_of_number_def split: option.split sum.split)
    next
      case (Inr category)
      then show ?thesis using Some category_missing [of R "value" n]
        by (auto simp: choose_variant_def find_exact_find [OF assms(1)] selection_error_def selected_def
            plural_category_def babel_missing_def fb category_of_number_def find_plural_find split: option.split sum.split)
    qed
  qed
qed (rule selected_exists [OF assms(2)])

section \<open>The operand of the plural rules\<close>

lemma half_even_near: "2 * \<bar>int c - int (half_even c k) * 10 ^ k\<bar> \<le> 10 ^ k"
proof -
  let ?t = "10 ^ k :: int" and ?r = "int (c mod 10 ^ k)"
  have c: "int c = int (c div 10 ^ k) * ?t + ?r"
    using arg_cong [OF div_mult_mod_eq [of c "10 ^ k"], of int] by simp
  have r: "0 \<le> ?r" "?r < ?t" by simp_all
  show ?thesis
  proof (cases "half_even c k = c div 10 ^ k")
    case True
    then have "2 * (c mod 10 ^ k) \<le> 10 ^ k" by (auto simp: half_even_def Let_def split: if_splits)
    then have "2 * ?r \<le> ?t" by (metis of_nat_le_iff of_nat_mult of_nat_numeral of_nat_power)
    then show ?thesis using c r True by simp
  next
    case False
    then have h: "half_even c k = c div 10 ^ k + 1" "10 ^ k \<le> 2 * (c mod 10 ^ k)"
      by (auto simp: half_even_def Let_def split: if_splits)
    from h(2) have "?t \<le> 2 * ?r" by (metis of_nat_le_iff of_nat_mult of_nat_numeral of_nat_power)
    moreover have "int c - int (half_even c k) * ?t = ?r - ?t" using c h(1) by (simp add: algebra_simps)
    ultimately show ?thesis using r by simp
  qed
qed

lemma rescaled_near:
  assumes "x \<le> y"
  shows "2 * \<bar>of_nat c * (10::rat) powi x - of_nat (half_even c (nat (y - x))) * 10 powi y\<bar> \<le> 10 powi y"
proof -
  let ?k = "nat (y - x)" let ?h = "half_even c ?k"
  have y: "(10::rat) powi y = 10 ^ ?k * 10 powi x" by (rule powi_split [OF assms])
  have pos: "0 < (10::rat) powi x" by simp
  have "of_nat c * (10::rat) powi x - of_nat ?h * 10 powi y = of_int (int c - int ?h * 10 ^ ?k) * 10 powi x"
    by (simp add: y algebra_simps)
  then have "2 * \<bar>of_nat c * (10::rat) powi x - of_nat ?h * 10 powi y\<bar> = of_int (2 * \<bar>int c - int ?h * 10 ^ ?k\<bar>) * 10 powi x"
    using pos by (simp add: abs_mult)
  also have "\<dots> \<le> of_int (10 ^ ?k) * 10 powi x"
    using half_even_near [of c ?k] pos by (intro mult_right_mono) (simp_all only: of_int_le_iff less_imp_le)
  finally show ?thesis by (simp add: y)
qed

text \<open>The number that a plural rule sees for a precision has that many fraction digits, up to the least
  exponent of the decimal context, fits the context, and differs from the value by at most
  half a unit of its last place; a number that is not rounded is the value itself.\<close>

theorem plural_operand_rounded:
  assumes "with_precision prec limit n p = Inr q" "0 < prec"
  shows "\<exists>neg c a b. q = Finite neg c (quantizer_exponent prec p) \<and> length (dec_digits c) \<le> prec \<and>
    numeric_rat n = Some a \<and> finite_value q = Some b \<and> 2 * \<bar>a - b\<bar> \<le> 10 powi (quantizer_exponent prec p)"
proof -
  let ?y = "quantizer_exponent prec p"
  obtain neg c x where d: "to_decimal limit n = Inr (Finite neg c x)" "quantize prec neg c x ?y = Some q"
    using assms(1) by (auto simp: with_precision_def split: sum.splits decimal_number.splits option.splits)
  have a: "numeric_rat n = Some (of_int (signed neg c) * 10 powi x)"
    using to_decimal_value [OF d(1)] by (simp add: finite_value_def)
  obtain r where r: "q = Finite neg r ?y" "length (dec_digits r) \<le> prec"
      "2 * \<bar>of_nat c * (10::rat) powi x - of_nat r * 10 powi ?y\<bar> \<le> 10 powi ?y"
  proof (cases "c = 0")
    case True
    then show thesis using d(2) assms(2) that [of 0] by (simp add: quantize_def dec_digits.simps)
  next
    case False
    show thesis
    proof (cases "?y \<le> x")
      case True
      have "of_nat c * (10::rat) powi x = of_nat (c * 10 ^ nat (x - ?y)) * 10 powi ?y"
        by (simp add: powi_split [OF True])
      then show thesis using False True d(2) that [of "c * 10 ^ nat (x - ?y)"]
        by (simp add: quantize_def Let_def split: if_splits)
    next
      case less: False
      then show thesis using False d(2) that [of "half_even c (nat (?y - x))"] rescaled_near [of x ?y c]
        by (simp add: quantize_def Let_def split: if_splits)
    qed
  qed
  have "\<bar>of_int (signed neg c) * 10 powi x - of_int (signed neg r) * 10 powi ?y\<bar> =
      \<bar>of_nat c * (10::rat) powi x - of_nat r * 10 powi ?y\<bar>"
    by (auto simp: signed_def abs_minus_commute)
  with a r show ?thesis by (auto simp: finite_value_def)
qed

theorem plural_operand_rounded_witness:
  "\<exists>a b. numeric_rat (DecimalNumber (Finite False 15 (- 1))) = Some a \<and> finite_value (Finite False 2 0) = Some b \<and> 2 * \<bar>a - b\<bar> \<le> 1"
proof -
  have "quantize 28 False 15 (- 1) 0 = Some (Finite False 2 0)"
    by (simp add: quantize_def half_even_def dec_digits.simps)
  then have "with_precision 28 4300 (DecimalNumber (Finite False 15 (- 1))) 0 = Inr (Finite False 2 0)"
    by (simp add: with_precision_def to_decimal_def quantizer_exponent_def)
  from plural_operand_rounded [OF this] show ?thesis by (auto simp: quantizer_exponent_def)
qed

section \<open>An example\<close>

text \<open>\<open>[1.0] A  [one] B  *[other] C\<close> with the integer \<open>1\<close>.\<close>

definition key_variant :: "string \<Rightarrow> string \<Rightarrow> bool \<Rightarrow> variant" where
  "key_variant k t d = Variant (KeyIdentifier (id_of k)) (Pattern [TextElement (u t) None] None) d None"

definition demo_variants :: "variant list" where
  "demo_variants =
     [Variant (KeyNumber (DecimalValue (Decimal False 10 1)) (u ''1.0'') None)
        (Pattern [TextElement (u ''A'') None] None) False None,
      key_variant ''one'' ''B'' False, key_variant ''other'' ''C'' True]"

lemma demo_variants_wf:
  "list_all (\<lambda>w. key_ok 0 (variant_key_of w)) demo_variants" "length (filter variant_default demo_variants) = 1"
  by code_simp+

theorem selection_correct_witness:
  "choose_variant (demo_resolver 9) demo_variants (VInt 1) (u ''1'') = Inr (Some (hd demo_variants), False)"
proof -
  have "finite_value (Finite False 1 0) = Some 1" "number_rat (DecimalValue (Decimal False 10 1)) = 1"
    by (simp_all add: finite_value_def signed_def number_rat_def decimal_value_def)
  then have "selection_error (demo_resolver 9) demo_variants (VInt 1) (u ''1'') = None"
    "selected (demo_resolver 9) demo_variants (VInt 1) (u ''1'') = Some (hd demo_variants)"
    "\<not> babel_missing (demo_resolver 9) demo_variants (VInt 1) (u ''1'')"
    by (simp_all add: selection_error_def selected_def babel_missing_def demo_variants_def matches_def numeric_of_def
        to_decimal_def str_int_def dec_digits.simps [of "Suc 0"] demo_resolver_def mk_resolver_def numeric_rat_def
        signaling_number_def)
  then show ?thesis
    using selection_correct [OF demo_variants_wf, of "demo_resolver 9" "VInt 1" "u ''1''"] by simp
qed

section \<open>The text of a plain message\<close>

text \<open>
  Elements that refer to nothing but text arguments: their text, and whether it comes from a
  placeable, which the resolver may isolate.
\<close>

fun plain_part :: "fargs \<Rightarrow> pattern_element \<Rightarrow> (ustr \<times> bool) option" where
  "plain_part args (TextElement t sp) = Some (t, False)"
| "plain_part args (PlaceableElement (Placeable (StringLiteral s sp) psp)) = Some (s, True)"
| "plain_part args (PlaceableElement (Placeable (VariableReference i sp) psp)) =
     (case args (id_name i) of Some (VStr s) \<Rightarrow> Some (s, True) | _ \<Rightarrow> None)"
| "plain_part args (PlaceableElement p) = None"

definition render :: "resolver \<Rightarrow> ustr \<times> bool \<Rightarrow> ustr" where
  "render R part =
     (if snd part \<and> rv_use_isolating R then [FSI] @ fst part @ [PDI] else fst part)"

definition plain_length :: "(ustr \<times> bool) list \<Rightarrow> int" where
  "plain_length parts = (\<Sum>part\<leftarrow>parts. int (length (fst part)))"

lemma plain_length_simps [simp]:
  "plain_length [] = 0" "plain_length (part # parts) = int (length (fst part)) + plain_length parts"
  by (simp_all add: plain_length_def)

lemma plain_length_nonneg: "0 \<le> plain_length parts"
  by (induction parts) auto

lemma plain_part_cases:
  assumes "plain_part args el = Some part"
  obtains t sp where "el = TextElement t sp" "part = (t, False)"
  | e psp t where "el = PlaceableElement (Placeable e psp)" "part = (t, True)"
      "\<And>R rp s. resolve_expression R rp e args s = (Value (VStr t), s)"
  using assms
  by (cases "(args, el)" rule: plain_part.cases) (auto simp: rret_def split: option.splits fvalue.splits)

lemma plain_element:
  assumes "plain_part args el = Some part" "rs_depth s < rs_max_expression_depth s"
    and "rs_chars s + int (length (fst part)) \<le> rs_max_expansion s"
  shows "resolve_elements R rp (el # es) args s =
    rbind (resolve_elements R rp es args) (\<lambda>texts. rret (render R part # texts))
      (s\<lparr>rs_chars := rs_chars s + int (length (fst part))\<rparr>)"
  using assms(1)
proof (cases rule: plain_part_cases)
  case (1 t sp)
  with assms(3) show ?thesis
    by (simp add: then_rest_def text_part_def track_expansion_def over_budget_def with_state_def
        rbind_def rret_def render_def)
next
  case (2 e psp t)
  with assms(2,3) have "placeable_part R e (resolve_expression R rp e args) s =
      (Value (Some (render R part)), s\<lparr>rs_chars := rs_chars s + int (length t)\<rparr>)"
    by (simp add: placeable_part_def emit_placeable_def expression_guarded_def lift_format_def
        format_value_def render_def track_expansion_def over_budget_def with_state_def rbind_def rret_def rcatch_def)
  with 2 show ?thesis by (simp add: then_rest_def rbind_def)
qed

lemma plain_elements:
  assumes "map (plain_part args) es = map Some parts" "rs_depth s < rs_max_expression_depth s"
    and "rs_chars s + plain_length parts \<le> rs_max_expansion s"
  shows "resolve_elements R rp es args s =
    (Value (map (render R) parts), s\<lparr>rs_chars := rs_chars s + plain_length parts\<rparr>)"
  using assms
proof (induction es arbitrary: parts s)
  case (Cons el es)
  then obtain part rest where parts: "parts = part # rest" "plain_part args el = Some part"
      "map (plain_part args) es = map Some rest"
    by (cases parts) auto
  with Cons.prems plain_length_nonneg [of rest] show ?case
    by (simp add: plain_element Cons.IH [OF parts(3)] rbind_def rret_def add.assoc)
qed (simp add: rret_def)

text \<open>C27: a message of text, string literals and text arguments resolves, without an error, to
  their concatenation, the interpolated parts between isolation marks if asked for, as long as
  the budget allows.\<close>

theorem plain_message_text:
  assumes "select_pattern m attribute = Inr (key, Pattern es sp)"
    and "map (plain_part args) es = map Some parts"
    and "plain_length parts \<le> rv_max_expansion_size R"
    and "0 \<le> g" "g < depth_clamp (rv_recursion_limit R) (rv_max_nesting_depth R)"
  shows "resolve R g m args attribute = Value (concat (map (render R) parts), [])"
proof -
  let ?d = "rv_max_nesting_depth R"
  have d: "0 < ?d" "0 < depth_clamp (rv_recursion_limit R) ?d"
    using assms(4,5) by (auto simp: depth_clamp_def Let_def split: if_splits)
  then obtain n where n: "nat ?d = Suc n" by (cases "nat ?d") auto
  have nn: "\<not> rv_max_expansion_size R < 0" using assms(3) plain_length_nonneg [of parts] by simp
  show ?thesis
    using assms(1,5) d nn
      plain_elements [OF assms(2), of "\<lparr>rs_stack = [key], rs_seen = {key}, rs_max_depth = ?d,
        rs_max_expression_depth = depth_clamp (rv_recursion_limit R) ?d,
        rs_max_expansion = rv_max_expansion_size R, rs_chars = 0, rs_depth = 0, rs_errors = [],
        rs_global = g + 1\<rparr>" R "resolve_pattern_at R n"] assms(3)
    by (simp add: resolve_def resolve_message_in_def with_state_def fresh_context_def mk_context_def
        context_depth_def n resolve_message_def own_errors_def contains_def is_depth_exceeded_def
        globally_guarded_def Let_def rbind_def push_def rfinally_def rcatch_def pop_def rret_def over_budget_def)
qed

theorem plain_message_text_witness:
  "resolve (demo_resolver 1000) 0 hello_message [u ''name'' \<mapsto> VStr (u ''Bob'')] None = Value (u ''Hi Bob'', [])"
proof -
  have "resolve (demo_resolver 1000) 0 hello_message [u ''name'' \<mapsto> VStr (u ''Bob'')] None =
      Value (concat (map (render (demo_resolver 1000)) [(u ''Hi '', False), (u ''Bob'', True)]), [])"
    by (rule plain_message_text [where key = "u ''hello''" and es = "pattern_elements (the (fst (snd hello_message)))"
        and sp = None])
      (simp_all add: select_pattern_def demo_defs plain_length_def u_def depth_clamp_def)
  then show ?thesis by (simp add: render_def demo_resolver_def mk_resolver_def u_def)
qed

section \<open>The parameters of a registered function\<close>

definition fluent_name :: "ustr \<Rightarrow> ustr" where
  "fluent_name p = to_camel_case (dropWhile (\<lambda>ch. ch = CH_UNDERSCORE) p)"

definition bindable :: "ustr \<Rightarrow> bool" where
  "bindable p \<longleftrightarrow> p \<noteq> u ''self'' \<and> p \<noteq> u ''/'' \<and> p \<noteq> u ''*''"

lemma build_auto_map_Cons:
  "build_auto_map ((p, kind) # ps) m =
     (if bindable p \<and> od_get m (fluent_name p) \<notin> {None, Some p} then Inl ValueError
      else build_auto_map ps (if bindable p then od_set (fluent_name p) p m else m))"
  by (auto simp: bindable_def fluent_name_def Let_def split: option.split)

lemma build_auto_map_extends:
  "build_auto_map ps m = Inr m' \<Longrightarrow> od_get m c = Some p \<Longrightarrow> od_get m' c = Some p"
proof (induction ps arbitrary: m)
  case (Cons q ps)
  obtain x kind where q: "q = (x, kind)" by (cases q)
  let ?m = "if bindable x then od_set (fluent_name x) x m else m"
  have "build_auto_map ps ?m = Inr m'" "od_get ?m c = Some p"
    using Cons.prems by (auto simp: q build_auto_map_Cons od_get_set simp del: build_auto_map.simps split: if_splits)
  then show ?case by (rule Cons.IH)
qed simp

lemma build_auto_map_binds:
  "build_auto_map ps m = Inr m' \<Longrightarrow> p \<in> fst ` set ps \<Longrightarrow> bindable p \<Longrightarrow> od_get m' (fluent_name p) = Some p"
proof (induction ps arbitrary: m)
  case (Cons q ps)
  obtain x kind where q: "q = (x, kind)" by (cases q)
  let ?m = "if bindable x then od_set (fluent_name x) x m else m"
  have run: "build_auto_map ps ?m = Inr m'"
    using Cons.prems(1) by (simp add: q build_auto_map_Cons del: build_auto_map.simps split: if_splits)
  show ?case
  proof (cases "p = x")
    case True
    with Cons.prems(3) build_auto_map_extends [OF run] show ?thesis by (simp add: od_get_set)
  next
    case False
    with Cons.IH [OF run] Cons.prems q show ?thesis by auto
  qed
qed simp

lemma build_auto_map_valid: "build_auto_map ps m = Inr m' \<Longrightarrow> od_valid m \<Longrightarrow> od_valid m'"
proof (induction ps arbitrary: m)
  case (Cons q ps)
  then show ?case
    by (cases q)
      (auto simp: build_auto_map_Cons od_valid_def od_keys_set simp del: build_auto_map.simps split: if_splits)
qed simp

lemma map_of_sort_key: "od_valid m \<Longrightarrow> map_of (sort_key fst m) c = od_get m c"
proof -
  assume m: "od_valid m"
  have "distinct (map fst (sort_key fst m))"
    using m by (simp add: od_valid_def od_keys_def distinct_map inj_on_def)
  with m show ?thesis
    by (intro option.expand) (auto simp: od_get_def od_valid_def od_keys_def map_of_eq_None_iff map_of_eq_Some_iff)
qed

lemma od_set_new: "k \<notin> set (od_keys d) \<Longrightarrow> od_set k v d = d @ [(k, v)]"
  by (induction d) (auto simp: od_keys_def od_set_def)

lemma rename_keywords:
  assumes "\<forall>p\<in>set (map fst kws). look (fluent_name p) = p" "distinct (od_keys acc @ map fst kws)"
  shows "fold (\<lambda>(c, v). od_set (look c) v) (map (\<lambda>(p, v). (fluent_name p, v)) kws) acc = acc @ kws"
  using assms
proof (induction kws arbitrary: acc)
  case (Cons kw kws)
  then show ?case by (cases kw) (auto simp: od_set_new od_keys_def)
qed simp

text \<open>A function registered under a name is called with each named argument under the
  parameter that its Fluent name stands for; its \<open>TypeError\<close> and \<open>ValueError\<close> become an error
  of the call, and every other function is called as without the registration.\<close>

theorem registered_call:
  assumes "register f (Some name) [] r = Inr r'" "pf_params f = Some ps"
    and "set (map fst kws) \<subseteq> {p \<in> fst ` set ps. bindable p}" "distinct (map fst kws)"
  shows "registry_call r' name positional (map (\<lambda>(p, v). (fluent_name p, v)) kws) g =
      (case pf_call f g positional kws of
         RaisedValueOrType text \<Rightarrow> RaisedFluent (FunctionFailed name text)
       | outcome \<Rightarrow> outcome) \<and>
    (\<forall>other. other \<noteq> name \<longrightarrow> registry_call r' other = registry_call r other)"
proof -
  obtain m sig where m: "build_auto_map ps [] = Inr m" and r': "r' = r\<lparr>fr_functions := od_set name sig (fr_functions r)\<rparr>"
      and sig: "fs_param_mapping sig = sort_key fst m" "fs_callable sig = f"
    using assms(1,2)
    by (auto simp: register_def build_function_signature_def Let_def split: if_splits sum.splits)
  have "od_valid m" using build_auto_map_valid [OF m] by (simp add: od_valid_def od_keys_def)
  then have "\<forall>p\<in>set (map fst kws). map_of (fs_param_mapping sig) (fluent_name p) = Some p"
    using assms(3) build_auto_map_binds [OF m] by (auto simp: sig map_of_sort_key)
  then have "python_kwargs sig (map (\<lambda>(p, v). (fluent_name p, v)) kws) = kws"
    using rename_keywords [of kws "\<lambda>c. case map_of (fs_param_mapping sig) c of Some p \<Rightarrow> p | None \<Rightarrow> c" "[]"] assms(4)
    by (simp add: python_kwargs_def od_keys_def)
  then show ?thesis
    by (auto simp: registry_call_def r' od_get_set call_registered_function_def sig fun_eq_iff)
qed

text \<open>\<open>def money(value, *, use_grouping)\<close>, registered as \<open>MONEY\<close> and called as
  \<open>MONEY(x, useGrouping: 1)\<close>.\<close>

definition money :: python_function where
  "money = \<lparr>pf_name = Some (u ''money''),
     pf_params = Some [(u ''value'', POSITIONAL_OR_KEYWORD), (u ''use_grouping'', KEYWORD_ONLY)],
     pf_requires_locale = False, pf_call = (\<lambda>g ps kws. Returned (VInt (int (length kws))))\<rparr>"

definition money_registry :: function_registry where
  "money_registry =
     (case register money (Some (u ''MONEY'')) [] empty_registry of Inl e \<Rightarrow> empty_registry | Inr r \<Rightarrow> r)"

lemma money_registered: "register money (Some (u ''MONEY'')) [] empty_registry = Inr money_registry"
proof -
  have "\<not> isl (register money (Some (u ''MONEY'')) [] empty_registry)" by code_simp
  then show ?thesis by (auto simp: money_registry_def split: sum.split)
qed

theorem registered_call_witness:
  "registry_call money_registry (u ''MONEY'') [VInt 3] [(u ''useGrouping'', VInt 1)] 0 = Returned (VInt 1)"
proof -
  have "registry_call money_registry (u ''MONEY'') [VInt 3]
      (map (\<lambda>(p, v). (fluent_name p, v)) [(u ''use_grouping'', VInt 1)]) 0 = Returned (VInt 1)"
    using registered_call [OF money_registered, of _ "[(u ''use_grouping'', VInt 1)]" "[VInt 3]" 0]
    by (simp add: money_def bindable_def u_def)
  moreover have "fluent_name (u ''use_grouping'') = u ''useGrouping''" by code_simp
  ultimately show ?thesis by simp
qed

end
