(* ===== verification/Graph_Properties.thy ===== *)
theory Graph_Properties
  imports Reference_Extraction Selection_Properties
begin

text \<open>
  What the searches over the dependency graph find, what the extraction of references collects,
  and how the warning about long chains relates to the depth limit of the resolver.
\<close>

section \<open>Cycles\<close>

text \<open>C28: the search for cycles always returns; what it reports are elementary cycles of the
  graph, no two of them rotations of each other, and at most as many as its limit.\<close>

theorem detect_cycles_sound:
  "\<exists>cycles. detect_cycles g max_cycles max_stack = Some cycles \<and> list_all (is_cycle g) cycles \<and>
     distinct (map canonicalize_cycle cycles) \<and> length cycles \<le> max_cycles"
  using detect_cycles_returns [of g max_cycles max_stack] by (auto simp: detect_cycles_def cycles_ok_def list_all_iff)

text \<open>C29: a search that reports fewer cycles than its limit, on a graph whose nodes and edges fit
  the work stack, has found every elementary cycle of the graph, up to rotation.\<close>

theorem detect_cycles_complete:
  assumes "detect_cycles g max_cycles max_stack = Some cycles" "length cycles < max_cycles"
    and "card (universe g) + degree g < max_stack" "is_cycle g c"
  shows "canonicalize_cycle c \<in> canonicalize_cycle ` set cycles"
proof -
  obtain d where d: "detect_from g max_cycles max_stack (od_keys g) empty_dfs = Some d" "df_cycles d = cycles"
    using assms(1) by (auto simp: detect_cycles_def)
  with detect_cycles_all [OF d(1)] assms(2-4) detect_cycles_returns [of g max_cycles max_stack] show ?thesis
    by (auto simp: cycles_ok_def)
qed

text \<open>Two messages that refer to each other, one of them also to itself.\<close>

definition demo_graph :: graph where
  "demo_graph = [(u ''a'', [u ''b'']), (u ''b'', [u ''a'', u ''b''])]"

lemma demo_graph_run: "detect_cycles demo_graph 5 20 = Some [[u ''a'', u ''b'', u ''a''], [u ''b'', u ''b'']]"
  by (simp add: detect_cycles_def demo_graph_def od_keys_def empty_dfs_def start_dfs_def dfs_loop.simps dfs_step_def
      visit_entering_node_def neighbors_def od_get_def append_cycle_def queue_neighbor_def finish_node_def
      list_index_def canonicalize_cycle_def Let_def u_def)

lemma demo_graph_size: "card (universe demo_graph) + degree demo_graph < 20"
proof -
  have "universe demo_graph = {u ''a'', u ''b''}"
    by (auto simp: universe_def demo_graph_def od_keys_def)
  then show ?thesis by (simp add: degree_def demo_graph_def neighbors_def od_get_def u_def)
qed

theorem detect_cycles_complete_witness:
  "canonicalize_cycle [u ''b'', u ''a'', u ''b''] \<in> canonicalize_cycle ` set [[u ''a'', u ''b'', u ''a''], [u ''b'', u ''b'']]"
proof (rule detect_cycles_complete [OF demo_graph_run _ demo_graph_size])
  have "walk demo_graph [u ''b'', u ''a'', u ''b'']"
    by (simp add: edge_def demo_graph_def neighbors_def od_get_def u_def)
  then show "is_cycle demo_graph [u ''b'', u ''a'', u ''b'']"
    unfolding is_cycle_def by (intro exI [of _ "u ''b''"] exI [of _ "[u ''a'']"]) (simp add: u_def)
qed simp

section \<open>Long chains\<close>

lemma table_entry: "distinct (od_keys t) \<Longrightarrow> (n, e) \<in> set t \<longleftrightarrow> od_get t n = Some e"
  by (simp add: od_keys_def od_get_def)

lemma exceeding_chains_empty:
  assumes "table_sound g t" "distinct (od_keys t)"
  shows "exceeding_chains k t = [] \<longleftrightarrow> (\<forall>n d p. od_get t n = Some (d, p) \<longrightarrow> int d \<le> k)"
proof -
  have "exceeding_chains k t = [] \<longleftrightarrow> (\<forall>n d p. (n, d, p) \<in> set t \<longrightarrow> \<not> (k < int d \<and> p \<noteq> [] \<and> hd p = n))"
    by (auto simp: exceeding_chains_def filter_empty_conv)
  moreover have "p \<noteq> [] \<and> hd p = n" if "od_get t n = Some (d, p)" for n d p
    using assms(1) that unfolding table_sound_def by blast
  ultimately show ?thesis unfolding table_entry [OF assms(2)] by (meson not_less)
qed

text \<open>On an acyclic graph the validator warns about long chains exactly when some walk has
  more edges than the limit.\<close>

theorem long_chains_reported:
  assumes "acyclicP (edge g)" "0 \<le> k"
  shows "\<exists>ws. detect_long_chains g k = Some ws \<and> (ws = [] \<longleftrightarrow> (\<forall>n w. walk g (n # w) \<longrightarrow> int (length w) \<le> k))"
proof -
  obtain t where t: "compute_longest_paths g = Some t" "table_sound g t" "set (od_keys g) \<subseteq> set (od_keys t)"
      "distinct (od_keys t)" "table_max g t"
    using compute_longest_paths_returns assms(1) by blast
  have walks: "(\<forall>n d p. od_get t n = Some (d, p) \<longrightarrow> int d \<le> k) \<longleftrightarrow> (\<forall>n w. walk g (n # w) \<longrightarrow> int (length w) \<le> k)"
  proof (intro iffI allI impI)
    fix n w assume short: "\<forall>n d p. od_get t n = Some (d, p) \<longrightarrow> int d \<le> k" and w: "walk g (n # w)"
    show "int (length w) \<le> k"
    proof (cases w)
      case (Cons m ms)
      with w have "n \<in> set (od_keys t)" using edge_universe(1) [of g n m] t(3) by auto
      then have "od_get t n \<noteq> None" by (simp only: od_get_Some_key)
      then obtain d p where "od_get t n = Some (d, p)" by auto
      with short w t(5) show ?thesis unfolding table_max_def by fastforce
    qed (simp add: assms(2))
  next
    fix n d p assume long: "\<forall>n w. walk g (n # w) \<longrightarrow> int (length w) \<le> k" and e: "od_get t n = Some (d, p)"
    from e t(2) have "walk g p" "p \<noteq> []" "length p = Suc d" unfolding table_sound_def by blast+
    with long show "int d \<le> k" by (cases p) auto
  qed
  show ?thesis
  proof (cases "g = []")
    case True
    then have "edge g n m = False" for n m by (simp add: edge_def neighbors_def od_get_def)
    then have "walk g (n # w) \<Longrightarrow> w = []" for n w by (cases w) auto
    with True assms(2) show ?thesis by (force simp: detect_long_chains_def)
  next
    case False
    let ?ws = "map (chain_warning k) (sort_key (\<lambda>chain. - int (fst chain)) (exceeding_chains k t))"
    have "detect_long_chains g k = Some ?ws" using False t(1) by (simp add: detect_long_chains_def)
    moreover have "?ws = [] \<longleftrightarrow> exceeding_chains k t = []" by (metis length_0_conv length_map length_sort)
    ultimately show ?thesis using exceeding_chains_empty [OF t(2,4), of k] walks by blast
  qed
qed

lemma long_chains_reported_graph: "acyclicP (edge [(u ''a'', [u ''b''])])"
proof -
  have "{(x, y). edge [(u ''a'', [u ''b''])] x y} = {(u ''a'', u ''b'')}"
    by (auto simp: edge_def neighbors_def od_get_def split: if_splits)
  then show ?thesis by (simp add: u_def acyclic_insert wf_acyclic)
qed

theorem long_chains_reported_witness:
  "\<exists>w ws. detect_long_chains [(u ''a'', [u ''b''])] 0 = Some (w # ws)"
proof -
  have "walk [(u ''a'', [u ''b''])] (u ''a'' # [u ''b''])" by (simp add: edge_def neighbors_def od_get_def)
  moreover obtain ws where ws: "detect_long_chains [(u ''a'', [u ''b''])] 0 = Some ws"
      "ws = [] \<longleftrightarrow> (\<forall>n w. walk [(u ''a'', [u ''b''])] (n # w) \<longrightarrow> int (length w) \<le> 0)"
    using long_chains_reported [OF long_chains_reported_graph, of 0] by auto
  ultimately have "ws \<noteq> []" by fastforce
  with ws(1) show ?thesis by (cases ws) auto
qed

section \<open>The limit of the validator and the limit of the resolver\<close>

text \<open>The messages \<open>a = { b }\<close>, \<open>b = { c }\<close> and \<open>c = x\<close>.\<close>

definition chain_message :: "string \<Rightarrow> pattern_element \<Rightarrow> message_data" where
  "chain_message name el = (id_of name, Some (Pattern [el] None), [])"

definition chain_messages :: "(string \<times> pattern_element) list" where
  "chain_messages = [(''a'', message_ref ''b''), (''b'', message_ref ''c''), (''c'', TextElement (u ''x'') None)]"

definition chain_resolver :: "int \<Rightarrow> resolver" where
  "chain_resolver max_depth =
     mk_resolver (u ''en'') (map_of (map (\<lambda>(k, el). (u k, chain_message k el)) chain_messages)) Map.empty
       empty_registry False max_depth 1000 1000 4300 28 demo_babel"

definition chain_graph :: "set_graph option" where
  "chain_graph = build_dependency_graph 100 sorted_list_of_set
     (map (\<lambda>(k, el). (u k, (Some (Pattern [el] None), []))) chain_messages) [] None None None None"

lemma chain_graph_eq:
  "chain_graph = Some [(u ''msg:a'', {u ''msg:b''}), (u ''msg:b'', {u ''msg:c''}), (u ''msg:c'', {})]"
  by (simp add: chain_graph_def build_dependency_graph_def chain_messages_def Let_def entry_deps_def
    extract_references_by_attribute_def join_refs_def guarded_def visit_span_def ref_name_def message_ref_def id_of_def
    resolve_reference_def od_keys_def od_set_def node_key_def add_known_entries_def u_def)

lemma chain_run:
  "resolve (chain_resolver 2) 0 (chain_message ''a'' (message_ref ''b'')) Map.empty None =
    Value (u ''{c}'', [MaxDepthExceeded (u ''c'') 2])"
  by (simp add: resolve_def run_defs chain_resolver_def chain_message_def chain_messages_def extend_errors_def error_text_def fallback_message_def)

lemma chain_not_warned: "detect_long_chains (iterated sorted_list_of_set (the chain_graph)) 2 = Some []"
  by (simp add: chain_graph_eq detect_long_chains_def compute_longest_paths_def iterated_def od_keys_def empty_lp_def
      lp_loop.simps lp_step_def neighbors_def od_get_def od_set_def best_child_def exceeding_chains_def u_def)

text \<open>A chain of references that the depth limit cuts at run time passes the validator without
  a warning: with a limit of two, the chain of three messages has two references, which the
  validator allows, and the resolver refuses to enter the third message.\<close>

theorem chain_at_limit_not_warned:
  "resolve (chain_resolver 2) 0 (chain_message ''a'' (message_ref ''b'')) Map.empty None =
     Value (u ''{c}'', [MaxDepthExceeded (u ''c'') 2]) \<and>
   map_option (\<lambda>g. detect_long_chains (iterated sorted_list_of_set g) 2) chain_graph = Some (Some [])"
  using chain_run chain_not_warned by (simp add: chain_graph_eq)

section \<open>Extraction\<close>

text \<open>All expressions in a pattern.\<close>

fun expressions_of :: "expression \<Rightarrow> expression set"
and args_expressions :: "call_arguments \<Rightarrow> expression set"
and named_expressions :: "named_argument \<Rightarrow> expression set"
and variant_expressions :: "variant \<Rightarrow> expression set"
and pattern_expressions :: "pattern \<Rightarrow> expression set"
and element_expressions :: "pattern_element \<Rightarrow> expression set"
and placeable_expressions :: "placeable \<Rightarrow> expression set" where
  "expressions_of (StringLiteral s sp) = {StringLiteral s sp}"
| "expressions_of (NumberLiteral v raw sp) = {NumberLiteral v raw sp}"
| "expressions_of (VariableReference i sp) = {VariableReference i sp}"
| "expressions_of (MessageReference i a sp) = {MessageReference i a sp}"
| "expressions_of (TermReference i a None sp) = {TermReference i a None sp}"
| "expressions_of (TermReference i a (Some args) sp) = insert (TermReference i a (Some args) sp) (args_expressions args)"
| "expressions_of (FunctionReference i args sp) = insert (FunctionReference i args sp) (args_expressions args)"
| "expressions_of (NestedPlaceable p) = insert (NestedPlaceable p) (placeable_expressions p)"
| "expressions_of (SelectExpression sel vs sp) =
     insert (SelectExpression sel vs sp) (expressions_of sel \<union> (\<Union>v\<in>set vs. variant_expressions v))"
| "args_expressions (CallArguments ps ns sp) = (\<Union>e\<in>set ps. expressions_of e) \<union> (\<Union>n\<in>set ns. named_expressions n)"
| "named_expressions (NamedArgument i e sp) = expressions_of e"
| "variant_expressions (Variant k p b sp) = pattern_expressions p"
| "pattern_expressions (Pattern es sp) = (\<Union>el\<in>set es. element_expressions el)"
| "element_expressions (TextElement s sp) = {}"
| "element_expressions (PlaceableElement p) = placeable_expressions p"
| "placeable_expressions (Placeable e sp) = expressions_of e"

definition refs_of :: "expression set \<Rightarrow> refs" where
  "refs_of E = ({ref_name i a |i a. \<exists>sp. MessageReference i a sp \<in> E},
     {ref_name i a |i a. \<exists>args sp. TermReference i a args sp \<in> E})"

lemma refs_of_union: "refs_of (A \<union> B) = (fst (refs_of A) \<union> fst (refs_of B), snd (refs_of A) \<union> snd (refs_of B))"
  by (auto simp: refs_of_def)

lemma refs_of_empty: "refs_of {} = ({}, {})"
  by (simp add: refs_of_def)

text \<open>An extraction that does not raise collects the references in a set of expressions.\<close>

definition collects :: "refs option \<Rightarrow> expression set \<Rightarrow> bool" where
  "collects r E \<longleftrightarrow> (\<forall>x. r = Some x \<longrightarrow> x = refs_of E)"

lemma collects_guarded: "collects r E \<Longrightarrow> collects (guarded limit d r) E"
  by (simp add: collects_def guarded_def)

lemma collects_nothing: "collects (Some ({}, {})) {}"
  by (simp add: collects_def refs_of_empty)

lemma collects_join: "list_all2 collects rs Es \<Longrightarrow> collects (join_refs rs) (\<Union>(set Es))"
proof (induction rs Es rule: list_all2_induct)
  case Nil
  then show ?case by (simp add: join_refs_def collects_nothing)
next
  case (Cons r rs E Es)
  then show ?case
    by (auto simp: join_refs_def collects_def refs_of_union split: option.splits)
qed

lemma collects_node:
  "list_all2 collects rs Es \<Longrightarrow> refs_of E = refs_of (\<Union>(set Es)) \<Longrightarrow> collects (guarded limit d (join_refs rs)) E"
  using collects_join [of rs Es] by (auto simp: collects_def guarded_def)

lemma collects_leaf: "refs_of E = ({}, {}) \<Longrightarrow> collects r {} \<Longrightarrow> collects (guarded limit d r) E"
  by (auto simp: collects_def guarded_def refs_of_empty)

lemma collects_names [simp]:
  "collects (visit_span limit d sp) {}" "collects (visit_ident limit d i) {}" "collects (visit_key limit d k) {}"
  "collects (visit_option (visit_ident limit d) a) {}"
proof -
  show s: "collects (visit_span limit d sp) {}" for d sp
    by (simp add: visit_span_def collects_nothing collects_guarded split: option.split)
  show i: "collects (visit_ident limit d i) {}" for d i by (cases i) (simp add: collects_guarded s)
  show "collects (visit_key limit d k) {}" by (cases k) (simp_all add: collects_guarded s i)
  show "collects (visit_option (visit_ident limit d) a) {}"
    by (simp add: visit_option_def collects_nothing i split: option.split)
qed

lemma refs_of_other:
  "refs_of (insert (StringLiteral s sp) E) = refs_of E" "refs_of (insert (NumberLiteral v raw sp) E) = refs_of E"
  "refs_of (insert (VariableReference i sp) E) = refs_of E" "refs_of (insert (FunctionReference i args sp) E) = refs_of E"
  "refs_of (insert (NestedPlaceable p) E) = refs_of E" "refs_of (insert (SelectExpression sel vs sp) E) = refs_of E"
  by (simp_all add: refs_of_def)

lemma collects_term:
  assumes "collects r E"
  shows "collects (guarded limit d (join_refs [Some ({}, {ref_name i a}), r])) (insert (TermReference i a args sp) E)"
proof -
  have "refs_of (insert (TermReference i a args sp) E) = (fst (refs_of E), insert (ref_name i a) (snd (refs_of E)))"
    by (simp add: refs_of_def) blast
  with assms show ?thesis by (cases r; cases "refs_of E") (auto simp: collects_def guarded_def join_refs_def)
qed

lemma list_all2_map_collects:
  "(\<And>x. x \<in> set xs \<Longrightarrow> collects (f x) (h x)) \<Longrightarrow> list_all2 collects (map f xs) (map h xs)"
  by (simp add: list_all2_conv_all_nth)

lemma collects_mutual:
  "collects (visit_expression L d e) (expressions_of e)"
  "collects (visit_arguments L d as) (args_expressions as)"
  "collects (visit_named L d n) (named_expressions n)"
  "collects (visit_variant L d v) (variant_expressions v)"
  "collects (visit_pattern L d p) (pattern_expressions p)"
  "collects (visit_element L d el) (element_expressions el)"
  "collects (visit_placeable L d pl) (placeable_expressions pl)"
proof (induction L d e and L d as and L d n and L d v and L d p and L d el and L d pl
    rule: visit_expression_visit_arguments_visit_named_visit_variant_visit_pattern_visit_element_visit_placeable.induct)
  case (3 L d i sp)
  show ?case by (simp del: visit_ident.simps) (rule collects_node [of _ "[{}, {}]"], simp_all add: refs_of_other)
next
  case (4 L d i a sp)
  show ?case by (auto simp: collects_def guarded_def refs_of_def)
next
  case (5 L d i a sp)
  show ?case by (simp, rule collects_term, rule collects_node [of _ "[{}, {}, {}]"]) simp_all
next
  case (6 L d i a args sp)
  then show ?case
    by (simp, intro collects_term collects_node [of _ "[{}, {}, args_expressions args, {}]"]) simp_all
next
  case (7 L d i args sp)
  then show ?case
    by (simp, intro collects_node [of _ "[{}, args_expressions args, {}]"]) (simp_all add: refs_of_other)
next
  case (9 L d sel vs sp)
  then show ?case
    by (simp, intro collects_node [of _ "expressions_of sel # map variant_expressions vs @ [{}]"])
      (auto simp: refs_of_other intro!: list_all2_appendI list_all2_map_collects)
next
  case (10 L d ps ns sp)
  then show ?case
    by (simp, intro collects_node [of _ "map expressions_of ps @ map named_expressions ns @ [{}]"])
      (auto intro!: list_all2_appendI list_all2_map_collects)
next
  case (11 L d i e sp)
  then show ?case by (simp, intro collects_node [of _ "[{}, expressions_of e, {}]"]) simp_all
next
  case (12 L d k p b sp)
  then show ?case by (simp, intro collects_node [of _ "[{}, pattern_expressions p, {}]"]) simp_all
next
  case (13 L d es sp)
  then show ?case
    by (simp, intro collects_node [of _ "map element_expressions es @ [{}]"])
      (auto intro!: list_all2_appendI list_all2_map_collects)
next
  case (16 L d e sp)
  then show ?case by (simp, intro collects_node [of _ "[expressions_of e, {}]"]) simp_all
next
  case (8 L d p)
  then show ?case by (simp add: collects_def refs_of_other)
qed (simp_all add: collects_leaf refs_of_other refs_of_empty)

text \<open>Nested placeables: how deep the visitor goes.\<close>

fun nested_placeables :: "nat \<Rightarrow> expression \<Rightarrow> expression" where
  "nested_placeables 0 e = e"
| "nested_placeables (Suc n) e = NestedPlaceable (Placeable (nested_placeables n e) None)"

lemma visit_nested:
  "visit_expression L d (nested_placeables n (VariableReference (Identifier x None) None)) =
     (if d + int n + 1 < L then Some ({}, {}) else None)"
  by (induction n arbitrary: d) (auto simp: guarded_def join_refs_def visit_span_def)

text \<open>The extraction of the references of an entry collects exactly the message and term
  references that occur in its value and attributes, or raises; it raises on a message with a
  variable inside as many nested placeables as its limit.\<close>

theorem extraction_exact:
  "(case extract_references limit (value, attributes) of
      None \<Rightarrow> True
    | Some r \<Rightarrow> r = refs_of (\<Union>p \<in> set_option value \<union> attr_value ` set attributes. pattern_expressions p)) \<and>
   extract_references (int n)
     (Some (Pattern [PlaceableElement (Placeable (nested_placeables n (VariableReference (Identifier x None) None)) None)] None),
      attributes) = None"
proof
  have "collects (visit_option (visit_pattern limit 0) value) (\<Union>p \<in> set_option value. pattern_expressions p)"
    by (simp add: visit_option_def collects_nothing collects_mutual split: option.split)
  then have "list_all2 collects (visit_option (visit_pattern limit 0) value # map (\<lambda>a. visit_pattern limit 0 (attr_value a)) attributes)
      ((\<Union>p \<in> set_option value. pattern_expressions p) # map (\<lambda>a. pattern_expressions (attr_value a)) attributes)"
    by (auto intro: list_all2_map_collects collects_mutual)
  from collects_join [OF this]
  have "collects (extract_references limit (value, attributes))
      (\<Union>p \<in> set_option value \<union> attr_value ` set attributes. pattern_expressions p)"
    by (simp add: extract_references_def UN_Un)
  then show "case extract_references limit (value, attributes) of
      None \<Rightarrow> True
    | Some r \<Rightarrow> r = refs_of (\<Union>p \<in> set_option value \<union> attr_value ` set attributes. pattern_expressions p)"
    by (simp add: collects_def split: option.split)
next
  show "extract_references (int n)
     (Some (Pattern [PlaceableElement (Placeable (nested_placeables n (VariableReference (Identifier x None) None)) None)] None),
      attributes) = None"
    by (simp add: extract_references_def visit_option_def visit_nested guarded_def join_refs_def visit_span_def
        split: option.split)
qed

end
