(* ===== verification/Serializer.thy ===== *)
theory Serializer
  imports Resolution_Context
begin

text \<open>
  \<open>syntax/serializer.py\<close>, \<open>serializer_lines.py\<close>, \<open>serializer_validation.py\<close> and
  \<open>validation_helpers.py\<close>: from the AST to Fluent source text.  A function that appends to the
  output list returns the text it appends, and \<open>emit\<close> and \<open>cat\<close> sequence them; the
  depth guard is its limit \<open>L\<close> and the current depth \<open>d\<close>.  The messages of the exceptions
  and the \<open>context\<close> they mention are not modelled.
\<close>

datatype serialize_error =
    DepthLimitExceededError
  | SerializationDepthError
  | SerializationValidationError

type_synonym emission = "serialize_error + ustr"

definition emit :: "ustr \<Rightarrow> emission" where
  "emit s = Inr s"

definition cat :: "emission \<Rightarrow> emission \<Rightarrow> emission" where
  "cat a b =
     (case a of
        Inl e \<Rightarrow> Inl e
      | Inr s \<Rightarrow> (case b of Inl e \<Rightarrow> Inl e | Inr t \<Rightarrow> Inr (s @ t)))"

text \<open>\<open>with depth_guard: ...\<close> at depth \<open>d\<close>; the guarded part runs at depth \<open>d + 1\<close>.\<close>

definition with_guard :: "int \<Rightarrow> int \<Rightarrow> emission \<Rightarrow> emission" where
  "with_guard L d r = (if L \<le> d then Inl DepthLimitExceededError else r)"

section \<open>Lines and characters\<close>

definition CONT_INDENT :: ustr where "CONT_INDENT = replicate 4 CH_SPACE"
definition ATTR_INDENT :: ustr where "ATTR_INDENT = CH_LF # replicate 4 CH_SPACE"
definition VARIANT_INDENT :: ustr where "VARIANT_INDENT = CH_LF # replicate 3 CH_SPACE"

definition line_start_syntax_chars :: "uchar set" where
  "line_start_syntax_chars = {CH_DOT, CH_LBRACKET, CH_STAR}"

text \<open>A placeable with a string literal: \<open>_CHAR_PLACEABLE[ch]\<close>, and the wrapping of blanks.\<close>

definition wrap_literal :: "ustr \<Rightarrow> ustr" where
  "wrap_literal s = [CH_LBRACE, CH_SPACE, CH_QUOTE] @ s @ [CH_QUOTE, CH_SPACE, CH_RBRACE]"

definition char_placeable :: "uchar \<Rightarrow> ustr" where
  "char_placeable ch = wrap_literal [ch]"

datatype line_kind = EMPTY | WHITESPACE_ONLY | SYNTAX_LEADING | NORMAL

definition classify_line :: "ustr \<Rightarrow> line_kind \<times> nat" where
  "classify_line line =
     (if line = [] then (EMPTY, 0)
      else let ws_len = length (takeWhile (\<lambda>ch. ch = CH_SPACE) line)
           in if ws_len = length line then (WHITESPACE_ONLY, 0)
              else if line ! ws_len \<in> line_start_syntax_chars then (SYNTAX_LEADING, ws_len)
              else (NORMAL, 0))"

definition is_brace :: "uchar \<Rightarrow> bool" where
  "is_brace ch \<longleftrightarrow> ch = CH_LBRACE \<or> ch = CH_RBRACE"

text \<open>\<open>_escape_text\<close> emits a brace as a placeable and a run of other characters as it is.\<close>

function escape_text :: "ustr \<Rightarrow> ustr" where
  "escape_text [] = []"
| "escape_text (ch # rest) =
     (if is_brace ch then char_placeable ch @ escape_text rest
      else (ch # takeWhile (\<lambda>c. \<not> is_brace c) rest) @ escape_text (dropWhile (\<lambda>c. \<not> is_brace c) rest))"
  by pat_completeness auto
termination
  by (relation "measure length") (auto simp: le_imp_less_Suc length_dropWhile_le)

definition emit_classified_line :: "ustr \<Rightarrow> ustr" where
  "emit_classified_line line =
     (case classify_line line of
        (EMPTY, ws_len) \<Rightarrow> []
      | (WHITESPACE_ONLY, ws_len) \<Rightarrow> wrap_literal line
      | (SYNTAX_LEADING, ws_len) \<Rightarrow>
          (if ws_len \<noteq> 0 then wrap_literal (take ws_len line) else []) @
          char_placeable (line ! ws_len) @
          (let remaining = drop (ws_len + 1) line
           in if remaining \<noteq> [] then escape_text remaining else [])
      | (NORMAL, ws_len) \<Rightarrow> escape_text line)"

section \<open>Patterns\<close>

text \<open>
  A continuation line of a text that starts with a blank and is neither blank nor a syntax
  line: the loop over the line feeds of a text element.
\<close>

definition is_normal :: "ustr \<Rightarrow> bool" where
  "is_normal line \<longleftrightarrow> fst (classify_line line) = NORMAL"

definition first_line :: "ustr \<Rightarrow> ustr" where
  "first_line s = takeWhile (\<lambda>ch. ch \<noteq> CH_LF) s"

fun indented_line_inside :: "ustr \<Rightarrow> bool" where
  "indented_line_inside [] = False"
| "indented_line_inside (ch # rest) =
     (if ch = CH_LF \<and> rest \<noteq> [] \<and> hd rest = CH_SPACE \<and> is_normal (first_line rest) then True
      else indented_line_inside rest)"

fun separate_line_loop :: "bool \<Rightarrow> pattern_element list \<Rightarrow> bool" where
  "separate_line_loop prev_ends_newline [] = False"
| "separate_line_loop prev_ends_newline (TextElement v sp # es) =
     (if prev_ends_newline \<and> v \<noteq> [] \<and> hd v = CH_SPACE \<and> is_normal (first_line v) then True
      else if indented_line_inside v then True
      else separate_line_loop (v \<noteq> [] \<and> last v = CH_LF) es)"
| "separate_line_loop prev_ends_newline (PlaceableElement p # es) = separate_line_loop False es"

definition pattern_needs_separate_line :: "pattern_element list \<Rightarrow> bool" where
  "pattern_needs_separate_line es = separate_line_loop False es"

text \<open>The blanks at the start of the first text element, which go into a literal of their own.\<close>

definition leading_blanks :: "pattern_element list \<Rightarrow> nat" where
  "leading_blanks es =
     (case es of
        TextElement v sp # _ \<Rightarrow> length (takeWhile (\<lambda>ch. ch = CH_SPACE) v)
      | _ \<Rightarrow> 0)"

text \<open>The text of an element, and whether it leaves the output at a line start.\<close>

definition text_lines :: "bool \<Rightarrow> ustr \<Rightarrow> ustr \<times> bool" where
  "text_lines at_line_start txt =
     (if CH_LF \<in> set txt then
        (let lines = str_split CH_LF txt
         in ((if at_line_start then emit_classified_line (hd lines) else escape_text (hd lines)) @
             concat (map (\<lambda>line. CH_LF # CONT_INDENT @ emit_classified_line line) (tl lines)),
             last lines = []))
      else (if at_line_start then emit_classified_line txt else escape_text txt, False))"

section \<open>Expressions\<close>

definition upper_hex_digit :: "nat \<Rightarrow> uchar" where
  "upper_hex_digit n = (if n < 10 then 48 + n else 55 + n)"

text \<open>\<open>f"\u{code:04X}"\<close> for a code below \<open>0x10000\<close>.\<close>

definition unicode_escape :: "nat \<Rightarrow> ustr" where
  "unicode_escape code =
     [CH_BACKSLASH, 117, upper_hex_digit (code div 4096 mod 16), upper_hex_digit (code div 256 mod 16),
      upper_hex_digit (code div 16 mod 16), upper_hex_digit (code mod 16)]"

definition escape_char :: "uchar \<Rightarrow> ustr" where
  "escape_char ch =
     (if ch = CH_BACKSLASH then [CH_BACKSLASH, CH_BACKSLASH]
      else if ch = CH_QUOTE then [CH_BACKSLASH, CH_QUOTE]
      else if ch < 0x20 \<or> ch = 0x7F then unicode_escape ch
      else [ch])"

definition quote_string :: "ustr \<Rightarrow> ustr" where
  "quote_string v = [CH_QUOTE] @ concat (map escape_char v) @ [CH_QUOTE]"

fun key_text :: "variant_key \<Rightarrow> ustr" where
  "key_text (KeyIdentifier i) = id_name i"
| "key_text (KeyNumber v raw sp) = raw"

definition attribute_suffix :: "ident option \<Rightarrow> ustr" where
  "attribute_suffix a = (case a of None \<Rightarrow> [] | Some i \<Rightarrow> CH_DOT # id_name i)"

text \<open>
  The serializer proper.  The arguments of \<open>serialize_positional\<close> and \<open>serialize_named\<close>
  say whether an argument has been written before; those of \<open>serialize_elements\<close> are the
  loop variables \<open>leading_ws_len\<close> and \<open>at_line_start\<close>.
\<close>

fun serialize_expression :: "int \<Rightarrow> int \<Rightarrow> expression \<Rightarrow> emission"
and serialize_call_arguments :: "int \<Rightarrow> int \<Rightarrow> call_arguments \<Rightarrow> emission"
and serialize_positional :: "int \<Rightarrow> int \<Rightarrow> bool \<Rightarrow> expression list \<Rightarrow> emission"
and serialize_named :: "int \<Rightarrow> int \<Rightarrow> bool \<Rightarrow> named_argument list \<Rightarrow> emission"
and serialize_variants :: "int \<Rightarrow> int \<Rightarrow> variant list \<Rightarrow> emission"
and serialize_pattern :: "int \<Rightarrow> int \<Rightarrow> pattern \<Rightarrow> emission"
and serialize_elements :: "int \<Rightarrow> int \<Rightarrow> nat \<Rightarrow> bool \<Rightarrow> pattern_element list \<Rightarrow> emission" where
  "serialize_expression L d (StringLiteral v sp) = emit (quote_string v)"
| "serialize_expression L d (NumberLiteral v raw sp) = emit raw"
| "serialize_expression L d (VariableReference i sp) = emit (CH_DOLLAR # id_name i)"
| "serialize_expression L d (MessageReference i a sp) = emit (id_name i @ attribute_suffix a)"
| "serialize_expression L d (TermReference i a None sp) =
     emit (CH_MINUS # id_name i @ attribute_suffix a)"
| "serialize_expression L d (TermReference i a (Some args) sp) =
     cat (emit (CH_MINUS # id_name i @ attribute_suffix a)) (serialize_call_arguments L d args)"
| "serialize_expression L d (FunctionReference i args sp) =
     cat (emit (id_name i)) (serialize_call_arguments L d args)"
| "serialize_expression L d (NestedPlaceable (Placeable e sp)) =
     cat (emit [CH_LBRACE, CH_SPACE])
       (cat (with_guard L d (serialize_expression L (d + 1) e)) (emit [CH_SPACE, CH_RBRACE]))"
| "serialize_expression L d (SelectExpression sel vs sp) =
     cat (with_guard L d (serialize_expression L (d + 1) sel))
       (cat (emit [CH_SPACE, CH_MINUS, CH_GREATER]) (cat (serialize_variants L d vs) (emit [CH_LF])))"
| "serialize_call_arguments L d (CallArguments ps ns sp) =
     cat (emit [CH_LPAREN])
       (cat (serialize_positional L d False ps)
          (cat (serialize_named L d (ps \<noteq> []) ns) (emit [CH_RPAREN])))"
| "serialize_positional L d written [] = emit []"
| "serialize_positional L d written (e # es) =
     cat (emit (if written then [CH_COMMA, CH_SPACE] else []))
       (cat (with_guard L d (serialize_expression L (d + 1) e)) (serialize_positional L d True es))"
| "serialize_named L d written [] = emit []"
| "serialize_named L d written (NamedArgument i e sp # ns) =
     cat (emit ((if written then [CH_COMMA, CH_SPACE] else []) @ id_name i @ [CH_COLON, CH_SPACE]))
       (cat (with_guard L d (serialize_expression L (d + 1) e)) (serialize_named L d True ns))"
| "serialize_variants L d [] = emit []"
| "serialize_variants L d (Variant k p starred sp # vs) =
     cat (emit (VARIANT_INDENT @ (if starred then [CH_STAR] else []) @
                [CH_LBRACKET] @ key_text k @ [CH_RBRACKET, CH_SPACE]))
       (cat (serialize_pattern L d p) (serialize_variants L d vs))"
| "serialize_pattern L d (Pattern es sp) =
     cat (emit (if pattern_needs_separate_line es then CH_LF # CONT_INDENT else []))
       (cat (emit (if leading_blanks es \<noteq> 0 then wrap_literal (replicate (leading_blanks es) CH_SPACE) else []))
          (serialize_elements L d (leading_blanks es) (pattern_needs_separate_line es) es))"
| "serialize_elements L d ws at_start [] = emit []"
| "serialize_elements L d ws at_start (TextElement v sp # es) =
     (if ws \<noteq> 0 \<and> drop ws v = [] then serialize_elements L d 0 False es
      else (case text_lines at_start (drop ws v) of
              (txt, at_start') \<Rightarrow> cat (emit txt) (serialize_elements L d 0 at_start' es)))"
| "serialize_elements L d ws at_start (PlaceableElement (Placeable e sp) # es) =
     cat (emit [CH_LBRACE, CH_SPACE])
       (cat (with_guard L d (serialize_expression L (d + 1) e))
          (cat (emit [CH_SPACE, CH_RBRACE]) (serialize_elements L d ws False es)))"

section \<open>Entries\<close>

definition comment_prefix :: "comment_type \<Rightarrow> ustr" where
  "comment_prefix k = (case k of COMMENT \<Rightarrow> u ''#'' | GROUP \<Rightarrow> u ''##'' | RESOURCE \<Rightarrow> u ''###'')"

definition serialize_comment :: "comment \<Rightarrow> ustr" where
  "serialize_comment cm =
     concat (map (\<lambda>line. if line \<noteq> [] then comment_prefix (comment_kind cm) @ [CH_SPACE] @ line @ [CH_LF]
                         else comment_prefix (comment_kind cm) @ [CH_LF])
       (str_split CH_LF (comment_content cm)))"

definition attached_comment :: "comment option \<Rightarrow> ustr" where
  "attached_comment cm = (case cm of None \<Rightarrow> [] | Some c \<Rightarrow> serialize_comment c)"

definition serialize_junk :: "ustr \<Rightarrow> ustr" where
  "serialize_junk content =
     content @ (if content = [] \<or> last content \<noteq> CH_LF then [CH_LF] else [])"

fun serialize_attribute :: "int \<Rightarrow> attribute \<Rightarrow> emission" where
  "serialize_attribute L (Attribute i p sp) =
     cat (emit (CH_DOT # id_name i @ u '' = '')) (serialize_pattern L 0 p)"

fun serialize_attributes :: "int \<Rightarrow> attribute list \<Rightarrow> emission" where
  "serialize_attributes L [] = emit []"
| "serialize_attributes L (a # ats) =
     cat (emit ATTR_INDENT) (cat (serialize_attribute L a) (serialize_attributes L ats))"

fun serialize_entry :: "int \<Rightarrow> entry \<Rightarrow> emission" where
  "serialize_entry L (Message i v ats cm sp) =
     cat (emit (attached_comment cm @ id_name i))
       (cat (case v of None \<Rightarrow> emit [] | Some p \<Rightarrow> cat (emit (u '' = '')) (serialize_pattern L 0 p))
          (cat (serialize_attributes L ats) (emit [CH_LF])))"
| "serialize_entry L (Term i v ats cm sp) =
     cat (emit (attached_comment cm @ CH_MINUS # id_name i @ u '' = ''))
       (cat (serialize_pattern L 0 v) (cat (serialize_attributes L ats) (emit [CH_LF])))"
| "serialize_entry L (CommentEntry cm) = emit (serialize_comment cm)"
| "serialize_entry L (Junk content ans sp) = emit (serialize_junk content)"

section \<open>The resource\<close>

fun is_definition_entry :: "entry \<Rightarrow> bool" where
  "is_definition_entry (Message i v ats cm sp) = True"
| "is_definition_entry (Term i v ats cm sp) = True"
| "is_definition_entry e = False"

definition needs_extra_blank :: "entry \<Rightarrow> entry \<Rightarrow> bool" where
  "needs_extra_blank prev e =
     (case prev of
        CommentEntry p \<Rightarrow>
          (case e of
             CommentEntry c \<Rightarrow> comment_kind p = comment_kind c
           | _ \<Rightarrow> is_definition_entry e)
      | _ \<Rightarrow> False)"

definition trailing_newlines :: "ustr \<Rightarrow> nat" where
  "trailing_newlines s = length (takeWhile (\<lambda>ch. ch = CH_LF) (rev s))"

definition separator :: "entry \<Rightarrow> entry \<Rightarrow> ustr" where
  "separator prev e =
     (if (case e of Junk content ans sp \<Rightarrow> content \<noteq> [] \<and> (hd content = CH_LF \<or> hd content = CH_SPACE) | _ \<Rightarrow> False)
      then []
      else if needs_extra_blank prev e then [CH_LF, CH_LF]
      else if is_definition_entry prev \<and> is_definition_entry e then []
      else (case prev of
              Junk content ans sp \<Rightarrow> replicate (2 - trailing_newlines content) CH_LF
            | _ \<Rightarrow> [CH_LF]))"

fun serialize_entries :: "int \<Rightarrow> entry option \<Rightarrow> entry list \<Rightarrow> emission" where
  "serialize_entries L prev [] = emit []"
| "serialize_entries L prev (e # es) =
     cat (emit (case prev of None \<Rightarrow> [] | Some p \<Rightarrow> separator p e))
       (cat (serialize_entry L e) (serialize_entries L (Some e) es))"

section \<open>Validation\<close>

text \<open>The first error, or \<open>None\<close>.\<close>

type_synonym check = "serialize_error option"

definition both :: "check \<Rightarrow> check \<Rightarrow> check" where
  "both a b = (case a of Some e \<Rightarrow> Some e | None \<Rightarrow> b)"

definition guard_check :: "int \<Rightarrow> int \<Rightarrow> check \<Rightarrow> check" where
  "guard_check L d r = (if L \<le> d then Some DepthLimitExceededError else r)"

definition require :: "bool \<Rightarrow> check" where
  "require b = (if b then None else Some SerializationValidationError)"

definition validate_identifier :: "ident \<Rightarrow> check" where
  "validate_identifier i = require (is_valid_identifier (id_name i))"

definition validate_optional_identifier :: "ident option \<Rightarrow> check" where
  "validate_optional_identifier a = (case a of None \<Rightarrow> None | Some i \<Rightarrow> validate_identifier i)"

definition count_default_variants :: "variant list \<Rightarrow> nat" where
  "count_default_variants vs = length (filter variant_default vs)"

definition require_single_default_variant :: "variant list \<Rightarrow> check" where
  "require_single_default_variant vs = require (count_default_variants vs = 1)"

fun validate_key :: "variant_key \<Rightarrow> check" where
  "validate_key (KeyIdentifier i) = validate_identifier i"
| "validate_key (KeyNumber v raw sp) = None"

definition named_argument_value_is_literal :: "expression \<Rightarrow> check" where
  "named_argument_value_is_literal e = require (is_literal e)"

fun validate_named :: "ustr set \<Rightarrow> named_argument list \<Rightarrow> check" where
  "validate_named seen_names [] = None"
| "validate_named seen_names (NamedArgument i e sp # ns) =
     both (require (id_name i \<notin> seen_names))
       (both (validate_identifier i)
          (both (named_argument_value_is_literal e) (validate_named (insert (id_name i) seen_names) ns)))"

fun validate_expression :: "int \<Rightarrow> int \<Rightarrow> expression \<Rightarrow> check"
and validate_call_arguments :: "int \<Rightarrow> int \<Rightarrow> call_arguments \<Rightarrow> check"
and validate_positional :: "int \<Rightarrow> int \<Rightarrow> expression list \<Rightarrow> check"
and validate_variants :: "int \<Rightarrow> int \<Rightarrow> variant list \<Rightarrow> check"
and validate_pattern :: "int \<Rightarrow> int \<Rightarrow> pattern \<Rightarrow> check"
and validate_elements :: "int \<Rightarrow> int \<Rightarrow> pattern_element list \<Rightarrow> check" where
  "validate_expression L d (StringLiteral v sp) = None"
| "validate_expression L d (NumberLiteral v raw sp) = None"
| "validate_expression L d (VariableReference i sp) = validate_identifier i"
| "validate_expression L d (MessageReference i a sp) =
     both (validate_identifier i) (validate_optional_identifier a)"
| "validate_expression L d (TermReference i a None sp) =
     both (validate_identifier i) (validate_optional_identifier a)"
| "validate_expression L d (TermReference i a (Some args) sp) =
     both (validate_identifier i) (both (validate_optional_identifier a) (validate_call_arguments L d args))"
| "validate_expression L d (FunctionReference i args sp) =
     both (validate_identifier i) (validate_call_arguments L d args)"
| "validate_expression L d (NestedPlaceable (Placeable e sp)) =
     guard_check L d (validate_expression L (d + 1) e)"
| "validate_expression L d (SelectExpression sel vs sp) =
     both (require_single_default_variant vs)
       (both (guard_check L d (validate_expression L (d + 1) sel)) (validate_variants L d vs))"
| "validate_call_arguments L d (CallArguments ps ns sp) =
     both (validate_positional L d ps) (validate_named {} ns)"
| "validate_positional L d [] = None"
| "validate_positional L d (e # es) =
     both (guard_check L d (validate_expression L (d + 1) e)) (validate_positional L d es)"
| "validate_variants L d [] = None"
| "validate_variants L d (Variant k p starred sp # vs) =
     both (validate_key k) (both (guard_check L d (validate_pattern L (d + 1) p)) (validate_variants L d vs))"
| "validate_pattern L d (Pattern es sp) = validate_elements L d es"
| "validate_elements L d [] = None"
| "validate_elements L d (TextElement v sp # es) = validate_elements L d es"
| "validate_elements L d (PlaceableElement (Placeable e sp) # es) =
     both (guard_check L d (validate_expression L (d + 1) e)) (validate_elements L d es)"

fun validate_attributes :: "int \<Rightarrow> attribute list \<Rightarrow> check" where
  "validate_attributes L [] = None"
| "validate_attributes L (Attribute i p sp # ats) =
     both (validate_identifier i) (both (validate_pattern L 0 p) (validate_attributes L ats))"

fun validate_entry :: "int \<Rightarrow> entry \<Rightarrow> check" where
  "validate_entry L (Message i v ats cm sp) =
     both (validate_identifier i)
       (both (case v of None \<Rightarrow> None | Some p \<Rightarrow> validate_pattern L 0 p) (validate_attributes L ats))"
| "validate_entry L (Term i v ats cm sp) =
     both (validate_identifier i) (both (validate_pattern L 0 v) (validate_attributes L ats))"
| "validate_entry L (CommentEntry cm) = None"
| "validate_entry L (Junk content ans sp) = None"

fun validate_entries :: "int \<Rightarrow> entry list \<Rightarrow> check" where
  "validate_entries L [] = None"
| "validate_entries L (e # es) = both (validate_entry L e) (validate_entries L es)"

text \<open>A depth error is turned into the serializer's own.\<close>

definition as_depth_error :: "serialize_error \<Rightarrow> serialize_error" where
  "as_depth_error e = (if e = DepthLimitExceededError then SerializationDepthError else e)"

definition validate_resource :: "int \<Rightarrow> int \<Rightarrow> resource \<Rightarrow> check" where
  "validate_resource recursion_limit max_depth r =
     map_option as_depth_error (validate_entries (depth_clamp recursion_limit max_depth) (entries r))"

definition serialize :: "int \<Rightarrow> resource \<Rightarrow> bool \<Rightarrow> int \<Rightarrow> emission" where
  "serialize recursion_limit r validate max_depth =
     (case (if validate then validate_resource recursion_limit max_depth r else None) of
        Some e \<Rightarrow> Inl e
      | None \<Rightarrow>
          (case serialize_entries (depth_clamp recursion_limit max_depth) None (entries r) of
             Inl e \<Rightarrow> Inl (as_depth_error e)
           | Inr s \<Rightarrow> Inr s))"

end
