(* ===== verification/Cursor.thy ===== *)
theory Cursor
  imports Prelude
begin

text \<open>
  \<open>syntax/cursor.py\<close>: the immutable source cursor of the parser, the cached
  line-offset table with its binary search, and parse errors with their rendering.
  The lemmas give the position invariant, what every skipping operation guarantees, and
  that the cached lookup agrees with the direct line and column computation.
\<close>

section \<open>The cursor\<close>

record cursor =
  source :: ustr
  pos :: nat

text \<open>\<open>Cursor(source, pos)\<close> with the checks of \<open>__post_init__\<close>.\<close>

definition mk_cursor :: "ustr \<Rightarrow> int \<Rightarrow> py_error + cursor" where
  "mk_cursor s p =
     (if p < 0 then Inl ValueError
      else if int (length s) < p then Inl ValueError
      else Inr \<lparr>source = s, pos = nat p\<rparr>)"

definition wf_cursor :: "cursor \<Rightarrow> bool" where
  "wf_cursor c \<longleftrightarrow> pos c \<le> length (source c)"

definition is_eof :: "cursor \<Rightarrow> bool" where
  "is_eof c \<longleftrightarrow> length (source c) \<le> pos c"

definition current :: "cursor \<Rightarrow> py_error + uchar" where
  "current c = (if is_eof c then Inl EOFError else Inr (source c ! pos c))"

definition peek :: "cursor \<Rightarrow> int \<Rightarrow> uchar option" where
  "peek c offset =
     (let target_pos = int (pos c) + offset
      in if target_pos < 0 \<or> int (length (source c)) \<le> target_pos then None
         else Some (source c ! nat target_pos))"

definition advance :: "cursor \<Rightarrow> int \<Rightarrow> py_error + cursor" where
  "advance c n =
     (if n < 1 then Inl ValueError
      else mk_cursor (source c) (min (int (pos c) + n) (int (length (source c)))))"

definition slice_to :: "cursor \<Rightarrow> nat \<Rightarrow> ustr" where
  "slice_to c end_pos = str_slice (source c) (pos c) end_pos"

definition slice_ahead :: "cursor \<Rightarrow> nat \<Rightarrow> ustr" where
  "slice_ahead c n = str_slice (source c) (pos c) (pos c + n)"

text \<open>
  The idioms the parser modules use.  \<open>cur c\<close> is the guarded read
  \<open>None if cursor.is_eof else cursor.current\<close>, so
  \<open>not cursor.is_eof and cursor.current == ch\<close> is \<open>cur c = Some ch\<close>;
  \<open>adv c\<close> is \<open>cursor.advance()\<close> and \<open>adv_by c n\<close> is \<open>cursor.advance(n)\<close> for
  \<open>n \<ge> 1\<close>; the lemmas \<open>current_cur\<close> and \<open>advance_adv_by\<close> tie them to the methods.
\<close>

definition cur :: "cursor \<Rightarrow> uchar option" where
  "cur c = (if is_eof c then None else Some (source c ! pos c))"

definition adv_by :: "cursor \<Rightarrow> nat \<Rightarrow> cursor" where
  "adv_by c n = c\<lparr>pos := min (pos c + n) (length (source c))\<rparr>"

definition adv :: "cursor \<Rightarrow> cursor" where
  "adv c = adv_by c 1"

text \<open>The index loop \<open>while pos < length and P(source[pos]): pos += 1\<close>.\<close>

function scan_while :: "(uchar \<Rightarrow> bool) \<Rightarrow> ustr \<Rightarrow> nat \<Rightarrow> nat" where
  "scan_while P s i = (if i < length s \<and> P (s ! i) then scan_while P s (Suc i) else i)"
  by pat_completeness auto
termination
  by (relation "measure (\<lambda>(P, s, i). length s - i)") auto

declare scan_while.simps [simp del]

definition skip_spaces :: "cursor \<Rightarrow> cursor" where
  "skip_spaces c =
     (let p = scan_while (\<lambda>ch. ch = CH_SPACE) (source c) (pos c)
      in if p = pos c then c else c\<lparr>pos := p\<rparr>)"

definition skip_whitespace :: "cursor \<Rightarrow> cursor" where
  "skip_whitespace c =
     (let p = scan_while (\<lambda>ch. ch = CH_SPACE \<or> ch = CH_LF) (source c) (pos c)
      in if p = pos c then c else c\<lparr>pos := p\<rparr>)"

definition expect :: "cursor \<Rightarrow> uchar \<Rightarrow> cursor option" where
  "expect c ch = (if cur c = Some ch then Some (adv c) else None)"

definition skip_line_end :: "cursor \<Rightarrow> cursor" where
  "skip_line_end c = (if cur c = Some CH_LF then adv c else c)"

definition skip_to_line_end :: "cursor \<Rightarrow> cursor" where
  "skip_to_line_end c =
     (case str_find CH_LF (source c) (pos c) of
        None \<Rightarrow> c\<lparr>pos := length (source c)\<rparr>
      | Some newline_pos \<Rightarrow> (if newline_pos = pos c then c else c\<lparr>pos := newline_pos\<rparr>))"

definition count_newlines_before :: "cursor \<Rightarrow> nat" where
  "count_newlines_before c = count_list (take (pos c) (source c)) CH_LF"

definition compute_line_col :: "cursor \<Rightarrow> nat \<times> nat" where
  "compute_line_col c =
     (let lines_before = count_newlines_before c;
          line = lines_before + 1;
          last_newline = str_rfind CH_LF (source c) (pos c);
          col = (case last_newline of Some i \<Rightarrow> pos c - i | None \<Rightarrow> pos c + 1)
      in (line, col))"

section \<open>The line-offset cache\<close>

record line_offset_cache =
  offsets :: "nat list"
  source_len :: nat

function newline_offsets :: "ustr \<Rightarrow> nat \<Rightarrow> nat list" where
  "newline_offsets s p =
     (case str_find CH_LF s p of
        None \<Rightarrow> []
      | Some newline_pos \<Rightarrow> (newline_pos + 1) # newline_offsets s (newline_pos + 1))"
  by pat_completeness auto
termination
  by (relation "measure (\<lambda>(s, p). length s - p)") (auto dest!: str_find_bounds)

declare newline_offsets.simps [simp del]

definition mk_line_offset_cache :: "ustr \<Rightarrow> line_offset_cache" where
  "mk_line_offset_cache s = \<lparr>offsets = 0 # newline_offsets s 0, source_len = length s\<rparr>"

function bisect_line :: "nat list \<Rightarrow> nat \<Rightarrow> nat \<Rightarrow> nat \<Rightarrow> nat" where
  "bisect_line offs p left right =
     (if left < right
      then let mid = (left + right + 1) div 2
           in if offs ! mid \<le> p then bisect_line offs p mid right
              else bisect_line offs p left (mid - 1)
      else left)"
  by pat_completeness auto
termination
  by (relation "measure (\<lambda>(offs, p, left, right). right - left)") auto

declare bisect_line.simps [simp del]

definition get_line_col :: "line_offset_cache \<Rightarrow> int \<Rightarrow> nat \<times> nat" where
  "get_line_col lc p =
     (let p = (if p < 0 then 0 else if int (source_len lc) < p then source_len lc else nat p);
          left = bisect_line (offsets lc) p 0 (length (offsets lc) - 1);
          line = left + 1;
          col = p - offsets lc ! left + 1
      in (line, col))"

section \<open>Parse results and errors\<close>

text \<open>
  \<open>ParseResult(value, cursor)\<close> is the pair of the two; a parser that may fail with an
  error object returns \<open>parse_error + 'a \<times> cursor\<close>.
\<close>

type_synonym 'a parse_result = "'a \<times> cursor"

record parse_error =
  err_message :: ustr
  err_cursor :: cursor
  err_expected :: "ustr list"

definition mk_parse_error :: "ustr \<Rightarrow> cursor \<Rightarrow> ustr list \<Rightarrow> parse_error" where
  "mk_parse_error msg c expd = \<lparr>err_message = msg, err_cursor = c, err_expected = expd\<rparr>"

definition format_error :: "parse_error \<Rightarrow> ustr" where
  "format_error e =
     (let (line, col) = compute_line_col (err_cursor e);
          error_msg = dec_digits line @ u '':'' @ dec_digits col @ u '': '' @ err_message e
      in if err_expected e \<noteq> []
         then let expected_str = str_join (u '', '') (map (\<lambda>x. [39] @ x @ [39]) (err_expected e))
              in error_msg @ u '' (expected: '' @ expected_str @ u '')''
         else error_msg)"

text \<open>\<open>f"{i:4} | "\<close>: the line number right-aligned in four columns.\<close>

definition line_num_str :: "nat \<Rightarrow> ustr" where
  "line_num_str i =
     (let d = dec_digits i in replicate (4 - length d) CH_SPACE @ d @ u '' | '')"

definition context_block :: "ustr list \<Rightarrow> nat \<Rightarrow> nat \<Rightarrow> nat \<Rightarrow> ustr list" where
  "context_block lines line col i =
     (if i = line
      then [line_num_str i @ lines ! (i - 1),
            replicate (length (line_num_str i) + col - 1) CH_SPACE @ u ''^'']
      else [line_num_str i @ lines ! (i - 1)])"

definition format_with_context :: "parse_error \<Rightarrow> nat \<Rightarrow> ustr" where
  "format_with_context e context_lines =
     (let (line, col) = compute_line_col (err_cursor e);
          lines = str_split CH_LF (source (err_cursor e));
          start_line = max 1 (line - context_lines);
          end_line = min (length lines) (line + context_lines)
      in str_join [CH_LF]
           ([format_error e, []] @
            concat (map (context_block lines line col) [start_line..<end_line + 1])))"


section \<open>Positions: how the operations move\<close>

lemma scan_while_ge: "i \<le> scan_while P s i"
  by (induction P s i rule: scan_while.induct) (subst scan_while.simps, auto)

lemma scan_while_le: "i \<le> length s \<Longrightarrow> scan_while P s i \<le> length s"
  by (induction P s i rule: scan_while.induct) (subst scan_while.simps, auto)

lemma scan_while_all: "i \<le> k \<Longrightarrow> k < scan_while P s i \<Longrightarrow> k < length s \<and> P (s ! k)"
proof (induction P s i rule: scan_while.induct)
  case (1 P s i)
  show ?case
  proof (cases "i < length s \<and> P (s ! i)")
    case True
    with 1 show ?thesis
      by (cases "k = i") (auto simp: scan_while.simps [of P s i])
  next
    case False
    with 1 show ?thesis by (auto simp: scan_while.simps [of P s i])
  qed
qed

lemma scan_while_stop: "scan_while P s i < length s \<Longrightarrow> \<not> P (s ! scan_while P s i)"
proof (induction P s i rule: scan_while.induct)
  case (1 P s i)
  show ?case
  proof (cases "i < length s \<and> P (s ! i)")
    case True
    with 1 show ?thesis by (simp add: scan_while.simps [of P s i])
  next
    case False
    with 1 show ?thesis by (auto simp: scan_while.simps [of P s i])
  qed
qed

text \<open>The scan is determined by these facts.\<close>

lemma scan_while_eqI:
  assumes "i \<le> j" "j \<le> length s" "\<And>k. i \<le> k \<Longrightarrow> k < j \<Longrightarrow> P (s ! k)" "j < length s \<Longrightarrow> \<not> P (s ! j)"
  shows "scan_while P s i = j"
proof (rule ccontr)
  assume neq: "scan_while P s i \<noteq> j"
  show False
  proof (cases "scan_while P s i < j")
    case True
    with assms(2) have "\<not> P (s ! scan_while P s i)" by (intro scan_while_stop) simp
    with True assms(3) scan_while_ge show False by blast
  next
    case False
    with neq have "j < scan_while P s i" by simp
    with assms(1) scan_while_all [of i j P s] assms(4) show False by blast
  qed
qed

text \<open>\<open>moves c c'\<close>: the same source, no step back, and a position inside it.\<close>

definition moves :: "cursor \<Rightarrow> cursor \<Rightarrow> bool" where
  "moves c c' \<longleftrightarrow> source c' = source c \<and> pos c \<le> pos c' \<and> wf_cursor c'"

definition advances :: "cursor \<Rightarrow> cursor \<Rightarrow> bool" where
  "advances c c' \<longleftrightarrow> source c' = source c \<and> pos c < pos c' \<and> wf_cursor c'"

lemma moves_refl: "wf_cursor c \<Longrightarrow> moves c c"
  by (simp add: moves_def)

lemma moves_trans: "moves a b \<Longrightarrow> moves b c \<Longrightarrow> moves a c"
  by (simp add: moves_def)

lemma advances_moves: "advances a b \<Longrightarrow> moves a b"
  by (simp add: advances_def moves_def)

lemma advances_trans: "advances a b \<Longrightarrow> moves b c \<Longrightarrow> advances a c"
  by (simp add: advances_def moves_def)

lemma moves_advances: "moves a b \<Longrightarrow> advances b c \<Longrightarrow> advances a c"
  by (simp add: advances_def moves_def)

lemma advances_wf: "advances a b \<Longrightarrow> wf_cursor b"
  by (simp add: advances_def)

lemma moves_wf: "moves a b \<Longrightarrow> wf_cursor b"
  by (simp add: moves_def)

lemma source_adv_by [simp]: "source (adv_by c n) = source c"
  by (simp add: adv_by_def)

lemma source_adv [simp]: "source (adv c) = source c"
  by (simp add: adv_def)

lemma source_skip_spaces [simp]: "source (skip_spaces c) = source c"
  by (simp add: skip_spaces_def Let_def)

lemma source_skip_whitespace [simp]: "source (skip_whitespace c) = source c"
  by (simp add: skip_whitespace_def Let_def)

lemma source_skip_line_end [simp]: "source (skip_line_end c) = source c"
  by (simp add: skip_line_end_def)

lemma source_skip_to_line_end [simp]: "source (skip_to_line_end c) = source c"
  by (simp add: skip_to_line_end_def split: option.splits)

lemma wf_adv_by [simp]: "wf_cursor (adv_by c n)"
  by (simp add: adv_by_def wf_cursor_def)

lemma wf_adv [simp]: "wf_cursor (adv c)"
  by (simp add: adv_def)

lemma pos_skip_spaces: "pos (skip_spaces c) = scan_while (\<lambda>ch. ch = CH_SPACE) (source c) (pos c)"
  by (simp add: skip_spaces_def Let_def)

lemma pos_skip_whitespace:
  "pos (skip_whitespace c) = scan_while (\<lambda>ch. ch = CH_SPACE \<or> ch = CH_LF) (source c) (pos c)"
  by (simp add: skip_whitespace_def Let_def)

lemma wf_skip_spaces [simp]: "wf_cursor c \<Longrightarrow> wf_cursor (skip_spaces c)"
  by (simp add: wf_cursor_def pos_skip_spaces scan_while_le)

lemma wf_skip_whitespace [simp]: "wf_cursor c \<Longrightarrow> wf_cursor (skip_whitespace c)"
  by (simp add: wf_cursor_def pos_skip_whitespace scan_while_le)

lemma wf_skip_line_end [simp]: "wf_cursor c \<Longrightarrow> wf_cursor (skip_line_end c)"
  by (simp add: skip_line_end_def)

lemma wf_skip_to_line_end [simp]: "wf_cursor c \<Longrightarrow> wf_cursor (skip_to_line_end c)"
  by (auto simp: skip_to_line_end_def wf_cursor_def split: option.splits dest: str_find_bounds)

lemma skip_spaces_ge [simp]: "pos c \<le> pos (skip_spaces c)"
  by (simp add: pos_skip_spaces scan_while_ge)

lemma skip_whitespace_ge [simp]: "pos c \<le> pos (skip_whitespace c)"
  by (simp add: pos_skip_whitespace scan_while_ge)

lemma skip_line_end_ge: "wf_cursor c \<Longrightarrow> pos c \<le> pos (skip_line_end c)"
  by (simp add: skip_line_end_def adv_def adv_by_def wf_cursor_def)

lemma skip_to_line_end_ge: "wf_cursor c \<Longrightarrow> pos c \<le> pos (skip_to_line_end c)"
  by (auto simp: skip_to_line_end_def wf_cursor_def split: option.splits dest: str_find_bounds)

lemma cur_Some_iff: "cur c = Some ch \<longleftrightarrow> pos c < length (source c) \<and> source c ! pos c = ch"
  by (auto simp: cur_def is_eof_def)

lemma cur_None_iff: "cur c = None \<longleftrightarrow> length (source c) \<le> pos c"
  by (simp add: cur_def is_eof_def)

lemma cur_wf: "cur c = Some ch \<Longrightarrow> wf_cursor c"
  by (simp add: cur_Some_iff wf_cursor_def)

lemma pos_adv: "cur c = Some ch \<Longrightarrow> pos (adv c) = Suc (pos c)"
  by (simp add: cur_Some_iff adv_def adv_by_def)

lemma pos_adv_ge: "wf_cursor c \<Longrightarrow> pos c \<le> pos (adv c)"
  by (simp add: adv_def adv_by_def wf_cursor_def)

lemma adv_less: "cur c = Some ch \<Longrightarrow> pos c < pos (adv c)"
  by (simp add: pos_adv)

lemma pos_adv_by_ge: "wf_cursor c \<Longrightarrow> pos c \<le> pos (adv_by c n)"
  by (simp add: adv_by_def wf_cursor_def)

text \<open>What is left of the source shrinks as a cursor advances.\<close>

definition remaining :: "cursor \<Rightarrow> nat" where
  "remaining c = length (source c) - pos c"

lemma adv_advances: "cur c = Some ch \<Longrightarrow> advances c (adv c)"
  by (simp add: advances_def pos_adv)

lemma skip_line_end_moves: "wf_cursor c \<Longrightarrow> moves c (skip_line_end c)"
  by (simp add: moves_def skip_line_end_ge)

lemma skip_to_line_end_moves: "wf_cursor c \<Longrightarrow> moves c (skip_to_line_end c)"
  by (simp add: moves_def skip_to_line_end_ge)

lemma remaining_advances: "advances a b \<Longrightarrow> remaining b < remaining a"
  by (auto simp: advances_def remaining_def wf_cursor_def)

lemma remaining_moves: "moves a b \<Longrightarrow> remaining b \<le> remaining a"
  by (auto simp: moves_def remaining_def)

text \<open>The guarded idioms are the methods of the class.\<close>

lemma current_cur: "current c = (case cur c of None \<Rightarrow> Inl EOFError | Some ch \<Rightarrow> Inr ch)"
  by (simp add: current_def cur_def)

lemma peek_cur: "peek c 0 = cur c"
  by (auto simp: peek_def cur_def is_eof_def)

lemma advance_adv_by:
  assumes "1 \<le> n"
  shows "advance c (int n) = Inr (adv_by c n)"
proof -
  have "nat (min (int (pos c) + int n) (int (length (source c)))) = min (pos c + n) (length (source c))"
    by linarith
  with assms show ?thesis by (simp add: advance_def mk_cursor_def adv_by_def)
qed

lemma advance_adv: "advance c 1 = Inr (adv c)"
  using advance_adv_by [of 1 c] by (simp add: adv_def)

lemma skip_to_line_end_no_newline:
  assumes "pos c \<le> k" "k < pos (skip_to_line_end c)"
  shows "k < length (source c) \<longrightarrow> source c ! k \<noteq> CH_LF"
proof (cases "str_find CH_LF (source c) (pos c)")
  case None
  then have "CH_LF \<notin> set (drop (pos c) (source c))" by (simp add: str_find_None)
  then show ?thesis
    using assms(1) nth_in_drop by metis
next
  case (Some j)
  with assms have "k < j" by (simp add: skip_to_line_end_def split: if_splits)
  with Some assms(1) show ?thesis using str_find_Some(4) by blast
qed

lemma cur_skip_to_line_end:
  "cur (skip_to_line_end c) = None \<or> cur (skip_to_line_end c) = Some CH_LF"
proof (cases "str_find CH_LF (source c) (pos c)")
  case None
  then show ?thesis by (simp add: skip_to_line_end_def cur_None_iff)
next
  case (Some j)
  then have "pos (skip_to_line_end c) = j" by (simp add: skip_to_line_end_def)
  with str_find_Some [OF Some] show ?thesis by (simp add: cur_Some_iff)
qed


section \<open>The cached line lookup agrees with the direct one\<close>

definition newline_positions :: "ustr \<Rightarrow> nat \<Rightarrow> nat \<Rightarrow> nat list" where
  "newline_positions s i j = filter (\<lambda>k. s ! k = CH_LF) [i..<j]"

lemma newline_positions_split:
  "i \<le> j \<Longrightarrow> j \<le> k \<Longrightarrow>
     newline_positions s i k = newline_positions s i j @ newline_positions s j k"
  unfolding newline_positions_def by (metis filter_append le_add_diff_inverse upt_add_eq_append)

lemma newline_offsets_eq:
  "p \<le> length s \<Longrightarrow> newline_offsets s p = map Suc (newline_positions s p (length s))"
proof (induction s p rule: newline_offsets.induct)
  case (1 s p)
  show ?case
  proof (cases "str_find CH_LF s p")
    case None
    have "\<forall>k \<in> set [p..<length s]. s ! k \<noteq> CH_LF"
    proof
      fix k assume "k \<in> set [p..<length s]"
      then have "s ! k \<in> set (drop p s)" by (simp add: nth_in_drop)
      with None show "s ! k \<noteq> CH_LF" by (auto simp: str_find_None)
    qed
    then have "newline_positions s p (length s) = []"
      by (simp add: newline_positions_def)
    with None show ?thesis by (simp add: newline_offsets.simps [of s p])
  next
    case (Some j)
    note F = str_find_Some [OF Some]
    have "newline_positions s p (length s) = newline_positions s p j @ newline_positions s j (length s)"
      using F by (intro newline_positions_split) auto
    moreover have "newline_positions s p j = []"
      using F(4) by (auto simp: newline_positions_def)
    moreover have "newline_positions s j (length s) = j # newline_positions s (Suc j) (length s)"
      using F(2,3) by (simp add: newline_positions_def upt_conv_Cons)
    moreover have "newline_offsets s (j + 1) = map Suc (newline_positions s (j + 1) (length s))"
      using "1.IH" [OF Some] F(2) by simp
    ultimately show ?thesis by (simp add: newline_offsets.simps [of s p] Some)
  qed
qed

lemma count_newlines_positions:
  "p \<le> length s \<Longrightarrow> count_list (take p s) CH_LF = length (newline_positions s 0 p)"
  by (induction p) (auto simp: newline_positions_def take_Suc_conv_app_nth)

lemma rfind_newline_positions:
  "p \<le> length s \<Longrightarrow>
     str_rfind CH_LF s p =
       (if newline_positions s 0 p = [] then None else Some (last (newline_positions s 0 p)))"
  by (induction p)
    (auto simp: newline_positions_def str_rfind_def take_Suc_conv_app_nth rfind_in_snoc)

text \<open>The binary search returns the last index whose entry is at most \<open>p\<close>.\<close>

lemma bisect_line_spec:
  assumes "sorted_wrt (<) offs" "left \<le> right" "right < length offs" "offs ! left \<le> p"
    "\<And>k. right < k \<Longrightarrow> k < length offs \<Longrightarrow> p < offs ! k"
  shows "bisect_line offs p left right < length offs \<and> offs ! bisect_line offs p left right \<le> p \<and>
    (\<forall>k. bisect_line offs p left right < k \<and> k < length offs \<longrightarrow> p < offs ! k)"
  using assms
proof (induction offs p left right rule: bisect_line.induct)
  case (1 offs p left right)
  show ?case
  proof (cases "left < right")
    case False
    then have "bisect_line offs p left right = left"
      by (simp add: bisect_line.simps [of offs p left right])
    with False "1.prems" show ?thesis by auto
  next
    case True
    define mid where "mid = (left + right + 1) div 2"
    with True have mid: "left < mid" "mid \<le> right" by auto
    have step: "bisect_line offs p left right =
        (if offs ! mid \<le> p then bisect_line offs p mid right else bisect_line offs p left (mid - 1))"
      using True by (simp only: bisect_line.simps [of offs p left right] mid_def Let_def if_True)
    show ?thesis
    proof (cases "offs ! mid \<le> p")
      case le: True
      then show ?thesis
        using "1.IH"(1) [OF True mid_def le] "1.prems" mid True
        by (simp add: step)
    next
      case gt: False
      have "p < offs ! k" if "mid - 1 < k" "k < length offs" for k
      proof (cases "k = mid")
        case False
        with that have "mid < k" by simp
        with that "1.prems"(1) have "offs ! mid < offs ! k" by (simp add: sorted_wrt_nth_less)
        with gt show ?thesis by simp
      qed (use gt in simp)
      with gt show ?thesis
        using "1.IH"(2) [OF True mid_def gt] "1.prems" mid True
        by (simp add: step)
    qed
  qed
qed

lemma newline_positions_sorted: "sorted_wrt (<) (newline_positions s i j)"
  by (simp add: newline_positions_def sorted_wrt_filter)

lemma newline_positions_bounds: "k \<in> set (newline_positions s i j) \<Longrightarrow> i \<le> k \<and> k < j"
  by (auto simp: newline_positions_def)

lemma bisect_line_offsets:
  fixes s :: ustr
  assumes p: "p \<le> length s"
  defines "offs \<equiv> 0 # newline_offsets s 0"
  shows "bisect_line offs p 0 (length offs - 1) = length (newline_positions s 0 p)"
    (is "?b = length ?before")
proof -
  let ?after = "newline_positions s p (length s)"
  have offs: "offs = 0 # map Suc ?before @ map Suc ?after"
    using p by (simp add: offs_def newline_offsets_eq newline_positions_split [of 0 p "length s"])
  have "sorted_wrt (<) offs"
    using newline_positions_sorted [of s 0 "length s"]
    by (auto simp: offs_def newline_offsets_eq sorted_wrt_map)
  then have B: "?b < length offs" "offs ! ?b \<le> p" "\<And>k. ?b < k \<Longrightarrow> k < length offs \<Longrightarrow> p < offs ! k"
    using bisect_line_spec [of offs 0 "length offs - 1" p] by (auto simp: offs_def)
  have low: "offs ! length ?before \<le> p"
  proof (cases "?before = []")
    case False
    then have "offs ! length ?before = Suc (last ?before)"
      by (simp add: offs nth_append nth_Cons' last_conv_nth)
    with False newline_positions_bounds [of "last ?before" s 0 p] show ?thesis by simp
  qed (simp add: offs)
  have high: "p < offs ! k" if "length ?before < k" "k < length offs" for k
  proof -
    from that have "offs ! k \<in> set (map Suc ?after)"
      by (auto simp: offs nth_append nth_Cons' intro!: nth_mem)
    then show ?thesis by (auto dest!: newline_positions_bounds)
  qed
  have "length ?before < length offs" by (simp add: offs)
  with B low high show ?thesis by (metis linorder_neqE_nat not_less)
qed

lemma get_line_col_mk_cache:
  assumes p: "p \<le> length s"
  shows "get_line_col (mk_line_offset_cache s) (int p) = compute_line_col \<lparr>source = s, pos = p\<rparr>"
proof -
  let ?before = "newline_positions s 0 p"
  let ?offs = "0 # newline_offsets s 0"
  have b: "bisect_line ?offs p 0 (length ?offs - 1) = length ?before"
    using p by (rule bisect_line_offsets)
  have o: "?offs ! length ?before = (if ?before = [] then 0 else Suc (last ?before))"
    using p
    by (simp add: newline_offsets_eq newline_positions_split [of 0 p "length s"]
        nth_append nth_Cons' last_conv_nth)
  have "last ?before < p" if "?before \<noteq> []"
    using that newline_positions_bounds [of "last ?before" s 0 p] by simp
  then have "?before \<noteq> [] \<longrightarrow> Suc (p - Suc (last ?before)) = p - last ?before"
    by (simp add: Suc_diff_Suc)
  with p b o show ?thesis
    by (simp add: get_line_col_def mk_line_offset_cache_def compute_line_col_def Let_def
        count_newlines_before_def count_newlines_positions rfind_newline_positions)
qed

end
