(* ===== verification/Primitives.thy ===== *)
theory Primitives
  imports Cursor Ast
begin

text \<open>
  \<open>syntax/parser/primitives.py\<close>: identifiers, number literals, string literals and
  their escape sequences.  A failure is a \<open>ParseError\<close> value.  The lemmas state what
  each parser consumes and returns, and that what it returns lies in the grammar.
\<close>

definition MAX_NUMBER_LENGTH :: nat where
  "MAX_NUMBER_LENGTH = 1000"

definition MAX_STRING_LITERAL_LENGTH :: nat where
  "MAX_STRING_LITERAL_LENGTH = 1000000"

definition is_hex_digit :: "uchar \<Rightarrow> bool" where
  "is_hex_digit ch \<longleftrightarrow>
     is_ascii_digit ch \<or> (97 \<le> ch \<and> ch \<le> 102) \<or> (65 \<le> ch \<and> ch \<le> 70)"

lemma cur_measure: "cur c = Some ch \<Longrightarrow> length (source (adv c)) - pos (adv c) < length (source c) - pos c"
  by (auto simp: pos_adv cur_Some_iff)

text \<open>
  The loops that consume one character class and fail once the token that began at
  \<open>start_pos\<close> is longer than its limit:
  \<open>while not cursor.is_eof and P(cursor.current): cursor = cursor.advance(); if cursor.pos - start_pos > limit: return ParseError(...)\<close>.
\<close>

function bounded_scan ::
    "(uchar \<Rightarrow> bool) \<Rightarrow> nat \<Rightarrow> ustr \<Rightarrow> nat \<Rightarrow> cursor \<Rightarrow> parse_error + cursor" where
  "bounded_scan P limit msg start_pos c =
     (case cur c of
        None \<Rightarrow> Inr c
      | Some ch \<Rightarrow>
          if P ch
          then let c' = adv c
               in if limit < pos c' - start_pos then Inl (mk_parse_error msg c' [])
                  else bounded_scan P limit msg start_pos c'
          else Inr c)"
  by pat_completeness auto
termination
  by (relation "measure (\<lambda>(P, limit, msg, s, c). length (source c) - pos c)") (auto dest: cur_measure)

declare bounded_scan.simps [simp del]

section \<open>Identifiers\<close>

definition identifier_loop :: "nat \<Rightarrow> cursor \<Rightarrow> parse_error + cursor" where
  "identifier_loop =
     bounded_scan is_identifier_char MAX_IDENTIFIER_LENGTH
       (u ''Identifier exceeds maximum length (256 chars)'')"

definition parse_identifier :: "cursor \<Rightarrow> parse_error + ustr parse_result" where
  "parse_identifier c =
     (let failed = Inl (mk_parse_error
            (u ''Expected identifier (must start with ASCII letter a-z or A-Z)'') c [u ''a-z'', u ''A-Z''])
      in case cur c of
           None \<Rightarrow> failed
         | Some ch \<Rightarrow>
             if \<not> is_identifier_start ch then failed
             else let start_pos = pos c
                  in case identifier_loop start_pos (adv c) of
                       Inl e \<Rightarrow> Inl e
                     | Inr c' \<Rightarrow> Inr (str_slice (source c') start_pos (pos c'), c'))"

section \<open>Numbers\<close>

definition parse_number_value :: "ustr \<Rightarrow> py_error + number_value" where
  "parse_number_value num_str =
     (if CH_DOT \<notin> set num_str
      then (case py_int num_str of None \<Rightarrow> Inl ValueError | Some i \<Rightarrow> Inr (IntValue i))
      else (case py_decimal num_str of None \<Rightarrow> Inl ValueError | Some d \<Rightarrow> Inr (DecimalValue d)))"

definition digits_loop :: "nat \<Rightarrow> cursor \<Rightarrow> parse_error + cursor" where
  "digits_loop =
     bounded_scan is_ascii_digit MAX_NUMBER_LENGTH
       (u ''Number exceeds maximum length (1000 chars)'')"

definition at_digit :: "cursor \<Rightarrow> bool" where
  "at_digit c = (case cur c of None \<Rightarrow> False | Some ch \<Rightarrow> is_ascii_digit ch)"

definition parse_number :: "cursor \<Rightarrow> parse_error + ustr parse_result" where
  "parse_number c =
     (let start_pos = pos c;
          c = (if cur c = Some CH_MINUS then adv c else c)
      in if \<not> at_digit c then Inl (mk_parse_error (u ''Expected number'') c [u ''0-9''])
         else case digits_loop start_pos c of
           Inl e \<Rightarrow> Inl e
         | Inr c \<Rightarrow>
             (if cur c = Some CH_DOT
              then let c = adv c
                   in if \<not> at_digit c
                      then Inl (mk_parse_error (u ''Expected digit after decimal point'') c [u ''0-9''])
                      else case digits_loop start_pos c of
                             Inl e \<Rightarrow> Inl e
                           | Inr c \<Rightarrow> Inr (str_slice (source c) start_pos (pos c), c)
              else Inr (str_slice (source c) start_pos (pos c), c)))"

section \<open>Escape sequences and string literals\<close>

definition hex_digit_value :: "uchar \<Rightarrow> nat" where
  "hex_digit_value ch =
     (if is_ascii_digit ch then ch - 48 else if 97 \<le> ch then ch - 87 else ch - 55)"

definition hex_value :: "ustr \<Rightarrow> nat" where
  "hex_value ds = foldl (\<lambda>acc ch. 16 * acc + hex_digit_value ch) 0 ds"

definition parse_escape_sequence :: "cursor \<Rightarrow> parse_error + uchar parse_result" where
  "parse_escape_sequence c =
     (case cur c of
        None \<Rightarrow> Inl (mk_parse_error (u ''Unexpected EOF in escape sequence'') c [])
      | Some escape_ch \<Rightarrow>
          if escape_ch = CH_QUOTE then Inr (CH_QUOTE, adv c)
          else if escape_ch = CH_BACKSLASH then Inr (CH_BACKSLASH, adv c)
          else if escape_ch = 110 then Inr (CH_LF, adv c)
          else if escape_ch = 116 then Inr (CH_TAB, adv c)
          else if escape_ch = 117 then
            (let c = adv c;
                 hex_digits = slice_ahead c 4
             in if length hex_digits < 4 \<or> \<not> list_all is_hex_digit hex_digits
                then Inl (mk_parse_error (u ''Invalid Unicode escape (expected 4 hex digits)'') c
                            [u ''0-9'', u ''a-f'', u ''A-F''])
                else let c = adv_by c 4;
                         code_point = hex_value hex_digits
                     in if 0xD800 \<le> code_point \<and> code_point \<le> 0xDFFF
                        then Inl (mk_parse_error
                               (u ''Invalid surrogate code point: U+'' @ hex_digits @
                                u '' (surrogates not allowed)'') c [])
                        else Inr (code_point, c))
          else if escape_ch = 85 then
            (let c = adv c;
                 hex_digits = slice_ahead c 6
             in if length hex_digits < 6 \<or> \<not> list_all is_hex_digit hex_digits
                then Inl (mk_parse_error (u ''Invalid Unicode escape (expected 6 hex digits)'') c
                            [u ''0-9'', u ''a-f'', u ''A-F''])
                else let c = adv_by c 6;
                         code_point = hex_value hex_digits
                     in if 0x10FFFF < code_point
                        then Inl (mk_parse_error
                               (u ''Invalid Unicode code point: U+'' @ hex_digits @
                                u '' (max U+10FFFF)'') c [])
                        else if 0xD800 \<le> code_point \<and> code_point \<le> 0xDFFF
                        then Inl (mk_parse_error
                               (u ''Invalid surrogate code point: U+'' @ hex_digits @
                                u '' (surrogates not allowed)'') c [])
                        else Inr (code_point, c))
          else Inl (mk_parse_error (u ''Invalid escape sequence: '' @ [CH_BACKSLASH, escape_ch]) c []))"

lemma parse_escape_sequence_advances:
  assumes "parse_escape_sequence c = Inr (ch, c')"
  shows "advances c c'"
proof -
  from assms obtain e where e: "cur c = Some e"
    by (auto simp: parse_escape_sequence_def split: option.splits)
  have "c' = adv c \<or> c' = adv_by (adv c) 4 \<or> c' = adv_by (adv c) 6"
    using assms e by (auto simp: parse_escape_sequence_def Let_def split: if_splits)
  moreover have "pos c < pos (adv c)" using e by (simp add: adv_less)
  moreover have "pos (adv c) \<le> pos (adv_by (adv c) n)" for n by (simp add: pos_adv_by_ge)
  ultimately show ?thesis
    unfolding advances_def by (metis less_le_trans source_adv source_adv_by wf_adv wf_adv_by)
qed

function string_loop :: "ustr \<Rightarrow> cursor \<Rightarrow> parse_error + ustr parse_result" where
  "string_loop chars c =
     (case cur c of
        None \<Rightarrow> Inl (mk_parse_error (u ''Unterminated string literal'') c [[CH_QUOTE]])
      | Some ch \<Rightarrow>
          if MAX_STRING_LITERAL_LENGTH < length chars
          then Inl (mk_parse_error (u ''String literal exceeds maximum length (1000000 chars)'') c [])
          else if ch = CH_QUOTE then Inr (chars, adv c)
          else if ch = CH_LF
          then Inl (mk_parse_error
                 (u ''Line endings not allowed in string literals (use '' @
                  [CH_BACKSLASH, 110] @ u '' escape)'') c [])
          else if ch = CH_BACKSLASH
          then (case parse_escape_sequence (adv c) of
                  Inl e \<Rightarrow> Inl e
                | Inr (escaped_char, c') \<Rightarrow> string_loop (chars @ [escaped_char]) c')
          else string_loop (chars @ [ch]) (adv c))"
  by pat_completeness auto
termination
proof (relation "measure (\<lambda>(chars, c). length (source c) - pos c)", goal_cases)
  case (2 chars c ch r escaped c')
  then have "advances (adv c) c'" by (auto dest: parse_escape_sequence_advances)
  with 2(1) show ?case by (auto simp: advances_def pos_adv cur_Some_iff)
qed (auto dest: cur_measure)

declare string_loop.simps [simp del]

definition parse_string_literal :: "cursor \<Rightarrow> parse_error + ustr parse_result" where
  "parse_string_literal c =
     (if cur c \<noteq> Some CH_QUOTE
      then Inl (mk_parse_error (u ''Expected opening quote'') c [[CH_QUOTE]])
      else string_loop [] (adv c))"


section \<open>What the primitives consume and return\<close>

lemma bounded_scan_iff:
  "bounded_scan P limit msg start_pos c = Inr c' \<longleftrightarrow>
     c' = c\<lparr>pos := scan_while P (source c) (pos c)\<rparr> \<and>
     (pos c' = pos c \<or> pos c' - start_pos \<le> limit)"
proof (induction P limit msg start_pos c rule: bounded_scan.induct)
  case (1 P limit msg start_pos c)
  show ?case
  proof (cases "\<exists>ch. cur c = Some ch \<and> P ch")
    case True
    then obtain ch where ch: "cur c = Some ch" "P ch" by blast
    then have scan: "scan_while P (source c) (pos c) = scan_while P (source c) (Suc (pos c))"
      by (subst scan_while.simps) (simp add: cur_Some_iff)
    have adv: "adv c = c\<lparr>pos := Suc (pos c)\<rparr>"
      using ch by (auto simp: adv_def adv_by_def cur_Some_iff)
    have ge: "Suc (pos c) \<le> scan_while P (source c) (Suc (pos c))" by (rule scan_while_ge)
    show ?thesis
    proof (cases "limit < pos (adv c) - start_pos")
      case long: True
      with ge show ?thesis
        by (auto simp: bounded_scan.simps [of P limit msg start_pos c] ch scan adv)
    next
      case False
      with ch ge 1 [OF ch refl False] show ?thesis
        by (auto simp: bounded_scan.simps [of P limit msg start_pos c] scan adv)
    qed
  next
    case False
    then have "scan_while P (source c) (pos c) = pos c"
      by (subst scan_while.simps) (auto simp: cur_Some_iff)
    with False show ?thesis
      by (auto simp: bounded_scan.simps [of P limit msg start_pos c] split: option.splits)
  qed
qed

lemma str_slice_scan_while: "list_all P (str_slice s i (scan_while P s i))"
  by (auto simp: list_all_iff dest!: set_str_slice scan_while_all)

lemma str_slice_Cons:
  "i < j \<Longrightarrow> i < length s \<Longrightarrow> str_slice s i j = s ! i # str_slice s (Suc i) j"
  by (simp add: str_slice_def Cons_nth_drop_Suc [symmetric])

lemma cur_scan_while:
  "cur (c\<lparr>pos := scan_while P (source c) (pos c)\<rparr>) = Some ch \<Longrightarrow> \<not> P ch"
  using scan_while_stop [of P "source c" "pos c"] by (auto simp: cur_Some_iff)

lemma parse_identifier_Inr:
  assumes "parse_identifier c = Inr (name, c')"
  shows "advances c c'" "grammar_identifier name" "name = str_slice (source c) (pos c) (pos c')"
    "\<And>ch. cur c' = Some ch \<Longrightarrow> \<not> is_identifier_char ch"
proof -
  from assms obtain ch where ch: "cur c = Some ch" "is_identifier_start ch"
    and loop: "identifier_loop (pos c) (adv c) = Inr c'"
    and name: "name = str_slice (source c') (pos c) (pos c')"
    by (auto simp: parse_identifier_def Let_def split: option.splits if_splits sum.splits)
  define q where "q = scan_while is_identifier_char (source c) (Suc (pos c))"
  have adv: "adv c = c\<lparr>pos := Suc (pos c)\<rparr>"
    using ch by (auto simp: adv_def adv_by_def cur_Some_iff)
  have c': "c' = c\<lparr>pos := q\<rparr>" and lim: "q = Suc (pos c) \<or> q - pos c \<le> MAX_IDENTIFIER_LENGTH"
    using loop by (auto simp: identifier_loop_def bounded_scan_iff q_def adv)
  have q: "Suc (pos c) \<le> q" "q \<le> length (source c)"
    using ch by (auto simp: q_def scan_while_ge cur_Some_iff intro!: scan_while_le)
  then show "advances c c'" by (simp add: advances_def c' wf_cursor_def)
  show n: "name = str_slice (source c) (pos c) (pos c')" using name by (simp add: c')
  have "name = ch # str_slice (source c) (Suc (pos c)) q"
    using ch q n by (simp add: c' str_slice_Cons cur_Some_iff)
  moreover have "list_all is_identifier_char (str_slice (source c) (Suc (pos c)) q)"
    unfolding q_def by (rule str_slice_scan_while)
  moreover have "q - pos c \<le> MAX_IDENTIFIER_LENGTH"
    using lim by (auto simp: MAX_IDENTIFIER_LENGTH_def)
  ultimately show "grammar_identifier name"
    using ch q by (simp add: grammar_identifier_def)
  fix ch' assume "cur c' = Some ch'"
  then show "\<not> is_identifier_char ch'"
    using cur_scan_while [where c = "adv c" and P = is_identifier_char] by (simp add: c' q_def adv)
qed

lemma digits_loop_Inr:
  assumes "digits_loop st c = Inr c'" "wf_cursor c" "at_digit c"
  shows "advances c c'" "list_all is_ascii_digit (str_slice (source c) (pos c) (pos c'))"
    "pos c' - st \<le> MAX_NUMBER_LENGTH" "\<not> at_digit c'"
proof -
  define q where "q = scan_while is_ascii_digit (source c) (pos c)"
  have c': "c' = c\<lparr>pos := q\<rparr>" and lim: "q = pos c \<or> q - st \<le> MAX_NUMBER_LENGTH"
    using assms(1) by (auto simp: digits_loop_def bounded_scan_iff q_def)
  obtain ch where ch: "cur c = Some ch" "is_ascii_digit ch"
    using assms(3) by (auto simp: at_digit_def split: option.splits)
  then have "q = scan_while is_ascii_digit (source c) (Suc (pos c))"
    unfolding q_def by (subst scan_while.simps) (simp add: cur_Some_iff)
  then have "pos c < q" using scan_while_ge [of "Suc (pos c)" is_ascii_digit "source c"] by simp
  moreover have "q \<le> length (source c)"
    using assms(2) by (simp add: q_def scan_while_le wf_cursor_def)
  ultimately show "advances c c'" "pos c' - st \<le> MAX_NUMBER_LENGTH"
    using lim by (auto simp: advances_def c' wf_cursor_def)
  show "list_all is_ascii_digit (str_slice (source c) (pos c) (pos c'))"
    by (simp add: c' q_def str_slice_scan_while)
  show "\<not> at_digit c'"
    using cur_scan_while [where c = c and P = is_ascii_digit] by (auto simp: at_digit_def c' q_def split: option.splits)
qed


text \<open>The shape of a number literal, and that converting it cannot fail.\<close>

definition number_shape :: "ustr \<Rightarrow> bool" where
  "number_shape raw \<longleftrightarrow>
     (\<exists>sign ds. sign \<in> {[], [CH_MINUS]} \<and> ds \<noteq> [] \<and> list_all is_ascii_digit ds \<and>
        (raw = sign @ ds \<or>
         (\<exists>fs. fs \<noteq> [] \<and> list_all is_ascii_digit fs \<and> raw = sign @ ds @ CH_DOT # fs)))"

lemma digits_no_dot: "list_all is_ascii_digit ds \<Longrightarrow> CH_DOT \<notin> set ds \<and> CH_MINUS \<notin> set ds"
  by (auto simp: list_all_iff is_ascii_digit_def)

lemma strip_minus_shape:
  assumes "sign \<in> {[], [CH_MINUS]}" "ds \<noteq> []" "list_all is_ascii_digit ds"
  shows "strip_minus (sign @ ds @ rest) = (sign \<noteq> [], ds @ rest)"
  using assms by (cases ds) (auto simp: strip_minus_def is_ascii_digit_def)

lemma number_shape_value:
  assumes "number_shape raw"
  shows "\<exists>v. parse_number_value raw = Inr v \<and> number_literal_ok v raw"
proof -
  from assms obtain sign ds where sign: "sign \<in> {[], [CH_MINUS]}"
    and ds: "ds \<noteq> []" "list_all is_ascii_digit ds"
    and raw: "raw = sign @ ds \<or> (\<exists>fs. fs \<noteq> [] \<and> list_all is_ascii_digit fs \<and> raw = sign @ ds @ CH_DOT # fs)"
    by (auto simp: number_shape_def)
  from raw show ?thesis
  proof
    assume raw: "raw = sign @ ds"
    have "CH_DOT \<notin> set raw" using sign digits_no_dot [OF ds(2)] by (auto simp: raw)
    moreover have "py_int raw \<noteq> None"
      using strip_minus_shape [OF sign ds, of "[]"] ds by (simp add: py_int_def raw)
    ultimately show ?thesis
      by (auto simp: parse_number_value_def number_literal_ok_def)
  next
    assume "\<exists>fs. fs \<noteq> [] \<and> list_all is_ascii_digit fs \<and> raw = sign @ ds @ CH_DOT # fs"
    then obtain fs where fs: "fs \<noteq> []" "list_all is_ascii_digit fs" and raw: "raw = sign @ ds @ CH_DOT # fs"
      by blast
    have dw: "takeWhile (\<lambda>ch. ch \<noteq> CH_DOT) (ds @ CH_DOT # fs) = ds"
      "dropWhile (\<lambda>ch. ch \<noteq> CH_DOT) (ds @ CH_DOT # fs) = CH_DOT # fs"
      using digits_no_dot [OF ds(2)] by (auto simp: takeWhile_append dropWhile_append)
    have "py_decimal raw \<noteq> None"
      using strip_minus_shape [OF sign ds, of "CH_DOT # fs"] ds fs dw by (simp add: py_decimal_def raw)
    moreover have "CH_DOT \<in> set raw" by (simp add: raw)
    ultimately show ?thesis
      by (auto simp: parse_number_value_def number_literal_ok_def decimal_eq_def)
  qed
qed

lemma parse_number_Inr:
  assumes "parse_number c = Inr (raw, c')"
  shows "advances c c'" "number_shape raw" "raw = str_slice (source c) (pos c) (pos c')"
    "length raw \<le> MAX_NUMBER_LENGTH"
proof -
  define c1 where "c1 = (if cur c = Some CH_MINUS then adv c else c)"
  have d1: "at_digit c1" using assms by (auto simp: parse_number_def c1_def Let_def split: if_splits)
  then have wf1: "wf_cursor c1" by (auto simp: at_digit_def intro: cur_wf split: option.splits)
  obtain c2 where l2: "digits_loop (pos c) c1 = Inr c2"
    using assms d1 by (auto simp: parse_number_def c1_def Let_def split: if_splits sum.splits)
  note D2 = digits_loop_Inr [OF l2 wf1 d1]
  have s1: "source c1 = source c" by (simp add: c1_def)
  have p1: "pos c \<le> pos c1" by (auto simp: c1_def pos_adv)
  let ?sign = "str_slice (source c) (pos c) (pos c1)"
  let ?ds = "str_slice (source c) (pos c1) (pos c2)"
  have sign: "?sign \<in> {[], [CH_MINUS]}"
    by (auto simp: c1_def pos_adv str_slice_Cons cur_Some_iff)
  have ds: "?ds \<noteq> []" "list_all is_ascii_digit ?ds"
    using D2(1,2) by (auto simp: advances_def s1 wf_cursor_def simp flip: length_0_conv)
  have wf2: "wf_cursor c2" "source c2 = source c" "pos c1 < pos c2" using D2(1) by (simp_all add: advances_def s1)
  have bd: "length (str_slice (source c) (pos c) j) \<le> j - pos c" for j by simp
  have "advances c c' \<and> number_shape raw \<and> raw = str_slice (source c) (pos c) (pos c') \<and>
      length raw \<le> MAX_NUMBER_LENGTH"
  proof (cases "cur c2 = Some CH_DOT")
    case False
    then have c': "c' = c2" and raw: "raw = str_slice (source c) (pos c) (pos c2)"
      using assms d1 l2 wf2(2) by (auto simp: parse_number_def c1_def [symmetric] Let_def)
    have "raw = ?sign @ ?ds"
      using p1 wf2 by (simp add: raw str_slice_append wf_cursor_def)
    then have "number_shape raw" unfolding number_shape_def using sign ds by blast
    then show ?thesis
      using wf2 p1 D2(3) raw bd [of "pos c2"] by (auto simp: advances_def c')
  next
    case dot: True
    define c3 where "c3 = adv c2"
    have p3: "pos c3 = Suc (pos c2)" "source c3 = source c" "wf_cursor c3"
      using dot wf2 by (simp_all add: c3_def pos_adv)
    have d3: "at_digit c3"
      using assms d1 l2 dot by (auto simp: parse_number_def c1_def [symmetric] c3_def Let_def split: if_splits)
    obtain c4 where l4: "digits_loop (pos c) c3 = Inr c4"
      and c': "c' = c4" and raw: "raw = str_slice (source c4) (pos c) (pos c4)"
      using assms d1 l2 dot d3
      by (auto simp: parse_number_def c1_def [symmetric] c3_def Let_def split: sum.splits)
    note D4 = digits_loop_Inr [OF l4 p3(3) d3]
    let ?fs = "str_slice (source c) (pos c3) (pos c4)"
    have wf4: "wf_cursor c4" "source c4 = source c" "pos c3 < pos c4" using D4(1) by (simp_all add: advances_def p3)
    have fs: "?fs \<noteq> []" "list_all is_ascii_digit ?fs"
      using D4(2) wf4 by (auto simp: p3 wf_cursor_def simp flip: length_0_conv)
    have "str_slice (source c) (pos c2) (pos c3) = [CH_DOT]"
      using dot wf2(2) by (simp add: p3 str_slice_Cons cur_Some_iff)
    moreover have "raw = ?sign @ ?ds @ str_slice (source c) (pos c2) (pos c3) @ ?fs"
      using p1 p3 wf2 wf4 by (simp add: raw str_slice_append wf_cursor_def)
    ultimately have "raw = ?sign @ ?ds @ CH_DOT # ?fs" by simp
    then have "number_shape raw" unfolding number_shape_def using sign ds fs by blast
    then show ?thesis
      using wf2 wf4 p1 p3 D4(3) raw bd [of "pos c4"] by (auto simp: advances_def c')
  qed
  then show "advances c c'" "number_shape raw" "raw = str_slice (source c) (pos c) (pos c')"
    "length raw \<le> MAX_NUMBER_LENGTH" by blast+
qed

lemma hex_value_less: "list_all is_hex_digit ds \<Longrightarrow> hex_value ds < 16 ^ length ds"
proof (induction ds rule: rev_induct)
  case Nil
  then show ?case by (simp add: hex_value_def)
next
  case (snoc d ds)
  then have "hex_digit_value d < 16"
    by (auto simp: hex_digit_value_def is_hex_digit_def is_ascii_digit_def)
  with snoc show ?case by (simp add: hex_value_def)
qed

text \<open>An escape sequence never denotes a surrogate or a value beyond the Unicode range.\<close>

definition is_scalar_value :: "uchar \<Rightarrow> bool" where
  "is_scalar_value ch \<longleftrightarrow> ch \<le> 0x10FFFF \<and> \<not> (0xD800 \<le> ch \<and> ch \<le> 0xDFFF)"

lemma parse_escape_sequence_scalar:
  assumes "parse_escape_sequence c = Inr (ch, c')"
  shows "is_scalar_value ch"
proof -
  have "hex_value ds \<le> 0x10FFFF" if "length ds = 4" "list_all is_hex_digit ds" for ds
    using hex_value_less [OF that(2)] that(1) by simp
  moreover have "length (slice_ahead (adv c) 4) \<le> 4" by (simp add: slice_ahead_def)
  ultimately show ?thesis
    using assms
    by (auto simp: parse_escape_sequence_def is_scalar_value_def Let_def not_less
        dest!: le_antisym split: option.splits if_splits)
qed

lemma string_loop_Inr:
  "string_loop chars c = Inr (s, c') \<Longrightarrow>
     advances c c' \<and> length s \<le> MAX_STRING_LITERAL_LENGTH \<and> (\<exists>more. s = chars @ more)"
proof (induction chars c rule: string_loop.induct)
  case (1 chars c)
  from "1.prems" obtain ch where ch: "cur c = Some ch"
    by (auto simp: string_loop.simps [of chars c] split: option.splits)
  have adv: "advances c (adv c)" using ch by (simp add: advances_def pos_adv)
  have len: "\<not> MAX_STRING_LITERAL_LENGTH < length chars"
    using "1.prems" ch by (auto simp: string_loop.simps [of chars c] split: if_splits)
  have lf: "ch \<noteq> CH_LF"
    using "1.prems" ch len by (auto simp: string_loop.simps [of chars c])
  show ?case
  proof (cases "ch = CH_QUOTE")
    case True
    with "1.prems" ch len adv show ?thesis by (simp add: string_loop.simps [of chars c])
  next
    case nq: False
    show ?thesis
    proof (cases "ch = CH_BACKSLASH")
      case bs: True
      with "1.prems" ch len nq lf obtain e c1 where
        e: "parse_escape_sequence (adv c) = Inr (e, c1)" "string_loop (chars @ [e]) c1 = Inr (s, c')"
        by (auto simp: string_loop.simps [of chars c] split: sum.splits)
      have "advances (adv c) c1" using e(1) by (rule parse_escape_sequence_advances)
      moreover have "advances c1 c' \<and> length s \<le> MAX_STRING_LITERAL_LENGTH \<and> (\<exists>more. s = (chars @ [e]) @ more)"
        using "1.IH"(1) [OF ch len nq lf bs e(1) refl e(2)] by simp
      ultimately show ?thesis using adv by (auto simp: advances_def)
    next
      case False
      with "1.prems" ch len nq lf have "string_loop (chars @ [ch]) (adv c) = Inr (s, c')"
        by (simp add: string_loop.simps [of chars c])
      from "1.IH"(2) [OF ch len nq lf False this] adv show ?thesis by (auto simp: advances_def)
    qed
  qed
qed

lemma parse_string_literal_Inr:
  assumes "parse_string_literal c = Inr (s, c')"
  shows "advances c c'" "length s \<le> MAX_STRING_LITERAL_LENGTH"
proof -
  have q: "cur c = Some CH_QUOTE" using assms by (auto simp: parse_string_literal_def split: if_splits)
  then have "advances c (adv c)" by (simp add: advances_def pos_adv)
  with assms q string_loop_Inr [of "[]" "adv c" s c'] show "advances c c'" "length s \<le> MAX_STRING_LITERAL_LENGTH"
    by (auto simp: parse_string_literal_def advances_def)
qed

end
