(* ===== verification/Whitespace.thy ===== *)
theory Whitespace
  imports Cursor
begin

text \<open>
  \<open>syntax/parser/whitespace.py\<close>: skipping inline blanks and blank lines, and deciding
  whether the next line continues an indented pattern.
\<close>

text \<open>\<open>while not cursor.is_eof and P(cursor.current): cursor = cursor.advance()\<close>\<close>

definition adv_while :: "(uchar \<Rightarrow> bool) \<Rightarrow> cursor \<Rightarrow> cursor" where
  "adv_while P c = c\<lparr>pos := scan_while P (source c) (pos c)\<rparr>"

definition skip_blank_inline :: "cursor \<Rightarrow> cursor" where
  "skip_blank_inline c = skip_spaces c"

definition skip_blank :: "cursor \<Rightarrow> cursor" where
  "skip_blank c = skip_whitespace c"

definition is_indented_continuation :: "cursor \<Rightarrow> bool" where
  "is_indented_continuation c =
     (if cur c \<noteq> Some CH_LF then False
      else let next_cursor = adv_while (\<lambda>ch. ch = CH_LF) (adv c)
           in if cur next_cursor \<noteq> Some CH_SPACE then False
              else let next_cursor = adv_while (\<lambda>ch. ch = CH_SPACE) next_cursor
                   in \<not> (case cur next_cursor of
                            None \<Rightarrow> False
                          | Some ch \<Rightarrow> ch \<in> {CH_LBRACKET, CH_STAR, CH_DOT, CH_RBRACE}))"

definition skip_multiline_pattern_start :: "cursor \<Rightarrow> cursor \<times> nat" where
  "skip_multiline_pattern_start c =
     (let c = skip_blank_inline c
      in if cur c = Some CH_LF \<and> is_indented_continuation c
         then let c = adv_while (\<lambda>ch. ch = CH_LF) (adv c);
                  c' = adv_while (\<lambda>ch. ch = CH_SPACE) c;
                  indent_count = pos c' - pos c
              in (c', indent_count)
         else (c, 0))"

lemma source_adv_while [simp]: "source (adv_while P c) = source c"
  by (simp add: adv_while_def)

lemma adv_while_ge [simp]: "pos c \<le> pos (adv_while P c)"
  by (simp add: adv_while_def scan_while_ge)

lemma wf_adv_while [simp]: "wf_cursor c \<Longrightarrow> wf_cursor (adv_while P c)"
  by (simp add: adv_while_def wf_cursor_def scan_while_le)

lemma cur_adv_while: "cur (adv_while P c) = Some ch \<Longrightarrow> \<not> P ch"
  using scan_while_stop [of P "source c" "pos c"] by (auto simp: adv_while_def cur_Some_iff)

lemma adv_while_unfold:
  "adv_while P c = (case cur c of None \<Rightarrow> c | Some ch \<Rightarrow> if P ch then adv_while P (adv c) else c)"
proof (cases "cur c")
  case None
  then have "length (source c) \<le> pos c" by (simp add: cur_None_iff)
  with None show ?thesis by (simp add: adv_while_def scan_while.simps [of P "source c" "pos c"])
next
  case (Some ch)
  then have "adv c = c\<lparr>pos := Suc (pos c)\<rparr>" by (auto simp: adv_def adv_by_def cur_Some_iff)
  moreover from Some have "pos c < length (source c)" "source c ! pos c = ch"
    by (simp_all add: cur_Some_iff)
  ultimately show ?thesis
    by (simp add: Some adv_while_def scan_while.simps [of P "source c" "pos c"])
qed

lemma source_skip_blank [simp]: "source (skip_blank c) = source c"
  by (simp add: skip_blank_def)

lemma skip_blank_ge [simp]: "pos c \<le> pos (skip_blank c)"
  by (simp add: skip_blank_def)

lemma wf_skip_blank [simp]: "wf_cursor c \<Longrightarrow> wf_cursor (skip_blank c)"
  by (simp add: skip_blank_def)

lemma source_skip_blank_inline [simp]: "source (skip_blank_inline c) = source c"
  by (simp add: skip_blank_inline_def)

lemma skip_blank_inline_ge [simp]: "pos c \<le> pos (skip_blank_inline c)"
  by (simp add: skip_blank_inline_def)

lemma wf_skip_blank_inline [simp]: "wf_cursor c \<Longrightarrow> wf_cursor (skip_blank_inline c)"
  by (simp add: skip_blank_inline_def)

lemma skip_blank_moves: "wf_cursor c \<Longrightarrow> moves c (skip_blank c)"
  by (simp add: moves_def)

lemma skip_blank_inline_moves: "wf_cursor c \<Longrightarrow> moves c (skip_blank_inline c)"
  by (simp add: moves_def)

lemma adv_while_moves: "wf_cursor c \<Longrightarrow> moves c (adv_while P c)"
  by (simp add: moves_def)

lemma skip_multiline_pattern_start_moves:
  assumes "wf_cursor c" "skip_multiline_pattern_start c = (c', n)"
  shows "moves c c'"
proof -
  let ?b = "skip_blank_inline c"
  have b: "wf_cursor ?b" using assms(1) by simp
  have "moves c (adv_while (\<lambda>ch. ch = CH_SPACE) (adv_while (\<lambda>ch. ch = CH_LF) (adv ?b)))"
  proof -
    have "pos c \<le> pos ?b" by simp
    also have "\<dots> \<le> pos (adv ?b)" using b by (rule pos_adv_ge)
    also have "\<dots> \<le> pos (adv_while (\<lambda>ch. ch = CH_LF) (adv ?b))" by simp
    also have "\<dots> \<le> pos (adv_while (\<lambda>ch. ch = CH_SPACE) (adv_while (\<lambda>ch. ch = CH_LF) (adv ?b)))" by simp
    finally show ?thesis by (simp add: moves_def)
  qed
  moreover have "moves c ?b" using assms(1) by (simp add: moves_def)
  ultimately show ?thesis
    using assms(2) by (auto simp: skip_multiline_pattern_start_def Let_def split: if_splits)
qed

text \<open>A blank skip stops at the first character that is neither a space nor a line feed.\<close>

lemma cur_skip_blank: "cur (skip_blank c) = Some ch \<Longrightarrow> ch \<noteq> CH_SPACE \<and> ch \<noteq> CH_LF"
  using scan_while_stop [of "\<lambda>ch. ch = CH_SPACE \<or> ch = CH_LF" "source c" "pos c"]
  by (auto simp: skip_blank_def cur_Some_iff pos_skip_whitespace)

lemma skip_blank_skipped:
  "pos c \<le> k \<Longrightarrow> k < pos (skip_blank c) \<Longrightarrow> source c ! k = CH_SPACE \<or> source c ! k = CH_LF"
  using scan_while_all [of "pos c" k "\<lambda>ch. ch = CH_SPACE \<or> ch = CH_LF" "source c"]
  by (simp add: skip_blank_def pos_skip_whitespace)

lemma skip_blank_idem [simp]: "skip_blank (skip_blank c) = skip_blank c"
proof -
  let ?P = "\<lambda>ch. ch = CH_SPACE \<or> ch = CH_LF"
  have "scan_while ?P (source c) (scan_while ?P (source c) (pos c)) = scan_while ?P (source c) (pos c)"
    using scan_while_stop [of ?P "source c" "pos c"]
    by (subst scan_while.simps) auto
  then show ?thesis by (simp add: skip_blank_def skip_whitespace_def Let_def)
qed

end
