(* ===== verification/Parse_Context.thy ===== *)
theory Parse_Context
  imports Outcomes
begin

text \<open>
  \<open>syntax/parser/context.py\<close>: the nesting limit and the current depth a parse carries.
  The flag list the nested contexts share is the state the parsers of Outcomes thread.
\<close>

definition MAX_DEPTH :: nat where
  "MAX_DEPTH = 100"

record parse_context =
  max_nesting_depth :: nat
  current_depth :: nat

definition mk_parse_context :: "nat \<Rightarrow> parse_context" where
  "mk_parse_context m = \<lparr>max_nesting_depth = m, current_depth = 0\<rparr>"

definition is_depth_exceeded :: "parse_context \<Rightarrow> bool" where
  "is_depth_exceeded ctx \<longleftrightarrow> max_nesting_depth ctx \<le> current_depth ctx"

definition enter_nesting :: "parse_context \<Rightarrow> parse_context" where
  "enter_nesting ctx = ctx\<lparr>current_depth := current_depth ctx + 1\<rparr>"

definition mark_depth_exceeded :: "unit parser" where
  "mark_depth_exceeded = (\<lambda>flag. (Returns (), True))"

definition was_depth_exceeded :: "bool parser" where
  "was_depth_exceeded = (\<lambda>flag. (Returns flag, flag))"

text \<open>The nesting still allowed below a context.\<close>

definition depth_left :: "parse_context \<Rightarrow> nat" where
  "depth_left ctx = max_nesting_depth ctx - current_depth ctx"

lemma is_depth_exceeded_left: "is_depth_exceeded ctx \<longleftrightarrow> depth_left ctx = 0"
  by (auto simp: is_depth_exceeded_def depth_left_def)

lemma depth_left_enter: "depth_left (enter_nesting ctx) = depth_left ctx - 1"
  by (simp add: depth_left_def enter_nesting_def)

lemma depth_left_enter_Suc:
  "\<not> is_depth_exceeded ctx \<Longrightarrow> depth_left ctx = Suc (depth_left (enter_nesting ctx))"
  by (simp add: is_depth_exceeded_left depth_left_enter)

lemma depth_left_mk [simp]: "depth_left (mk_parse_context m) = m"
  by (simp add: depth_left_def mk_parse_context_def)

lemma safe_mark_depth_exceeded: "Q () \<Longrightarrow> safe Q mark_depth_exceeded"
  by (simp add: safe_def mark_depth_exceeded_def)

end
