(* ===== verification/Patterns.thy ===== *)
theory Patterns
  imports Primitives Whitespace Parse_Context
begin

text \<open>
  \<open>syntax/parser/patterns.py\<close>: the text-and-placeable patterns of messages, attributes
  and variants.  The module loads the placeable parser lazily; here it is the argument
  \<open>pp\<close>, and the locale \<open>placeable_parser\<close> states what the pattern parsers rely on.
  Its lemmas give termination, progress and well-formed results for both of them.
\<close>

type_synonym placeable_fn = "cursor \<Rightarrow> parse_context \<Rightarrow> placeable parse_result parser"

section \<open>Variant markers\<close>

definition MAX_LOOKAHEAD_CHARS :: nat where
  "MAX_LOOKAHEAD_CHARS = 300"

definition is_valid_variant_key_char :: "uchar \<Rightarrow> bool \<Rightarrow> bool" where
  "is_valid_variant_key_char ch is_first =
     (if is_first then is_identifier_start ch \<or> ch = CH_UNDERSCORE \<or> is_ascii_digit ch
      else is_identifier_char ch \<or> ch = CH_DOT)"

text \<open>The two loops over spaces, and the loop over the key, each counting its steps.\<close>

function marker_spaces :: "cursor \<Rightarrow> nat \<Rightarrow> cursor \<times> nat" where
  "marker_spaces scan lookahead_count =
     (if cur scan = Some CH_SPACE \<and> lookahead_count < MAX_LOOKAHEAD_CHARS
      then marker_spaces (adv scan) (lookahead_count + 1)
      else (scan, lookahead_count))"
  by pat_completeness auto
termination
  by (relation "measure (\<lambda>(c, k). MAX_LOOKAHEAD_CHARS - k)") auto

declare marker_spaces.simps [simp del]

definition marker_stop_chars :: "uchar set" where
  "marker_stop_chars =
     {CH_LF, CH_LBRACE, CH_RBRACE, CH_SPACE, CH_TAB, CH_COMMA, CH_COLON, CH_SEMICOLON, CH_EQUALS,
      CH_PLUS, CH_STAR, CH_SLASH}"

function marker_key :: "cursor \<Rightarrow> nat \<Rightarrow> bool \<Rightarrow> bool \<Rightarrow> bool" where
  "marker_key scan lookahead_count is_first has_content =
     (case cur scan of
        None \<Rightarrow> False
      | Some ch \<Rightarrow>
          if \<not> lookahead_count < MAX_LOOKAHEAD_CHARS then False
          else let lookahead_count = lookahead_count + 1
               in if ch = CH_RBRACKET then
                    (if \<not> has_content then False
                     else let (after_bracket, _) = marker_spaces (adv scan) lookahead_count
                          in case cur after_bracket of
                               None \<Rightarrow> True
                             | Some a \<Rightarrow> a \<in> {CH_LF, CH_RBRACE, CH_LBRACKET, CH_STAR})
                  else if ch \<in> marker_stop_chars then False
                  else if \<not> is_valid_variant_key_char ch is_first then False
                  else marker_key (adv scan) lookahead_count False True)"
  by pat_completeness auto
termination
  by (relation "measure (\<lambda>(c, k, _, _). MAX_LOOKAHEAD_CHARS - k)") auto

declare marker_key.simps [simp del]

definition is_variant_marker :: "cursor \<Rightarrow> bool" where
  "is_variant_marker c =
     (case cur c of
        None \<Rightarrow> False
      | Some ch \<Rightarrow>
          if ch = CH_STAR then cur (adv c) = Some CH_LBRACKET
          else if ch = CH_LBRACKET
          then (let (scan, lookahead_count) = marker_spaces (adv c) 0
                in marker_key scan lookahead_count True False)
          else False)"

section \<open>Trimming blank lines\<close>

fun trim_leading :: "pattern_element list \<Rightarrow> pattern_element list" where
  "trim_leading (TextElement v sp # es) =
     (let stripped = dropWhile (\<lambda>ch. ch = CH_SPACE \<or> ch = CH_LF) v
      in if stripped \<noteq> [] then TextElement stripped None # es else trim_leading es)"
| "trim_leading es = es"

text \<open>The trailing loop works at the end of the list, so it runs on the reversed list.\<close>

definition text_weight :: "pattern_element \<Rightarrow> nat" where
  "text_weight e = (case e of TextElement v sp \<Rightarrow> Suc (length v) | PlaceableElement p \<Rightarrow> 0)"

function (sequential) trim_trailing_rev :: "pattern_element list \<Rightarrow> pattern_element list" where
  "trim_trailing_rev (TextElement v sp # es) =
     (case str_rfind CH_LF v (length v) of
        None \<Rightarrow> TextElement v sp # es
      | Some last_newline \<Rightarrow>
          let after_newline = drop (last_newline + 1) v
          in if list_ex (\<lambda>ch. ch \<noteq> CH_SPACE) after_newline then TextElement v sp # es
             else let trimmed = take last_newline v
                  in if trimmed \<noteq> [] then trim_trailing_rev (TextElement trimmed None # es)
                     else trim_trailing_rev es)"
| "trim_trailing_rev es = es"
  by pat_completeness auto

lemma rfind_in_bounds: "rfind_in ch xs i = Some j \<Longrightarrow> i \<le> j \<and> j < i + length xs"
  by (induction xs arbitrary: i) (fastforce split: option.splits if_splits)+

lemma str_rfind_bounds: "str_rfind ch s stop = Some j \<Longrightarrow> j < length s \<and> j < stop"
  by (auto simp: str_rfind_def dest!: rfind_in_bounds)

termination trim_trailing_rev
  by (relation "measure (\<lambda>es. sum_list (map text_weight es))")
    (auto simp: text_weight_def dest!: str_rfind_bounds)

definition trim_pattern_blank_lines :: "pattern_element list \<Rightarrow> pattern_element list" where
  "trim_pattern_blank_lines es = rev (trim_trailing_rev (rev (trim_leading es)))"

section \<open>Continuation lines\<close>

definition count_leading_spaces :: "cursor \<Rightarrow> nat" where
  "count_leading_spaces c = scan_while (\<lambda>ch. ch = CH_SPACE) (source c) (pos c) - pos c"

fun skip_indent :: "nat \<Rightarrow> cursor \<Rightarrow> cursor" where
  "skip_indent 0 c = c"
| "skip_indent (Suc n) c = (if cur c = Some CH_SPACE then skip_indent n (adv c) else c)"

definition skip_common_indent :: "cursor \<Rightarrow> nat \<Rightarrow> cursor \<times> ustr" where
  "skip_common_indent c common_indent =
     (let c = skip_indent common_indent c;
          c' = adv_while (\<lambda>ch. ch = CH_SPACE) c
      in (c', replicate (pos c' - pos c) CH_SPACE))"

definition process_continuation_line :: "cursor \<Rightarrow> nat option \<Rightarrow> cursor \<times> nat \<times> ustr" where
  "process_continuation_line c common_indent =
     (let c = adv_while (\<lambda>ch. ch = CH_LF) c
      in case common_indent of
           None \<Rightarrow> (skip_spaces c, count_leading_spaces c, [])
         | Some n \<Rightarrow> (let (c', extra_spaces) = skip_common_indent c n in (c', n, extra_spaces)))"

definition append_newline_to_elements :: "pattern_element list \<Rightarrow> pattern_element list" where
  "append_newline_to_elements es =
     (if es = [] then [TextElement [CH_LF] None]
      else case last es of
             PlaceableElement p \<Rightarrow> es @ [TextElement [CH_LF] None]
           | TextElement v sp \<Rightarrow> butlast es @ [TextElement (v @ [CH_LF]) None])"

text \<open>The text accumulator is its list of fragments.\<close>

definition flush_text :: "ustr list \<Rightarrow> pattern_element list \<Rightarrow> pattern_element list" where
  "flush_text fragments es = (if fragments \<noteq> [] then es @ [TextElement (concat fragments) None] else es)"

section \<open>The pattern parsers\<close>

function simple_text_end :: "cursor \<Rightarrow> cursor" where
  "simple_text_end c =
     (case cur c of
        None \<Rightarrow> c
      | Some ch \<Rightarrow>
          if ch \<in> {CH_LBRACE, CH_LF, CH_RBRACE} then c
          else if ch \<in> {CH_LBRACKET, CH_STAR} \<and> is_variant_marker c then c
          else simple_text_end (adv c))"
  by pat_completeness auto
termination
  by (relation "measure remaining") (auto simp: remaining_def dest: cur_measure)

declare simple_text_end.simps [simp del]

text \<open>Text of one line: the text so far is joined with what the accumulator holds.\<close>

definition add_text_run :: "ustr list \<Rightarrow> pattern_element list \<Rightarrow> cursor \<Rightarrow> cursor \<Rightarrow>
    ustr list \<times> pattern_element list" where
  "add_text_run fragments es c c' =
     (if pos c < pos c'
      then ([], es @ [TextElement (concat fragments @ str_slice (source c) (pos c) (pos c')) None])
      else (fragments, es))"

text \<open>The continuation branch both pattern loops share.\<close>

definition continue_line :: "cursor \<Rightarrow> nat option \<Rightarrow> ustr list \<Rightarrow> pattern_element list \<Rightarrow>
    cursor \<times> nat option \<times> ustr list \<times> pattern_element list" where
  "continue_line c common_indent fragments es =
     (let (c', n, extra_spaces) = process_continuation_line (adv c) common_indent;
          es = append_newline_to_elements es;
          fragments = (if extra_spaces \<noteq> [] then fragments @ [extra_spaces] else fragments)
      in (c', Some n, fragments, es))"

fun simple_pattern_loop :: "placeable_fn \<Rightarrow> parse_context \<Rightarrow> nat \<Rightarrow> cursor \<Rightarrow> nat option \<Rightarrow>
    ustr list \<Rightarrow> pattern_element list \<Rightarrow> pattern_element list parse_result parser" where
  "simple_pattern_loop pp ctx 0 c common_indent fragments es = out_of_fuel"
| "simple_pattern_loop pp ctx (Suc n) c common_indent fragments es =
     (case cur c of
        None \<Rightarrow> ret (flush_text fragments es, c)
      | Some ch \<Rightarrow>
          if ch = CH_RBRACE then ret (flush_text fragments es, c)
          else if ch \<in> {CH_LBRACKET, CH_STAR} \<and> is_variant_marker c
          then ret (flush_text fragments es, c)
          else if ch = CH_LF then
            (if is_indented_continuation c
             then let (c', indent, fragments, es) = continue_line c common_indent fragments es
                  in simple_pattern_loop pp ctx n c' indent fragments es
             else ret (flush_text fragments es, c))
          else if ch = CH_LBRACE then
            and_then (pp (adv c) ctx) (\<lambda>(placeable, c').
              simple_pattern_loop pp ctx n c' common_indent []
                (flush_text fragments es @ [PlaceableElement placeable]))
          else let c' = simple_text_end c;
                   (fragments, es) = add_text_run fragments es c c'
               in simple_pattern_loop pp ctx n c' common_indent fragments es)"

definition parse_simple_pattern :: "placeable_fn \<Rightarrow> cursor \<Rightarrow> parse_context \<Rightarrow> pattern parse_result parser" where
  "parse_simple_pattern pp c ctx =
     and_then (simple_pattern_loop pp ctx (Suc (remaining c)) c None [] []) (\<lambda>(es, c').
       ret (Pattern (trim_pattern_blank_lines es) None, c'))"

fun pattern_loop :: "placeable_fn \<Rightarrow> parse_context \<Rightarrow> nat \<Rightarrow> cursor \<Rightarrow> nat option \<Rightarrow>
    ustr list \<Rightarrow> pattern_element list \<Rightarrow> pattern_element list parse_result parser" where
  "pattern_loop pp ctx 0 c common_indent fragments es = out_of_fuel"
| "pattern_loop pp ctx (Suc n) c common_indent fragments es =
     (case cur c of
        None \<Rightarrow> ret (flush_text fragments es, c)
      | Some ch \<Rightarrow>
          if ch = CH_LF then
            (if is_indented_continuation c
             then let (c', indent, fragments, es) = continue_line c common_indent fragments es
                  in pattern_loop pp ctx n c' indent fragments es
             else ret (flush_text fragments es, c))
          else if ch = CH_LBRACE then
            and_then (pp (adv c) ctx) (\<lambda>(placeable, c').
              pattern_loop pp ctx n c' common_indent []
                (flush_text fragments es @ [PlaceableElement placeable]))
          else let c' = adv_while (\<lambda>ch. ch \<noteq> CH_LBRACE \<and> ch \<noteq> CH_LF) c;
                   (fragments, es) = add_text_run fragments es c c'
               in pattern_loop pp ctx n c' common_indent fragments es)"

definition parse_pattern ::
    "placeable_fn \<Rightarrow> cursor \<Rightarrow> parse_context \<Rightarrow> nat option \<Rightarrow> pattern parse_result parser" where
  "parse_pattern pp c ctx initial_common_indent =
     (let common_indent = (case initial_common_indent of
            None \<Rightarrow> None | Some i \<Rightarrow> if i = 0 then None else Some i)
      in and_then (pattern_loop pp ctx (Suc (remaining c)) c common_indent [] []) (\<lambda>(es, c').
           ret (Pattern (trim_pattern_blank_lines es) None, c')))"


section \<open>Elements stay well-formed\<close>

definition elements_ok :: "nat \<Rightarrow> nat \<Rightarrow> pattern_element list \<Rightarrow> bool" where
  "elements_ok n d es \<longleftrightarrow> list_all (wf_element n) es \<and> (\<forall>e \<in> set es. nesting_element e \<le> d)"

lemma elements_ok_Nil [simp]: "elements_ok n d []"
  by (simp add: elements_ok_def)

lemma elements_ok_append [simp]:
  "elements_ok n d (es @ fs) \<longleftrightarrow> elements_ok n d es \<and> elements_ok n d fs"
  by (auto simp: elements_ok_def)

lemma elements_ok_Cons [simp]:
  "elements_ok n d (e # es) \<longleftrightarrow> wf_element n e \<and> nesting_element e \<le> d \<and> elements_ok n d es"
  by (auto simp: elements_ok_def)

lemma elements_ok_rev [simp]: "elements_ok n d (rev es) = elements_ok n d es"
  by (simp add: elements_ok_def)

lemma elements_ok_pattern:
  "wf_pattern n (Pattern es None) \<and> nesting_pattern (Pattern es None) \<le> d \<longleftrightarrow> elements_ok n d es"
  by (auto simp: elements_ok_def max_list_le_iff)

lemma elements_ok_trim_leading: "elements_ok n d es \<Longrightarrow> elements_ok n d (trim_leading es)"
  by (induction es rule: trim_leading.induct) (auto simp: Let_def)

lemma elements_ok_trim_trailing_rev: "elements_ok n d es \<Longrightarrow> elements_ok n d (trim_trailing_rev es)"
  by (induction es rule: trim_trailing_rev.induct) (auto simp: Let_def split: option.splits)

lemma elements_ok_trim: "elements_ok n d es \<Longrightarrow> elements_ok n d (trim_pattern_blank_lines es)"
  by (simp add: trim_pattern_blank_lines_def elements_ok_trim_leading elements_ok_trim_trailing_rev)

lemma elements_ok_append_newline:
  "elements_ok n d es \<Longrightarrow> elements_ok n d (append_newline_to_elements es)"
  by (cases es rule: rev_cases) (auto simp: append_newline_to_elements_def split: pattern_element.splits)

definition fragments_ok :: "ustr list \<Rightarrow> bool" where
  "fragments_ok fragments \<longleftrightarrow> (\<forall>f \<in> set fragments. f \<noteq> [])"

lemma fragments_ok_concat: "fragments_ok fragments \<Longrightarrow> fragments \<noteq> [] \<Longrightarrow> concat fragments \<noteq> []"
  by (cases fragments) (auto simp: fragments_ok_def)

lemma elements_ok_flush:
  "elements_ok n d es \<Longrightarrow> fragments_ok fragments \<Longrightarrow> elements_ok n d (flush_text fragments es)"
  using fragments_ok_concat by (auto simp: flush_text_def)

lemma str_slice_nonempty: "i < j \<Longrightarrow> j \<le> length s \<Longrightarrow> str_slice s i j \<noteq> []"
  using length_str_slice [of s i j] by (cases "str_slice s i j") auto

lemma add_text_run_ok:
  assumes "add_text_run fragments es c c' = (fragments', es')" "elements_ok n d es"
    "fragments_ok fragments" "wf_cursor c'" "source c' = source c"
  shows "elements_ok n d es' \<and> fragments_ok fragments'"
proof (cases "pos c < pos c'")
  case True
  with assms(4,5) have "str_slice (source c) (pos c) (pos c') \<noteq> []"
    by (intro str_slice_nonempty) (simp_all add: wf_cursor_def)
  with True assms(1,2) show ?thesis by (auto simp: add_text_run_def fragments_ok_def)
next
  case False
  with assms(1-3) show ?thesis by (simp add: add_text_run_def)
qed

lemma skip_indent_moves: "wf_cursor c \<Longrightarrow> moves c (skip_indent n c)"
proof (induction n arbitrary: c)
  case 0
  then show ?case by (simp add: moves_refl)
next
  case (Suc n)
  then show ?case
    by (auto intro: moves_refl moves_trans [OF advances_moves [OF adv_advances] Suc.IH])
qed

lemma continue_line_ok:
  assumes "continue_line c indent fragments es = (c', indent', fragments', es')" "cur c = Some ch"
    "elements_ok n d es" "fragments_ok fragments"
  shows "advances c c' \<and> elements_ok n d es' \<and> fragments_ok fragments'"
proof -
  let ?c1 = "adv_while (\<lambda>ch. ch = CH_LF) (adv c)"
  have a: "advances c ?c1"
    using assms(2) by (intro advances_trans [OF adv_advances] adv_while_moves) auto
  have "moves ?c1 c'"
  proof (cases indent)
    case None
    with assms(1) show ?thesis
      by (auto simp: continue_line_def process_continuation_line_def Let_def moves_def)
  next
    case (Some k)
    have "moves ?c1 (adv_while (\<lambda>ch. ch = CH_SPACE) (skip_indent k ?c1))"
      by (rule moves_trans [OF skip_indent_moves adv_while_moves])
        (auto intro: moves_wf [OF skip_indent_moves])
    with Some assms(1) show ?thesis
      by (auto simp: continue_line_def process_continuation_line_def skip_common_indent_def Let_def)
  qed
  with a assms show ?thesis
    by (auto simp: continue_line_def Let_def fragments_ok_def elements_ok_append_newline
        intro: advances_trans split: prod.splits if_splits)
qed

lemma simple_text_end_moves: "wf_cursor c \<Longrightarrow> moves c (simple_text_end c)"
proof (induction c rule: simple_text_end.induct)
  case (1 c)
  show ?case
  proof (cases "simple_text_end c = c")
    case True
    with 1 show ?thesis by (simp add: moves_refl)
  next
    case False
    then obtain ch where ch: "cur c = Some ch" "\<not> ch \<in> {CH_LBRACE, CH_LF, CH_RBRACE}"
      "\<not> (ch \<in> {CH_LBRACKET, CH_STAR} \<and> is_variant_marker c)"
      by (auto simp: simple_text_end.simps [of c] split: option.splits if_splits)
    then have "simple_text_end c = simple_text_end (adv c)"
      by (auto simp: simple_text_end.simps [of c])
    with "1.IH" [OF ch] ch(1) show ?thesis
      by (auto intro: moves_trans [OF advances_moves [OF adv_advances]])
  qed
qed

lemma simple_text_end_advances:
  assumes "cur c = Some ch" "\<not> ch \<in> {CH_LBRACE, CH_LF, CH_RBRACE}"
    "\<not> (ch \<in> {CH_LBRACKET, CH_STAR} \<and> is_variant_marker c)"
  shows "advances c (simple_text_end c)"
proof -
  have "simple_text_end c = simple_text_end (adv c)"
    using assms by (auto simp: simple_text_end.simps [of c])
  with assms(1) show ?thesis
    using advances_trans [OF adv_advances simple_text_end_moves] by simp
qed

lemma adv_while_advances: "cur c = Some ch \<Longrightarrow> P ch \<Longrightarrow> advances c (adv_while P c)"
  using advances_trans [OF adv_advances adv_while_moves, of c ch P]
  by (subst adv_while_unfold) simp

section \<open>What the pattern parsers rely on, and what they guarantee\<close>

definition placeable_post :: "cursor \<Rightarrow> parse_context \<Rightarrow> placeable parse_result \<Rightarrow> bool" where
  "placeable_post c ctx r \<longleftrightarrow>
     (case r of (p, c') \<Rightarrow>
        advances c c' \<and> wf_placeable (length (source c)) p \<and> nesting_placeable p \<le> depth_left ctx)"

definition pattern_post :: "cursor \<Rightarrow> parse_context \<Rightarrow> pattern parse_result \<Rightarrow> bool" where
  "pattern_post c ctx r \<longleftrightarrow>
     (case r of (p, c') \<Rightarrow>
        moves c c' \<and> wf_pattern (length (source c)) p \<and> nesting_pattern p \<le> depth_left ctx)"

definition elements_post :: "cursor \<Rightarrow> parse_context \<Rightarrow> pattern_element list parse_result \<Rightarrow> bool" where
  "elements_post c ctx r \<longleftrightarrow>
     (case r of (es, c') \<Rightarrow> moves c c' \<and> elements_ok (length (source c)) (depth_left ctx) es)"

lemma elements_post_trans:
  "moves c c1 \<Longrightarrow> elements_post c1 ctx r \<Longrightarrow> elements_post c ctx r"
  by (auto simp: elements_post_def moves_def split: prod.splits)

locale placeable_parser =
  fixes pp :: placeable_fn
    and bound :: nat
  assumes placeable_safe:
    "wf_cursor c \<Longrightarrow> remaining c < bound \<Longrightarrow> safe (placeable_post c ctx) (pp c ctx)"
begin

lemma placeable_branch:
  assumes c: "cur c = Some ch" "remaining c \<le> bound"
    and k: "\<And>p c'. advances c c' \<Longrightarrow> wf_placeable (length (source c)) p \<Longrightarrow>
      nesting_placeable p \<le> depth_left ctx \<Longrightarrow> safe (elements_post c' ctx) (k (p, c'))"
  shows "safe (elements_post c ctx) (and_then (pp (adv c) ctx) k)"
proof (rule safe_and_then [OF placeable_safe])
  have a: "advances c (adv c)" using c(1) by (rule adv_advances)
  show "wf_cursor (adv c)" by simp
  show "remaining (adv c) < bound" using remaining_advances [OF a] c(2) by simp
  fix r assume "placeable_post (adv c) ctx r"
  then obtain p c' where r: "r = (p, c')" and m: "advances (adv c) c'"
    and p: "wf_placeable (length (source c)) p" "nesting_placeable p \<le> depth_left ctx"
    by (auto simp: placeable_post_def)
  have adv: "advances c c'" using a m by (metis advances_moves advances_trans)
  show "safe (elements_post c ctx) (k r)"
    unfolding r using k [OF adv p] by (rule safe_weaken) (rule elements_post_trans [OF advances_moves [OF adv]])
qed

lemma simple_pattern_loop_safe:
  assumes "remaining c < n" "wf_cursor c" "remaining c \<le> bound"
    "elements_ok (length (source c)) (depth_left ctx) es" "fragments_ok fragments"
  shows "safe (elements_post c ctx) (simple_pattern_loop pp ctx n c indent fragments es)"
  using assms
proof (induction n arbitrary: c indent fragments es)
  case (Suc n)
  have fin: "safe (elements_post c ctx) (ret (flush_text fragments es, c))"
    using Suc.prems by (auto simp: elements_post_def moves_refl elements_ok_flush intro!: safe_ret)
  have rec: "safe (elements_post c ctx) (simple_pattern_loop pp ctx n c' indent' fragments' es')"
    if "advances c c'" "elements_ok (length (source c)) (depth_left ctx) es'" "fragments_ok fragments'"
    for c' indent' fragments' es'
  proof -
    have "safe (elements_post c' ctx) (simple_pattern_loop pp ctx n c' indent' fragments' es')"
      using that remaining_advances [OF that(1)] Suc.prems
      by (intro Suc.IH) (auto simp: advances_def)
    then show ?thesis
      by (rule safe_weaken) (rule elements_post_trans [OF advances_moves [OF that(1)]])
  qed
  show ?case
  proof (cases "cur c")
    case None
    with fin show ?thesis by simp
  next
    case (Some ch)
    show ?thesis
    proof (cases "ch = CH_RBRACE \<or> ch \<in> {CH_LBRACKET, CH_STAR} \<and> is_variant_marker c")
      case True
      with Some fin show ?thesis by auto
    next
      case nb: False
      consider "ch = CH_LF" | "ch = CH_LBRACE" | "ch \<notin> {CH_LF, CH_LBRACE}" by auto
      then show ?thesis
      proof cases
        case 1
        obtain c' indent' fragments' es' where cl: "continue_line c indent fragments es = (c', indent', fragments', es')"
          by (metis prod_cases4)
        with continue_line_ok [OF cl Some Suc.prems(4,5)] have "safe (elements_post c ctx)
            (simple_pattern_loop pp ctx n c' indent' fragments' es')"
          by (intro rec) auto
        with 1 Some fin cl show ?thesis by simp
      next
        case 2
        have "safe (elements_post c ctx) (and_then (pp (adv c) ctx) (\<lambda>(placeable, c').
              simple_pattern_loop pp ctx n c' indent []
                (flush_text fragments es @ [PlaceableElement placeable])))"
        proof (rule placeable_branch [OF Some Suc.prems(3)])
          fix p c' assume p: "advances c c'" "wf_placeable (length (source c)) p" "nesting_placeable p \<le> depth_left ctx"
          then show "safe (elements_post c' ctx) (case (p, c') of (placeable, c') \<Rightarrow>
              simple_pattern_loop pp ctx n c' indent [] (flush_text fragments es @ [PlaceableElement placeable]))"
            using remaining_advances [OF p(1)] Suc.prems
            by (auto simp: advances_def elements_ok_flush fragments_ok_def intro!: Suc.IH)
        qed
        with 2 nb Some show ?thesis by simp
      next
        case 3
        have adv: "advances c (simple_text_end c)"
          using Some nb 3 by (intro simple_text_end_advances) auto
        obtain fragments' es' where at: "add_text_run fragments es c (simple_text_end c) = (fragments', es')"
          by force
        have "safe (elements_post c ctx) (simple_pattern_loop pp ctx n (simple_text_end c) indent fragments' es')"
          using add_text_run_ok [OF at Suc.prems(4,5)] adv by (intro rec) (auto simp: advances_def)
        with 3 nb Some at show ?thesis by auto
      qed
    qed
  qed
qed simp

lemma pattern_loop_safe:
  assumes "remaining c < n" "wf_cursor c" "remaining c \<le> bound"
    "elements_ok (length (source c)) (depth_left ctx) es" "fragments_ok fragments"
  shows "safe (elements_post c ctx) (pattern_loop pp ctx n c indent fragments es)"
  using assms
proof (induction n arbitrary: c indent fragments es)
  case (Suc n)
  have fin: "safe (elements_post c ctx) (ret (flush_text fragments es, c))"
    using Suc.prems by (auto simp: elements_post_def moves_refl elements_ok_flush intro!: safe_ret)
  have rec: "safe (elements_post c ctx) (pattern_loop pp ctx n c' indent' fragments' es')"
    if "advances c c'" "elements_ok (length (source c)) (depth_left ctx) es'" "fragments_ok fragments'"
    for c' indent' fragments' es'
  proof -
    have "safe (elements_post c' ctx) (pattern_loop pp ctx n c' indent' fragments' es')"
      using that remaining_advances [OF that(1)] Suc.prems
      by (intro Suc.IH) (auto simp: advances_def)
    then show ?thesis
      by (rule safe_weaken) (rule elements_post_trans [OF advances_moves [OF that(1)]])
  qed
  show ?case
  proof (cases "cur c")
    case None
    with fin show ?thesis by simp
  next
    case (Some ch)
    consider "ch = CH_LF" | "ch = CH_LBRACE" | "ch \<notin> {CH_LF, CH_LBRACE}" by auto
    then show ?thesis
    proof cases
      case 1
      obtain c' indent' fragments' es' where cl: "continue_line c indent fragments es = (c', indent', fragments', es')"
        by (metis prod_cases4)
      with continue_line_ok [OF cl Some Suc.prems(4,5)] have "safe (elements_post c ctx)
          (pattern_loop pp ctx n c' indent' fragments' es')"
        by (intro rec) auto
      with 1 Some fin cl show ?thesis by simp
    next
      case 2
      have "safe (elements_post c ctx) (and_then (pp (adv c) ctx) (\<lambda>(placeable, c').
            pattern_loop pp ctx n c' indent []
              (flush_text fragments es @ [PlaceableElement placeable])))"
      proof (rule placeable_branch [OF Some Suc.prems(3)])
        fix p c' assume p: "advances c c'" "wf_placeable (length (source c)) p" "nesting_placeable p \<le> depth_left ctx"
        then show "safe (elements_post c' ctx) (case (p, c') of (placeable, c') \<Rightarrow>
            pattern_loop pp ctx n c' indent [] (flush_text fragments es @ [PlaceableElement placeable]))"
          using remaining_advances [OF p(1)] Suc.prems
          by (auto simp: advances_def elements_ok_flush fragments_ok_def intro!: Suc.IH)
      qed
      with 2 Some show ?thesis by simp
    next
      case 3
      let ?P = "\<lambda>ch. ch \<noteq> CH_LBRACE \<and> ch \<noteq> CH_LF"
      have adv: "advances c (adv_while ?P c)"
        using Some 3 by (intro adv_while_advances) auto
      obtain fragments' es' where at: "add_text_run fragments es c (adv_while ?P c) = (fragments', es')"
        by force
      have "safe (elements_post c ctx) (pattern_loop pp ctx n (adv_while ?P c) indent fragments' es')"
        using add_text_run_ok [OF at Suc.prems(4,5)] adv by (intro rec) (auto simp: advances_def)
      with 3 Some at show ?thesis by auto
    qed
  qed
qed simp

lemma elements_to_pattern:
  assumes "safe (elements_post c ctx) p"
  shows "safe (pattern_post c ctx)
    (and_then p (\<lambda>(es, c'). ret (Pattern (trim_pattern_blank_lines es) None, c')))"
  using assms
  by (rule safe_and_then)
    (use elements_ok_pattern elements_ok_trim in
      \<open>auto simp: elements_post_def pattern_post_def intro!: safe_ret\<close>)

lemma parse_simple_pattern_safe:
  "wf_cursor c \<Longrightarrow> remaining c \<le> bound \<Longrightarrow> safe (pattern_post c ctx) (parse_simple_pattern pp c ctx)"
  unfolding parse_simple_pattern_def
  by (intro elements_to_pattern simple_pattern_loop_safe) (auto simp: fragments_ok_def)

lemma parse_pattern_safe:
  "wf_cursor c \<Longrightarrow> remaining c \<le> bound \<Longrightarrow> safe (pattern_post c ctx) (parse_pattern pp c ctx indent)"
  unfolding parse_pattern_def Let_def
  by (intro elements_to_pattern pattern_loop_safe) (auto simp: fragments_ok_def)

end

end
