(* ===== verification/Expressions.thy ===== *)
theory Expressions
  imports Patterns
begin

text \<open>
  \<open>syntax/parser/expressions.py\<close>: inline expressions, arguments, select expressions and
  placeables.  The functions of the module call each other through two cycles, a
  placeable inside an expression and an argument inside a call; each function here takes
  the two as arguments, \<open>pp\<close> and \<open>pa\<close>, and a pair of functions on fuel ties the knot.
  The locale \<open>expression_parser\<close> proves every function safe from the contract of both;
  the knot satisfies that contract with one unit of fuel for each character left.
\<close>

type_synonym expression_fn = "cursor \<Rightarrow> parse_context \<Rightarrow> expression parse_result parser"

section \<open>References and literals\<close>

definition mk_identifier :: "ustr \<Rightarrow> nat \<Rightarrow> nat \<Rightarrow> ident parser" where
  "mk_identifier name s e = and_then (mk_span s e) (\<lambda>sp. ret (Identifier name (Some sp)))"

definition parse_variable_reference :: "cursor \<Rightarrow> expression parse_result parser" where
  "parse_variable_reference c =
     (if cur c \<noteq> Some CH_DOLLAR then no_result
      else let c1 = adv c
           in and_then (or_none (parse_identifier c1)) (\<lambda>(name, c2).
              and_then (mk_identifier name (pos c1) (pos c2)) (\<lambda>i.
              and_then (mk_span (pos c) (pos c2)) (\<lambda>sp.
                ret (VariableReference i (Some sp), c2)))))"

definition parse_variant_key :: "cursor \<Rightarrow> variant_key parse_result parser" where
  "parse_variant_key c =
     (let identifier_key =
            and_then (or_none (parse_identifier c)) (\<lambda>(name, c').
            and_then (mk_identifier name (pos c) (pos c')) (\<lambda>i.
              ret (KeyIdentifier i, c')))
      in if at_digit c \<or> cur c = Some CH_MINUS
         then (case parse_number c of
                 Inr (num_str, c') \<Rightarrow>
                   and_then (or_raise (parse_number_value num_str)) (\<lambda>num_value.
                   and_then (mk_key_number num_value num_str None) (\<lambda>key.
                     ret (key, c')))
               | Inl _ \<Rightarrow> identifier_key)
         else identifier_key)"

definition parse_message_attribute :: "cursor \<Rightarrow> ident option parse_result parser" where
  "parse_message_attribute c =
     (if cur c \<noteq> Some CH_DOT then ret (None, c)
      else let c1 = adv c
           in case parse_identifier c1 of
                Inl _ \<Rightarrow> ret (None, c1)
              | Inr (name, c2) \<Rightarrow>
                  and_then (mk_identifier name (pos c1) (pos c2)) (\<lambda>i.
                    ret (Some i, c2)))"

definition parse_inline_string_literal :: "cursor \<Rightarrow> expression parse_result parser" where
  "parse_inline_string_literal c =
     and_then (or_none (parse_string_literal c)) (\<lambda>(s, c'). ret (StringLiteral s None, c'))"

definition parse_inline_number_literal :: "cursor \<Rightarrow> expression parse_result parser" where
  "parse_inline_number_literal c =
     and_then (or_none (parse_number c)) (\<lambda>(num_str, c').
     and_then (or_raise (parse_number_value num_str)) (\<lambda>num_value.
     and_then (mk_number_literal num_value num_str None) (\<lambda>e.
       ret (e, c'))))"

section \<open>Select expressions\<close>

definition parse_variant :: "placeable_fn \<Rightarrow> cursor \<Rightarrow> parse_context \<Rightarrow> variant parse_result parser" where
  "parse_variant pp c ctx =
     (let is_default = (cur c = Some CH_STAR);
          c1 = (if is_default then adv c else c)
      in if cur c1 \<noteq> Some CH_LBRACKET then no_result
         else and_then (parse_variant_key (skip_blank (adv c1))) (\<lambda>(key, c2).
              let c3 = skip_blank c2
              in if cur c3 \<noteq> Some CH_RBRACKET then no_result
                 else and_then (parse_simple_pattern pp (skip_blank_inline (adv c3)) ctx) (\<lambda>(value, c4).
                   ret (Variant key value is_default None, c4))))"

fun variants_loop :: "placeable_fn \<Rightarrow> parse_context \<Rightarrow> nat \<Rightarrow> cursor \<Rightarrow> variant list \<Rightarrow>
    variant list parse_result parser" where
  "variants_loop pp ctx 0 c variants = out_of_fuel"
| "variants_loop pp ctx (Suc n) c variants =
     (if is_eof c then ret (variants, c)
      else let c = skip_blank c
           in if is_eof c \<or> cur c = Some CH_RBRACE then ret (variants, c)
              else and_then (parse_variant pp c ctx) (\<lambda>(variant, c').
                variants_loop pp ctx n c' (variants @ [variant])))"

definition parse_select_expression :: "placeable_fn \<Rightarrow> cursor \<Rightarrow> expression \<Rightarrow> nat \<Rightarrow> parse_context \<Rightarrow>
    expression parse_result parser" where
  "parse_select_expression pp c selector start_pos ctx =
     (let c = skip_blank c
      in and_then (variants_loop pp ctx (Suc (remaining c)) c []) (\<lambda>(variants, c').
           if variants = [] then no_result
           else let default_count = length (filter variant_default variants)
                in if default_count \<noteq> 1 then no_result
                   else and_then (mk_span start_pos (pos c')) (\<lambda>sp.
                        and_then (mk_select_expression selector variants (Some sp)) (\<lambda>e.
                          ret (e, c')))))"

section \<open>Calls\<close>

text \<open>The end of an iteration: skip blanks and one comma.\<close>

definition skip_comma :: "cursor \<Rightarrow> cursor" where
  "skip_comma c =
     (let c = skip_blank c
      in if cur c = Some CH_COMMA then skip_blank (adv c) else c)"

text \<open>\<open>cursor.current\<close> after the blanks is read without a guard: it raises at the end.\<close>

fun call_arguments_loop :: "expression_fn \<Rightarrow> parse_context \<Rightarrow> nat \<Rightarrow> cursor \<Rightarrow> expression list \<Rightarrow>
    named_argument list \<Rightarrow> ustr set \<Rightarrow> bool \<Rightarrow> call_arguments parse_result parser" where
  "call_arguments_loop pa ctx 0 c positional named seen_names seen_named = out_of_fuel"
| "call_arguments_loop pa ctx (Suc n) c positional named seen_names seen_named =
     (if is_eof c then ret (CallArguments positional named None, c)
      else let c = skip_blank c
           in and_then (or_raise (current c)) (\<lambda>ch.
              if ch = CH_RPAREN then ret (CallArguments positional named None, c)
              else and_then (pa c ctx) (\<lambda>(arg_expr, c1).
                   let c2 = skip_blank c1
                   in if cur c2 = Some CH_COLON then
                        (let c3 = skip_blank (adv c2)
                         in case arg_expr of
                              MessageReference i _ _ \<Rightarrow>
                                let arg_name = id_name i
                                in if arg_name \<in> seen_names then no_result
                                   else if is_eof c3 then no_result
                                   else and_then (pa c3 ctx) (\<lambda>(value_expr, c4).
                                        if \<not> is_literal value_expr then no_result
                                        else call_arguments_loop pa ctx n (skip_comma c4) positional
                                          (named @ [NamedArgument (Identifier arg_name (id_span i)) value_expr None])
                                          (insert arg_name seen_names) True)
                            | _ \<Rightarrow> no_result)
                      else if seen_named then no_result
                      else call_arguments_loop pa ctx n (skip_comma c2) (positional @ [arg_expr]) named
                             seen_names seen_named)))"

definition parse_call_arguments ::
    "expression_fn \<Rightarrow> cursor \<Rightarrow> parse_context \<Rightarrow> call_arguments parse_result parser" where
  "parse_call_arguments pa c ctx =
     (let c = skip_blank c
      in call_arguments_loop pa ctx (Suc (remaining c)) c [] [] {} False)"

definition parse_function_reference ::
    "expression_fn \<Rightarrow> cursor \<Rightarrow> parse_context \<Rightarrow> expression parse_result parser" where
  "parse_function_reference pa c ctx =
     (if is_depth_exceeded ctx then no_result
      else and_then (or_none (parse_identifier c)) (\<lambda>(func_name, c1).
           let c2 = skip_blank_inline c1
           in if cur c2 \<noteq> Some CH_LPAREN then no_result
              else and_then (parse_call_arguments pa (adv c2) (enter_nesting ctx)) (\<lambda>(args, c3).
                   let c4 = skip_blank_inline c3
                   in if cur c4 \<noteq> Some CH_RPAREN then no_result
                      else let c5 = adv c4
                           in and_then (mk_identifier func_name (pos c) (pos c1)) (\<lambda>i.
                              and_then (mk_span (pos c) (pos c5)) (\<lambda>sp.
                                ret (FunctionReference i args (Some sp), c5))))))"

text \<open>The optional attribute of a term reference, where a dangling dot is an error.\<close>

definition parse_term_attribute :: "cursor \<Rightarrow> ident option parse_result parser" where
  "parse_term_attribute c =
     (if cur c \<noteq> Some CH_DOT then ret (None, c)
      else let c1 = adv c
           in and_then (or_none (parse_identifier c1)) (\<lambda>(name, c2).
              and_then (mk_identifier name (pos c1) (pos c2)) (\<lambda>i.
                ret (Some i, c2))))"

text \<open>Its optional argument list.\<close>

definition parse_term_arguments ::
    "expression_fn \<Rightarrow> cursor \<Rightarrow> parse_context \<Rightarrow> call_arguments option parse_result parser" where
  "parse_term_arguments pa c ctx =
     (let c = skip_blank_inline c
      in if cur c \<noteq> Some CH_LPAREN then ret (None, c)
         else if is_depth_exceeded ctx then no_result
         else and_then (parse_call_arguments pa (adv c) (enter_nesting ctx)) (\<lambda>(args, c1).
              let c2 = skip_blank_inline c1
              in if cur c2 \<noteq> Some CH_RPAREN then no_result
                 else ret (Some args, adv c2)))"

definition parse_term_reference ::
    "expression_fn \<Rightarrow> cursor \<Rightarrow> parse_context \<Rightarrow> expression parse_result parser" where
  "parse_term_reference pa c ctx =
     (if cur c \<noteq> Some CH_MINUS then no_result
      else let c1 = adv c
           in and_then (or_none (parse_identifier c1)) (\<lambda>(name, c2).
              and_then (parse_term_attribute c2) (\<lambda>(attribute, c3).
              and_then (parse_term_arguments pa c3 ctx) (\<lambda>(arguments, c4).
              and_then (mk_identifier name (pos c1) (pos c2)) (\<lambda>i.
              and_then (mk_span (pos c) (pos c4)) (\<lambda>sp.
                ret (TermReference i attribute arguments (Some sp), c4)))))))"

section \<open>Inline expressions and arguments\<close>

definition parse_inline_hyphen ::
    "expression_fn \<Rightarrow> cursor \<Rightarrow> parse_context \<Rightarrow> expression parse_result parser" where
  "parse_inline_hyphen pa c ctx =
     (if (case cur (adv c) of None \<Rightarrow> False | Some ch \<Rightarrow> is_identifier_start ch)
      then parse_term_reference pa c ctx
      else parse_inline_number_literal c)"

definition parse_inline_identifier ::
    "expression_fn \<Rightarrow> cursor \<Rightarrow> parse_context \<Rightarrow> expression parse_result parser" where
  "parse_inline_identifier pa c ctx =
     and_then (or_none (parse_identifier c)) (\<lambda>(name, c1).
       if cur (skip_blank_inline c1) = Some CH_LPAREN then parse_function_reference pa c ctx
       else and_then (parse_message_attribute c1) (\<lambda>(attribute, c2).
            and_then (mk_identifier name (pos c) (pos c1)) (\<lambda>i.
            and_then (mk_span (pos c) (pos c2)) (\<lambda>sp.
              ret (MessageReference i attribute (Some sp), c2)))))"

text \<open>A placeable in expression position.\<close>

definition nested_placeable :: "placeable_fn \<Rightarrow> cursor \<Rightarrow> parse_context \<Rightarrow> expression parse_result parser" where
  "nested_placeable pp c ctx =
     and_then (pp (adv c) ctx) (\<lambda>(p, c'). ret (NestedPlaceable p, c'))"

definition parse_inline_expression ::
    "placeable_fn \<Rightarrow> expression_fn \<Rightarrow> cursor \<Rightarrow> parse_context \<Rightarrow> expression parse_result parser" where
  "parse_inline_expression pp pa c ctx =
     (case cur c of
        None \<Rightarrow> no_result
      | Some ch \<Rightarrow>
          if ch = CH_DOLLAR then parse_variable_reference c
          else if ch = CH_QUOTE then parse_inline_string_literal c
          else if ch = CH_MINUS then parse_inline_hyphen pa c ctx
          else if ch = CH_LBRACE then nested_placeable pp c ctx
          else if is_ascii_digit ch then parse_inline_number_literal c
          else if is_identifier_start ch then parse_inline_identifier pa c ctx
          else no_result)"

text \<open>
  \<open>parse_argument_expression\<close> repeats the code of the inline helpers, and lets a leading
  underscore through to \<open>parse_identifier\<close>, which refuses it.
\<close>

definition argument_expression_body ::
    "placeable_fn \<Rightarrow> expression_fn \<Rightarrow> cursor \<Rightarrow> parse_context \<Rightarrow> expression parse_result parser" where
  "argument_expression_body pp pa c ctx =
     (case cur c of
        None \<Rightarrow> no_result
      | Some ch \<Rightarrow>
          if ch = CH_DOLLAR then parse_variable_reference c
          else if ch = CH_QUOTE then parse_inline_string_literal c
          else if ch = CH_MINUS then parse_inline_hyphen pa c ctx
          else if is_ascii_digit ch then parse_inline_number_literal c
          else if ch = CH_LBRACE then nested_placeable pp c ctx
          else if is_identifier_start ch \<or> ch = CH_UNDERSCORE then parse_inline_identifier pa c ctx
          else no_result)"

section \<open>Placeables\<close>

definition close_placeable :: "expression \<Rightarrow> cursor \<Rightarrow> placeable parse_result parser" where
  "close_placeable e c =
     (if cur c \<noteq> Some CH_RBRACE then no_result else ret (Placeable e None, adv c))"

definition placeable_body ::
    "placeable_fn \<Rightarrow> expression_fn \<Rightarrow> cursor \<Rightarrow> parse_context \<Rightarrow> placeable parse_result parser" where
  "placeable_body pp pa c ctx =
     (if is_depth_exceeded ctx then and_then mark_depth_exceeded (\<lambda>_. no_result)
      else let nested = enter_nesting ctx;
               c = skip_blank c
           in and_then (parse_inline_expression pp pa c nested) (\<lambda>(expression, c1).
              let c2 = skip_blank c1
              in if is_selector expression \<and> cur c2 = Some CH_MINUS \<and> cur (adv c2) = Some CH_GREATER
                 then and_then (parse_select_expression pp (adv (adv c2)) expression (pos c) nested)
                        (\<lambda>(select, c3). close_placeable select (skip_blank c3))
                 else close_placeable expression c2))"

text \<open>The knot: the fuel goes down by one at each placeable and each argument.\<close>

fun parse_placeable_at :: "nat \<Rightarrow> placeable_fn"
and parse_argument_at :: "nat \<Rightarrow> expression_fn" where
  "parse_placeable_at 0 c ctx = out_of_fuel"
| "parse_placeable_at (Suc n) c ctx =
     placeable_body (\<lambda>c' ctx'. parse_placeable_at n c' ctx') (\<lambda>c' ctx'. parse_argument_at n c' ctx') c ctx"
| "parse_argument_at 0 c ctx = out_of_fuel"
| "parse_argument_at (Suc n) c ctx =
     argument_expression_body (\<lambda>c' ctx'. parse_placeable_at n c' ctx') (\<lambda>c' ctx'. parse_argument_at n c' ctx') c ctx"

definition parse_placeable :: placeable_fn where
  "parse_placeable c ctx = parse_placeable_at (Suc (remaining c)) c ctx"

definition parse_argument_expression :: expression_fn where
  "parse_argument_expression c ctx = parse_argument_at (Suc (remaining c)) c ctx"

end
