(* ===== verification/Expression_Safety.thy ===== *)
theory Expression_Safety
  imports Expressions
begin

text \<open>
  Every function of Expressions returns: it neither raises nor runs out of fuel, it
  consumes input, and its result is well-formed and no deeper than the context allows.
\<close>

section \<open>Steps shared by the parsers\<close>

definition expression_post :: "cursor \<Rightarrow> parse_context \<Rightarrow> expression parse_result \<Rightarrow> bool" where
  "expression_post c ctx r \<longleftrightarrow>
     (case r of (e, c') \<Rightarrow>
        advances c c' \<and> wf_expr (length (source c)) e \<and> is_inline e \<and> nesting_expr e \<le> depth_left ctx)"

definition arguments_post :: "cursor \<Rightarrow> parse_context \<Rightarrow> call_arguments parse_result \<Rightarrow> bool" where
  "arguments_post c ctx r \<longleftrightarrow>
     (case r of (args, c') \<Rightarrow>
        moves c c' \<and> wf_args (length (source c)) args \<and> nesting_args args \<le> depth_left ctx)"

lemma safe_bind_identifier:
  assumes "\<And>name c'. advances c c' \<Longrightarrow> grammar_identifier name \<Longrightarrow> safe Q (k (name, c'))"
  shows "safe Q (and_then (or_none (parse_identifier c)) k)"
proof (rule safe_and_then)
  show "safe (\<lambda>(name, c'). advances c c' \<and> grammar_identifier name) (or_none (parse_identifier c))"
    by (rule safe_or_none) (auto dest: parse_identifier_Inr)
qed (use assms in auto)

lemma safe_bind_mk_identifier:
  assumes "s \<le> e" "e \<le> n" "grammar_identifier name"
    and "\<And>i. identifier_ok n i \<Longrightarrow> safe Q (k i)"
  shows "safe Q (and_then (mk_identifier name s e) k)"
proof (rule safe_and_then)
  show "safe (identifier_ok n) (mk_identifier name s e)"
    unfolding mk_identifier_def using assms(1-3)
    by (intro safe_and_then [OF safe_mk_span [where Q = "\<lambda>sp. sp = Span s e"]]) (auto intro!: safe_ret)
qed (use assms in auto)

lemma safe_bind_span: "s \<le> e \<Longrightarrow> safe Q (k (Span s e)) \<Longrightarrow> safe Q (and_then (mk_span s e) k)"
  by (rule safe_and_then [OF safe_mk_span [where Q = "\<lambda>sp. sp = Span s e"]]) auto

text \<open>The positions of cursors in one source, ready for arithmetic.\<close>

lemmas cursor_facts = moves_def advances_def wf_cursor_def

lemma skip_blank_adv_advances: "cur c = Some ch \<Longrightarrow> advances c (skip_blank (adv c))"
  by (rule advances_trans [OF adv_advances skip_blank_moves]) simp_all

lemma skip_blank_inline_adv_advances: "cur c = Some ch \<Longrightarrow> advances c (skip_blank_inline (adv c))"
  by (rule advances_trans [OF adv_advances skip_blank_inline_moves]) simp_all

lemma advances_adv: "advances c c' \<Longrightarrow> advances c (adv c')"
  using pos_adv_ge [of c'] by (simp add: advances_def)

lemma moves_adv: "moves c c' \<Longrightarrow> moves c (adv c')"
  using pos_adv_ge [of c'] by (simp add: moves_def)

lemma advances_skip_blank: "advances c c' \<Longrightarrow> advances c (skip_blank c')"
  using advances_trans skip_blank_moves advances_wf by blast

lemma moves_skip_blank: "moves c c' \<Longrightarrow> moves c (skip_blank c')"
  using moves_trans skip_blank_moves moves_wf by blast

lemma advances_skip_blank_inline: "advances c c' \<Longrightarrow> advances c (skip_blank_inline c')"
  using advances_trans skip_blank_inline_moves advances_wf by blast

lemma moves_skip_blank_inline: "moves c c' \<Longrightarrow> moves c (skip_blank_inline c')"
  using moves_trans skip_blank_inline_moves moves_wf by blast

lemmas progress = advances_adv moves_adv advances_skip_blank moves_skip_blank
  advances_skip_blank_inline moves_skip_blank_inline adv_advances

lemma advances_end: "advances c c' \<Longrightarrow> pos c' \<le> length (source c)"
  by (auto simp: advances_def wf_cursor_def)

lemma advances_start: "advances c c' \<Longrightarrow> pos c \<le> pos c'"
  by (simp add: advances_def)

lemma moves_start: "moves c c' \<Longrightarrow> pos c \<le> pos c'"
  by (simp add: moves_def)

lemma advances_source: "advances c c' \<Longrightarrow> source c' = source c"
  by (simp add: advances_def)

lemma moves_source: "moves c c' \<Longrightarrow> source c' = source c"
  by (simp add: moves_def)

section \<open>References and literals\<close>

lemma parse_variable_reference_safe: "safe (expression_post c ctx) (parse_variable_reference c)"
proof (cases "cur c = Some CH_DOLLAR")
  case True
  show ?thesis
    unfolding parse_variable_reference_def Let_def using True
    by (auto intro!: safe_bind_identifier safe_bind_mk_identifier [where n = "length (source c)"]
        safe_bind_span safe_ret simp: expression_post_def pos_adv cursor_facts)
qed (simp add: parse_variable_reference_def)

lemma parse_inline_string_literal_safe: "safe (expression_post c ctx) (parse_inline_string_literal c)"
  unfolding parse_inline_string_literal_def
  by (rule safe_and_then [where R = "\<lambda>(s, c'). advances c c'"])
    (auto intro!: safe_or_none safe_ret dest: parse_string_literal_Inr simp: expression_post_def)

lemma parse_number_value_step:
  assumes "parse_number c = Inr (raw, c')"
  obtains v where "parse_number_value raw = Inr v" "number_literal_ok v raw" "advances c c'"
  using parse_number_Inr [OF assms] number_shape_value by blast

lemma parse_inline_number_literal_safe: "safe (expression_post c ctx) (parse_inline_number_literal c)"
proof (cases "parse_number c")
  case (Inl e)
  then show ?thesis by (simp add: parse_inline_number_literal_def or_none_def and_then_def no_result_def safe_def)
next
  case (Inr r)
  obtain raw c' where r: "r = (raw, c')" by force
  from parse_number_value_step [OF Inr [unfolded r]] obtain v where
    v: "parse_number_value raw = Inr v" "number_literal_ok v raw" "advances c c'" .
  show ?thesis
    unfolding parse_inline_number_literal_def
    by (rule safe_and_then [where R = "\<lambda>x. x = (raw, c')"])
      (use v in \<open>auto intro!: safe_or_none safe_ret
         safe_and_then [OF safe_or_raise [where Q = "\<lambda>x. x = v"]]
         safe_and_then [OF safe_mk_number_literal [where Q = "\<lambda>e. e = NumberLiteral v raw None"]]
         simp: expression_post_def Inr r\<close>)
qed

lemma parse_variant_key_safe:
  assumes "wf_cursor c"
  shows "safe (\<lambda>(key, c'). advances c c' \<and> key_ok (length (source c)) key) (parse_variant_key c)"
proof -
  let ?Q = "\<lambda>(key, c'). advances c c' \<and> key_ok (length (source c)) key"
  have ident: "safe ?Q (and_then (or_none (parse_identifier c)) (\<lambda>(name, c').
            and_then (mk_identifier name (pos c) (pos c')) (\<lambda>i. ret (KeyIdentifier i, c'))))"
    by (auto intro!: safe_bind_identifier safe_bind_mk_identifier [where n = "length (source c)"] safe_ret
        simp: cursor_facts)
  show ?thesis
  proof (cases "at_digit c \<or> cur c = Some CH_MINUS")
    case False
    with ident show ?thesis by (simp add: parse_variant_key_def)
  next
    case True
    show ?thesis
    proof (cases "parse_number c")
      case (Inl e)
      with True ident show ?thesis by (simp add: parse_variant_key_def)
    next
      case (Inr r)
      obtain raw c' where r: "r = (raw, c')" by force
      from parse_number_value_step [OF Inr [unfolded r]] obtain v where
        v: "parse_number_value raw = Inr v" "number_literal_ok v raw" "advances c c'" .
      have "safe ?Q (and_then (or_raise (parse_number_value raw)) (\<lambda>num_value.
                   and_then (mk_key_number num_value raw None) (\<lambda>key. ret (key, c'))))"
        using v
        by (auto intro!: safe_ret safe_and_then [OF safe_or_raise [where Q = "\<lambda>x. x = v"]]
          safe_and_then [OF safe_mk_key_number [where Q = "\<lambda>k. k = KeyNumber v raw None"]])
      with True show ?thesis by (simp add: parse_variant_key_def Inr r)
    qed
  qed
qed

definition attribute_post :: "cursor \<Rightarrow> ident option parse_result \<Rightarrow> bool" where
  "attribute_post c r \<longleftrightarrow>
     (case r of (a, c') \<Rightarrow> moves c c' \<and> pred_option (identifier_ok (length (source c))) a)"

lemma parse_message_attribute_safe: "wf_cursor c \<Longrightarrow> safe (attribute_post c) (parse_message_attribute c)"
proof (cases "cur c = Some CH_DOT")
  case True
  have m: "advances c (adv c)" using True by (rule adv_advances)
  show ?thesis
  proof (cases "parse_identifier (adv c)")
    case (Inl e)
    with True m show ?thesis
      by (auto simp: parse_message_attribute_def attribute_post_def advances_moves intro!: safe_ret)
  next
    case (Inr r)
    obtain name c' where r: "r = (name, c')" by force
    have n: "advances (adv c) c'" "grammar_identifier name"
      using parse_identifier_Inr [OF Inr [unfolded r]] by auto
    with m have "moves c c'" by (auto simp: cursor_facts)
    with True n m show ?thesis
      by (auto simp: parse_message_attribute_def Inr r attribute_post_def cursor_facts
          intro!: safe_bind_mk_identifier [where n = "length (source c)"] safe_ret)
  qed
qed (simp add: parse_message_attribute_def attribute_post_def moves_refl safe_ret)

lemma parse_term_attribute_safe: "wf_cursor c \<Longrightarrow> safe (attribute_post c) (parse_term_attribute c)"
proof (cases "cur c = Some CH_DOT")
  case True
  have m: "advances c (adv c)" using True by (rule adv_advances)
  show ?thesis
    unfolding parse_term_attribute_def Let_def using True m
    by (auto intro!: safe_bind_identifier safe_bind_mk_identifier [where n = "length (source c)"] safe_ret
        simp: attribute_post_def cursor_facts)
qed (simp add: parse_term_attribute_def attribute_post_def moves_refl safe_ret)

section \<open>The mutually recursive functions, from the contract of the cycle\<close>

definition variants_post :: "cursor \<Rightarrow> parse_context \<Rightarrow> variant list parse_result \<Rightarrow> bool" where
  "variants_post c ctx r \<longleftrightarrow>
     (case r of (vs, c') \<Rightarrow> moves c c' \<and> list_all (wf_variant (length (source c))) vs \<and>
        (\<forall>v \<in> set vs. nesting_variant v \<le> depth_left ctx))"

definition variant_post :: "cursor \<Rightarrow> parse_context \<Rightarrow> variant parse_result \<Rightarrow> bool" where
  "variant_post c ctx r \<longleftrightarrow>
     (case r of (v, c') \<Rightarrow>
        advances c c' \<and> wf_variant (length (source c)) v \<and> nesting_variant v \<le> depth_left ctx)"

definition term_arguments_post ::
    "cursor \<Rightarrow> parse_context \<Rightarrow> call_arguments option parse_result \<Rightarrow> bool" where
  "term_arguments_post c ctx r \<longleftrightarrow>
     (case r of (args, c') \<Rightarrow> moves c c' \<and> pred_option (wf_args (length (source c))) args \<and>
        pred_option (\<lambda>a. Suc (nesting_args a) \<le> depth_left ctx) args)"

text \<open>The arguments collected so far.\<close>

definition collected_ok :: "nat \<Rightarrow> nat \<Rightarrow> expression list \<Rightarrow> named_argument list \<Rightarrow> ustr set \<Rightarrow> bool" where
  "collected_ok n d positional named seen_names \<longleftrightarrow>
     list_all (wf_expr n) positional \<and> list_all is_inline positional \<and> (\<forall>e \<in> set positional. nesting_expr e \<le> d) \<and>
     list_all (wf_named n) named \<and> (\<forall>a \<in> set named. nesting_named a \<le> d) \<and>
     distinct (map named_name named) \<and> set (map named_name named) = seen_names"

lemma collected_ok_result:
  "collected_ok n d positional named seen_names \<Longrightarrow>
     wf_args n (CallArguments positional named None) \<and>
     nesting_args (CallArguments positional named None) \<le> d"
  by (auto simp: collected_ok_def max_list_le_iff)

lemma literal_nesting: "is_literal e \<Longrightarrow> nesting_expr e = 0"
  by (cases e) auto

lemma collected_ok_named:
  assumes "collected_ok n d positional named seen_names" "id_name i \<notin> seen_names"
    "identifier_ok n i" "is_literal e" "wf_expr n e"
  shows "collected_ok n d positional (named @ [NamedArgument (Identifier (id_name i) (id_span i)) e None])
           (insert (id_name i) seen_names)"
  using assms by (cases i) (auto simp: collected_ok_def literal_nesting)

lemma collected_ok_positional:
  "collected_ok n d positional named seen_names \<Longrightarrow> wf_expr n e \<Longrightarrow> is_inline e \<Longrightarrow> nesting_expr e \<le> d \<Longrightarrow>
     collected_ok n d (positional @ [e]) named seen_names"
  by (auto simp: collected_ok_def)

lemma skip_comma_moves: "wf_cursor c \<Longrightarrow> moves c (skip_comma c)"
  by (auto simp: skip_comma_def Let_def intro!: progress moves_refl)

text \<open>After a blank skip that starts before the end at a non-blank, the read succeeds.\<close>

text \<open>The loop's read is at a position the previous iteration left on a non-blank.\<close>

lemma skip_comma_skipped: "skip_blank (skip_comma c) = skip_comma c"
  by (simp add: skip_comma_def Let_def)

locale expression_parser = placeable_parser +
  fixes pa :: expression_fn
  assumes argument_safe:
    "wf_cursor c \<Longrightarrow> remaining c < bound \<Longrightarrow> safe (expression_post c ctx) (pa c ctx)"
begin

lemma parse_variant_safe:
  assumes "wf_cursor c" "remaining c \<le> bound"
  shows "safe (variant_post c ctx) (parse_variant pp c ctx)"
proof -
  define c1 where "c1 = (if cur c = Some CH_STAR then adv c else c)"
  have c1: "moves c c1" using assms(1) by (auto simp: c1_def intro: moves_adv moves_refl)
  show ?thesis
  proof (cases "cur c1 = Some CH_LBRACKET")
    case False
    then show ?thesis by (simp add: parse_variant_def c1_def Let_def)
  next
    case True
    let ?k = "skip_blank (adv c1)"
    have k: "advances c ?k"
      using moves_advances [OF c1 adv_advances [OF True]] by (rule advances_skip_blank)
    have "safe (variant_post c ctx) (and_then (parse_variant_key ?k) (\<lambda>(key, c2).
              let c3 = skip_blank c2
              in if cur c3 \<noteq> Some CH_RBRACKET then no_result
                 else and_then (parse_simple_pattern pp (skip_blank_inline (adv c3)) ctx) (\<lambda>(value, c4).
                   ret (Variant key value (cur c = Some CH_STAR) None, c4))))"
    proof (rule safe_and_then [OF parse_variant_key_safe [OF advances_wf [OF k]]])
      fix r assume "case r of (key, c') \<Rightarrow> advances ?k c' \<and> key_ok (length (source ?k)) key"
      then obtain key c2 where r: "r = (key, c2)" and c2: "advances ?k c2"
        and key: "key_ok (length (source c)) key"
        using advances_source [OF k] by (cases r) auto
      let ?s = "skip_blank_inline (adv (skip_blank c2))"
      have s: "advances c ?s"
        using advances_trans [OF k advances_moves [OF c2]] by (intro progress)
      have "safe (pattern_post ?s ctx) (parse_simple_pattern pp ?s ctx)"
        using remaining_advances [OF s] assms(2) by (intro parse_simple_pattern_safe advances_wf [OF s]) simp
      then have "safe (variant_post c ctx) (and_then (parse_simple_pattern pp ?s ctx) (\<lambda>(value, c4).
                   ret (Variant key value (cur c = Some CH_STAR) None, c4)))"
        by (rule safe_and_then)
          (use key advances_source [OF s] in
            \<open>auto simp: pattern_post_def variant_post_def intro!: safe_ret advances_trans [OF s]\<close>)
      then show "safe (variant_post c ctx) (case r of (key, c2) \<Rightarrow>
              let c3 = skip_blank c2
              in if cur c3 \<noteq> Some CH_RBRACKET then no_result
                 else and_then (parse_simple_pattern pp (skip_blank_inline (adv c3)) ctx) (\<lambda>(value, c4).
                   ret (Variant key value (cur c = Some CH_STAR) None, c4)))"
        by (simp add: r Let_def)
    qed
    with True show ?thesis unfolding parse_variant_def Let_def c1_def [symmetric] by simp
  qed
qed

lemma variants_loop_safe:
  assumes "remaining c < n" "wf_cursor c" "remaining c \<le> bound"
    "list_all (wf_variant (length (source c))) vs" "\<forall>v \<in> set vs. nesting_variant v \<le> depth_left ctx"
  shows "safe (variants_post c ctx) (variants_loop pp ctx n c vs)"
  using assms
proof (induction n arbitrary: c vs)
  case (Suc n)
  let ?b = "skip_blank c"
  have b: "moves c ?b" using Suc.prems(2) by (rule skip_blank_moves)
  have stop: "safe (variants_post c ctx) (ret (vs, c))" "safe (variants_post c ctx) (ret (vs, ?b))"
    using Suc.prems b by (auto simp: variants_post_def moves_refl intro!: safe_ret)
  have "safe (variants_post c ctx) (and_then (parse_variant pp ?b ctx) (\<lambda>(variant, c').
                variants_loop pp ctx n c' (vs @ [variant])))"
  proof (rule safe_and_then [OF parse_variant_safe])
    show "wf_cursor ?b" "remaining ?b \<le> bound"
      using Suc.prems(2,3) remaining_moves [OF b] by auto
    fix r assume "variant_post ?b ctx r"
    then obtain v c' where r: "r = (v, c')" and v: "advances ?b c'" "wf_variant (length (source c)) v"
      "nesting_variant v \<le> depth_left ctx"
      by (auto simp: variant_post_def)
    have a: "advances c c'" using b v(1) by (rule moves_advances)
    have "safe (variants_post c' ctx) (variants_loop pp ctx n c' (vs @ [v]))"
      using Suc.prems v remaining_advances [OF a] advances_source [OF a]
      by (intro Suc.IH advances_wf [OF a]) auto
    then show "safe (variants_post c ctx) (case r of (variant, c') \<Rightarrow>
        variants_loop pp ctx n c' (vs @ [variant]))"
      unfolding r prod.case
      by (rule safe_weaken)
        (use a advances_source [OF a] in \<open>auto simp: variants_post_def intro: moves_trans advances_moves\<close>)
  qed
  with stop show ?case by (simp add: Let_def)
qed simp

lemma parse_select_expression_safe:
  assumes "wf_cursor c" "remaining c \<le> bound" "is_selector sel" "wf_expr (length (source c)) sel"
    "nesting_expr sel \<le> depth_left ctx" "start \<le> pos c"
  shows "safe (\<lambda>(e, c'). moves c c' \<and> wf_expr (length (source c)) e \<and> nesting_expr e \<le> depth_left ctx)
           (parse_select_expression pp c sel start ctx)"
  unfolding parse_select_expression_def Let_def
proof (rule safe_and_then [OF variants_loop_safe])
  let ?b = "skip_blank c"
  have b: "moves c ?b" using assms(1) by (rule skip_blank_moves)
  show "wf_cursor ?b" "remaining ?b \<le> bound" "remaining ?b < Suc (remaining ?b)"
    using assms(1,2) remaining_moves [OF b] by auto
  fix r assume "variants_post ?b ctx r"
  then obtain vs c' where r: "r = (vs, c')" and vs: "moves ?b c'" "list_all (wf_variant (length (source c))) vs"
      "\<forall>v \<in> set vs. nesting_variant v \<le> depth_left ctx"
    by (auto simp: variants_post_def)
  have m: "moves c c'" using b vs(1) by (rule moves_trans)
  show "safe (\<lambda>(e, c'). moves c c' \<and> wf_expr (length (source c)) e \<and> nesting_expr e \<le> depth_left ctx)
        (case r of (variants, c') \<Rightarrow>
           if variants = [] then no_result
           else if length (filter variant_default variants) \<noteq> 1 then no_result
                else and_then (mk_span start (pos c')) (\<lambda>sp.
                     and_then (mk_select_expression sel variants (Some sp)) (\<lambda>e. ret (e, c'))))"
    unfolding r prod.case
    using m vs assms(3-6)
    by (intro safe_if safe_no_result safe_bind_span
        safe_and_then [OF safe_mk_select_expression
          [where Q = "\<lambda>e. e = SelectExpression sel vs (Some (Span start (pos c')))"]])
      (auto simp: max_list_le_iff cursor_facts intro!: safe_ret)
qed simp_all

lemma arguments_post_trans:
  "moves c c1 \<Longrightarrow> arguments_post c1 ctx r \<Longrightarrow> arguments_post c ctx r"
  by (auto simp: arguments_post_def moves_def split: prod.splits)

lemma call_arguments_loop_safe:
  assumes "remaining c < n" "wf_cursor c" "remaining c < bound" "skip_blank c = c"
    "collected_ok (length (source c)) (depth_left ctx) positional named seen_names"
  shows "safe (arguments_post c ctx)
           (call_arguments_loop pa ctx n c positional named seen_names seen_named)"
  using assms
proof (induction n arbitrary: c positional named seen_names seen_named)
  case (Suc n)
  have stop: "safe (arguments_post c ctx) (ret (CallArguments positional named None, c))"
    using collected_ok_result [OF Suc.prems(5)] Suc.prems(2)
    by (intro safe_ret) (simp add: arguments_post_def moves_refl del: wf_args.simps nesting_args.simps)
  have rec: "safe (arguments_post c ctx)
      (call_arguments_loop pa ctx n (skip_comma c') positional' named' seen_names' seen_named')"
    if "advances c c'" "collected_ok (length (source c)) (depth_left ctx) positional' named' seen_names'"
    for c' positional' named' seen_names' seen_named'
  proof -
    have a: "advances c (skip_comma c')"
      using that(1) by (rule advances_trans) (rule skip_comma_moves [OF advances_wf [OF that(1)]])
    have "safe (arguments_post (skip_comma c') ctx)
      (call_arguments_loop pa ctx n (skip_comma c') positional' named' seen_names' seen_named')"
      using that(2) Suc.prems(1,3) remaining_advances [OF a] advances_source [OF a]
      by (intro Suc.IH advances_wf [OF a] skip_comma_skipped) auto
    then show ?thesis by (rule safe_weaken) (rule arguments_post_trans [OF advances_moves [OF a]])
  qed
  show ?case
  proof (cases "cur c")
    case None
    with stop show ?thesis by (simp add: cur_def split: if_splits)
  next
    case (Some ch)
    have "safe (arguments_post c ctx) (and_then (pa c ctx) (\<lambda>(arg_expr, c1).
                   let c2 = skip_blank c1
                   in if cur c2 = Some CH_COLON then
                        (let c3 = skip_blank (adv c2)
                         in case arg_expr of
                              MessageReference i _ _ \<Rightarrow>
                                let arg_name = id_name i
                                in if arg_name \<in> seen_names then no_result
                                   else if is_eof c3 then no_result
                                   else and_then (pa c3 ctx) (\<lambda>(value_expr, c4).
                                        if \<not> is_literal value_expr then no_result
                                        else call_arguments_loop pa ctx n (skip_comma c4) positional
                                          (named @ [NamedArgument (Identifier arg_name (id_span i)) value_expr None])
                                          (insert arg_name seen_names) True)
                            | _ \<Rightarrow> no_result)
                      else if seen_named then no_result
                      else call_arguments_loop pa ctx n (skip_comma c2) (positional @ [arg_expr]) named
                             seen_names seen_named))"
    proof (rule safe_and_then [OF argument_safe [OF Suc.prems(2,3)]], goal_cases)
      case (1 r)
      then obtain e c1 where r: "r = (e, c1)" and c1: "advances c c1"
        and e: "wf_expr (length (source c)) e" "is_inline e" "nesting_expr e \<le> depth_left ctx"
        by (auto simp: expression_post_def)
      let ?c2 = "skip_blank c1" and ?c3 = "skip_blank (adv (skip_blank c1))"
      have c2: "advances c ?c2" and c3: "advances c ?c3" using c1 by (intro progress; assumption)+
      have named: "safe (arguments_post c ctx) (and_then (pa ?c3 ctx) (\<lambda>(value_expr, c4).
              if \<not> is_literal value_expr then no_result
              else call_arguments_loop pa ctx n (skip_comma c4) positional
                (named @ [NamedArgument (Identifier (id_name i) (id_span i)) value_expr None])
                (insert (id_name i) seen_names) True))"
        if i: "e = MessageReference i at sp" "id_name i \<notin> seen_names" for i at sp
      proof (rule safe_and_then [OF argument_safe])
        show "wf_cursor ?c3" "remaining ?c3 < bound"
          using advances_wf [OF c3] remaining_advances [OF c3] Suc.prems(3) by auto
        fix v assume "expression_post ?c3 ctx v"
        then obtain w c4 where v: "v = (w, c4)" "advances ?c3 c4" "wf_expr (length (source c)) w"
          using advances_source [OF c3] by (auto simp: expression_post_def)
        have "advances c c4" using c3 advances_moves [OF v(2)] by (rule advances_trans)
        with i e(1) v Suc.prems(5) show "safe (arguments_post c ctx) (case v of (value_expr, c4) \<Rightarrow>
              if \<not> is_literal value_expr then no_result
              else call_arguments_loop pa ctx n (skip_comma c4) positional
                (named @ [NamedArgument (Identifier (id_name i) (id_span i)) value_expr None])
                (insert (id_name i) seen_names) True)"
          by (auto intro!: rec collected_ok_named safe_if safe_no_result simp del: ident.collapse)
      qed
      show ?case
        unfolding r prod.case Let_def using named c2 e Suc.prems(5)
        by (auto split: expression.split intro!: rec collected_ok_positional safe_if safe_no_result)
    qed
    with stop Some Suc.prems(4) show ?thesis
      by (simp add: Let_def current_cur or_raise_def and_then_def ret_def)
  qed
qed simp

lemma parse_call_arguments_safe:
  assumes "wf_cursor c" "remaining c < bound"
  shows "safe (arguments_post c ctx) (parse_call_arguments pa c ctx)"
proof -
  have b: "moves c (skip_blank c)" using assms(1) by (rule skip_blank_moves)
  have "safe (arguments_post (skip_blank c) ctx)
      (call_arguments_loop pa ctx (Suc (remaining (skip_blank c))) (skip_blank c) [] [] {} False)"
    using assms remaining_moves [OF b]
    by (intro call_arguments_loop_safe) (auto simp: collected_ok_def)
  then show ?thesis
    unfolding parse_call_arguments_def Let_def
    by (rule safe_weaken) (rule arguments_post_trans [OF b])
qed

text \<open>The parenthesised argument list of a function or a term, one level deeper.\<close>

lemma nested_arguments:
  assumes "advances c c2" "remaining c \<le> bound"
    "\<And>args c3. moves c2 c3 \<Longrightarrow> advances c c3 \<Longrightarrow> wf_args (length (source c)) args \<Longrightarrow>
       nesting_args args \<le> depth_left ctx \<Longrightarrow> safe Q (k (args, c3))"
  shows "safe Q (and_then (parse_call_arguments pa c2 ctx) k)"
proof (rule safe_and_then [OF parse_call_arguments_safe])
  show "wf_cursor c2" "remaining c2 < bound"
    using advances_wf [OF assms(1)] remaining_advances [OF assms(1)] assms(2) by auto
  fix r assume "arguments_post c2 ctx r"
  then show "safe Q (k r)"
    using assms(1,3) advances_source [OF assms(1)]
    by (cases r) (auto simp: arguments_post_def intro: advances_trans)
qed

lemma parse_function_reference_safe:
  assumes "wf_cursor c" "remaining c \<le> bound"
  shows "safe (expression_post c ctx) (parse_function_reference pa c ctx)"
  unfolding parse_function_reference_def Let_def
proof (intro safe_if safe_no_result safe_bind_identifier)
  assume d: "\<not> is_depth_exceeded ctx"
  fix name c1 assume c1: "advances c c1" "grammar_identifier name"
  let ?c2 = "skip_blank_inline c1"
  have a: "advances c (adv ?c2)" using c1(1) by (intro progress)
  have "safe (expression_post c ctx)
     (and_then (parse_call_arguments pa (adv ?c2) (enter_nesting ctx)) (\<lambda>(args, c3).
        if cur (skip_blank_inline c3) \<noteq> Some CH_RPAREN then no_result
        else and_then (mk_identifier name (pos c) (pos c1)) (\<lambda>i.
             and_then (mk_span (pos c) (pos (adv (skip_blank_inline c3)))) (\<lambda>sp.
               ret (FunctionReference i args (Some sp), adv (skip_blank_inline c3))))))"
  proof (rule nested_arguments [OF a assms(2)], goal_cases)
    case (1 args c3)
    then have "advances c (adv (skip_blank_inline c3))" by (intro progress)
    with 1 c1 d show ?case
      by (auto intro!: safe_if safe_no_result safe_bind_mk_identifier [where n = "length (source c)"]
          safe_bind_span safe_ret
          simp: expression_post_def depth_left_enter_Suc advances_start advances_end)
  qed
  then show "safe (expression_post c ctx) (case (name, c1) of (func_name, c1) \<Rightarrow>
           if cur (skip_blank_inline c1) \<noteq> Some CH_LPAREN then no_result
           else and_then (parse_call_arguments pa (adv (skip_blank_inline c1)) (enter_nesting ctx)) (\<lambda>(args, c3).
                if cur (skip_blank_inline c3) \<noteq> Some CH_RPAREN then no_result
                else and_then (mk_identifier func_name (pos c) (pos c1)) (\<lambda>i.
                     and_then (mk_span (pos c) (pos (adv (skip_blank_inline c3)))) (\<lambda>sp.
                       ret (FunctionReference i args (Some sp), adv (skip_blank_inline c3))))))"
    by simp
qed

lemma parse_term_arguments_safe:
  assumes "wf_cursor c" "remaining c \<le> bound"
  shows "safe (term_arguments_post c ctx) (parse_term_arguments pa c ctx)"
proof -
  let ?b = "skip_blank_inline c"
  have b: "moves c ?b" using assms(1) by (rule skip_blank_inline_moves)
  show ?thesis
  proof (cases "cur ?b = Some CH_LPAREN \<and> \<not> is_depth_exceeded ctx")
    case False
    with b show ?thesis
      by (auto simp: parse_term_arguments_def Let_def term_arguments_post_def intro!: safe_ret safe_no_result)
  next
    case True
    then have a: "advances c (adv ?b)" using moves_advances [OF b adv_advances] by blast
    have "safe (term_arguments_post c ctx)
      (and_then (parse_call_arguments pa (adv ?b) (enter_nesting ctx)) (\<lambda>(args, c1).
              if cur (skip_blank_inline c1) \<noteq> Some CH_RPAREN then no_result
              else ret (Some args, adv (skip_blank_inline c1))))"
      by (rule nested_arguments [OF a assms(2)])
        (use True in \<open>auto intro!: safe_if safe_no_result safe_ret moves_adv moves_skip_blank_inline
           simp: term_arguments_post_def depth_left_enter_Suc advances_moves\<close>)
    with True show ?thesis by (simp add: parse_term_arguments_def Let_def)
  qed
qed

lemma parse_term_reference_safe:
  assumes "wf_cursor c" "remaining c \<le> bound"
  shows "safe (expression_post c ctx) (parse_term_reference pa c ctx)"
proof (cases "cur c = Some CH_MINUS")
  case True
  let ?n = "length (source c)"
  have c1: "advances c (adv c)" using True by (rule adv_advances)
  have "safe (expression_post c ctx)
     (and_then (or_none (parse_identifier (adv c))) (\<lambda>(name, c2).
              and_then (parse_term_attribute c2) (\<lambda>(attribute, c3).
              and_then (parse_term_arguments pa c3 ctx) (\<lambda>(arguments, c4).
              and_then (mk_identifier name (pos (adv c)) (pos c2)) (\<lambda>i.
              and_then (mk_span (pos c) (pos c4)) (\<lambda>sp.
                ret (TermReference i attribute arguments (Some sp), c4)))))))"
  proof (rule safe_bind_identifier, unfold prod.case, rule safe_and_then [OF parse_term_attribute_safe])
    fix name c2 assume c2: "advances (adv c) c2" "grammar_identifier name"
    show "wf_cursor c2" using c2(1) by (rule advances_wf)
    fix r assume "attribute_post c2 r"
    then obtain attribute c3 where r: "r = (attribute, c3)" and c3: "moves c2 c3"
      "pred_option (identifier_ok ?n) attribute"
      using advances_source [OF c2(1)] by (auto simp: attribute_post_def)
    have m3: "advances c c3" using c1 c2(1) c3(1) by (metis advances_moves advances_trans)
    have "safe (expression_post c ctx) (and_then (parse_term_arguments pa c3 ctx) (\<lambda>(arguments, c4).
              and_then (mk_identifier name (pos (adv c)) (pos c2)) (\<lambda>i.
              and_then (mk_span (pos c) (pos c4)) (\<lambda>sp.
                ret (TermReference i attribute arguments (Some sp), c4)))))"
    proof (rule safe_and_then [OF parse_term_arguments_safe])
      show "wf_cursor c3" "remaining c3 \<le> bound"
        using advances_wf [OF m3] remaining_advances [OF m3] assms(2) by auto
      fix q assume "term_arguments_post c3 ctx q"
      then obtain arguments c4 where q: "q = (arguments, c4)" and c4: "moves c3 c4"
        "pred_option (wf_args ?n) arguments" "pred_option (\<lambda>a. Suc (nesting_args a) \<le> depth_left ctx) arguments"
        using advances_source [OF m3] by (auto simp: term_arguments_post_def)
      have m4: "advances c c4" using m3 c4(1) by (rule advances_trans)
      have sp: "pos (adv c) \<le> pos c2" "pos c2 \<le> ?n" "pos c \<le> pos c4" "pos c4 \<le> ?n"
        using c1 c2(1) m4 by (auto simp: cursor_facts)
      show "safe (expression_post c ctx) (case q of (arguments, c4) \<Rightarrow>
              and_then (mk_identifier name (pos (adv c)) (pos c2)) (\<lambda>i.
              and_then (mk_span (pos c) (pos c4)) (\<lambda>sp.
                ret (TermReference i attribute arguments (Some sp), c4))))"
        unfolding q prod.case
        using c2(2) c3(2) c4(2,3) m4 sp
        by (intro safe_bind_mk_identifier [where n = ?n] safe_bind_span safe_ret)
          (cases arguments; auto simp: expression_post_def)+
    qed
    then show "safe (expression_post c ctx) (case r of (attribute, c3) \<Rightarrow>
              and_then (parse_term_arguments pa c3 ctx) (\<lambda>(arguments, c4).
              and_then (mk_identifier name (pos (adv c)) (pos c2)) (\<lambda>i.
              and_then (mk_span (pos c) (pos c4)) (\<lambda>sp.
                ret (TermReference i attribute arguments (Some sp), c4)))))"
      by (simp add: r)
  qed
  with True show ?thesis by (simp add: parse_term_reference_def Let_def)
qed (simp add: parse_term_reference_def)

lemma parse_inline_hyphen_safe:
  "wf_cursor c \<Longrightarrow> remaining c \<le> bound \<Longrightarrow>
     safe (expression_post c ctx) (parse_inline_hyphen pa c ctx)"
  unfolding parse_inline_hyphen_def
  by (intro safe_if parse_term_reference_safe parse_inline_number_literal_safe)

lemma parse_inline_identifier_safe:
  assumes "wf_cursor c" "remaining c \<le> bound"
  shows "safe (expression_post c ctx) (parse_inline_identifier pa c ctx)"
  unfolding parse_inline_identifier_def
proof (rule safe_bind_identifier, unfold prod.case, intro safe_if parse_function_reference_safe assms,
    rule safe_and_then [OF parse_message_attribute_safe])
  fix name c1 assume c1: "advances c c1" "grammar_identifier name"
  show "wf_cursor c1" using c1(1) by (rule advances_wf)
  fix r assume "attribute_post c1 r"
  then obtain attribute c2 where r: "r = (attribute, c2)" "moves c1 c2"
    "pred_option (identifier_ok (length (source c))) attribute"
    using advances_source [OF c1(1)] by (auto simp: attribute_post_def)
  have "advances c c2" using c1(1) r(2) by (rule advances_trans)
  with c1 r show "safe (expression_post c ctx) (case r of (attribute, c2) \<Rightarrow>
            and_then (mk_identifier name (pos c) (pos c1)) (\<lambda>i.
            and_then (mk_span (pos c) (pos c2)) (\<lambda>sp.
              ret (MessageReference i attribute (Some sp), c2))))"
    by (auto intro!: safe_bind_mk_identifier [where n = "length (source c)"] safe_bind_span safe_ret
        simp: expression_post_def advances_start advances_end)
qed

lemma nested_placeable_safe:
  assumes "cur c = Some ch" "remaining c \<le> bound"
  shows "safe (expression_post c ctx) (nested_placeable pp c ctx)"
  unfolding nested_placeable_def
proof (rule safe_and_then [OF placeable_safe])
  have a: "advances c (adv c)" using assms(1) by (rule adv_advances)
  show "wf_cursor (adv c)" "remaining (adv c) < bound"
    using remaining_advances [OF a] assms(2) by auto
  fix r assume "placeable_post (adv c) ctx r"
  with a show "safe (expression_post c ctx) (case r of (p, c') \<Rightarrow> ret (NestedPlaceable p, c'))"
    using advances_trans [OF a advances_moves]
    by (auto simp: placeable_post_def expression_post_def intro!: safe_ret)
qed

lemmas inline_safe = parse_variable_reference_safe parse_inline_string_literal_safe
  parse_inline_number_literal_safe parse_inline_hyphen_safe parse_inline_identifier_safe
  nested_placeable_safe

lemma parse_inline_expression_safe:
  "wf_cursor c \<Longrightarrow> remaining c \<le> bound \<Longrightarrow>
     safe (expression_post c ctx) (parse_inline_expression pp pa c ctx)"
  by (auto simp: parse_inline_expression_def split: option.split
      intro!: safe_if safe_no_result inline_safe)

lemma argument_expression_body_safe:
  "wf_cursor c \<Longrightarrow> remaining c \<le> bound \<Longrightarrow>
     safe (expression_post c ctx) (argument_expression_body pp pa c ctx)"
  by (auto simp: argument_expression_body_def split: option.split
      intro!: safe_if safe_no_result inline_safe)

lemma close_placeable_safe:
  "advances c c' \<Longrightarrow> wf_expr (length (source c)) e \<Longrightarrow> nesting_expr e \<le> depth_left (enter_nesting ctx) \<Longrightarrow>
     \<not> is_depth_exceeded ctx \<Longrightarrow> safe (placeable_post c ctx) (close_placeable e c')"
  by (auto simp: close_placeable_def placeable_post_def depth_left_enter_Suc
      intro!: safe_if safe_no_result safe_ret advances_adv)

lemma placeable_body_safe:
  assumes "wf_cursor c" "remaining c \<le> bound"
  shows "safe (placeable_post c ctx) (placeable_body pp pa c ctx)"
proof (cases "is_depth_exceeded ctx")
  case True
  then show ?thesis
    by (auto simp: placeable_body_def intro!: safe_and_then [OF safe_mark_depth_exceeded [where Q = "\<lambda>_. True"]])
next
  case False
  let ?b = "skip_blank c" and ?nested = "enter_nesting ctx" and ?n = "length (source c)"
  have b: "moves c ?b" using assms(1) by (rule skip_blank_moves)
  have "safe (placeable_post c ctx) (and_then (parse_inline_expression pp pa ?b ?nested) (\<lambda>(expression, c1).
              if is_selector expression \<and> cur (skip_blank c1) = Some CH_MINUS \<and>
                 cur (adv (skip_blank c1)) = Some CH_GREATER
              then and_then (parse_select_expression pp (adv (adv (skip_blank c1))) expression (pos ?b) ?nested)
                     (\<lambda>(select, c3). close_placeable select (skip_blank c3))
              else close_placeable expression (skip_blank c1)))"
  proof (rule safe_and_then [OF parse_inline_expression_safe])
    show "wf_cursor ?b" "remaining ?b \<le> bound"
      using assms remaining_moves [OF b] by auto
    fix r assume "expression_post ?b ?nested r"
    then obtain e c1 where r: "r = (e, c1)" "advances ?b c1" "wf_expr ?n e" "nesting_expr e \<le> depth_left ?nested"
      by (auto simp: expression_post_def)
    let ?s = "adv (adv (skip_blank c1))"
    have c1: "advances c c1" using b r(2) by (rule moves_advances)
    have s: "advances c ?s" "advances ?b ?s" using c1 r(2) by (blast intro: progress)+
    have "safe (placeable_post c ctx) (and_then (parse_select_expression pp ?s e (pos ?b) ?nested)
                     (\<lambda>(select, c3). close_placeable select (skip_blank c3)))" if "is_selector e"
      by (rule safe_and_then [OF parse_select_expression_safe])
        (use that r False s remaining_advances [OF s(1)] assms(2) advances_source [OF s(1)] in
          \<open>auto intro!: close_placeable_safe advances_trans [OF s(1)] moves_skip_blank
             simp: advances_wf advances_start simp del: skip_blank_ge\<close>)
    with r False c1 show "safe (placeable_post c ctx) (case r of (expression, c1) \<Rightarrow>
              if is_selector expression \<and> cur (skip_blank c1) = Some CH_MINUS \<and>
                 cur (adv (skip_blank c1)) = Some CH_GREATER
              then and_then (parse_select_expression pp (adv (adv (skip_blank c1))) expression (pos ?b) ?nested)
                     (\<lambda>(select, c3). close_placeable select (skip_blank c3))
              else close_placeable expression (skip_blank c1))"
      by (auto intro!: close_placeable_safe advances_skip_blank)
  qed
  with False show ?thesis by (simp add: placeable_body_def Let_def)
qed

end

section \<open>Tying the knot\<close>

lemma knot_safe: "expression_parser (parse_placeable_at n) n (parse_argument_at n)"
proof (induction n)
  case 0
  show ?case by unfold_locales auto
next
  case (Suc n)
  then show ?case
    by unfold_locales
      (auto intro: expression_parser.placeable_body_safe expression_parser.argument_expression_body_safe)
qed

interpretation knot: expression_parser "parse_placeable_at n" n "parse_argument_at n" for n
  by (rule knot_safe)

lemma parse_placeable_safe: "wf_cursor c \<Longrightarrow> safe (placeable_post c ctx) (parse_placeable c ctx)"
  unfolding parse_placeable_def by (rule knot.placeable_safe) simp_all

lemma parse_argument_expression_safe:
  "wf_cursor c \<Longrightarrow> safe (expression_post c ctx) (parse_argument_expression c ctx)"
  unfolding parse_argument_expression_def by (rule knot.argument_safe) simp_all

interpretation fluent: expression_parser parse_placeable bound parse_argument_expression for bound
  by unfold_locales (rule parse_placeable_safe parse_argument_expression_safe; assumption)+

end
