(* ===== verification/Entries.thy ===== *)
theory Entries
  imports Expression_Safety
begin

text \<open>
  \<open>syntax/parser/entries.py\<close>: messages, attributes, terms and comments.  The patterns are
  parsed with the placeable parser of Expressions.
\<close>

section \<open>Headers and attributes\<close>

definition parse_message_header :: "cursor \<Rightarrow> (ustr \<times> nat) parse_result parser" where
  "parse_message_header c =
     and_then (or_none (parse_identifier c)) (\<lambda>(name, c1).
       let id_end_pos = pos c1;
           c2 = skip_blank_inline c1
       in if cur c2 \<noteq> Some CH_EQUALS then no_result else ret ((name, id_end_pos), adv c2))"

definition parse_attribute :: "cursor \<Rightarrow> parse_context \<Rightarrow> attribute parse_result parser" where
  "parse_attribute c ctx =
     (let c = skip_blank_inline c
      in if cur c \<noteq> Some CH_DOT then no_result
         else let attr_start_pos = pos c;
                  c1 = adv c
              in and_then (or_none (parse_identifier c1)) (\<lambda>(name, c2).
                 let c3 = skip_blank_inline c2
                 in if cur c3 \<noteq> Some CH_EQUALS then no_result
                    else let (c4, initial_indent) = skip_multiline_pattern_start (adv c3)
                         in and_then (parse_pattern parse_placeable c4 ctx (Some initial_indent)) (\<lambda>(p, c5).
                            and_then (mk_identifier name (pos c1) (pos c2)) (\<lambda>i.
                            and_then (mk_span attr_start_pos (pos c5)) (\<lambda>sp.
                              ret (Attribute i p (Some sp), c5))))))"

fun attributes_loop :: "parse_context \<Rightarrow> nat \<Rightarrow> cursor \<Rightarrow> attribute list \<Rightarrow>
    attribute list parse_result parser" where
  "attributes_loop ctx 0 c attributes = out_of_fuel"
| "attributes_loop ctx (Suc n) c attributes =
     (if cur c \<noteq> Some CH_LF then ret (attributes, c)
      else let saved_cursor = adv_while (\<lambda>ch. ch = CH_LF) (adv c)
           in if cur (skip_spaces saved_cursor) \<noteq> Some CH_DOT then ret (attributes, saved_cursor)
              else and_then (attempt (parse_attribute saved_cursor ctx)) (\<lambda>attr_result.
                   case attr_result of
                     None \<Rightarrow> ret (attributes, saved_cursor)
                   | Some (a, c') \<Rightarrow> attributes_loop ctx n c' (attributes @ [a])))"

definition parse_message_attributes :: "cursor \<Rightarrow> parse_context \<Rightarrow> attribute list parse_result parser" where
  "parse_message_attributes c ctx = attributes_loop ctx (Suc (remaining c)) c []"

definition validate_message_content :: "pattern option \<Rightarrow> attribute list \<Rightarrow> bool" where
  "validate_message_content p attributes =
     (let has_pattern = (case p of None \<Rightarrow> False | Some p \<Rightarrow> length (pattern_elements p) > 0);
          has_attributes = length attributes > 0
      in has_pattern \<or> has_attributes)"

section \<open>Messages, terms and comments\<close>

definition parse_message :: "cursor \<Rightarrow> parse_context \<Rightarrow> entry parse_result parser" where
  "parse_message c ctx =
     and_then (parse_message_header c) (\<lambda>((name, id_end_pos), c1).
       let (c2, initial_indent) = skip_multiline_pattern_start c1
       in and_then (parse_pattern parse_placeable c2 ctx (Some initial_indent)) (\<lambda>(p, c3).
          and_then (parse_message_attributes c3 ctx) (\<lambda>(attributes, c4).
            if \<not> validate_message_content (Some p) attributes then no_result
            else and_then (mk_identifier name (pos c) id_end_pos) (\<lambda>i.
                 and_then (mk_span (pos c) (pos c4)) (\<lambda>sp.
                 and_then (mk_message i (Some p) attributes None (Some sp)) (\<lambda>m.
                   ret (m, c4)))))))"

definition parse_term :: "cursor \<Rightarrow> parse_context \<Rightarrow> entry parse_result parser" where
  "parse_term c ctx =
     (if cur c \<noteq> Some CH_MINUS then no_result
      else let c1 = adv c
           in and_then (or_none (parse_identifier c1)) (\<lambda>(name, c2).
              let c3 = skip_blank_inline c2
              in if cur c3 \<noteq> Some CH_EQUALS then no_result
                 else let (c4, initial_indent) = skip_multiline_pattern_start (adv c3)
                      in and_then (parse_pattern parse_placeable c4 ctx (Some initial_indent)) (\<lambda>(p, c5).
                         if pattern_elements p = [] then no_result
                         else and_then (parse_message_attributes c5 ctx) (\<lambda>(attributes, c6).
                              and_then (mk_identifier name (pos c1) (pos c2)) (\<lambda>i.
                              and_then (mk_span (pos c) (pos c6)) (\<lambda>sp.
                                ret (Term i p attributes None (Some sp), c6)))))))"

text \<open>
  \<open>_COMMENT_TYPE_BY_HASH_COUNT[hash_count - 1]\<close>: with no hash the index is \<open>-1\<close>, the
  last element of the tuple.
\<close>

definition comment_type_of_hash_count :: "nat \<Rightarrow> comment_type" where
  "comment_type_of_hash_count n = (if n = 1 then COMMENT else if n = 2 then GROUP else RESOURCE)"

definition parse_comment :: "cursor \<Rightarrow> comment parse_result parser" where
  "parse_comment c =
     (let c1 = adv_while (\<lambda>ch. ch = CH_HASH) c;
          hash_count = pos c1 - pos c
      in if hash_count > 3 then no_result
         else let kind = comment_type_of_hash_count hash_count;
                  c2 = (if cur c1 = Some CH_SPACE then adv c1 else c1);
                  c3 = skip_to_line_end c2;
                  content = str_slice (source c3) (pos c2) (pos c3);
                  c4 = skip_line_end c3
              in and_then (mk_span (pos c) (pos c4)) (\<lambda>sp. ret (Comment content kind (Some sp), c4)))"

section \<open>Safety\<close>

lemma skip_multiline_advances:
  assumes "advances c c1" "skip_multiline_pattern_start c1 = (c2, n)"
  shows "advances c c2"
  using advances_trans [OF assms(1) skip_multiline_pattern_start_moves [OF advances_wf [OF assms(1)] assms(2)]] .

text \<open>The pattern after a header, from any cursor the header leaves.\<close>

lemma bind_pattern:
  assumes "advances c c1"
    and "\<And>p c'. advances c c' \<Longrightarrow> pos c1 \<le> pos c' \<Longrightarrow> wf_pattern (length (source c)) p \<Longrightarrow>
       nesting_pattern p \<le> depth_left ctx \<Longrightarrow> safe Q (k (p, c'))"
  shows "safe Q (let (c2, initial_indent) = skip_multiline_pattern_start c1
                 in and_then (parse_pattern parse_placeable c2 ctx (Some initial_indent)) k)"
proof -
  obtain c2 n where s: "skip_multiline_pattern_start c1 = (c2, n)" by force
  have m: "moves c1 c2"
    using skip_multiline_pattern_start_moves [OF advances_wf [OF assms(1)] s] .
  have c2: "advances c c2" using assms(1) m by (rule advances_trans)
  have "safe Q (and_then (parse_pattern parse_placeable c2 ctx (Some n)) k)"
  proof (rule safe_and_then [OF fluent.parse_pattern_safe [where bound = "remaining c2"]])
    show "wf_cursor c2" "remaining c2 \<le> remaining c2" using c2 advances_wf by auto
    fix r assume "pattern_post c2 ctx r"
    then obtain p c' where r: "r = (p, c')" "moves c2 c'" "wf_pattern (length (source c)) p"
      "nesting_pattern p \<le> depth_left ctx"
      using advances_source [OF c2] by (cases r) (auto simp: pattern_post_def)
    have "pos c1 \<le> pos c'" using m r(2) by (simp add: moves_def)
    with r assms(2) advances_trans [OF c2 r(2)] show "safe Q (k r)" by simp
  qed
  then show ?thesis by (simp add: s)
qed

definition parsed_attribute_post :: "cursor \<Rightarrow> parse_context \<Rightarrow> attribute parse_result \<Rightarrow> bool" where
  "parsed_attribute_post c ctx r \<longleftrightarrow>
     (case r of (a, c') \<Rightarrow>
        advances c c' \<and> wf_attribute (length (source c)) a \<and> nesting_pattern (attr_value a) \<le> depth_left ctx)"

lemma parse_attribute_safe:
  assumes "wf_cursor c"
  shows "safe (parsed_attribute_post c ctx) (parse_attribute c ctx)"
proof (cases "cur (skip_blank_inline c) = Some CH_DOT")
  case True
  let ?b = "skip_blank_inline c" and ?n = "length (source c)"
  have b: "moves c ?b" using assms by (rule skip_blank_inline_moves)
  have a: "advances ?b (adv ?b)" using True by (rule adv_advances)
  have "safe (parsed_attribute_post c ctx) (and_then (or_none (parse_identifier (adv ?b))) (\<lambda>(name, c2).
            if cur (skip_blank_inline c2) \<noteq> Some CH_EQUALS then no_result
            else let (c4, initial_indent) = skip_multiline_pattern_start (adv (skip_blank_inline c2))
                 in and_then (parse_pattern parse_placeable c4 ctx (Some initial_indent)) (\<lambda>(p, c5).
                    and_then (mk_identifier name (pos (adv ?b)) (pos c2)) (\<lambda>i.
                    and_then (mk_span (pos ?b) (pos c5)) (\<lambda>sp.
                      ret (Attribute i p (Some sp), c5))))))"
  proof (rule safe_bind_identifier, unfold prod.case, intro safe_if safe_no_result bind_pattern [where c = ?b], goal_cases)
    case (1 name c2)
    with a have "advances ?b c2" by (metis advances_moves advances_trans)
    then show ?case by (intro progress)
  next
    case (2 name c2 p c5)
    have "advances c c5" using b 2(4) by (rule moves_advances)
    with a 2 show ?case
      by (auto intro!: safe_bind_mk_identifier [where n = ?n] safe_bind_span safe_ret
          simp: parsed_attribute_post_def cursor_facts)
  qed
  with True show ?thesis by (simp add: parse_attribute_def Let_def)
qed (simp add: parse_attribute_def Let_def)

definition attributes_post :: "cursor \<Rightarrow> parse_context \<Rightarrow> attribute list parse_result \<Rightarrow> bool" where
  "attributes_post c ctx r \<longleftrightarrow>
     (case r of (ats, c') \<Rightarrow>
        moves c c' \<and> list_all (wf_attribute (length (source c))) ats \<and>
        (\<forall>a \<in> set ats. nesting_pattern (attr_value a) \<le> depth_left ctx))"

lemma attributes_post_trans: "moves c c1 \<Longrightarrow> attributes_post c1 ctx r \<Longrightarrow> attributes_post c ctx r"
  by (auto simp: attributes_post_def moves_def split: prod.splits)

lemma attributes_loop_safe:
  assumes "remaining c < n" "wf_cursor c" "list_all (wf_attribute (length (source c))) ats"
    "\<forall>a \<in> set ats. nesting_pattern (attr_value a) \<le> depth_left ctx"
  shows "safe (attributes_post c ctx) (attributes_loop ctx n c ats)"
  using assms
proof (induction n arbitrary: c ats)
  case (Suc n)
  have stop: "safe (attributes_post c ctx) (ret (ats, c'))" if "moves c c'" for c'
    using that Suc.prems(3,4) by (auto simp: attributes_post_def intro!: safe_ret)
  show ?case
  proof (cases "cur c = Some CH_LF")
    case False
    with stop Suc.prems(2) show ?thesis by (simp add: moves_refl)
  next
    case True
    let ?s = "adv_while (\<lambda>ch. ch = CH_LF) (adv c)"
    have s: "advances c ?s"
      using advances_trans [OF adv_advances [OF True] adv_while_moves] by simp
    have "safe (attributes_post c ctx) (and_then (attempt (parse_attribute ?s ctx)) (\<lambda>attr_result.
                   case attr_result of
                     None \<Rightarrow> ret (ats, ?s)
                   | Some (a, c') \<Rightarrow> attributes_loop ctx n c' (ats @ [a])))"
    proof (rule safe_and_then [OF safe_attempt [where Q = "pred_option (parsed_attribute_post ?s ctx)"]])
      show "safe (parsed_attribute_post ?s ctx) (parse_attribute ?s ctx)"
        by (rule parse_attribute_safe) simp
      fix r assume r: "pred_option (parsed_attribute_post ?s ctx) r"
      show "safe (attributes_post c ctx) (case r of
                     None \<Rightarrow> ret (ats, ?s)
                   | Some (a, c') \<Rightarrow> attributes_loop ctx n c' (ats @ [a]))"
      proof (cases r)
        case None
        with stop [OF advances_moves [OF s]] show ?thesis by simp
      next
        case (Some q)
        with r obtain a c' where q: "q = (a, c')" "advances ?s c'" "wf_attribute (length (source c)) a"
          "nesting_pattern (attr_value a) \<le> depth_left ctx"
          by (cases q) (auto simp: parsed_attribute_post_def)
        have c': "advances c c'" using s advances_moves [OF q(2)] by (rule advances_trans)
        have "safe (attributes_post c' ctx) (attributes_loop ctx n c' (ats @ [a]))"
          using Suc.prems q remaining_advances [OF c'] advances_source [OF c']
          by (intro Suc.IH advances_wf [OF c']) auto
        then show ?thesis
          using Some q(1) by (auto intro: safe_weaken attributes_post_trans [OF advances_moves [OF c']])
      qed
    qed auto
    with True stop [OF advances_moves [OF s]] show ?thesis by (simp add: Let_def)
  qed
qed simp

lemma parse_message_attributes_safe:
  "wf_cursor c \<Longrightarrow> safe (attributes_post c ctx) (parse_message_attributes c ctx)"
  unfolding parse_message_attributes_def by (rule attributes_loop_safe) auto

text \<open>What a parsed message or term is: an entry spanning exactly what was consumed.\<close>

fun is_definition :: "entry \<Rightarrow> bool" where
  "is_definition (Message i v ats cm sp) = True"
| "is_definition (Term i v ats cm sp) = True"
| "is_definition (CommentEntry cm) = False"
| "is_definition (Junk ct ans sp) = False"

definition entry_post :: "cursor \<Rightarrow> parse_context \<Rightarrow> entry parse_result \<Rightarrow> bool" where
  "entry_post c ctx r \<longleftrightarrow>
     (case r of (e, c') \<Rightarrow>
        advances c c' \<and> wf_entry (length (source c)) e \<and> nesting_entry e \<le> depth_left ctx \<and>
        entry_span e = Some (Span (pos c) (pos c')) \<and> entry_comment e = None \<and> is_definition e)"

lemma nesting_attributes:
  "max_list (map (\<lambda>a. nesting_pattern (attr_value a)) ats) \<le> d \<longleftrightarrow>
     (\<forall>a \<in> set ats. nesting_pattern (attr_value a) \<le> d)"
  by (auto simp: max_list_le_iff)

lemma parse_message_safe:
  assumes "wf_cursor c"
  shows "safe (entry_post c ctx) (parse_message c ctx)"
  unfolding parse_message_def
proof (rule safe_and_then [where R = "\<lambda>((name, e), c1). advances c c1 \<and> pos c \<le> e \<and>
    e \<le> length (source c) \<and> grammar_identifier name"], goal_cases)
  case 1
  show ?case
    unfolding parse_message_header_def Let_def
    by (rule safe_bind_identifier)
      (auto intro!: safe_if safe_no_result safe_ret progress simp: advances_start advances_end)
next
  case (2 r)
  let ?n = "length (source c)"
  from 2 obtain name e c1 where r: "r = ((name, e), c1)" and h: "advances c c1" "pos c \<le> e" "e \<le> ?n"
    "grammar_identifier name"
    by (cases r) auto
  show ?case
    unfolding r prod.case
  proof (rule bind_pattern [OF h(1)], unfold prod.case, rule safe_and_then [OF parse_message_attributes_safe], goal_cases)
    case (1 p c3)
    then show ?case by (blast intro: advances_wf)
  next
    case (2 p c3 q)
    then obtain ats c4 where q: "q = (ats, c4)" "moves c3 c4" "list_all (wf_attribute ?n) ats"
        "\<forall>a \<in> set ats. nesting_pattern (attr_value a) \<le> depth_left ctx"
      using advances_source [OF 2(1)] by (cases q) (auto simp: attributes_post_def)
    have c4: "advances c c4" using 2(1) q(2) by (rule advances_trans)
    show ?case
      unfolding q(1) prod.case using 2(3,4) q(3,4) c4 h
      by (intro safe_if safe_no_result safe_bind_mk_identifier [where n = ?n] safe_bind_span
          safe_and_then [OF safe_mk_message [where Q = "\<lambda>m. m = Message _ _ _ _ _"], OF refl])
        (auto simp: entry_post_def advances_start advances_end nesting_attributes
          validate_message_content_def intro!: safe_ret)
  qed
qed

lemma parse_term_safe:
  assumes "wf_cursor c"
  shows "safe (entry_post c ctx) (parse_term c ctx)"
proof (cases "cur c = Some CH_MINUS")
  case True
  let ?n = "length (source c)"
  have a: "advances c (adv c)" using True by (rule adv_advances)
  have "safe (entry_post c ctx) (and_then (or_none (parse_identifier (adv c))) (\<lambda>(name, c2).
        if cur (skip_blank_inline c2) \<noteq> Some CH_EQUALS then no_result
        else let (c4, initial_indent) = skip_multiline_pattern_start (adv (skip_blank_inline c2))
             in and_then (parse_pattern parse_placeable c4 ctx (Some initial_indent)) (\<lambda>(p, c5).
                if pattern_elements p = [] then no_result
                else and_then (parse_message_attributes c5 ctx) (\<lambda>(attributes, c6).
                     and_then (mk_identifier name (pos (adv c)) (pos c2)) (\<lambda>i.
                     and_then (mk_span (pos c) (pos c6)) (\<lambda>sp.
                       ret (Term i p attributes None (Some sp), c6)))))))"
  proof (rule safe_bind_identifier, unfold prod.case, intro safe_if safe_no_result bind_pattern [where c = c], goal_cases)
    case (1 name c2)
    with a have "advances c c2" by (metis advances_moves advances_trans)
    then show ?case by (intro progress)
  next
    case (2 name c2 p c5)
    note outer = 2
    show ?case
      unfolding prod.case
    proof (intro safe_if safe_no_result, rule safe_and_then [OF parse_message_attributes_safe], goal_cases)
      case 1
      from outer show ?case by (blast intro: advances_wf)
    next
      case (2 q)
      then obtain ats c6 where q: "q = (ats, c6)" "moves c5 c6" "list_all (wf_attribute ?n) ats"
          "\<forall>a \<in> set ats. nesting_pattern (attr_value a) \<le> depth_left ctx"
        using advances_source [OF outer(4)] by (cases q) (auto simp: attributes_post_def)
      have c6: "advances c c6" using outer(4) q(2) by (rule advances_trans)
      have sp: "pos (adv c) \<le> pos c2" "pos c2 \<le> ?n" "pos c \<le> pos c6"
        using outer(1) a c6 by (auto simp: cursor_facts)
      show ?case
        unfolding q(1) prod.case using outer 2(1) q(3,4) c6 sp
        by (intro safe_bind_mk_identifier [where n = ?n] safe_bind_span safe_ret)
          (auto simp: entry_post_def nesting_attributes advances_end)
    qed
  qed
  with True show ?thesis by (simp add: parse_term_def Let_def)
qed (simp add: parse_term_def)

definition comment_post :: "cursor \<Rightarrow> comment parse_result \<Rightarrow> bool" where
  "comment_post c r \<longleftrightarrow>
     (case r of (cm, c') \<Rightarrow> advances c c' \<and> comment_span cm = Some (Span (pos c) (pos c')))"

lemma parse_comment_safe:
  assumes "cur c = Some CH_HASH"
  shows "safe (comment_post c) (parse_comment c)"
proof -
  let ?c1 = "adv_while (\<lambda>ch. ch = CH_HASH) c"
  define c2 where "c2 = (if cur ?c1 = Some CH_SPACE then adv ?c1 else ?c1)"
  have "advances c ?c1" using assms by (intro adv_while_advances) auto
  then have c2: "advances c c2" by (auto simp: c2_def intro: advances_adv)
  have "advances c (skip_line_end (skip_to_line_end c2))"
    using advances_trans [OF advances_trans [OF c2 skip_to_line_end_moves] skip_line_end_moves]
      advances_wf [OF c2] by simp
  then show ?thesis
    unfolding parse_comment_def Let_def c2_def [symmetric]
    by (auto intro!: safe_if safe_no_result safe_bind_span safe_ret simp: comment_post_def advances_start)
qed

end
