(* ===== verification/Parser_Core.thy ===== *)
theory Parser_Core
  imports Entries
begin

text \<open>
  \<open>syntax/parser/core.py\<close>: the parser object with its limits, and the main loop that
  turns a source into a resource: blank skipping, comment joining and attachment, junk
  recovery and the junk limit.  One record holds the loop's local variables, and one
  definition each branch of its body.
\<close>

section \<open>The parser object\<close>

definition MAX_SOURCE_SIZE :: int where
  "MAX_SOURCE_SIZE = 10 * 1000 * 1000"

definition MAX_PARSE_ERRORS :: int where
  "MAX_PARSE_ERRORS = 100"

record fluent_parser =
  max_source_size :: int
  max_parse_errors :: int
  parser_nesting_depth :: int

text \<open>\<open>__init__\<close>; \<open>recursion_limit\<close> is \<open>sys.getrecursionlimit()\<close>.\<close>

definition mk_parser ::
    "int \<Rightarrow> int option \<Rightarrow> int option \<Rightarrow> int option \<Rightarrow> py_error + fluent_parser" where
  "mk_parser recursion_limit source_size nesting_depth parse_errors =
     (if (case nesting_depth of None \<Rightarrow> False | Some d \<Rightarrow> d \<le> 0) then Inl ValueError
      else let requested_depth = (case nesting_depth of None \<Rightarrow> int MAX_DEPTH | Some d \<Rightarrow> d);
               max_safe_depth = recursion_limit - 50
           in Inr \<lparr>max_source_size = (case source_size of None \<Rightarrow> MAX_SOURCE_SIZE | Some n \<Rightarrow> n),
                   max_parse_errors = (case parse_errors of None \<Rightarrow> MAX_PARSE_ERRORS | Some n \<Rightarrow> n),
                   parser_nesting_depth =
                     (if max_safe_depth < requested_depth then max_safe_depth else requested_depth)\<rparr>)"

text \<open>\<open>context.current_depth >= max_nesting_depth\<close> compares a natural number with an integer.\<close>

definition parser_context :: "fluent_parser \<Rightarrow> parse_context" where
  "parser_context P = mk_parse_context (nat (parser_nesting_depth P))"

text \<open>\<open>re.sub(r"\r\n?", "\n", source)\<close>\<close>

fun normalize_newlines :: "ustr \<Rightarrow> ustr" where
  "normalize_newlines [] = []"
| "normalize_newlines (ch # rest) =
     (if ch = CH_CR then
        (case rest of
           [] \<Rightarrow> [CH_LF]
         | next # others \<Rightarrow>
             if next = CH_LF then CH_LF # normalize_newlines others else CH_LF # normalize_newlines rest)
      else ch # normalize_newlines rest)"

section \<open>Comments waiting for what follows them\<close>

record comment_accumulator =
  acc_type :: comment_type
  acc_contents :: "ustr list"
  acc_first_span :: "span option"
  acc_last_span :: "span option"

definition mk_accumulator :: "comment \<Rightarrow> comment_accumulator" where
  "mk_accumulator first_comment =
     \<lparr>acc_type = comment_kind first_comment, acc_contents = [comment_content first_comment],
      acc_first_span = comment_span first_comment, acc_last_span = comment_span first_comment\<rparr>"

definition acc_add :: "comment_accumulator \<Rightarrow> comment \<Rightarrow> comment_accumulator" where
  "acc_add acc cm =
     acc\<lparr>acc_contents := acc_contents acc @ [comment_content cm], acc_last_span := comment_span cm\<rparr>"

definition acc_finalize :: "comment_accumulator \<Rightarrow> comment parser" where
  "acc_finalize acc =
     (let merged_content = str_join [CH_LF] (acc_contents acc);
          finish = (\<lambda>new_span. ret (Comment merged_content (acc_type acc) new_span))
      in case (acc_first_span acc, acc_last_span acc) of
           (Some f, Some l) \<Rightarrow> and_then (mk_span (span_start f) (span_end l)) (\<lambda>sp. finish (Some sp))
         | (Some f, None) \<Rightarrow> finish (Some f)
         | (None, l) \<Rightarrow> finish l)"

definition has_blank_line_between :: "ustr \<Rightarrow> nat \<Rightarrow> nat \<Rightarrow> bool" where
  "has_blank_line_between s start stop \<longleftrightarrow> CH_LF \<in> set (str_slice s start stop)"

definition is_at_column_one :: "cursor \<Rightarrow> bool" where
  "is_at_column_one c \<longleftrightarrow> pos c = 0 \<or> source c ! (pos c - 1) = CH_LF"

section \<open>Junk\<close>

definition next_line :: "cursor \<Rightarrow> cursor" where
  "next_line c = skip_line_end (skip_to_line_end c)"

lemma next_line_moves: "wf_cursor c \<Longrightarrow> moves c (next_line c)"
  unfolding next_line_def
  by (rule moves_trans [OF skip_to_line_end_moves skip_line_end_moves]) simp_all

lemma next_line_advances:
  assumes "cur c = Some ch"
  shows "advances c (next_line c)"
proof (cases "ch = CH_LF")
  case True
  with assms have "skip_to_line_end c = c"
  proof -
    have "\<not> pos c < pos (skip_to_line_end c)"
      using skip_to_line_end_no_newline [of c "pos c"] assms True by (auto simp: cur_Some_iff)
    moreover have "pos c \<le> pos (skip_to_line_end c)"
      using skip_to_line_end_ge [OF cur_wf [OF assms]] .
    ultimately show ?thesis by simp
  qed
  with True assms show ?thesis by (simp add: next_line_def skip_line_end_def adv_advances)
next
  case False
  have "pos (skip_to_line_end c) \<noteq> pos c"
  proof
    assume "pos (skip_to_line_end c) = pos c"
    then have "cur (skip_to_line_end c) = Some ch" using assms by (simp add: cur_Some_iff)
    with cur_skip_to_line_end [of c] False show False by simp
  qed
  then have "advances c (skip_to_line_end c)"
    using skip_to_line_end_moves [OF cur_wf [OF assms]] by (simp add: moves_def advances_def)
  then show ?thesis
    unfolding next_line_def by (rule advances_trans) (simp add: skip_line_end_moves cur_wf [OF assms])
qed

text \<open>A line that could start an entry: its first character, at column one.\<close>

definition starts_entry :: "cursor \<Rightarrow> bool" where
  "starts_entry c =
     (case cur c of None \<Rightarrow> False | Some ch \<Rightarrow> ch \<in> {CH_HASH, CH_MINUS} \<or> is_identifier_start ch)"

function junk_lines_loop :: "cursor \<Rightarrow> cursor" where
  "junk_lines_loop c =
     (if is_eof c then c
      else let c' = skip_spaces c
           in if is_eof c' then c'
              else if pos c' = pos c \<and> starts_entry c' then c
              else junk_lines_loop (next_line c'))"
  by pat_completeness auto

lemma next_line_remaining: "\<not> is_eof c \<Longrightarrow> remaining (next_line c) < remaining c"
proof -
  assume "\<not> is_eof c"
  then obtain ch where "cur c = Some ch" by (simp add: cur_def)
  then show ?thesis by (intro remaining_advances next_line_advances)
qed

termination junk_lines_loop
proof (relation "measure remaining", simp, goal_cases)
  case (1 c x)
  then have "remaining (next_line (skip_spaces c)) < remaining (skip_spaces c)"
    by (intro next_line_remaining) simp
  also have "\<dots> \<le> remaining c"
    by (simp add: remaining_def diff_le_mono2)
  finally show ?case using 1 by simp
qed

declare junk_lines_loop.simps [simp del]

definition consume_junk_lines :: "cursor \<Rightarrow> cursor" where
  "consume_junk_lines c = junk_lines_loop (next_line c)"

definition junk_limit_exceeded :: "fluent_parser \<Rightarrow> nat \<Rightarrow> bool" where
  "junk_limit_exceeded P junk_count \<longleftrightarrow> max_parse_errors P > 0 \<and> int junk_count \<ge> max_parse_errors P"

section \<open>The main loop\<close>

record parse_state =
  st_cursor :: cursor
  st_entries :: "entry list"
  st_pending :: "comment_accumulator option"
  st_pending_end :: nat
  st_junk_count :: nat

datatype control = Continue parse_state | Break parse_state

text \<open>Append the pending comment, if there is one, as an entry of its own.\<close>

definition flush_pending :: "parse_state \<Rightarrow> parse_state parser" where
  "flush_pending st =
     (case st_pending st of
        None \<Rightarrow> ret st
      | Some acc \<Rightarrow>
          and_then (acc_finalize acc) (\<lambda>cm.
            ret (st\<lparr>st_entries := st_entries st @ [CommentEntry cm], st_pending := None\<rparr>)))"

text \<open>
  Append the junk entry for \<open>junk_start\<close> to \<open>junk_end\<close> with one annotation, move to
  \<open>c\<close>, and go on with \<open>resume\<close> unless the limit on junk entries is reached.
\<close>

definition add_junk :: "fluent_parser \<Rightarrow> parse_state \<Rightarrow> cursor \<Rightarrow> nat \<Rightarrow> nat \<Rightarrow> ustr \<Rightarrow> ustr \<Rightarrow>
    cursor \<Rightarrow> control parser" where
  "add_junk P st c junk_start annotation_end code msg resume =
     (let junk_content = str_slice (source c) junk_start (pos c)
      in and_then (mk_span junk_start annotation_end) (\<lambda>annotation_span.
         and_then (mk_span junk_start (pos c)) (\<lambda>junk_span.
           let junk = Junk junk_content [Annotation code msg None (Some annotation_span)] (Some junk_span);
               st = st\<lparr>st_entries := st_entries st @ [junk], st_junk_count := st_junk_count st + 1\<rparr>
           in if junk_limit_exceeded P (st_junk_count st) then ret (Break (st\<lparr>st_cursor := c\<rparr>))
              else ret (Continue (st\<lparr>st_cursor := resume\<rparr>)))))"

text \<open>Content that does not start at column one.\<close>

definition step_indented :: "fluent_parser \<Rightarrow> parse_state \<Rightarrow> nat \<Rightarrow> cursor \<Rightarrow> control parser" where
  "step_indented P st pos_before_blank c =
     and_then (flush_pending st) (\<lambda>st'.
       let st' = (if st_pending st = None then st' else st'\<lparr>st_pending_end := 0\<rparr>);
           c' = consume_junk_lines c
       in add_junk P st' c' pos_before_blank pos_before_blank (u ''PARSE_JUNK'')
            (u ''Entry must start at column 1'') c')"

text \<open>A comment line: join it with the pending comment, or make it the pending one.\<close>

definition accept_comment :: "parse_state \<Rightarrow> nat \<Rightarrow> comment \<Rightarrow> cursor \<Rightarrow> control parser" where
  "accept_comment st pos_after_blank new_comment c' =
     (let start_new = (\<lambda>st. ret (Continue
            (st\<lparr>st_cursor := c', st_pending := Some (mk_accumulator new_comment), st_pending_end := pos c'\<rparr>)))
      in case st_pending st of
           None \<Rightarrow> start_new st
         | Some acc \<Rightarrow>
             if acc_type acc = comment_kind new_comment \<and>
                \<not> has_blank_line_between (source c') (st_pending_end st) pos_after_blank
             then ret (Continue (st\<lparr>st_cursor := c', st_pending := Some (acc_add acc new_comment),
                                   st_pending_end := pos c'\<rparr>))
             else and_then (flush_pending st) start_new)"

definition step_comment :: "fluent_parser \<Rightarrow> parse_state \<Rightarrow> cursor \<Rightarrow> control parser" where
  "step_comment P st c =
     and_then (attempt (parse_comment c)) (\<lambda>comment_result.
       case comment_result of
         Some (new_comment, c') \<Rightarrow> accept_comment st (pos c) new_comment c'
       | None \<Rightarrow>
           let c' = adv_while (\<lambda>ch. ch \<noteq> CH_LF) c
           in add_junk P st c' (pos c) (pos c') (u ''PARSE_JUNK'')
                (u ''Invalid comment syntax (too many # characters or malformed)'')
                (if is_eof c' then c' else adv c'))"

text \<open>What becomes of the pending comment when another entry follows.\<close>

definition take_pending :: "parse_state \<Rightarrow> cursor \<Rightarrow> (comment option \<times> parse_state) parser" where
  "take_pending st c =
     (case st_pending st of
        None \<Rightarrow> ret (None, st)
      | Some acc \<Rightarrow>
          let rest = st\<lparr>st_pending := None, st_pending_end := 0\<rparr>
          in and_then (acc_finalize acc) (\<lambda>cm.
             if acc_type acc = COMMENT \<and> \<not> has_blank_line_between (source c) (st_pending_end st) (pos c)
             then ret (Some cm, rest)
             else ret (None, rest\<lparr>st_entries := st_entries rest @ [CommentEntry cm]\<rparr>)))"

definition attach :: "comment option \<Rightarrow> entry \<Rightarrow> entry parser" where
  "attach attach_comment e =
     (case attach_comment of
        None \<Rightarrow> ret e
      | Some cm \<Rightarrow>
          (case e of
             Message i v ats _ sp \<Rightarrow> mk_message i v ats (Some cm) sp
           | Term i v ats _ sp \<Rightarrow> ret (Term i v ats (Some cm) sp)
           | _ \<Rightarrow> ret e))"

text \<open>\<open>str(n)\<close>\<close>

definition str_int :: "int \<Rightarrow> ustr" where
  "str_int i = (if i < 0 then CH_MINUS # dec_digits (nat (- i)) else dec_digits (nat i))"

definition entry_failed ::
    "fluent_parser \<Rightarrow> parse_state \<Rightarrow> comment option \<Rightarrow> cursor \<Rightarrow> control parser" where
  "entry_failed P st attach_comment c =
     (let st = (case attach_comment of
                  None \<Rightarrow> st
                | Some cm \<Rightarrow> st\<lparr>st_entries := st_entries st @ [CommentEntry cm]\<rparr>);
          c' = consume_junk_lines c
      in and_then was_depth_exceeded (\<lambda>exceeded.
           if exceeded
           then add_junk P st c' (pos c) (pos c) (u ''PARSE_NESTING_DEPTH_EXCEEDED'')
                  (u ''Nesting depth limit exceeded (max: '' @ str_int (parser_nesting_depth P) @ u '')'') c'
           else add_junk P st c' (pos c) (pos c) (u ''PARSE_JUNK'') (u ''Parse error'') c'))"

text \<open>The entry parsed, with the comment before it attached.\<close>

definition entry_parsed :: "parse_state \<Rightarrow> comment option \<Rightarrow> entry \<Rightarrow> cursor \<Rightarrow> control parser" where
  "entry_parsed st attach_comment e c' =
     and_then (attach attach_comment e) (\<lambda>e.
       ret (Continue (st\<lparr>st_entries := st_entries st @ [e], st_cursor := c'\<rparr>)))"

definition step_entry :: "fluent_parser \<Rightarrow> parse_context \<Rightarrow> parse_state \<Rightarrow> cursor \<Rightarrow> control parser" where
  "step_entry P ctx st c =
     and_then (take_pending st c) (\<lambda>(attach_comment, st).
       let try_message =
             and_then (attempt (parse_message c ctx)) (\<lambda>message_result.
               case message_result of
                 Some (m, c') \<Rightarrow> entry_parsed st attach_comment m c'
               | None \<Rightarrow> entry_failed P st attach_comment c)
       in if cur c = Some CH_MINUS
          then and_then (attempt (parse_term c ctx)) (\<lambda>term_result.
                 case term_result of
                   Some (t, c') \<Rightarrow> entry_parsed st attach_comment t c'
                 | None \<Rightarrow> try_message)
          else try_message)"

definition parse_step :: "fluent_parser \<Rightarrow> parse_context \<Rightarrow> parse_state \<Rightarrow> control parser" where
  "parse_step P ctx st =
     (let pos_before_blank = pos (st_cursor st);
          c = skip_blank (st_cursor st)
      in if is_eof c
         then and_then (flush_pending st) (\<lambda>st. ret (Break (st\<lparr>st_cursor := c\<rparr>)))
         else if \<not> is_at_column_one c then step_indented P st pos_before_blank c
         else if cur c = Some CH_HASH then step_comment P st c
         else step_entry P ctx st c)"

fun parse_loop :: "fluent_parser \<Rightarrow> parse_context \<Rightarrow> nat \<Rightarrow> parse_state \<Rightarrow> parse_state parser" where
  "parse_loop P ctx 0 st = out_of_fuel"
| "parse_loop P ctx (Suc n) st =
     (if is_eof (st_cursor st) then ret st
      else and_then (parse_step P ctx st) (\<lambda>ctl.
        case ctl of Continue st' \<Rightarrow> parse_loop P ctx n st' | Break st' \<Rightarrow> ret st'))"

definition initial_state :: "ustr \<Rightarrow> parse_state" where
  "initial_state s =
     \<lparr>st_cursor = \<lparr>source = s, pos = 0\<rparr>, st_entries = [], st_pending = None, st_pending_end = 0,
      st_junk_count = 0\<rparr>"

definition parse_normalized :: "fluent_parser \<Rightarrow> ustr \<Rightarrow> resource parser" where
  "parse_normalized P s =
     and_then (parse_loop P (parser_context P) (Suc (length s)) (initial_state s)) (\<lambda>st.
     and_then (flush_pending st) (\<lambda>st.
       ret (Resource (st_entries st))))"

text \<open>A call starts with a fresh context, whose flag is not set.\<close>

definition parse :: "fluent_parser \<Rightarrow> ustr \<Rightarrow> resource outcome" where
  "parse P s =
     (if max_source_size P > 0 \<and> int (length s) > max_source_size P then Raises ValueError
      else fst (parse_normalized P (normalize_newlines s) False))"

text \<open>
  \<open>parse_stream\<close>: chunks of lines between blank lines, each parsed on its own.
  \<open>line.rstrip("\n\r")\<close> drops every trailing line feed and carriage return.
\<close>

definition rstrip_newlines :: "ustr \<Rightarrow> ustr" where
  "rstrip_newlines s = rev (dropWhile (\<lambda>ch. ch = CH_LF \<or> ch = CH_CR) (rev s))"

fun stream_chunks :: "ustr list \<Rightarrow> ustr list \<Rightarrow> ustr list" where
  "stream_chunks chunk [] = (if chunk = [] then [] else [str_join [CH_LF] chunk])"
| "stream_chunks chunk (line # lines) =
     (let stripped = rstrip_newlines line
      in if stripped \<noteq> [] then stream_chunks (chunk @ [stripped]) lines
         else if chunk \<noteq> [] then str_join [CH_LF] chunk # stream_chunks [] lines
         else stream_chunks chunk lines)"

text \<open>The entries yielded, and the exception that ends the stream, if any.\<close>

fun parse_chunks :: "fluent_parser \<Rightarrow> ustr list \<Rightarrow> entry list \<times> py_error option" where
  "parse_chunks P [] = ([], None)"
| "parse_chunks P (chunk # chunks) =
     (case parse P chunk of
        Returns r \<Rightarrow> (let (es, err) = parse_chunks P chunks in (entries r @ es, err))
      | Raises e \<Rightarrow> ([], Some e)
      | _ \<Rightarrow> ([], None))"

definition parse_stream :: "fluent_parser \<Rightarrow> ustr list \<Rightarrow> entry list \<times> py_error option" where
  "parse_stream P lines = parse_chunks P (stream_chunks [] lines)"

end
