(* ===== verification/Parser_Safety.thy ===== *)
theory Parser_Safety
  imports Parser_Core "HOL-Library.Multiset"
begin

text \<open>
  What \<open>parse\<close> guarantees: it returns on every source within the size limit; its entries
  are well-formed, nested within the limit and in source order; together they account
  for every character but blanks; junk keeps its text and stays below the junk limit.
  The loop's state satisfies the invariant \<open>state_ok\<close>, which every branch preserves.
\<close>

section \<open>Entries and the source they cover\<close>

definition blank :: "ustr \<Rightarrow> nat \<Rightarrow> nat \<Rightarrow> bool" where
  "blank s i j \<longleftrightarrow> list_all (\<lambda>ch. ch = CH_SPACE \<or> ch = CH_LF) (str_slice s i j)"

definition at_line_start :: "ustr \<Rightarrow> nat \<Rightarrow> bool" where
  "at_line_start s i \<longleftrightarrow> i = 0 \<or> s ! (i - 1) = CH_LF"

fun comment_extent :: "ustr \<Rightarrow> comment \<Rightarrow> (nat \<times> nat) option" where
  "comment_extent s (Comment ct k (Some (Span a b))) =
     (if at_line_start s a \<and> a < b \<and> b \<le> length s then Some (a, b) else None)"
| "comment_extent s (Comment ct k None) = None"

text \<open>
  The part of the source an entry accounts for: from its attached comment, if it has
  one, to the end of its span; \<open>None\<close> when the entry does not fit the source.
\<close>

fun entry_extent :: "ustr \<Rightarrow> entry \<Rightarrow> (nat \<times> nat) option" where
  "entry_extent s (CommentEntry cm) = comment_extent s cm"
| "entry_extent s (Junk ct ans (Some (Span a b))) =
     (if a < b \<and> b \<le> length s \<and> ct = str_slice s a b then Some (a, b) else None)"
| "entry_extent s (Junk ct ans None) = None"
| "entry_extent s e =
     (case entry_span e of
        None \<Rightarrow> None
      | Some (Span a b) \<Rightarrow>
          if \<not> (at_line_start s a \<and> a < b \<and> b \<le> length s) then None
          else case entry_comment e of
                 None \<Rightarrow> Some (a, b)
               | Some cm \<Rightarrow>
                   (case comment_extent s cm of
                      None \<Rightarrow> None
                    | Some (x, y) \<Rightarrow>
                        if comment_kind cm = COMMENT \<and> y \<le> a \<and> blank s y a then Some (x, b) else None))"

text \<open>The entries cover the source from \<open>i\<close> to \<open>j\<close>, in order, with only blanks between them.\<close>

fun tiles :: "ustr \<Rightarrow> nat \<Rightarrow> entry list \<Rightarrow> nat \<Rightarrow> bool" where
  "tiles s i [] j = (i \<le> j \<and> blank s i j)"
| "tiles s i (e # es) j =
     (case entry_extent s e of
        None \<Rightarrow> False
      | Some (a, b) \<Rightarrow> i \<le> a \<and> blank s i a \<and> tiles s b es j)"

lemma blank_refl [simp]: "blank s i i"
  by (simp add: blank_def str_slice_def)

lemma blank_iff:
  "blank s i j \<longleftrightarrow> (\<forall>k. i \<le> k \<and> k < j \<and> k < length s \<longrightarrow> s ! k = CH_SPACE \<or> s ! k = CH_LF)"
proof (rule iffI)
  assume b: "blank s i j"
  show "\<forall>k. i \<le> k \<and> k < j \<and> k < length s \<longrightarrow> s ! k = CH_SPACE \<or> s ! k = CH_LF"
  proof (intro allI impI)
    fix k assume k: "i \<le> k \<and> k < j \<and> k < length s"
    then have "k - i < length (str_slice s i j)" "str_slice s i j ! (k - i) = s ! k"
      by (auto simp: str_slice_def)
    with b show "s ! k = CH_SPACE \<or> s ! k = CH_LF"
      unfolding blank_def list_all_length by metis
  qed
next
  assume "\<forall>k. i \<le> k \<and> k < j \<and> k < length s \<longrightarrow> s ! k = CH_SPACE \<or> s ! k = CH_LF"
  then show "blank s i j"
    unfolding blank_def list_all_iff by (auto dest!: set_str_slice)
qed

lemma blank_append: "i \<le> j \<Longrightarrow> j \<le> k \<Longrightarrow> blank s i j \<Longrightarrow> blank s j k \<Longrightarrow> blank s i k"
  unfolding blank_iff using not_le_imp_less by blast

lemma blankI: "(\<And>k. i \<le> k \<Longrightarrow> k < j \<Longrightarrow> k < length s \<Longrightarrow> s ! k = CH_SPACE \<or> s ! k = CH_LF) \<Longrightarrow> blank s i j"
  by (simp add: blank_iff)

lemma blank_skip_blank: "blank (source c) (pos c) (pos (skip_blank c))"
  by (rule blankI) (rule skip_blank_skipped)

lemma tiles_snoc:
  "tiles s i (es @ [e]) k \<longleftrightarrow>
     (case entry_extent s e of None \<Rightarrow> False | Some (a, b) \<Rightarrow> tiles s i es a \<and> b \<le> k \<and> blank s b k)"
  by (induction es arbitrary: i) (auto split: option.splits)

lemma tiles_extend: "tiles s i es j \<Longrightarrow> j \<le> k \<Longrightarrow> blank s j k \<Longrightarrow> tiles s i es k"
  by (induction es arbitrary: i) (auto intro: blank_append split: option.splits)

section \<open>The invariant of the main loop\<close>

definition acc_node :: "comment_accumulator \<Rightarrow> comment" where
  "acc_node acc =
     Comment (str_join [CH_LF] (acc_contents acc)) (acc_type acc)
       (case (acc_first_span acc, acc_last_span acc) of
          (Some f, Some l) \<Rightarrow> Some (Span (span_start f) (span_end l))
        | (Some f, None) \<Rightarrow> Some f
        | (None, l) \<Rightarrow> l)"

definition all_entries :: "parse_state \<Rightarrow> entry list" where
  "all_entries st =
     st_entries st @ (case st_pending st of None \<Rightarrow> [] | Some acc \<Rightarrow> [CommentEntry (acc_node acc)])"

definition pending_ok :: "ustr \<Rightarrow> parse_state \<Rightarrow> bool" where
  "pending_ok s st \<longleftrightarrow>
     (case st_pending st of
        None \<Rightarrow> True
      | Some acc \<Rightarrow>
          (\<exists>f l. acc_first_span acc = Some f \<and> acc_last_span acc = Some l \<and>
             comment_extent s (acc_node acc) = Some (span_start f, span_end l) \<and>
             st_pending_end st = span_end l))"

fun is_junk :: "entry \<Rightarrow> bool" where
  "is_junk (Junk ct ans sp) = True"
| "is_junk (Message i v ats cm sp) = False"
| "is_junk (Term i v ats cm sp) = False"
| "is_junk (CommentEntry cm) = False"

text \<open>
  A comment line with more than three hashes becomes junk while a pending comment keeps
  waiting, so that comment is appended after the junk that follows it in the source.
  The entries then are a reordering of a list that covers the source.
\<close>

fun malformed_comment :: "entry \<Rightarrow> bool" where
  "malformed_comment (Junk ct ans sp) = (take 4 ct = replicate 4 CH_HASH)"
| "malformed_comment (Message i v ats cm sp) = False"
| "malformed_comment (Term i v ats cm sp) = False"
| "malformed_comment (CommentEntry cm) = False"

definition covered :: "ustr \<Rightarrow> parse_state \<Rightarrow> nat \<Rightarrow> entry list \<Rightarrow> bool" where
  "covered s st p es \<longleftrightarrow>
     mset es = mset (all_entries st) \<and> tiles s 0 es p \<and>
     (list_ex malformed_comment (st_entries st) \<or> es = all_entries st)"

definition pending_late :: "ustr \<Rightarrow> parse_state \<Rightarrow> nat \<Rightarrow> bool" where
  "pending_late s st p \<longleftrightarrow> has_blank_line_between s (st_pending_end st) p \<or> p = length s"

text \<open>The pending comment is the last of the covering entries, unless it can no longer be joined.\<close>

definition pending_last :: "ustr \<Rightarrow> parse_state \<Rightarrow> nat \<Rightarrow> entry list \<Rightarrow> bool" where
  "pending_last s st p es \<longleftrightarrow>
     (case st_pending st of
        None \<Rightarrow> True
      | Some acc \<Rightarrow> pending_late s st p \<or> es \<noteq> [] \<and> last es = CommentEntry (acc_node acc))"

definition base_ok :: "fluent_parser \<Rightarrow> ustr \<Rightarrow> parse_state \<Rightarrow> bool" where
  "base_ok P s st \<longleftrightarrow>
     pending_ok s st \<and>
     list_all (wf_entry (length s)) (st_entries st) \<and>
     (\<forall>e \<in> set (st_entries st). nesting_entry e \<le> nat (parser_nesting_depth P)) \<and>
     st_junk_count st = length (filter is_junk (st_entries st))"

text \<open>The invariant at a cursor, without and with the position of the pending comment.\<close>

definition core_at :: "fluent_parser \<Rightarrow> ustr \<Rightarrow> parse_state \<Rightarrow> cursor \<Rightarrow> bool" where
  "core_at P s st c \<longleftrightarrow>
     source c = s \<and> wf_cursor c \<and> base_ok P s st \<and> (\<exists>es. covered s st (pos c) es)"

definition ok_at :: "fluent_parser \<Rightarrow> ustr \<Rightarrow> parse_state \<Rightarrow> cursor \<Rightarrow> bool" where
  "ok_at P s st c \<longleftrightarrow>
     source c = s \<and> wf_cursor c \<and> base_ok P s st \<and>
     (\<exists>es. covered s st (pos c) es \<and> pending_last s st (pos c) es)"

definition state_core :: "fluent_parser \<Rightarrow> ustr \<Rightarrow> parse_state \<Rightarrow> bool" where
  "state_core P s st \<longleftrightarrow> core_at P s st (st_cursor st)"

definition state_ok :: "fluent_parser \<Rightarrow> ustr \<Rightarrow> parse_state \<Rightarrow> bool" where
  "state_ok P s st \<longleftrightarrow> ok_at P s st (st_cursor st)"

definition below_limit :: "fluent_parser \<Rightarrow> parse_state \<Rightarrow> bool" where
  "below_limit P st \<longleftrightarrow> max_parse_errors P > 0 \<longrightarrow> int (st_junk_count st) < max_parse_errors P"

definition at_limit :: "fluent_parser \<Rightarrow> parse_state \<Rightarrow> bool" where
  "at_limit P st \<longleftrightarrow> max_parse_errors P > 0 \<and> int (st_junk_count st) = max_parse_errors P"

definition finished :: "fluent_parser \<Rightarrow> ustr \<Rightarrow> parse_state \<Rightarrow> bool" where
  "finished P s st \<longleftrightarrow> below_limit P st \<and> pos (st_cursor st) = length s \<or> at_limit P st"

fun control_ok :: "fluent_parser \<Rightarrow> ustr \<Rightarrow> nat \<Rightarrow> control \<Rightarrow> bool" where
  "control_ok P s p (Continue st) = (state_ok P s st \<and> below_limit P st \<and> p < pos (st_cursor st))"
| "control_ok P s p (Break st) = (state_core P s st \<and> finished P s st)"

lemma ok_core: "ok_at P s st c \<Longrightarrow> core_at P s st c"
  by (auto simp: ok_at_def core_at_def)

lemma core_no_pending: "core_at P s st c \<Longrightarrow> st_pending st = None \<Longrightarrow> ok_at P s st c"
  by (auto simp: ok_at_def core_at_def pending_last_def)

text \<open>The invariant does not look at the state's own cursor, nor at the limit.\<close>

lemma core_at_cursor [simp]: "core_at P s (st\<lparr>st_cursor := d\<rparr>) c = core_at P s st c"
  by (simp add: core_at_def base_ok_def covered_def all_entries_def pending_ok_def split: option.split)

lemma ok_at_cursor [simp]: "ok_at P s (st\<lparr>st_cursor := d\<rparr>) c = ok_at P s st c"
  by (simp add: ok_at_def base_ok_def covered_def all_entries_def pending_ok_def pending_last_def
      pending_late_def split: option.split)

lemma below_limit_cursor [simp]: "below_limit P (st\<lparr>st_cursor := d\<rparr>) = below_limit P st"
  by (simp add: below_limit_def)

lemma at_limit_cursor [simp]: "at_limit P (st\<lparr>st_cursor := d\<rparr>) = at_limit P st"
  by (simp add: at_limit_def)

lemma state_core_cursor [simp]: "state_core P s (st\<lparr>st_cursor := d\<rparr>) = core_at P s st d"
  by (simp add: state_core_def)

lemma state_ok_cursor [simp]: "state_ok P s (st\<lparr>st_cursor := d\<rparr>) = ok_at P s st d"
  by (simp add: state_ok_def)

lemma pending_end_no_pending:
  "st_pending st = None \<Longrightarrow> ok_at P s (st\<lparr>st_pending_end := k\<rparr>) c = ok_at P s st c"
  by (simp add: ok_at_def base_ok_def covered_def all_entries_def pending_ok_def pending_last_def)

lemma covered_extend: "covered s st p es \<Longrightarrow> p \<le> q \<Longrightarrow> blank s p q \<Longrightarrow> covered s st q es"
  by (auto simp: covered_def intro: tiles_extend)

lemma has_blank_line_mono:
  assumes "has_blank_line_between s a p" "p \<le> q"
  shows "has_blank_line_between s a q"
proof -
  have "str_slice s a p = take (p - a) (str_slice s a q)"
    using assms(2) by (cases "a \<le> p") (simp_all add: str_slice_def take_drop min_def)
  with assms(1) show ?thesis by (auto simp: has_blank_line_between_def dest: in_set_takeD)
qed

lemma pending_late_mono: "pending_late s st p \<Longrightarrow> p \<le> q \<Longrightarrow> q \<le> length s \<Longrightarrow> pending_late s st q"
  by (auto simp: pending_late_def intro: has_blank_line_mono)

text \<open>Skipping blanks keeps the invariant.\<close>

lemma ok_at_move:
  assumes "ok_at P s st c" "moves c d" "blank s (pos c) (pos d)"
  shows "ok_at P s st d"
proof -
  from assms(1) obtain es where es: "covered s st (pos c) es" "pending_last s st (pos c) es"
    by (auto simp: ok_at_def)
  have d: "pos c \<le> pos d" "pos d \<le> length s" "source d = s" "wf_cursor d"
    using assms(1,2) by (auto simp: ok_at_def cursor_facts)
  have "covered s st (pos d) es" using es(1) d(1) assms(3) by (rule covered_extend)
  moreover have "pending_last s st (pos d) es"
    using es(2) pending_late_mono [OF _ d(1,2)] by (auto simp: pending_last_def split: option.splits)
  ultimately show ?thesis using assms(1) d by (auto simp: ok_at_def)
qed

lemma acc_finalize_safe:
  assumes "acc_first_span acc = Some f" "acc_last_span acc = Some l" "span_start f \<le> span_end l"
  shows "safe (\<lambda>cm. cm = acc_node acc) (acc_finalize acc)"
  using assms
  by (auto simp: acc_finalize_def acc_node_def Let_def intro!: safe_bind_span safe_ret)

lemma comment_extent_bounds:
  "comment_extent s cm = Some (a, b) \<Longrightarrow>
     comment_span cm = Some (Span a b) \<and> a < b \<and> b \<le> length s \<and> at_line_start s a"
  by (cases "(s, cm)" rule: comment_extent.cases) (auto split: if_splits)

lemma pending_node:
  assumes "pending_ok s st" "st_pending st = Some acc"
  obtains a b where "comment_extent s (acc_node acc) = Some (a, b)" "st_pending_end st = b"
    "safe (\<lambda>cm. cm = acc_node acc) (acc_finalize acc)" "wf_entry (length s) (CommentEntry (acc_node acc))"
proof -
  from assms obtain f l where f: "acc_first_span acc = Some f" "acc_last_span acc = Some l"
    "comment_extent s (acc_node acc) = Some (span_start f, span_end l)" "st_pending_end st = span_end l"
    by (auto simp: pending_ok_def)
  note b = comment_extent_bounds [OF f(3)]
  show ?thesis
    using that [OF f(3,4) acc_finalize_safe [OF f(1,2)]] b by simp
qed

lemma flush_pending_safe:
  assumes "core_at P s st c"
  shows "safe (\<lambda>st'. ok_at P s st' c \<and> st_pending st' = None \<and> st_cursor st' = st_cursor st \<and>
           st_junk_count st' = st_junk_count st) (flush_pending st)"
proof (cases "st_pending st")
  case None
  with assms core_no_pending [OF assms] show ?thesis by (simp add: flush_pending_def safe_ret)
next
  case (Some acc)
  have "pending_ok s st" using assms by (simp add: core_at_def base_ok_def)
  from this Some obtain a b where n: "safe (\<lambda>cm. cm = acc_node acc) (acc_finalize acc)"
    "wf_entry (length s) (CommentEntry (acc_node acc))"
    by (rule pending_node)
  let ?st' = "st\<lparr>st_entries := st_entries st @ [CommentEntry (acc_node acc)], st_pending := None\<rparr>"
  have "core_at P s ?st' c"
    using assms Some n(2)
    by (auto simp: core_at_def base_ok_def covered_def all_entries_def pending_ok_def)
  then have "ok_at P s ?st' c" by (rule core_no_pending) simp
  then show ?thesis
    unfolding flush_pending_def Some option.case
    by (intro safe_and_then [OF n(1)]) (auto intro!: safe_ret)
qed

text \<open>A new entry after the ones covered so far, with no comment pending.\<close>

lemma add_entry_ok:
  assumes "core_at P s st c" "st_pending st = None"
    and "entry_extent s e = Some (a, b)" "pos c \<le> a" "blank s (pos c) a"
    and "wf_entry (length s) e" "nesting_entry e \<le> nat (parser_nesting_depth P)"
    and "source d = s" "wf_cursor d" "b \<le> pos d" "blank s b (pos d)"
  shows "ok_at P s (st\<lparr>st_entries := st_entries st @ [e],
      st_junk_count := st_junk_count st + (if is_junk e then 1 else 0)\<rparr>) d"
proof -
  from assms(1) obtain es where es: "covered s st (pos c) es" by (auto simp: core_at_def)
  let ?st' = "st\<lparr>st_entries := st_entries st @ [e],
      st_junk_count := st_junk_count st + (if is_junk e then 1 else 0)\<rparr>"
  have "tiles s 0 (es @ [e]) (pos d)"
    using es assms(3-5,10,11) by (auto simp: tiles_snoc covered_def intro: tiles_extend)
  with es assms(2) have "covered s ?st' (pos d) (es @ [e])"
    by (auto simp: covered_def all_entries_def)
  with assms(1,2,6-9) show ?thesis
    by (auto simp: ok_at_def core_at_def base_ok_def pending_ok_def pending_last_def)
qed

section \<open>Junk\<close>

lemma junk_lines_loop_moves: "wf_cursor c \<Longrightarrow> moves c (junk_lines_loop c)"
proof (induction c rule: junk_lines_loop.induct)
  case (1 c)
  let ?s = "skip_spaces c"
  have s: "moves c ?s" using 1 by (simp add: moves_def)
  show ?case
  proof (cases "is_eof c \<or> is_eof ?s \<or> pos ?s = pos c \<and> starts_entry ?s")
    case True
    with s 1 show ?thesis
      by (auto simp: junk_lines_loop.simps [of c] Let_def moves_refl)
  next
    case False
    have n: "moves ?s (next_line ?s)" by (rule next_line_moves [OF moves_wf [OF s]])
    have "moves (next_line ?s) (junk_lines_loop (next_line ?s))"
      using False "1.IH" [OF _ refl] moves_wf [OF n] by auto
    with moves_trans [OF moves_trans [OF s n]] have "moves c (junk_lines_loop (next_line ?s))" by blast
    moreover have "junk_lines_loop c = junk_lines_loop (next_line ?s)"
      using False by (subst junk_lines_loop.simps) (auto simp: Let_def)
    ultimately show ?thesis by simp
  qed
qed

lemma consume_junk_lines_advances: "cur c = Some ch \<Longrightarrow> advances c (consume_junk_lines c)"
  unfolding consume_junk_lines_def
  by (rule advances_trans [OF next_line_advances junk_lines_loop_moves])
    (auto intro: advances_wf next_line_advances)

definition junk_state :: "parse_state \<Rightarrow> entry \<Rightarrow> parse_state" where
  "junk_state st junk = st\<lparr>st_entries := st_entries st @ [junk], st_junk_count := st_junk_count st + 1\<rparr>"

definition junk_node :: "ustr \<Rightarrow> nat \<Rightarrow> nat \<Rightarrow> nat \<Rightarrow> ustr \<Rightarrow> ustr \<Rightarrow> entry" where
  "junk_node s a b annotation_end code msg =
     Junk (str_slice s a b) [Annotation code msg None (Some (Span a annotation_end))] (Some (Span a b))"

lemma junk_node_extent:
  "a < b \<Longrightarrow> b \<le> length s \<Longrightarrow> entry_extent s (junk_node s a b m code msg) = Some (a, b) \<and>
     wf_entry (length s) (junk_node s a b m code msg) \<and>
     nesting_entry (junk_node s a b m code msg) = 0 \<and> is_junk (junk_node s a b m code msg)"
  by (simp add: junk_node_def)

lemma add_junk_step:
  assumes "below_limit P st" "source c = s" "start < pos c" "start \<le> annotation_end" "pos c \<le> pos resume"
    and "core_at P s (junk_state st (junk_node s start (pos c) annotation_end code msg)) c"
    and "ok_at P s (junk_state st (junk_node s start (pos c) annotation_end code msg)) resume"
  shows "safe (control_ok P s start) (add_junk P st c start annotation_end code msg resume)"
proof -
  define st1 where "st1 = junk_state st (junk_node s start (pos c) annotation_end code msg)"
  have lim: "junk_limit_exceeded P (st_junk_count st1) \<Longrightarrow> at_limit P st1"
    "\<not> junk_limit_exceeded P (st_junk_count st1) \<Longrightarrow> below_limit P st1"
    using assms(1) by (auto simp: junk_limit_exceeded_def at_limit_def below_limit_def st1_def junk_state_def)
  have "safe (control_ok P s start)
      (if junk_limit_exceeded P (st_junk_count st1) then ret (Break (st1\<lparr>st_cursor := c\<rparr>))
       else ret (Continue (st1\<lparr>st_cursor := resume\<rparr>)))"
    using assms(3,5-7) lim unfolding st1_def [symmetric]
    by (auto intro!: safe_if safe_ret simp: finished_def)
  then show ?thesis
    unfolding add_junk_def Let_def assms(2) using assms(3,4)
    by (intro safe_bind_span)
      (simp_all only: junk_node_def [symmetric] junk_state_def [symmetric] st1_def less_imp_le)
qed

lemma add_junk_safe:
  assumes "ok_at P s st c0" "st_pending st = None" "below_limit P st" "advances c0 c"
  shows "safe (control_ok P s (pos c0)) (add_junk P st c (pos c0) (pos c0) code msg c)"
proof -
  let ?junk = "junk_node s (pos c0) (pos c) (pos c0) code msg"
  have s: "source c = s" "pos c0 < pos c" "pos c \<le> length s" "wf_cursor c"
    using assms(1,4) by (auto simp: ok_at_def cursor_facts)
  note x = junk_node_extent [OF s(2,3), of "pos c0" code msg]
  have "ok_at P s (junk_state st ?junk) c"
    using add_entry_ok [OF ok_core [OF assms(1)] assms(2), of ?junk "pos c0" "pos c" c] x s
    by (simp add: junk_state_def)
  then show ?thesis
    using s assms(3) by (intro add_junk_step) (auto intro: ok_core)
qed

section \<open>The branches of the loop\<close>

lemma comment_extent_iff:
  "comment_extent s cm = Some (a, b) \<longleftrightarrow>
     comment_span cm = Some (Span a b) \<and> at_line_start s a \<and> a < b \<and> b \<le> length s"
  by (cases "(s, cm)" rule: comment_extent.cases) auto

lemma step_indented_safe:
  assumes "state_ok P s st" "below_limit P st" "moves (st_cursor st) c" "cur c = Some ch"
  shows "safe (control_ok P s (pos (st_cursor st))) (step_indented P st (pos (st_cursor st)) c)"
  unfolding step_indented_def Let_def
proof (rule safe_and_then [OF flush_pending_safe [OF ok_core [OF assms(1) [unfolded state_ok_def]]]], goal_cases)
  case (1 st')
  have c: "advances (st_cursor st) (consume_junk_lines c)"
    using assms(3) consume_junk_lines_advances [OF assms(4)] by (rule moves_advances)
  from 1 have ok: "ok_at P s st' (st_cursor st)" "st_pending st' = None"
    and lim: "below_limit P st'" "below_limit P (st'\<lparr>st_pending_end := 0\<rparr>)"
    using assms(2) by (simp_all add: below_limit_def)
  have ok0: "ok_at P s (st'\<lparr>st_pending_end := 0\<rparr>) (st_cursor st)"
    using ok by (simp add: pending_end_no_pending)
  show ?case
    using add_junk_safe [OF ok lim(1) c] add_junk_safe [OF ok0 _ lim(2) c] ok(2) by simp
qed

text \<open>A handler runs at a cursor the invariant has been moved to.\<close>

definition ready :: "fluent_parser \<Rightarrow> ustr \<Rightarrow> parse_state \<Rightarrow> cursor \<Rightarrow> bool" where
  "ready P s st c \<longleftrightarrow> ok_at P s st c \<and> below_limit P st \<and> at_line_start s (pos c)"

lemma ready_source: "ready P s st c \<Longrightarrow> source c = s"
  by (simp add: ready_def ok_at_def)

lemma flush_ready:
  assumes "ready P s st c"
  shows "safe (\<lambda>st'. ready P s st' c \<and> st_pending st' = None) (flush_pending st)"
proof -
  have "core_at P s st c" using assms by (simp add: ready_def ok_core)
  from flush_pending_safe [OF this] show ?thesis
    by (rule safe_weaken) (use assms in \<open>auto simp: ready_def below_limit_def\<close>)
qed

lemma start_comment_ok:
  assumes "ready P s st c" "st_pending st = None" "advances c c'" "comment_span cm = Some (Span (pos c) (pos c'))"
  shows "control_ok P s (pos c) (Continue
           (st\<lparr>st_cursor := c', st_pending := Some (mk_accumulator cm), st_pending_end := pos c'\<rparr>))"
proof -
  let ?st' = "st\<lparr>st_pending := Some (mk_accumulator cm), st_pending_end := pos c'\<rparr>"
  let ?node = "acc_node (mk_accumulator cm)"
  have c: "source c' = s" "wf_cursor c'" "pos c < pos c'" "pos c' \<le> length s"
    using assms(3) ready_source [OF assms(1)] by (auto simp: cursor_facts)
  have x: "comment_extent s ?node = Some (pos c, pos c')"
    using assms c by (auto simp: comment_extent_iff acc_node_def mk_accumulator_def ready_def)
  from assms(1) obtain es where es: "covered s st (pos c) es" by (auto simp: ready_def ok_at_def)
  have cov: "covered s ?st' (pos c') (es @ [CommentEntry ?node])"
    using es assms(2) x by (auto simp: covered_def all_entries_def tiles_snoc)
  have "pending_ok s ?st'"
    using x assms(4) by (auto simp: pending_ok_def) (auto simp: mk_accumulator_def)
  moreover have "pending_last s ?st' (pos c') (es @ [CommentEntry ?node])"
    by (simp add: pending_last_def)
  ultimately have "ok_at P s ?st' c'"
    using assms(1) c cov by (auto simp: ready_def ok_at_def base_ok_def)
  moreover have "st\<lparr>st_cursor := c', st_pending := Some (mk_accumulator cm), st_pending_end := pos c'\<rparr> =
      ?st'\<lparr>st_cursor := c'\<rparr>"
    by simp
  ultimately show ?thesis
    using c assms(1) by (simp only: control_ok.simps state_ok_cursor) (simp add: ready_def below_limit_def)
qed

lemma join_comment_ok:
  assumes "ready P s st c" "st_pending st = Some acc" "advances c c'"
    "comment_span cm = Some (Span (pos c) (pos c'))"
    "\<not> has_blank_line_between s (st_pending_end st) (pos c)"
  shows "control_ok P s (pos c) (Continue
           (st\<lparr>st_cursor := c', st_pending := Some (acc_add acc cm), st_pending_end := pos c'\<rparr>))"
proof -
  let ?st' = "st\<lparr>st_pending := Some (acc_add acc cm), st_pending_end := pos c'\<rparr>"
  let ?node = "acc_node acc" and ?node' = "acc_node (acc_add acc cm)"
  have c: "source c' = s" "wf_cursor c'" "pos c < pos c'" "pos c' \<le> length s"
    using assms(3) ready_source [OF assms(1)] by (auto simp: cursor_facts)
  from assms(1,2) obtain f l where f: "acc_first_span acc = Some f" "acc_last_span acc = Some l"
    "comment_extent s ?node = Some (span_start f, span_end l)"
    by (auto simp: ready_def ok_at_def base_ok_def pending_ok_def)
  from assms(1,2,5) c obtain es where es: "covered s st (pos c) es" "es \<noteq> []" "last es = CommentEntry ?node"
    by (auto simp: ready_def ok_at_def pending_last_def pending_late_def)
  then obtain es0 where es0: "es = es0 @ [CommentEntry ?node]" by (metis append_butlast_last_id)
  have "tiles s 0 es0 (span_start f)" "span_end l \<le> pos c"
    using es(1) f(3) by (auto simp: es0 covered_def tiles_snoc)
  moreover from this have x: "comment_extent s ?node' = Some (span_start f, pos c')"
    using f(3) c by (simp add: comment_extent_iff acc_node_def acc_add_def f(1) assms(4))
  ultimately have cov: "covered s ?st' (pos c') (es0 @ [CommentEntry ?node'])"
    using es(1) assms(2) by (auto simp: es0 covered_def all_entries_def tiles_snoc)
  have "pending_ok s ?st'"
    using x f(1) assms(4) by (auto simp: pending_ok_def) (auto simp: acc_add_def)
  moreover have "pending_last s ?st' (pos c') (es0 @ [CommentEntry ?node'])"
    by (simp add: pending_last_def)
  ultimately have "ok_at P s ?st' c'"
    using assms(1) c cov by (auto simp: ready_def ok_at_def base_ok_def)
  moreover have "st\<lparr>st_cursor := c', st_pending := Some (acc_add acc cm), st_pending_end := pos c'\<rparr> =
      ?st'\<lparr>st_cursor := c'\<rparr>"
    by simp
  ultimately show ?thesis
    using c assms(1) by (simp only: control_ok.simps state_ok_cursor) (simp add: ready_def below_limit_def)
qed

lemma accept_comment_safe:
  assumes "ready P s st c" "advances c c'" "comment_span cm = Some (Span (pos c) (pos c'))"
  shows "safe (control_ok P s (pos c)) (accept_comment st (pos c) cm c')"
proof (cases "st_pending st")
  case None
  with start_comment_ok [OF assms(1) None assms(2,3)] show ?thesis
    by (auto simp: accept_comment_def intro!: safe_ret simp del: control_ok.simps)
next
  case (Some acc)
  have s: "source c' = s" using assms(2) ready_source [OF assms(1)] by (simp add: advances_def)
  have "safe (control_ok P s (pos c)) (and_then (flush_pending st) (\<lambda>st. ret (Continue
      (st\<lparr>st_cursor := c', st_pending := Some (mk_accumulator cm), st_pending_end := pos c'\<rparr>))))"
    by (rule safe_and_then [OF flush_ready [OF assms(1)]])
      (blast intro: safe_ret start_comment_ok [OF _ _ assms(2,3)])
  with Some join_comment_ok [OF assms(1) Some assms(2,3)] s show ?thesis
    by (auto simp: accept_comment_def intro!: safe_ret simp del: control_ok.simps)
qed

lemma rest_of_line:
  assumes "cur c = Some CH_HASH"
  defines "c' \<equiv> adv_while (\<lambda>ch. ch \<noteq> CH_LF) c"
  shows "advances c c'" "moves c' (if is_eof c' then c' else adv c')"
    "blank (source c) (pos c') (pos (if is_eof c' then c' else adv c'))"
proof -
  show a: "advances c c'" unfolding c'_def using assms(1) by (intro adv_while_advances) auto
  show "moves c' (if is_eof c' then c' else adv c')"
    using advances_wf [OF a] by (auto intro: moves_refl moves_adv)
  show "blank (source c) (pos c') (pos (if is_eof c' then c' else adv c'))"
  proof (cases "cur c'")
    case None
    then show ?thesis by (simp add: cur_def split: if_splits)
  next
    case (Some ch)
    then have "ch = CH_LF" unfolding c'_def by (auto dest: cur_adv_while)
    with Some have "source c ! pos c' = CH_LF" by (simp add: cur_Some_iff c'_def)
    moreover from Some have "pos (adv c') = Suc (pos c')" by (rule pos_adv)
    ultimately show ?thesis by (auto intro!: blankI dest: le_neq_implies_less simp: less_Suc_eq)
  qed
qed

lemma tiles_bound: "tiles s i es p \<Longrightarrow> e \<in> set es \<Longrightarrow> entry_extent s e = Some (a, b) \<Longrightarrow> b \<le> p"
proof (induction es arbitrary: i)
  case (Cons d es)
  have "j \<le> p" if "tiles s j es p" for j
    using that
  proof (induction es arbitrary: j)
    case (Cons d' es)
    then obtain a' b' where "entry_extent s d' = Some (a', b')" "j \<le> a'" "tiles s b' es p"
      by (auto split: option.splits)
    moreover have "a' \<le> b'"
      using \<open>entry_extent s d' = Some (a', b')\<close>
      by (cases "(s, d')" rule: entry_extent.cases)
        (auto split: if_splits option.splits span.splits dest!: comment_extent_bounds)
    ultimately show ?case using Cons.IH [of b'] by simp
  qed simp
  with Cons show ?case by (auto split: option.splits)
qed simp

lemma hash_run:
  assumes "pos (adv_while (\<lambda>ch. ch = CH_HASH) c) - pos c > 3"
  shows "take 4 (str_slice (source c) (pos c) (pos (adv_while (\<lambda>ch. ch \<noteq> CH_LF) c))) = replicate 4 CH_HASH"
proof -
  let ?j = "scan_while (\<lambda>ch. ch = CH_HASH) (source c) (pos c)"
    and ?k = "scan_while (\<lambda>ch. ch \<noteq> CH_LF) (source c) (pos c)"
  have j: "pos c + 4 \<le> ?j" using assms by (simp add: adv_while_def)
  then have "pos c + 3 < length (source c)"
    using scan_while_all [of "pos c" "pos c + 3" "\<lambda>ch. ch = CH_HASH" "source c"] by simp
  then have len: "pos c + 4 \<le> length (source c)" by simp
  have h: "source c ! m = CH_HASH" if "pos c \<le> m" "m < pos c + 4" for m
    using scan_while_all [of "pos c" m "\<lambda>ch. ch = CH_HASH" "source c"] that j by simp
  have k: "pos c + 4 \<le> ?k"
  proof (rule ccontr)
    assume "\<not> pos c + 4 \<le> ?k"
    then have "?k < pos c + 4" by simp
    moreover from this len have "\<not> source c ! ?k \<noteq> CH_LF"
      by (intro scan_while_stop) simp
    ultimately show False
      using h [of ?k] scan_while_ge [of "pos c" "\<lambda>ch. ch \<noteq> CH_LF" "source c"] by simp
  qed
  show ?thesis
  proof (rule nth_equalityI)
    show "length (take 4 (str_slice (source c) (pos c) (pos (adv_while (\<lambda>ch. ch \<noteq> CH_LF) c)))) =
        length (replicate 4 CH_HASH)"
      using k len by (simp add: adv_while_def)
    fix i assume "i < length (take 4 (str_slice (source c) (pos c) (pos (adv_while (\<lambda>ch. ch \<noteq> CH_LF) c))))"
    then show "take 4 (str_slice (source c) (pos c) (pos (adv_while (\<lambda>ch. ch \<noteq> CH_LF) c))) ! i =
        replicate 4 CH_HASH ! i"
      using k len h [of "pos c + i"] by (simp add: adv_while_def str_slice_def)
  qed
qed

lemma attempt_comment_safe:
  assumes "cur c = Some CH_HASH"
  shows "safe (\<lambda>r. case r of
           None \<Rightarrow> pos (adv_while (\<lambda>ch. ch = CH_HASH) c) - pos c > 3
         | Some q \<Rightarrow> comment_post c q) (attempt (parse_comment c))"
proof (cases "pos (adv_while (\<lambda>ch. ch = CH_HASH) c) - pos c > 3")
  case True
  then have "attempt (parse_comment c) = ret None"
    by (auto simp: parse_comment_def Let_def attempt_def no_result_def ret_def)
  with True show ?thesis by (auto intro!: safe_ret)
next
  case False
  have safe: "safe (comment_post c) (parse_comment c)" using assms by (rule parse_comment_safe)
  have "fst (parse_comment c flag) \<noteq> NoResult" for flag
    using False by (simp add: parse_comment_def Let_def and_then_def mk_span_def raise_error_def ret_def)
  then show ?thesis by (rule safe_attempt_Some [OF safe]) simp
qed

lemma junk_state_fields [simp]:
  "st_pending (junk_state st j) = st_pending st" "st_pending_end (junk_state st j) = st_pending_end st"
  "st_entries (junk_state st j) = st_entries st @ [j]" "st_junk_count (junk_state st j) = st_junk_count st + 1"
  by (simp_all add: junk_state_def)

lemma comment_junk_ok:
  fixes code msg :: ustr
  assumes "ready P s st c" "cur c = Some CH_HASH"
    "pos (adv_while (\<lambda>ch. ch = CH_HASH) c) - pos c > 3"
  defines "c' \<equiv> adv_while (\<lambda>ch. ch \<noteq> CH_LF) c"
  defines "junk \<equiv> junk_node s (pos c) (pos c') (pos c') code msg"
  shows "core_at P s (junk_state st junk) c'"
    and "ok_at P s (junk_state st junk) (if is_eof c' then c' else adv c')"
proof -
  let ?r = "if is_eof c' then c' else adv c'"
  note line = rest_of_line [OF assms(2), folded c'_def]
  have c: "source c = s" "source c' = s" "wf_cursor c'" "pos c < pos c'" "pos c' \<le> length s"
    using line(1) ready_source [OF assms(1)] by (auto simp: cursor_facts)
  note x = junk_node_extent [OF c(4,5), of "pos c'" code msg, folded junk_def]
  have m: "malformed_comment junk"
    using hash_run [OF assms(3)] c(1) by (simp add: junk_def junk_node_def c'_def)
  from assms(1) obtain es where es: "covered s st (pos c) es" by (auto simp: ready_def ok_at_def)
  have cov: "covered s (junk_state st junk) (pos c') (es @ [junk])"
    using es x m by (auto simp: covered_def all_entries_def tiles_snoc)
  have base: "base_ok P s (junk_state st junk)"
    using assms(1) x by (auto simp: ready_def ok_at_def base_ok_def pending_ok_def split: option.split)
  show "core_at P s (junk_state st junk) c'"
    using c cov base by (auto simp: core_at_def)
  have late: "pending_late s (junk_state st junk) (pos ?r)" if p: "st_pending st = Some acc" for acc
  proof (cases "is_eof c'")
    case True
    with c show ?thesis by (simp add: pending_late_def is_eof_def)
  next
    case False
    then obtain ch where ch: "cur c' = Some ch" by (simp add: cur_def)
    then have "\<not> ch \<noteq> CH_LF" unfolding c'_def by (rule cur_adv_while)
    with ch c(2) have lf: "s ! pos c' = CH_LF" "pos c' < length s" by (simp_all add: cur_Some_iff)
    have "pending_ok s st" using assms(1) by (simp add: ready_def ok_at_def base_ok_def)
    from this p obtain a b where n: "comment_extent s (acc_node acc) = Some (a, b)" "st_pending_end st = b"
      by (rule pending_node)
    from es have "mset es = mset (all_entries st)" by (simp add: covered_def)
    then have "set es = set (all_entries st)" by (rule mset_eq_setD)
    with p have "CommentEntry (acc_node acc) \<in> set es" by (simp add: all_entries_def)
    then have "st_pending_end st \<le> pos c"
      using es n by (auto simp: covered_def intro: tiles_bound [where e = "CommentEntry (acc_node acc)"])
    then have "s ! pos c' \<in> set (str_slice s (st_pending_end st) (Suc (pos c')))"
      using c lf by (auto simp: str_slice_def in_set_conv_nth intro!: exI [of _ "pos c' - st_pending_end st"])
    moreover have "pos (adv c') = Suc (pos c')" using False by (auto intro: pos_adv simp: cur_def)
    ultimately show ?thesis using False lf by (simp add: pending_late_def has_blank_line_between_def)
  qed
  have "covered s (junk_state st junk) (pos ?r) (es @ [junk])"
    using line(2,3) c by (intro covered_extend [OF cov]) (simp_all add: moves_def)
  moreover have "pending_last s (junk_state st junk) (pos ?r) (es @ [junk])"
    using late by (auto simp: pending_last_def split: option.split)
  ultimately show "ok_at P s (junk_state st junk) ?r"
    using c base line(2) by (auto simp: ok_at_def moves_def)
qed

lemma step_comment_safe:
  assumes "ready P s st c" "cur c = Some CH_HASH"
  shows "safe (control_ok P s (pos c)) (step_comment P st c)"
  unfolding step_comment_def
proof (rule safe_and_then [OF attempt_comment_safe [OF assms(2)]])
  fix r assume r: "case r of
           None \<Rightarrow> pos (adv_while (\<lambda>ch. ch = CH_HASH) c) - pos c > 3
         | Some q \<Rightarrow> comment_post c q"
  let ?c' = "adv_while (\<lambda>ch. ch \<noteq> CH_LF) c"
  note line = rest_of_line [OF assms(2)]
  have junk: "safe (control_ok P s (pos c)) (add_junk P st ?c' (pos c) (pos ?c') code msg
      (if is_eof ?c' then ?c' else adv ?c'))" if "r = None" for code msg
  proof (rule add_junk_step)
    from that r have h: "pos (adv_while (\<lambda>ch. ch = CH_HASH) c) - pos c > 3" by simp
    show "core_at P s (junk_state st (junk_node s (pos c) (pos ?c') (pos ?c') code msg)) ?c'"
      "ok_at P s (junk_state st (junk_node s (pos c) (pos ?c') (pos ?c') code msg))
         (if is_eof ?c' then ?c' else adv ?c')"
      by (rule comment_junk_ok [OF assms h])+
  qed (use line assms(1) ready_source [OF assms(1)] in \<open>auto simp: ready_def cursor_facts\<close>)
  show "safe (control_ok P s (pos c)) (case r of
         None \<Rightarrow> let c' = ?c' in add_junk P st c' (pos c) (pos c') (u ''PARSE_JUNK'')
                (u ''Invalid comment syntax (too many # characters or malformed)'')
                (if is_eof c' then c' else adv c')
       | Some (cm, c') \<Rightarrow> accept_comment st (pos c) cm c')"
    using r junk accept_comment_safe [OF assms(1)]
    by (auto simp: comment_post_def Let_def split: option.split)
qed

section \<open>Messages and terms\<close>

text \<open>
  The pending comment when an entry follows: attached, the invariant holds where the
  comment starts; otherwise it has become an entry.
\<close>

definition attach_ok :: "fluent_parser \<Rightarrow> ustr \<Rightarrow> cursor \<Rightarrow> comment option \<times> parse_state \<Rightarrow> bool" where
  "attach_ok P s c r \<longleftrightarrow>
     (case r of (att, st) \<Rightarrow>
        st_pending st = None \<and> below_limit P st \<and>
        (case att of
           None \<Rightarrow> core_at P s st c
         | Some cm \<Rightarrow>
             (\<exists>x y. comment_extent s cm = Some (x, y) \<and> comment_kind cm = COMMENT \<and>
                y \<le> pos c \<and> blank s y (pos c) \<and> core_at P s st (c\<lparr>pos := x\<rparr>))))"

lemma take_pending_safe:
  assumes "ready P s st c" "cur c = Some ch"
  shows "safe (attach_ok P s c) (take_pending st c)"
proof (cases "st_pending st")
  case None
  with assms show ?thesis
    by (auto simp: take_pending_def attach_ok_def ready_def intro!: safe_ret ok_core)
next
  case (Some acc)
  have "pending_ok s st" using assms(1) by (simp add: ready_def ok_at_def base_ok_def)
  from this Some obtain a b where n: "comment_extent s (acc_node acc) = Some (a, b)" "st_pending_end st = b"
    "safe (\<lambda>cm. cm = acc_node acc) (acc_finalize acc)" "wf_entry (length s) (CommentEntry (acc_node acc))"
    by (rule pending_node)
  let ?rest = "st\<lparr>st_pending := None, st_pending_end := 0\<rparr>"
  have c: "source c = s" "wf_cursor c" "pos c < length s"
    using assms ready_source [OF assms(1)] by (auto simp: cur_Some_iff wf_cursor_def)
  have lim: "below_limit P ?rest" using assms(1) by (simp add: ready_def below_limit_def)
  have kind: "comment_kind (acc_node acc) = acc_type acc" by (simp add: acc_node_def)
  have attached: "attach_ok P s c (Some (acc_node acc), ?rest)"
    if t: "acc_type acc = COMMENT" "\<not> has_blank_line_between s b (pos c)"
  proof -
    from assms(1) Some t(2) n(2) c obtain es where es: "covered s st (pos c) es" "es \<noteq> []"
      "last es = CommentEntry (acc_node acc)"
      by (auto simp: ready_def ok_at_def pending_last_def pending_late_def)
    then obtain es0 where es0: "es = es0 @ [CommentEntry (acc_node acc)]" by (metis append_butlast_last_id)
    have "tiles s 0 es0 a" "b \<le> pos c" "blank s b (pos c)"
      using es(1) n(1) by (auto simp: es0 covered_def tiles_snoc)
    moreover from this have "covered s ?rest a es0"
      using es(1) Some by (auto simp: es0 covered_def all_entries_def)
    moreover have "wf_cursor (c\<lparr>pos := a\<rparr>)"
      using comment_extent_bounds [OF n(1)] c by (simp add: wf_cursor_def)
    ultimately show ?thesis
      using n(1) t(1) kind c lim assms(1)
      by (auto simp: attach_ok_def core_at_def ready_def ok_at_def base_ok_def pending_ok_def)
  qed
  have standalone: "attach_ok P s c (None, ?rest\<lparr>st_entries := st_entries ?rest @ [CommentEntry (acc_node acc)]\<rparr>)"
  proof -
    from assms(1) obtain es where "covered s st (pos c) es" by (auto simp: ready_def ok_at_def)
    then have "covered s (?rest\<lparr>st_entries := st_entries ?rest @ [CommentEntry (acc_node acc)]\<rparr>) (pos c) es"
      using Some by (auto simp: covered_def all_entries_def)
    then show ?thesis
      using n(4) c lim assms(1)
      by (auto simp: attach_ok_def core_at_def ready_def ok_at_def base_ok_def pending_ok_def below_limit_def)
  qed
  show ?thesis
    unfolding take_pending_def Some option.case Let_def c(1) n(2)
    by (rule safe_and_then [OF n(3)]) (use attached standalone in \<open>auto intro!: safe_if safe_ret\<close>)
qed

lemma attach_safe:
  assumes "is_definition e" "wf_entry n e" "entry_comment e = None"
  shows "safe (\<lambda>e'. entry_span e' = entry_span e \<and> entry_comment e' = att \<and> is_definition e' \<and>
           wf_entry n e' \<and> nesting_entry e' = nesting_entry e) (attach att e)"
proof (cases att)
  case None
  with assms show ?thesis by (simp add: attach_def safe_ret)
next
  case (Some cm)
  with assms show ?thesis by (cases e) (auto simp: attach_def mk_message_def intro!: safe_ret)
qed

lemma entry_parsed_safe:
  assumes att: "attach_ok P s c (att, st)" and e: "entry_post c (parser_context P) (e, c')"
    and c: "source c = s" "at_line_start s (pos c)"
  shows "safe (control_ok P s (pos c)) (entry_parsed st att e c')"
  unfolding entry_parsed_def
proof (rule safe_and_then [OF attach_safe [where n = "length s"]], goal_cases)
  case (4 e')
  have c': "source c' = s" "wf_cursor c'" "pos c < pos c'" "pos c' \<le> length s"
    using e c(1) by (auto simp: entry_post_def cursor_facts)
  have span: "entry_span e' = Some (Span (pos c) (pos c'))" using 4 e by (simp add: entry_post_def)
  have nest: "nesting_entry e' \<le> nat (parser_nesting_depth P)"
    using 4 e by (simp add: entry_post_def parser_context_def)
  have wf: "wf_entry (length s) e'" "\<not> is_junk e'" using 4 by (auto elim: is_definition.elims)
  have pend: "st_pending st = None" and lim: "below_limit P st" using att by (simp_all add: attach_ok_def)
  have "\<exists>d a. core_at P s st d \<and> entry_extent s e' = Some (a, pos c') \<and> pos d \<le> a \<and> blank s (pos d) a"
  proof (cases att)
    case None
    with att have "core_at P s st c" by (simp add: attach_ok_def)
    moreover have "entry_extent s e' = Some (pos c, pos c')"
      using 4 None span c(2) c' by (cases e') auto
    ultimately show ?thesis by (intro exI [of _ c] exI [of _ "pos c"]) simp
  next
    case (Some cm)
    with att obtain x y where cm: "comment_extent s cm = Some (x, y)" "comment_kind cm = COMMENT"
      "y \<le> pos c" "blank s y (pos c)" "core_at P s st (c\<lparr>pos := x\<rparr>)"
      by (auto simp: attach_ok_def)
    moreover have "entry_extent s e' = Some (x, pos c')"
      using 4 Some span c(2) c' cm by (cases e') auto
    ultimately show ?thesis by (intro exI [of _ "c\<lparr>pos := x\<rparr>"] exI [of _ x]) simp
  qed
  then obtain d a where d: "core_at P s st d" "entry_extent s e' = Some (a, pos c')" "pos d \<le> a"
    "blank s (pos d) a"
    by blast
  have "ok_at P s (st\<lparr>st_entries := st_entries st @ [e']\<rparr>) c'"
    using add_entry_ok [OF d(1) pend d(2-4) wf(1) nest c'(1,2)] wf(2) by simp
  then show ?case
    using c' lim by (auto intro!: safe_ret simp: below_limit_def)
qed (use e c(1) in \<open>auto simp: entry_post_def\<close>)

lemma entry_failed_safe:
  assumes att: "attach_ok P s c (att, st)" and c: "source c = s" "cur c = Some ch" "at_line_start s (pos c)"
  shows "safe (control_ok P s (pos c)) (entry_failed P st att c)"
proof -
  define st' where "st' = (case att of None \<Rightarrow> st
      | Some cm \<Rightarrow> st\<lparr>st_entries := st_entries st @ [CommentEntry cm]\<rparr>)"
  have pend: "st_pending st' = None" and lim: "below_limit P st'"
    using att by (auto simp: attach_ok_def st'_def below_limit_def split: option.splits)
  have "ok_at P s st' c"
  proof (cases att)
    case None
    with att show ?thesis by (auto simp: attach_ok_def st'_def intro: core_no_pending)
  next
    case (Some cm)
    with att obtain x y where cm: "comment_extent s cm = Some (x, y)"
      "y \<le> pos c" "blank s y (pos c)" "core_at P s st (c\<lparr>pos := x\<rparr>)" "st_pending st = None"
      by (auto simp: attach_ok_def)
    have "wf_entry (length s) (CommentEntry cm)" using comment_extent_bounds [OF cm(1)] by simp
    then show ?thesis
      using add_entry_ok [OF cm(4,5), of "CommentEntry cm" x y c] cm c cur_wf [OF c(2)]
      by (simp add: st'_def Some)
  qed
  from add_junk_safe [OF this pend lim consume_junk_lines_advances [OF c(2)]] show ?thesis
    unfolding entry_failed_def st'_def [symmetric] Let_def
    by (intro safe_and_then [where R = "\<lambda>_. True"] safe_if) (auto simp: was_depth_exceeded_def safe_def)
qed

lemma step_entry_safe:
  assumes "ready P s st c" "cur c = Some ch"
  shows "safe (control_ok P s (pos c)) (step_entry P (parser_context P) st c)"
  unfolding step_entry_def
proof (rule safe_and_then [OF take_pending_safe [OF assms]])
  fix r assume r: "attach_ok P s c r"
  obtain att st' where rr: "r = (att, st')" by force
  note c = ready_source [OF assms(1)] cur_wf [OF assms(2)]
  have col: "at_line_start s (pos c)" using assms(1) by (simp add: ready_def)
  note parsed = entry_parsed_safe [OF r [unfolded rr] _ c(1) col]
    and failed = entry_failed_safe [OF r [unfolded rr] c(1) assms(2) col]
  have attempted: "safe (control_ok P s (pos c)) (and_then (attempt p) (\<lambda>res. case res of
          Some (e, c') \<Rightarrow> entry_parsed st' att e c' | None \<Rightarrow> q))"
    if "safe (entry_post c (parser_context P)) p" "safe (control_ok P s (pos c)) q" for p q
    by (rule safe_and_then [OF safe_attempt [OF that(1), where Q = "pred_option (entry_post c (parser_context P))"]])
      (use that(2) parsed in \<open>auto split: option.split\<close>)
  show "safe (control_ok P s (pos c)) (case r of (attach_comment, st) \<Rightarrow>
       let try_message =
             and_then (attempt (parse_message c (parser_context P))) (\<lambda>message_result.
               case message_result of
                 Some (m, c') \<Rightarrow> entry_parsed st attach_comment m c'
               | None \<Rightarrow> entry_failed P st attach_comment c)
       in if cur c = Some CH_MINUS
          then and_then (attempt (parse_term c (parser_context P))) (\<lambda>term_result.
                 case term_result of
                   Some (t, c') \<Rightarrow> entry_parsed st attach_comment t c'
                 | None \<Rightarrow> try_message)
          else try_message)"
    unfolding rr prod.case Let_def
    using parse_message_safe [OF c(2)] parse_term_safe [OF c(2)] failed
    by (intro safe_if attempted)
qed

section \<open>The loop and the parse\<close>

lemma parse_step_safe:
  assumes "state_ok P s st" "below_limit P st" "\<not> is_eof (st_cursor st)"
  shows "safe (control_ok P s (pos (st_cursor st))) (parse_step P (parser_context P) st)"
proof -
  let ?c = "skip_blank (st_cursor st)"
  have wf: "wf_cursor (st_cursor st)" and src: "source (st_cursor st) = s"
    using assms(1) by (simp_all add: state_ok_def ok_at_def)
  have m: "moves (st_cursor st) ?c" using wf by (rule skip_blank_moves)
  have ok: "ok_at P s st ?c"
    using ok_at_move [OF assms(1) [unfolded state_ok_def] m] blank_skip_blank [of "st_cursor st"] src by simp
  have weaken: "control_ok P s (pos (st_cursor st)) x" if "control_ok P s (pos ?c) x" for x
    using that by (cases x) (auto intro: le_less_trans [OF skip_blank_ge])
  show ?thesis
  proof (cases "is_eof ?c")
    case True
    have "safe (control_ok P s (pos (st_cursor st)))
        (and_then (flush_pending st) (\<lambda>st. ret (Break (st\<lparr>st_cursor := ?c\<rparr>))))"
    proof (rule safe_and_then [OF flush_pending_safe [OF ok_core [OF ok]]], goal_cases)
      case (1 st')
      with True src moves_wf [OF m] assms(2) show ?case
        by (auto intro!: safe_ret ok_core simp: finished_def below_limit_def is_eof_def wf_cursor_def)
    qed
    with True show ?thesis by (simp add: parse_step_def Let_def)
  next
    case False
    then obtain ch where ch: "cur ?c = Some ch" by (simp add: cur_def)
    show ?thesis
    proof (cases "is_at_column_one ?c")
      case False
      with ch \<open>\<not> is_eof ?c\<close> step_indented_safe [OF assms(1,2) m ch] show ?thesis
        by (simp add: parse_step_def Let_def)
    next
      case True
      then have "ready P s st ?c"
        using ok assms(2) src by (simp add: ready_def is_at_column_one_def at_line_start_def)
      from step_entry_safe [OF this ch] step_comment_safe [OF this] ch True \<open>\<not> is_eof ?c\<close> show ?thesis
        by (auto simp: parse_step_def Let_def elim!: safe_weaken intro: weaken)
    qed
  qed
qed

lemma parse_loop_safe:
  assumes "remaining (st_cursor st) < n" "state_ok P s st" "below_limit P st"
  shows "safe (\<lambda>st'. state_core P s st' \<and> finished P s st') (parse_loop P (parser_context P) n st)"
  using assms
proof (induction n arbitrary: st)
  case (Suc n)
  show ?case
  proof (cases "is_eof (st_cursor st)")
    case True
    with Suc.prems show ?thesis
      by (auto intro!: safe_ret ok_core simp: finished_def is_eof_def state_ok_def state_core_def ok_at_def wf_cursor_def)
  next
    case False
    have src: "source (st_cursor st) = s" using Suc.prems(2) by (simp add: state_ok_def ok_at_def)
    have "safe (\<lambda>st'. state_core P s st' \<and> finished P s st') (and_then (parse_step P (parser_context P) st)
       (\<lambda>ctl. case ctl of Continue st' \<Rightarrow> parse_loop P (parser_context P) n st' | Break st' \<Rightarrow> ret st'))"
    proof (rule safe_and_then [OF parse_step_safe [OF Suc.prems(2,3) False]])
      fix ctl assume ctl: "control_ok P s (pos (st_cursor st)) ctl"
      show "safe (\<lambda>st'. state_core P s st' \<and> finished P s st')
         (case ctl of Continue st' \<Rightarrow> parse_loop P (parser_context P) n st' | Break st' \<Rightarrow> ret st')"
      proof (cases ctl)
        case (Continue st')
        with ctl Suc.prems(1) src have "remaining (st_cursor st') < n"
          by (auto simp: remaining_def state_ok_def ok_at_def wf_cursor_def)
        with Continue ctl Suc.IH [of st'] show ?thesis by simp
      next
        case (Break st')
        with ctl show ?thesis by (auto intro!: safe_ret)
      qed
    qed
    with False show ?thesis by simp
  qed
qed simp

text \<open>What a parse returns, for the normalized source \<open>s\<close>.\<close>

definition resource_ok :: "fluent_parser \<Rightarrow> ustr \<Rightarrow> resource \<Rightarrow> bool" where
  "resource_ok P s r \<longleftrightarrow>
     list_all (wf_entry (length s)) (entries r) \<and>
     (\<forall>e \<in> set (entries r). nesting_entry e \<le> nat (parser_nesting_depth P)) \<and>
     (\<exists>es p. mset es = mset (entries r) \<and> tiles s 0 es p \<and>
        (list_ex malformed_comment (entries r) \<or> es = entries r) \<and>
        (max_parse_errors P > 0 \<longrightarrow> int (length (filter is_junk (entries r))) \<le> max_parse_errors P) \<and>
        (p = length s \<or>
         max_parse_errors P > 0 \<and> int (length (filter is_junk (entries r))) = max_parse_errors P))"

lemma initial_state_ok: "state_ok P s (initial_state s) \<and> below_limit P (initial_state s)"
  by (simp add: state_ok_def ok_at_def initial_state_def base_ok_def pending_ok_def covered_def
      all_entries_def pending_last_def below_limit_def wf_cursor_def)

lemma parse_normalized_safe: "safe (resource_ok P s) (parse_normalized P s)"
  unfolding parse_normalized_def
proof (rule safe_and_then [OF parse_loop_safe])
  show "remaining (st_cursor (initial_state s)) < Suc (length s)"
    by (simp add: initial_state_def remaining_def)
  fix st assume st: "state_core P s st \<and> finished P s st"
  show "safe (resource_ok P s) (and_then (flush_pending st) (\<lambda>st. ret (Resource (st_entries st))))"
  proof (rule safe_and_then [OF flush_pending_safe [OF conjunct1 [OF st, unfolded state_core_def]]], rule safe_ret)
    fix st' assume a: "ok_at P s st' (st_cursor st) \<and> st_pending st' = None \<and> st_cursor st' = st_cursor st \<and>
      st_junk_count st' = st_junk_count st"
    then obtain es where es: "covered s st' (pos (st_cursor st)) es" by (auto simp: ok_at_def)
    have junk: "st_junk_count st = length (filter is_junk (st_entries st'))"
      using a by (auto simp: ok_at_def base_ok_def)
    have "mset es = mset (st_entries st')" "tiles s 0 es (pos (st_cursor st))"
      "list_ex malformed_comment (st_entries st') \<or> es = st_entries st'"
      using es a by (auto simp: covered_def all_entries_def)
    moreover have "max_parse_errors P > 0 \<longrightarrow> int (length (filter is_junk (st_entries st'))) \<le> max_parse_errors P"
      "pos (st_cursor st) = length s \<or>
       max_parse_errors P > 0 \<and> int (length (filter is_junk (st_entries st'))) = max_parse_errors P"
      using st junk by (auto simp: finished_def below_limit_def at_limit_def)
    moreover have "list_all (wf_entry (length s)) (st_entries st')"
      "\<forall>e \<in> set (st_entries st'). nesting_entry e \<le> nat (parser_nesting_depth P)"
      using a by (auto simp: ok_at_def base_ok_def)
    ultimately show "resource_ok P s (Resource (st_entries st'))"
      unfolding resource_ok_def resource.sel by blast
  qed
qed (use initial_state_ok in auto)

text \<open>The loop always ends with a state: its branches have no \<open>return None\<close>.\<close>

lemma yields_acc_finalize [yields_rule]: "yields (acc_finalize acc)"
  by (auto simp: acc_finalize_def Let_def intro!: yields_rule split: option.split)

lemma yields_flush_pending [yields_rule]: "yields (flush_pending st)"
  by (auto simp: flush_pending_def intro!: yields_rule split: option.split)

lemma yields_add_junk [yields_rule]: "yields (add_junk P st c a b code msg resume)"
  by (auto simp: add_junk_def Let_def intro!: yields_rule)

lemma yields_accept_comment [yields_rule]: "yields (accept_comment st p cm c)"
  by (auto simp: accept_comment_def Let_def intro!: yields_rule split: option.split)

lemma yields_take_pending [yields_rule]: "yields (take_pending st c)"
  by (auto simp: take_pending_def Let_def intro!: yields_rule split: option.split)

lemma yields_attach [yields_rule]: "yields (attach att e)"
  by (auto simp: attach_def intro!: yields_rule split: option.split entry.split)

lemma yields_entry_failed [yields_rule]: "yields (entry_failed P st att c)"
  unfolding entry_failed_def Let_def
  by (intro yields_rule) (simp add: yields_def was_depth_exceeded_def)

lemma yields_step_entry [yields_rule]: "yields (step_entry P ctx st c)"
  by (auto simp: step_entry_def entry_parsed_def Let_def intro!: yields_rule split: option.split prod.split)

lemma yields_parse_step [yields_rule]: "yields (parse_step P ctx st)"
  by (auto simp: parse_step_def step_indented_def step_comment_def Let_def intro!: yields_rule
      split: option.split prod.split)

lemma yields_parse_loop [yields_rule]: "yields (parse_loop P ctx n st)"
  by (induction n arbitrary: st) (auto intro!: yields_rule split: control.split)

lemma yields_parse_normalized: "yields (parse_normalized P s)"
  unfolding parse_normalized_def by (intro yields_rule)

lemma parse_cases:
  obtains (too_large) "max_source_size P > 0" "int (length s) > max_source_size P" "parse P s = Raises ValueError"
  | (parsed) r where "\<not> (max_source_size P > 0 \<and> int (length s) > max_source_size P)"
      "parse P s = Returns r" "resource_ok P (normalize_newlines s) r"
proof (cases "max_source_size P > 0 \<and> int (length s) > max_source_size P")
  case True
  then show ?thesis by (intro too_large) (auto simp: parse_def)
next
  case False
  obtain r flag' where "parse_normalized P (normalize_newlines s) False = (Returns r, flag')"
    "resource_ok P (normalize_newlines s) r"
    by (rule safe_yields [OF parse_normalized_safe yields_parse_normalized])
  with False show ?thesis by (intro parsed) (auto simp: parse_def)
qed

end
