(* ===== verification/Parser_Properties.thy ===== *)
theory Parser_Properties
  imports Parser_Safety
begin

text \<open>The properties of the parser as a whole, and what concrete sources show about it.\<close>

section \<open>Every source\<close>

text \<open>C1: \<open>parse\<close> always returns: a resource, or the one \<open>ValueError\<close> of the size limit;
  no other exception escapes, no loop fails to end, no \<open>None\<close> is returned.\<close>

theorem parse_returns:
  "\<exists>r. parse P s = (if max_source_size P > 0 \<and> int (length s) > max_source_size P
                    then Raises ValueError else Returns r)"
  by (cases rule: parse_cases [of P s]) auto

text \<open>C3: every entry of the result is well-formed: identifiers of the grammar, spans inside
  the source, one default variant, literal named arguments with distinct names.\<close>

theorem parse_well_formed:
  "case parse P s of
     Returns r \<Rightarrow> list_all (wf_entry (length (normalize_newlines s))) (entries r)
   | e \<Rightarrow> e = Raises ValueError"
  by (cases rule: parse_cases [of P s]) (auto simp: resource_ok_def)

text \<open>C4: no entry is nested deeper than the parser's limit.\<close>

theorem parse_nesting_bounded:
  "case parse P s of
     Returns r \<Rightarrow> list_all (\<lambda>e. nesting_entry e \<le> nat (parser_nesting_depth P)) (entries r)
   | e \<Rightarrow> e = Raises ValueError"
  by (cases rule: parse_cases [of P s]) (auto simp: resource_ok_def list_all_iff)

text \<open>C2: the entries account for the source: some order of them covers it from the start, with
  only spaces and line feeds between them, up to the end or to where the junk limit stopped
  the parse; the order is the one returned unless a malformed comment became junk.\<close>

theorem parse_covers_source:
  "case parse P s of
     Returns r \<Rightarrow>
       (\<exists>es p. mset es = mset (entries r) \<and> tiles (normalize_newlines s) 0 es p \<and>
          (list_ex malformed_comment (entries r) \<or> es = entries r) \<and>
          (p = length (normalize_newlines s) \<or>
           max_parse_errors P > 0 \<and> int (length (filter is_junk (entries r))) = max_parse_errors P))
   | e \<Rightarrow> e = Raises ValueError"
  by (cases rule: parse_cases [of P s]) (auto simp: resource_ok_def)

text \<open>With a limit set, the result has at most that many junk entries.\<close>

theorem parse_junk_limited:
  assumes "max_parse_errors P > 0" "parse P s = Returns r"
  shows "int (length (filter is_junk (entries r))) \<le> max_parse_errors P"
  using assms by (cases rule: parse_cases [of P s]) (auto simp: resource_ok_def)

section \<open>Examples\<close>

definition small_parser :: fluent_parser where
  "small_parser = \<lparr>max_source_size = 1000, max_parse_errors = 2, parser_nesting_depth = 3\<rparr>"

theorem parse_junk_limited_witness:
  "parse small_parser (u ''?'' @ [CH_LF] @ u ''a = b'') =
     Returns (Resource [
       Junk (u ''?'' @ [CH_LF]) [Annotation (u ''PARSE_JUNK'') (u ''Parse error'') None (Some (Span 0 0))]
         (Some (Span 0 2)),
       Message (Identifier (u ''a'') (Some (Span 2 3)))
         (Some (Pattern [TextElement (u ''b'') None] None)) [] None (Some (Span 2 7))])
   \<and> int (length (filter is_junk (entries (Resource [
       Junk (u ''?'' @ [CH_LF]) [Annotation (u ''PARSE_JUNK'') (u ''Parse error'') None (Some (Span 0 0))]
         (Some (Span 0 2)),
       Message (Identifier (u ''a'') (Some (Span 2 3)))
         (Some (Pattern [TextElement (u ''b'') None] None)) [] None (Some (Span 2 7))])))) \<le> 2"
proof -
  have "parse small_parser (u ''?'' @ [CH_LF] @ u ''a = b'') =
     Returns (Resource [
       Junk (u ''?'' @ [CH_LF]) [Annotation (u ''PARSE_JUNK'') (u ''Parse error'') None (Some (Span 0 0))]
         (Some (Span 0 2)),
       Message (Identifier (u ''a'') (Some (Span 2 3)))
         (Some (Pattern [TextElement (u ''b'') None] None)) [] None (Some (Span 2 7))])"
    by code_simp
  from this parse_junk_limited [OF _ this] show ?thesis by (simp add: small_parser_def)
qed

text \<open>
  A malformed comment overtakes the comment that waits before it: the source has the
  comment at \<open>0\<close> and the junk at \<open>4\<close>, the result the junk first.
\<close>

theorem malformed_comment_overtakes:
  "parse small_parser (u ''# a'' @ [CH_LF] @ u ''#### b'' @ [CH_LF]) =
     Returns (Resource [
       Junk (u ''#### b'')
         [Annotation (u ''PARSE_JUNK'') (u ''Invalid comment syntax (too many # characters or malformed)'') None
            (Some (Span 4 10))]
         (Some (Span 4 10)),
       CommentEntry (Comment (u ''a'') COMMENT (Some (Span 0 4)))])"
  by code_simp

text \<open>
  The depth flag of a parse is never reset: after one nesting failure an unrelated syntax
  error is reported as a nesting failure too.
\<close>

theorem nesting_flag_is_sticky:
  "parse small_parser (u ''a = {{{{1}}}}'' @ [CH_LF] @ u ''b ?'' @ [CH_LF]) =
     Returns (Resource [
       Junk (u ''a = {{{{1}}}}'' @ [CH_LF])
         [Annotation (u ''PARSE_NESTING_DEPTH_EXCEEDED'') (u ''Nesting depth limit exceeded (max: 3)'') None
            (Some (Span 0 0))]
         (Some (Span 0 14)),
       Junk (u ''b ?'' @ [CH_LF])
         [Annotation (u ''PARSE_NESTING_DEPTH_EXCEEDED'') (u ''Nesting depth limit exceeded (max: 3)'') None
            (Some (Span 14 14))]
         (Some (Span 14 18))])"
  by code_simp

text \<open>Nested calls that exceed the limit do not set the flag: the failure is a plain parse error.\<close>

theorem call_nesting_not_reported:
  "parse small_parser (u ''a = {F(F(F(1)))}'') =
     Returns (Resource [
       Junk (u ''a = {F(F(F(1)))}'')
         [Annotation (u ''PARSE_JUNK'') (u ''Parse error'') None (Some (Span 0 0))] (Some (Span 0 16))])"
  by code_simp

text \<open>The comma between arguments is optional.\<close>

theorem call_comma_optional:
  "parse small_parser (u ''a = {F(1 2)}'') =
     Returns (Resource [
       Message (Identifier (u ''a'') (Some (Span 0 1)))
         (Some (Pattern [PlaceableElement (Placeable
            (FunctionReference (Identifier (u ''F'') (Some (Span 5 6)))
               (CallArguments [NumberLiteral (IntValue 1) (u ''1'') None, NumberLiteral (IntValue 2) (u ''2'') None]
                  [] None)
               (Some (Span 5 11))) None)] None))
         [] None (Some (Span 0 12))])"
  by code_simp

text \<open>An attribute reference before a colon is taken as the argument name, without its attribute.\<close>

theorem named_argument_drops_attribute:
  "parse small_parser (u ''a = {F(b.c: 2)}'') =
     Returns (Resource [
       Message (Identifier (u ''a'') (Some (Span 0 1)))
         (Some (Pattern [PlaceableElement (Placeable
            (FunctionReference (Identifier (u ''F'') (Some (Span 5 6)))
               (CallArguments []
                  [NamedArgument (Identifier (u ''b'') (Some (Span 7 8))) (NumberLiteral (IntValue 2) (u ''2'') None) None]
                  None)
               (Some (Span 5 14))) None)] None))
         [] None (Some (Span 0 15))])"
  by code_simp

end
