(* ===== verification/Serializer_Properties.thy ===== *)
theory Serializer_Properties
  imports Serializer Parser_Properties
begin

text \<open>
  When the serializer fails, and that it does not fail on what the parser returns: the depth
  it needs against the nesting the parser counts, and the validation of well-formed trees.
\<close>

section \<open>Sequencing\<close>

lemma cat_Inr_iff: "cat a b = Inr r \<longleftrightarrow> (\<exists>s t. a = Inr s \<and> b = Inr t \<and> r = s @ t)"
  by (auto simp: cat_def split: sum.splits)

lemma emit_Inr_iff [simp]: "emit s = Inr r \<longleftrightarrow> r = s"
  by (auto simp: emit_def)

lemma with_guard_Inr_iff: "with_guard L d x = Inr r \<longleftrightarrow> d < L \<and> x = Inr r"
  by (simp add: with_guard_def)

lemmas emission_Inr = cat_Inr_iff with_guard_Inr_iff

lemma both_None_iff [simp]: "both a b = None \<longleftrightarrow> a = None \<and> b = None"
  by (auto simp: both_def split: option.splits)

lemma require_None_iff [simp]: "require b = None \<longleftrightarrow> b"
  by (simp add: require_def)

section \<open>The depth the serializer needs\<close>

text \<open>The levels of the depth guard around the innermost node.\<close>

fun print_depth :: "expression \<Rightarrow> nat"
and print_depth_args :: "call_arguments \<Rightarrow> nat"
and print_depth_named :: "named_argument \<Rightarrow> nat"
and print_depth_variant :: "variant \<Rightarrow> nat"
and print_depth_pattern :: "pattern \<Rightarrow> nat"
and print_depth_element :: "pattern_element \<Rightarrow> nat" where
  "print_depth (StringLiteral v sp) = 0"
| "print_depth (NumberLiteral v raw sp) = 0"
| "print_depth (VariableReference i sp) = 0"
| "print_depth (MessageReference i a sp) = 0"
| "print_depth (TermReference i a None sp) = 0"
| "print_depth (TermReference i a (Some args) sp) = print_depth_args args"
| "print_depth (FunctionReference i args sp) = print_depth_args args"
| "print_depth (NestedPlaceable (Placeable e sp)) = Suc (print_depth e)"
| "print_depth (SelectExpression sel vs sp) =
     max (Suc (print_depth sel)) (max_list (map print_depth_variant vs))"
| "print_depth_args (CallArguments ps ns sp) =
     max (max_list (map (\<lambda>e. Suc (print_depth e)) ps)) (max_list (map print_depth_named ns))"
| "print_depth_named (NamedArgument i e sp) = Suc (print_depth e)"
| "print_depth_variant (Variant k p starred sp) = print_depth_pattern p"
| "print_depth_pattern (Pattern es sp) = max_list (map print_depth_element es)"
| "print_depth_element (TextElement v sp) = 0"
| "print_depth_element (PlaceableElement (Placeable e sp)) = Suc (print_depth e)"

definition fits :: "int \<Rightarrow> int \<Rightarrow> nat \<Rightarrow> bool" where
  "fits L d n \<longleftrightarrow> n = 0 \<or> d + int n \<le> L"

lemma fits_0 [simp]: "fits L d 0"
  by (simp add: fits_def)

lemma fits_max [simp]: "fits L d (max m n) \<longleftrightarrow> fits L d m \<and> fits L d n"
  by (auto simp: fits_def max_def)

lemma fits_mono: "fits L d n \<Longrightarrow> m \<le> n \<Longrightarrow> fits L d m"
  by (auto simp: fits_def)

lemma max_list_Nil [simp]: "max_list [] = 0"
  by (simp add: max_list_def)

lemma max_list_Cons [simp]: "max_list (x # xs) = max x (max_list xs)"
  by (simp add: max_list_def)

text \<open>The emission succeeds exactly when \<open>b\<close> holds, and otherwise fails for its depth.\<close>

definition succeeds_iff :: "bool \<Rightarrow> emission \<Rightarrow> bool" where
  "succeeds_iff b x = (if b then (\<exists>s. x = Inr s) else x = Inl DepthLimitExceededError)"

lemma succeeds_emit [simp]: "succeeds_iff True (emit s)"
  by (simp add: succeeds_iff_def)

lemma succeeds_cat: "succeeds_iff a x \<Longrightarrow> succeeds_iff b y \<Longrightarrow> succeeds_iff (a \<and> b) (cat x y)"
  by (auto simp: succeeds_iff_def cat_def split: if_splits)

lemma succeeds_cat_emit: "succeeds_iff a x \<Longrightarrow> succeeds_iff a (cat x (emit s))"
  by (auto simp: succeeds_iff_def cat_def emit_def split: if_splits)

lemma succeeds_emit_cat: "succeeds_iff a x \<Longrightarrow> succeeds_iff a (cat (emit s) x)"
  by (auto simp: succeeds_iff_def cat_def emit_def split: if_splits)

lemma succeeds_guard: "succeeds_iff (fits L (d + 1) n) x \<Longrightarrow> succeeds_iff (fits L d (Suc n)) (with_guard L d x)"
  by (auto simp: succeeds_iff_def with_guard_def fits_def split: if_splits)

lemmas succeeds_rules = succeeds_emit_cat succeeds_cat_emit succeeds_cat succeeds_guard

lemma serialize_depth_exact:
  shows "succeeds_iff (fits L d (print_depth e)) (serialize_expression L d e)"
    and "succeeds_iff (fits L d (print_depth_args args)) (serialize_call_arguments L d args)"
    and "succeeds_iff (fits L d (max_list (map (\<lambda>e. Suc (print_depth e)) ps))) (serialize_positional L d written ps)"
    and "succeeds_iff (fits L d (max_list (map print_depth_named ns))) (serialize_named L d written ns)"
    and "succeeds_iff (fits L d (max_list (map print_depth_variant vs))) (serialize_variants L d vs)"
    and "succeeds_iff (fits L d (print_depth_pattern p)) (serialize_pattern L d p)"
    and "succeeds_iff (fits L d (max_list (map print_depth_element es))) (serialize_elements L d ws at_start es)"
  by (induction L d e and L d args and L d written ps and L d written ns and L d vs and L d p and L d ws at_start es
      rule: serialize_expression_serialize_call_arguments_serialize_positional_serialize_named_serialize_variants_serialize_pattern_serialize_elements.induct)
    (auto intro!: succeeds_rules split: prod.split)


definition print_depth_attributes :: "attribute list \<Rightarrow> nat" where
  "print_depth_attributes ats = max_list (map (\<lambda>a. print_depth_pattern (attr_value a)) ats)"

fun print_depth_entry :: "entry \<Rightarrow> nat" where
  "print_depth_entry (Message i v ats cm sp) =
     max (case v of None \<Rightarrow> 0 | Some p \<Rightarrow> print_depth_pattern p) (print_depth_attributes ats)"
| "print_depth_entry (Term i v ats cm sp) = max (print_depth_pattern v) (print_depth_attributes ats)"
| "print_depth_entry (CommentEntry cm) = 0"
| "print_depth_entry (Junk ct ans sp) = 0"

lemma serialize_attribute_depth:
  "succeeds_iff (fits L 0 (print_depth_pattern (attr_value a))) (serialize_attribute L a)"
  by (cases a) (auto intro!: succeeds_rules serialize_depth_exact)

lemma serialize_attributes_depth:
  "succeeds_iff (fits L 0 (print_depth_attributes ats)) (serialize_attributes L ats)"
  by (induction ats)
    (auto simp: print_depth_attributes_def intro!: succeeds_rules serialize_attribute_depth)

lemma serialize_entry_depth: "succeeds_iff (fits L 0 (print_depth_entry e)) (serialize_entry L e)"
  by (cases e)
    (auto intro!: succeeds_rules serialize_depth_exact serialize_attributes_depth split: option.split)

lemma serialize_entries_depth:
  "succeeds_iff (fits L 0 (max_list (map print_depth_entry es))) (serialize_entries L prev es)"
  by (induction es arbitrary: prev) (auto intro!: succeeds_rules serialize_entry_depth)

definition print_depth_resource :: "resource \<Rightarrow> nat" where
  "print_depth_resource r = max_list (map print_depth_entry (entries r))"

section \<open>The nesting the parser counts\<close>

text \<open>A select expression costs the serializer and the validator a level the parser does not count.\<close>

definition guard_levels :: "expression \<Rightarrow> nat" where
  "guard_levels e = 2 * nesting_expr e + (case e of SelectExpression sel vs sp \<Rightarrow> 1 | _ \<Rightarrow> 0)"

lemma guard_levels_le: "guard_levels e \<le> Suc (2 * nesting_expr e)"
  by (simp add: guard_levels_def split: expression.split)

lemma guard_levels_selector: "is_selector e \<Longrightarrow> guard_levels e = 2 * nesting_expr e"
  by (cases e) (simp_all add: guard_levels_def)

lemma guard_levels_other [simp]:
  "guard_levels (StringLiteral v sp) = 0" "guard_levels (NumberLiteral n raw sp) = 0"
  "guard_levels (VariableReference i sp) = 0" "guard_levels (MessageReference i a sp) = 0"
  "guard_levels (TermReference i a None sp) = 0"
  "guard_levels (TermReference i a (Some args) sp) = 2 * Suc (nesting_args args)"
  "guard_levels (FunctionReference i args sp) = 2 * Suc (nesting_args args)"
  "guard_levels (NestedPlaceable (Placeable e sp)) = 2 * Suc (nesting_expr e)"
  "guard_levels (SelectExpression sel vs sp) =
     Suc (max (2 * nesting_expr sel) (2 * max_list (map nesting_variant vs)))"
  by (simp_all add: guard_levels_def nat_mult_max_right)

lemma max_list_mem: "x \<in> set xs \<Longrightarrow> x \<le> max_list xs"
  using max_list_le_iff [of xs "max_list xs"] by blast

lemma max_list_double:
  assumes "\<And>x. x \<in> set xs \<Longrightarrow> f x \<le> 2 * g x"
  shows "max_list (map f xs) \<le> 2 * max_list (map g xs)"
  unfolding max_list_le_iff
proof
  fix y assume "y \<in> set (map f xs)"
  then obtain x where x: "x \<in> set xs" "y = f x" by auto
  then have "g x \<le> max_list (map g xs)" by (intro max_list_mem) simp
  with assms [OF x(1)] x(2) show "y \<le> 2 * max_list (map g xs)" by simp
qed

lemma max_list_double_Suc:
  assumes "\<And>x. x \<in> set xs \<Longrightarrow> f x \<le> 2 * Suc (g x)"
  shows "max_list (map f xs) \<le> 2 * Suc (max_list (map g xs))"
  unfolding max_list_le_iff
proof
  fix y assume "y \<in> set (map f xs)"
  then obtain x where x: "x \<in> set xs" "y = f x" by auto
  then have "g x \<le> max_list (map g xs)" by (intro max_list_mem) simp
  with assms [OF x(1)] x(2) show "y \<le> 2 * Suc (max_list (map g xs))" by simp
qed

lemma print_depth_nesting:
  shows "wf_expr n e \<Longrightarrow> print_depth e \<le> guard_levels e"
    and "wf_args n args \<Longrightarrow> print_depth_args args \<le> 2 * Suc (nesting_args args)"
    and "wf_named n na \<Longrightarrow> print_depth_named na \<le> 2 * Suc (nesting_named na)"
    and "wf_variant n v \<Longrightarrow> print_depth_variant v \<le> 2 * nesting_variant v"
    and "wf_pattern n p \<Longrightarrow> print_depth_pattern p \<le> 2 * nesting_pattern p"
    and "wf_element n el \<Longrightarrow> print_depth_element el \<le> 2 * nesting_element el"
proof (induction e and args and na and v and p and el
    rule: print_depth_print_depth_args_print_depth_named_print_depth_variant_print_depth_pattern_print_depth_element.induct)
  case (8 e sp)
  then show ?case using guard_levels_le [of e] by simp
next
  case (9 sel vs sp)
  then have "print_depth sel \<le> 2 * nesting_expr sel" by (simp add: guard_levels_selector)
  moreover have "max_list (map print_depth_variant vs) \<le> 2 * max_list (map nesting_variant vs)"
    using 9 by (intro max_list_double) (simp add: list_all_iff)
  ultimately show ?case by auto
next
  case (10 ps ns sp)
  have "Suc (print_depth e) \<le> 2 * Suc (nesting_expr e)" if "e \<in> set ps" for e
    using that 10 guard_levels_le [of e] by (force simp: list_all_iff)
  then have "max_list (map (\<lambda>e. Suc (print_depth e)) ps) \<le> 2 * Suc (max_list (map nesting_expr ps))"
    by (rule max_list_double_Suc)
  moreover have "max_list (map print_depth_named ns) \<le> 2 * Suc (max_list (map nesting_named ns))"
    using 10 by (intro max_list_double_Suc) (simp add: list_all_iff)
  ultimately show ?case by (simp add: max_def)
next
  case (11 i e sp)
  then show ?case using guard_levels_le [of e] by simp
next
  case (13 es sp)
  then show ?case by (auto intro!: max_list_double simp: list_all_iff)
next
  case (15 e sp)
  then show ?case using guard_levels_le [of e] by simp
qed simp_all


section \<open>Validation of well-formed trees\<close>

lemma validate_identifier_ok: "identifier_ok n i \<Longrightarrow> validate_identifier i = None"
  by (cases i) (simp add: validate_identifier_def is_valid_identifier_cases)

lemma validate_optional_identifier_ok:
  "pred_option (identifier_ok n) a \<Longrightarrow> validate_optional_identifier a = None"
  by (cases a) (simp_all add: validate_optional_identifier_def validate_identifier_ok)

lemma validate_key_ok: "key_ok n k \<Longrightarrow> validate_key k = None"
  by (cases k) (simp_all add: validate_identifier_ok)

lemma validate_named_ok:
  "list_all (wf_named n) ns \<Longrightarrow> distinct (map named_name ns) \<Longrightarrow>
     seen_names \<inter> set (map named_name ns) = {} \<Longrightarrow> validate_named seen_names ns = None"
proof (induction ns arbitrary: seen_names)
  case (Cons na ns)
  then show ?case
    by (cases na) (auto simp: validate_identifier_ok named_argument_value_is_literal_def)
qed simp

lemma guard_check_ok:
  assumes "fits L d (Suc m)" "fits L (d + 1) m \<Longrightarrow> r = None"
  shows "guard_check L d r = None"
  using assms by (auto simp: guard_check_def fits_def)

lemma fits_Suc: "fits L d (Suc m) \<Longrightarrow> fits L (d + 1) m"
  by (auto simp: fits_def)

lemma guard_check_expression:
  assumes "fits L d (Suc (Suc (2 * nesting_expr e)))" "fits L (d + 1) (guard_levels e) \<Longrightarrow> r = None"
  shows "guard_check L d r = None"
proof (rule guard_check_ok [OF assms(1)])
  assume "fits L (d + 1) (Suc (2 * nesting_expr e))"
  then show "r = None" using assms(2) fits_mono [OF _ guard_levels_le] by blast
qed

lemma fits_double_max [simp]:
  "fits L d (2 * max m n) \<longleftrightarrow> fits L d (2 * m) \<and> fits L d (2 * n)"
  "fits L d (Suc (2 * max m n)) \<longleftrightarrow> fits L d (Suc (2 * m)) \<and> fits L d (Suc (2 * n))"
  "fits L d (Suc (Suc (2 * max m n))) \<longleftrightarrow> fits L d (Suc (Suc (2 * m))) \<and> fits L d (Suc (Suc (2 * n)))"
  by (auto simp: fits_def max_def)

lemma validate_ok:
  shows "wf_expr n e \<Longrightarrow> fits L d (guard_levels e) \<Longrightarrow> validate_expression L d e = None"
    and "wf_args n args \<Longrightarrow> fits L d (2 * Suc (nesting_args args)) \<Longrightarrow> validate_call_arguments L d args = None"
    and "list_all (wf_expr n) ps \<Longrightarrow> fits L d (2 * Suc (max_list (map nesting_expr ps))) \<Longrightarrow>
           validate_positional L d ps = None"
    and "list_all (wf_variant n) vs \<Longrightarrow> fits L d (Suc (2 * max_list (map nesting_variant vs))) \<Longrightarrow>
           validate_variants L d vs = None"
    and "wf_pattern n p \<Longrightarrow> fits L d (2 * nesting_pattern p) \<Longrightarrow> validate_pattern L d p = None"
    and "list_all (wf_element n) es \<Longrightarrow> fits L d (2 * max_list (map nesting_element es)) \<Longrightarrow>
           validate_elements L d es = None"
proof (induction L d e and L d args and L d ps and L d vs and L d p and L d es
    rule: validate_expression_validate_call_arguments_validate_positional_validate_variants_validate_pattern_validate_elements.induct)
  case (8 L d e sp)
  then show ?case
    by (auto intro!: guard_check_expression)
next
  case (9 L d sel vs sp)
  then show ?case
    by (auto simp: require_single_default_variant_def count_default_variants_def guard_levels_selector
        simp flip: nat_mult_max_right intro!: guard_check_ok [where m = "2 * nesting_expr sel"])
next
  case (12 L d e es)
  then show ?case by (auto intro!: guard_check_expression)
next
  case (18 L d e sp es)
  then show ?case by (auto intro!: guard_check_expression)
qed (auto simp: validate_identifier_ok validate_optional_identifier_ok validate_named_ok validate_key_ok
    intro!: guard_check_ok)


lemma validate_attributes_ok:
  "list_all (wf_attribute n) ats \<Longrightarrow>
     fits L 0 (2 * max_list (map (\<lambda>a. nesting_pattern (attr_value a)) ats)) \<Longrightarrow> validate_attributes L ats = None"
proof (induction ats)
  case (Cons a ats)
  then show ?case by (cases a) (auto intro: validate_ok validate_identifier_ok)
qed simp

lemma validate_entry_ok:
  assumes "wf_entry n e" "fits L 0 (2 * nesting_entry e)"
  shows "validate_entry L e = None"
  using assms
  by (cases e) (auto intro: validate_ok validate_identifier_ok validate_attributes_ok split: option.split)

lemma print_depth_attributes_nesting:
  "list_all (wf_attribute n) ats \<Longrightarrow>
     print_depth_attributes ats \<le> 2 * max_list (map (\<lambda>a. nesting_pattern (attr_value a)) ats)"
  unfolding print_depth_attributes_def
proof (rule max_list_double)
  fix a assume "list_all (wf_attribute n) ats" "a \<in> set ats"
  then have "wf_attribute n a" by (simp add: list_all_iff)
  then show "print_depth_pattern (attr_value a) \<le> 2 * nesting_pattern (attr_value a)"
    by (cases a) (auto intro: print_depth_nesting)
qed

lemma print_depth_entry_nesting: "wf_entry n e \<Longrightarrow> print_depth_entry e \<le> 2 * nesting_entry e"
  using print_depth_nesting(5) print_depth_attributes_nesting
  by (cases e) (fastforce simp: nat_mult_max_right le_max_iff_disj split: option.split)+

lemma validate_entries_ok:
  "list_all (wf_entry n) es \<Longrightarrow> list_all (\<lambda>e. fits L 0 (2 * nesting_entry e)) es \<Longrightarrow> validate_entries L es = None"
  by (induction es) (auto intro: validate_entry_ok)

section \<open>The serializer as a whole\<close>

text \<open>C25: without validation the serializer returns a text exactly when the guard levels of the tree fit the
  clamped limit, and otherwise raises its depth error.\<close>

theorem serialize_total:
  "if print_depth_resource r = 0 \<or> int (print_depth_resource r) \<le> depth_clamp recursion_limit max_depth
   then \<exists>s. serialize recursion_limit r False max_depth = Inr s
   else serialize recursion_limit r False max_depth = Inl SerializationDepthError"
  using serialize_entries_depth [of "depth_clamp recursion_limit max_depth" "entries r" None]
  by (auto simp: serialize_def as_depth_error_def print_depth_resource_def succeeds_iff_def fits_def)

text \<open>C24: whatever the parser returns can be serialized, validation included, when the serializer's limit is
  twice the nesting limit of the parser: a select expression takes two levels of the guard.\<close>

theorem serialize_parsed:
  assumes "parse P s = Returns r"
    and "2 * int (nat (parser_nesting_depth P)) \<le> depth_clamp recursion_limit max_depth"
  shows "\<exists>txt. serialize recursion_limit r validate max_depth = Inr txt"
proof -
  let ?L = "depth_clamp recursion_limit max_depth" and ?n = "length (normalize_newlines s)"
  have wf: "list_all (wf_entry ?n) (entries r)"
    using assms(1) by (cases rule: parse_cases [of P s]) (auto simp: resource_ok_def)
  have deep: "list_all (\<lambda>e. nesting_entry e \<le> nat (parser_nesting_depth P)) (entries r)"
    using assms(1) by (cases rule: parse_cases [of P s]) (auto simp: resource_ok_def list_all_iff)
  have fit: "fits ?L 0 (2 * nesting_entry e)" if "e \<in> set (entries r)" for e
  proof -
    have "nesting_entry e \<le> nat (parser_nesting_depth P)"
      using that deep by (simp add: list_all_iff)
    with assms(2) show ?thesis by (cases "0 \<le> parser_nesting_depth P") (auto simp: fits_def)
  qed
  then have v: "validate_entries ?L (entries r) = None"
    using wf by (intro validate_entries_ok) (auto simp: list_all_iff)
  have "fits ?L 0 (print_depth_resource r)"
  proof (rule ccontr)
    assume no: "\<not> fits ?L 0 (print_depth_resource r)"
    then have "\<not> print_depth_resource r \<le> nat ?L" by (auto simp: fits_def)
    then obtain e where "e \<in> set (entries r)" "\<not> print_depth_entry e \<le> nat ?L"
      by (auto simp: print_depth_resource_def max_list_le_iff)
    moreover from this have "print_depth_entry e \<le> 2 * nesting_entry e"
      using wf by (auto simp: list_all_iff intro: print_depth_entry_nesting)
    ultimately show False using fit [of e] by (auto simp: fits_def)
  qed
  then show ?thesis
    using serialize_entries_depth [of ?L "entries r" None] v
    by (auto simp: serialize_def validate_resource_def succeeds_iff_def print_depth_resource_def)
qed


section \<open>Examples\<close>

definition nested_select_source :: ustr where
  "nested_select_source = u ''a = {1->*[x]{2->*[y]b}}''"

definition nested_select_resource :: resource where
  "nested_select_resource =
     Resource [Message (Identifier (u ''a'') (Some (Span 0 1)))
       (Some (Pattern [PlaceableElement (Placeable
          (SelectExpression (NumberLiteral (IntValue 1) (u ''1'') None)
             [Variant (KeyIdentifier (Identifier (u ''x'') (Some (Span 10 11))))
                (Pattern [PlaceableElement (Placeable
                   (SelectExpression (NumberLiteral (IntValue 2) (u ''2'') None)
                      [Variant (KeyIdentifier (Identifier (u ''y'') (Some (Span 18 19))))
                         (Pattern [TextElement (u ''b'') None] None) True None]
                      (Some (Span 13 21))) None)] None) True None]
             (Some (Span 5 22))) None)] None))
       [] None (Some (Span 0 23))]"

lemma parse_nested_select: "parse small_parser nested_select_source = Returns nested_select_resource"
  by code_simp

theorem serialize_parsed_witness:
  "parse small_parser nested_select_source = Returns nested_select_resource \<and>
   (\<exists>txt. serialize 1000 nested_select_resource True 6 = Inr txt)"
  using serialize_parsed [OF parse_nested_select, of 1000 6 True] parse_nested_select
  by (simp add: small_parser_def depth_clamp_def)

text \<open>
  C1: with equal limits a parsed resource can be refused: two nested select expressions are within a
  nesting limit of 3 for the parser, and beyond a depth limit of 3 for the validation.
\<close>

theorem equal_limits_refuse:
  "parse small_parser nested_select_source = Returns nested_select_resource \<and>
   parser_nesting_depth small_parser = 3 \<and>
   serialize 1000 nested_select_resource True 3 = Inl SerializationDepthError"
  using parse_nested_select by (simp add: small_parser_def, code_simp)

text \<open>
  A message without a value, which \<open>Message\<close> and the validation allow, is written without the
  equals sign, and the text is not a message for the parser.
\<close>

definition valueless_message :: resource where
  "valueless_message =
     Resource [Message (Identifier (u ''a'') None) None
       [Attribute (Identifier (u ''b'') None) (Pattern [TextElement (u ''c'') None] None) None] None None]"

definition valueless_text :: ustr where
  "valueless_text = u ''a'' @ [CH_LF] @ u ''    .b = c'' @ [CH_LF]"

theorem valueless_message_lost:
  "serialize 1000 valueless_message True 100 = Inr valueless_text \<and>
   (case parse small_parser valueless_text of
      Returns r \<Rightarrow> list_all is_junk (entries r)
    | _ \<Rightarrow> False)"
  by code_simp

end
