(* ===== verification/Token_Text.thy ===== *)
theory Token_Text
  imports Serializer_Properties
begin

text \<open>
  What the lexical parsers do on text that is known: the cursor between a prefix and the rest
  of the source, and the tokens the serializer writes, read back.
\<close>

section \<open>A cursor in known text\<close>

definition at_text :: "ustr \<Rightarrow> ustr \<Rightarrow> cursor" where
  "at_text pre rest = \<lparr>source = pre @ rest, pos = length pre\<rparr>"

text \<open>The rest does not go on with a character of \<open>P\<close>.\<close>

definition stops :: "(uchar \<Rightarrow> bool) \<Rightarrow> ustr \<Rightarrow> bool" where
  "stops P rest \<longleftrightarrow> (case rest of [] \<Rightarrow> True | ch # _ \<Rightarrow> \<not> P ch)"

lemma stops_simps [simp]: "stops P []" "stops P (ch # rest) \<longleftrightarrow> \<not> P ch"
  by (simp_all add: stops_def)

lemma at_text_fields [simp]:
  "source (at_text pre rest) = pre @ rest" "pos (at_text pre rest) = length pre"
  "remaining (at_text pre rest) = length rest" "is_eof (at_text pre rest) \<longleftrightarrow> rest = []"
  by (auto simp: at_text_def remaining_def is_eof_def)

lemma wf_at_text [simp]: "wf_cursor (at_text pre rest)"
  by (simp add: wf_cursor_def)

lemma cur_at_text [simp]:
  "cur (at_text pre []) = None" "cur (at_text pre (ch # rest)) = Some ch"
  by (simp_all add: cur_def)

lemma current_at_text [simp]: "Cursor.current (at_text pre (ch # rest)) = Inr ch"
  by (simp add: Cursor.current_def)

lemma adv_at_text [simp]: "adv (at_text pre (ch # rest)) = at_text (pre @ [ch]) rest"
  by (simp add: at_text_def adv_def adv_by_def)

lemma adv_while_at_text:
  "list_all P w \<Longrightarrow> stops P rest \<Longrightarrow> adv_while P (at_text pre (w @ rest)) = at_text (pre @ w) rest"
proof (induction w arbitrary: pre)
  case Nil
  then show ?case by (subst adv_while_unfold) (cases rest, simp_all)
next
  case (Cons ch w)
  then show ?case by (subst adv_while_unfold) simp
qed

lemma skip_spaces_adv_while: "skip_spaces c = adv_while (\<lambda>ch. ch = CH_SPACE) c"
  by (simp add: skip_spaces_def adv_while_def Let_def)

lemma skip_blank_adv_while: "skip_blank c = adv_while (\<lambda>ch. ch = CH_SPACE \<or> ch = CH_LF) c"
  by (simp add: skip_blank_def skip_whitespace_def adv_while_def Let_def)

lemma adv_while_step [simp]:
  "adv_while P (at_text pre []) = at_text pre []"
  "adv_while P (at_text pre (ch # rest)) = (if P ch then adv_while P (at_text (pre @ [ch]) rest) else at_text pre (ch # rest))"
  by (simp_all add: adv_while_unfold [of P "at_text pre []"] adv_while_unfold [of P "at_text pre (ch # rest)"])

lemma skip_blank_step [simp]:
  "skip_blank (at_text pre []) = at_text pre []"
  "skip_blank (at_text pre (ch # rest)) =
     (if ch = CH_SPACE \<or> ch = CH_LF then skip_blank (at_text (pre @ [ch]) rest) else at_text pre (ch # rest))"
  by (simp_all add: skip_blank_adv_while)

lemma skip_spaces_step [simp]:
  "skip_spaces (at_text pre []) = at_text pre []"
  "skip_spaces (at_text pre (ch # rest)) =
     (if ch = CH_SPACE then skip_spaces (at_text (pre @ [ch]) rest) else at_text pre (ch # rest))"
  by (simp_all add: skip_spaces_adv_while)

lemma skip_blank_inline_step [simp]:
  "skip_blank_inline (at_text pre []) = at_text pre []"
  "skip_blank_inline (at_text pre (ch # rest)) =
     (if ch = CH_SPACE then skip_blank_inline (at_text (pre @ [ch]) rest) else at_text pre (ch # rest))"
  by (simp_all add: skip_blank_inline_def)

lemma str_slice_at_text: "str_slice (pre @ w @ rest) (length pre) (length pre + length w) = w"
  by (simp add: str_slice_def)

lemma scan_while_at_text:
  assumes "list_all P w" "stops P rest"
  shows "scan_while P (pre @ w @ rest) (length pre) = length pre + length w"
  using arg_cong [OF adv_while_at_text [OF assms, of pre], of pos] by (simp add: adv_while_def)

lemma at_text_move: "(at_text pre (w @ rest))\<lparr>pos := length pre + length w\<rparr> = at_text (pre @ w) rest"
  by (simp add: at_text_def)

lemma bounded_scan_at_text:
  assumes "list_all P w" "stops P rest" "w = [] \<or> length pre + length w - start \<le> limit"
  shows "bounded_scan P limit msg start (at_text pre (w @ rest)) = Inr (at_text (pre @ w) rest)"
  using assms scan_while_at_text [OF assms(1,2), of pre] at_text_move [of pre w rest]
  by (auto simp: bounded_scan_iff)

section \<open>Identifiers and numbers\<close>

lemma parse_identifier_at_text:
  assumes "grammar_identifier name" "stops is_identifier_char rest"
  shows "parse_identifier (at_text pre (name @ rest)) = Inr (name, at_text (pre @ name) rest)"
proof -
  from assms(1) obtain ch w where name: "name = ch # w" and ch: "is_identifier_start ch"
    and w: "list_all is_identifier_char w" "Suc (length w) \<le> MAX_IDENTIFIER_LENGTH"
    by (cases name) (auto simp: grammar_identifier_def)
  have "identifier_loop (length pre) (at_text (pre @ [ch]) (w @ rest)) = Inr (at_text ((pre @ [ch]) @ w) rest)"
    unfolding identifier_loop_def using w assms(2) by (intro bounded_scan_at_text) auto
  with ch show ?thesis
    using str_slice_at_text [of pre "ch # w" rest]
    by (simp add: parse_identifier_def name Let_def)
qed

lemma strip_minus_cases:
  "strip_minus s = (b, t) \<Longrightarrow> \<exists>sign. s = sign @ t \<and> (sign = [] \<or> sign = [CH_MINUS])"
  by (cases s) (auto simp: strip_minus_def split: if_splits)

lemma parse_number_value_shape:
  assumes "parse_number_value raw = Inr v"
  shows "number_shape raw"
proof -
  obtain b body where strip: "strip_minus raw = (b, body)" by force
  from strip_minus_cases [OF this] obtain sign where sign: "raw = sign @ body" "sign = [] \<or> sign = [CH_MINUS]"
    by blast
  let ?i = "takeWhile (\<lambda>ch. ch \<noteq> CH_DOT) body" and ?r = "dropWhile (\<lambda>ch. ch \<noteq> CH_DOT) body"
  show ?thesis
  proof (cases "CH_DOT \<in> set raw")
    case False
    with assms strip have "body \<noteq> [] \<and> list_all is_ascii_digit body"
      by (auto simp: parse_number_value_def py_int_def split: option.splits if_splits)
    with sign show ?thesis unfolding number_shape_def by blast
  next
    case True
    with assms strip have r: "?i \<noteq> [] \<and> list_all is_ascii_digit ?i \<and> (?r = [] \<or> (tl ?r \<noteq> [] \<and> list_all is_ascii_digit (tl ?r)))"
      by (auto simp: parse_number_value_def py_decimal_def Let_def split: option.splits if_splits)
    have "?r = [] \<or> ?r = CH_DOT # tl ?r"
      using hd_dropWhile [of "\<lambda>ch. ch \<noteq> CH_DOT" body] by (metis list.collapse)
    with r have "body = ?i \<or> (\<exists>fs. fs \<noteq> [] \<and> list_all is_ascii_digit fs \<and> body = ?i @ CH_DOT # fs)"
      using takeWhile_dropWhile_id [of "\<lambda>ch. ch \<noteq> CH_DOT" body] by (metis append_Nil2)
    with r sign show ?thesis unfolding number_shape_def by blast
  qed
qed

lemma parse_number_at_text:
  assumes "number_shape raw" "length raw \<le> MAX_NUMBER_LENGTH" "stops (\<lambda>ch. is_ascii_digit ch \<or> ch = CH_DOT) rest"
  shows "parse_number (at_text pre (raw @ rest)) = Inr (raw, at_text (pre @ raw) rest)"
proof -
  from assms(1) obtain sign ds frac where raw: "raw = sign @ ds @ frac" and sign: "sign = [] \<or> sign = [CH_MINUS]"
    and ds: "ds \<noteq> []" "list_all is_ascii_digit ds"
    and frac: "frac = [] \<or> (\<exists>fs. frac = CH_DOT # fs \<and> fs \<noteq> [] \<and> list_all is_ascii_digit fs)"
    unfolding number_shape_def by (metis append_Nil2 insert_iff empty_iff)
  obtain x xs where x: "ds = x # xs" "is_ascii_digit x" using ds by (cases ds) auto
  then have x': "x \<noteq> CH_MINUS" by (auto simp: is_ascii_digit_def)
  have start: "(if cur (at_text pre (raw @ rest)) = Some CH_MINUS then adv (at_text pre (raw @ rest))
                else at_text pre (raw @ rest)) = at_text (pre @ sign) (ds @ frac @ rest)"
    using sign x' by (auto simp: raw x)
  have "stops is_ascii_digit (frac @ rest)"
    using frac assms(3) by (cases rest) (auto simp: is_ascii_digit_def)
  then have loop: "digits_loop (length pre) (at_text (pre @ sign) (ds @ frac @ rest)) =
      Inr (at_text (pre @ sign @ ds) (frac @ rest))"
    unfolding digits_loop_def using ds assms(2) raw
    by (subst bounded_scan_at_text) auto
  show ?thesis
  proof (cases "frac = []")
    case True
    have "cur (at_text (pre @ sign @ ds) rest) \<noteq> Some CH_DOT"
      using assms(3) by (cases rest) auto
    with True loop x show ?thesis
      using str_slice_at_text [of pre raw rest]
      by (simp add: parse_number_def Let_def start at_digit_def) (simp add: raw)
  next
    case False
    with frac obtain fs where fs: "frac = CH_DOT # fs" "fs \<noteq> []" "list_all is_ascii_digit fs" by blast
    obtain f fs' where f: "fs = f # fs'" "is_ascii_digit f" using fs by (cases fs) auto
    have "stops is_ascii_digit rest" using assms(3) by (cases rest) auto
    then have "digits_loop (length pre) (at_text (pre @ sign @ ds @ [CH_DOT]) (fs @ rest)) =
        Inr (at_text (pre @ sign @ ds @ [CH_DOT] @ fs) rest)"
      unfolding digits_loop_def using fs assms(2) raw
      by (subst bounded_scan_at_text) auto
    with fs f loop x show ?thesis
      using str_slice_at_text [of pre raw rest]
      by (simp add: parse_number_def Let_def start at_digit_def) (simp add: raw)
  qed
qed


section \<open>String literals\<close>

lemma hex_digit_value_upper [simp]:
  "n < 16 \<Longrightarrow> is_hex_digit (upper_hex_digit n)" "n < 16 \<Longrightarrow> hex_digit_value (upper_hex_digit n) = n"
  by (auto simp: is_hex_digit_def is_ascii_digit_def upper_hex_digit_def hex_digit_value_def)

lemma hex_value_unicode_escape:
  assumes "code < 0x10000"
  shows "hex_value (drop 2 (unicode_escape code)) = code"
proof -
  have small: "code div 4096 mod 16 = code div 4096" "code div 4096 < 16" using assms by simp_all
  have split: "code div 4096 = code div 16 div 16 div 16" "code div 256 = code div 16 div 16"
    by (simp_all add: div_mult2_eq [symmetric])
  have horner: "4096 * a + 256 * b + 16 * c + d = 16 * (16 * (16 * a + b) + c) + d" for a b c d :: nat
    by simp
  have "4096 * (code div 4096) + 256 * (code div 256 mod 16) + 16 * (code div 16 mod 16) + code mod 16 = code"
    unfolding split horner mult_div_mod_eq ..
  then show ?thesis
    by (simp add: unicode_escape_def hex_value_def small)
qed

lemma slice_ahead_at_text: "length w = n \<Longrightarrow> slice_ahead (at_text pre (w @ rest)) n = w"
  by (simp add: slice_ahead_def str_slice_def)

lemma adv_by_at_text: "length w = n \<Longrightarrow> adv_by (at_text pre (w @ rest)) n = at_text (pre @ w) rest"
  by (simp add: adv_by_def at_text_def)

lemma parse_unicode_escape:
  assumes "code < 0xD800"
  shows "parse_escape_sequence (at_text pre (drop 1 (unicode_escape code) @ rest)) =
    Inr (code, at_text (pre @ drop 1 (unicode_escape code)) rest)"
proof -
  let ?w = "drop 2 (unicode_escape code)"
  have w: "drop 1 (unicode_escape code) = 117 # ?w" "length ?w = 4" "list_all is_hex_digit ?w"
    by (simp_all add: unicode_escape_def)
  have v: "hex_value ?w = code" using assms by (intro hex_value_unicode_escape) simp
  show ?thesis
    unfolding parse_escape_sequence_def w(1)
    using assms w(2,3) v slice_ahead_at_text [OF w(2), of "pre @ [117]" rest]
      adv_by_at_text [OF w(2), of "pre @ [117]" rest]
    by (simp add: Let_def)
qed

lemma escape_char_simps [simp]:
  "escape_char CH_BACKSLASH = [CH_BACKSLASH, CH_BACKSLASH]"
  "escape_char CH_QUOTE = [CH_BACKSLASH, CH_QUOTE]"
  "ch \<noteq> CH_BACKSLASH \<Longrightarrow> ch \<noteq> CH_QUOTE \<Longrightarrow> \<not> ch < 0x20 \<Longrightarrow> ch \<noteq> 0x7F \<Longrightarrow> escape_char ch = [ch]"
  by (simp_all add: escape_char_def)

lemma string_loop_at_text:
  assumes "length chars + length v \<le> MAX_STRING_LITERAL_LENGTH"
  shows "string_loop chars (at_text pre (concat (map escape_char v) @ CH_QUOTE # rest)) =
    Inr (chars @ v, at_text (pre @ concat (map escape_char v) @ [CH_QUOTE]) rest)"
  using assms
proof (induction v arbitrary: chars pre)
  case Nil
  then show ?case by (simp add: string_loop.simps [of chars])
next
  case (Cons ch v)
  let ?more = "concat (map escape_char v) @ CH_QUOTE # rest"
  have len: "\<not> MAX_STRING_LITERAL_LENGTH < length chars" using Cons.prems by simp
  have IH: "string_loop (chars @ [ch]) (at_text pre' ?more) =
      Inr (chars @ ch # v, at_text (pre' @ concat (map escape_char v) @ [CH_QUOTE]) rest)" for pre'
    using Cons.IH [of "chars @ [ch]" pre'] Cons.prems by simp
  consider (bslash) "ch = CH_BACKSLASH" | (quote) "ch = CH_QUOTE"
    | (control) "ch \<noteq> CH_BACKSLASH" "ch \<noteq> CH_QUOTE" "ch < 0x20 \<or> ch = 0x7F"
    | (plain) "ch \<noteq> CH_BACKSLASH" "ch \<noteq> CH_QUOTE" "\<not> ch < 0x20" "ch \<noteq> 0x7F"
    by blast
  then show ?case
  proof cases
    case control
    then have esc: "escape_char ch = CH_BACKSLASH # drop 1 (unicode_escape ch)"
      by (simp add: escape_char_def unicode_escape_def)
    have "ch < 0xD800" using control(3) by auto
    from parse_unicode_escape [OF this, of "pre @ [CH_BACKSLASH]" ?more] show ?thesis
      using len IH by (simp add: string_loop.simps [of chars] esc)
  qed (use len IH in \<open>simp_all add: string_loop.simps [of chars] parse_escape_sequence_def\<close>)
qed

lemma parse_string_literal_at_text:
  assumes "length v \<le> MAX_STRING_LITERAL_LENGTH"
  shows "parse_string_literal (at_text pre (quote_string v @ rest)) = Inr (v, at_text (pre @ quote_string v) rest)"
  using string_loop_at_text [of "[]" v "pre @ [CH_QUOTE]" rest] assms
  by (simp add: parse_string_literal_def quote_string_def)

end
