(* ===== verification/Printable_Trees.thy ===== *)
theory Printable_Trees
  imports Token_Text
begin

text \<open>
  Trees without positions, the trees whose text reads back as the tree, parsers that succeed
  (\<open>produces\<close>), and the first expressions read back: variables, numbers, strings, and the
  attribute of a reference.
\<close>

section \<open>Trees without positions\<close>

fun erase_ident :: "ident \<Rightarrow> ident" where
  "erase_ident (Identifier name sp) = Identifier name None"

fun erase_key :: "variant_key \<Rightarrow> variant_key" where
  "erase_key (KeyIdentifier i) = KeyIdentifier (erase_ident i)"
| "erase_key (KeyNumber v raw sp) = KeyNumber v raw None"

fun erase_expr :: "expression \<Rightarrow> expression"
and erase_args :: "call_arguments \<Rightarrow> call_arguments"
and erase_named :: "named_argument \<Rightarrow> named_argument"
and erase_variant :: "variant \<Rightarrow> variant"
and erase_pattern :: "pattern \<Rightarrow> pattern"
and erase_element :: "pattern_element \<Rightarrow> pattern_element"
and erase_placeable :: "placeable \<Rightarrow> placeable" where
  "erase_expr (StringLiteral v sp) = StringLiteral v None"
| "erase_expr (NumberLiteral v raw sp) = NumberLiteral v raw None"
| "erase_expr (VariableReference i sp) = VariableReference (erase_ident i) None"
| "erase_expr (MessageReference i a sp) = MessageReference (erase_ident i) (map_option erase_ident a) None"
| "erase_expr (TermReference i a None sp) =
     TermReference (erase_ident i) (map_option erase_ident a) None None"
| "erase_expr (TermReference i a (Some args) sp) =
     TermReference (erase_ident i) (map_option erase_ident a) (Some (erase_args args)) None"
| "erase_expr (FunctionReference i args sp) = FunctionReference (erase_ident i) (erase_args args) None"
| "erase_expr (NestedPlaceable p) = NestedPlaceable (erase_placeable p)"
| "erase_expr (SelectExpression sel vs sp) = SelectExpression (erase_expr sel) (map erase_variant vs) None"
| "erase_args (CallArguments ps ns sp) = CallArguments (map erase_expr ps) (map erase_named ns) None"
| "erase_named (NamedArgument i e sp) = NamedArgument (erase_ident i) (erase_expr e) None"
| "erase_variant (Variant k p starred sp) = Variant (erase_key k) (erase_pattern p) starred None"
| "erase_pattern (Pattern es sp) = Pattern (map erase_element es) None"
| "erase_element (TextElement v sp) = TextElement v None"
| "erase_element (PlaceableElement p) = PlaceableElement (erase_placeable p)"
| "erase_placeable (Placeable e sp) = Placeable (erase_expr e) None"

lemma id_name_erase [simp]: "id_name (erase_ident i) = id_name i"
  by (cases i) simp

lemma erase_ident_eq_iff: "erase_ident i = erase_ident j \<longleftrightarrow> id_name i = id_name j"
  by (cases i; cases j) simp

section \<open>Trees the grammar can write\<close>

text \<open>
  The conditions under which the text of a tree reads back as the tree: identifiers and numbers
  of the grammar, literals as named arguments, one default variant, no select expression
  outside a placeable, and texts without the characters that mean something else: braces,
  carriage returns, line feeds but at the end of a text that another element follows, a blank
  at the start of a line, a syntax character at the start of a continuation line; within a
  variant, no bracket and no star.
\<close>

definition text_char :: "bool \<Rightarrow> uchar \<Rightarrow> bool" where
  "text_char in_variant ch \<longleftrightarrow>
     ch \<noteq> CH_LF \<and> ch \<noteq> CH_CR \<and> ch \<noteq> CH_LBRACE \<and> ch \<noteq> CH_RBRACE \<and>
     (in_variant \<longrightarrow> ch \<noteq> CH_LBRACKET \<and> ch \<noteq> CH_STAR)"

datatype line_state = FirstElement | AfterText | AfterPlaceable | LineStart

definition line_start_ok :: "line_state \<Rightarrow> uchar \<Rightarrow> bool" where
  "line_start_ok st ch \<longleftrightarrow>
     (case st of
        FirstElement \<Rightarrow> ch \<noteq> CH_SPACE
      | AfterText \<Rightarrow> False
      | AfterPlaceable \<Rightarrow> True
      | LineStart \<Rightarrow> ch \<noteq> CH_SPACE \<and> ch \<notin> line_start_syntax_chars)"

fun layout_ok :: "bool \<Rightarrow> line_state \<Rightarrow> pattern_element list \<Rightarrow> bool" where
  "layout_ok in_variant st [] \<longleftrightarrow> st \<noteq> LineStart"
| "layout_ok in_variant st (TextElement v sp # es) \<longleftrightarrow>
     (if v = [CH_LF] then st = AfterPlaceable \<and> layout_ok in_variant LineStart es
      else v \<noteq> [] \<and> line_start_ok st (hd v) \<and>
           (if last v = CH_LF
            then list_all (text_char in_variant) (butlast v) \<and> layout_ok in_variant LineStart es
            else list_all (text_char in_variant) v \<and> layout_ok in_variant AfterText es))"
| "layout_ok in_variant st (PlaceableElement p # es) \<longleftrightarrow> layout_ok in_variant AfterPlaceable es"

definition number_ok :: "number_value \<Rightarrow> ustr \<Rightarrow> bool" where
  "number_ok v raw \<longleftrightarrow> parse_number_value raw = Inr v \<and> length raw \<le> MAX_NUMBER_LENGTH"

fun printable_key :: "variant_key \<Rightarrow> bool" where
  "printable_key (KeyIdentifier i) = grammar_identifier (id_name i)"
| "printable_key (KeyNumber v raw sp) = number_ok v raw"

definition is_inline :: "expression \<Rightarrow> bool" where
  "is_inline e \<longleftrightarrow> (case e of SelectExpression sel vs sp \<Rightarrow> False | _ \<Rightarrow> True)"

fun printable :: "expression \<Rightarrow> bool"
and printable_args :: "call_arguments \<Rightarrow> bool"
and printable_named :: "named_argument \<Rightarrow> bool"
and printable_variant :: "variant \<Rightarrow> bool"
and printable_pattern :: "bool \<Rightarrow> pattern \<Rightarrow> bool"
and printable_element :: "pattern_element \<Rightarrow> bool" where
  "printable (StringLiteral v sp) \<longleftrightarrow> length v \<le> MAX_STRING_LITERAL_LENGTH"
| "printable (NumberLiteral v raw sp) \<longleftrightarrow> number_ok v raw"
| "printable (VariableReference i sp) \<longleftrightarrow> grammar_identifier (id_name i)"
| "printable (MessageReference i a sp) \<longleftrightarrow>
     grammar_identifier (id_name i) \<and> pred_option (\<lambda>b. grammar_identifier (id_name b)) a"
| "printable (TermReference i a None sp) \<longleftrightarrow>
     grammar_identifier (id_name i) \<and> pred_option (\<lambda>b. grammar_identifier (id_name b)) a"
| "printable (TermReference i a (Some args) sp) \<longleftrightarrow>
     grammar_identifier (id_name i) \<and> pred_option (\<lambda>b. grammar_identifier (id_name b)) a \<and> printable_args args"
| "printable (FunctionReference i args sp) \<longleftrightarrow> grammar_identifier (id_name i) \<and> printable_args args"
| "printable (NestedPlaceable (Placeable e sp)) \<longleftrightarrow> printable e"
| "printable (SelectExpression sel vs sp) \<longleftrightarrow>
     is_selector sel \<and> printable sel \<and> list_all printable_variant vs \<and> length (filter variant_default vs) = 1"
| "printable_args (CallArguments ps ns sp) \<longleftrightarrow>
     list_all is_inline ps \<and> list_all printable ps \<and> list_all printable_named ns \<and> distinct (map named_name ns)"
| "printable_named (NamedArgument i e sp) \<longleftrightarrow> grammar_identifier (id_name i) \<and> is_literal e \<and> printable e"
| "printable_variant (Variant k p starred sp) \<longleftrightarrow> printable_key k \<and> printable_pattern True p"
| "printable_pattern in_variant (Pattern es sp) \<longleftrightarrow>
     layout_ok in_variant FirstElement es \<and> list_all printable_element es"
| "printable_element (TextElement v sp) \<longleftrightarrow> True"
| "printable_element (PlaceableElement (Placeable e sp)) \<longleftrightarrow> printable e"

section \<open>Parsers that succeed\<close>

text \<open>\<open>produces Q p\<close>: the parser returns a value with \<open>Q\<close> and leaves the flag as it is.\<close>

definition produces :: "('a \<Rightarrow> bool) \<Rightarrow> 'a parser \<Rightarrow> bool" where
  "produces Q p \<longleftrightarrow> (\<forall>flag. \<exists>r. p flag = (Returns r, flag) \<and> Q r)"

lemma produces_ret [simp]: "produces Q (ret r) \<longleftrightarrow> Q r"
  by (simp add: produces_def ret_def)

lemma produces_and_then:
  assumes "produces R p" "\<And>r. R r \<Longrightarrow> produces Q (k r)"
  shows "produces Q (and_then p k)"
  unfolding produces_def
proof
  fix flag
  obtain r where "p flag = (Returns r, flag)" "R r" using assms(1) unfolding produces_def by blast
  with assms(2) [of r] show "\<exists>r. and_then p k flag = (Returns r, flag) \<and> Q r"
    unfolding produces_def by (simp add: and_then_def)
qed

lemma produces_attempt:
  assumes "produces R p" "\<And>r. R r \<Longrightarrow> Q (Some r)"
  shows "produces Q (attempt p)"
  unfolding produces_def
proof
  fix flag
  obtain r where "p flag = (Returns r, flag)" "R r" using assms(1) unfolding produces_def by blast
  with assms(2) [of r] show "\<exists>r. attempt p flag = (Returns r, flag) \<and> Q r"
    by (simp add: attempt_def)
qed

lemma produces_mono: "produces R p \<Longrightarrow> (\<And>r. R r \<Longrightarrow> Q r) \<Longrightarrow> produces Q p"
  by (fastforce simp: produces_def)

lemma and_then_ret [simp]: "and_then (ret a) k = k a"
  by (simp add: and_then_def ret_def)

lemma or_none_Inr [simp]: "or_none (Inr a) = ret a"
  by (simp add: or_none_def)

lemma or_raise_Inr [simp]: "or_raise (Inr a) = ret a"
  by (simp add: or_raise_def)

lemma mk_span_le [simp]: "s \<le> e \<Longrightarrow> mk_span s e = ret (Span s e)"
  by (simp add: mk_span_def)

lemma mk_identifier_le [simp]: "s \<le> e \<Longrightarrow> mk_identifier name s e = ret (Identifier name (Some (Span s e)))"
  by (simp add: mk_identifier_def)

lemma number_literal_ok_of_value: "parse_number_value raw = Inr v \<Longrightarrow> number_literal_ok v raw"
  by (auto simp: parse_number_value_def number_literal_ok_def decimal_eq_def split: if_splits option.splits)

lemma mk_number_literal_ok [simp]:
  "number_ok v raw \<Longrightarrow> mk_number_literal v raw sp = ret (NumberLiteral v raw sp)"
  by (simp add: mk_number_literal_def number_ok_def number_literal_ok_of_value)

lemma mk_key_number_ok [simp]: "number_ok v raw \<Longrightarrow> mk_key_number v raw sp = ret (KeyNumber v raw sp)"
  by (simp add: mk_key_number_def number_ok_def number_literal_ok_of_value)

section \<open>Expressions\<close>

text \<open>What may follow an inline expression in the serializer's output.\<close>

definition follows_expr :: "ustr \<Rightarrow> bool" where
  "follows_expr rest \<longleftrightarrow>
     (case rest of
        [] \<Rightarrow> False
      | ch # r \<Rightarrow> ch \<in> {CH_COMMA, CH_RPAREN, CH_COLON} \<or>
          ch = CH_SPACE \<and> (case r of [] \<Rightarrow> False | x # _ \<Rightarrow> x \<noteq> CH_SPACE \<and> x \<noteq> CH_LPAREN))"

text \<open>A term reference consumes the blank after it; nothing that follows minds.\<close>

definition lands :: "ustr \<Rightarrow> ustr \<Rightarrow> cursor \<Rightarrow> bool" where
  "lands pre rest c \<longleftrightarrow>
     c = at_text pre rest \<or> (\<exists>r. rest = CH_SPACE # r \<and> c = at_text (pre @ [CH_SPACE]) r)"

lemma lands_refl [simp]: "lands pre rest (at_text pre rest)"
  by (simp add: lands_def)

lemma lands_skip_blank: "lands pre rest c \<Longrightarrow> skip_blank c = skip_blank (at_text pre rest)"
  by (auto simp: lands_def)

definition reads_expr :: "expression \<Rightarrow> ustr \<Rightarrow> ustr \<Rightarrow> expression parse_result \<Rightarrow> bool" where
  "reads_expr e pre rest r \<longleftrightarrow> erase_expr (fst r) = erase_expr e \<and> lands pre rest (snd r)"

lemma follows_stops:
  "follows_expr rest \<Longrightarrow> stops is_identifier_char rest"
  "follows_expr rest \<Longrightarrow> stops (\<lambda>ch. is_ascii_digit ch \<or> ch = CH_DOT) rest"
  by (cases rest; auto simp: follows_expr_def is_ascii_digit_def)+

lemma parse_variable_reference_printed:
  assumes "grammar_identifier (id_name i)" "follows_expr rest"
  shows "produces (reads_expr (VariableReference i sp) (pre @ CH_DOLLAR # id_name i) rest)
    (parse_variable_reference (at_text pre (CH_DOLLAR # id_name i @ rest)))"
  using parse_identifier_at_text [OF assms(1) follows_stops(1) [OF assms(2)], of "pre @ [CH_DOLLAR]"]
  by (cases i) (simp add: parse_variable_reference_def reads_expr_def)


lemma cat_emit_Nil [simp]: "cat (emit []) x = x" "cat x (emit []) = x"
  by (cases x; simp add: cat_def emit_def)+

lemma cat_emit_Inr [simp]: "cat (emit s) (Inr t) = Inr (s @ t)"
  by (simp add: cat_def emit_def)

text \<open>The first character of an inline expression.\<close>

definition expr_start :: "uchar \<Rightarrow> bool" where
  "expr_start ch \<longleftrightarrow>
     ch \<in> {CH_DOLLAR, CH_QUOTE, CH_MINUS, CH_LBRACE} \<or> is_ascii_digit ch \<or> is_identifier_start ch"

lemma expr_start_not [simp]:
  "\<not> expr_start CH_SPACE" "\<not> expr_start CH_LF" "\<not> expr_start CH_RPAREN" "\<not> expr_start CH_RBRACE"
  by (simp_all add: expr_start_def is_ascii_digit_def is_identifier_start_def is_ascii_alpha_def)

lemma identifier_starts: "grammar_identifier name \<Longrightarrow> \<exists>ch t. name = ch # t \<and> is_identifier_start ch"
  by (cases name) (auto simp: grammar_identifier_def)

lemma number_starts: "number_shape raw \<Longrightarrow> \<exists>ch t. raw = ch # t \<and> (is_ascii_digit ch \<or> ch = CH_MINUS \<and> (\<exists>x xs. t = x # xs \<and> is_ascii_digit x))"
  by (auto simp: number_shape_def neq_Nil_conv)

lemma number_ok_shape: "number_ok v raw \<Longrightarrow> number_shape raw"
  by (simp add: number_ok_def parse_number_value_shape)

lemma printed_starts:
  assumes "printable e" "is_inline e" "serialize_expression L d e = Inr s"
  shows "\<exists>ch t. s = ch # t \<and> expr_start ch"
proof (cases e)
  case (NumberLiteral v raw sp)
  with assms number_starts [OF number_ok_shape] show ?thesis by (fastforce simp: expr_start_def)
next
  case (MessageReference i a sp)
  with assms show ?thesis by (auto dest!: identifier_starts simp: expr_start_def)
next
  case (TermReference i a args sp)
  with assms show ?thesis by (cases args) (auto simp: expr_start_def cat_Inr_iff)
next
  case (FunctionReference i args sp)
  with assms show ?thesis by (auto dest!: identifier_starts simp: expr_start_def cat_Inr_iff)
next
  case (NestedPlaceable p)
  with assms show ?thesis by (cases p) (auto simp: expr_start_def cat_Inr_iff)
qed (use assms in \<open>auto simp: expr_start_def quote_string_def is_inline_def\<close>)

lemma parse_number_printed:
  assumes "number_ok v raw" "follows_expr rest"
  shows "produces (reads_expr (NumberLiteral v raw sp) (pre @ raw) rest)
    (parse_inline_number_literal (at_text pre (raw @ rest)))"
  using parse_number_at_text [OF number_ok_shape [OF assms(1)] _ follows_stops(2) [OF assms(2)], of pre] assms(1)
  by (simp add: parse_inline_number_literal_def number_ok_def reads_expr_def)

lemma parse_string_printed:
  assumes "length v \<le> MAX_STRING_LITERAL_LENGTH"
  shows "produces (reads_expr (StringLiteral v sp) (pre @ quote_string v) rest)
    (parse_inline_string_literal (at_text pre (quote_string v @ rest)))"
  using parse_string_literal_at_text [OF assms, of pre rest]
  by (simp add: parse_inline_string_literal_def reads_expr_def)

text \<open>The attribute of a message or term reference.\<close>

definition reads_attribute :: "ident option \<Rightarrow> ustr \<Rightarrow> ustr \<Rightarrow> ident option parse_result \<Rightarrow> bool" where
  "reads_attribute a pre rest r \<longleftrightarrow>
     map_option erase_ident (fst r) = map_option erase_ident a \<and> snd r = at_text pre rest"

lemma no_attribute:
  assumes "follows_expr rest \<or> (\<exists>r. rest = CH_LPAREN # r)"
  shows "cur (at_text pre rest) \<noteq> Some CH_DOT" "stops is_identifier_char rest"
  using assms by (cases rest; auto simp: follows_expr_def)+

lemma parse_message_attribute_printed:
  assumes "pred_option (\<lambda>b. grammar_identifier (id_name b)) a" "follows_expr rest"
  shows "produces (reads_attribute a (pre @ attribute_suffix a) rest)
    (parse_message_attribute (at_text pre (attribute_suffix a @ rest)))"
proof (cases a)
  case None
  with no_attribute(1) assms(2) show ?thesis
    by (simp add: parse_message_attribute_def attribute_suffix_def reads_attribute_def)
next
  case (Some i)
  with assms parse_identifier_at_text [OF _ follows_stops(1) [OF assms(2)], of "id_name i" "pre @ [CH_DOT]"]
  show ?thesis
    by (cases i) (simp add: parse_message_attribute_def attribute_suffix_def reads_attribute_def)
qed

lemma parse_term_attribute_printed:
  assumes "pred_option (\<lambda>b. grammar_identifier (id_name b)) a"
    and "follows_expr rest \<or> (\<exists>r. rest = CH_LPAREN # r)"
  shows "produces (reads_attribute a (pre @ attribute_suffix a) rest)
    (parse_term_attribute (at_text pre (attribute_suffix a @ rest)))"
proof (cases a)
  case None
  with no_attribute(1) [OF assms(2)] show ?thesis
    by (simp add: parse_term_attribute_def attribute_suffix_def reads_attribute_def)
next
  case (Some i)
  with assms parse_identifier_at_text [OF _ no_attribute(2) [OF assms(2)], of "id_name i" "pre @ [CH_DOT]"]
  show ?thesis
    by (cases i) (simp add: parse_term_attribute_def attribute_suffix_def reads_attribute_def)
qed

lemma attribute_suffix_stops:
  "stops is_identifier_char rest \<Longrightarrow> stops is_identifier_char (attribute_suffix a @ rest)"
  by (cases a) (auto simp: attribute_suffix_def)

end
