(* ===== verification/Printed_Inline.thy ===== *)
theory Printed_Inline
  imports Printable_Trees
begin

text \<open>
  Call arguments read back.  The locale \<open>printed_parser\<close> states what the parsers of placeables
  and arguments do on the serializer's text up to a nesting; here are its consequences for
  argument lists, function references and term references, and for inline expressions: the
  dispatch on the first character takes the parser of the expression that was written.
\<close>

definition reads_placeable :: "expression \<Rightarrow> ustr \<Rightarrow> ustr \<Rightarrow> placeable parse_result \<Rightarrow> bool" where
  "reads_placeable e pre rest r \<longleftrightarrow>
     erase_placeable (fst r) = Placeable (erase_expr e) None \<and> snd r = at_text pre rest"

definition reads_args :: "expression list \<Rightarrow> named_argument list \<Rightarrow> expression list \<Rightarrow> named_argument list \<Rightarrow>
    ustr \<Rightarrow> ustr \<Rightarrow> call_arguments parse_result \<Rightarrow> bool" where
  "reads_args positional named ps ns pre rest r \<longleftrightarrow>
     (\<exists>ps' ns'. fst r = CallArguments (positional @ ps') (named @ ns') None \<and>
        map erase_expr ps' = map erase_expr ps \<and> map erase_named ns' = map erase_named ns \<and>
        snd r = at_text pre rest)"

lemma serialize_positional_written:
  "es \<noteq> [] \<Longrightarrow> serialize_positional L d True es = cat (emit [CH_COMMA, CH_SPACE]) (serialize_positional L d False es)"
  by (cases es) (auto simp: cat_def emit_def split: sum.splits)

lemma serialize_named_written:
  "ns \<noteq> [] \<Longrightarrow> serialize_named L d True ns = cat (emit [CH_COMMA, CH_SPACE]) (serialize_named L d False ns)"
proof (cases ns)
  case (Cons na ns')
  then show ?thesis by (cases na) (auto simp: cat_def emit_def split: sum.splits)
qed simp

lemma erase_literal: "erase_expr e' = erase_expr e \<Longrightarrow> is_literal e' = is_literal e"
proof -
  have "is_literal (erase_expr x) = is_literal x" for x
    by (cases x rule: erase_expr.cases) simp_all
  then show "erase_expr e' = erase_expr e \<Longrightarrow> ?thesis" by metis
qed

lemma erase_message_reference:
  "erase_expr x = MessageReference (erase_ident i) None None \<Longrightarrow>
     \<exists>j sp. x = MessageReference j None sp \<and> id_name j = id_name i"
  by (cases x rule: erase_expr.cases) (auto simp: erase_ident_eq_iff)

lemma literal_inline: "is_literal e \<Longrightarrow> is_inline e"
  by (cases e) (simp_all add: is_inline_def)

text \<open>After an argument: the list goes on after a comma, or ends.\<close>

definition more_args :: "bool \<Rightarrow> ustr" where
  "more_args goes_on = (if goes_on then [CH_COMMA, CH_SPACE] else [])"

lemma more_args_simps [simp]: "more_args True = [CH_COMMA, CH_SPACE]" "more_args False = []"
  by (simp_all add: more_args_def)

definition starts_arg :: "ustr \<Rightarrow> bool" where
  "starts_arg s \<longleftrightarrow> (\<exists>ch t. s = ch # t \<and> expr_start ch)"

lemma starts_arg_Nil [simp]: "\<not> starts_arg []"
  by (simp add: starts_arg_def)

lemma starts_arg_append: "starts_arg s \<Longrightarrow> starts_arg (s @ t)"
  by (auto simp: starts_arg_def)

lemma skip_blank_starts: "starts_arg s \<Longrightarrow> skip_blank (at_text pre s) = at_text pre s"
  by (auto simp: starts_arg_def)

lemma current_starts:
  "starts_arg s \<Longrightarrow> \<exists>ch. Cursor.current (at_text pre s) = Inr ch \<and> ch \<noteq> CH_RPAREN"
  by (auto simp: starts_arg_def)

lemma skip_comma_more_args:
  assumes "if goes_on then starts_arg s else s = []"
  shows "skip_comma (at_text pre (more_args goes_on @ s @ CH_RPAREN # rest)) =
    at_text (pre @ more_args goes_on) (s @ CH_RPAREN # rest)"
  using assms starts_arg_append [of s "CH_RPAREN # rest"]
  by (cases goes_on) (auto simp: skip_comma_def skip_blank_starts)

definition ends_arg :: "ustr \<Rightarrow> bool" where
  "ends_arg rest \<longleftrightarrow> (\<exists>ch r. rest = ch # r \<and> (ch = CH_COMMA \<or> ch = CH_RPAREN))"

lemma ends_arg_facts:
  assumes "ends_arg rest"
  shows "follows_expr rest" "lands pre rest c \<longleftrightarrow> c = at_text pre rest"
    "skip_blank (at_text pre rest) = at_text pre rest" "cur (at_text pre rest) \<noteq> Some CH_COLON"
  using assms by (auto simp: ends_arg_def follows_expr_def lands_def)

lemma ends_arg_more_args:
  "if goes_on then starts_arg s else s = [] \<Longrightarrow> ends_arg (more_args goes_on @ s @ CH_RPAREN # rest)"
  by (cases goes_on) (auto simp: ends_arg_def)

lemma serialize_named_more:
  assumes "serialize_named L d True ns = Inr r"
  shows "\<exists>s. serialize_named L d False ns = Inr s \<and> r = more_args (ns \<noteq> []) @ s"
  using assms serialize_named_written [of ns L d] by (cases "ns = []") (auto simp: cat_Inr_iff)

lemma serialize_named_starts:
  assumes "serialize_named L d False ns = Inr s" "list_all printable_named ns"
  shows "if ns \<noteq> [] then starts_arg s else s = []"
proof (cases ns)
  case (Cons na ns')
  with assms show ?thesis
    by (cases na) (auto dest!: identifier_starts simp: cat_Inr_iff starts_arg_def expr_start_def)
qed (use assms in simp)

lemma serialize_positional_starts:
  assumes "serialize_positional L d False ps = Inr s" "list_all is_inline ps" "list_all printable ps"
  shows "if ps \<noteq> [] then starts_arg s else s = []"
proof (cases ps)
  case (Cons e es)
  with assms obtain t r where "serialize_expression L (d + 1) e = Inr t" "s = t @ r"
    by (auto simp: cat_Inr_iff with_guard_Inr_iff)
  with Cons assms printed_starts [of e L "d + 1" t] show ?thesis by (auto simp: starts_arg_def)
qed (use assms in simp)

text \<open>What is written after the first positional argument.\<close>

lemma serialize_args_rest:
  assumes "serialize_positional L d True ps = Inr r" "serialize_named L d True ns = Inr t"
    and "list_all is_inline ps" "list_all printable ps" "list_all printable_named ns"
  shows "\<exists>sp tn. serialize_positional L d False ps = Inr sp \<and> serialize_named L d (ps \<noteq> []) ns = Inr tn \<and>
    r @ t = more_args (ps \<noteq> [] \<or> ns \<noteq> []) @ sp @ tn \<and>
    (if ps \<noteq> [] \<or> ns \<noteq> [] then starts_arg (sp @ tn) else sp @ tn = [])"
proof (cases "ps = []")
  case True
  obtain tn where tn: "serialize_named L d False ns = Inr tn" "t = more_args (ns \<noteq> []) @ tn"
    using serialize_named_more [OF assms(2)] by blast
  with True assms(1) serialize_named_starts [OF tn(1) assms(5)] show ?thesis by auto
next
  case False
  with assms(1) serialize_positional_written [of ps L d]
  obtain sp where sp: "serialize_positional L d False ps = Inr sp" "r = more_args True @ sp"
    by (auto simp: cat_Inr_iff)
  with False assms(2) serialize_positional_starts [OF sp(1) assms(3,4)] show ?thesis
    by (auto simp: starts_arg_append)
qed

lemma length_serialize_named:
  "serialize_named L d w ns = Inr s \<Longrightarrow> length ns \<le> length s"
proof (induction ns arbitrary: w s)
  case (Cons na ns)
  obtain i e sp where "na = NamedArgument i e sp" by (cases na)
  with Cons.prems obtain t r where "serialize_named L d True ns = Inr r" "s = (if w then [CH_COMMA, CH_SPACE] else []) @ id_name i @ [CH_COLON, CH_SPACE] @ t @ r"
    by (auto simp: cat_Inr_iff with_guard_Inr_iff)
  with Cons.IH [of True r] show ?case by auto
qed simp

lemma length_serialize_positional:
  assumes "serialize_positional L d w ps = Inr s" "list_all is_inline ps" "list_all printable ps"
  shows "length ps \<le> length s"
  using assms
proof (induction ps arbitrary: w s)
  case (Cons e ps)
  then obtain t r where t: "serialize_expression L (d + 1) e = Inr t" and r: "serialize_positional L d True ps = Inr r"
    and s: "s = (if w then [CH_COMMA, CH_SPACE] else []) @ t @ r"
    by (auto simp: cat_Inr_iff with_guard_Inr_iff)
  have "t \<noteq> []" using printed_starts [OF _ _ t] Cons.prems by auto
  with s Cons.IH [OF r] Cons.prems show ?case by (cases t) auto
qed simp

locale printed_parser =
  fixes pp :: placeable_fn and pa :: expression_fn and n :: nat
  assumes placeable_printed:
    "printable e \<Longrightarrow> serialize_expression L d e = Inr s \<Longrightarrow> nesting_expr e < n \<Longrightarrow>
       nesting_expr e < depth_left ctx \<Longrightarrow>
       produces (reads_placeable e (pre @ CH_SPACE # s @ [CH_SPACE, CH_RBRACE]) rest)
         (pp (at_text pre (CH_SPACE # s @ CH_SPACE # CH_RBRACE # rest)) ctx)"
    and argument_printed:
    "printable e \<Longrightarrow> is_inline e \<Longrightarrow> serialize_expression L d e = Inr s \<Longrightarrow> nesting_expr e < n \<Longrightarrow>
       nesting_expr e \<le> depth_left ctx \<Longrightarrow> follows_expr rest \<Longrightarrow>
       produces (reads_expr e (pre @ s) rest) (pa (at_text pre (s @ rest)) ctx)"
begin

text \<open>One iteration of the argument loop, on a named argument.\<close>

lemma named_iteration:
  assumes i: "grammar_identifier (id_name i)" "id_name i \<notin> seen_names" "0 < n"
    and e: "is_literal e" "printable e" "serialize_expression L d e = Inr t"
    and rest: "ends_arg rest"
    and go_on: "\<And>e' isp. erase_expr e' = erase_expr e \<Longrightarrow>
      produces Q (call_arguments_loop pa ctx m (skip_comma (at_text (pre @ id_name i @ [CH_COLON, CH_SPACE] @ t) rest))
        positional (named @ [NamedArgument (Identifier (id_name i) isp) e' None]) (insert (id_name i) seen_names) True)"
  shows "produces Q (call_arguments_loop pa ctx (Suc m) (at_text pre (id_name i @ CH_COLON # CH_SPACE # t @ rest))
           positional named seen_names seen_named)"
proof -
  let ?pre = "pre @ id_name i @ [CH_COLON, CH_SPACE]"
  have name: "starts_arg (id_name i @ x)" for x
    using identifier_starts [OF i(1)] by (auto simp: starts_arg_def expr_start_def)
  obtain ch where ch: "Cursor.current (at_text pre (id_name i @ CH_COLON # CH_SPACE # t @ rest)) = Inr ch" "ch \<noteq> CH_RPAREN"
    using current_starts [OF name] by blast
  have val_start: "starts_arg (t @ rest)"
    using printed_starts [OF e(2) literal_inline [OF e(1)] e(3)] by (auto simp: starts_arg_def)
  have arg: "produces (reads_expr (MessageReference i None None) (pre @ id_name i) (CH_COLON # CH_SPACE # t @ rest))
      (pa (at_text pre (id_name i @ CH_COLON # CH_SPACE # t @ rest)) ctx)"
    using i by (intro argument_printed [where L = L and d = d]) (auto simp: is_inline_def attribute_suffix_def follows_expr_def)
  have val: "produces (reads_expr e (?pre @ t) rest) (pa (at_text ?pre (t @ rest)) ctx)"
    using argument_printed [OF e(2) literal_inline [OF e(1)] e(3)] literal_nesting [OF e(1)] i(3) ends_arg_facts(1) [OF rest]
    by (metis append.assoc le0)
  have tail: "produces Q (and_then (pa (at_text ?pre (t @ rest)) ctx) (\<lambda>(value_expr, c4).
      if \<not> is_literal value_expr then no_result
      else call_arguments_loop pa ctx m (skip_comma c4) positional
        (named @ [NamedArgument (Identifier (id_name i) isp) value_expr None]) (insert (id_name i) seen_names) True))" for isp
    using go_on [of _ isp] erase_literal [of _ e] e(1) ends_arg_facts(2) [OF rest]
    by (intro produces_and_then [OF val]) (auto simp: reads_expr_def)
  show ?thesis
    apply (simp add: skip_blank_starts name ch)
    apply (rule produces_and_then [OF arg])
    using tail i(2) val_start
    by (auto simp: reads_expr_def lands_def Let_def skip_blank_starts dest!: erase_message_reference)
qed

text \<open>One iteration on a positional argument.\<close>

lemma positional_iteration:
  assumes e: "printable e" "is_inline e" "serialize_expression L d e = Inr t"
      "nesting_expr e < n" "nesting_expr e \<le> depth_left ctx"
    and rest: "ends_arg rest"
    and go_on: "\<And>e'. erase_expr e' = erase_expr e \<Longrightarrow>
      produces Q (call_arguments_loop pa ctx m (skip_comma (at_text (pre @ t) rest)) (positional @ [e']) named seen_names False)"
  shows "produces Q (call_arguments_loop pa ctx (Suc m) (at_text pre (t @ rest)) positional named seen_names False)"
proof -
  have start: "starts_arg (t @ rest)"
    using printed_starts [OF e(1-3)] by (auto simp: starts_arg_def)
  obtain ch where ch: "Cursor.current (at_text pre (t @ rest)) = Inr ch" "ch \<noteq> CH_RPAREN"
    using current_starts [OF start] by blast
  have arg: "produces (reads_expr e (pre @ t) rest) (pa (at_text pre (t @ rest)) ctx)"
    using argument_printed [OF e ends_arg_facts(1) [OF rest]] .
  have nonempty: "\<not> (t = [] \<and> rest = [])" using start by auto
  show ?thesis
    apply (simp add: skip_blank_starts start ch nonempty)
    apply (rule produces_and_then [OF arg])
    using go_on ends_arg_facts [OF rest] by (auto simp: reads_expr_def Let_def)
qed

lemma named_loop_printed:
  assumes "serialize_named L d False ns = Inr s" "list_all printable_named ns" "distinct (map named_name ns)"
    and "seen_names \<inter> set (map named_name ns) = {}" "length ns < m" "0 < n"
  shows "produces (reads_args positional named [] ns (pre @ s) (CH_RPAREN # rest))
    (call_arguments_loop pa ctx m (at_text pre (s @ CH_RPAREN # rest)) positional named seen_names seen_named)"
  using assms
proof (induction ns arbitrary: s m pre named seen_names seen_named)
  case Nil
  then obtain m' where "m = Suc m'" by (cases m) auto
  with Nil show ?case by (simp add: reads_args_def)
next
  case (Cons na ns)
  obtain i e sp where na: "na = NamedArgument i e sp" by (cases na)
  from Cons.prems(5) obtain m' where m: "m = Suc m'" by (cases m) auto
  from Cons.prems(1) na obtain t r where t: "serialize_expression L (d + 1) e = Inr t"
    and r: "serialize_named L d True ns = Inr r" and s: "s = id_name i @ [CH_COLON, CH_SPACE] @ t @ r"
    by (auto simp: cat_Inr_iff with_guard_Inr_iff)
  obtain sr where sr: "serialize_named L d False ns = Inr sr" "r = more_args (ns \<noteq> []) @ sr"
    using serialize_named_more [OF r] by blast
  have more: "if ns \<noteq> [] then starts_arg sr else sr = []"
    using serialize_named_starts [OF sr(1)] Cons.prems(2) by simp
  let ?pre = "pre @ id_name i @ [CH_COLON, CH_SPACE] @ t" and ?rest = "more_args (ns \<noteq> []) @ sr @ CH_RPAREN # rest"
  have "produces (reads_args positional named [] (na # ns) (pre @ s) (CH_RPAREN # rest))
    (call_arguments_loop pa ctx (Suc m') (at_text pre (id_name i @ CH_COLON # CH_SPACE # t @ ?rest))
      positional named seen_names seen_named)"
  proof (rule named_iteration [OF _ _ Cons.prems(6) _ _ t ends_arg_more_args [OF more]])
    fix e' isp assume e': "erase_expr e' = erase_expr e"
    let ?named = "named @ [NamedArgument (Identifier (id_name i) isp) e' None]"
    have "produces (reads_args positional ?named [] ns ((?pre @ more_args (ns \<noteq> [])) @ sr) (CH_RPAREN # rest))
        (call_arguments_loop pa ctx m' (skip_comma (at_text ?pre ?rest)) positional ?named (insert (id_name i) seen_names) True)"
      unfolding skip_comma_more_args [OF more]
      by (rule Cons.IH [OF sr(1)]) (use Cons.prems m na in auto)
    then show "produces (reads_args positional named [] (na # ns) (pre @ s) (CH_RPAREN # rest))
        (call_arguments_loop pa ctx m' (skip_comma (at_text ?pre ?rest)) positional ?named (insert (id_name i) seen_names) True)"
      by (rule produces_mono) (cases i, auto simp: reads_args_def s sr(2) na e')
  qed (use Cons.prems na in auto)
  then show ?case by (simp add: m s sr(2))
qed

lemma args_loop_printed:
  assumes "serialize_positional L d False ps = Inr s" "serialize_named L d (ps \<noteq> []) ns = Inr t"
    and "list_all is_inline ps" "list_all printable ps" "\<forall>e \<in> set ps. nesting_expr e < n \<and> nesting_expr e \<le> depth_left ctx"
    and "list_all printable_named ns" "distinct (map named_name ns)" "length ps + length ns < m" "0 < n"
  shows "produces (reads_args positional [] ps ns (pre @ s @ t) (CH_RPAREN # rest))
    (call_arguments_loop pa ctx m (at_text pre (s @ t @ CH_RPAREN # rest)) positional [] {} False)"
  using assms
proof (induction ps arbitrary: s t m pre positional)
  case Nil
  then show ?case using named_loop_printed [of L d ns t "{}" m positional "[]" pre rest ctx False] by simp
next
  case (Cons e ps)
  from Cons.prems(8) obtain m' where m: "m = Suc m'" by (cases m) auto
  from Cons.prems(1) obtain te r where te: "serialize_expression L (d + 1) e = Inr te"
    and r: "serialize_positional L d True ps = Inr r" and s: "s = te @ r"
    by (auto simp: cat_Inr_iff with_guard_Inr_iff)
  obtain sp tn where sp: "serialize_positional L d False ps = Inr sp" and tn: "serialize_named L d (ps \<noteq> []) ns = Inr tn"
    and rt: "r @ t = more_args (ps \<noteq> [] \<or> ns \<noteq> []) @ sp @ tn"
    and more: "if ps \<noteq> [] \<or> ns \<noteq> [] then starts_arg (sp @ tn) else sp @ tn = []"
    using serialize_args_rest [OF r, of ns t] Cons.prems by (simp del: de_Morgan_disj) blast
  let ?g = "ps \<noteq> [] \<or> ns \<noteq> []"
  let ?rest = "more_args ?g @ (sp @ tn) @ CH_RPAREN # rest"
  have "produces (reads_args positional [] (e # ps) ns (pre @ s @ t) (CH_RPAREN # rest))
    (call_arguments_loop pa ctx (Suc m') (at_text pre (te @ ?rest)) positional [] {} False)"
  proof (rule positional_iteration [OF _ _ te _ _ ends_arg_more_args [OF more]])
    fix e' assume e': "erase_expr e' = erase_expr e"
    have "produces (reads_args (positional @ [e']) [] ps ns (((pre @ te) @ more_args ?g) @ sp @ tn) (CH_RPAREN # rest))
        (call_arguments_loop pa ctx m' (skip_comma (at_text (pre @ te) ?rest)) (positional @ [e']) [] {} False)"
      unfolding skip_comma_more_args [OF more] unfolding append.assoc [of sp]
      by (rule Cons.IH [OF sp tn]) (use Cons.prems m in auto)
    then show "produces (reads_args positional [] (e # ps) ns (pre @ s @ t) (CH_RPAREN # rest))
        (call_arguments_loop pa ctx m' (skip_comma (at_text (pre @ te) ?rest)) (positional @ [e']) [] {} False)"
      by (rule produces_mono) (auto simp: reads_args_def s rt e')
  qed (use Cons.prems in auto)
  moreover have "s @ t @ CH_RPAREN # rest = te @ ?rest"
    using rt by (simp add: s)
  ultimately show ?case by (simp only: m)
qed

lemma call_arguments_printed:
  assumes "serialize_call_arguments L d args = Inr s" "printable_args args"
    and "nesting_args args < n" "nesting_args args \<le> depth_left ctx"
  shows "\<exists>x. s = CH_LPAREN # x @ [CH_RPAREN] \<and>
    produces (\<lambda>r. erase_args (fst r) = erase_args args \<and> snd r = at_text (pre @ x) (CH_RPAREN # rest))
      (parse_call_arguments pa (at_text pre (x @ CH_RPAREN # rest)) ctx)"
proof -
  obtain ps ns sp where args: "args = CallArguments ps ns sp" by (cases args)
  from assms(1) args obtain x y where x: "serialize_positional L d False ps = Inr x"
    and y: "serialize_named L d (ps \<noteq> []) ns = Inr y" and s: "s = CH_LPAREN # (x @ y) @ [CH_RPAREN]"
    by (auto simp: cat_Inr_iff)
  have len: "length ps + length ns \<le> length x + length y"
    using length_serialize_positional [OF x] length_serialize_named [OF y] assms(2) args by (simp add: add_mono)
  have deep: "\<forall>e \<in> set ps. nesting_expr e < n \<and> nesting_expr e \<le> depth_left ctx"
  proof
    fix e assume "e \<in> set ps"
    then have "nesting_expr e \<le> nesting_args args" using max_list_mem [of "nesting_expr e" "map nesting_expr ps"] by (auto simp: args)
    with assms(3,4) show "nesting_expr e < n \<and> nesting_expr e \<le> depth_left ctx" by simp
  qed
  have start: "skip_blank (at_text pre (x @ y @ CH_RPAREN # rest)) = at_text pre (x @ y @ CH_RPAREN # rest)"
  proof (cases "ps = [] \<and> ns = []")
    case True
    with x y show ?thesis by simp
  next
    case False
    then have "starts_arg (x @ y)"
      using serialize_positional_starts [OF x] serialize_named_starts [of L d ns y] y x assms(2) args
      by (cases "ps = []") (auto simp: starts_arg_append)
    then have "starts_arg ((x @ y) @ CH_RPAREN # rest)" by (rule starts_arg_append)
    then show ?thesis by (simp add: skip_blank_starts)
  qed
  have "produces (reads_args [] [] ps ns (pre @ x @ y) (CH_RPAREN # rest))
      (call_arguments_loop pa ctx (Suc (remaining (at_text pre (x @ y @ CH_RPAREN # rest))))
        (at_text pre (x @ y @ CH_RPAREN # rest)) [] [] {} False)"
    by (rule args_loop_printed [OF x y]) (use assms args deep len in auto)
  then have "produces (\<lambda>r. erase_args (fst r) = erase_args args \<and> snd r = at_text (pre @ x @ y) (CH_RPAREN # rest))
      (parse_call_arguments pa (at_text pre (x @ y @ CH_RPAREN # rest)) ctx)"
    unfolding parse_call_arguments_def start Let_def
    by (rule produces_mono) (auto simp: reads_args_def args)
  with s show ?thesis by (intro exI [of _ "x @ y"]) simp
qed

text \<open>References.\<close>

lemma nested_call_arguments_printed:
  assumes "serialize_call_arguments L d args = Inr s" "printable_args args"
    and "Suc (nesting_args args) \<le> n" "Suc (nesting_args args) \<le> depth_left ctx"
  shows "\<not> is_depth_exceeded ctx \<and> (\<exists>x. s = CH_LPAREN # x @ [CH_RPAREN] \<and>
    produces (\<lambda>r. erase_args (fst r) = erase_args args \<and> snd r = at_text (pre @ x) (CH_RPAREN # rest))
      (parse_call_arguments pa (at_text pre (x @ CH_RPAREN # rest)) (enter_nesting ctx)))"
proof
  show "\<not> is_depth_exceeded ctx" using assms(4) by (simp add: is_depth_exceeded_left)
  have "nesting_args args < n" using assms(3) by simp
  moreover have "nesting_args args \<le> depth_left (enter_nesting ctx)"
    using assms(4) unfolding depth_left_enter by linarith
  ultimately show "\<exists>x. s = CH_LPAREN # x @ [CH_RPAREN] \<and>
    produces (\<lambda>r. erase_args (fst r) = erase_args args \<and> snd r = at_text (pre @ x) (CH_RPAREN # rest))
      (parse_call_arguments pa (at_text pre (x @ CH_RPAREN # rest)) (enter_nesting ctx))"
    by (rule call_arguments_printed [OF assms(1,2)])
qed

lemma function_reference_printed:
  assumes "grammar_identifier (id_name i)" "printable_args args" "serialize_call_arguments L d args = Inr s"
    and "Suc (nesting_args args) \<le> n" "Suc (nesting_args args) \<le> depth_left ctx"
  shows "produces (reads_expr (FunctionReference i args sp) (pre @ id_name i @ s) rest)
    (parse_function_reference pa (at_text pre (id_name i @ s @ rest)) ctx)"
proof -
  obtain x where s: "s = CH_LPAREN # x @ [CH_RPAREN]"
    and call: "produces (\<lambda>r. erase_args (fst r) = erase_args args \<and>
        snd r = at_text ((pre @ id_name i @ [CH_LPAREN]) @ x) (CH_RPAREN # rest))
      (parse_call_arguments pa (at_text (pre @ id_name i @ [CH_LPAREN]) (x @ CH_RPAREN # rest)) (enter_nesting ctx))"
    and deep: "\<not> is_depth_exceeded ctx"
    using nested_call_arguments_printed [OF assms(3,2,4,5), of "pre @ id_name i @ [CH_LPAREN]" rest] by blast
  have ident: "parse_identifier (at_text pre (id_name i @ CH_LPAREN # x @ CH_RPAREN # rest)) =
      Inr (id_name i, at_text (pre @ id_name i) (CH_LPAREN # x @ CH_RPAREN # rest))"
    using assms(1) by (intro parse_identifier_at_text) auto
  show ?thesis
    apply (simp add: parse_function_reference_def s deep ident)
    apply (rule produces_and_then [OF call])
    by (cases i) (auto simp: reads_expr_def Let_def)
qed

lemma term_arguments_none:
  assumes "follows_expr rest"
  shows "produces (\<lambda>r. fst r = None \<and> lands pre rest (snd r)) (parse_term_arguments pa (at_text pre rest) ctx)"
  using assms by (cases rest) (auto simp: parse_term_arguments_def follows_expr_def lands_def split: list.splits)

lemma term_reference_printed:
  assumes "printable (TermReference i a args sp)" "serialize_expression L d (TermReference i a args sp) = Inr s"
    and "nesting_expr (TermReference i a args sp) \<le> n" "nesting_expr (TermReference i a args sp) \<le> depth_left ctx"
    and "follows_expr rest"
  shows "produces (reads_expr (TermReference i a args sp) (pre @ s) rest)
    (parse_term_reference pa (at_text pre (s @ rest)) ctx)"
proof -
  let ?pre = "pre @ CH_MINUS # id_name i" and ?pre' = "pre @ CH_MINUS # id_name i @ attribute_suffix a"
  obtain t where s: "s = CH_MINUS # id_name i @ attribute_suffix a @ t"
    and t: "case args of None \<Rightarrow> t = [] | Some as \<Rightarrow> serialize_call_arguments L d as = Inr t"
    using assms(2) by (cases args) (auto simp: cat_Inr_iff)
  have i: "grammar_identifier (id_name i)" and a: "pred_option (\<lambda>b. grammar_identifier (id_name b)) a"
    using assms(1) by (cases args; simp)+
  have args: "produces (\<lambda>r. map_option erase_args (fst r) = map_option erase_args args \<and> lands (?pre' @ t) rest (snd r))
      (parse_term_arguments pa (at_text ?pre' (t @ rest)) ctx)"
  proof (cases args)
    case None
    with t term_arguments_none [OF assms(5), of ?pre'] show ?thesis by simp
  next
    case (Some as)
    obtain x where x: "t = CH_LPAREN # x @ [CH_RPAREN]"
      and call: "produces (\<lambda>r. erase_args (fst r) = erase_args as \<and>
          snd r = at_text ((?pre' @ [CH_LPAREN]) @ x) (CH_RPAREN # rest))
        (parse_call_arguments pa (at_text (?pre' @ [CH_LPAREN]) (x @ CH_RPAREN # rest)) (enter_nesting ctx))"
      and deep: "\<not> is_depth_exceeded ctx"
      using nested_call_arguments_printed [of L d as t ctx "?pre' @ [CH_LPAREN]" rest] assms Some t by auto
    show ?thesis
      apply (simp add: Some x parse_term_arguments_def Let_def deep)
      apply (rule produces_and_then [OF call [simplified]])
      by auto
  qed
  have fin: "follows_expr (t @ rest) \<or> (\<exists>r. t @ rest = CH_LPAREN # r)"
  proof (cases args)
    case (Some as)
    with t show ?thesis by (cases as) (auto simp: cat_Inr_iff)
  qed (use t assms(5) in simp)
  have ident: "parse_identifier (at_text (pre @ [CH_MINUS]) (id_name i @ attribute_suffix a @ t @ rest)) =
      Inr (id_name i, at_text ?pre (attribute_suffix a @ t @ rest))"
    using parse_identifier_at_text [OF i attribute_suffix_stops [OF no_attribute(2) [OF fin]], of "pre @ [CH_MINUS]"]
    by simp
  show ?thesis
    apply (simp add: parse_term_reference_def s ident)
    apply (rule produces_and_then [OF parse_term_attribute_printed [OF a fin, where pre = ?pre, simplified]])
    apply (clarsimp simp: reads_attribute_def)
    apply (rule produces_and_then [OF args [simplified]])
    by (cases i; cases args) (auto simp: reads_expr_def lands_def s)
qed

end

section \<open>Inline expressions\<close>

context printed_parser
begin

lemma inline_identifier_printed:
  assumes "grammar_identifier (id_name i)" "follows_expr rest"
    and "pred_option (\<lambda>b. grammar_identifier (id_name b)) a"
  shows "produces (reads_expr (MessageReference i a sp) (pre @ id_name i @ attribute_suffix a) rest)
    (parse_inline_identifier pa (at_text pre (id_name i @ attribute_suffix a @ rest)) ctx)"
proof -
  have ident: "parse_identifier (at_text pre (id_name i @ attribute_suffix a @ rest)) =
      Inr (id_name i, at_text (pre @ id_name i) (attribute_suffix a @ rest))"
    by (rule parse_identifier_at_text [OF assms(1) attribute_suffix_stops [OF follows_stops(1) [OF assms(2)]]])
  have no_call: "cur (skip_blank_inline (at_text (pre @ id_name i) (attribute_suffix a @ rest))) \<noteq> Some CH_LPAREN"
    using assms(2) by (cases a; cases rest) (auto simp: attribute_suffix_def follows_expr_def split: list.splits)
  show ?thesis
    apply (simp add: parse_inline_identifier_def ident no_call)
    apply (rule produces_and_then [OF parse_message_attribute_printed [OF assms(3,2)]])
    by (cases i) (auto simp: reads_attribute_def reads_expr_def)
qed

lemma inline_function_printed:
  assumes "grammar_identifier (id_name i)" "printable_args args" "serialize_call_arguments L d args = Inr s"
    and "Suc (nesting_args args) \<le> n" "Suc (nesting_args args) \<le> depth_left ctx"
  shows "produces (reads_expr (FunctionReference i args sp) (pre @ id_name i @ s) rest)
    (parse_inline_identifier pa (at_text pre (id_name i @ s @ rest)) ctx)"
proof -
  obtain x where x: "s = CH_LPAREN # x"
    using nested_call_arguments_printed [OF assms(3,2,4,5)] by blast
  have "parse_identifier (at_text pre (id_name i @ s @ rest)) = Inr (id_name i, at_text (pre @ id_name i) (s @ rest))"
    using assms(1) by (intro parse_identifier_at_text) (simp_all add: x)
  then show ?thesis
    using function_reference_printed [OF assms] by (simp add: parse_inline_identifier_def x)
qed

lemma nested_placeable_printed:
  assumes "printable e" "serialize_expression L d e = Inr s" "nesting_expr e < n" "nesting_expr e < depth_left ctx"
  shows "produces (reads_expr (NestedPlaceable (Placeable e sp)) (pre @ [CH_LBRACE, CH_SPACE] @ s @ [CH_SPACE, CH_RBRACE]) rest)
    (nested_placeable pp (at_text pre (CH_LBRACE # CH_SPACE # s @ CH_SPACE # CH_RBRACE # rest)) ctx)"
  apply (simp add: nested_placeable_def)
  apply (rule produces_and_then [OF placeable_printed [OF assms, of "pre @ [CH_LBRACE]"]])
  by (auto simp: reads_placeable_def reads_expr_def)

text \<open>The two dispatchers on the first character agree on what the serializer writes.\<close>

lemma identifier_start_facts:
  assumes "is_identifier_start ch"
  shows "ch \<noteq> CH_DOLLAR" "ch \<noteq> CH_QUOTE" "ch \<noteq> CH_MINUS" "ch \<noteq> CH_LBRACE" "\<not> is_ascii_digit ch"
  using assms by (auto simp: is_identifier_start_def is_ascii_alpha_def is_ascii_digit_def)

lemma digit_facts:
  assumes "is_ascii_digit ch"
  shows "ch \<noteq> CH_DOLLAR" "ch \<noteq> CH_QUOTE" "ch \<noteq> CH_MINUS" "ch \<noteq> CH_LBRACE" "\<not> is_identifier_start ch"
  using assms by (auto simp: is_identifier_start_def is_ascii_alpha_def is_ascii_digit_def)

lemma dispatch_identifier:
  assumes "grammar_identifier name" "produces Q (parse_inline_identifier pa (at_text pre (name @ rest)) ctx)"
  shows "produces Q (parse_inline_expression pp pa (at_text pre (name @ rest)) ctx)"
    "produces Q (argument_expression_body pp pa (at_text pre (name @ rest)) ctx)"
proof -
  obtain ch t where "name = ch # t" "is_identifier_start ch" using identifier_starts [OF assms(1)] by blast
  with assms(2) identifier_start_facts [of ch] show
    "produces Q (parse_inline_expression pp pa (at_text pre (name @ rest)) ctx)"
    "produces Q (argument_expression_body pp pa (at_text pre (name @ rest)) ctx)"
    by (simp_all add: parse_inline_expression_def argument_expression_body_def)
qed

lemma dispatch_number:
  assumes "number_ok v raw" "follows_expr rest"
  shows "produces (reads_expr (NumberLiteral v raw sp) (pre @ raw) rest)
      (parse_inline_expression pp pa (at_text pre (raw @ rest)) ctx)"
    "produces (reads_expr (NumberLiteral v raw sp) (pre @ raw) rest)
      (argument_expression_body pp pa (at_text pre (raw @ rest)) ctx)"
proof -
  obtain ch t where raw: "raw = ch # t" "is_ascii_digit ch \<or> ch = CH_MINUS \<and> (\<exists>x xs. t = x # xs \<and> is_ascii_digit x)"
    using number_starts [OF number_ok_shape [OF assms(1)]] by blast
  with parse_number_printed [OF assms, of sp pre] digit_facts [of ch] digit_facts(5)
  show "produces (reads_expr (NumberLiteral v raw sp) (pre @ raw) rest)
      (parse_inline_expression pp pa (at_text pre (raw @ rest)) ctx)"
    "produces (reads_expr (NumberLiteral v raw sp) (pre @ raw) rest)
      (argument_expression_body pp pa (at_text pre (raw @ rest)) ctx)"
    by (auto simp: parse_inline_expression_def argument_expression_body_def parse_inline_hyphen_def)
qed

lemma dispatch_term:
  assumes "printable (TermReference i a args sp)" "serialize_expression L d (TermReference i a args sp) = Inr s"
    and "produces Q (parse_term_reference pa (at_text pre (s @ rest)) ctx)"
  shows "produces Q (parse_inline_expression pp pa (at_text pre (s @ rest)) ctx)"
    "produces Q (argument_expression_body pp pa (at_text pre (s @ rest)) ctx)"
proof -
  have "grammar_identifier (id_name i)" using assms(1) by (cases args) simp_all
  then obtain ch t where "id_name i = ch # t" "is_identifier_start ch" using identifier_starts by blast
  with assms(2) obtain u where "s = CH_MINUS # ch # u" by (cases args) (auto simp: cat_Inr_iff)
  with assms(3) \<open>is_identifier_start ch\<close> show
    "produces Q (parse_inline_expression pp pa (at_text pre (s @ rest)) ctx)"
    "produces Q (argument_expression_body pp pa (at_text pre (s @ rest)) ctx)"
    by (simp_all add: parse_inline_expression_def argument_expression_body_def parse_inline_hyphen_def)
qed

lemma inline_printed:
  assumes "printable e" "is_inline e" "serialize_expression L d e = Inr s"
    and "nesting_expr e \<le> n" "nesting_expr e \<le> depth_left ctx" "follows_expr rest"
  shows "produces (reads_expr e (pre @ s) rest) (parse_inline_expression pp pa (at_text pre (s @ rest)) ctx) \<and>
    produces (reads_expr e (pre @ s) rest) (argument_expression_body pp pa (at_text pre (s @ rest)) ctx)"
proof (cases e)
  case (StringLiteral v sp)
  with assms parse_string_printed [of v sp pre rest] show ?thesis
    by (simp add: parse_inline_expression_def argument_expression_body_def quote_string_def)
next
  case (NumberLiteral v raw sp)
  with assms dispatch_number show ?thesis by simp
next
  case (VariableReference i sp)
  with assms parse_variable_reference_printed [of i rest sp pre] show ?thesis
    by (simp add: parse_inline_expression_def argument_expression_body_def)
next
  case (MessageReference i a sp)
  with assms have i: "grammar_identifier (id_name i)" and a: "pred_option (\<lambda>b. grammar_identifier (id_name b)) a"
    and s: "s = id_name i @ attribute_suffix a" by auto
  from inline_identifier_printed [OF i assms(6) a] show ?thesis
    unfolding MessageReference s append.assoc using dispatch_identifier [OF i] by blast
next
  case (TermReference i a args sp)
  with term_reference_printed [of i a args sp L d s ctx rest pre] assms dispatch_term [of i a args sp L d s]
  show ?thesis by simp
next
  case (FunctionReference i args sp)
  with assms obtain t where i: "grammar_identifier (id_name i)" and args: "printable_args args"
    and t: "serialize_call_arguments L d args = Inr t" and s: "s = id_name i @ t"
    by (auto simp: cat_Inr_iff)
  have "produces (reads_expr (FunctionReference i args sp) (pre @ id_name i @ t) rest)
    (parse_inline_identifier pa (at_text pre (id_name i @ t @ rest)) ctx)"
    using assms FunctionReference by (intro inline_function_printed [OF i args t]) simp_all
  then show ?thesis
    unfolding FunctionReference s append.assoc using dispatch_identifier [OF i] by blast
next
  case (NestedPlaceable p)
  obtain e' sp where p: "p = Placeable e' sp" by (cases p)
  from assms(3) obtain t where t: "serialize_expression L (d + 1) e' = Inr t"
    and s: "s = [CH_LBRACE, CH_SPACE] @ t @ [CH_SPACE, CH_RBRACE]"
    by (auto simp: NestedPlaceable p cat_Inr_iff with_guard_Inr_iff)
  with nested_placeable_printed [OF _ t, of ctx sp pre rest] assms show ?thesis
    by (simp add: NestedPlaceable p parse_inline_expression_def argument_expression_body_def is_ascii_digit_def)
qed (use assms in \<open>simp add: is_inline_def\<close>)

end

end
