(* ===== verification/Printed_Patterns.thy ===== *)
theory Printed_Patterns
  imports Printed_Inline
begin

text \<open>
  Patterns read back.  The two loops over a pattern, of messages and of variants, take the
  same steps on what the serializer writes; the locale \<open>pattern_reader\<close> states these steps, and
  its theorem is that the elements are read back.
\<close>

section \<open>Lines of text\<close>

lemma adv_while_split:
  "adv_while P (at_text pre r) = at_text (pre @ takeWhile P r) (dropWhile P r)"
proof -
  have "stops P (dropWhile P r)"
    using hd_dropWhile [of P r] by (cases "dropWhile P r") (simp_all del: dropWhile_eq_Nil_conv)
  then show ?thesis
    using adv_while_at_text [of P "takeWhile P r" "dropWhile P r" pre] set_takeWhileD [of _ P r]
    by (simp only: takeWhile_dropWhile_id list_all_iff) blast
qed

lemma cur_at_text_case: "cur (at_text pre r) = (case r of [] \<Rightarrow> None | ch # _ \<Rightarrow> Some ch)"
  by (cases r) simp_all

text \<open>The text after a line feed continues the pattern.\<close>

definition continues :: "ustr \<Rightarrow> bool" where
  "continues r \<longleftrightarrow>
     (case dropWhile (\<lambda>ch. ch = CH_LF) r of
        [] \<Rightarrow> False
      | ch # _ \<Rightarrow> ch = CH_SPACE \<and>
          (case dropWhile (\<lambda>ch. ch = CH_SPACE) (dropWhile (\<lambda>ch. ch = CH_LF) r) of
             [] \<Rightarrow> True
           | x # _ \<Rightarrow> x \<notin> {CH_LBRACKET, CH_STAR, CH_DOT, CH_RBRACE}))"

lemma is_indented_continuation_at_text:
  "is_indented_continuation (at_text pre (CH_LF # r)) = continues r"
proof (cases "dropWhile (\<lambda>ch. ch = CH_LF) r")
  case Nil
  then show ?thesis by (simp add: is_indented_continuation_def continues_def adv_while_split Let_def del: adv_while_step dropWhile_eq_Nil_conv)
next
  case (Cons ch t)
  then show ?thesis
    by (cases "ch = CH_SPACE"; cases "dropWhile (\<lambda>ch. ch = CH_SPACE) (ch # t)")
      (simp_all add: is_indented_continuation_def continues_def adv_while_split Let_def del: adv_while_step dropWhile.simps takeWhile.simps dropWhile_eq_Nil_conv)
qed

definition pattern_end :: "ustr \<Rightarrow> bool" where
  "pattern_end rest \<longleftrightarrow> (case rest of [] \<Rightarrow> True | ch # r \<Rightarrow> ch = CH_LF \<and> \<not> continues r)"

text \<open>What a continuation line starts with: not a blank, not a character that ends the pattern.\<close>

definition line_text_start :: "uchar \<Rightarrow> bool" where
  "line_text_start ch \<longleftrightarrow> ch \<notin> {CH_SPACE, CH_LF, CH_LBRACKET, CH_STAR, CH_DOT, CH_RBRACE}"

abbreviation line_break :: ustr where
  "line_break \<equiv> CH_LF # CONT_INDENT"

lemma continues_indented: "line_text_start ch \<Longrightarrow> continues (CONT_INDENT @ ch # r)"
  by (simp add: continues_def CONT_INDENT_def line_text_start_def numeral_eq_Suc)

lemma count_leading_spaces_at_text:
  "count_leading_spaces (at_text pre r) = length (takeWhile (\<lambda>ch. ch = CH_SPACE) r)"
  using arg_cong [OF adv_while_split [of "\<lambda>ch. ch = CH_SPACE" pre r], of pos]
  by (simp add: count_leading_spaces_def adv_while_def)

lemma continue_line_printed:
  assumes "line_text_start ch" "indent = None \<or> indent = Some 4"
  shows "continue_line (at_text pre (line_break @ ch # r)) indent [] es =
    (at_text (pre @ line_break) (ch # r), Some 4, [], append_newline_to_elements es)"
  using assms
  by (auto simp: continue_line_def process_continuation_line_def skip_common_indent_def CONT_INDENT_def
      line_text_start_def count_leading_spaces_at_text numeral_eq_Suc Let_def)

lemma escape_plain: "list_all (text_char b) w \<Longrightarrow> escape_text w = w"
proof (cases w)
  case (Cons ch w')
  assume "list_all (text_char b) w"
  then have "\<not> is_brace ch" "takeWhile (\<lambda>c. \<not> is_brace c) w' = w'"
    by (auto simp: Cons text_char_def is_brace_def list_all_iff takeWhile_eq_all_conv)
  then show ?thesis by (simp add: Cons dropWhile_eq_Nil_conv [THEN iffD2] takeWhile_eq_all_conv)
qed simp

lemma emit_plain_line:
  assumes "list_all (text_char b) w" "w \<noteq> []" "line_start_ok LineStart (hd w)"
  shows "emit_classified_line w = w"
proof -
  obtain ch w' where w: "w = ch # w'" using assms(2) by (cases w) auto
  with assms(3) have "classify_line w = (NORMAL, 0)"
    by (simp add: classify_line_def line_start_ok_def)
  with escape_plain [OF assms(1)] show ?thesis by (simp add: emit_classified_line_def)
qed

lemma text_char_no_newline: "list_all (text_char b) w \<Longrightarrow> CH_LF \<notin> set w"
  by (auto simp: list_all_iff text_char_def)

lemma str_split_line: "CH_LF \<notin> set w \<Longrightarrow> str_split CH_LF (w @ [CH_LF]) = [w, []]"
  by (induction w) auto

lemma text_lines_plain:
  assumes "list_all (text_char b) w" "w \<noteq> []" "st \<noteq> AfterText" "line_start_ok st (hd w)"
  shows "text_lines (st = LineStart) w = (w, False)"
    "text_lines (st = LineStart) (w @ [CH_LF]) = (w @ line_break, True)"
  using text_char_no_newline [OF assms(1)] emit_plain_line [OF assms(1,2)] escape_plain [OF assms(1)] assms(4)
  by (cases "st = LineStart"; auto simp: text_lines_def str_split_line emit_classified_line_def [of "[]"] classify_line_def [of "[]"])+

lemma text_lines_newline: "text_lines False [CH_LF] = (line_break, True)"
  by (simp add: text_lines_def emit_classified_line_def classify_line_def)


section \<open>The loop over a pattern\<close>

type_synonym loop_fn =
  "nat \<Rightarrow> cursor \<Rightarrow> nat option \<Rightarrow> ustr list \<Rightarrow> pattern_element list \<Rightarrow> pattern_element list parse_result parser"

text \<open>After a run of text: the end, a line feed or a placeable.\<close>

definition run_end :: "ustr \<Rightarrow> bool" where
  "run_end r \<longleftrightarrow> (case r of [] \<Rightarrow> True | ch # _ \<Rightarrow> ch = CH_LF \<or> ch = CH_LBRACE)"

definition reads_elements :: "pattern_element list \<Rightarrow> pattern_element list \<Rightarrow> ustr \<Rightarrow> ustr \<Rightarrow>
    pattern_element list parse_result \<Rightarrow> bool" where
  "reads_elements acc es pre rest r \<longleftrightarrow>
     (\<exists>es'. fst r = acc @ es' \<and> map erase_element es' = map erase_element es \<and> snd r = at_text pre rest)"

lemma reads_elements_step:
  "erase_element el = erase_element el' \<Longrightarrow> reads_elements (acc @ [el]) es pre rest r \<Longrightarrow>
     reads_elements acc (el' # es) pre rest r"
  by (auto simp: reads_elements_def)

text \<open>A text element is a line feed after a placeable, or a line, perhaps with its line feed.\<close>

lemma layout_text_cases:
  assumes "layout_ok b st (TextElement v sp # es)"
  obtains (newline) "v = [CH_LF]" "st = AfterPlaceable" "layout_ok b LineStart es"
    | (run) "v \<noteq> []" "list_all (text_char b) v" "line_start_ok st (hd v)" "st \<noteq> AfterText" "layout_ok b AfterText es"
    | (line) w where "v = w @ [CH_LF]" "w \<noteq> []" "list_all (text_char b) w" "line_start_ok st (hd w)"
        "st \<noteq> AfterText" "layout_ok b LineStart es"
proof (cases "v = [CH_LF]")
  case True
  with assms newline show thesis by simp
next
  case False
  with assms have v: "v \<noteq> []" "line_start_ok st (hd v)" and st: "st \<noteq> AfterText"
    by (auto simp: line_start_ok_def split: if_splits)
  show thesis
  proof (cases "last v = CH_LF")
    case True
    with v have w: "v = butlast v @ [CH_LF]" by (metis append_butlast_last_id)
    with False have "butlast v \<noteq> []" by (metis append_Nil)
    moreover from this w have "hd v = hd (butlast v)" by (metis hd_append2)
    ultimately show thesis using line [OF w] assms False True v st by auto
  next
    case neq: False
    with run assms False v st show thesis by auto
  qed
qed

lemma line_text_start_of:
  "text_char b ch \<Longrightarrow> line_start_ok LineStart ch \<Longrightarrow> line_text_start ch"
  by (auto simp: text_char_def line_start_ok_def line_text_start_def line_start_syntax_chars_def)

fun element_expr :: "pattern_element \<Rightarrow> expression option" where
  "element_expr (TextElement v sp) = None"
| "element_expr (PlaceableElement (Placeable e sp)) = Some e"

locale pattern_reader =
  fixes loop :: loop_fn and in_variant :: bool and readable :: "expression \<Rightarrow> bool"
  assumes loop_end: "pattern_end rest \<Longrightarrow> loop (Suc m) (at_text pre rest) indent [] acc = ret (acc, at_text pre rest)"
    and loop_text: "list_all (text_char in_variant) w \<Longrightarrow> w \<noteq> [] \<Longrightarrow> run_end r \<Longrightarrow>
      loop (Suc m) (at_text pre (w @ r)) indent [] acc = loop m (at_text (pre @ w) r) indent [] (acc @ [TextElement w None])"
    and loop_line: "line_text_start ch \<Longrightarrow> indent = None \<or> indent = Some 4 \<Longrightarrow>
      loop (Suc m) (at_text pre (line_break @ ch # r)) indent [] acc =
      loop m (at_text (pre @ line_break) (ch # r)) (Some 4) [] (append_newline_to_elements acc)"
    and loop_placeable: "readable e \<Longrightarrow> printable e \<Longrightarrow> serialize_expression L d e = Inr s \<Longrightarrow>
      (\<And>p. erase_placeable p = Placeable (erase_expr e) None \<Longrightarrow>
        produces Q (loop m (at_text (pre @ [CH_LBRACE, CH_SPACE] @ s @ [CH_SPACE, CH_RBRACE]) rest) indent []
          (acc @ [PlaceableElement p]))) \<Longrightarrow>
      produces Q (loop (Suc m) (at_text pre (CH_LBRACE # CH_SPACE # s @ CH_SPACE # CH_RBRACE # rest)) indent [] acc)"
begin

text \<open>What follows on a new line starts it.\<close>

lemma line_starts:
  assumes "layout_ok in_variant LineStart es" "serialize_elements L d 0 True es = Inr s"
  shows "\<exists>ch t. s = ch # t \<and> line_text_start ch"
proof (cases es)
  case (Cons el es')
  show ?thesis
  proof (cases el)
    case (TextElement v sp)
    have starts: "\<exists>ch t. w @ x = ch # t \<and> line_text_start ch"
      if "w \<noteq> []" "list_all (text_char in_variant) w" "line_start_ok LineStart (hd w)" for w x
      using that by (cases w) (auto intro: line_text_start_of)
    from assms(1) show ?thesis unfolding Cons TextElement
    proof (cases rule: layout_text_cases)
      case run
      with starts [OF run(1-3)] assms(2) text_lines_plain(1) [OF run(2,1) _ run(3)] show ?thesis
        by (auto simp: Cons TextElement cat_Inr_iff)
    next
      case (line w)
      with starts [OF line(2-4)] assms(2) text_lines_plain(2) [OF line(3,2) _ line(4)] show ?thesis
        by (auto simp: Cons TextElement cat_Inr_iff)
    qed simp
  next
    case (PlaceableElement p)
    with Cons assms(2) show ?thesis by (cases p) (auto simp: cat_Inr_iff line_text_start_def)
  qed
qed (use assms in simp)

text \<open>A run of text ends where the next element or the pattern ends it.\<close>

lemma run_ends:
  assumes "layout_ok in_variant AfterText es" "serialize_elements L d 0 False es = Inr s" "pattern_end rest"
  shows "run_end (s @ rest)"
proof (cases es)
  case Nil
  with assms show ?thesis by (auto simp: run_end_def pattern_end_def split: list.splits)
next
  case (Cons el es')
  show ?thesis
  proof (cases el)
    case (TextElement v sp)
    from assms(1) show ?thesis unfolding Cons TextElement
      by (cases rule: layout_text_cases) simp_all
  next
    case (PlaceableElement p)
    with Cons assms(2) show ?thesis by (cases p) (auto simp: cat_Inr_iff run_end_def)
  qed
qed

lemma elements_printed:
  assumes "layout_ok in_variant st es" "list_all printable_element es"
    and "list_all (\<lambda>el. pred_option readable (element_expr el)) es"
    and "serialize_elements L d 0 (st = LineStart) es = Inr s" "pattern_end rest" "length s < m"
    and "indent = None \<or> indent = Some 4" "st = AfterPlaceable \<longrightarrow> (\<exists>acc' p. acc = acc' @ [PlaceableElement p])"
  shows "produces (reads_elements acc es (pre @ s) rest) (loop m (at_text pre (s @ rest)) indent [] acc)"
  using assms
proof (induction es arbitrary: st s m pre indent acc)
  case Nil
  then obtain m' where "m = Suc m'" by (cases m) auto
  with Nil show ?case by (simp add: loop_end reads_elements_def)
next
  case (Cons el es)
  obtain m' where m: "m = Suc m'" using Cons.prems(6) by (cases m) auto
  show ?case
  proof (cases el)
    case (TextElement v sp)
    from Cons.prems(1) show ?thesis unfolding TextElement
    proof (cases rule: layout_text_cases)
      case newline
      obtain r where r: "serialize_elements L d 0 True es = Inr r" and s: "s = line_break @ r"
        using Cons.prems(4) text_lines_newline by (auto simp: TextElement newline cat_Inr_iff)
      obtain ch t where ch: "r = ch # t" "line_text_start ch" using line_starts [OF newline(3) r] by blast
      obtain acc' p where acc: "acc = acc' @ [PlaceableElement p]" using Cons.prems(8) newline(2) by blast
      let ?acc = "acc @ [TextElement [CH_LF] None]"
      have "produces (reads_elements ?acc es ((pre @ line_break) @ r) rest)
          (loop m' (at_text (pre @ line_break) (r @ rest)) (Some 4) [] ?acc)"
        using Cons.prems r s m newline by (intro Cons.IH [where st = LineStart]) auto
      then have "produces (reads_elements acc (TextElement v sp # es) (pre @ s) rest)
          (loop m' (at_text (pre @ line_break) (r @ rest)) (Some 4) [] ?acc)"
        by (rule produces_mono)
          (rule reads_elements_step [where el = "TextElement [CH_LF] None"], simp_all add: newline s)
      then show "produces (reads_elements acc (TextElement v sp # es) (pre @ s) rest)
          (loop m (at_text pre (s @ rest)) indent [] acc)"
        using loop_line [OF ch(2) Cons.prems(7), of m' pre "t @ rest" acc]
        by (simp add: m s ch(1) acc append_newline_to_elements_def)
    next
      case run
      obtain r where r: "serialize_elements L d 0 False es = Inr r" and s: "s = v @ r"
        using Cons.prems(4) text_lines_plain(1) [OF run(2,1,4,3)] by (auto simp: TextElement cat_Inr_iff)
      have len: "length r < m'" using Cons.prems(6) run(1) by (cases v) (auto simp: m s)
      let ?acc = "acc @ [TextElement v None]"
      have "produces (reads_elements ?acc es ((pre @ v) @ r) rest) (loop m' (at_text (pre @ v) (r @ rest)) indent [] ?acc)"
        using Cons.prems r len run by (intro Cons.IH [where st = AfterText]) auto
      then have "produces (reads_elements acc (TextElement v sp # es) (pre @ s) rest)
          (loop m' (at_text (pre @ v) (r @ rest)) indent [] ?acc)"
        by (rule produces_mono) (rule reads_elements_step [where el = "TextElement v None"], simp_all add: s)
      then show "produces (reads_elements acc (TextElement v sp # es) (pre @ s) rest)
          (loop m (at_text pre (s @ rest)) indent [] acc)"
        using loop_text [OF run(2,1) run_ends [OF run(5) r Cons.prems(5)], of m' pre indent acc] by (simp add: m s)
    next
      case (line w)
      obtain r where r: "serialize_elements L d 0 True es = Inr r" and s: "s = w @ line_break @ r"
        using Cons.prems(4) text_lines_plain(2) [OF line(3,2,5,4)] by (auto simp: TextElement line(1) cat_Inr_iff)
      obtain ch t where ch: "r = ch # t" "line_text_start ch" using line_starts [OF line(6) r] by blast
      obtain m'' where m'': "m' = Suc m''" using Cons.prems(6) m s by (cases m') auto
      have len: "length r < m''" using Cons.prems(6) line(2) by (cases w) (auto simp: m s m'')
      let ?acc = "acc @ [TextElement v None]" and ?pre = "pre @ w @ line_break"
      have "produces (reads_elements ?acc es (?pre @ r) rest) (loop m'' (at_text ?pre (r @ rest)) (Some 4) [] ?acc)"
        using Cons.prems r len line by (intro Cons.IH [where st = LineStart]) auto
      then have "produces (reads_elements acc (TextElement v sp # es) (pre @ s) rest)
          (loop m'' (at_text ?pre (r @ rest)) (Some 4) [] ?acc)"
        by (rule produces_mono) (rule reads_elements_step [where el = "TextElement v None"], simp_all add: s)
      moreover have "run_end (line_break @ r @ rest)" by (simp add: run_end_def)
      ultimately show "produces (reads_elements acc (TextElement v sp # es) (pre @ s) rest)
          (loop m (at_text pre (s @ rest)) indent [] acc)"
        using loop_text [OF line(3,2), of "line_break @ r @ rest" m' pre indent acc]
          loop_line [OF ch(2) Cons.prems(7), of m'' "pre @ w" "t @ rest" "acc @ [TextElement w None]"]
        by (simp add: m m'' s ch(1) line(1) append_newline_to_elements_def)
    qed
  next
    case (PlaceableElement p)
    obtain e sp where p: "p = Placeable e sp" by (cases p)
    from Cons.prems(4) obtain t r where t: "serialize_expression L (d + 1) e = Inr t"
      and r: "serialize_elements L d 0 False es = Inr r" and s: "s = [CH_LBRACE, CH_SPACE] @ t @ [CH_SPACE, CH_RBRACE] @ r"
      by (auto simp: PlaceableElement p cat_Inr_iff with_guard_Inr_iff)
    have "produces (reads_elements acc (el # es) (pre @ s) rest)
        (loop (Suc m') (at_text pre (CH_LBRACE # CH_SPACE # t @ CH_SPACE # CH_RBRACE # r @ rest)) indent [] acc)"
    proof (rule loop_placeable [OF _ _ t])
      fix q assume q: "erase_placeable q = Placeable (erase_expr e) None"
      have "produces (reads_elements (acc @ [PlaceableElement q]) es ((pre @ [CH_LBRACE, CH_SPACE] @ t @ [CH_SPACE, CH_RBRACE]) @ r) rest)
          (loop m' (at_text (pre @ [CH_LBRACE, CH_SPACE] @ t @ [CH_SPACE, CH_RBRACE]) (r @ rest)) indent [] (acc @ [PlaceableElement q]))"
        using Cons.prems r s m by (intro Cons.IH [where st = AfterPlaceable]) (auto simp: PlaceableElement)
      then show "produces (reads_elements acc (el # es) (pre @ s) rest)
          (loop m' (at_text (pre @ [CH_LBRACE, CH_SPACE] @ t @ [CH_SPACE, CH_RBRACE]) (r @ rest)) indent [] (acc @ [PlaceableElement q]))"
        by (rule produces_mono) (rule reads_elements_step [where el = "PlaceableElement q"], simp_all add: PlaceableElement p q s)
    qed (use Cons.prems in \<open>simp_all add: PlaceableElement p\<close>)
    then show ?thesis by (simp add: s m)
  qed
qed

end

end
