(* ===== verification/Printed_Elements.thy ===== *)
theory Printed_Elements
  imports Printed_Patterns
begin

text \<open>
  The loops of message patterns and of variant patterns take the steps of \<open>pattern_reader\<close>,
  and blank trimming leaves what they collect alone.
\<close>

section \<open>Both loops take the steps\<close>

lemma add_text_run_at_text:
  "w \<noteq> [] \<Longrightarrow> add_text_run [] acc (at_text pre (w @ r)) (at_text (pre @ w) r) = ([], acc @ [TextElement w None])"
  by (simp add: add_text_run_def str_slice_at_text)

lemma flush_text_Nil [simp]: "flush_text [] acc = acc"
  by (simp add: flush_text_def)

lemma line_break_append: "line_break @ r = CH_LF # CONT_INDENT @ r"
  by simp

lemma simple_text_end_at_text:
  "list_all (text_char True) w \<Longrightarrow> run_end r \<Longrightarrow> simple_text_end (at_text pre (w @ r)) = at_text (pre @ w) r"
proof (induction w arbitrary: pre)
  case Nil
  then show ?case by (subst simple_text_end.simps) (cases r, auto simp: run_end_def)
next
  case (Cons ch w)
  then show ?case by (simp add: simple_text_end.simps [of "at_text pre (ch # w @ r)"] text_char_def)
qed

lemma text_run_at_text:
  assumes "list_all (text_char b) w" "run_end r"
  shows "adv_while (\<lambda>ch. ch \<noteq> CH_LBRACE \<and> ch \<noteq> CH_LF) (at_text pre (w @ r)) = at_text (pre @ w) r"
  using assms by (intro adv_while_at_text) (auto simp: text_char_def list_all_iff run_end_def stops_def split: list.splits)

definition in_reach :: "nat \<Rightarrow> parse_context \<Rightarrow> expression \<Rightarrow> bool" where
  "in_reach n ctx e \<longleftrightarrow> nesting_expr e < n \<and> nesting_expr e < depth_left ctx"

sublocale printed_parser \<subseteq> whole: pattern_reader "pattern_loop pp ctx" False "in_reach n ctx" for ctx
proof (unfold_locales, goal_cases)
  case (1 rest m pre indent acc)
  then show ?case
    by (cases rest) (auto simp: pattern_end_def is_indented_continuation_at_text)
next
  case (2 w r m pre indent acc)
  then obtain ch t where w: "w = ch # t" by (cases w) auto
  with 2 have "ch \<noteq> CH_LF" "ch \<noteq> CH_LBRACE" by (simp_all add: text_char_def)
  with text_run_at_text [OF 2(1,3), of pre] add_text_run_at_text [OF 2(2), of acc pre r] show ?case
    by (simp add: w del: adv_while_step)
next
  case (3 ch indent m pre r acc)
  with continue_line_printed [OF 3] continues_indented [OF 3(1)] show ?case
    by (simp add: is_indented_continuation_at_text)
next
  case (4 e L d s Q m pre rest indent acc)
  then show ?case
    apply (simp del: erase_placeable.simps)
    apply (rule produces_and_then [OF placeable_printed [OF 4(2,3), of ctx "pre @ [CH_LBRACE]" rest]])
    by (auto simp: in_reach_def reads_placeable_def)
qed


sublocale printed_parser \<subseteq> simple: pattern_reader "simple_pattern_loop pp ctx" True "in_reach n ctx" for ctx
proof (unfold_locales, goal_cases)
  case (1 rest m pre indent acc)
  then show ?case
    by (cases rest) (auto simp: pattern_end_def is_indented_continuation_at_text)
next
  case (2 w r m pre indent acc)
  then obtain ch t where w: "w = ch # t" by (cases w) auto
  with 2 have "ch \<notin> {CH_LF, CH_LBRACE, CH_RBRACE, CH_LBRACKET, CH_STAR}" by (simp add: text_char_def)
  with simple_text_end_at_text [OF 2(1,3), of pre] add_text_run_at_text [OF 2(2), of acc pre r] show ?case
    by (simp add: w)
next
  case (3 ch indent m pre r acc)
  with continue_line_printed [OF 3] continues_indented [OF 3(1)] show ?case
    by (simp add: is_indented_continuation_at_text)
next
  case (4 e L d s Q m pre rest indent acc)
  then show ?case
    apply (simp del: erase_placeable.simps)
    apply (rule produces_and_then [OF placeable_printed [OF 4(2,3), of ctx "pre @ [CH_LBRACE]" rest]])
    by (auto simp: in_reach_def reads_placeable_def)
qed


section \<open>Whole patterns\<close>

lemma layout_ok_erase [simp]: "layout_ok b st (map erase_element es) = layout_ok b st es"
proof (induction es arbitrary: st)
  case (Cons el es)
  then show ?case by (cases el) simp_all
qed simp

lemma layout_ok_same:
  assumes "map erase_element es' = map erase_element es" "layout_ok b st es"
  shows "layout_ok b st es'"
  using assms layout_ok_erase by metis

lemma layout_last_text:
  "layout_ok b st es \<Longrightarrow> es \<noteq> [] \<Longrightarrow> last es = TextElement v sp \<Longrightarrow> CH_LF \<notin> set v"
proof (induction es arbitrary: st)
  case (Cons el es)
  show ?case
  proof (cases "es = []")
    case True
    with Cons.prems have "layout_ok b st (TextElement v sp # [])" by simp
    then show ?thesis by (cases rule: layout_text_cases) (auto dest: text_char_no_newline)
  next
    case False
    have "\<exists>st'. layout_ok b st' es"
      using Cons.prems(1) by (cases el) (auto split: if_splits)
    with False Cons.IH Cons.prems(3) show ?thesis by auto
  qed
qed simp

lemma str_rfind_no_newline: "CH_LF \<notin> set v \<Longrightarrow> str_rfind CH_LF v (length v) = None"
  by (simp add: str_rfind_def rfind_in_None)

lemma trim_trailing_plain:
  assumes "layout_ok b st es"
  shows "trim_trailing_rev (rev es) = rev es"
proof (cases es rule: rev_cases)
  case (snoc es' el)
  with layout_last_text [OF assms] show ?thesis by (cases el) (auto simp: str_rfind_no_newline)
qed simp

lemma trim_leading_plain:
  assumes "layout_ok b FirstElement es"
  shows "map erase_element (trim_leading es) = map erase_element es" "layout_ok b FirstElement (trim_leading es)"
proof -
  have "map erase_element (trim_leading es) = map erase_element es"
  proof (cases es)
    case (Cons el es')
    show ?thesis
    proof (cases el)
      case (TextElement v sp)
      have drop: "dropWhile (\<lambda>ch. ch = CH_SPACE \<or> ch = CH_LF) (w @ x) = w @ x"
        if "w \<noteq> []" "list_all (text_char b) w" "line_start_ok FirstElement (hd w)" for w x
        using that by (cases w) (auto simp: text_char_def line_start_ok_def)
      from assms show ?thesis unfolding Cons TextElement
      proof (cases rule: layout_text_cases)
        case run
        with drop [OF run(1-3), of "[]"]
        show "map erase_element (trim_leading (TextElement v sp # es')) = map erase_element (TextElement v sp # es')"
          by simp
      next
        case (line w)
        with drop [OF line(2-4), of "[CH_LF]"]
        show "map erase_element (trim_leading (TextElement v sp # es')) = map erase_element (TextElement v sp # es')"
          by simp
      qed simp
    qed (simp add: Cons)
  qed simp
  then show "map erase_element (trim_leading es) = map erase_element es" "layout_ok b FirstElement (trim_leading es)"
    using layout_ok_same [OF _ assms] by blast+
qed

lemma trim_printed:
  assumes "map erase_element es' = map erase_element es" "layout_ok b FirstElement es"
  shows "map erase_element (trim_pattern_blank_lines es') = map erase_element es"
  using assms trim_leading_plain [of b es'] trim_trailing_plain [of b FirstElement "trim_leading es'"] layout_ok_same [OF assms]
  by (simp add: trim_pattern_blank_lines_def)

text \<open>Neither of the two special layouts is used.\<close>

lemma indented_line_inside_plain: "CH_LF \<notin> set w \<Longrightarrow> \<not> indented_line_inside w \<and> \<not> indented_line_inside (w @ [CH_LF])"
  by (induction w) auto

lemma separate_line_loop_plain:
  "layout_ok b st es \<Longrightarrow> \<not> separate_line_loop (st = LineStart) es"
proof (induction es arbitrary: st)
  case (Cons el es)
  show ?case
  proof (cases el)
    case (TextElement v sp)
    from Cons.prems show ?thesis unfolding TextElement
    proof (cases rule: layout_text_cases)
      case newline
      with Cons.IH [OF newline(3)] show "\<not> separate_line_loop (st = LineStart) (TextElement v sp # es)" by simp
    next
      case run
      have no: "CH_LF \<notin> set v" using run(2) by (rule text_char_no_newline)
      then have "last v \<noteq> CH_LF" using run(1) by (metis last_in_set)
      with Cons.IH [OF run(5)] run no indented_line_inside_plain [OF no]
      show "\<not> separate_line_loop (st = LineStart) (TextElement v sp # es)"
        by (auto simp: line_start_ok_def)
    next
      case (line w)
      with Cons.IH [OF line(6)] indented_line_inside_plain [OF text_char_no_newline [OF line(3)]]
      show "\<not> separate_line_loop (st = LineStart) (TextElement v sp # es)"
        by (auto simp: line_start_ok_def)
    qed
  next
    case (PlaceableElement p)
    with Cons.IH [of AfterPlaceable] Cons.prems show ?thesis by simp
  qed
qed simp

lemma leading_blanks_plain: "layout_ok b FirstElement es \<Longrightarrow> leading_blanks es = 0"
proof (cases es)
  case (Cons el es')
  assume layout: "layout_ok b FirstElement es"
  show ?thesis
  proof (cases el)
    case (TextElement v sp)
    from layout show ?thesis unfolding Cons TextElement
      by (cases rule: layout_text_cases) (auto simp: leading_blanks_def line_start_ok_def takeWhile_eq_Nil_iff)
  qed (simp add: Cons leading_blanks_def)
qed (simp add: leading_blanks_def)

lemma serialize_pattern_plain:
  assumes "layout_ok b FirstElement es"
  shows "serialize_pattern L d (Pattern es sp) = serialize_elements L d 0 False es"
  using separate_line_loop_plain [OF assms] leading_blanks_plain [OF assms]
  by (simp add: pattern_needs_separate_line_def)

end
