(* ===== verification/Printed_Selects.thy ===== *)
theory Printed_Selects
  imports Printed_Elements
begin

text \<open>
  Patterns, variants and select expressions read back, and the knot: placeables nested to any
  depth, by induction on the fuel.
\<close>

definition reads_pattern :: "pattern \<Rightarrow> ustr \<Rightarrow> ustr \<Rightarrow> pattern parse_result \<Rightarrow> bool" where
  "reads_pattern p pre rest r \<longleftrightarrow> erase_pattern (fst r) = erase_pattern p \<and> snd r = at_text pre rest"

lemma elements_in_reach:
  assumes "nesting_pattern (Pattern es sp) \<le> n" "nesting_pattern (Pattern es sp) \<le> depth_left ctx"
  shows "list_all (\<lambda>el. pred_option (in_reach n ctx) (element_expr el)) es"
  unfolding list_all_iff
proof
  fix el assume "el \<in> set es"
  with assms have "nesting_element el \<le> n" "nesting_element el \<le> depth_left ctx"
    using max_list_mem [of "nesting_element el" "map nesting_element es"] by auto
  then show "pred_option (in_reach n ctx) (element_expr el)"
    by (cases el rule: element_expr.cases) (auto simp: in_reach_def)
qed

lemma reads_elements_pattern:
  assumes "reads_elements [] es pre rest r" "layout_ok b FirstElement es"
  shows "reads_pattern (Pattern es sp) pre rest (Pattern (trim_pattern_blank_lines (fst r)) None, snd r)"
  using assms trim_printed [OF _ assms(2)] by (auto simp: reads_elements_def reads_pattern_def)

lemma pattern_no_blank:
  assumes "layout_ok b FirstElement es" "serialize_elements L d 0 False es = Inr s"
  shows "s = [] \<or> (\<exists>ch t. s = ch # t \<and> ch \<noteq> CH_SPACE \<and> ch \<noteq> CH_LF)"
proof (cases es)
  case (Cons el es')
  show ?thesis
  proof (cases el)
    case (TextElement v sp)
    have starts: "\<exists>ch t. w @ x = ch # t \<and> ch \<noteq> CH_SPACE \<and> ch \<noteq> CH_LF"
      if "w \<noteq> []" "list_all (text_char b) w" "line_start_ok FirstElement (hd w)" for w x
      using that by (cases w) (auto simp: text_char_def line_start_ok_def)
    from assms(1) show ?thesis unfolding Cons TextElement
    proof (cases rule: layout_text_cases)
      case run
      with starts [OF run(1-3)] assms(2) text_lines_plain(1) [OF run(2,1,4,3)] show ?thesis
        by (auto simp: Cons TextElement cat_Inr_iff)
    next
      case (line w)
      with starts [OF line(2-4)] assms(2) text_lines_plain(2) [OF line(3,2,5,4)] show ?thesis
        by (auto simp: Cons TextElement cat_Inr_iff)
    qed simp
  next
    case (PlaceableElement p)
    with Cons assms(2) show ?thesis by (cases p) (auto simp: cat_Inr_iff)
  qed
qed (use assms in simp)

context printed_parser
begin

lemma parse_pattern_printed:
  assumes "printable_pattern False p" "serialize_pattern L d p = Inr s"
    and "nesting_pattern p \<le> n" "nesting_pattern p \<le> depth_left ctx" "pattern_end rest"
  shows "produces (reads_pattern p (pre @ s) rest) (parse_pattern pp (at_text pre (s @ rest)) ctx (Some 0))"
proof -
  obtain es sp where p: "p = Pattern es sp" by (cases p)
  with assms have layout: "layout_ok False FirstElement es" and es: "list_all printable_element es" by auto
  have s: "serialize_elements L d 0 (FirstElement = LineStart) es = Inr s"
    using assms(2) serialize_pattern_plain [OF layout] by (simp add: p)
  have loop: "produces (reads_elements [] es (pre @ s) rest)
      (pattern_loop pp ctx (Suc (remaining (at_text pre (s @ rest)))) (at_text pre (s @ rest)) None [] [])"
    using elements_in_reach assms(3,4)
    by (intro whole.elements_printed [OF layout es _ s assms(5)]) (auto simp: p)
  show ?thesis
    unfolding parse_pattern_def Let_def p option.case if_True refl [THEN eqTrueI]
  proof (rule produces_and_then [OF loop])
    fix r assume "reads_elements [] es (pre @ s) rest r"
    from reads_elements_pattern [OF this layout]
    show "produces (reads_pattern (Pattern es sp) (pre @ s) rest)
        (case r of (es, c') \<Rightarrow> ret (Pattern (trim_pattern_blank_lines es) None, c'))"
      by (cases r) simp
  qed
qed

lemma parse_simple_pattern_printed:
  assumes "printable_pattern True p" "serialize_pattern L d p = Inr s"
    and "nesting_pattern p \<le> n" "nesting_pattern p \<le> depth_left ctx" "pattern_end rest"
  shows "produces (reads_pattern p (pre @ s) rest) (parse_simple_pattern pp (at_text pre (s @ rest)) ctx)"
proof -
  obtain es sp where p: "p = Pattern es sp" by (cases p)
  with assms have layout: "layout_ok True FirstElement es" and es: "list_all printable_element es" by auto
  have s: "serialize_elements L d 0 (FirstElement = LineStart) es = Inr s"
    using assms(2) serialize_pattern_plain [OF layout] by (simp add: p)
  have loop: "produces (reads_elements [] es (pre @ s) rest)
      (simple_pattern_loop pp ctx (Suc (remaining (at_text pre (s @ rest)))) (at_text pre (s @ rest)) None [] [])"
    using elements_in_reach assms(3,4)
    by (intro simple.elements_printed [OF layout es _ s assms(5)]) (auto simp: p)
  show ?thesis
    unfolding parse_simple_pattern_def p
  proof (rule produces_and_then [OF loop])
    fix r assume "reads_elements [] es (pre @ s) rest r"
    from reads_elements_pattern [OF this layout]
    show "produces (reads_pattern (Pattern es sp) (pre @ s) rest)
        (case r of (es, c') \<Rightarrow> ret (Pattern (trim_pattern_blank_lines es) None, c'))"
      by (cases r) simp
  qed
qed

text \<open>Variants and select expressions.\<close>

lemma parse_variant_key_printed:
  assumes "printable_key k"
  shows "produces (\<lambda>r. erase_key (fst r) = erase_key k \<and> snd r = at_text (pre @ key_text k) (CH_RBRACKET # rest))
    (parse_variant_key (at_text pre (key_text k @ CH_RBRACKET # rest)))"
proof (cases k)
  case (KeyIdentifier i)
  with assms have i: "grammar_identifier (id_name i)" by simp
  then obtain ch t where name: "id_name i = ch # t" "is_identifier_start ch" using identifier_starts by blast
  have "parse_identifier (at_text pre (id_name i @ CH_RBRACKET # rest)) = Inr (id_name i, at_text (pre @ id_name i) (CH_RBRACKET # rest))"
    using i by (intro parse_identifier_at_text) simp_all
  then show ?thesis
    using identifier_start_facts [OF name(2)] name(1)
    by (cases i) (simp add: KeyIdentifier parse_variant_key_def at_digit_def)
next
  case (KeyNumber v raw sp)
  with assms have raw: "number_ok v raw" by simp
  have "parse_number (at_text pre (raw @ CH_RBRACKET # rest)) = Inr (raw, at_text (pre @ raw) (CH_RBRACKET # rest))"
    using raw by (intro parse_number_at_text number_ok_shape) (auto simp: number_ok_def is_ascii_digit_def)
  moreover have "at_digit (at_text pre (raw @ CH_RBRACKET # rest)) \<or> cur (at_text pre (raw @ CH_RBRACKET # rest)) = Some CH_MINUS"
    using number_starts [OF number_ok_shape [OF raw]] by (auto simp: at_digit_def)
  ultimately show ?thesis
    using raw by (simp add: KeyNumber parse_variant_key_def number_ok_def Let_def)
qed

lemma parse_variant_printed:
  assumes "printable_variant (Variant k p starred sp)" "serialize_pattern L d p = Inr t"
    and "nesting_pattern p \<le> n" "nesting_pattern p \<le> depth_left ctx" "pattern_end rest"
  defines "s \<equiv> (if starred then [CH_STAR] else []) @ [CH_LBRACKET] @ key_text k @ [CH_RBRACKET, CH_SPACE] @ t"
  shows "produces (\<lambda>r. erase_variant (fst r) = erase_variant (Variant k p starred sp) \<and> snd r = at_text (pre @ s) rest)
    (parse_variant pp (at_text pre (s @ rest)) ctx)"
proof -
  obtain star where star: "star = (if starred then [CH_STAR] else [])" by simp
  then have s: "s = star @ [CH_LBRACKET] @ key_text k @ [CH_RBRACKET, CH_SPACE] @ t" by (simp add: s_def)
  let ?pre = "pre @ star @ [CH_LBRACKET]" and ?rest = "CH_SPACE # t @ rest"
  have k: "printable_key k" and p: "printable_pattern True p" using assms(1) by auto
  obtain es psp where es: "p = Pattern es psp" by (cases p)
  with p have layout: "layout_ok True FirstElement es" by simp
  have "serialize_elements L d 0 False es = Inr t"
    using assms(2) serialize_pattern_plain [OF layout] by (simp add: es)
  from pattern_no_blank [OF layout this] have "t = [] \<or> (\<exists>ch u. t = ch # u \<and> ch \<noteq> CH_SPACE)" by blast
  then have blank: "skip_blank_inline (at_text q (t @ rest)) = at_text q (t @ rest)" for q
    using assms(5) by (cases rest) (auto simp: pattern_end_def)
  have key_start: "skip_blank (at_text ?pre (key_text k @ CH_RBRACKET # ?rest)) = at_text ?pre (key_text k @ CH_RBRACKET # ?rest)"
  proof (cases k)
    case (KeyIdentifier i)
    with k identifier_starts [of "id_name i"] show ?thesis by (auto simp: is_identifier_start_def is_ascii_alpha_def)
  next
    case (KeyNumber v raw sp)
    with k number_starts [OF number_ok_shape] show ?thesis by (fastforce simp: is_ascii_digit_def)
  qed
  have val: "produces (reads_pattern p (?pre @ key_text k @ [CH_RBRACKET, CH_SPACE] @ t) rest)
      (parse_simple_pattern pp (at_text (?pre @ key_text k @ [CH_RBRACKET, CH_SPACE]) (t @ rest)) ctx)"
    using parse_simple_pattern_printed [OF p assms(2-5), of "?pre @ key_text k @ [CH_RBRACKET, CH_SPACE]"] by simp
  have key: "produces (\<lambda>r. erase_key (fst r) = erase_key k \<and> snd r = at_text (?pre @ key_text k) (CH_RBRACKET # ?rest))
      (parse_variant_key (at_text ?pre (key_text k @ CH_RBRACKET # ?rest)))"
    by (rule parse_variant_key_printed [OF k])
  have start: "(if starred then adv (at_text pre (s @ rest)) else at_text pre (s @ rest)) =
      at_text (pre @ star) (CH_LBRACKET # key_text k @ CH_RBRACKET # ?rest)"
    "cur (at_text pre (s @ rest)) = Some CH_STAR \<longleftrightarrow> starred"
    by (simp_all add: s star)
  show ?thesis
    apply (simp only: parse_variant_def Let_def start)
    apply (simp add: key_start [simplified])
    apply (rule produces_and_then [OF key [simplified]])
    apply (clarsimp simp: blank)
    apply (rule produces_and_then [OF val [simplified]])
    by (auto simp: reads_pattern_def s)
qed

text \<open>The variants up to the brace that closes the placeable.\<close>

abbreviation close_select :: "ustr \<Rightarrow> ustr" where
  "close_select rest \<equiv> CH_LF # CH_SPACE # CH_RBRACE # rest"

lemma variants_end: 
  assumes "serialize_variants L d vs = Inr s"
  shows "pattern_end (s @ close_select rest)"
proof (cases vs)
  case (Cons v vs')
  with assms show ?thesis
    by (cases v) (auto simp: cat_Inr_iff VARIANT_INDENT_def pattern_end_def continues_def numeral_eq_Suc)
qed (use assms in \<open>simp add: pattern_end_def continues_def\<close>)

lemma variants_loop_printed:
  assumes "serialize_variants L d vs = Inr s" "list_all printable_variant vs" "length vs < m"
    and "\<forall>v \<in> set vs. nesting_variant v \<le> n \<and> nesting_variant v \<le> depth_left ctx"
    and "skip_blank c = skip_blank (at_text pre (s @ close_select rest))" "\<not> is_eof c"
  shows "produces (\<lambda>r. \<exists>vs'. fst r = acc @ vs' \<and> map erase_variant vs' = map erase_variant vs \<and>
      snd r = at_text (pre @ s @ [CH_LF, CH_SPACE]) (CH_RBRACE # rest))
    (variants_loop pp ctx m c acc)"
  using assms
proof (induction vs arbitrary: s m pre c acc)
  case Nil
  then obtain m' where "m = Suc m'" by (cases m) auto
  with Nil show ?case by (simp add: Let_def)
next
  case (Cons v vs)
  obtain m' where m: "m = Suc m'" using Cons.prems(3) by (cases m) auto
  obtain k p starred sp where v: "v = Variant k p starred sp" by (cases v)
  obtain t r where t: "serialize_pattern L d p = Inr t" and r: "serialize_variants L d vs = Inr r"
    and s: "s = VARIANT_INDENT @ ((if starred then [CH_STAR] else []) @ [CH_LBRACKET] @ key_text k @ [CH_RBRACKET, CH_SPACE] @ t) @ r"
    using Cons.prems(1) by (auto simp: v cat_Inr_iff)
  let ?v = "(if starred then [CH_STAR] else []) @ [CH_LBRACKET] @ key_text k @ [CH_RBRACKET, CH_SPACE] @ t"
  let ?pre = "pre @ VARIANT_INDENT" and ?rest = "r @ close_select rest"
  have c: "skip_blank c = at_text ?pre (?v @ ?rest)"
    using Cons.prems(5) by (simp add: s VARIANT_INDENT_def numeral_eq_Suc)
  have one: "produces (\<lambda>q. erase_variant (fst q) = erase_variant v \<and> snd q = at_text (?pre @ ?v) ?rest)
      (parse_variant pp (at_text ?pre (?v @ ?rest)) ctx)"
    using Cons.prems(2,4) unfolding v
    by (intro parse_variant_printed [OF _ t _ _ variants_end [OF r]]) auto
  have go_on: "produces (\<lambda>q. \<exists>vs'. fst q = acc @ vs' \<and> map erase_variant vs' = map erase_variant (v # vs) \<and>
      snd q = at_text (pre @ s @ [CH_LF, CH_SPACE]) (CH_RBRACE # rest))
    (variants_loop pp ctx m' (at_text (?pre @ ?v) ?rest) (acc @ [v']))"
    if v': "erase_variant v' = erase_variant v" for v'
  proof -
    have "produces (\<lambda>q. \<exists>vs'. fst q = (acc @ [v']) @ vs' \<and> map erase_variant vs' = map erase_variant vs \<and>
        snd q = at_text ((?pre @ ?v) @ r @ [CH_LF, CH_SPACE]) (CH_RBRACE # rest))
      (variants_loop pp ctx m' (at_text (?pre @ ?v) ?rest) (acc @ [v']))"
      using Cons.prems m by (intro Cons.IH [OF r]) auto
    then show ?thesis
      by (rule produces_mono) (auto simp: s v' intro!: exI [of _ "v' # _"])
  qed
  have "produces (\<lambda>q. \<exists>vs'. fst q = acc @ vs' \<and> map erase_variant vs' = map erase_variant (v # vs) \<and>
      snd q = at_text (pre @ s @ [CH_LF, CH_SPACE]) (CH_RBRACE # rest))
    (and_then (parse_variant pp (at_text ?pre (?v @ ?rest)) ctx) (\<lambda>(variant, c'). variants_loop pp ctx m' c' (acc @ [variant])))"
    by (rule produces_and_then [OF one]) (use go_on in auto)
  moreover have "cur (at_text ?pre (?v @ ?rest)) \<noteq> Some CH_RBRACE" "\<not> is_eof (at_text ?pre (?v @ ?rest))"
    by simp_all
  ultimately show ?case
    using Cons.prems(6) by (simp only: m variants_loop.simps c Let_def if_False de_Morgan_disj) simp
qed

lemma variants_length:
  "serialize_variants L d vs = Inr s \<Longrightarrow> 5 * length vs \<le> length s"
proof (induction vs arbitrary: s)
  case (Cons v vs)
  obtain k p starred vsp where "v = Variant k p starred vsp" by (cases v)
  with Cons.prems obtain t r where "serialize_variants L d vs = Inr r" "s = VARIANT_INDENT @ CH_LBRACKET # t @ r \<or> s = VARIANT_INDENT @ CH_STAR # t @ r"
    by (cases starred) (auto simp: cat_Inr_iff)
  with Cons.IH show ?case by (fastforce simp: VARIANT_INDENT_def)
qed simp

lemma variants_cursor:
  assumes "serialize_variants L d vs = Inr s" "vs \<noteq> []"
  shows "length vs < Suc (remaining (skip_blank (at_text pre (s @ close_select rest))))"
    "\<not> is_eof (skip_blank (at_text pre (s @ close_select rest)))"
proof -
  obtain k p starred vsp vs' where "vs = Variant k p starred vsp # vs'" using assms(2) by (metis neq_Nil_conv variant.exhaust)
  with assms(1) obtain ch t where s: "s = VARIANT_INDENT @ ch # t" "ch = CH_STAR \<or> ch = CH_LBRACKET"
    by (cases starred) (auto simp: cat_Inr_iff)
  then have "skip_blank (at_text pre (s @ close_select rest)) = at_text (pre @ VARIANT_INDENT) (ch # t @ close_select rest)"
    by (auto simp: VARIANT_INDENT_def numeral_eq_Suc)
  moreover have "length s = 5 + length t" using s by (simp add: VARIANT_INDENT_def)
  ultimately show "length vs < Suc (remaining (skip_blank (at_text pre (s @ close_select rest))))"
    "\<not> is_eof (skip_blank (at_text pre (s @ close_select rest)))"
    using variants_length [OF assms(1)] assms(2) by (cases vs; simp)+
qed

lemma erase_defaults:
  "map erase_variant vs' = map erase_variant vs \<Longrightarrow>
     length (filter variant_default vs') = length (filter variant_default vs)"
proof -
  have "variant_default (erase_variant v) = variant_default v" for v by (cases v) simp
  then have "length (filter variant_default (map erase_variant ws)) = length (filter variant_default ws)" for ws
    by (simp add: filter_map comp_def)
  then show "map erase_variant vs' = map erase_variant vs \<Longrightarrow> ?thesis" by metis
qed

lemma erase_selector [simp]: "is_selector (erase_expr e) = is_selector e"
  by (cases e rule: erase_expr.cases) simp_all

lemma select_printed:
  assumes "printable (SelectExpression sel vs sp)" "serialize_variants L d vs = Inr s"
    and "\<forall>v \<in> set vs. nesting_variant v \<le> n \<and> nesting_variant v \<le> depth_left ctx"
    and "erase_expr sel' = erase_expr sel" "start \<le> length pre"
  shows "produces (\<lambda>r. erase_expr (fst r) = erase_expr (SelectExpression sel vs sp) \<and>
      snd r = at_text (pre @ s @ [CH_LF, CH_SPACE]) (CH_RBRACE # rest))
    (parse_select_expression pp (at_text pre (s @ close_select rest)) sel' start ctx)"
proof -
  let ?c = "skip_blank (at_text pre (s @ close_select rest))"
  have vs: "list_all printable_variant vs" "length (filter variant_default vs) = 1" using assms(1) by auto
  then have nonempty: "vs \<noteq> []" by auto
  have "is_selector sel" using assms(1) by simp
  with assms(4) have sel: "is_selector sel'" by (metis erase_selector)
  have loop: "produces (\<lambda>r. \<exists>vs'. fst r = [] @ vs' \<and> map erase_variant vs' = map erase_variant vs \<and>
      snd r = at_text (pre @ s @ [CH_LF, CH_SPACE]) (CH_RBRACE # rest))
    (variants_loop pp ctx (Suc (remaining ?c)) ?c [])"
    using assms(3) by (intro variants_loop_printed [OF assms(2) vs(1)] variants_cursor [OF assms(2) nonempty]) auto
  show ?thesis
    unfolding parse_select_expression_def Let_def
  proof (rule produces_and_then [OF loop], goal_cases)
    case (1 r)
    then obtain vs' where r: "r = (vs', at_text (pre @ s @ [CH_LF, CH_SPACE]) (CH_RBRACE # rest))"
      and vs': "map erase_variant vs' = map erase_variant vs" by (cases r) auto
    from vs' nonempty have "vs' \<noteq> []" by auto
    moreover have "length (filter variant_default vs') = 1" using erase_defaults [OF vs'] vs(2) by simp
    moreover have "start \<le> pos (snd r)" using assms(5) by (simp add: r)
    ultimately show ?case using vs' assms(4) by (simp add: r mk_select_expression_def)
  qed
qed

lemma placeable_body_printed:
  assumes "printable e" "serialize_expression L d e = Inr s" "nesting_expr e \<le> n" "nesting_expr e < depth_left ctx"
  shows "produces (reads_placeable e (pre @ CH_SPACE # s @ [CH_SPACE, CH_RBRACE]) rest)
    (placeable_body pp pa (at_text pre (CH_SPACE # s @ CH_SPACE # CH_RBRACE # rest)) ctx)"
proof (cases "is_inline e")
  case True
  let ?pre = "pre @ [CH_SPACE]" and ?rest = "CH_SPACE # CH_RBRACE # rest"
  obtain ch t where "s = ch # t" "expr_start ch" using printed_starts [OF assms(1) True assms(2)] by blast
  then have start: "skip_blank (at_text pre (CH_SPACE # s @ ?rest)) = at_text ?pre (s @ ?rest)" by auto
  have depth: "\<not> is_depth_exceeded ctx" using assms(4) by (simp add: is_depth_exceeded_left)
  have inline: "produces (reads_expr e (?pre @ s) ?rest) (parse_inline_expression pp pa (at_text ?pre (s @ ?rest)) (enter_nesting ctx))"
    using assms by (intro inline_printed [THEN conjunct1, OF assms(1) True assms(2)])
      (simp_all add: depth_left_enter follows_expr_def)
  show ?thesis
    apply (simp only: placeable_body_def Let_def depth if_False start)
    apply (rule produces_and_then [OF inline])
    by (auto simp: reads_expr_def lands_skip_blank close_placeable_def reads_placeable_def)
next
  case False
  then obtain sel vs sp where e: "e = SelectExpression sel vs sp" by (cases e) (auto simp: is_inline_def)
  obtain s1 s2 where s1: "serialize_expression L (d + 1) sel = Inr s1" and s2: "serialize_variants L d vs = Inr s2"
    and s: "s = s1 @ [CH_SPACE, CH_MINUS, CH_GREATER] @ s2 @ [CH_LF]"
    using assms(2) by (auto simp: e cat_Inr_iff with_guard_Inr_iff)
  have sel: "printable sel" "is_selector sel" using assms(1) by (auto simp: e)
  then have sel_inline: "is_inline sel" by (cases sel) (auto simp: is_inline_def)
  let ?pre = "pre @ [CH_SPACE]" and ?close = "close_select rest"
  let ?rest = "CH_SPACE # CH_MINUS # CH_GREATER # s2 @ ?close"
  obtain ch t where "s1 = ch # t" "expr_start ch" using printed_starts [OF sel(1) sel_inline s1] by blast
  then have start: "skip_blank (at_text pre (CH_SPACE # s @ CH_SPACE # CH_RBRACE # rest)) = at_text ?pre (s1 @ ?rest)"
    by (auto simp: s)
  have depth: "\<not> is_depth_exceeded ctx" using assms(4) by (simp add: is_depth_exceeded_left)
  have inline: "produces (reads_expr sel (?pre @ s1) ?rest) (parse_inline_expression pp pa (at_text ?pre (s1 @ ?rest)) (enter_nesting ctx))"
    using assms(3,4) by (intro inline_printed [THEN conjunct1, OF sel(1) sel_inline s1])
      (auto simp: e depth_left_enter follows_expr_def)
  have reach: "\<forall>v \<in> set vs. nesting_variant v \<le> n \<and> nesting_variant v \<le> depth_left (enter_nesting ctx)"
    using assms(3,4) max_list_mem [of _ "map nesting_variant vs"] by (fastforce simp: e depth_left_enter)
  show ?thesis
    unfolding placeable_body_def Let_def start if_not_P [OF depth]
  proof (rule produces_and_then [OF inline], goal_cases)
    case (1 r)
    then obtain sel' c1 where r: "r = (sel', c1)" and sel': "erase_expr sel' = erase_expr sel" and "lands (?pre @ s1) ?rest c1"
      by (cases r) (auto simp: reads_expr_def)
    then have c1: "skip_blank c1 = at_text (?pre @ s1 @ [CH_SPACE]) (CH_MINUS # CH_GREATER # s2 @ ?close)"
      by (simp add: lands_skip_blank)
    have "is_selector sel'" using sel(2) sel' by (metis erase_selector)
    moreover have "produces (\<lambda>r. erase_expr (fst r) = erase_expr e \<and>
        snd r = at_text ((?pre @ s1 @ [CH_SPACE, CH_MINUS, CH_GREATER]) @ s2 @ [CH_LF, CH_SPACE]) (CH_RBRACE # rest))
      (parse_select_expression pp (at_text (?pre @ s1 @ [CH_SPACE, CH_MINUS, CH_GREATER]) (s2 @ ?close)) sel'
        (Suc (length pre)) (enter_nesting ctx))"
      using assms(1) unfolding e by (intro select_printed [OF _ s2 reach sel']) simp_all
    then have "produces (reads_placeable e (pre @ CH_SPACE # s @ [CH_SPACE, CH_RBRACE]) rest)
      (and_then (parse_select_expression pp (at_text (?pre @ s1 @ [CH_SPACE, CH_MINUS, CH_GREATER]) (s2 @ ?close)) sel'
        (Suc (length pre)) (enter_nesting ctx)) (\<lambda>(select, c3). close_placeable select (skip_blank c3)))"
      by (rule produces_and_then) (auto simp: close_placeable_def reads_placeable_def s)
    ultimately show ?case by (simp add: r c1)
  qed
qed

lemma argument_body_printed:
  assumes "printable e" "is_inline e" "serialize_expression L d e = Inr s" "nesting_expr e \<le> n"
    and "nesting_expr e \<le> depth_left ctx" "follows_expr rest"
  shows "produces (reads_expr e (pre @ s) rest) (argument_expression_body pp pa (at_text pre (s @ rest)) ctx)"
  using inline_printed [OF assms] by simp

end

section \<open>The knot\<close>

lemma knot_printed: "printed_parser (parse_placeable_at n) (parse_argument_at n) n"
proof (induction n)
  case (Suc n)
  then show ?case
    by unfold_locales
      (auto intro: printed_parser.placeable_body_printed printed_parser.argument_body_printed)
qed (unfold_locales, auto)

interpretation printed: printed_parser "parse_placeable_at n" "parse_argument_at n" n for n
  by (rule knot_printed)

end
