(* ===== verification/Printed_Entries.thy ===== *)
theory Printed_Entries
  imports Printed_Selects
begin

text \<open>
  The fuel of a placeable is enough for the text it is given; values, attributes, messages and
  terms read back.
\<close>

section \<open>The fuel of a placeable is enough\<close>

text \<open>Every level of nesting takes a character of the text.\<close>

lemma nesting_le_length:
  "serialize_expression L d e = Inr s \<Longrightarrow> nesting_expr e \<le> length s"
  "serialize_call_arguments L d args = Inr s \<Longrightarrow> Suc (nesting_args args) \<le> length s"
  "serialize_positional L d written ps = Inr s \<Longrightarrow> max_list (map nesting_expr ps) \<le> length s"
  "serialize_named L d written ns = Inr s \<Longrightarrow> max_list (map nesting_named ns) \<le> length s"
  "serialize_variants L d vs = Inr s \<Longrightarrow> max_list (map nesting_variant vs) \<le> length s"
  "serialize_pattern L d p = Inr s \<Longrightarrow> nesting_pattern p \<le> length s"
  "serialize_elements L d ws b es = Inr s \<Longrightarrow> max_list (map nesting_element es) \<le> length s"
proof (induction L d e and L d args and L d written ps and L d written ns and L d vs and L d p and L d ws b es
    arbitrary: s and s and s and s and s and s and s
    rule: serialize_expression_serialize_call_arguments_serialize_positional_serialize_named_serialize_variants_serialize_pattern_serialize_elements.induct)
qed (auto simp: emission_Inr le_SucI trans_le_add1 trans_le_add2 split: if_splits prod.splits)

lemma parse_placeable_knot: "printed_parser parse_placeable parse_argument_expression n"
proof (unfold_locales, goal_cases)
  case (1 e L d s ctx pre rest)
  let ?c = "at_text pre (CH_SPACE # s @ CH_SPACE # CH_RBRACE # rest)"
  have "nesting_expr e < Suc (remaining ?c)" using nesting_le_length(1) [OF 1(2)] by simp
  then show ?case
    unfolding parse_placeable_def by (rule printed.placeable_printed [OF 1(1,2) _ 1(4)])
next
  case (2 e L d s ctx rest pre)
  have "nesting_expr e < Suc (remaining (at_text pre (s @ rest)))" using nesting_le_length(1) [OF 2(3)] by simp
  then show ?case
    unfolding parse_argument_expression_def by (rule printed.argument_printed [OF 2(1-3) _ 2(5,6)])
qed

interpretation code: printed_parser parse_placeable parse_argument_expression n for n
  by (rule parse_placeable_knot)

section \<open>Values and attributes\<close>

text \<open>The pattern after an equals sign.\<close>

lemma skip_to_value:
  assumes "printable_pattern False p" "serialize_pattern L 0 p = Inr s" "pattern_end rest"
  shows "skip_multiline_pattern_start (at_text pre (CH_SPACE # s @ rest)) = (at_text (pre @ [CH_SPACE]) (s @ rest), 0)"
proof -
  obtain es sp where p: "p = Pattern es sp" by (cases p)
  with assms have layout: "layout_ok False FirstElement es" by simp
  have "serialize_elements L 0 0 False es = Inr s"
    using assms(2) serialize_pattern_plain [OF layout] by (simp add: p)
  from pattern_no_blank [OF layout this] consider
      "s = []" "rest = []"
    | r where "s = []" "rest = CH_LF # r" "\<not> continues r"
    | ch t where "s = ch # t" "ch \<noteq> CH_SPACE" "ch \<noteq> CH_LF"
    using assms(3) by (auto simp: pattern_end_def split: list.splits)
  then show ?thesis
    by cases (simp_all add: skip_multiline_pattern_start_def is_indented_continuation_at_text)
qed

lemma value_printed:
  assumes "printable_pattern False p" "serialize_pattern L 0 p = Inr s" "nesting_pattern p \<le> depth_left ctx"
    and "pattern_end rest" "\<And>p'. erase_pattern p' = erase_pattern p \<Longrightarrow> produces Q (k (p', at_text (pre @ CH_SPACE # s) rest))"
  shows "produces Q (let (c, indent) = skip_multiline_pattern_start (at_text pre (CH_SPACE # s @ rest))
    in and_then (parse_pattern parse_placeable c ctx (Some indent)) k)"
proof -
  have "produces (reads_pattern p ((pre @ [CH_SPACE]) @ s) rest)
      (parse_pattern parse_placeable (at_text (pre @ [CH_SPACE]) (s @ rest)) ctx (Some 0))"
    by (rule code.parse_pattern_printed [OF assms(1,2) order_refl assms(3,4)])
  then have "produces Q (and_then (parse_pattern parse_placeable (at_text (pre @ [CH_SPACE]) (s @ rest)) ctx (Some 0)) k)"
    by (rule produces_and_then) (use assms(5) in \<open>auto simp: reads_pattern_def\<close>)
  then show ?thesis by (simp add: skip_to_value [OF assms(1,2,4)])
qed

section \<open>Entries without positions\<close>

fun erase_attribute :: "attribute \<Rightarrow> attribute" where
  "erase_attribute (Attribute i p sp) = Attribute (erase_ident i) (erase_pattern p) None"

fun erase_comment :: "comment \<Rightarrow> comment" where
  "erase_comment (Comment content kind sp) = Comment content kind None"

text \<open>The annotations of a junk entry are diagnostics about the source it was found in.\<close>

fun erase_entry :: "entry \<Rightarrow> entry" where
  "erase_entry (Message i v ats cm sp) =
     Message (erase_ident i) (map_option erase_pattern v) (map erase_attribute ats) (map_option erase_comment cm) None"
| "erase_entry (Term i v ats cm sp) =
     Term (erase_ident i) (erase_pattern v) (map erase_attribute ats) (map_option erase_comment cm) None"
| "erase_entry (CommentEntry cm) = CommentEntry (erase_comment cm)"
| "erase_entry (Junk content ans sp) = Junk content [] None"

text \<open>The entries that read back: no junk, a value for every message, no carriage return.\<close>

fun printable_attribute :: "attribute \<Rightarrow> bool" where
  "printable_attribute (Attribute i p sp) \<longleftrightarrow> grammar_identifier (id_name i) \<and> printable_pattern False p"

definition printable_comment :: "comment \<Rightarrow> bool" where
  "printable_comment cm \<longleftrightarrow> CH_CR \<notin> set (comment_content cm)"

definition printable_attached :: "comment option \<Rightarrow> bool" where
  "printable_attached = pred_option (\<lambda>cm. comment_kind cm = COMMENT \<and> printable_comment cm)"

fun printable_entry :: "entry \<Rightarrow> bool" where
  "printable_entry (Message i None ats cm sp) \<longleftrightarrow> False"
| "printable_entry (Message i (Some p) ats cm sp) \<longleftrightarrow>
     grammar_identifier (id_name i) \<and> printable_pattern False p \<and> list_all printable_attribute ats \<and>
     (pattern_elements p \<noteq> [] \<or> ats \<noteq> []) \<and> printable_attached cm"
| "printable_entry (Term i p ats cm sp) \<longleftrightarrow>
     grammar_identifier (id_name i) \<and> printable_pattern False p \<and> list_all printable_attribute ats \<and>
     pattern_elements p \<noteq> [] \<and> printable_attached cm"
| "printable_entry (CommentEntry cm) \<longleftrightarrow> printable_comment cm"
| "printable_entry (Junk content ans sp) \<longleftrightarrow> False"

section \<open>Attributes\<close>

lemma identifier_erase [simp]: "Identifier (id_name i) None = erase_ident i"
  by (cases i) simp

lemma assignment [simp]: "u '' = '' = [CH_SPACE, CH_EQUALS, CH_SPACE]"
  by (simp add: u_def)

text \<open>What follows the line feed that ends an entry.\<close>

definition entry_boundary :: "ustr \<Rightarrow> bool" where
  "entry_boundary r \<longleftrightarrow>
     (case dropWhile (\<lambda>ch. ch = CH_LF) r of [] \<Rightarrow> True | ch # _ \<Rightarrow> ch \<noteq> CH_SPACE \<and> ch \<noteq> CH_DOT)"

lemma boundary_end: "entry_boundary r \<Longrightarrow> pattern_end (CH_LF # r)"
  by (cases "dropWhile (\<lambda>ch. ch = CH_LF) r")
    (simp_all add: entry_boundary_def pattern_end_def continues_def del: dropWhile_eq_Nil_conv)

lemma attributes_end:
  assumes "serialize_attributes L ats = Inr s" "entry_boundary rest"
  shows "pattern_end (s @ CH_LF # rest)"
proof (cases ats)
  case (Cons a ats')
  with assms(1) show ?thesis
    by (cases a) (auto simp: cat_Inr_iff ATTR_INDENT_def pattern_end_def continues_def numeral_eq_Suc)
qed (use assms boundary_end in simp)

lemma attribute_printed:
  assumes "printable_attribute a" "serialize_attribute L a = Inr s" "nesting_pattern (attr_value a) \<le> depth_left ctx"
    and "pattern_end rest"
  shows "produces (\<lambda>r. erase_attribute (fst r) = erase_attribute a \<and> snd r = at_text (pre @ replicate n CH_SPACE @ s) rest)
    (parse_attribute (at_text pre (replicate n CH_SPACE @ s @ rest)) ctx)"
proof -
  obtain i p sp where a: "a = Attribute i p sp" by (cases a)
  with assms obtain t where t: "serialize_pattern L 0 p = Inr t" and s: "s = CH_DOT # id_name i @ u '' = '' @ t"
    and i: "grammar_identifier (id_name i)" and p: "printable_pattern False p"
    by (auto simp: cat_Inr_iff)
  let ?pre = "pre @ replicate n CH_SPACE"
  have dot: "skip_blank_inline (at_text pre (replicate n CH_SPACE @ s @ rest)) = at_text ?pre (s @ rest)"
    unfolding skip_blank_inline_def skip_spaces_adv_while
    by (rule adv_while_at_text) (auto simp: s list_all_iff)
  have name: "parse_identifier (at_text (?pre @ [CH_DOT]) (id_name i @ CH_SPACE # CH_EQUALS # CH_SPACE # t @ rest)) =
      Inr (id_name i, at_text (?pre @ CH_DOT # id_name i) (CH_SPACE # CH_EQUALS # CH_SPACE # t @ rest))"
    using parse_identifier_at_text [OF i, of "CH_SPACE # CH_EQUALS # CH_SPACE # t @ rest" "?pre @ [CH_DOT]"] by simp
  show ?thesis
    unfolding parse_attribute_def Let_def dot
    apply (simp add: s name [simplified])
    apply (rule value_printed [unfolded Let_def, OF p t])
    using assms(3,4) by (auto simp: a s)
qed

definition skip_newlines :: "cursor \<Rightarrow> cursor" where
  "skip_newlines c = adv_while (\<lambda>ch. ch = CH_LF) c"

lemma skip_newlines_spaces:
  "entry_boundary rest \<Longrightarrow> cur (skip_spaces (skip_newlines (at_text pre rest))) \<noteq> Some CH_DOT"
proof (induction rest arbitrary: pre)
  case (Cons ch r)
  then show ?case by (cases "ch = CH_LF") (auto simp: skip_newlines_def entry_boundary_def)
qed (simp add: skip_newlines_def)

lemma attributes_loop_printed:
  assumes "list_all printable_attribute ats" "serialize_attributes L ats = Inr s" "length ats < m"
    and "\<forall>a \<in> set ats. nesting_pattern (attr_value a) \<le> depth_left ctx" "entry_boundary rest"
  shows "produces (\<lambda>r. \<exists>ats'. fst r = acc @ ats' \<and> map erase_attribute ats' = map erase_attribute ats \<and>
      snd r = skip_newlines (at_text (pre @ s @ [CH_LF]) rest))
    (attributes_loop ctx m (at_text pre (s @ CH_LF # rest)) acc)"
  using assms(1-4)
proof (induction ats arbitrary: s m pre acc)
  case Nil
  then obtain m' where "m = Suc m'" by (cases m) auto
  with Nil skip_newlines_spaces [OF assms(5), of "pre @ [CH_LF]"] show ?case
    by (simp add: Let_def skip_newlines_def)
next
  case (Cons a ats)
  obtain m' where m: "m = Suc m'" using Cons.prems(3) by (cases m) auto
  obtain t r where t: "serialize_attribute L a = Inr t" and r: "serialize_attributes L ats = Inr r"
    and s: "s = ATTR_INDENT @ t @ r"
    using Cons.prems(2) by (auto simp: cat_Inr_iff)
  have "\<exists>t'. t = CH_DOT # t'" using t by (cases a) (auto simp: cat_Inr_iff)
  then have dot: "cur (skip_spaces (at_text (pre @ [CH_LF]) (replicate 4 CH_SPACE @ t @ r @ CH_LF # rest))) = Some CH_DOT"
    by (auto simp: numeral_eq_Suc)
  have one: "produces (\<lambda>q. erase_attribute (fst q) = erase_attribute a \<and>
        snd q = at_text ((pre @ [CH_LF]) @ replicate 4 CH_SPACE @ t) (r @ CH_LF # rest))
      (parse_attribute (at_text (pre @ [CH_LF]) (replicate 4 CH_SPACE @ t @ r @ CH_LF # rest)) ctx)"
    using Cons.prems by (intro attribute_printed [OF _ t _ attributes_end [OF r assms(5)]]) auto
  let ?c = "at_text (pre @ [CH_LF]) (replicate 4 CH_SPACE @ t @ r @ CH_LF # rest)"
  have saved: "adv_while (\<lambda>ch. ch = CH_LF) ?c = ?c" by (simp add: numeral_eq_Suc)
  have unfold: "attributes_loop ctx m (at_text pre (s @ CH_LF # rest)) acc =
      and_then (attempt (parse_attribute ?c ctx)) (\<lambda>attr_result.
        case attr_result of None \<Rightarrow> ret (acc, ?c) | Some (a, c') \<Rightarrow> attributes_loop ctx m' c' (acc @ [a]))"
    using dot by (simp add: m s ATTR_INDENT_def saved Let_def)
  show ?case
    unfolding unfold
  proof (rule produces_and_then [OF produces_attempt [OF one, where Q = "\<lambda>x. \<exists>q. x = Some q \<and>
      erase_attribute (fst q) = erase_attribute a \<and> snd q = at_text ((pre @ [CH_LF]) @ replicate 4 CH_SPACE @ t) (r @ CH_LF # rest)"]], goal_cases)
    case (2 q)
    then obtain a' where q: "q = Some (a', at_text ((pre @ [CH_LF]) @ replicate 4 CH_SPACE @ t) (r @ CH_LF # rest))"
      and a': "erase_attribute a' = erase_attribute a" by auto
    have "produces (\<lambda>q. \<exists>ats'. fst q = (acc @ [a']) @ ats' \<and> map erase_attribute ats' = map erase_attribute ats \<and>
          snd q = skip_newlines (at_text (((pre @ [CH_LF]) @ replicate 4 CH_SPACE @ t) @ r @ [CH_LF]) rest))
        (attributes_loop ctx m' (at_text ((pre @ [CH_LF]) @ replicate 4 CH_SPACE @ t) (r @ CH_LF # rest)) (acc @ [a']))"
      using Cons.prems m by (intro Cons.IH [OF _ r]) auto
    then show ?case
      unfolding q option.case prod.case
    proof (rule produces_mono, elim exE, goal_cases)
      case (1 x ats')
      then show ?case by (intro exI [of _ "a' # ats'"]) (simp add: s a' ATTR_INDENT_def)
    qed
  qed simp
qed


lemma attributes_length: "serialize_attributes L ats = Inr s \<Longrightarrow> length ats \<le> length s"
  by (induction ats arbitrary: s) (fastforce simp: cat_Inr_iff ATTR_INDENT_def)+

lemma message_attributes_printed:
  assumes "list_all printable_attribute ats" "serialize_attributes L ats = Inr s"
    and "\<forall>a \<in> set ats. nesting_pattern (attr_value a) \<le> depth_left ctx" "entry_boundary rest"
  shows "produces (\<lambda>r. map erase_attribute (fst r) = map erase_attribute ats \<and>
      snd r = skip_newlines (at_text (pre @ s @ [CH_LF]) rest))
    (parse_message_attributes (at_text pre (s @ CH_LF # rest)) ctx)"
proof -
  have "length ats < Suc (remaining (at_text pre (s @ CH_LF # rest)))"
    using attributes_length [OF assms(2)] by simp
  from attributes_loop_printed [OF assms(1,2) this assms(3,4), of "[]" pre] show ?thesis
    by (simp add: parse_message_attributes_def)
qed

section \<open>Messages and terms\<close>

text \<open>Without the comment before it.\<close>

fun without_comment :: "entry \<Rightarrow> entry" where
  "without_comment (Message i v ats cm sp) = Message i v ats None sp"
| "without_comment (Term i v ats cm sp) = Term i v ats None sp"
| "without_comment e = e"

definition reads_entry :: "entry \<Rightarrow> ustr \<Rightarrow> ustr \<Rightarrow> entry parse_result \<Rightarrow> bool" where
  "reads_entry e pre rest r \<longleftrightarrow>
     erase_entry (fst r) = erase_entry (without_comment e) \<and> snd r = skip_newlines (at_text pre rest)"

lemma skip_newlines_pos: "length pre \<le> pos (skip_newlines (at_text pre rest))"
  using adv_while_ge [of "at_text pre rest"] by (simp add: skip_newlines_def)

lemma erase_elements_Nil: "erase_pattern p = erase_pattern q \<Longrightarrow> pattern_elements p = [] \<longleftrightarrow> pattern_elements q = []"
  by (cases p; cases q) auto

lemma erase_attributes_Nil: "map erase_attribute xs = map erase_attribute ys \<Longrightarrow> xs = [] \<longleftrightarrow> ys = []"
  by (metis map_is_Nil_conv)

lemma message_printed:
  assumes "printable_entry (Message i (Some p) ats cm sp)" "nesting_entry (Message i (Some p) ats cm sp) \<le> depth_left ctx"
    and "serialize_pattern L 0 p = Inr t" "serialize_attributes L ats = Inr a" "entry_boundary rest"
  defines "s \<equiv> id_name i @ u '' = '' @ t @ a @ [CH_LF]"
  shows "produces (reads_entry (Message i (Some p) ats cm sp) (pre @ s) rest) (parse_message (at_text pre (s @ rest)) ctx)"
proof -
  have i: "grammar_identifier (id_name i)" and p: "printable_pattern False p" and ats: "list_all printable_attribute ats"
    and content: "pattern_elements p \<noteq> [] \<or> ats \<noteq> []"
    using assms(1) by auto
  let ?rest = "CH_SPACE # t @ a @ CH_LF # rest"
  have "parse_identifier (at_text pre (id_name i @ CH_SPACE # CH_EQUALS # ?rest)) =
      Inr (id_name i, at_text (pre @ id_name i) (CH_SPACE # CH_EQUALS # ?rest))"
    by (rule parse_identifier_at_text [OF i]) simp
  then have header: "parse_message_header (at_text pre (s @ rest)) =
      ret ((id_name i, length (pre @ id_name i)), at_text (pre @ id_name i @ [CH_SPACE, CH_EQUALS]) ?rest)"
    by (simp add: parse_message_header_def s_def)
  have depth: "nesting_pattern p \<le> depth_left ctx" "\<forall>a \<in> set ats. nesting_pattern (attr_value a) \<le> depth_left ctx"
    using assms(2) by (auto simp: max_list_le_iff)
  show ?thesis
    unfolding parse_message_def header and_then_ret prod.case
  proof (rule value_printed [OF p assms(3) depth(1) attributes_end [OF assms(4,5)]], unfold prod.case,
      rule produces_and_then [OF message_attributes_printed [OF ats assms(4) depth(2) assms(5)]], goal_cases)
    case (1 p' r)
    then obtain ats' c' where r: "r = (ats', c')" and ats': "map erase_attribute ats' = map erase_attribute ats"
      and c': "c' = skip_newlines (at_text (pre @ s) rest)"
      by (cases r) (auto simp: s_def)
    have "length (pre @ s) \<le> pos c'" by (simp only: c' skip_newlines_pos)
    moreover have "validate_message_content (Some p') ats'"
      using content erase_elements_Nil [OF 1(1)] erase_attributes_Nil [OF ats']
      by (simp add: validate_message_content_def Let_def)
    ultimately show ?case
      using 1(1) ats' by (simp add: r reads_entry_def c' mk_message_def s_def)
  qed
qed

lemma term_printed:
  assumes "printable_entry (Term i p ats cm sp)" "nesting_entry (Term i p ats cm sp) \<le> depth_left ctx"
    and "serialize_pattern L 0 p = Inr t" "serialize_attributes L ats = Inr a" "entry_boundary rest"
  defines "s \<equiv> CH_MINUS # id_name i @ u '' = '' @ t @ a @ [CH_LF]"
  shows "produces (reads_entry (Term i p ats cm sp) (pre @ s) rest) (parse_term (at_text pre (s @ rest)) ctx)"
proof -
  have i: "grammar_identifier (id_name i)" and p: "printable_pattern False p" and ats: "list_all printable_attribute ats"
    and content: "pattern_elements p \<noteq> []"
    using assms(1) by auto
  let ?pre = "pre @ [CH_MINUS]" and ?rest = "CH_SPACE # t @ a @ CH_LF # rest"
  have name: "parse_identifier (at_text ?pre (id_name i @ CH_SPACE # CH_EQUALS # ?rest)) =
      Inr (id_name i, at_text (?pre @ id_name i) (CH_SPACE # CH_EQUALS # ?rest))"
    by (rule parse_identifier_at_text [OF i]) simp
  have depth: "nesting_pattern p \<le> depth_left ctx" "\<forall>a \<in> set ats. nesting_pattern (attr_value a) \<le> depth_left ctx"
    using assms(2) by (auto simp: max_list_le_iff)
  show ?thesis
    apply (simp add: parse_term_def s_def name [simplified])
  proof (rule value_printed [unfolded Let_def, OF p assms(3) depth(1) attributes_end [OF assms(4,5)]], unfold prod.case, goal_cases)
    case (1 p')
    have "pattern_elements p' \<noteq> []" using content erase_elements_Nil [OF 1] by simp
    moreover have "produces (reads_entry (Term i p ats cm sp) (pre @ s) rest)
      (and_then (parse_message_attributes (at_text ((pre @ CH_MINUS # id_name i @ [CH_SPACE, CH_EQUALS]) @ CH_SPACE # t) (a @ CH_LF # rest)) ctx)
        (\<lambda>(ats', c'). and_then (mk_identifier (id_name i) (length pre + 1) (length pre + 1 + length (id_name i))) (\<lambda>i.
          and_then (mk_span (length pre) (pos c')) (\<lambda>sp. ret (Term i p' ats' None (Some sp), c')))))"
    proof (rule produces_and_then [OF message_attributes_printed [OF ats assms(4) depth(2) assms(5)]], goal_cases)
      case (1 r)
      then obtain ats' c' where r: "r = (ats', c')" and ats': "map erase_attribute ats' = map erase_attribute ats"
        and c': "c' = skip_newlines (at_text (pre @ s) rest)"
        by (cases r) (auto simp: s_def)
      have "length (pre @ s) \<le> pos c'" by (simp only: c' skip_newlines_pos)
      then show ?case
        using \<open>erase_pattern p' = erase_pattern p\<close> ats' by (simp add: r reads_entry_def c' s_def)
    qed
    ultimately show ?case by (simp add: s_def)
  qed
qed

end
