(* ===== verification/Printed_Loop.thy ===== *)
theory Printed_Loop
  imports Printed_Entries
begin

text \<open>
  The main loop of the parser on the serializer's text: comment lines are joined again and
  attached to what follows them, and the blank lines of the serializer keep apart what was
  apart.
\<close>

section \<open>Comment lines\<close>

definition comment_line :: "comment_type \<Rightarrow> ustr \<Rightarrow> ustr" where
  "comment_line k line = comment_prefix k @ (if line = [] then [] else CH_SPACE # line) @ [CH_LF]"

lemma serialize_comment_lines:
  "serialize_comment cm = concat (map (comment_line (comment_kind cm)) (str_split CH_LF (comment_content cm)))"
  by (auto simp: serialize_comment_def comment_line_def intro!: arg_cong [of _ _ concat] map_cong)

lemma comment_prefix_hashes:
  "\<exists>n \<in> {1, 2, 3}. comment_prefix k = replicate n CH_HASH \<and> comment_type_of_hash_count n = k"
  by (cases k) (simp_all add: comment_prefix_def comment_type_of_hash_count_def u_def numeral_eq_Suc)

lemma str_find_at_text:
  "list_all (\<lambda>ch. ch \<noteq> x) w \<Longrightarrow> str_find x (pre @ w @ x # rest) (length pre) = Some (length pre + length w)"
proof -
  have "find_from x (w @ x # rest) i = Some (i + length w)" if "list_all (\<lambda>ch. ch \<noteq> x) w" for w i
    using that by (induction w arbitrary: i) auto
  then show "list_all (\<lambda>ch. ch \<noteq> x) w \<Longrightarrow> ?thesis" by (simp add: str_find_def)
qed

lemma skip_to_line_end_at_text:
  "list_all (\<lambda>ch. ch \<noteq> CH_LF) w \<Longrightarrow> skip_to_line_end (at_text pre (w @ CH_LF # rest)) = at_text (pre @ w) (CH_LF # rest)"
  using str_find_at_text [of CH_LF w pre rest] at_text_move [of pre w "CH_LF # rest"]
  by (auto simp: skip_to_line_end_def)

lemma parse_comment_line:
  assumes "list_all (\<lambda>ch. ch \<noteq> CH_LF) line"
  shows "parse_comment (at_text pre (comment_line k line @ rest)) =
    ret (Comment line k (Some (Span (length pre) (length (pre @ comment_line k line)))),
         at_text (pre @ comment_line k line) rest)"
proof -
  obtain n where n: "n \<in> {1, 2, 3}" "comment_prefix k = replicate n CH_HASH" "comment_type_of_hash_count n = k"
    using comment_prefix_hashes by blast
  let ?rest = "(if line = [] then [] else CH_SPACE # line) @ CH_LF # rest"
  let ?pre = "pre @ replicate n CH_HASH"
  have hashes: "adv_while (\<lambda>ch. ch = CH_HASH) (at_text pre (comment_line k line @ rest)) = at_text ?pre ?rest"
    using adv_while_at_text [of "\<lambda>ch. ch = CH_HASH" "replicate n CH_HASH" ?rest pre]
    by (simp add: comment_line_def n(2) list_all_iff)
  have "n \<le> 3" using n(1) by auto
  define blank where "blank = (if line = [] then [] else [CH_SPACE])"
  let ?q = "?pre @ blank"
  have line: "comment_line k line = replicate n CH_HASH @ blank @ line @ [CH_LF]"
    by (simp add: comment_line_def n(2) blank_def)
  have after_blank: "(if cur (at_text ?pre ?rest) = Some CH_SPACE then adv (at_text ?pre ?rest) else at_text ?pre ?rest) =
      at_text ?q (line @ CH_LF # rest)"
    by (simp add: blank_def)
  have "str_slice (?q @ line @ CH_LF # rest) (length ?q) (length ?q + length line) = line"
    by (rule str_slice_at_text)
  then show ?thesis
    unfolding parse_comment_def Let_def hashes after_blank skip_to_line_end_at_text [OF assms]
    using n(3) \<open>n \<le> 3\<close> by (simp add: skip_line_end_def line add.assoc)
qed

section \<open>The state between two entries\<close>

text \<open>A pending comment whose spans are in order.\<close>

definition acc_ok :: "nat \<Rightarrow> comment_accumulator \<Rightarrow> bool" where
  "acc_ok n acc \<longleftrightarrow>
     (\<exists>s f l e. acc_first_span acc = Some (Span s f) \<and> acc_last_span acc = Some (Span l e) \<and> s \<le> e \<and> e \<le> n)"

definition acc_comment :: "comment_accumulator \<Rightarrow> comment" where
  "acc_comment acc = Comment (str_join [CH_LF] (acc_contents acc)) (acc_type acc) None"

lemma acc_finalize_ok:
  assumes "acc_ok n acc"
  shows "produces (\<lambda>cm. erase_comment cm = acc_comment acc) (acc_finalize acc)"
  using assms by (auto simp: acc_ok_def acc_finalize_def acc_comment_def)

text \<open>The entries read so far, the pending comment included.\<close>

definition collected :: "parse_state \<Rightarrow> entry list" where
  "collected st =
     map erase_entry (st_entries st) @
     (case st_pending st of None \<Rightarrow> [] | Some acc \<Rightarrow> [CommentEntry (acc_comment acc)])"

text \<open>The entries \<open>es\<close> have been read, \<open>gap\<close> is the separator and \<open>rest\<close> is ahead.\<close>

definition stands :: "parse_state \<Rightarrow> entry list \<Rightarrow> ustr \<Rightarrow> ustr \<Rightarrow> ustr \<Rightarrow> bool" where
  "stands st es pre gap rest \<longleftrightarrow>
     list_all (\<lambda>ch. ch = CH_LF) gap \<and> (pre @ gap = [] \<or> last (pre @ gap) = CH_LF) \<and>
     skip_blank (st_cursor st) = skip_blank (at_text (pre @ gap) rest) \<and>
     collected st = map erase_entry es \<and>
     pred_option (\<lambda>acc. acc_ok (length pre) acc \<and> st_pending_end st = length pre) (st_pending st)"

lemma stands_gap:
  assumes "stands st es pre [] (gap @ rest)" "list_all (\<lambda>ch. ch = CH_LF) gap"
  shows "stands st es pre gap rest"
proof -
  have "skip_blank (at_text pre (gap @ rest)) = skip_blank (at_text (pre @ gap) rest)"
    using assms(2) by (induction gap arbitrary: pre) simp_all
  moreover have "pre @ gap = [] \<or> last (pre @ gap) = CH_LF"
    using assms by (cases gap rule: rev_cases) (auto simp: stands_def)
  ultimately show ?thesis using assms by (simp add: stands_def)
qed

lemma flush_pending_ok:
  assumes "pred_option (acc_ok n) (st_pending st)"
  shows "produces (\<lambda>st'. map erase_entry (st_entries st') = collected st \<and> st_pending st' = None \<and>
      st_cursor st' = st_cursor st) (flush_pending st)"
proof (cases "st_pending st")
  case (Some acc)
  with assms have "acc_ok n acc" by simp
  then show ?thesis
    by (auto simp: Some flush_pending_def collected_def intro: produces_and_then [OF acc_finalize_ok])
qed (simp add: flush_pending_def collected_def)

lemma is_eof_skip_blank: "is_eof c \<Longrightarrow> skip_blank c = c"
  by (auto simp: skip_blank_adv_while adv_while_unfold [of _ c] cur_def)

text \<open>One step of the main loop, on an entry's first character.\<close>

lemma loop_continues:
  assumes "produces (\<lambda>ctl. \<exists>st'. ctl = Continue st' \<and> R st') (parse_step P ctx st)"
    and "\<And>st'. R st' \<Longrightarrow> produces Q (parse_loop P ctx m st')" "\<not> is_eof (skip_blank (st_cursor st))"
  shows "produces Q (parse_loop P ctx (Suc m) st)"
proof -
  have "\<not> is_eof (st_cursor st)" using assms(3) is_eof_skip_blank by metis
  moreover have "produces Q (and_then (parse_step P ctx st) (\<lambda>ctl.
        case ctl of Continue st' \<Rightarrow> parse_loop P ctx m st' | Break st' \<Rightarrow> ret st'))"
    using assms(2) by (intro produces_and_then [OF assms(1)]) auto
  ultimately show ?thesis by simp
qed

lemma column_one: "pre = [] \<or> last pre = CH_LF \<Longrightarrow> is_at_column_one (at_text pre rest)"
  by (cases pre rule: rev_cases) (auto simp: is_at_column_one_def nth_append)

lemma blank_line_at_text:
  "has_blank_line_between (pre @ gap @ rest) (length pre) (length (pre @ gap)) \<longleftrightarrow> CH_LF \<in> set gap"
  using str_slice_at_text [of pre gap rest] by (simp add: has_blank_line_between_def)


section \<open>Comments\<close>

text \<open>A pending comment is kept apart from what follows the gap.\<close>

definition kept_apart :: "parse_state \<Rightarrow> ustr \<Rightarrow> comment_type \<Rightarrow> bool" where
  "kept_apart st gap kind \<longleftrightarrow> pred_option (\<lambda>acc. acc_type acc \<noteq> kind \<or> CH_LF \<in> set gap) (st_pending st)"

text \<open>The lines \<open>ls\<close> of a comment are pending.\<close>

definition pends :: "parse_state \<Rightarrow> entry list \<Rightarrow> comment_type \<Rightarrow> ustr list \<Rightarrow> ustr \<Rightarrow> ustr \<Rightarrow> bool" where
  "pends st es kind ls pre rest \<longleftrightarrow>
     (\<exists>acc. st_pending st = Some acc \<and> acc_ok (length pre) acc \<and> acc_type acc = kind \<and> acc_contents acc = ls) \<and>
     st_pending_end st = length pre \<and> st_cursor st = at_text pre rest \<and> (pre = [] \<or> last pre = CH_LF) \<and>
     map erase_entry (st_entries st) = map erase_entry es"

lemma comment_line_start: "\<exists>t. comment_line k line = CH_HASH # t"
  by (cases k) (simp_all add: comment_line_def comment_prefix_def u_def)

lemma comment_line_last: "last (pre @ comment_line k line) = CH_LF"
  by (simp add: comment_line_def)

lemma attempt_ret [simp]: "attempt (ret r) = ret (Some r)"
  by (simp add: attempt_def ret_def)

lemma accept_comment_apart:
  assumes "pred_option (\<lambda>acc. acc_type acc = comment_kind cm \<longrightarrow>
    has_blank_line_between (source c') (st_pending_end st) p) (st_pending st)"
  shows "accept_comment st p cm c' = and_then (flush_pending st) (\<lambda>st. ret (Continue
    (st\<lparr>st_cursor := c', st_pending := Some (mk_accumulator cm), st_pending_end := pos c'\<rparr>)))"
  using assms by (cases "st_pending st") (auto simp: accept_comment_def flush_pending_def)

lemma accept_comment_joined:
  "st_pending st = Some acc \<Longrightarrow> acc_type acc = comment_kind cm \<Longrightarrow>
   \<not> has_blank_line_between (source c') (st_pending_end st) p \<Longrightarrow>
     accept_comment st p cm c' =
       ret (Continue (st\<lparr>st_cursor := c', st_pending := Some (acc_add acc cm), st_pending_end := pos c'\<rparr>))"
  by (simp add: accept_comment_def)

lemma first_comment_line:
  assumes "stands st es pre gap (comment_line k line @ rest)" "list_all (\<lambda>ch. ch \<noteq> CH_LF) line"
    and "kept_apart st gap k"
  shows "produces (\<lambda>ctl. \<exists>st'. ctl = Continue st' \<and> pends st' es k [line] (pre @ gap @ comment_line k line) rest)
    (parse_step P ctx st)"
proof -
  let ?c = "at_text (pre @ gap) (comment_line k line @ rest)" and ?pre = "pre @ gap @ comment_line k line"
  obtain t where t: "comment_line k line = CH_HASH # t" using comment_line_start by blast
  have st: "skip_blank (st_cursor st) = ?c" "is_at_column_one ?c" "collected st = map erase_entry es"
    using assms(1) column_one by (auto simp: stands_def t)
  have pending: "pred_option (\<lambda>acc. acc_ok (length pre) acc \<and> st_pending_end st = length pre) (st_pending st)"
    using assms(1) by (simp add: stands_def)
  then have acc: "pred_option (acc_ok (length pre)) (st_pending st)" by (cases "st_pending st") auto
  let ?cm = "Comment line k (Some (Span (length (pre @ gap)) (length ?pre)))"
  have line: "parse_comment ?c = ret (?cm, at_text ?pre rest)"
    using parse_comment_line [OF assms(2), of "pre @ gap" k rest] by simp
  have start_new: "pends (st'\<lparr>st_cursor := at_text ?pre rest, st_pending := Some (mk_accumulator ?cm), st_pending_end := length ?pre\<rparr>)
      es k [line] ?pre rest" if "map erase_entry (st_entries st') = map erase_entry es" for st'
    using that comment_line_last [of "pre @ gap" k line]
    by (auto simp: pends_def mk_accumulator_def acc_ok_def)
  have "produces (\<lambda>ctl. \<exists>st'. ctl = Continue st' \<and> pends st' es k [line] ?pre rest)
    (accept_comment st (length (pre @ gap)) ?cm (at_text ?pre rest))"
  proof -
    have *: "pred_option (\<lambda>acc. acc_type acc = comment_kind ?cm \<longrightarrow>
        has_blank_line_between (source (at_text ?pre rest)) (st_pending_end st) (length (pre @ gap))) (st_pending st)"
      using assms(3) pending blank_line_at_text [of pre gap "comment_line k line @ rest"]
      by (cases "st_pending st") (auto simp: kept_apart_def)
    show ?thesis
      unfolding accept_comment_apart [OF *] unfolding at_text_fields
      by (rule produces_and_then [OF flush_pending_ok [OF acc]]) (use start_new st(3) in auto)
  qed
  then have step: "produces (\<lambda>ctl. \<exists>st'. ctl = Continue st' \<and> pends st' es k [line] ?pre rest) (step_comment P st ?c)"
    by (simp add: step_comment_def line [simplified])
  have "parse_step P ctx st = step_comment P st ?c"
    using st(2) by (simp add: parse_step_def Let_def st(1) t)
  with step show ?thesis by simp
qed

lemma next_comment_line:
  assumes "pends st es k ls pre (comment_line k line @ rest)" "list_all (\<lambda>ch. ch \<noteq> CH_LF) line"
  shows "produces (\<lambda>ctl. \<exists>st'. ctl = Continue st' \<and> pends st' es k (ls @ [line]) (pre @ comment_line k line) rest)
    (parse_step P ctx st)"
proof -
  let ?c = "at_text pre (comment_line k line @ rest)" and ?pre = "pre @ comment_line k line"
  obtain t where t: "comment_line k line = CH_HASH # t" using comment_line_start by blast
  obtain acc where acc: "st_pending st = Some acc" "acc_ok (length pre) acc" "acc_type acc = k" "acc_contents acc = ls"
    and st: "st_pending_end st = length pre" "st_cursor st = ?c" "map erase_entry (st_entries st) = map erase_entry es"
    and column: "is_at_column_one ?c"
    using assms(1) column_one by (auto simp: pends_def)
  let ?cm = "Comment line k (Some (Span (length pre) (length ?pre)))"
  have "\<not> has_blank_line_between (source (at_text ?pre rest)) (length pre) (length pre)"
    using blank_line_at_text [of pre "[]"] by simp
  then have "produces (\<lambda>ctl. \<exists>st'. ctl = Continue st' \<and> pends st' es k (ls @ [line]) ?pre rest)
    (accept_comment st (length pre) ?cm (at_text ?pre rest))"
    using acc st comment_line_last [of pre k line]
    by (subst accept_comment_joined) (auto simp: pends_def acc_add_def acc_ok_def)
  moreover have "step_comment P st ?c = accept_comment st (length pre) ?cm (at_text ?pre rest)"
    by (simp add: step_comment_def parse_comment_line [OF assms(2)])
  moreover have "parse_step P ctx st = step_comment P st ?c"
    using column st(2) by (simp add: parse_step_def Let_def t)
  ultimately show ?thesis by simp
qed


text \<open>All lines of a comment.\<close>

lemma str_split_not_Nil [simp]: "str_split x s \<noteq> []"
  by (cases s) (auto split: list.splits)

lemma str_split_free: "list_all (list_all (\<lambda>ch. ch \<noteq> x)) (str_split x s)"
  by (induction s) (auto split: list.splits)

lemma str_join_Cons: "ws \<noteq> [] \<Longrightarrow> str_join sep (w # ws) = w @ sep @ str_join sep ws"
  by (cases ws) simp_all

lemma str_join_head: "str_join sep ((ch # w) # ws) = ch # str_join sep (w # ws)"
  by (cases ws) simp_all

lemma str_join_split [simp]: "str_join [x] (str_split x s) = s"
proof (induction s)
  case (Cons ch s)
  then show ?case by (cases "str_split x s") (auto simp: str_join_Cons str_join_head)
qed simp

lemma more_comment_lines:
  assumes "pends st es k ls pre (concat (map (comment_line k) ms) @ rest)" "list_all (list_all (\<lambda>ch. ch \<noteq> CH_LF)) ms"
    and "length (concat (map (comment_line k) ms) @ rest) < m"
    and "\<And>st m. pends st es k (ls @ ms) (pre @ concat (map (comment_line k) ms)) rest \<Longrightarrow> length rest < m \<Longrightarrow>
      produces Q (parse_loop P ctx m st)"
  shows "produces Q (parse_loop P ctx m st)"
  using assms
proof (induction ms arbitrary: st ls pre m)
  case (Cons l ms)
  obtain m' where m: "m = Suc m'" using Cons.prems(3) by (cases m) auto
  obtain t where t: "comment_line k l = CH_HASH # t" using comment_line_start by blast
  let ?rest = "concat (map (comment_line k) ms) @ rest"
  have start: "pends st es k ls pre (comment_line k l @ ?rest)" using Cons.prems(1) by simp
  show ?case
    unfolding m
  proof (rule loop_continues [OF next_comment_line [OF start]], goal_cases)
    case (2 st')
    then show ?case
      using Cons.prems m by (intro Cons.IH [OF 2]) (auto simp: t)
  next
    case 3
    then show ?case using start by (auto simp: pends_def t)
  qed (use Cons.prems(2) in simp)
qed simp

lemma comment_lines:
  assumes "stands st es pre gap (serialize_comment cm @ rest)" "kept_apart st gap (comment_kind cm)"
    and "length (serialize_comment cm @ rest) < m"
    and "\<And>st m. pends st es (comment_kind cm) (str_split CH_LF (comment_content cm)) (pre @ gap @ serialize_comment cm) rest \<Longrightarrow>
      length rest < m \<Longrightarrow> produces Q (parse_loop P ctx m st)"
  shows "produces Q (parse_loop P ctx m st)"
proof -
  obtain l ls where split: "str_split CH_LF (comment_content cm) = l # ls"
    using str_split_not_Nil [of CH_LF "comment_content cm"] by (metis neq_Nil_conv)
  have lines: "list_all (\<lambda>ch. ch \<noteq> CH_LF) l" "list_all (list_all (\<lambda>ch. ch \<noteq> CH_LF)) ls"
    using str_split_free [of CH_LF "comment_content cm"] by (simp_all add: split)
  obtain m' where m: "m = Suc m'" using assms(3) by (cases m) auto
  let ?k = "comment_kind cm" and ?rest = "concat (map (comment_line (comment_kind cm)) ls) @ rest"
  obtain t where t: "comment_line ?k l = CH_HASH # t" using comment_line_start by blast
  have shape: "serialize_comment cm @ rest = comment_line ?k l @ ?rest"
    by (simp add: serialize_comment_lines split)
  show ?thesis
    unfolding m
  proof (rule loop_continues [OF first_comment_line [OF assms(1) [unfolded shape] lines(1) assms(2)]], goal_cases)
    case (1 st')
    then show ?case
      using assms(3,4) m by (intro more_comment_lines [OF 1 lines(2)]) (auto simp: t split shape serialize_comment_lines)
  next
    case 2
    then show ?case using assms(1) by (auto simp: stands_def shape t)
  qed
qed

lemma pends_stands:
  assumes "pends st es (comment_kind cm) (str_split CH_LF (comment_content cm)) pre rest"
  shows "stands st (es @ [CommentEntry cm]) pre [] rest"
  using assms by (cases cm) (auto simp: pends_def stands_def collected_def acc_comment_def)

section \<open>Messages and terms in the main loop\<close>

lemma skip_blank_newlines [simp]: "skip_blank (skip_newlines (at_text pre rest)) = skip_blank (at_text pre rest)"
  by (induction rest arbitrary: pre) (simp_all add: skip_newlines_def)

fun with_comment :: "comment option \<Rightarrow> entry \<Rightarrow> entry" where
  "with_comment cm (Message i v ats c sp) = Message i v ats cm sp"
| "with_comment cm (Term i v ats c sp) = Term i v ats cm sp"
| "with_comment cm e = e"

lemma erase_with_comment:
  "erase_entry e' = erase_entry (without_comment e) \<Longrightarrow> map_option erase_comment cm = map_option erase_comment (entry_comment e) \<Longrightarrow>
     erase_entry (with_comment cm e') = erase_entry e"
  by (cases e; cases e') auto

lemma attach_definition:
  assumes "erase_entry e' = erase_entry (without_comment e)" "printable_entry e" "is_definition e"
  shows "attach cm e' = ret (with_comment cm e')"
proof (cases e rule: printable_entry.cases)
  case (2 i p ats c sp)
  with assms(1) show ?thesis by (cases e'; cases cm) (auto simp: attach_def mk_message_def)
next
  case (3 i p ats c sp)
  with assms(1) show ?thesis by (cases e'; cases cm) (auto simp: attach_def)
qed (use assms in auto)

lemma definition_text:
  assumes "printable_entry e" "is_definition e" "serialize_entry L e = Inr s"
  obtains t where "serialize_entry L (without_comment e) = Inr t" "s = attached_comment (entry_comment e) @ t"
  using assms by (cases e rule: printable_entry.cases) (auto simp: cat_Inr_iff attached_comment_def)

text \<open>The first character decides between a message and a term.\<close>

lemma definition_printed:
  assumes "printable_entry e" "is_definition e" "serialize_entry L (without_comment e) = Inr t"
    and "nesting_entry e \<le> depth_left ctx" "entry_boundary rest"
  obtains ch t' where "t = ch # t'" "ch \<noteq> CH_SPACE" "ch \<noteq> CH_LF" "ch \<noteq> CH_HASH" "last t = CH_LF"
    "produces (reads_entry e (pre @ t) rest)
      (if ch = CH_MINUS then parse_term (at_text pre (t @ rest)) ctx else parse_message (at_text pre (t @ rest)) ctx)"
proof (cases e rule: printable_entry.cases)
  case (2 i p ats c sp)
  with assms(3) obtain tp a where parts: "serialize_pattern L 0 p = Inr tp" "serialize_attributes L ats = Inr a"
    and t: "t = id_name i @ u '' = '' @ tp @ a @ [CH_LF]"
    by (auto simp: cat_Inr_iff attached_comment_def)
  obtain ch x where i: "id_name i = ch # x" "is_identifier_start ch" using identifier_starts [of "id_name i"] assms(1) 2 by auto
  show ?thesis
  proof (rule that [of ch "x @ u '' = '' @ tp @ a @ [CH_LF]"])
    show "t = ch # x @ u '' = '' @ tp @ a @ [CH_LF]" "last t = CH_LF" by (simp_all add: t i)
    show "produces (reads_entry e (pre @ t) rest)
      (if ch = CH_MINUS then parse_term (at_text pre (t @ rest)) ctx else parse_message (at_text pre (t @ rest)) ctx)"
      using message_printed [OF assms(1,4) [unfolded 2] parts assms(5), of pre] code.identifier_start_facts [OF i(2)] 2 t by simp
  qed (use i(2) in \<open>auto simp: is_identifier_start_def is_ascii_alpha_def\<close>)
next
  case (3 i p ats c sp)
  with assms(3) obtain tp a where parts: "serialize_pattern L 0 p = Inr tp" "serialize_attributes L ats = Inr a"
    and t: "t = CH_MINUS # id_name i @ u '' = '' @ tp @ a @ [CH_LF]"
    by (auto simp: cat_Inr_iff attached_comment_def)
  show ?thesis
    using term_printed [OF assms(1,4) [unfolded 3] parts assms(5), of pre] 3 t
    by (intro that [of CH_MINUS "id_name i @ u '' = '' @ tp @ a @ [CH_LF]"]) simp_all
qed (use assms in auto)

lemma definition_step:
  assumes "printable_entry e" "is_definition e" "serialize_entry L (without_comment e) = Inr t"
    and "nesting_entry e \<le> depth_left ctx" "entry_boundary rest"
    and "skip_blank (st_cursor st) = at_text pre (t @ rest)" "pre = [] \<or> last pre = CH_LF"
    and "produces (\<lambda>r. st_pending (snd r) = None \<and> map erase_entry (st_entries (snd r)) = map erase_entry es \<and>
      map_option erase_comment (fst r) = map_option erase_comment (entry_comment e)) (take_pending st (at_text pre (t @ rest)))"
  shows "produces (\<lambda>ctl. \<exists>st'. ctl = Continue st' \<and> stands st' (es @ [e]) (pre @ t) [] rest) (parse_step P ctx st)"
proof -
  let ?c = "at_text pre (t @ rest)"
  obtain ch t' where t: "t = ch # t'" "ch \<noteq> CH_SPACE" "ch \<noteq> CH_LF" "ch \<noteq> CH_HASH" "last t = CH_LF"
    and parsed: "produces (reads_entry e (pre @ t) rest)
      (if ch = CH_MINUS then parse_term ?c ctx else parse_message ?c ctx)"
    using definition_printed [OF assms(1-5)] by metis
  have step: "parse_step P ctx st = step_entry P ctx st ?c"
    using column_one [OF assms(7)] assms(6) t by (simp add: parse_step_def Let_def)
  have finish: "produces (\<lambda>ctl. \<exists>st'. ctl = Continue st' \<and> stands st' (es @ [e]) (pre @ t) [] rest)
      (entry_parsed st0 cm e' c')"
    if "st_pending st0 = None" "map erase_entry (st_entries st0) = map erase_entry es"
      "map_option erase_comment cm = map_option erase_comment (entry_comment e)" "reads_entry e (pre @ t) rest (e', c')"
    for st0 cm e' c'
  proof -
    have e': "erase_entry e' = erase_entry (without_comment e)" "c' = skip_newlines (at_text (pre @ t) rest)"
      using that(4) by (simp_all add: reads_entry_def)
    have "stands (st0\<lparr>st_entries := st_entries st0 @ [with_comment cm e'], st_cursor := c'\<rparr>) (es @ [e]) (pre @ t) [] rest"
      using that(1,2) t(1,5) erase_with_comment [OF e'(1) that(3)] by (simp add: stands_def collected_def e'(2))
    then show ?thesis by (simp add: entry_parsed_def attach_definition [OF e'(1) assms(1,2)])
  qed
  show ?thesis
    unfolding step step_entry_def
  proof (rule produces_and_then [OF assms(8)], goal_cases)
    case (1 r)
    obtain cm st0 where r: "r = (cm, st0)" by (cases r)
    have attempt: "produces (\<lambda>x. \<exists>q. x = Some q \<and> reads_entry e (pre @ t) rest q)
        (attempt (if ch = CH_MINUS then parse_term ?c ctx else parse_message ?c ctx))"
      by (rule produces_attempt [OF parsed]) auto
    have done_ok: "produces (\<lambda>ctl. \<exists>st'. ctl = Continue st' \<and> stands st' (es @ [e]) (pre @ t) [] rest)
        (and_then (attempt (if ch = CH_MINUS then parse_term ?c ctx else parse_message ?c ctx))
          (\<lambda>x. case x of Some (e', c') \<Rightarrow> entry_parsed st0 cm e' c' | None \<Rightarrow> k))" for k
      by (rule produces_and_then [OF attempt]) (use finish 1 in \<open>auto simp: r\<close>)
    show ?case
      using done_ok by (cases "ch = CH_MINUS") (simp_all add: r t(1) Let_def)
  qed
qed

end
