(* ===== verification/Printed_Resources.thy ===== *)
theory Printed_Resources
  imports Printed_Loop
begin

text \<open>
  One entry after the other, and the whole resource: no carriage return is written, so
  normalization changes nothing, and the parser returns the entries.
\<close>

section \<open>One entry\<close>

text \<open>The comment kind that would join a pending comment.\<close>

fun lead_kind :: "entry \<Rightarrow> comment_type" where
  "lead_kind (CommentEntry cm) = comment_kind cm"
| "lead_kind e = COMMENT"

lemma take_apart:
  assumes "stands st es pre gap rest" "kept_apart st gap COMMENT"
  shows "produces (\<lambda>r. st_pending (snd r) = None \<and> map erase_entry (st_entries (snd r)) = map erase_entry es \<and> fst r = None)
    (take_pending st (at_text (pre @ gap) rest))"
proof (cases "st_pending st")
  case (Some acc)
  with assms have acc: "acc_ok (length pre) acc" "st_pending_end st = length pre"
      "map erase_entry (st_entries st) @ [CommentEntry (acc_comment acc)] = map erase_entry es"
    and apart: "acc_type acc \<noteq> COMMENT \<or> CH_LF \<in> set gap"
    by (auto simp: stands_def collected_def kept_apart_def)
  have "\<not> (acc_type acc = COMMENT \<and> \<not> has_blank_line_between (source (at_text (pre @ gap) rest)) (st_pending_end st) (length (pre @ gap)))"
    using apart blank_line_at_text [of pre gap rest] by (simp add: acc(2))
  then show ?thesis
    unfolding take_pending_def Some option.case Let_def at_text_fields if_not_P
    using acc(3) by (auto intro!: produces_and_then [OF acc_finalize_ok [OF acc(1)]])
qed (use assms in \<open>auto simp: take_pending_def stands_def collected_def\<close>)

lemma take_attached:
  assumes "pends st es (comment_kind cm) (str_split CH_LF (comment_content cm)) pre rest" "comment_kind cm = COMMENT"
  shows "produces (\<lambda>r. st_pending (snd r) = None \<and> map erase_entry (st_entries (snd r)) = map erase_entry es \<and>
      map_option erase_comment (fst r) = Some (erase_comment cm)) (take_pending st (at_text pre rest))"
proof -
  obtain acc where acc: "st_pending st = Some acc" "acc_ok (length pre) acc" "acc_type acc = COMMENT"
      "acc_contents acc = str_split CH_LF (comment_content cm)"
    and st: "st_pending_end st = length pre" "map erase_entry (st_entries st) = map erase_entry es"
    using assms by (auto simp: pends_def)
  have "acc_comment acc = erase_comment cm" using acc(3,4) assms(2) by (cases cm) (simp add: acc_comment_def)
  moreover have "\<not> has_blank_line_between (pre @ rest) (length pre) (length pre)"
    using blank_line_at_text [of pre "[]" rest] by simp
  ultimately show ?thesis
    using acc(3) st by (auto simp: take_pending_def acc(1) intro!: produces_and_then [OF acc_finalize_ok [OF acc(2)]])
qed

lemma serialize_comment_start: "\<exists>t. serialize_comment cm = CH_HASH # t"
proof -
  obtain l ls where "str_split CH_LF (comment_content cm) = l # ls"
    using str_split_not_Nil [of CH_LF "comment_content cm"] by (metis neq_Nil_conv)
  with comment_line_start [of "comment_kind cm" l] show ?thesis by (auto simp: serialize_comment_lines)
qed

lemma entry_start:
  assumes "printable_entry e" "serialize_entry L e = Inr s"
  shows "\<exists>ch t. s = ch # t \<and> ch \<noteq> CH_SPACE \<and> ch \<noteq> CH_LF \<and> ch \<noteq> CH_DOT"
proof -
  have attached: "attached_comment c = [] \<or> (\<exists>t. attached_comment c = CH_HASH # t)" for c
    using serialize_comment_start by (cases c) (auto simp: attached_comment_def)
  show ?thesis
  proof (cases e rule: printable_entry.cases)
    case (2 i p ats c sp)
    with assms(1) identifier_starts [of "id_name i"] obtain ch x where "id_name i = ch # x" "is_identifier_start ch" by auto
    moreover from this(2) have "ch \<noteq> CH_SPACE \<and> ch \<noteq> CH_LF \<and> ch \<noteq> CH_DOT"
      by (auto simp: is_identifier_start_def is_ascii_alpha_def)
    ultimately show ?thesis
      using 2 assms(2) attached [of c] by (auto simp: cat_Inr_iff)
  next
    case (3 i p ats c sp)
    with assms(2) attached [of c] show ?thesis by (auto simp: cat_Inr_iff)
  next
    case (4 cm)
    with assms(2) serialize_comment_start [of cm] show ?thesis by auto
  qed (use assms(1) in auto)
qed

lemma entry_read:
  assumes "stands st es pre gap (s @ rest)" "printable_entry e" "serialize_entry L e = Inr s"
    and "nesting_entry e \<le> depth_left ctx" "is_definition e \<Longrightarrow> entry_boundary rest"
    and "kept_apart st gap (lead_kind e)" "length (s @ rest) < m"
    and go_on: "\<And>st m. stands st (es @ [e]) (pre @ gap @ s) [] rest \<Longrightarrow> length rest < m \<Longrightarrow> produces Q (parse_loop P ctx m st)"
  shows "produces Q (parse_loop P ctx m st)"
proof (cases "is_definition e")
  case False
  with assms(2) obtain cm where e: "e = CommentEntry cm" by (cases e rule: printable_entry.cases) auto
  with assms(3) have s: "s = serialize_comment cm" by simp
  show ?thesis
    using assms(1,6,7) unfolding e s lead_kind.simps
  proof (rule comment_lines, goal_cases)
    case (1 st m)
    then show ?case using go_on pends_stands by (simp add: e s)
  qed
next
  case True
  obtain t where t: "serialize_entry L (without_comment e) = Inr t" and s: "s = attached_comment (entry_comment e) @ t"
    using definition_text [OF assms(2) True assms(3)] by metis
  have lead: "lead_kind e = COMMENT" using True by (cases e) auto
  have ends: "produces Q (parse_loop P ctx m st)"
    if hyps: "skip_blank (st_cursor st) = at_text pre' (t @ rest)" "pre' = [] \<or> last pre' = CH_LF" "pre' @ t = pre @ gap @ s"
      "length (t @ rest) < m"
      "produces (\<lambda>r. st_pending (snd r) = None \<and> map erase_entry (st_entries (snd r)) = map erase_entry es \<and>
        map_option erase_comment (fst r) = map_option erase_comment (entry_comment e)) (take_pending st (at_text pre' (t @ rest)))"
    for st m pre'
  proof -
    obtain m' where m: "m = Suc m'" using hyps(4) by (cases m) auto
    obtain ch t' where start: "t = ch # t'"
      using definition_printed [OF assms(2) True t assms(4) assms(5) [OF True]] by metis
    show ?thesis
      unfolding m
    proof (rule loop_continues [OF definition_step [OF assms(2) True t assms(4) assms(5) [OF True] hyps(1,2,5)]], goal_cases)
      case (1 st')
      then show ?case using hyps(3,4) start m by (intro go_on) simp_all
    qed (simp add: hyps(1) start)
  qed
  show ?thesis
  proof (cases "entry_comment e")
    case None
    then have s': "s = t" by (simp add: s attached_comment_def)
    obtain ch t' where "t = ch # t'" "ch \<noteq> CH_SPACE" "ch \<noteq> CH_LF"
      using definition_printed [OF assms(2) True t assms(4) assms(5) [OF True]] by metis
    then have "skip_blank (st_cursor st) = at_text (pre @ gap) (t @ rest)" "pre @ gap = [] \<or> last (pre @ gap) = CH_LF"
      using assms(1) by (auto simp: stands_def s')
    moreover have "produces (\<lambda>r. st_pending (snd r) = None \<and> map erase_entry (st_entries (snd r)) = map erase_entry es \<and>
        map_option erase_comment (fst r) = map_option erase_comment (entry_comment e)) (take_pending st (at_text (pre @ gap) (t @ rest)))"
      by (rule produces_mono [OF take_apart [OF assms(1) [unfolded s'] assms(6) [unfolded lead]]]) (simp add: None)
    ultimately show ?thesis using assms(7) by (intro ends) (simp_all add: s')
  next
    case (Some cm)
    have kind: "comment_kind cm = COMMENT"
      using assms(2) Some True by (cases e rule: printable_entry.cases) (auto simp: printable_attached_def)
    have s': "s = serialize_comment cm @ t" by (simp add: s Some attached_comment_def)
    show ?thesis
      using assms(1,6,7) unfolding s' lead append.assoc kind [symmetric]
    proof (rule comment_lines, goal_cases)
      case (1 st m)
      let ?pre = "pre @ gap @ serialize_comment cm"
      obtain ch t' where "t = ch # t'" "ch \<noteq> CH_SPACE" "ch \<noteq> CH_LF"
        using definition_printed [OF assms(2) True t assms(4) assms(5) [OF True]] by metis
      with 1(1) have "skip_blank (st_cursor st) = at_text ?pre (t @ rest)" "?pre = [] \<or> last ?pre = CH_LF"
        by (auto simp: pends_def)
      moreover have "produces (\<lambda>r. st_pending (snd r) = None \<and> map erase_entry (st_entries (snd r)) = map erase_entry es \<and>
          map_option erase_comment (fst r) = map_option erase_comment (entry_comment e)) (take_pending st (at_text ?pre (t @ rest)))"
        by (rule produces_mono [OF take_attached [OF 1(1) kind]]) (simp add: Some)
      ultimately show ?case using 1(2) by (intro ends) (simp_all add: s')
    qed
  qed
qed


section \<open>The resource\<close>

lemma separator_blank: "list_all (\<lambda>ch. ch = CH_LF) (separator prev e)"
  by (auto simp: separator_def list_all_iff split: entry.splits)

lemma entries_boundary:
  assumes "serialize_entries L (Some prev) es = Inr s" "list_all printable_entry es"
  shows "entry_boundary s"
proof (cases es)
  case (Cons e es')
  with assms obtain t r where t: "serialize_entry L e = Inr t" and s: "s = separator prev e @ t @ r"
    by (auto simp: cat_Inr_iff)
  obtain ch t' where "t = ch # t'" "ch \<noteq> CH_SPACE" "ch \<noteq> CH_LF" "ch \<noteq> CH_DOT"
    using entry_start [OF _ t] assms(2) Cons by auto
  moreover have "dropWhile (\<lambda>ch. ch = CH_LF) (separator prev e @ x) = dropWhile (\<lambda>ch. ch = CH_LF) x" for x
    using separator_blank [of prev e] by (simp add: list_all_iff)
  ultimately show ?thesis by (simp add: entry_boundary_def s)
qed (use assms in \<open>simp add: entry_boundary_def\<close>)

lemma comment_kind_erase [simp]: "comment_kind (erase_comment cm) = comment_kind cm"
  by (cases cm) simp

lemma separator_keeps_apart:
  assumes "stands st (es @ [prev]) pre gap rest" "printable_entry e"
  shows "kept_apart st (separator prev e) (lead_kind e)"
proof (cases "st_pending st")
  case (Some acc)
  with assms(1) have "CommentEntry (acc_comment acc) = erase_entry prev" by (simp add: stands_def collected_def)
  then obtain cm where "prev = CommentEntry cm" "acc_type acc = comment_kind cm"
    by (cases prev) (auto simp: acc_comment_def dest: arg_cong [of _ _ comment_kind])
  with Some assms(2) show ?thesis
    by (cases e rule: printable_entry.cases) (auto simp: kept_apart_def separator_def needs_extra_blank_def)
qed (simp add: kept_apart_def)


lemma entries_read:
  assumes "stands st es pre [] s" "serialize_entries L (if es = [] then None else Some (last es)) fs = Inr s"
    and "list_all printable_entry fs" "\<forall>e \<in> set fs. nesting_entry e \<le> depth_left ctx" "length s < m"
    and "\<And>st m. stands st (es @ fs) (pre @ s) [] [] \<Longrightarrow> 0 < m \<Longrightarrow> produces Q (parse_loop P ctx m st)"
  shows "produces Q (parse_loop P ctx m st)"
  using assms
proof (induction fs arbitrary: st es pre s m)
  case Nil
  then show ?case by simp
next
  case (Cons e fs)
  define gap where "gap = (if es = [] then [] else separator (last es) e)"
  obtain t r where t: "serialize_entry L e = Inr t" and r: "serialize_entries L (Some e) fs = Inr r"
    and s: "s = gap @ t @ r"
    using Cons.prems(2) by (auto simp: cat_Inr_iff gap_def split: if_splits)
  have gap: "list_all (\<lambda>ch. ch = CH_LF) gap" by (simp add: gap_def separator_blank)
  have apart: "kept_apart st gap (lead_kind e)"
  proof (cases es rule: rev_cases)
    case Nil
    with Cons.prems(1) show ?thesis by (cases "st_pending st") (simp_all add: kept_apart_def stands_def collected_def)
  next
    case (snoc es' prev)
    with separator_keeps_apart [of st es' prev pre "[]" s e] Cons.prems(1,3) show ?thesis by (simp add: gap_def)
  qed
  have stands: "stands st es pre gap (t @ r)" by (rule stands_gap [OF Cons.prems(1) [unfolded s] gap])
  have boundary: "entry_boundary r" by (rule entries_boundary [OF r]) (use Cons.prems(3) in simp)
  have e: "printable_entry e" "nesting_entry e \<le> depth_left ctx" "length (t @ r) < m"
    using Cons.prems(3-5) by (simp_all add: s)
  show ?case
  proof (rule entry_read [OF stands e(1) t e(2) boundary apart e(3)], goal_cases)
    case (1 st' m')
    show ?case
    proof (rule Cons.IH [OF 1(1)], goal_cases)
      case (5 st m)
      then show ?case using Cons.prems(6) [of st m] by (simp add: s)
    qed (use Cons.prems(3,4) r 1(2) in simp_all)
  qed
qed

section \<open>No carriage returns\<close>

definition no_return :: "ustr \<Rightarrow> bool" where
  "no_return s \<longleftrightarrow> CH_CR \<notin> set s"

lemma no_return_simps [simp]:
  "no_return []" "no_return (ch # s) \<longleftrightarrow> ch \<noteq> CH_CR \<and> no_return s" "no_return (s @ t) \<longleftrightarrow> no_return s \<and> no_return t"
  "no_return (concat ss) \<longleftrightarrow> list_all no_return ss" "no_return (replicate n ch) \<longleftrightarrow> n = 0 \<or> ch \<noteq> CH_CR"
  by (auto simp: no_return_def list_all_iff)

lemma normalize_no_return: "no_return s \<Longrightarrow> normalize_newlines s = s"
  by (induction s) auto

lemma no_return_sub: "set s \<subseteq> set t \<Longrightarrow> no_return t \<Longrightarrow> no_return s"
  by (auto simp: no_return_def)

lemma no_return_indents [simp]:
  "no_return CONT_INDENT" "no_return ATTR_INDENT" "no_return VARIANT_INDENT"
  "no_return (wrap_literal s) \<longleftrightarrow> no_return s"
  by (auto simp: CONT_INDENT_def ATTR_INDENT_def VARIANT_INDENT_def wrap_literal_def)

lemma no_return_part: "no_return v \<Longrightarrow> no_return (take n v) \<and> no_return (drop n v)"
  by (auto simp: no_return_def dest: in_set_takeD in_set_dropD)

lemma no_return_escape_text [simp]: "no_return v \<Longrightarrow> no_return (escape_text v)"
proof (induction v rule: escape_text.induct)
  case (2 ch rest)
  have "no_return (takeWhile (\<lambda>c. \<not> is_brace c) rest)" "no_return (dropWhile (\<lambda>c. \<not> is_brace c) rest)"
    using 2(3) by (auto simp: no_return_def dest: set_takeWhileD set_dropWhileD)
  with 2 show ?case by (auto simp: char_placeable_def wrap_literal_def)
qed simp

lemma no_return_line [simp]: "no_return v \<Longrightarrow> no_return (emit_classified_line v)"
  using no_return_part
  by (auto simp: emit_classified_line_def classify_line_def Let_def char_placeable_def line_start_syntax_chars_def)

lemma no_return_split: "no_return v \<Longrightarrow> list_all no_return (str_split x v)"
  by (induction v) (auto split: list.splits)

lemma no_return_text_lines: "text_lines b v = (x, b') \<Longrightarrow> no_return v \<Longrightarrow> no_return x"
  using no_return_split [of v CH_LF]
  by (cases "str_split CH_LF v") (auto simp: text_lines_def Let_def list_all_iff split: if_splits)

lemma no_return_identifier: "grammar_identifier name \<Longrightarrow> no_return name"
  by (cases name) (auto simp: grammar_identifier_def no_return_def list_all_iff is_identifier_start_def
      is_identifier_char_def is_ascii_alpha_def is_ascii_digit_def)

lemma no_return_digits: "list_all is_ascii_digit ds \<Longrightarrow> no_return ds"
  by (induction ds) (auto simp: is_ascii_digit_def)

lemma no_return_number: "number_ok v raw \<Longrightarrow> no_return raw"
  using number_ok_shape [of v raw]
  by (auto simp: number_shape_def no_return_digits)

lemma no_return_quote [simp]: "no_return (quote_string v)"
  by (auto simp: quote_string_def escape_char_def unicode_escape_def upper_hex_digit_def list_all_iff)

fun element_no_return :: "pattern_element \<Rightarrow> bool" where
  "element_no_return (TextElement v sp) \<longleftrightarrow> no_return v"
| "element_no_return (PlaceableElement p) \<longleftrightarrow> True"

lemma layout_no_return: "layout_ok b st es \<Longrightarrow> list_all element_no_return es"
proof (induction b st es rule: layout_ok.induct)
  case (2 b st v sp es)
  have "no_return v" if "list_all (text_char b) v" for v
    using that by (auto simp: no_return_def list_all_iff text_char_def)
  moreover have "no_return v" if "list_all (text_char b) (butlast v)" "last v = CH_LF" "v \<noteq> []"
    using that by (cases v rule: rev_cases) (auto simp: no_return_def list_all_iff text_char_def)
  ultimately show ?case using 2 by (auto split: if_splits)
qed auto

lemma no_return_key: "printable_key k \<Longrightarrow> no_return (key_text k)"
  by (cases k) (auto simp: no_return_identifier no_return_number)

lemma no_return_serialized:
  "serialize_expression L d e = Inr s \<Longrightarrow> printable e \<Longrightarrow> no_return s"
  "serialize_call_arguments L d args = Inr s \<Longrightarrow> printable_args args \<Longrightarrow> no_return s"
  "serialize_positional L d written ps = Inr s \<Longrightarrow> list_all printable ps \<Longrightarrow> no_return s"
  "serialize_named L d written ns = Inr s \<Longrightarrow> list_all printable_named ns \<Longrightarrow> no_return s"
  "serialize_variants L d vs = Inr s \<Longrightarrow> list_all printable_variant vs \<Longrightarrow> no_return s"
  "serialize_pattern L d p = Inr s \<Longrightarrow> printable_pattern b p \<Longrightarrow> no_return s"
  "serialize_elements L d ws st es = Inr s \<Longrightarrow> list_all printable_element es \<Longrightarrow> list_all element_no_return es \<Longrightarrow> no_return s"
proof (induction L d e and L d args and L d written ps and L d written ns and L d vs and L d p and L d ws st es
    arbitrary: s and s and s and s and s and s b and s
    rule: serialize_expression_serialize_call_arguments_serialize_positional_serialize_named_serialize_variants_serialize_pattern_serialize_elements.induct)
qed (auto simp: emission_Inr no_return_identifier no_return_number no_return_key attribute_suffix_def
    no_return_part dest!: layout_no_return dest: no_return_text_lines split: option.splits if_splits prod.splits)


lemma no_return_comment: "printable_comment cm \<Longrightarrow> no_return (serialize_comment cm)"
  using no_return_split [of "comment_content cm" CH_LF]
  by (cases "comment_kind cm")
    (auto simp: serialize_comment_lines comment_line_def printable_comment_def no_return_def [symmetric] list_all_iff
      comment_prefix_def u_def)

lemma no_return_attached: "printable_attached cm \<Longrightarrow> no_return (attached_comment cm)"
  by (cases cm) (auto simp: printable_attached_def attached_comment_def no_return_comment)

lemma no_return_attributes:
  "serialize_attributes L ats = Inr s \<Longrightarrow> list_all printable_attribute ats \<Longrightarrow> no_return s"
proof (induction ats arbitrary: s)
  case (Cons a ats)
  then show ?case
    by (cases a) (auto simp: cat_Inr_iff no_return_identifier no_return_serialized(6))
qed simp

lemma no_return_entry:
  assumes "printable_entry e" "serialize_entry L e = Inr s"
  shows "no_return s"
  using assms
  by (cases e rule: printable_entry.cases)
    (auto simp: cat_Inr_iff no_return_attached no_return_comment no_return_identifier
      no_return_serialized(6) no_return_attributes)

lemma no_return_entries:
  "serialize_entries L prev es = Inr s \<Longrightarrow> list_all printable_entry es \<Longrightarrow> no_return s"
proof (induction es arbitrary: prev s)
  case (Cons e es)
  have "no_return (separator p e)" for p
    using separator_blank [of p e] by (auto simp: no_return_def list_all_iff)
  with Cons show ?case by (auto simp: cat_Inr_iff no_return_entry split: option.splits)
qed simp

section \<open>The round trip\<close>

definition erase_resource :: "resource \<Rightarrow> resource" where
  "erase_resource r = Resource (map erase_entry (entries r))"

definition printable_resource :: "resource \<Rightarrow> bool" where
  "printable_resource r \<longleftrightarrow> list_all printable_entry (entries r)"

lemma serialize_entries_of:
  "serialize recursion_limit r validate max_depth = Inr s \<Longrightarrow>
     serialize_entries (depth_clamp recursion_limit max_depth) None (entries r) = Inr s"
  by (auto simp: serialize_def split: if_splits option.splits sum.splits)

lemma stands_initial: "stands (initial_state s) [] [] [] s"
  by (simp add: stands_def initial_state_def collected_def at_text_def)

lemma loop_ends:
  assumes "stands st es pre [] []" "0 < m"
  shows "produces (\<lambda>st'. collected st' = map erase_entry es \<and> pred_option (acc_ok (length pre)) (st_pending st'))
    (parse_loop P ctx m st)"
proof -
  obtain m' where m: "m = Suc m'" using assms(2) by (cases m) auto
  have st: "skip_blank (st_cursor st) = at_text pre []" "collected st = map erase_entry es"
      "pred_option (acc_ok (length pre)) (st_pending st)"
    using assms(1) by (cases "st_pending st"; simp add: stands_def)+
  have "parse_step P ctx st = and_then (flush_pending st) (\<lambda>st. ret (Break (st\<lparr>st_cursor := at_text pre []\<rparr>)))"
    by (simp add: parse_step_def st(1))
  moreover have flushed: "produces (\<lambda>ctl. \<exists>st'. ctl = Break st' \<and> st_pending st' = None \<and>
      map erase_entry (st_entries st') = map erase_entry es)
    (and_then (flush_pending st) (\<lambda>st. ret (Break (st\<lparr>st_cursor := at_text pre []\<rparr>))))"
    by (rule produces_and_then [OF flush_pending_ok [OF st(3)]]) (simp add: st(2))
  moreover have "produces (\<lambda>st'. collected st' = map erase_entry es \<and> pred_option (acc_ok (length pre)) (st_pending st'))
    (and_then (and_then (flush_pending st) (\<lambda>st. ret (Break (st\<lparr>st_cursor := at_text pre []\<rparr>))))
      (\<lambda>ctl. case ctl of Continue st' \<Rightarrow> parse_loop P ctx m' st' | Break st' \<Rightarrow> ret st'))"
    by (rule produces_and_then [OF flushed]) (auto simp: collected_def)
  ultimately show ?thesis
    using st by (simp add: m)
qed

lemma parse_normalized_printed:
  assumes "serialize_entries L None es = Inr s" "list_all printable_entry es"
    and "\<forall>e \<in> set es. nesting_entry e \<le> nat (parser_nesting_depth P)"
  shows "produces (\<lambda>r. map erase_entry (entries r) = map erase_entry es) (parse_normalized P s)"
proof -
  let ?loop = "parse_loop P (parser_context P) (Suc (length s)) (initial_state s)"
  have "produces (\<lambda>st'. collected st' = map erase_entry es \<and> pred_option (acc_ok (length s)) (st_pending st')) ?loop"
  proof (rule entries_read [OF stands_initial _ assms(2)])
    fix st m assume "stands st ([] @ es) ([] @ s) [] []" "0 < (m::nat)"
    then show "produces (\<lambda>st'. collected st' = map erase_entry es \<and> pred_option (acc_ok (length s)) (st_pending st'))
        (parse_loop P (parser_context P) m st)"
      using loop_ends [of st es s m P "parser_context P"] by simp
  qed (use assms(1,3) in \<open>simp_all add: parser_context_def\<close>)
  then show ?thesis
    unfolding parse_normalized_def
    by (rule produces_and_then) (auto intro!: produces_and_then [OF flush_pending_ok] simp: collected_def)
qed

lemma parse_printed:
  assumes "printable_resource r" "serialize recursion_limit r validate max_depth = Inr s"
    and "max_source_size P \<le> 0 \<or> int (length s) \<le> max_source_size P"
    and "\<forall>e \<in> set (entries r). nesting_entry e \<le> nat (parser_nesting_depth P)"
  shows "\<exists>r'. parse P s = Returns r' \<and> erase_resource r' = erase_resource r"
proof -
  have es: "serialize_entries (depth_clamp recursion_limit max_depth) None (entries r) = Inr s"
    using assms(2) by (rule serialize_entries_of)
  have "list_all printable_entry (entries r)" using assms(1) by (simp add: printable_resource_def)
  then have "normalize_newlines s = s" "produces (\<lambda>r'. map erase_entry (entries r') = map erase_entry (entries r)) (parse_normalized P s)"
    using normalize_no_return no_return_entries [OF es] parse_normalized_printed [OF es _ assms(4)] by auto
  moreover from this(2) obtain r' where "parse_normalized P s False = (Returns r', False)"
      "map erase_entry (entries r') = map erase_entry (entries r)"
    by (auto simp: produces_def)
  ultimately show ?thesis
    using assms(3) by (auto simp: parse_def erase_resource_def)
qed

end
