(* ===== verification/Round_Trip.thy ===== *)
theory Round_Trip
  imports Printed_Resources
begin

text \<open>
  The serializer does not look at positions, and the round trip: parsing what was serialized
  gives the tree, which serializes to the same text again.
\<close>

section \<open>The serializer does not look at positions\<close>

lemma fst_erase_key [simp]: "key_text (erase_key k) = key_text k"
  by (cases k) simp_all

lemma attribute_suffix_erase [simp]: "attribute_suffix (map_option erase_ident a) = attribute_suffix a"
  by (cases a) (simp_all add: attribute_suffix_def)

lemma leading_blanks_erase [simp]: "leading_blanks (map erase_element es) = leading_blanks es"
proof (cases es)
  case (Cons el es')
  then show ?thesis by (cases el) (simp_all add: leading_blanks_def)
qed (simp add: leading_blanks_def)

lemma separate_line_erase [simp]: "separate_line_loop b (map erase_element es) = separate_line_loop b es"
  by (induction b es rule: separate_line_loop.induct) simp_all

lemma serialize_erase:
  "serialize_expression L d (erase_expr e) = serialize_expression L d e"
  "serialize_call_arguments L d (erase_args args) = serialize_call_arguments L d args"
  "serialize_positional L d written (map erase_expr ps) = serialize_positional L d written ps"
  "serialize_named L d written (map erase_named ns) = serialize_named L d written ns"
  "serialize_variants L d (map erase_variant vs) = serialize_variants L d vs"
  "serialize_pattern L d (erase_pattern p) = serialize_pattern L d p"
  "serialize_elements L d ws b (map erase_element es) = serialize_elements L d ws b es"
  by (induction L d e and L d args and L d written ps and L d written ns and L d vs and L d p and L d ws b es
    rule: serialize_expression_serialize_call_arguments_serialize_positional_serialize_named_serialize_variants_serialize_pattern_serialize_elements.induct)
    (auto simp: pattern_needs_separate_line_def split: prod.splits)

lemma is_literal_erase_expr [simp]: "is_literal (erase_expr e) = is_literal e"
  by (cases e rule: erase_expr.cases) simp_all

lemma variant_default_erase [simp]: "variant_default (erase_variant v) = variant_default v"
  by (cases v) simp

lemma validate_small_erase [simp]:
  "validate_identifier (erase_ident i) = validate_identifier i"
  "validate_optional_identifier (map_option erase_ident a) = validate_optional_identifier a"
  "validate_key (erase_key k) = validate_key k"
  "validate_named seen (map erase_named ns) = validate_named seen ns"
  "require_single_default_variant (map erase_variant vs) = require_single_default_variant vs"
proof -
  show id: "validate_identifier (erase_ident i) = validate_identifier i" for i
    by (simp add: validate_identifier_def)
  then show "validate_optional_identifier (map_option erase_ident a) = validate_optional_identifier a"
    by (cases a) (simp_all add: validate_optional_identifier_def)
  show "validate_key (erase_key k) = validate_key k" by (cases k) (simp_all add: id)
  show "validate_named seen (map erase_named ns) = validate_named seen ns"
    by (induction seen ns rule: validate_named.induct) (simp_all add: id named_argument_value_is_literal_def)
  show "require_single_default_variant (map erase_variant vs) = require_single_default_variant vs"
    by (simp add: require_single_default_variant_def count_default_variants_def filter_map comp_def)
qed

lemma validate_erase:
  "validate_expression L d (erase_expr e) = validate_expression L d e"
  "validate_call_arguments L d (erase_args args) = validate_call_arguments L d args"
  "validate_positional L d (map erase_expr ps) = validate_positional L d ps"
  "validate_variants L d (map erase_variant vs) = validate_variants L d vs"
  "validate_pattern L d (erase_pattern p) = validate_pattern L d p"
  "validate_elements L d (map erase_element es) = validate_elements L d es"
  by (induction L d e and L d args and L d ps and L d vs and L d p and L d es
    rule: validate_expression_validate_call_arguments_validate_positional_validate_variants_validate_pattern_validate_elements.induct)
    simp_all

lemma serialize_attributes_erase [simp]:
  "serialize_attributes L (map erase_attribute ats) = serialize_attributes L ats"
  by (induction L ats rule: serialize_attributes.induct, simp) (metis erase_attribute.cases erase_attribute.simps
    id_name_erase list.simps(9) serialize_attribute.simps serialize_attributes.simps(2) serialize_erase(6))

lemma validate_attributes_erase [simp]:
  "validate_attributes L (map erase_attribute ats) = validate_attributes L ats"
  by (induction L ats rule: validate_attributes.induct) (simp_all add: validate_erase)

lemma comment_erase [simp]:
  "serialize_comment (erase_comment cm) = serialize_comment cm"
  "attached_comment (map_option erase_comment c) = attached_comment c"
proof -
  show "serialize_comment (erase_comment cm) = serialize_comment cm" for cm
    by (cases cm) (simp add: serialize_comment_lines)
  then show "attached_comment (map_option erase_comment c) = attached_comment c"
    by (cases c) (simp_all add: attached_comment_def)
qed

lemma serialize_entry_erase [simp]: "serialize_entry L (erase_entry e) = serialize_entry L e"
  by (cases e) (auto simp: serialize_erase split: option.splits)

lemma validate_entry_erase [simp]: "validate_entry L (erase_entry e) = validate_entry L e"
  by (cases e) (auto simp: validate_erase split: option.splits)

lemma separator_erase [simp]: "separator (erase_entry p) (erase_entry e) = separator p e"
  by (cases p; cases e) (simp_all add: separator_def needs_extra_blank_def)

lemma serialize_entries_erase:
  "serialize_entries L (map_option erase_entry prev) (map erase_entry es) = serialize_entries L prev es"
proof (induction es arbitrary: prev)
  case (Cons e es)
  from Cons [of "Some e"] show ?case by (cases prev) simp_all
qed simp

lemma validate_entries_erase: "validate_entries L (map erase_entry es) = validate_entries L es"
  by (induction es) simp_all

lemma serialize_resource_erase:
  "serialize recursion_limit (erase_resource r) validate max_depth = serialize recursion_limit r validate max_depth"
proof -
  have es: "entries (erase_resource r) = map erase_entry (entries r)" by (simp add: erase_resource_def)
  have ss: "serialize_entries L None (map erase_entry (entries r)) = serialize_entries L None (entries r)" for L
    using serialize_entries_erase [of L None] by simp
  show ?thesis
    unfolding serialize_def validate_resource_def es validate_entries_erase ss by (rule refl)
qed

section \<open>The round trip\<close>

text \<open>C23: a resource of printable entries (no junk, every message with a value, texts without the
  characters that start something else) within the parser's size and nesting limits: parsing
  what \<open>serialize\<close> writes returns the same tree but for positions, and that tree serializes to
  the same text.\<close>

theorem parse_serialized:
  assumes "printable_resource r" "serialize recursion_limit r validate max_depth = Inr s"
    and "max_source_size P \<le> 0 \<or> int (length s) \<le> max_source_size P"
    and "\<forall>e \<in> set (entries r). nesting_entry e \<le> nat (parser_nesting_depth P)"
  shows "\<exists>r'. parse P s = Returns r' \<and> erase_resource r' = erase_resource r \<and>
    serialize recursion_limit r' validate max_depth = Inr s"
proof -
  obtain r' where r': "parse P s = Returns r'" "erase_resource r' = erase_resource r"
    using parse_printed [OF assms] by blast
  with assms(2) serialize_resource_erase have "serialize recursion_limit r' validate max_depth = Inr s" by metis
  with r' show ?thesis by blast
qed

definition sample_select :: expression where
  "sample_select = SelectExpression (VariableReference (Identifier (u ''n'') None) None)
     [Variant (KeyNumber (IntValue 1) (u ''1'') None) (Pattern [TextElement (u ''one'') None] None) False None,
      Variant (KeyIdentifier (Identifier (u ''other'') None))
        (Pattern [PlaceableElement (Placeable (FunctionReference (Identifier (u ''NUMBER'') None)
            (CallArguments [VariableReference (Identifier (u ''n'') None) None]
              [NamedArgument (Identifier (u ''d'') None) (StringLiteral (u ''a'' @ [CH_QUOTE]) None) None] None) None) None),
          TextElement (u '' many'') None] None) True None] None"

definition sample_resource :: resource where
  "sample_resource = Resource
     [CommentEntry (Comment (u ''about'') GROUP None),
      Message (Identifier (u ''m'') None)
        (Some (Pattern [TextElement (u ''has '') None, PlaceableElement (Placeable sample_select None)] None))
        [Attribute (Identifier (u ''a'') None) (Pattern [TextElement (u ''x'') None] None) None]
        (Some (Comment (u ''note'') COMMENT None)) None,
      Term (Identifier (u ''t'') None)
        (Pattern [TextElement (u ''one'' @ [CH_LF]) None, TextElement (u ''two'') None] None) [] None None]"

lemma sample_printable: "printable_resource sample_resource"
proof -
  have number: "number_ok (IntValue 1) (u ''1'')"
    by (simp add: number_ok_def u_def parse_number_value_def py_int_def strip_minus_def is_ascii_digit_def MAX_NUMBER_LENGTH_def
      digits_value_def)
  show ?thesis
    by (simp add: printable_resource_def sample_resource_def sample_select_def printable_comment_def printable_attached_def
      u_def grammar_identifier_def is_identifier_start_def is_identifier_char_def is_ascii_alpha_def is_ascii_digit_def
      MAX_IDENTIFIER_LENGTH_def MAX_STRING_LITERAL_LENGTH_def text_char_def line_start_ok_def line_start_syntax_chars_def
      number [unfolded u_def, simplified] is_inline_def)
qed

definition sample_text :: ustr where
  "sample_text =
     u ''## about'' @ [10, 10, 10] @ u ''# note'' @ [10] @
     u ''m = has { $n ->'' @ [10] @ u ''   [1] one'' @ [10] @
     u ''   *[other] { NUMBER($n, d: '' @ [34, 97, 92, 34, 34] @ u '') } many'' @ [10] @
     u '' }'' @ [10] @ u ''    .a = x'' @ [10] @
     u ''-t = one'' @ [10] @ u ''    two'' @ [10]"

lemma sample_serialized: "serialize 1000 sample_resource True 100 = Inr sample_text"
  by code_simp

definition sample_parser :: fluent_parser where
  "sample_parser = \<lparr>max_source_size = 1000, max_parse_errors = 10, parser_nesting_depth = 3\<rparr>"

theorem parse_serialized_witness:
  "\<exists>r'. parse sample_parser sample_text = Returns r' \<and> erase_resource r' = erase_resource sample_resource \<and>
     serialize 1000 r' True 100 = Inr sample_text"
proof (rule parse_serialized [OF sample_printable sample_serialized])
  show "max_source_size sample_parser \<le> 0 \<or> int (length sample_text) \<le> max_source_size sample_parser"
    by (simp add: sample_parser_def sample_text_def u_def)
  show "\<forall>e \<in> set (entries sample_resource). nesting_entry e \<le> nat (parser_nesting_depth sample_parser)"
    by (simp add: sample_resource_def sample_select_def sample_parser_def)
qed


text \<open>C30: a string of any characters within the length limit, written as a literal, is read back,
  and the cursor is after it: the escapes of the serializer are those of the parser.\<close>

theorem string_literal_read_back:
  assumes "length v \<le> MAX_STRING_LITERAL_LENGTH"
  shows "parse_string_literal \<lparr>source = pre @ quote_string v @ rest, pos = length pre\<rparr> =
    Inr (v, \<lparr>source = pre @ quote_string v @ rest, pos = length pre + length (quote_string v)\<rparr>)"
  using parse_string_literal_at_text [OF assms, of pre rest] by (simp add: at_text_def)

theorem string_literal_read_back_witness:
  "parse_string_literal \<lparr>source = [CH_QUOTE, 97, CH_BACKSLASH, CH_QUOTE, CH_BACKSLASH, 117, 48, 48, 48, 65, CH_QUOTE], pos = 0\<rparr> =
    Inr ([97, CH_QUOTE, CH_LF], \<lparr>source = [CH_QUOTE, 97, CH_BACKSLASH, CH_QUOTE, CH_BACKSLASH, 117, 48, 48, 48, 65, CH_QUOTE], pos = 11\<rparr>)"
  using string_literal_read_back [of "[97, CH_QUOTE, CH_LF]" "[]" "[]"]
  by (simp add: quote_string_def escape_char_def unicode_escape_def upper_hex_digit_def MAX_STRING_LITERAL_LENGTH_def)

end
