(* ===== verification/Lexical_Properties.thy ===== *)
theory Lexical_Properties
  imports Primitives Whitespace
begin

text \<open>
  Properties of the lexical layer: positions and line numbers, the identifier, number and
  string tokens, and blank skipping.
\<close>

section \<open>Positions\<close>

text \<open>The line-offset cache answers with binary search what the cursor computes by counting,
  for every position, those before the start and after the end clamped to the source.\<close>

theorem line_cache_correct:
  "get_line_col (mk_line_offset_cache s) p =
     compute_line_col \<lparr>source = s, pos = nat (min (max p 0) (int (length s)))\<rparr>"
proof -
  let ?q = "nat (min (max p 0) (int (length s)))"
  have "source_len (mk_line_offset_cache s) = length s" by (simp add: mk_line_offset_cache_def)
  then have "get_line_col (mk_line_offset_cache s) p = get_line_col (mk_line_offset_cache s) (int ?q)"
    unfolding get_line_col_def by auto
  also have "\<dots> = compute_line_col \<lparr>source = s, pos = ?q\<rparr>"
    by (rule get_line_col_mk_cache) auto
  finally show ?thesis .
qed

section \<open>Identifiers\<close>

text \<open>\<open>parse_identifier\<close> returns exactly the longest run of identifier characters at the
  cursor, when it is an identifier of the grammar, and the cursor right after it.\<close>

theorem parse_identifier_iff:
  "parse_identifier c = Inr (name, c') \<longleftrightarrow>
     source c' = source c \<and> pos c' \<le> length (source c) \<and>
     name = str_slice (source c) (pos c) (pos c') \<and> grammar_identifier name \<and>
     pred_option (\<lambda>ch. \<not> is_identifier_char ch) (cur c')"
proof (rule iffI)
  assume "parse_identifier c = Inr (name, c')"
  note p = parse_identifier_Inr [OF this]
  with p(1) show "source c' = source c \<and> pos c' \<le> length (source c) \<and>
     name = str_slice (source c) (pos c) (pos c') \<and> grammar_identifier name \<and>
     pred_option (\<lambda>ch. \<not> is_identifier_char ch) (cur c')"
    by (cases "cur c'") (auto simp: advances_def wf_cursor_def)
next
  assume a: "source c' = source c \<and> pos c' \<le> length (source c) \<and>
     name = str_slice (source c) (pos c) (pos c') \<and> grammar_identifier name \<and>
     pred_option (\<lambda>ch. \<not> is_identifier_char ch) (cur c')"
  then have g: "grammar_identifier name" and n: "name = str_slice (source c) (pos c) (pos c')" by auto
  then have len: "pos c < pos c'" "length name = pos c' - pos c" "pos c' \<le> length (source c)"
    using a by (auto simp: grammar_identifier_def simp flip: length_greater_0_conv)
  have chars: "is_identifier_char (source c ! k)" if "pos c \<le> k" "k < pos c'" for k
  proof -
    have "source c ! k = name ! (k - pos c)" "k - pos c < length name"
      using that len n nth_str_slice [of "pos c" "k - pos c" "pos c'" "source c"] by auto
    with grammar_identifier_chars [OF g] show ?thesis by (simp add: list_all_length)
  qed
  have first: "cur c = Some (source c ! pos c)" using len by (simp add: cur_Some_iff)
  have start: "is_identifier_start (source c ! pos c)"
    using g n len str_slice_Cons [of "pos c" "pos c'" "source c"] by (simp add: grammar_identifier_def)
  have adv: "pos (adv c) = Suc (pos c)" using first by (rule pos_adv)
  have scan: "scan_while is_identifier_char (source c) (pos (adv c)) = pos c'"
    using len adv a by (intro scan_while_eqI chars) (auto simp: cur_def is_eof_def)
  have "c' = (adv c)\<lparr>pos := pos c'\<rparr>" using a by simp
  moreover have "pos c' - pos c \<le> MAX_IDENTIFIER_LENGTH" using g len by (simp add: grammar_identifier_def)
  ultimately have "identifier_loop (pos c) (adv c) = Inr c'"
    unfolding identifier_loop_def bounded_scan_iff by (simp add: scan)
  with first start n a show "parse_identifier c = Inr (name, c')"
    by (simp add: parse_identifier_def Let_def)
qed

text \<open>The name validator accepts the identifiers of the grammar and, beyond them, exactly
  those followed by one line feed, which \<open>$\<close> of its regular expression lets through.\<close>

theorem is_valid_identifier_iff:
  "is_valid_identifier name \<longleftrightarrow>
     grammar_identifier name \<or>
     (\<exists>base. grammar_identifier base \<and> length base < MAX_IDENTIFIER_LENGTH \<and> name = base @ [CH_LF])"
  by (rule is_valid_identifier_cases)

section \<open>Numbers and escapes\<close>

text \<open>A parsed number is a literal of the grammar no longer than the limit, the text of the
  source up to the new cursor, and its conversion never raises: the value it yields is the
  one the literal denotes.\<close>

theorem parse_number_value_total:
  assumes "parse_number c = Inr (raw, c')"
  shows "number_shape raw \<and> raw = str_slice (source c) (pos c) (pos c') \<and> length raw \<le> MAX_NUMBER_LENGTH
    \<and> (\<exists>v. parse_number_value raw = Inr v \<and> number_literal_ok v raw)"
  using parse_number_Inr [OF assms] number_shape_value by blast

theorem parse_number_value_total_witness:
  "parse_number \<lparr>source = u ''-12.5 x'', pos = 0\<rparr> = Inr (u ''-12.5'', \<lparr>source = u ''-12.5 x'', pos = 5\<rparr>) \<and>
   length (u ''-12.5'') \<le> MAX_NUMBER_LENGTH \<and>
   parse_number_value (u ''-12.5'') = Inr (DecimalValue (Decimal True 125 1))"
proof -
  have p: "parse_number \<lparr>source = u ''-12.5 x'', pos = 0\<rparr> =
      Inr (u ''-12.5'', \<lparr>source = u ''-12.5 x'', pos = 5\<rparr>)"
    by code_simp
  have v: "parse_number_value (u ''-12.5'') = Inr (DecimalValue (Decimal True 125 1))"
    by code_simp
  from parse_number_value_total [OF p] have l: "length (u ''-12.5'') \<le> MAX_NUMBER_LENGTH"
    by (elim conjE)
  from p l v show ?thesis by (intro conjI)
qed

text \<open>An escape sequence that is accepted denotes a Unicode scalar value, never a surrogate
  or a number beyond \<open>U+10FFFF\<close>, and consumes input.\<close>

theorem escape_yields_scalar:
  assumes "parse_escape_sequence c = Inr (ch, c')"
  shows "is_scalar_value ch \<and> advances c c'"
  using parse_escape_sequence_scalar [OF assms] parse_escape_sequence_advances [OF assms] by blast

theorem escape_yields_scalar_witness:
  "parse_escape_sequence \<lparr>source = [117, 48, 48, 101, 57], pos = 0\<rparr> = Inr (233, \<lparr>source = [117, 48, 48, 101, 57], pos = 5\<rparr>) \<and>
   is_scalar_value 233"
proof -
  have p: "parse_escape_sequence \<lparr>source = [117, 48, 48, 101, 57], pos = 0\<rparr> =
      Inr (233, \<lparr>source = [117, 48, 48, 101, 57], pos = 5\<rparr>)"
    by (simp add: parse_escape_sequence_def Let_def cur_def is_eof_def adv_def adv_by_def slice_ahead_def
        str_slice_def is_hex_digit_def is_ascii_digit_def hex_value_def hex_digit_value_def)
  from escape_yields_scalar [OF p] have "is_scalar_value 233" by (elim conjE)
  with p show ?thesis by (intro conjI)
qed

section \<open>Blanks\<close>

text \<open>\<open>skip_blank\<close> moves to the first character that is neither a space nor a line feed,
  or to the end.\<close>

theorem skip_blank_first_nonblank:
  "source (skip_blank c) = source c \<and> pos c \<le> pos (skip_blank c) \<and>
   list_all (\<lambda>ch. ch = CH_SPACE \<or> ch = CH_LF) (str_slice (source c) (pos c) (pos (skip_blank c))) \<and>
   pred_option (\<lambda>ch. ch \<notin> {CH_SPACE, CH_LF}) (cur (skip_blank c))"
proof -
  have "list_all (\<lambda>ch. ch = CH_SPACE \<or> ch = CH_LF) (str_slice (source c) (pos c) (pos (skip_blank c)))"
    unfolding skip_blank_def pos_skip_whitespace by (rule str_slice_scan_while)
  then show ?thesis by (cases "cur (skip_blank c)") (auto dest: cur_skip_blank)
qed

end
