(* ===== verification/Rwlock.thy ===== *)
theory Rwlock
  imports Prelude
begin

text \<open>
  \<open>runtime/rwlock.py\<close>: the readers-writer lock as a state machine.  Between two waits a
  thread holds the mutex of the condition variable, so each method is a sequence of
  atomic sections: the entry, each re-check after a wait, and the release.  The state is
  the lock's fields, the monotonic clock, and for each thread whether it waits on the
  condition variable.  Time is counted in ticks of the clock; a timeout is a number of
  ticks.  A thread may wake at any moment (a notification, the end of a timed wait, or
  spuriously): the loop re-checks in each case.
\<close>

section \<open>State\<close>

type_synonym tid = nat

record rwlock =
  active_readers :: int
  active_writer :: "tid option"
  waiting_writers :: int
  reader_threads :: "tid \<rightharpoonup> int"

text \<open>The deadline of a waiting thread is \<open>None\<close> when it waits indefinitely.\<close>

datatype thread_state =
    Running
  | WaitRead "int option"
  | WokenRead "int option"
  | WaitWrite "int option"
  | WokenWrite "int option"

record lock_system =
  rw :: rwlock
  clock :: int
  threads :: "tid \<Rightarrow> thread_state"

text \<open>What an atomic section ends with.\<close>

datatype section_result = Acquired | Released | Blocked | Raised py_error

definition mk_rwlock :: rwlock where
  "mk_rwlock =
     \<lparr>active_readers = 0, active_writer = None, waiting_writers = 0, reader_threads = Map.empty\<rparr>"

definition initial_system :: "int \<Rightarrow> lock_system" where
  "initial_system now = \<lparr>rw = mk_rwlock, clock = now, threads = (\<lambda>_. Running)\<rparr>"

definition set_thread :: "tid \<Rightarrow> thread_state \<Rightarrow> lock_system \<Rightarrow> lock_system" where
  "set_thread t x s = s\<lparr>threads := (threads s)(t := x)\<rparr>"

text \<open>\<open>condition.notify_all()\<close>\<close>

definition notify_all :: "lock_system \<Rightarrow> lock_system" where
  "notify_all s =
     s\<lparr>threads := (\<lambda>t. case threads s t of
          WaitRead d \<Rightarrow> WokenRead d
        | WaitWrite d \<Rightarrow> WokenWrite d
        | x \<Rightarrow> x)\<rparr>"

definition deadline_of :: "int option \<Rightarrow> lock_system \<Rightarrow> int option" where
  "deadline_of timeout s = (case timeout of None \<Rightarrow> None | Some d \<Rightarrow> Some (clock s + d))"

definition expired :: "int option \<Rightarrow> lock_system \<Rightarrow> bool" where
  "expired deadline s = (case deadline of None \<Rightarrow> False | Some d \<Rightarrow> d - clock s \<le> 0)"

section \<open>Reading\<close>

text \<open>The loop of \<open>_acquire_read\<close>, from its test to the next wait or the end.\<close>

definition read_loop :: "tid \<Rightarrow> int option \<Rightarrow> lock_system \<Rightarrow> section_result \<times> lock_system" where
  "read_loop t deadline s =
     (let l = rw s
      in if active_writer l \<noteq> None \<or> waiting_writers l > 0 then
           (if expired deadline s then (Raised TimeoutError, set_thread t Running s)
            else (Blocked, set_thread t (WaitRead deadline) s))
         else (Acquired, set_thread t Running
                 (s\<lparr>rw := l\<lparr>active_readers := active_readers l + 1,
                           reader_threads := (reader_threads l)(t \<mapsto> 1)\<rparr>\<rparr>)))"

definition acquire_read :: "tid \<Rightarrow> int option \<Rightarrow> lock_system \<Rightarrow> section_result \<times> lock_system" where
  "acquire_read t timeout s =
     (if (case timeout of None \<Rightarrow> False | Some d \<Rightarrow> d < 0) then (Raised ValueError, s)
      else let l = rw s
           in case reader_threads l t of
                Some n \<Rightarrow> (Acquired, s\<lparr>rw := l\<lparr>reader_threads := (reader_threads l)(t \<mapsto> n + 1)\<rparr>\<rparr>)
              | None \<Rightarrow>
                  if active_writer l = Some t then (Raised RuntimeError, s)
                  else read_loop t (deadline_of timeout s) s)"

definition release_read :: "tid \<Rightarrow> lock_system \<Rightarrow> section_result \<times> lock_system" where
  "release_read t s =
     (let l = rw s
      in case reader_threads l t of
           None \<Rightarrow> (Raised RuntimeError, s)
         | Some n \<Rightarrow>
             if n - 1 = 0 then
               (let l = l\<lparr>reader_threads := (reader_threads l)(t := None),
                         active_readers := active_readers l - 1\<rparr>;
                    s = s\<lparr>rw := l\<rparr>
                in (Released, if active_readers l = 0 then notify_all s else s))
             else (Released, s\<lparr>rw := l\<lparr>reader_threads := (reader_threads l)(t \<mapsto> n - 1)\<rparr>\<rparr>))"

section \<open>Writing\<close>

text \<open>The \<open>finally\<close> block, which runs on success and on a timeout.\<close>

definition end_wait_write :: "tid \<Rightarrow> lock_system \<Rightarrow> lock_system" where
  "end_wait_write t s =
     notify_all (set_thread t Running (s\<lparr>rw := (rw s)\<lparr>waiting_writers := waiting_writers (rw s) - 1\<rparr>\<rparr>))"

definition write_loop :: "tid \<Rightarrow> int option \<Rightarrow> lock_system \<Rightarrow> section_result \<times> lock_system" where
  "write_loop t deadline s =
     (let l = rw s
      in if active_readers l > 0 \<or> active_writer l \<noteq> None then
           (if expired deadline s then (Raised TimeoutError, end_wait_write t s)
            else (Blocked, set_thread t (WaitWrite deadline) s))
         else (Acquired, end_wait_write t (s\<lparr>rw := l\<lparr>active_writer := Some t\<rparr>\<rparr>)))"

definition acquire_write :: "tid \<Rightarrow> int option \<Rightarrow> lock_system \<Rightarrow> section_result \<times> lock_system" where
  "acquire_write t timeout s =
     (if (case timeout of None \<Rightarrow> False | Some d \<Rightarrow> d < 0) then (Raised ValueError, s)
      else let l = rw s
           in if reader_threads l t \<noteq> None then (Raised RuntimeError, s)
              else if active_writer l = Some t then (Raised RuntimeError, s)
              else write_loop t (deadline_of timeout s)
                     (s\<lparr>rw := l\<lparr>waiting_writers := waiting_writers l + 1\<rparr>\<rparr>))"

definition release_write :: "tid \<Rightarrow> lock_system \<Rightarrow> section_result \<times> lock_system" where
  "release_write t s =
     (let l = rw s
      in if active_writer l \<noteq> Some t then (Raised RuntimeError, s)
         else (Released, notify_all (s\<lparr>rw := l\<lparr>active_writer := None\<rparr>\<rparr>)))"

definition reader_count :: "lock_system \<Rightarrow> int" where
  "reader_count s = active_readers (rw s)"

definition writer_active :: "lock_system \<Rightarrow> bool" where
  "writer_active s \<longleftrightarrow> active_writer (rw s) \<noteq> None"

definition writers_waiting :: "lock_system \<Rightarrow> int" where
  "writers_waiting s = waiting_writers (rw s)"

section \<open>The system of all threads\<close>

inductive lock_step :: "lock_system \<Rightarrow> lock_system \<Rightarrow> bool" where
  tick: "0 \<le> d \<Longrightarrow> lock_step s (s\<lparr>clock := clock s + d\<rparr>)"
| enter_read: "threads s t = Running \<Longrightarrow> lock_step s (snd (acquire_read t timeout s))"
| enter_write: "threads s t = Running \<Longrightarrow> lock_step s (snd (acquire_write t timeout s))"
| leave_read: "threads s t = Running \<Longrightarrow> lock_step s (snd (release_read t s))"
| leave_write: "threads s t = Running \<Longrightarrow> lock_step s (snd (release_write t s))"
| wake_read: "threads s t = WaitRead d \<Longrightarrow> lock_step s (set_thread t (WokenRead d) s)"
| wake_write: "threads s t = WaitWrite d \<Longrightarrow> lock_step s (set_thread t (WokenWrite d) s)"
| recheck_read: "threads s t = WokenRead d \<Longrightarrow> lock_step s (snd (read_loop t d s))"
| recheck_write: "threads s t = WokenWrite d \<Longrightarrow> lock_step s (snd (write_loop t d s))"

definition reachable :: "lock_system \<Rightarrow> bool" where
  "reachable s \<longleftrightarrow> (\<exists>now. lock_step\<^sup>*\<^sup>* (initial_system now) s)"

fun wants_write :: "thread_state \<Rightarrow> bool" where
  "wants_write (WaitWrite d) = True"
| "wants_write (WokenWrite d) = True"
| "wants_write Running = False"
| "wants_write (WaitRead d) = False"
| "wants_write (WokenRead d) = False"

section \<open>The invariant\<close>

definition writer_threads :: "lock_system \<Rightarrow> tid set" where
  "writer_threads s = {t. wants_write (threads s t)}"

text \<open>The bookkeeping of the fields, and exclusion.\<close>

definition fields_ok :: "lock_system \<Rightarrow> bool" where
  "fields_ok s \<longleftrightarrow>
     finite (dom (reader_threads (rw s))) \<and>
     active_readers (rw s) = int (card (dom (reader_threads (rw s)))) \<and>
     (\<forall>t n. reader_threads (rw s) t = Some n \<longrightarrow> 1 \<le> n) \<and>
     (active_writer (rw s) = None \<or> reader_threads (rw s) = Map.empty)"

text \<open>The threads: who waits holds nothing, and the count of waiting writers is exact.\<close>

definition threads_ok :: "lock_system \<Rightarrow> bool" where
  "threads_ok s \<longleftrightarrow>
     finite (writer_threads s) \<and>
     waiting_writers (rw s) = int (card (writer_threads s)) \<and>
     (\<forall>t. threads s t \<noteq> Running \<longrightarrow>
        reader_threads (rw s) t = None \<and> active_writer (rw s) \<noteq> Some t)"

text \<open>No wakeup is lost: a thread that sleeps has a reason to.\<close>

definition sleepers_ok :: "lock_system \<Rightarrow> bool" where
  "sleepers_ok s \<longleftrightarrow>
     (\<forall>t d. threads s t = WaitRead d \<longrightarrow> active_writer (rw s) \<noteq> None \<or> waiting_writers (rw s) > 0) \<and>
     (\<forall>t d. threads s t = WaitWrite d \<longrightarrow> active_readers (rw s) > 0 \<or> active_writer (rw s) \<noteq> None)"

definition lock_inv :: "lock_system \<Rightarrow> bool" where
  "lock_inv s \<longleftrightarrow> fields_ok s \<and> threads_ok s \<and> sleepers_ok s"

end
