(* ===== verification/Rwlock_Proofs.thy ===== *)
theory Rwlock_Proofs
  imports Rwlock
begin

text \<open>
  Every atomic section of the lock keeps the invariant, so every interleaving does; what
  follows from it: mutual exclusion, exact counters, no lost wakeup, no deadlock.
\<close>

section \<open>The state updates\<close>

lemma int_card_remove: "finite A \<Longrightarrow> x \<in> A \<Longrightarrow> int (card (A - {x})) = int (card A) - 1"
  using card_gt_0_iff [of A] by (auto simp: card_Diff_singleton of_nat_diff)

lemma set_thread_fields [simp]:
  "rw (set_thread t x s) = rw s" "clock (set_thread t x s) = clock s"
  "threads (set_thread t x s) = (threads s)(t := x)"
  by (simp_all add: set_thread_def)

lemma set_thread_twice [simp]: "set_thread t x (set_thread t y s) = set_thread t x s"
  by (simp add: set_thread_def)

lemma notify_all_fields [simp]:
  "rw (notify_all s) = rw s" "clock (notify_all s) = clock s"
  by (simp_all add: notify_all_def)

lemma notify_all_threads [simp]:
  "threads (notify_all s) t = Running \<longleftrightarrow> threads s t = Running"
  "wants_write (threads (notify_all s) t) = wants_write (threads s t)"
  "threads (notify_all s) t \<noteq> WaitRead d" "threads (notify_all s) t \<noteq> WaitWrite d"
  by (cases "threads s t"; simp add: notify_all_def)+

lemma writer_threads_notify_all [simp]: "writer_threads (notify_all s) = writer_threads s"
  by (simp add: writer_threads_def)

lemma writer_threads_set_thread:
  "writer_threads (set_thread t x s) =
     (if wants_write x then insert t (writer_threads s) else writer_threads s - {t})"
  by (auto simp: writer_threads_def)

lemma writer_threads_rw [simp]: "writer_threads (s\<lparr>rw := l\<rparr>) = writer_threads s"
  by (simp add: writer_threads_def)

lemma fields_ok_rw: "rw s = rw s' \<Longrightarrow> fields_ok s = fields_ok s'"
  by (simp add: fields_ok_def)

lemma notify_all_inv: "fields_ok s \<Longrightarrow> threads_ok s \<Longrightarrow> lock_inv (notify_all s)"
  by (simp add: lock_inv_def fields_ok_def threads_ok_def sleepers_ok_def)

lemma update_rw [simp]: "rw (s\<lparr>rw := l\<rparr>) = l" "threads (s\<lparr>rw := l\<rparr>) = threads s"
  by simp_all

section \<open>Each section keeps the invariant\<close>

lemma read_loop_inv:
  assumes "lock_inv s" "\<not> wants_write (threads s t)" "reader_threads (rw s) t = None"
    "active_writer (rw s) \<noteq> Some t"
  shows "lock_inv (snd (read_loop t deadline s))"
proof -
  have w: "writer_threads (set_thread t x s') = writer_threads s'"
    if "\<not> wants_write x" "threads s' = threads s" for x s'
    using that assms(2) by (auto simp: writer_threads_set_thread writer_threads_def)
  have fields: "fields_ok s" and thr: "threads_ok s" and sl: "sleepers_ok s"
    using assms(1) by (auto simp: lock_inv_def)
  have run: "lock_inv (set_thread t Running s)"
    using fields thr sl w [of Running s]
    by (auto simp: lock_inv_def fields_ok_def threads_ok_def sleepers_ok_def)
  show ?thesis
  proof (cases "active_writer (rw s) \<noteq> None \<or> waiting_writers (rw s) > 0")
    case True
    have "lock_inv (set_thread t (WaitRead deadline) s)"
      using fields thr sl True w [of "WaitRead deadline" s] assms(3,4)
      by (auto simp: lock_inv_def fields_ok_def threads_ok_def sleepers_ok_def)
    with True run show ?thesis by (simp add: read_loop_def Let_def)
  next
    case False
    let ?l = "rw s"
    let ?s' = "s\<lparr>rw := ?l\<lparr>active_readers := active_readers ?l + 1,
                      reader_threads := (reader_threads ?l)(t \<mapsto> 1)\<rparr>\<rparr>"
    have "t \<notin> dom (reader_threads ?l)" using assms(3) by (simp add: domIff)
    then have "fields_ok (set_thread t Running ?s')"
      using fields False by (auto simp: fields_ok_def)
    moreover have "threads_ok (set_thread t Running ?s')"
      using thr w [of Running ?s'] by (auto simp: threads_ok_def)
    moreover have "sleepers_ok (set_thread t Running ?s')"
      using sl False fields by (auto simp: sleepers_ok_def fields_ok_def)
    ultimately show ?thesis using False by (simp add: read_loop_def Let_def lock_inv_def)
  qed
qed

lemma acquire_read_inv:
  assumes "lock_inv s" "threads s t = Running"
  shows "lock_inv (snd (acquire_read t timeout s))"
proof (cases "reader_threads (rw s) t")
  case None
  with assms show ?thesis
    by (auto simp: acquire_read_def Let_def intro: read_loop_inv)
next
  case (Some n)
  let ?s' = "s\<lparr>rw := (rw s)\<lparr>reader_threads := (reader_threads (rw s))(t \<mapsto> n + 1)\<rparr>\<rparr>"
  have "dom ((reader_threads (rw s))(t \<mapsto> n + 1)) = dom (reader_threads (rw s))"
    using Some by auto
  moreover have "1 \<le> n + 1" using assms(1) Some by (fastforce simp: lock_inv_def fields_ok_def)
  ultimately have "fields_ok ?s'"
    using assms(1) Some by (auto simp: lock_inv_def fields_ok_def simp del: dom_fun_upd)
  moreover have "threads_ok ?s'"
    using assms Some by (auto simp: lock_inv_def threads_ok_def)
  moreover have "sleepers_ok ?s'"
    using assms(1) by (auto simp: lock_inv_def sleepers_ok_def)
  ultimately show ?thesis
    using assms(1) Some by (simp add: acquire_read_def Let_def lock_inv_def)
qed

lemma release_read_inv:
  assumes "lock_inv s"
  shows "lock_inv (snd (release_read t s))"
proof (cases "reader_threads (rw s) t")
  case None
  with assms show ?thesis by (simp add: release_read_def Let_def)
next
  case (Some n)
  let ?l = "rw s"
  have dom: "t \<in> dom (reader_threads ?l)" using Some by auto
  show ?thesis
  proof (cases "n = 1")
    case True
    define s1 where "s1 = s\<lparr>rw := ?l\<lparr>reader_threads := (reader_threads ?l)(t := None),
        active_readers := active_readers ?l - 1\<rparr>\<rparr>"
    have pos: "card (dom (reader_threads ?l)) \<noteq> 0"
      using dom assms by (auto simp: lock_inv_def fields_ok_def)
    have f: "fields_ok s1"
      using assms dom pos by (auto simp: lock_inv_def fields_ok_def s1_def int_card_remove simp del: card_Diff_insert)
    have t: "threads_ok s1"
      using assms by (auto simp: lock_inv_def threads_ok_def s1_def)
    have eq: "snd (release_read t s) = (if active_readers (rw s1) = 0 then notify_all s1 else s1)"
      using Some True by (simp add: release_read_def Let_def s1_def)
    show ?thesis
    proof (cases "active_readers (rw s1) = 0")
      case True
      with notify_all_inv [OF f t] show ?thesis by (simp add: eq)
    next
      case False
      moreover have "active_readers (rw s1) \<ge> 0" using f by (simp add: fields_ok_def)
      ultimately have "active_readers (rw s1) > 0" by simp
      then have "sleepers_ok s1"
        using assms by (auto simp: lock_inv_def sleepers_ok_def s1_def)
      with False f t show ?thesis by (simp only: eq if_False lock_inv_def)
    qed
  next
    case False
    let ?s' = "s\<lparr>rw := ?l\<lparr>reader_threads := (reader_threads ?l)(t \<mapsto> n - 1)\<rparr>\<rparr>"
    have "1 \<le> n" using assms Some by (fastforce simp: lock_inv_def fields_ok_def)
    with False have "1 \<le> n - 1" by simp
    moreover have "dom ((reader_threads ?l)(t \<mapsto> n - 1)) = dom (reader_threads ?l)"
      using Some by auto
    ultimately have "fields_ok ?s'"
      using assms Some by (auto simp: lock_inv_def fields_ok_def simp del: dom_fun_upd)
    moreover have "threads_ok ?s'" using assms Some by (auto simp: lock_inv_def threads_ok_def)
    moreover have "sleepers_ok ?s'" using assms by (auto simp: lock_inv_def sleepers_ok_def)
    ultimately show ?thesis using Some False by (simp add: release_read_def Let_def lock_inv_def)
  qed
qed

text \<open>The write loop runs with its thread already counted among the writers.\<close>

lemma write_loop_set_thread [simp]: "write_loop t deadline (set_thread t x s) = write_loop t deadline s"
  by (simp add: write_loop_def end_wait_write_def set_thread_def expired_def Let_def split: option.split)

lemma end_wait_write_inv:
  assumes "fields_ok s" "threads_ok s" "wants_write (threads s t)"
  shows "lock_inv (end_wait_write t s)"
proof -
  let ?s1 = "set_thread t Running (s\<lparr>rw := (rw s)\<lparr>waiting_writers := waiting_writers (rw s) - 1\<rparr>\<rparr>)"
  have t: "t \<in> writer_threads s" using assms(3) by (simp add: writer_threads_def)
  then have c: "card (writer_threads s) \<noteq> 0" using assms(2) by (auto simp: threads_ok_def)
  have "fields_ok ?s1" using assms(1) by (simp add: fields_ok_def)
  moreover have "threads_ok ?s1"
    using assms(2) t c
    by (auto simp: threads_ok_def writer_threads_set_thread int_card_remove simp del: card_Diff_insert)
  ultimately show ?thesis unfolding end_wait_write_def by (rule notify_all_inv)
qed

text \<open>The state may name the new owner before its thread is marked as running.\<close>

lemma end_wait_write_owner_inv:
  assumes "lock_inv s" "wants_write (threads s t)" "\<not> (active_readers (rw s) > 0 \<or> active_writer (rw s) \<noteq> None)"
  shows "lock_inv (end_wait_write t (s\<lparr>rw := (rw s)\<lparr>active_writer := Some t\<rparr>\<rparr>))"
proof -
  let ?s0 = "s\<lparr>rw := (rw s)\<lparr>active_writer := Some t\<rparr>\<rparr>"
  let ?s1 = "set_thread t Running (?s0\<lparr>rw := (rw ?s0)\<lparr>waiting_writers := waiting_writers (rw ?s0) - 1\<rparr>\<rparr>)"
  have t: "t \<in> writer_threads s" using assms(2) by (simp add: writer_threads_def)
  have fin: "finite (dom (reader_threads (rw s)))" "active_readers (rw s) = int (card (dom (reader_threads (rw s))))"
    "finite (writer_threads s)"
    using assms(1) by (auto simp: lock_inv_def fields_ok_def threads_ok_def)
  then have c: "card (writer_threads s) \<noteq> 0" using t by auto
  have "reader_threads (rw s) = Map.empty" using fin assms(3) by (auto simp: card_eq_0_iff)
  then have "fields_ok ?s1" using assms(1) by (auto simp: lock_inv_def fields_ok_def)
  moreover have "threads_ok ?s1"
    using assms(1) t c
    by (auto simp: lock_inv_def threads_ok_def writer_threads_set_thread int_card_remove simp del: card_Diff_insert)
  ultimately show ?thesis unfolding end_wait_write_def by (rule notify_all_inv)
qed

lemma write_loop_inv:
  assumes "lock_inv s" "wants_write (threads s t)"
  shows "lock_inv (snd (write_loop t deadline s))"
proof (cases "active_readers (rw s) > 0 \<or> active_writer (rw s) \<noteq> None")
  case True
  have f: "fields_ok s" and t: "threads_ok s" and sl: "sleepers_ok s"
    using assms(1) by (auto simp: lock_inv_def)
  have "threads s t \<noteq> Running" using assms(2) by auto
  with t have held: "reader_threads (rw s) t = None" "active_writer (rw s) \<noteq> Some t"
    by (auto simp: threads_ok_def)
  have "writer_threads (set_thread t (WaitWrite deadline) s) = writer_threads s"
    using assms(2) by (auto simp: writer_threads_set_thread writer_threads_def)
  then have "lock_inv (set_thread t (WaitWrite deadline) s)"
    using f t sl True held by (auto simp: lock_inv_def fields_ok_def threads_ok_def sleepers_ok_def)
  with True end_wait_write_inv [OF f t assms(2)] show ?thesis by (simp add: write_loop_def Let_def)
next
  case False
  with end_wait_write_owner_inv [OF assms False] show ?thesis by (simp add: write_loop_def Let_def)
qed

lemma acquire_write_inv:
  assumes "lock_inv s" "threads s t = Running"
  shows "lock_inv (snd (acquire_write t timeout s))"
proof -
  let ?l = "rw s"
  let ?s' = "s\<lparr>rw := ?l\<lparr>waiting_writers := waiting_writers ?l + 1\<rparr>\<rparr>"
  have "lock_inv (snd (write_loop t d ?s'))"
    if free: "reader_threads ?l t = None" "active_writer ?l \<noteq> Some t" for d
  proof -
    have "t \<notin> writer_threads s" using assms(2) by (simp add: writer_threads_def)
    then have "lock_inv (set_thread t (WokenWrite d) ?s')"
      using assms(1) free
      by (auto simp: lock_inv_def fields_ok_def threads_ok_def sleepers_ok_def writer_threads_set_thread)
    then have "lock_inv (snd (write_loop t d (set_thread t (WokenWrite d) ?s')))"
      by (rule write_loop_inv) simp
    then show ?thesis by (simp only: write_loop_set_thread)
  qed
  with assms(1) show ?thesis by (simp add: acquire_write_def Let_def)
qed

lemma release_write_inv:
  assumes "lock_inv s"
  shows "lock_inv (snd (release_write t s))"
proof -
  have "lock_inv (notify_all (s\<lparr>rw := (rw s)\<lparr>active_writer := None\<rparr>\<rparr>))"
    using assms by (intro notify_all_inv) (auto simp: lock_inv_def fields_ok_def threads_ok_def)
  with assms show ?thesis by (simp add: release_write_def Let_def)
qed

lemma wake_inv:
  assumes "lock_inv s"
  shows "threads s t = WaitRead d \<Longrightarrow> lock_inv (set_thread t (WokenRead d) s)"
    and "threads s t = WaitWrite d \<Longrightarrow> lock_inv (set_thread t (WokenWrite d) s)"
proof -
  assume t: "threads s t = WaitRead d"
  then have "writer_threads (set_thread t (WokenRead d) s) = writer_threads s"
    by (auto simp: writer_threads_def)
  with assms t show "lock_inv (set_thread t (WokenRead d) s)"
    by (auto simp: lock_inv_def fields_ok_def threads_ok_def sleepers_ok_def)
next
  assume t: "threads s t = WaitWrite d"
  then have "writer_threads (set_thread t (WokenWrite d) s) = writer_threads s"
    by (auto simp: writer_threads_def)
  with assms t show "lock_inv (set_thread t (WokenWrite d) s)"
    by (auto simp: lock_inv_def fields_ok_def threads_ok_def sleepers_ok_def)
qed

lemma tick_inv: "lock_inv s \<Longrightarrow> lock_inv (s\<lparr>clock := k\<rparr>)"
  by (auto simp: lock_inv_def fields_ok_def threads_ok_def sleepers_ok_def writer_threads_def)

lemma waiting_holds_nothing:
  "lock_inv s \<Longrightarrow> threads s t \<noteq> Running \<Longrightarrow> reader_threads (rw s) t = None \<and> active_writer (rw s) \<noteq> Some t"
  by (auto simp: lock_inv_def threads_ok_def)

lemma lock_step_inv:
  assumes "lock_step s s'" "lock_inv s"
  shows "lock_inv s'"
  using assms
proof (induction rule: lock_step.induct)
  case (recheck_read s t d)
  with waiting_holds_nothing [of s t] show ?case by (intro read_loop_inv) auto
next
  case (recheck_write s t d)
  then show ?case by (intro write_loop_inv) auto
qed (auto intro: tick_inv acquire_read_inv acquire_write_inv release_read_inv release_write_inv wake_inv)

lemma initial_inv: "lock_inv (initial_system now)"
  by (simp add: lock_inv_def fields_ok_def threads_ok_def sleepers_ok_def initial_system_def mk_rwlock_def
      writer_threads_def)

lemma reachable_inv: "reachable s \<Longrightarrow> lock_inv s"
  unfolding reachable_def
proof (erule exE)
  fix now assume "lock_step\<^sup>*\<^sup>* (initial_system now) s"
  then show "lock_inv s"
    by (induction rule: rtranclp_induct) (auto intro: initial_inv lock_step_inv)
qed

section \<open>What holds in every interleaving\<close>

lemmas lock_inv_defs = lock_inv_def fields_ok_def threads_ok_def sleepers_ok_def

inductive_cases lock_stepE: "lock_step s s'"

text \<open>C37: mutual exclusion, in every reachable state of every interleaving: while a writer is
  active no thread reads, and the reader counter is exactly the number of reading threads.\<close>

theorem rwlock_mutual_exclusion:
  assumes "reachable s"
  shows "(writer_active s \<longrightarrow> reader_threads (rw s) = Map.empty \<and> reader_count s = 0) \<and>
    reader_count s = int (card (dom (reader_threads (rw s)))) \<and>
    writers_waiting s = int (card (writer_threads s))"
  using reachable_inv [OF assms]
  by (auto simp: lock_inv_defs writer_active_def reader_count_def writers_waiting_def)

text \<open>A run: two readers enter, a writer waits behind them.\<close>

definition two_readers_one_writer :: lock_system where
  "two_readers_one_writer =
     snd (acquire_write 3 None (snd (acquire_read 2 None (snd (acquire_read 1 None (initial_system 0))))))"

lemma two_readers_one_writer_fields:
  "rw two_readers_one_writer =
     \<lparr>active_readers = 2, active_writer = None, waiting_writers = 1,
      reader_threads = [1 \<mapsto> 1, 2 \<mapsto> 1]\<rparr>"
  "threads two_readers_one_writer = (\<lambda>t. if t = 3 then WaitWrite None else Running)"
  by (auto simp: two_readers_one_writer_def acquire_read_def acquire_write_def read_loop_def write_loop_def
      Let_def initial_system_def mk_rwlock_def deadline_of_def expired_def set_thread_def)

lemma two_readers_one_writer_reachable: "reachable two_readers_one_writer"
proof -
  let ?s0 = "initial_system 0"
  let ?s1 = "snd (acquire_read 1 None ?s0)"
  let ?s2 = "snd (acquire_read 2 None ?s1)"
  have t: "threads ?s0 1 = Running" "threads ?s1 2 = Running" "threads ?s2 3 = Running"
    by (simp_all add: acquire_read_def read_loop_def Let_def initial_system_def mk_rwlock_def set_thread_def)
  have "lock_step\<^sup>*\<^sup>* ?s0 ?s1" by (rule r_into_rtranclp [where r = lock_step, OF lock_step.enter_read [OF t(1)]])
  then have "lock_step\<^sup>*\<^sup>* ?s0 ?s2" by (rule rtranclp.rtrancl_into_rtrancl) (rule lock_step.enter_read [OF t(2)])
  then have "lock_step\<^sup>*\<^sup>* ?s0 two_readers_one_writer"
    unfolding two_readers_one_writer_def
    by (rule rtranclp.rtrancl_into_rtrancl) (rule lock_step.enter_write [OF t(3)])
  then show ?thesis unfolding reachable_def by blast
qed

theorem rwlock_mutual_exclusion_witness:
  "reader_count two_readers_one_writer = 2 \<and> writers_waiting two_readers_one_writer = 1 \<and>
   reader_count two_readers_one_writer = int (card (dom (reader_threads (rw two_readers_one_writer))))"
  using rwlock_mutual_exclusion [OF two_readers_one_writer_reachable]
  by (simp add: reader_count_def writers_waiting_def two_readers_one_writer_fields)

text \<open>C38: no wakeup is lost: a thread that sleeps on the condition variable has its wait
  condition true, so no notification that could let it in was missed.\<close>

theorem rwlock_no_lost_wakeup:
  assumes "reachable s"
  shows "(threads s t = WaitRead d \<longrightarrow> writer_active s \<or> writers_waiting s > 0) \<and>
    (threads s t = WaitWrite d \<longrightarrow> reader_count s > 0 \<or> writer_active s)"
  using reachable_inv [OF assms]
  unfolding lock_inv_defs writer_active_def reader_count_def writers_waiting_def by blast

theorem rwlock_no_lost_wakeup_witness:
  "threads two_readers_one_writer 3 = WaitWrite None \<and>
   (reader_count two_readers_one_writer > 0 \<or> writer_active two_readers_one_writer)"
  using rwlock_no_lost_wakeup [OF two_readers_one_writer_reachable, of 3 None]
  by (simp add: two_readers_one_writer_fields)

text \<open>C39: no deadlock inside the lock: while any thread waits, some thread is outside every
  wait and holds the lock, or has been woken and is about to re-check.\<close>

theorem rwlock_no_deadlock:
  assumes "reachable s" "threads s t \<noteq> Running"
  shows "(\<exists>h. threads s h = Running \<and> (h \<in> dom (reader_threads (rw s)) \<or> active_writer (rw s) = Some h)) \<or>
    (\<exists>w d. threads s w = WokenRead d \<or> threads s w = WokenWrite d)"
proof -
  have inv: "lock_inv s" using assms(1) by (rule reachable_inv)
  note holder = waiting_holds_nothing [OF inv]
  have writer: ?thesis if "active_writer (rw s) \<noteq> None"
    using that holder by (metis not_None_eq)
  have reader: ?thesis if "active_readers (rw s) > 0"
  proof -
    have "dom (reader_threads (rw s)) \<noteq> {}" using that inv by (auto simp: lock_inv_defs)
    then obtain h where "h \<in> dom (reader_threads (rw s))" by blast
    then have "reader_threads (rw s) h \<noteq> None" by auto
    with holder [of h] show ?thesis by auto
  qed
  have waiting_writer: ?thesis if "threads s w = WaitWrite d" for w d
    using inv that writer reader unfolding lock_inv_defs by blast
  show ?thesis
  proof (cases "threads s t")
    case (WaitRead d)
    with inv have "active_writer (rw s) \<noteq> None \<or> waiting_writers (rw s) > 0"
      unfolding lock_inv_defs by blast
    moreover have ?thesis if "waiting_writers (rw s) > 0"
    proof -
      from that inv have "writer_threads s \<noteq> {}" by (auto simp: lock_inv_defs)
      then obtain w where "wants_write (threads s w)" by (auto simp: writer_threads_def)
      then show ?thesis using waiting_writer by (cases "threads s w") auto
    qed
    ultimately show ?thesis using writer by blast
  next
    case (WaitWrite d)
    then show ?thesis by (rule waiting_writer)
  qed (use assms(2) in auto)
qed

theorem rwlock_no_deadlock_witness:
  "(\<exists>h. threads two_readers_one_writer h = Running \<and>
      (h \<in> dom (reader_threads (rw two_readers_one_writer)) \<or> active_writer (rw two_readers_one_writer) = Some h)) \<or>
   (\<exists>w d. threads two_readers_one_writer w = WokenRead d \<or> threads two_readers_one_writer w = WokenWrite d)"
proof -
  have "threads two_readers_one_writer 3 \<noteq> Running" by (simp add: two_readers_one_writer_fields)
  from rwlock_no_deadlock [OF two_readers_one_writer_reachable this] show ?thesis .
qed

lemma acquire_read_fst:
  "fst (acquire_read t timeout s) =
     (if timeout \<noteq> None \<and> the timeout < 0 then Raised ValueError
      else if reader_threads (rw s) t \<noteq> None then Acquired
      else if active_writer (rw s) = Some t then Raised RuntimeError
      else if active_writer (rw s) = None \<and> waiting_writers (rw s) \<le> 0 then Acquired
      else if timeout = Some 0 then Raised TimeoutError
      else Blocked)"
  by (cases timeout; cases "reader_threads (rw s) t")
    (auto simp: acquire_read_def read_loop_def Let_def expired_def deadline_of_def)

text \<open>what a request to read does, in every case: the error of a negative timeout, the
  reentrant grant, the prohibited downgrade, and otherwise entry exactly when no writer is
  active and none waits (writer preference), the timeout error when the time is up, and
  waiting until the deadline.\<close>

theorem acquire_read_result:
  "fst (acquire_read t timeout s) =
     (if timeout \<noteq> None \<and> the timeout < 0 then Raised ValueError
      else if reader_threads (rw s) t \<noteq> None then Acquired
      else if active_writer (rw s) = Some t then Raised RuntimeError
      else if active_writer (rw s) = None \<and> waiting_writers (rw s) \<le> 0 then Acquired
      else if timeout = Some 0 then Raised TimeoutError
      else Blocked)"
  by (rule acquire_read_fst)

lemma acquire_write_fst:
  "fst (acquire_write t timeout s) =
     (if timeout \<noteq> None \<and> the timeout < 0 then Raised ValueError
      else if reader_threads (rw s) t \<noteq> None then Raised RuntimeError
      else if active_writer (rw s) = Some t then Raised RuntimeError
      else if active_readers (rw s) \<le> 0 \<and> active_writer (rw s) = None then Acquired
      else if timeout = Some 0 then Raised TimeoutError
      else Blocked)"
  by (cases timeout)
    (auto simp: acquire_write_def write_loop_def Let_def expired_def deadline_of_def)

text \<open>The same for a request to write; the upgrade of a read lock and a second write lock are
  errors, and the lock is granted exactly when nobody holds it.\<close>

theorem acquire_write_result:
  "fst (acquire_write t timeout s) =
     (if timeout \<noteq> None \<and> the timeout < 0 then Raised ValueError
      else if reader_threads (rw s) t \<noteq> None then Raised RuntimeError
      else if active_writer (rw s) = Some t then Raised RuntimeError
      else if active_readers (rw s) \<le> 0 \<and> active_writer (rw s) = None then Acquired
      else if timeout = Some 0 then Raised TimeoutError
      else Blocked)"
  by (rule acquire_write_fst)

text \<open>A failed request leaves no trace: after an error of either kind the lock's fields are
  what they were, the count of waiting writers included.\<close>

theorem failed_request_no_trace:
  "fst (acquire_write t timeout s) = Raised e \<Longrightarrow> rw (snd (acquire_write t timeout s)) = rw s"
  by (auto simp: acquire_write_def write_loop_def end_wait_write_def Let_def split: if_splits)

theorem failed_request_no_trace_witness:
  "fst (acquire_write 3 (Some 0) two_readers_one_writer) = Raised TimeoutError \<and>
   rw (snd (acquire_write 3 (Some 0) two_readers_one_writer)) = rw two_readers_one_writer"
proof -
  have "fst (acquire_write 3 (Some 0) two_readers_one_writer) = Raised TimeoutError"
    by (simp add: acquire_write_fst two_readers_one_writer_fields)
  with failed_request_no_trace [OF this] show ?thesis by blast
qed

text \<open>Acquiring and releasing a read lock, reentrantly or not, restores the lock's fields.\<close>

theorem read_release_roundtrip:
  assumes "fst (acquire_read t timeout s) = Acquired" "reader_threads (rw s) t \<noteq> Some 0"
  shows "fst (release_read t (snd (acquire_read t timeout s))) = Released \<and>
    rw (snd (release_read t (snd (acquire_read t timeout s)))) = rw s"
proof (cases "reader_threads (rw s) t")
  case None
  then have "(reader_threads (rw s))(t := None) = reader_threads (rw s)" by auto
  with None assms(1) show ?thesis
    by (auto simp: acquire_read_def read_loop_def release_read_def Let_def split: if_splits)
next
  case (Some n)
  then have "(reader_threads (rw s))(t \<mapsto> n) = reader_threads (rw s)" by auto
  with Some assms show ?thesis
    by (auto simp: acquire_read_def release_read_def Let_def split: if_splits)
qed

theorem read_release_roundtrip_witness:
  "fst (release_read 1 (snd (acquire_read 1 (Some 5) two_readers_one_writer))) = Released \<and>
   rw (snd (release_read 1 (snd (acquire_read 1 (Some 5) two_readers_one_writer)))) = rw two_readers_one_writer"
  by (rule read_release_roundtrip) (simp_all add: acquire_read_fst two_readers_one_writer_fields)

end
