(* ===== verification/Cache.thy ===== *)
theory Cache
  imports Frozen_Errors Ordered_Dict
begin

text \<open>
  \<open>runtime/cache.py\<close>, \<open>runtime/cache_types.py\<close> and \<open>runtime/cache_audit.py\<close>: the format cache.
  \<open>H\<close> is \<open>hashlib.blake2b\<close>, \<open>K\<close> is \<open>str\<close> on a lookup key, and \<open>clk n\<close> is the n-th reading
  of a clock (monotonic or wall), a double in its eight packed bytes; the cache counts the
  readings.  An operation gets what \<open>_make_key\<close> returns for its arguments, None when they
  cannot be hashed.  It returns the cache it leaves behind and its result or exception,
  since what an exception leaves behind matters.
\<close>

type_synonym clock = "nat \<Rightarrow> bytes"

section \<open>Entries\<close>

record cache_entry =
  ce_formatted :: ustr
  ce_errors :: "fluent_error list"
  ce_checksum :: bytes
  ce_created_at :: bytes
  ce_sequence :: nat
  ce_key_hash :: bytes
  ce_content_hash :: bytes

definition feed_errors :: "fluent_error list \<Rightarrow> py_error + bytes" where
  "feed_errors es =
     res_bind (to_bytes 4 (length es)) (\<lambda>n. Inr (n @ concat (map (\<lambda>e. 1 # fe_content_hash e) es)))"

definition content_bytes :: "ustr \<Rightarrow> fluent_error list \<Rightarrow> py_error + bytes" where
  "content_bytes s es = res_concat [frame s, feed_errors es]"

definition checksum_bytes ::
    "ustr \<Rightarrow> fluent_error list \<Rightarrow> bytes \<Rightarrow> nat \<Rightarrow> bytes \<Rightarrow> py_error + bytes" where
  "checksum_bytes s es created n kh =
     res_concat [frame s, feed_errors es, Inr created, to_bytes 8 n, Inr kh]"

definition compute_content_hash :: "digest \<Rightarrow> ustr \<Rightarrow> fluent_error list \<Rightarrow> py_error + bytes" where
  "compute_content_hash H s es = res_bind (content_bytes s es) (\<lambda>b. Inr (H 16 b))"

definition compute_checksum ::
    "digest \<Rightarrow> ustr \<Rightarrow> fluent_error list \<Rightarrow> bytes \<Rightarrow> nat \<Rightarrow> bytes \<Rightarrow> py_error + bytes" where
  "compute_checksum H s es created n kh = res_bind (checksum_bytes s es created n kh) (\<lambda>b. Inr (H 16 b))"

definition entry_create ::
    "digest \<Rightarrow> bytes \<Rightarrow> ustr \<Rightarrow> fluent_error list \<Rightarrow> nat \<Rightarrow> bytes \<Rightarrow> py_error + cache_entry" where
  "entry_create H now s es n kh =
     res_bind (compute_checksum H s es now n kh) (\<lambda>chk.
       res_bind (compute_content_hash H s es) (\<lambda>ch.
         Inr \<lparr>ce_formatted = s, ce_errors = es, ce_checksum = chk, ce_created_at = now,
              ce_sequence = n, ce_key_hash = kh, ce_content_hash = ch\<rparr>))"

fun all_verify :: "digest \<Rightarrow> fluent_error list \<Rightarrow> py_error + bool" where
  "all_verify H [] = Inr True"
| "all_verify H (e # es) = res_bind (verify_integrity H e) (\<lambda>ok. if ok then all_verify H es else Inr False)"

definition entry_verify :: "digest \<Rightarrow> cache_entry \<Rightarrow> py_error + bool" where
  "entry_verify H e =
     res_bind (compute_content_hash H (ce_formatted e) (ce_errors e)) (\<lambda>expected_content.
       if ce_content_hash e \<noteq> expected_content then Inr False
       else res_bind
         (compute_checksum H (ce_formatted e) (ce_errors e) (ce_created_at e) (ce_sequence e) (ce_key_hash e))
         (\<lambda>expected.
            if ce_checksum e \<noteq> expected then Inr False else all_verify H (ce_errors e)))"

definition as_result :: "cache_entry \<Rightarrow> ustr \<times> fluent_error list" where
  "as_result e = (ce_formatted e, ce_errors e)"

definition compute_key_hash :: "digest \<Rightarrow> ('k \<Rightarrow> ustr) \<Rightarrow> 'k \<Rightarrow> bytes" where
  "compute_key_hash H K k = H 8 (utf8 (K k))"

section \<open>Texts\<close>

definition hex_digit :: "nat \<Rightarrow> uchar" where
  "hex_digit d = (if d < 10 then 48 + d else 87 + d)"

definition to_hex :: "bytes \<Rightarrow> ustr" where
  "to_hex b = concat (map (\<lambda>x. [hex_digit (x div 16), hex_digit (x mod 16)]) b)"

section \<open>The cache\<close>

record write_log_entry =
  wl_operation :: ustr
  wl_key_hash :: ustr
  wl_timestamp :: bytes
  wl_sequence :: nat
  wl_checksum_hex :: ustr
  wl_wall_time :: bytes

record 'k cache =
  c_store :: "('k, cache_entry) odict"
  c_maxsize :: nat
  c_max_entry_weight :: nat
  c_max_errors :: nat
  c_write_once :: bool
  c_strict :: bool
  c_audit_log :: "write_log_entry list option"
  c_max_audit :: int
  c_hits :: nat
  c_misses :: nat
  c_unhashable :: nat
  c_oversize :: nat
  c_error_bloat :: nat
  c_combined_weight :: nat
  c_corruption :: nat
  c_idempotent :: nat
  c_conflicts :: nat
  c_sequence :: nat
  c_readings :: nat

definition mk_cache ::
    "int \<Rightarrow> int \<Rightarrow> int \<Rightarrow> bool \<Rightarrow> bool \<Rightarrow> bool \<Rightarrow> int \<Rightarrow> py_error + 'k cache" where
  "mk_cache maxsize weight max_errors write_once strict enable_audit max_audit =
     (if maxsize \<le> 0 then Inl ValueError
      else if weight \<le> 0 then Inl ValueError
      else if max_errors \<le> 0 then Inl ValueError
      else if enable_audit \<and> max_audit < 0 then Inl ValueError
      else Inr
        \<lparr>c_store = [], c_maxsize = nat maxsize, c_max_entry_weight = nat weight,
         c_max_errors = nat max_errors, c_write_once = write_once, c_strict = strict,
         c_audit_log = (if enable_audit then Some [] else None), c_max_audit = max_audit,
         c_hits = 0, c_misses = 0, c_unhashable = 0, c_oversize = 0, c_error_bloat = 0,
         c_combined_weight = 0, c_corruption = 0, c_idempotent = 0, c_conflicts = 0,
         c_sequence = 0, c_readings = 0\<rparr>)"

definition read_clock :: "clock \<Rightarrow> 'k cache \<Rightarrow> bytes \<times> 'k cache" where
  "read_clock clk c = (clk (c_readings c), c\<lparr>c_readings := c_readings c + 1\<rparr>)"

text \<open>\<open>deque(maxlen=n).append\<close> drops from the left what does not fit.\<close>

definition deque_append :: "nat \<Rightarrow> 'a \<Rightarrow> 'a list \<Rightarrow> 'a list" where
  "deque_append n x xs = drop (Suc (length xs) - n) (xs @ [x])"

definition audit ::
    "digest \<Rightarrow> ('k \<Rightarrow> ustr) \<Rightarrow> clock \<Rightarrow> string \<Rightarrow> 'k \<Rightarrow> cache_entry option \<Rightarrow> 'k cache \<Rightarrow> 'k cache" where
  "audit H K clk operation k e c =
     (case c_audit_log c of
        None \<Rightarrow> c
      | Some log \<Rightarrow>
          let (t, c) = read_clock clk c;
              (w, c) = read_clock clk c;
              entry =
                \<lparr>wl_operation = u operation, wl_key_hash = to_hex (compute_key_hash H K k),
                 wl_timestamp = t, wl_sequence = (case e of Some e \<Rightarrow> ce_sequence e | None \<Rightarrow> 0),
                 wl_checksum_hex = (case e of Some e \<Rightarrow> to_hex (ce_checksum e) | None \<Rightarrow> []),
                 wl_wall_time = w\<rparr>
          in c\<lparr>c_audit_log := Some (deque_append (nat (c_max_audit c)) entry log)\<rparr>)"

definition get_audit_log :: "'k cache \<Rightarrow> write_log_entry list" where
  "get_audit_log c = (case c_audit_log c of None \<Rightarrow> [] | Some log \<Rightarrow> log)"

section \<open>Exceptions\<close>

record integrity_context =
  ic_component :: ustr
  ic_operation :: ustr
  ic_key :: ustr
  ic_expected :: ustr
  ic_actual :: ustr
  ic_timestamp :: bytes
  ic_wall_time :: bytes

datatype cache_error =
    CacheCorruptionError (ce_message: ustr) (ce_context: integrity_context)
  | WriteConflictError (ce_message: ustr) (ce_context: integrity_context) (ce_existing_seq: nat) (ce_new_seq: nat)
  | CacheRaises py_error

definition integrity_error_context ::
    "clock \<Rightarrow> string \<Rightarrow> ustr \<Rightarrow> ustr \<Rightarrow> ustr \<Rightarrow> 'k cache \<Rightarrow> integrity_context \<times> 'k cache" where
  "integrity_error_context clk operation mid expected actual c =
     (let (t, c) = read_clock clk c; (w, c) = read_clock clk c
      in (\<lparr>ic_component = u ''cache'', ic_operation = u operation, ic_key = mid, ic_expected = expected,
           ic_actual = actual, ic_timestamp = t, ic_wall_time = w\<rparr>, c))"

section \<open>Operations\<close>

text \<open>What \<open>get\<close> does with an entry that fails a check: raise, or evict and miss.\<close>

definition reject_entry ::
    "clock \<Rightarrow> ustr \<Rightarrow> ustr \<Rightarrow> ustr \<Rightarrow> ustr \<Rightarrow> 'k \<Rightarrow> 'k cache \<Rightarrow> 'k cache \<times> (cache_error + cache_entry option)" where
  "reject_entry clk message mid expected actual k c =
     (if c_strict c then
        let (ctx, c) = integrity_error_context clk ''get'' mid expected actual c
        in (c, Inl (CacheCorruptionError (message @ mid @ u [CHR 0x27]) ctx))
      else (c\<lparr>c_store := od_del k (c_store c), c_misses := c_misses c + 1\<rparr>, Inr None))"

definition cache_get ::
    "digest \<Rightarrow> ('k \<Rightarrow> ustr) \<Rightarrow> clock \<Rightarrow> ustr \<Rightarrow> 'k option \<Rightarrow> 'k cache \<Rightarrow> 'k cache \<times> (cache_error + cache_entry option)" where
  "cache_get H K clk mid key c =
     (case key of
        None \<Rightarrow> (c\<lparr>c_unhashable := c_unhashable c + 1\<rparr>, Inr None)
      | Some k \<Rightarrow>
          (case od_get (c_store c) k of
             None \<Rightarrow> (audit H K clk ''MISS'' k None (c\<lparr>c_misses := c_misses c + 1\<rparr>), Inr None)
           | Some e \<Rightarrow>
               (case entry_verify H e of
                  Inl x \<Rightarrow> (c, Inl (CacheRaises x))
                | Inr False \<Rightarrow>
                    reject_entry clk (u (''Cache entry corruption detected for '' @ [CHR 0x27])) mid
                      (to_hex (ce_checksum e)) (u ''<recomputed mismatch>'') k
                      (audit H K clk ''CORRUPTION'' k (Some e) (c\<lparr>c_corruption := c_corruption c + 1\<rparr>))
                | Inr True \<Rightarrow>
                    if ce_key_hash e \<noteq> compute_key_hash H K k then
                      reject_entry clk (u (''Cache key confusion detected for '' @ [CHR 0x27])) mid
                        (to_hex (compute_key_hash H K k)) (to_hex (ce_key_hash e)) k
                        (audit H K clk ''CORRUPTION'' k (Some e) (c\<lparr>c_corruption := c_corruption c + 1\<rparr>))
                    else
                      (audit H K clk ''HIT'' k (Some e)
                         (c\<lparr>c_store := od_move_to_end k (c_store c), c_hits := c_hits c + 1\<rparr>),
                       Inr (Some e)))))"

text \<open>A write to a key that is already cached in a write-once cache.\<close>

definition put_existing ::
    "digest \<Rightarrow> ('k \<Rightarrow> ustr) \<Rightarrow> clock \<Rightarrow> ustr \<Rightarrow> 'k \<Rightarrow> ustr \<Rightarrow> fluent_error list \<Rightarrow> cache_entry \<Rightarrow> 'k cache \<Rightarrow>
     'k cache \<times> (cache_error + unit)" where
  "put_existing H K clk mid k s es old c =
     (case compute_content_hash H s es of
        Inl x \<Rightarrow> (c, Inl (CacheRaises x))
      | Inr new_hash \<Rightarrow>
          if ce_content_hash old = new_hash then
            (audit H K clk ''WRITE_ONCE_IDEMPOTENT'' k (Some old) (c\<lparr>c_idempotent := c_idempotent c + 1\<rparr>), Inr ())
          else
            let c = audit H K clk ''WRITE_ONCE_CONFLICT'' k (Some old) c;
                c = c\<lparr>c_conflicts := c_conflicts c + 1\<rparr>
            in if c_strict c then
                 let (ctx, c) =
                       integrity_error_context clk ''put'' mid (u ''<new entry>'')
                         (u ''<existing seq='' @ dec_digits (ce_sequence old) @ u ''>'') c
                 in (c, Inl (WriteConflictError
                       (u (''Write-once violation: '' @ [CHR 0x27]) @ mid @ u ([CHR 0x27] @ '' already cached''))
                       ctx (ce_sequence old) (c_sequence c + 1)))
               else (c, Inr ()))"

definition evict_for :: "digest \<Rightarrow> ('k \<Rightarrow> ustr) \<Rightarrow> clock \<Rightarrow> 'k \<Rightarrow> 'k cache \<Rightarrow> 'k cache" where
  "evict_for H K clk k c =
     (if k \<notin> set (od_keys (c_store c)) \<and> c_maxsize c \<le> length (c_store c) then
        (case c_store c of
           [] \<Rightarrow> c
         | (old_key, old_entry) # rest \<Rightarrow>
             audit H K clk ''EVICT'' old_key (Some old_entry) (c\<lparr>c_store := od_pop_first (c_store c)\<rparr>))
      else c)"

definition put_new ::
    "digest \<Rightarrow> ('k \<Rightarrow> ustr) \<Rightarrow> clock \<Rightarrow> 'k \<Rightarrow> ustr \<Rightarrow> fluent_error list \<Rightarrow> 'k cache \<Rightarrow> 'k cache \<times> (cache_error + unit)" where
  "put_new H K clk k s es c =
     (let c = c\<lparr>c_sequence := c_sequence c + 1\<rparr>;
          kh = compute_key_hash H K k;
          (now, c) = read_clock clk c
      in case entry_create H now s es (c_sequence c) kh of
           Inl x \<Rightarrow> (c, Inl (CacheRaises x))
         | Inr e \<Rightarrow>
             let is_update = (k \<in> set (od_keys (c_store c)));
                 c = evict_for H K clk k c;
                 c = (if is_update then c\<lparr>c_store := od_move_to_end k (c_store c)\<rparr> else c);
                 c = c\<lparr>c_store := od_set k e (c_store c)\<rparr>
             in (audit H K clk ''PUT'' k (Some e) c, Inr ()))"

definition entry_weight :: "ustr \<Rightarrow> fluent_error list \<Rightarrow> nat" where
  "entry_weight s es = length s + sum_list (map estimate_error_weight es)"

definition cache_put ::
    "digest \<Rightarrow> ('k \<Rightarrow> ustr) \<Rightarrow> clock \<Rightarrow> ustr \<Rightarrow> 'k option \<Rightarrow> ustr \<Rightarrow> fluent_error list \<Rightarrow> 'k cache \<Rightarrow>
     'k cache \<times> (cache_error + unit)" where
  "cache_put H K clk mid key s es c =
     (if c_max_entry_weight c < length s then (c\<lparr>c_oversize := c_oversize c + 1\<rparr>, Inr ())
      else if c_max_errors c < length es then (c\<lparr>c_error_bloat := c_error_bloat c + 1\<rparr>, Inr ())
      else if c_max_entry_weight c < entry_weight s es then
        (c\<lparr>c_combined_weight := c_combined_weight c + 1\<rparr>, Inr ())
      else
        (case key of
           None \<Rightarrow> (c\<lparr>c_unhashable := c_unhashable c + 1\<rparr>, Inr ())
         | Some k \<Rightarrow>
             (case (if c_write_once c then od_get (c_store c) k else None) of
                Some old \<Rightarrow> put_existing H K clk mid k s es old c
              | None \<Rightarrow> put_new H K clk k s es c)))"

definition cache_clear :: "'k cache \<Rightarrow> 'k cache" where
  "cache_clear c = c\<lparr>c_store := []\<rparr>"

definition cache_size :: "'k cache \<Rightarrow> nat" where
  "cache_size c = length (c_store c)"

section \<open>Histories\<close>

datatype 'k cache_op =
    Get ustr "'k option"
  | Put ustr "'k option" ustr "fluent_error list"
  | Clear

fun cache_step :: "digest \<Rightarrow> ('k \<Rightarrow> ustr) \<Rightarrow> clock \<Rightarrow> 'k cache_op \<Rightarrow> 'k cache \<Rightarrow> 'k cache" where
  "cache_step H K clk (Get mid key) c = fst (cache_get H K clk mid key c)"
| "cache_step H K clk (Put mid key s es) c = fst (cache_put H K clk mid key s es c)"
| "cache_step H K clk Clear c = cache_clear c"

definition cache_run :: "digest \<Rightarrow> ('k \<Rightarrow> ustr) \<Rightarrow> clock \<Rightarrow> 'k cache_op list \<Rightarrow> 'k cache \<Rightarrow> 'k cache" where
  "cache_run H K clk ops c = fold (cache_step H K clk) ops c"

end
