(* ===== verification/Cache_Proofs.thy ===== *)
theory Cache_Proofs
  imports Cache
begin

text \<open>
  Proofs about the format cache: what the operations leave alone, the invariant of every
  cache a program can reach, and the refinement of the least-recently-used dictionary.
\<close>

section \<open>What auditing and the clock leave alone\<close>

named_theorems cache_frame \<open>fields an auxiliary step does not change\<close>

lemma read_clock_frame [cache_frame]:
  "fst (read_clock clk c) = clk (c_readings c)"
  "snd (read_clock clk c) = c\<lparr>c_readings := c_readings c + 1\<rparr>"
  by (simp_all add: read_clock_def)

lemma audit_frame [cache_frame]:
  "c_store (audit H K clk oper k e c) = c_store c"
  "c_maxsize (audit H K clk oper k e c) = c_maxsize c"
  "c_max_entry_weight (audit H K clk oper k e c) = c_max_entry_weight c"
  "c_max_errors (audit H K clk oper k e c) = c_max_errors c"
  "c_write_once (audit H K clk oper k e c) = c_write_once c"
  "c_strict (audit H K clk oper k e c) = c_strict c"
  "c_max_audit (audit H K clk oper k e c) = c_max_audit c"
  "c_sequence (audit H K clk oper k e c) = c_sequence c"
  "c_corruption (audit H K clk oper k e c) = c_corruption c"
  "c_hits (audit H K clk oper k e c) = c_hits c"
  "c_misses (audit H K clk oper k e c) = c_misses c"
  "c_unhashable (audit H K clk oper k e c) = c_unhashable c"
  by (simp_all add: audit_def read_clock_def split: option.split)

lemma error_context_frame [cache_frame]:
  "snd (integrity_error_context clk oper mid x y c) = c\<lparr>c_readings := c_readings c + 2\<rparr>"
  by (simp add: integrity_error_context_def read_clock_def)

lemma length_deque_append: "length (deque_append n x xs) = min n (Suc (length xs))"
  by (simp add: deque_append_def)

definition log_bounded :: "'k cache \<Rightarrow> bool" where
  "log_bounded c \<longleftrightarrow> length (get_audit_log c) \<le> nat (c_max_audit c)"

lemma audit_bounded [cache_frame]: "log_bounded c \<Longrightarrow> log_bounded (audit H K clk oper k e c)"
  by (simp add: log_bounded_def get_audit_log_def audit_def read_clock_def length_deque_append
      split: option.split)

section \<open>Entries\<close>

lemma all_verify_iff: "all_verify H es = Inr True \<longleftrightarrow> list_all (\<lambda>e. verify_integrity H e = Inr True) es"
  by (induction es) (auto simp: res_bind_Inr)

lemma entry_create_fields:
  assumes "entry_create H now s es n kh = Inr e"
  shows "ce_formatted e = s" "ce_errors e = es" "ce_created_at e = now" "ce_sequence e = n" "ce_key_hash e = kh"
    "compute_checksum H s es now n kh = Inr (ce_checksum e)" "compute_content_hash H s es = Inr (ce_content_hash e)"
  using assms by (auto simp: entry_create_def res_bind_Inr)

lemma entry_create_verify:
  assumes "entry_create H now s es n kh = Inr e" "list_all (\<lambda>x. verify_integrity H x = Inr True) es"
  shows "entry_verify H e = Inr True"
  using entry_create_fields [OF assms(1)] assms(2) by (simp add: entry_verify_def all_verify_iff)

lemma length_utf8: "length (utf8 s) \<le> 4 * length s"
  by (induction s) (simp_all add: utf8_def utf8_char_def)

lemma entry_create_succeeds:
  assumes "length s < 2 ^ 30" "length es < 2 ^ 32" "n < 2 ^ 64"
  shows "\<exists>e. entry_create H now s es n kh = Inr e"
proof -
  have "length (utf8 s) < 256 ^ 4" using length_utf8 [of s] assms(1) by simp
  moreover have "length es < 256 ^ 4" "n < 256 ^ 8" using assms(2,3) by simp_all
  ultimately show ?thesis
    by (simp add: entry_create_def compute_checksum_def compute_content_hash_def checksum_bytes_def
        content_bytes_def feed_errors_def frame_def to_bytes_def)
qed

text \<open>The bytes that are hashed determine the text and the sequence of error hashes.\<close>

lemma concat_frames_inj:
  assumes "\<forall>x \<in> set xs. length x = n" "\<forall>y \<in> set ys. length y = n" "length xs = length ys"
    "concat xs @ r = concat ys @ r'"
  shows "xs = ys \<and> r = r'"
  using assms(3,1,2,4) by (induction xs ys rule: list_induct2) (auto simp: append_eq_append_conv)

lemma feed_errors_prefix:
  assumes "feed_errors es = Inr a" "feed_errors es' = Inr b" "a @ x = b @ y"
    "list_all (\<lambda>e. length (fe_content_hash e) = 16) es" "list_all (\<lambda>e. length (fe_content_hash e) = 16) es'"
  shows "map fe_content_hash es = map fe_content_hash es' \<and> x = y"
proof -
  let ?f = "\<lambda>es. map (\<lambda>e. 1 # fe_content_hash e) es"
  have a: "length es < 256 ^ 4" "a = big_endian 4 (length es) @ concat (?f es)"
    and b: "length es' < 256 ^ 4" "b = big_endian 4 (length es') @ concat (?f es')"
    using assms(1,2) by (auto simp: feed_errors_def to_bytes_def split: if_splits)
  have "big_endian 4 (length es) = big_endian 4 (length es')" "concat (?f es) @ x = concat (?f es') @ y"
    using assms(3) a(2) b(2) by (simp_all add: append_eq_append_conv)
  moreover from this have "length es = length es'" using a(1) b(1) big_endian_inj by blast
  ultimately have "?f es = ?f es' \<and> x = y"
    using assms(4,5) by (intro concat_frames_inj [where n = 17]) (auto simp: list_all_iff)
  then have "map tl (?f es) = map tl (?f es')" "x = y" by simp_all
  then show ?thesis by (simp add: comp_def)
qed

lemma content_bytes_inj:
  assumes "content_bytes s es = Inr b" "content_bytes s' es' = Inr b"
    "list_all (\<lambda>e. length (fe_content_hash e) = 16) es" "list_all (\<lambda>e. length (fe_content_hash e) = 16) es'"
  shows "s = s' \<and> map fe_content_hash es = map fe_content_hash es'"
proof -
  obtain p q p' q' where "frame s = Inr p" "feed_errors es = Inr q" "b = p @ q @ []"
    "frame s' = Inr p'" "feed_errors es' = Inr q'" "b = p' @ q' @ []"
    using assms(1,2) by (auto simp: content_bytes_def res_bind_Inr)
  then show ?thesis using frame_prefix feed_errors_prefix assms(3,4) by metis
qed

section \<open>The least-recently-used dictionary\<close>

text \<open>
  The contract: a list of bindings, the least recently used first.  A touch moves a binding
  to the end, a store puts it there and keeps the last \<open>n\<close> bindings.
\<close>

definition lru_touch :: "'k \<Rightarrow> ('k \<times> 'v) list \<Rightarrow> ('k \<times> 'v) list" where
  "lru_touch k m = (case map_of m k of None \<Rightarrow> m | Some v \<Rightarrow> filter (\<lambda>x. fst x \<noteq> k) m @ [(k, v)])"

definition lru_store :: "nat \<Rightarrow> 'k \<Rightarrow> 'v \<Rightarrow> ('k \<times> 'v) list \<Rightarrow> ('k \<times> 'v) list" where
  "lru_store n k v m = (let m' = filter (\<lambda>x. fst x \<noteq> k) m @ [(k, v)] in drop (length m' - n) m')"

definition put_into :: "nat \<Rightarrow> 'k \<Rightarrow> 'v \<Rightarrow> ('k, 'v) odict \<Rightarrow> ('k, 'v) odict" where
  "put_into n k e d =
     od_set k e
       (if k \<in> set (od_keys d) then od_move_to_end k d
        else if n \<le> length (od_keys d) then od_pop_first d else d)"

lemma put_into_facts:
  assumes "od_valid d" "0 < n" "length (od_keys d) \<le> n"
  shows "od_valid (put_into n k e d)" "length (od_keys (put_into n k e d)) \<le> n"
    "od_get (put_into n k e d) k = Some e"
    "od_get (put_into n k e d) k' = Some e' \<Longrightarrow> k' \<noteq> k \<Longrightarrow> od_get d k' = Some e'"
proof -
  note upd = od.valid_update [OF assms(1), where k = k and v = e]
    and ins = od.valid_insert [OF assms(1) _ assms(2), where k = k and v = e]
  show "od_valid (put_into n k e d)" using upd(1) ins(1) by (auto simp: put_into_def)
  show "length (od_keys (put_into n k e d)) \<le> n"
    using upd(2) ins(4) [OF _ assms(3)] od.distinct_keys [OF assms(1)] assms(3) length_pos_if_in_set [of k "od_keys d"]
    by (cases "k \<in> set (od_keys d)") (auto simp: put_into_def distinct_remove1_removeAll [symmetric] length_remove1 Suc_le_eq)
  show "od_get (put_into n k e d) k = Some e" using upd(3) ins(3) by (auto simp: put_into_def)
  show "od_get (put_into n k e d) k' = Some e' \<Longrightarrow> k' \<noteq> k \<Longrightarrow> od_get d k' = Some e'"
    using upd(3) ins(5) [where k' = k'] od.lookup_keys [OF ins(1), where k = k']
    by (cases "k \<in> set (od_keys d)") (auto simp: put_into_def split: if_splits)
qed

lemma update_fresh: "k \<notin> fst ` set d \<Longrightarrow> AList.update k v d = d @ [(k, v)]"
  by (induction d) auto

lemma update_last: "k \<notin> fst ` set d \<Longrightarrow> AList.update k v (d @ [(k, w)]) = d @ [(k, v)]"
  by (induction d) auto

lemma delete_filter: "AList.delete k d = filter (\<lambda>x. fst x \<noteq> k) d"
  by (auto simp: AList.delete_eq intro!: filter_cong)

lemma od_move_lru: "od_move_to_end k d = lru_touch k d"
  by (simp add: od_move_to_end_def lru_touch_def od_get_def od_del_def delete_filter split: option.split)

lemma put_into_lru:
  assumes "length d \<le> n" "0 < n"
  shows "put_into n k e d = lru_store n k e d"
proof (cases "k \<in> fst ` set d")
  case True
  then obtain v where "map_of d k = Some v" by (cases "map_of d k") (auto simp: map_of_eq_None_iff)
  moreover have "length (filter (\<lambda>x. fst x \<noteq> k) d) < length d" using True by (auto intro!: length_filter_less)
  moreover have "AList.update k e (filter (\<lambda>x. fst x \<noteq> k) d @ [(k, v)]) = filter (\<lambda>x. fst x \<noteq> k) d @ [(k, e)]" for v
    by (rule update_last) auto
  ultimately show ?thesis using True assms
    by (auto simp: put_into_def od_keys_def od_set_def od_move_lru lru_touch_def lru_store_def)
next
  case False
  then have "filter (\<lambda>x. fst x \<noteq> k) d = d" by (auto simp: filter_id_conv)
  moreover have "k \<notin> fst ` set (tl d)" using False by (cases d) auto
  ultimately show ?thesis using False assms
    by (cases d) (auto simp: put_into_def od_keys_def od_set_def od_pop_first_def lru_store_def update_fresh Suc_diff_le
        not_less_eq_eq)
qed

lemma lru_map:
  "map (map_prod id f) (lru_touch k m) = lru_touch k (map (map_prod id f) m)"
  "map (map_prod id f) (lru_store n k v m) = lru_store n k (f v) (map (map_prod id f) m)"
  "map_of (map (map_prod id f) m) k = map_option f (map_of m k)"
proof -
  have flt: "map (map_prod id f) (filter (\<lambda>x. fst x \<noteq> k) m) = filter (\<lambda>x. fst x \<noteq> k) (map (map_prod id f) m)"
    by (simp add: filter_map comp_def)
  show get: "map_of (map (map_prod id f) m) k = map_option f (map_of m k)" by (induction m) auto
  show "map (map_prod id f) (lru_touch k m) = lru_touch k (map (map_prod id f) m)"
    using flt get by (simp add: lru_touch_def split: option.split)
  show "map (map_prod id f) (lru_store n k v m) = lru_store n k (f v) (map (map_prod id f) m)"
    using flt by (simp add: lru_store_def Let_def flip: flt drop_map)
qed

end
