(* ===== verification/Cache_Properties.thy ===== *)
theory Cache_Properties
  imports Cache_Proofs
begin

text \<open>
  The invariant of the format cache, kept by every operation, and what follows from it: the
  cache is the least-recently-used dictionary of its bounds, with no false alarm.
\<close>

section \<open>The invariant\<close>

definition entry_ok :: "digest \<Rightarrow> ('k \<Rightarrow> ustr) \<Rightarrow> nat \<Rightarrow> 'k \<Rightarrow> cache_entry \<Rightarrow> bool" where
  "entry_ok H K n k e \<longleftrightarrow>
     entry_verify H e = Inr True \<and> ce_key_hash e = compute_key_hash H K k \<and>
     1 \<le> ce_sequence e \<and> ce_sequence e \<le> n \<and>
     compute_content_hash H (ce_formatted e) (ce_errors e) = Inr (ce_content_hash e)"

definition cache_inv :: "digest \<Rightarrow> ('k \<Rightarrow> ustr) \<Rightarrow> 'k cache \<Rightarrow> bool" where
  "cache_inv H K c \<longleftrightarrow>
     od_valid (c_store c) \<and> 0 < c_maxsize c \<and> length (c_store c) \<le> c_maxsize c \<and>
     (\<forall>k e. od_get (c_store c) k = Some e \<longrightarrow> entry_ok H K (c_sequence c) k e) \<and>
     log_bounded c \<and> c_corruption c = 0"

definition same_bounds :: "'k cache \<Rightarrow> 'k cache \<Rightarrow> bool" where
  "same_bounds c c' \<longleftrightarrow>
     c_maxsize c' = c_maxsize c \<and> c_max_entry_weight c' = c_max_entry_weight c \<and>
     c_max_errors c' = c_max_errors c \<and> c_write_once c' = c_write_once c \<and> c_strict c' = c_strict c"

lemma same_bounds_refl [simp]: "same_bounds c c"
  by (simp add: same_bounds_def)

lemma same_bounds_trans: "same_bounds a b \<Longrightarrow> same_bounds b c \<Longrightarrow> same_bounds a c"
  by (simp add: same_bounds_def)

lemma mk_cache_inv:
  assumes "mk_cache maxsize w m wo st aud maxaud = Inr c"
  shows "cache_inv H K c" "c_store c = []" "c_sequence c = 0" "c_maxsize c = nat maxsize"
    "c_max_entry_weight c = nat w" "c_max_errors c = nat m" "c_write_once c = wo" "c_strict c = st"
    "c_hits c = 0" "c_misses c = 0" "c_unhashable c = 0"
  using assms
  by (auto simp: mk_cache_def cache_inv_def log_bounded_def get_audit_log_def od_valid_def od_keys_def od_get_def
      split: if_splits)

text \<open>A change of the counters and the log keeps the invariant.\<close>

lemma cache_inv_change:
  assumes "cache_inv H K c" "c_store c' = c_store c" "c_maxsize c' = c_maxsize c" "c_sequence c' = c_sequence c"
    "c_corruption c' = c_corruption c" "log_bounded c'"
  shows "cache_inv H K c'"
  using assms by (simp add: cache_inv_def)

lemma log_bounded_updates [simp]:
  "log_bounded (c\<lparr>c_store := d\<rparr>) = log_bounded c" "log_bounded (c\<lparr>c_hits := n\<rparr>) = log_bounded c"
  "log_bounded (c\<lparr>c_misses := n\<rparr>) = log_bounded c" "log_bounded (c\<lparr>c_unhashable := n\<rparr>) = log_bounded c"
  "log_bounded (c\<lparr>c_oversize := n\<rparr>) = log_bounded c" "log_bounded (c\<lparr>c_error_bloat := n\<rparr>) = log_bounded c"
  "log_bounded (c\<lparr>c_combined_weight := n\<rparr>) = log_bounded c" "log_bounded (c\<lparr>c_idempotent := n\<rparr>) = log_bounded c"
  "log_bounded (c\<lparr>c_conflicts := n\<rparr>) = log_bounded c" "log_bounded (c\<lparr>c_sequence := n\<rparr>) = log_bounded c"
  "log_bounded (c\<lparr>c_readings := n\<rparr>) = log_bounded c" "log_bounded (c\<lparr>c_corruption := n\<rparr>) = log_bounded c"
  by (simp_all add: log_bounded_def get_audit_log_def)

lemma cache_inv_updates [simp]:
  "cache_inv H K (c\<lparr>c_unhashable := n\<rparr>) = cache_inv H K c" "cache_inv H K (c\<lparr>c_oversize := n\<rparr>) = cache_inv H K c"
  "cache_inv H K (c\<lparr>c_error_bloat := n\<rparr>) = cache_inv H K c"
  "cache_inv H K (c\<lparr>c_combined_weight := n\<rparr>) = cache_inv H K c"
  by (simp_all add: cache_inv_def)

section \<open>Lookups\<close>

lemma get_unhashable: "cache_get H K clk mid None c = (c\<lparr>c_unhashable := c_unhashable c + 1\<rparr>, Inr None)"
  by (simp add: cache_get_def)

lemma get_miss:
  "od_get (c_store c) k = None \<Longrightarrow>
   cache_get H K clk mid (Some k) c = (audit H K clk ''MISS'' k None (c\<lparr>c_misses := c_misses c + 1\<rparr>), Inr None)"
  by (simp add: cache_get_def)

lemma get_hit:
  "cache_inv H K c \<Longrightarrow> od_get (c_store c) k = Some e \<Longrightarrow>
   cache_get H K clk mid (Some k) c =
     (audit H K clk ''HIT'' k (Some e)
        (c\<lparr>c_store := od_move_to_end k (c_store c), c_hits := c_hits c + 1\<rparr>), Inr (Some e))"
  by (simp add: cache_get_def cache_inv_def entry_ok_def)

lemmas get_results = get_unhashable get_miss get_hit

lemma get_store:
  assumes "cache_inv H K c"
  shows "c_store (fst (cache_get H K clk mid key c)) =
    (case key of None \<Rightarrow> c_store c | Some k \<Rightarrow> lru_touch k (c_store c))"
proof (cases key)
  case (Some k)
  then show ?thesis using assms
    by (cases "od_get (c_store c) k")
      (auto simp: get_results cache_frame od_move_lru, simp add: lru_touch_def od_get_def)
qed (simp add: get_results)

lemma get_inv:
  assumes inv: "cache_inv H K c"
  shows "cache_inv H K (fst (cache_get H K clk mid key c))"
proof (cases key)
  case None
  then show ?thesis using inv by (simp add: get_results cache_inv_def)
next
  case (Some k)
  show ?thesis
  proof (cases "od_get (c_store c) k")
    case None
    with Some inv show ?thesis
      by (auto simp: get_results cache_frame cache_inv_def)
  next
    case (Some e)
    then have k: "k \<in> set (od_keys (c_store c))" using od_get_None [of "c_store c" k] by auto
    have v: "od_valid (c_store c)" using inv by (simp add: cache_inv_def)
    have "length (od_keys (od_move_to_end k (c_store c))) = length (od_keys (c_store c))"
      using od.keys_move [OF v k] od.distinct_keys [OF v] k length_pos_if_in_set [OF k]
      by (simp add: distinct_remove1_removeAll [symmetric] length_remove1)
    then have "length (od_move_to_end k (c_store c)) = length (c_store c)" by (simp add: od_keys_def)
    with Some \<open>key = Some k\<close> inv show ?thesis
      using od.valid_move [OF v k] od.lookup_move [OF v k] by (simp add: get_results cache_frame cache_inv_def)
  qed
qed

lemma get_bounds:
  assumes "cache_inv H K c"
  shows "same_bounds c (fst (cache_get H K clk mid key c))"
    "c_sequence (fst (cache_get H K clk mid key c)) = c_sequence c"
  using assms
  by (cases key; cases "od_get (c_store c) (the key)"; simp add: get_results cache_frame same_bounds_def)+

section \<open>Stores\<close>

lemma length_od_keys: "length (od_keys d) = length d"
  by (simp add: od_keys_def)

lemma put_skipped:
  "c_max_entry_weight c < length s \<or> c_max_errors c < length es \<or> c_max_entry_weight c < entry_weight s es \<Longrightarrow>
   \<exists>c'. cache_put H K clk mid key s es c = (c', Inr ()) \<and> c_store c' = c_store c \<and> c_sequence c' = c_sequence c \<and>
     same_bounds c c' \<and> c_hits c' = c_hits c \<and> c_misses c' = c_misses c \<and>
     (cache_inv H K c \<longrightarrow> cache_inv H K c')"
  by (auto simp: cache_put_def same_bounds_def)

lemma evict_store:
  assumes "cache_inv H K c"
  shows "c_store (evict_for H' K' clk k c) =
    (if k \<notin> set (od_keys (c_store c)) \<and> c_maxsize c \<le> length (od_keys (c_store c))
     then od_pop_first (c_store c) else c_store c)"
  using assms
  by (auto simp: evict_for_def cache_frame length_od_keys od_pop_first_def split: list.split)

lemma evict_frame [cache_frame]:
  "c_sequence (evict_for H K clk k c) = c_sequence c" "c_corruption (evict_for H K clk k c) = c_corruption c"
  "c_maxsize (evict_for H K clk k c) = c_maxsize c" "same_bounds c (evict_for H K clk k c)"
  "c_hits (evict_for H K clk k c) = c_hits c" "c_misses (evict_for H K clk k c) = c_misses c"
  "log_bounded c \<Longrightarrow> log_bounded (evict_for H K clk k c)"
  by (auto simp: evict_for_def same_bounds_def cache_frame split: list.split)

lemma put_new_effect:
  assumes inv: "cache_inv H K c"
    and e: "entry_create H (clk (c_readings c)) s es (Suc (c_sequence c)) (compute_key_hash H K k) = Inr e"
  shows "\<exists>c'. put_new H K clk k s es c = (c', Inr ()) \<and>
    c_store c' = put_into (c_maxsize c) k e (c_store c) \<and> c_sequence c' = Suc (c_sequence c) \<and>
    c_corruption c' = c_corruption c \<and> log_bounded c' \<and> same_bounds c c' \<and>
    c_hits c' = c_hits c \<and> c_misses c' = c_misses c"
proof -
  let ?c = "c\<lparr>c_sequence := Suc (c_sequence c), c_readings := Suc (c_readings c)\<rparr>"
  let ?d = "evict_for H K clk k ?c"
  let ?s = "od_set k e (if k \<in> set (od_keys (c_store c)) then od_move_to_end k (c_store ?d) else c_store ?d)"
  have "cache_inv H K c \<Longrightarrow> c_store ?d =
      (if k \<notin> set (od_keys (c_store c)) \<and> c_maxsize c \<le> length (od_keys (c_store c))
       then od_pop_first (c_store c) else c_store c)"
    by (auto simp: evict_for_def cache_frame length_od_keys od_pop_first_def split: list.split)
  then have s: "?s = put_into (c_maxsize c) k e (c_store c)"
    using inv by (simp add: put_into_def)
  have p: "put_new H K clk k s es c =
      (audit H K clk ''PUT'' k (Some e) (?d\<lparr>c_store := ?s\<rparr>), Inr ())"
    using e by (simp add: put_new_def read_clock_def Let_def)
  have "log_bounded ?c" using inv by (simp add: cache_inv_def)
  moreover have "same_bounds ?c ?d" "same_bounds c ?c" by (rule cache_frame) (simp add: same_bounds_def)
  then have "same_bounds c ?d" using same_bounds_trans by blast
  ultimately show ?thesis unfolding p
    by (intro exI [of _ "audit H K clk ''PUT'' k (Some e) (?d\<lparr>c_store := ?s\<rparr>)"])
      (simp add: cache_frame s same_bounds_def)
qed

lemma entry_ok_mono: "entry_ok H K n k e \<Longrightarrow> n \<le> n' \<Longrightarrow> entry_ok H K n' k e"
  by (auto simp: entry_ok_def)

text \<open>The bounds under which no encoding overflows.\<close>

definition encodable :: "'k cache \<Rightarrow> bool" where
  "encodable c \<longleftrightarrow> c_max_entry_weight c < 2 ^ 30 \<and> c_max_errors c < 2 ^ 32"

definition verified :: "digest \<Rightarrow> fluent_error list \<Rightarrow> bool" where
  "verified H es \<longleftrightarrow> list_all (\<lambda>e. verify_integrity H e = Inr True) es"

definition admitted :: "nat \<Rightarrow> nat \<Rightarrow> ustr \<Rightarrow> fluent_error list \<Rightarrow> bool" where
  "admitted w m s es \<longleftrightarrow> length s \<le> w \<and> length es \<le> m \<and> entry_weight s es \<le> w"

lemma put_new_inv:
  assumes inv: "cache_inv H K c" and enc: "encodable c" "c_sequence c < 2 ^ 64 - 1"
    and adm: "admitted (c_max_entry_weight c) (c_max_errors c) s es" and ver: "verified H es"
  shows "\<exists>c' e. put_new H K clk k s es c = (c', Inr ()) \<and> cache_inv H K c' \<and> same_bounds c c' \<and>
    c_sequence c' = Suc (c_sequence c) \<and> c_store c' = put_into (c_maxsize c) k e (c_store c) \<and>
    as_result e = (s, es) \<and> c_hits c' = c_hits c \<and> c_misses c' = c_misses c"
proof -
  have "length s < 2 ^ 30" "length es < 2 ^ 32" "Suc (c_sequence c) < 2 ^ 64"
    using enc adm by (auto simp: encodable_def admitted_def)
  then obtain e where e:
      "entry_create H (clk (c_readings c)) s es (Suc (c_sequence c)) (compute_key_hash H K k) = Inr e"
    using entry_create_succeeds by blast
  note f = entry_create_fields [OF e]
  have ok: "entry_ok H K (Suc (c_sequence c)) k e"
    using entry_create_verify [OF e] ver f by (simp add: entry_ok_def verified_def)
  obtain c' where c': "put_new H K clk k s es c = (c', Inr ())"
      "c_store c' = put_into (c_maxsize c) k e (c_store c)" "c_sequence c' = Suc (c_sequence c)"
      "c_corruption c' = c_corruption c" "log_bounded c'" "same_bounds c c'"
      "c_hits c' = c_hits c" "c_misses c' = c_misses c"
    using put_new_effect [where clk = clk, OF inv e] by blast
  have d: "od_valid (c_store c)" "0 < c_maxsize c" "length (od_keys (c_store c)) \<le> c_maxsize c"
    using inv by (simp_all add: cache_inv_def length_od_keys)
  note facts = put_into_facts [OF d, of k e]
  have "entry_ok H K (c_sequence c') k' e'" if "od_get (c_store c') k' = Some e'" for k' e'
  proof (cases "k' = k")
    case True
    with that ok facts(3) c'(2,3) show ?thesis by simp
  next
    case False
    with that facts(4) c'(2) inv have "entry_ok H K (c_sequence c) k' e'" by (simp add: cache_inv_def)
    then show ?thesis using c'(3) by (auto intro: entry_ok_mono)
  qed
  then have "cache_inv H K c'"
    using facts(1,2) c' inv by (simp add: cache_inv_def same_bounds_def length_od_keys)
  then show ?thesis using c' f(1,2) by (auto simp: as_result_def)
qed

lemma put_existing_effect:
  assumes "cache_inv H K c"
  shows "let c' = fst (put_existing H K clk mid k s es old c) in
    c_store c' = c_store c \<and> c_sequence c' = c_sequence c \<and> same_bounds c c' \<and> cache_inv H K c' \<and>
    c_hits c' = c_hits c \<and> c_misses c' = c_misses c"
proof -
  let ?c = "fst (put_existing H K clk mid k s es old c)"
  have "log_bounded c" using assms by (simp add: cache_inv_def)
  then have "c_store ?c = c_store c \<and> c_sequence ?c = c_sequence c \<and> same_bounds c ?c \<and>
      c_corruption ?c = c_corruption c \<and> log_bounded ?c \<and> c_hits ?c = c_hits c \<and> c_misses ?c = c_misses c"
    by (auto simp: put_existing_def integrity_error_context_def same_bounds_def cache_frame read_clock_def Let_def
        split: sum.split)
  then show ?thesis
    using cache_inv_change [OF assms, of ?c] by (simp add: same_bounds_def)
qed

section \<open>The refinement\<close>

text \<open>What the operations promise, on the bindings alone.\<close>

fun lru_step ::
    "bool \<Rightarrow> nat \<Rightarrow> nat \<Rightarrow> nat \<Rightarrow> 'k cache_op \<Rightarrow> ('k \<times> ustr \<times> fluent_error list) list \<Rightarrow>
     ('k \<times> ustr \<times> fluent_error list) list" where
  "lru_step wo n w m (Get mid key) d = (case key of None \<Rightarrow> d | Some k \<Rightarrow> lru_touch k d)"
| "lru_step wo n w m (Put mid key s es) d =
     (case key of
        None \<Rightarrow> d
      | Some k \<Rightarrow>
          if admitted w m s es \<and> \<not> (wo \<and> k \<in> dom (map_of d)) then lru_store n k (s, es) d else d)"
| "lru_step wo n w m Clear d = []"

definition contents :: "'k cache \<Rightarrow> ('k \<times> ustr \<times> fluent_error list) list" where
  "contents c = map (map_prod id as_result) (c_store c)"

fun genuine :: "digest \<Rightarrow> 'k cache_op \<Rightarrow> bool" where
  "genuine H (Put mid key s es) = verified H es"
| "genuine H _ = True"

fun is_lookup :: "'k cache_op \<Rightarrow> bool" where
  "is_lookup (Get mid key) = (key \<noteq> None)"
| "is_lookup _ = False"

lemma contents_get: "map_of (contents c) k = map_option as_result (od_get (c_store c) k)"
  by (simp add: contents_def lru_map od_get_def)

lemma get_counts:
  assumes "cache_inv H K c"
  shows "c_hits (fst (cache_get H K clk mid key c)) + c_misses (fst (cache_get H K clk mid key c)) =
    c_hits c + c_misses c + of_bool (key \<noteq> None)"
  using assms
  by (cases key; cases "od_get (c_store c) (the key)"; simp add: get_results cache_frame)

definition step_ok :: "digest \<Rightarrow> ('k \<Rightarrow> ustr) \<Rightarrow> 'k cache_op \<Rightarrow> 'k cache \<Rightarrow> 'k cache \<Rightarrow> bool" where
  "step_ok H K op c c' \<longleftrightarrow>
     cache_inv H K c' \<and> same_bounds c c' \<and> c_sequence c' \<le> Suc (c_sequence c) \<and>
     contents c' =
       lru_step (c_write_once c) (c_maxsize c) (c_max_entry_weight c) (c_max_errors c) op (contents c) \<and>
     c_hits c' + c_misses c' = c_hits c + c_misses c + of_bool (is_lookup op)"

lemma put_step:
  assumes inv: "cache_inv H K c" and enc: "encodable c" "c_sequence c < 2 ^ 64 - 1" and ver: "verified H es"
  shows "step_ok H K (Put mid key s es) c (fst (cache_put H K clk mid key s es c))"
proof (cases "admitted (c_max_entry_weight c) (c_max_errors c) s es")
  case False
  then have "c_max_entry_weight c < length s \<or> c_max_errors c < length es \<or> c_max_entry_weight c < entry_weight s es"
    by (auto simp: admitted_def)
  from put_skipped [OF this, of H K clk mid key] inv False show ?thesis
    by (auto simp: step_ok_def contents_def split: option.split)
next
  case adm: True
  then have put: "cache_put H K clk mid key s es c =
      (case key of
         None \<Rightarrow> (c\<lparr>c_unhashable := c_unhashable c + 1\<rparr>, Inr ())
       | Some k \<Rightarrow>
           (case (if c_write_once c then od_get (c_store c) k else None) of
              Some old \<Rightarrow> put_existing H K clk mid k s es old c
            | None \<Rightarrow> put_new H K clk k s es c))"
    by (simp add: cache_put_def admitted_def)
  show ?thesis
  proof (cases key)
    case None
    with put inv show ?thesis by (simp add: step_ok_def same_bounds_def contents_def)
  next
    case key: (Some k)
    show ?thesis
    proof (cases "if c_write_once c then od_get (c_store c) k else None")
      case None
      then have new: "\<not> (c_write_once c \<and> k \<in> dom (map_of (contents c)))"
        by (auto simp: contents_get dom_def split: if_splits)
      obtain c' e where c': "put_new H K clk k s es c = (c', Inr ())" "cache_inv H K c'" "same_bounds c c'"
          "c_sequence c' = Suc (c_sequence c)" "c_store c' = put_into (c_maxsize c) k e (c_store c)"
          "as_result e = (s, es)" "c_hits c' = c_hits c" "c_misses c' = c_misses c"
        using put_new_inv [OF inv enc adm ver, where clk = clk and k = k] by blast
      have "put_into (c_maxsize c) k e (c_store c) = lru_store (c_maxsize c) k e (c_store c)"
        using inv by (intro put_into_lru) (simp_all add: cache_inv_def)
      then have "contents c' = lru_store (c_maxsize c) k (s, es) (contents c)"
        using c'(5,6) by (simp add: contents_def lru_map)
      with c' key None adm new put show ?thesis by (simp add: step_ok_def)
    next
      case (Some old)
      then have "c_write_once c" "k \<in> dom (map_of (contents c))"
        by (auto simp: contents_get dom_def split: if_splits)
      with Some key put put_existing_effect [OF inv, of clk mid k s es old] show ?thesis
        by (simp add: step_ok_def contents_def Let_def)
    qed
  qed
qed

lemma step_refines:
  assumes inv: "cache_inv H K c" and "encodable c" "c_sequence c < 2 ^ 64 - 1" and "genuine H op"
  shows "step_ok H K op c (cache_step H K clk op c)"
proof (cases op)
  case (Get mid key)
  then show ?thesis
    using inv get_inv [OF inv] get_bounds [OF inv] get_store [OF inv] get_counts [OF inv]
    by (auto simp: step_ok_def contents_def lru_map split: option.split)
next
  case (Put mid key s es)
  then show ?thesis using assms put_step by simp
next
  case Clear
  then show ?thesis using inv
    by (auto simp: step_ok_def cache_clear_def contents_def same_bounds_def cache_inv_def od_valid_def od_keys_def od_get_def)
qed

lemma run_refines:
  assumes "cache_inv H K c" "encodable c" "c_sequence c + length ops < 2 ^ 64" "list_all (genuine H) ops"
  shows "cache_inv H K (cache_run H K clk ops c) \<and> same_bounds c (cache_run H K clk ops c) \<and>
    c_sequence (cache_run H K clk ops c) \<le> c_sequence c + length ops \<and>
    contents (cache_run H K clk ops c) =
      fold (lru_step (c_write_once c) (c_maxsize c) (c_max_entry_weight c) (c_max_errors c)) ops (contents c) \<and>
    c_hits (cache_run H K clk ops c) + c_misses (cache_run H K clk ops c) =
      c_hits c + c_misses c + length (filter is_lookup ops)"
  using assms
proof (induction ops arbitrary: c)
  case Nil
  then show ?case by (simp add: cache_run_def)
next
  case (Cons op ops)
  let ?c = "cache_step H K clk op c"
  have ok: "step_ok H K op c ?c" using Cons.prems by (intro step_refines) simp_all
  then have c: "cache_inv H K ?c" "same_bounds c ?c" "c_sequence ?c \<le> Suc (c_sequence c)"
    by (simp_all add: step_ok_def)
  have "encodable ?c" using c(2) Cons.prems(2) by (simp add: encodable_def same_bounds_def)
  with Cons.IH [OF c(1)] Cons.prems c ok show ?case
    by (auto simp: cache_run_def step_ok_def same_bounds_def)
qed

lemmas run_facts = run_refines [THEN conjunct1] run_refines [THEN conjunct2, THEN conjunct1]

lemma fresh_run:
  assumes "mk_cache n w m wo st aud maxaud = Inr c" "w < 2 ^ 30" "m < 2 ^ 32"
    "length ops < 2 ^ 64" "list_all (genuine H) ops"
  shows "cache_inv H K (cache_run H K clk ops c)" "same_bounds c (cache_run H K clk ops c)"
    "contents (cache_run H K clk ops c) = fold (lru_step wo (nat n) (nat w) (nat m)) ops []"
    "c_hits (cache_run H K clk ops c) + c_misses (cache_run H K clk ops c) = length (filter is_lookup ops)"
    "encodable (cache_run H K clk ops c)" "c_sequence (cache_run H K clk ops c) \<le> length ops"
proof -
  note mk = mk_cache_inv [OF assms(1)]
  have "nat w < 2 ^ 30" "nat m < 2 ^ 32" using assms(2,3) by simp_all
  then have "encodable c" by (simp add: encodable_def mk)
  moreover have "c_sequence c + length ops < 2 ^ 64" using assms(4) mk by simp
  ultimately have r: "cache_inv H K (cache_run H K clk ops c) \<and> same_bounds c (cache_run H K clk ops c) \<and>
    c_sequence (cache_run H K clk ops c) \<le> c_sequence c + length ops \<and>
    contents (cache_run H K clk ops c) =
      fold (lru_step (c_write_once c) (c_maxsize c) (c_max_entry_weight c) (c_max_errors c)) ops (contents c) \<and>
    c_hits (cache_run H K clk ops c) + c_misses (cache_run H K clk ops c) =
      c_hits c + c_misses c + length (filter is_lookup ops)"
    using run_refines [OF mk(1)] assms(5) by blast
  then show "cache_inv H K (cache_run H K clk ops c)" "same_bounds c (cache_run H K clk ops c)"
    "c_sequence (cache_run H K clk ops c) \<le> length ops" using mk by simp_all
  from r show "contents (cache_run H K clk ops c) = fold (lru_step wo (nat n) (nat w) (nat m)) ops []"
    "c_hits (cache_run H K clk ops c) + c_misses (cache_run H K clk ops c) = length (filter is_lookup ops)"
    using mk by (simp_all add: contents_def)
  show "encodable (cache_run H K clk ops c)"
    using r \<open>encodable c\<close> by (simp add: encodable_def same_bounds_def)
qed

end
