(* ===== verification/Cache_Theorems.thy ===== *)
theory Cache_Theorems
  imports Cache_Properties
begin

text \<open>
  What the format cache guarantees, over whole histories of operations and, where the cache
  is meant to resist tampering, for every state of the store.
\<close>

text \<open>A stored binding is the last one, and survives the eviction.\<close>

lemma lookup_lru_store:
  assumes "0 < n"
  shows "map_of (lru_store n k v d) k = Some v"
proof -
  have "\<exists>j. lru_store n k v d = drop j (filter (\<lambda>x. fst x \<noteq> k) d) @ [(k, v)]"
    using assms by (auto simp: lru_store_def Let_def)
  moreover have "map_of (drop j (filter (\<lambda>x. fst x \<noteq> k) d)) k = None" for j
    by (auto simp: map_of_eq_None_iff dest!: in_set_dropD)
  ultimately show ?thesis by (auto simp: map_add_def)
qed

lemma spec_lookup:
  assumes "cache_inv H K c"
  shows "case snd (cache_get H K clk mid (Some k) c) of
    Inl _ \<Rightarrow> False | Inr r \<Rightarrow> map_option as_result r = map_of (contents c) k"
  using assms by (cases "od_get (c_store c) k") (simp_all add: get_results contents_get)

lemma run_spec:
  assumes "mk_cache n w m wo st aud maxaud = Inr c" "w < 2 ^ 30" "m < 2 ^ 32"
    and "length ops < 2 ^ 64" "list_all (genuine H) ops"
  shows "contents (cache_run H K clk ops c) = fold (lru_step wo (nat n) (nat w) (nat m)) ops [] \<and>
    (case snd (cache_get H K clk mid (Some k) (cache_run H K clk ops c)) of
       Inl _ \<Rightarrow> False
     | Inr r \<Rightarrow> map_option as_result r = map_of (fold (lru_step wo (nat n) (nat w) (nat m)) ops []) k)"
  using fresh_run(3) [OF assms, where K = K and clk = clk] spec_lookup [OF fresh_run(1) [OF assms, where K = K and clk = clk], where clk = clk and mid = mid and k = k]
  by (simp split: sum.splits)

text \<open>C33: the format cache refines the least-recently-used dictionary of its bounds.\<close>

theorem cache_refines_lru:
  assumes "mk_cache n w m wo st aud maxaud = Inr c" "w < 2 ^ 30" "m < 2 ^ 32"
    and "length ops < 2 ^ 64" "list_all (genuine H) ops"
  shows "contents (cache_run H K clk ops c) = fold (lru_step wo (nat n) (nat w) (nat m)) ops [] \<and>
    (case snd (cache_get H K clk mid (Some k) (cache_run H K clk ops c)) of
       Inl _ \<Rightarrow> False
     | Inr r \<Rightarrow> map_option as_result r = map_of (fold (lru_step wo (nat n) (nat w) (nat m)) ops []) k)"
  using assms by (rule run_spec)

definition demo_hash :: digest where
  "demo_hash n b = take n b"

definition demo_str :: "nat \<Rightarrow> ustr" where
  "demo_str k = [k]"

definition demo_clock :: clock where
  "demo_clock n = big_endian 8 n"

definition small_cache :: "bool \<Rightarrow> nat cache" where
  "small_cache wo = (case mk_cache 2 100 5 wo True True 10 of Inr c \<Rightarrow> c | Inl _ \<Rightarrow> undefined)"

lemma small_cache: "mk_cache 2 100 5 wo True True 10 = Inr (small_cache wo)"
  by (simp add: small_cache_def mk_cache_def)

definition small_history :: "nat cache_op list" where
  "small_history = [Put [109] (Some 1) [65] [], Put [110] (Some 2) [66] [], Get [109] (Some 1), Put [111] (Some 3) [67] []]"

lemma small_history: "length small_history < 2 ^ 64" "list_all (genuine H) small_history"
  by (simp_all add: small_history_def verified_def)

lemma small_lru:
  "fold (lru_step False 2 100 5) small_history [] = [(1, [65], []), (3, [67], [])]"
  by (simp add: small_history_def admitted_def entry_weight_def lru_store_def lru_touch_def)

theorem cache_refines_lru_witness:
  "contents (cache_run demo_hash demo_str demo_clock small_history (small_cache False)) = [(1, [65], []), (3, [67], [])]"
  using cache_refines_lru [OF small_cache _ _ small_history] small_lru by simp

text \<open>C34: the bounds hold in every reachable state, every stored entry verifies and is bound to
  its key, and every lookup is counted as a hit or a miss, none as a corruption.\<close>

theorem cache_invariant:
  assumes "mk_cache n w m wo st aud maxaud = Inr c" "w < 2 ^ 30" "m < 2 ^ 32"
    and "length ops < 2 ^ 64" "list_all (genuine H) ops"
  shows "cache_size (cache_run H K clk ops c) \<le> nat n \<and>
    length (get_audit_log (cache_run H K clk ops c)) \<le> nat (c_max_audit (cache_run H K clk ops c)) \<and>
    list_all (\<lambda>(k, e). entry_verify H e = Inr True \<and> ce_key_hash e = compute_key_hash H K k)
      (c_store (cache_run H K clk ops c)) \<and>
    c_corruption (cache_run H K clk ops c) = 0 \<and>
    c_hits (cache_run H K clk ops c) + c_misses (cache_run H K clk ops c) = length (filter is_lookup ops)"
proof -
  let ?c = "cache_run H K clk ops c"
  note r = fresh_run [OF assms, where K = K and clk = clk]
  have inv: "od_valid (c_store ?c)" "length (c_store ?c) \<le> c_maxsize ?c" "log_bounded ?c" "c_corruption ?c = 0"
      "\<And>k e. od_get (c_store ?c) k = Some e \<Longrightarrow> entry_ok H K (c_sequence ?c) k e"
    using r(1) by (simp_all add: cache_inv_def)
  have "entry_ok H K (c_sequence ?c) k e" if "(k, e) \<in> set (c_store ?c)" for k e
    using that inv(1,5) by (simp add: od_get_def od_valid_def od_keys_def)
  then have "list_all (\<lambda>(k, e). entry_verify H e = Inr True \<and> ce_key_hash e = compute_key_hash H K k) (c_store ?c)"
    by (auto simp: list_all_iff entry_ok_def)
  moreover have "c_maxsize ?c = nat n" using r(2) mk_cache_inv(4) [OF assms(1)] by (simp add: same_bounds_def)
  ultimately show ?thesis using inv(2,3,4) r(4) by (simp add: cache_size_def log_bounded_def)
qed

theorem cache_invariant_witness:
  "cache_size (cache_run demo_hash demo_str demo_clock small_history (small_cache False)) \<le> 2 \<and>
   c_hits (cache_run demo_hash demo_str demo_clock small_history (small_cache False)) +
     c_misses (cache_run demo_hash demo_str demo_clock small_history (small_cache False)) = 1"
  using cache_invariant [OF small_cache _ _ small_history] by (simp add: small_history_def)

text \<open>What was put is what a lookup returns, whatever came before.\<close>

theorem put_then_get:
  assumes "mk_cache n w m False st aud maxaud = Inr c" "w < 2 ^ 30" "m < 2 ^ 32"
    and "length ops < 2 ^ 64 - 1" "list_all (genuine H) ops"
    and "admitted (nat w) (nat m) s es" "verified H es"
  shows "case snd (cache_get H K clk mid (Some k)
      (fst (cache_put H K clk mid' (Some k) s es (cache_run H K clk ops c)))) of
    Inl _ \<Rightarrow> False | Inr r \<Rightarrow> map_option as_result r = Some (s, es)"
proof -
  let ?ops = "ops @ [Put mid' (Some k) s es]"
  have run: "cache_run H K clk ?ops c = fst (cache_put H K clk mid' (Some k) s es (cache_run H K clk ops c))"
    by (simp add: cache_run_def)
  have ops: "length ?ops < 2 ^ 64" "list_all (genuine H) ?ops" using assms(4,5,7) by simp_all
  have "0 < nat n" using assms(1) by (auto simp: mk_cache_def split: if_splits)
  then have "map_of (contents (cache_run H K clk ?ops c)) k = Some (s, es)"
    using fresh_run(3) [OF assms(1,2,3) ops, where K = K and clk = clk] assms(6) by (simp add: lookup_lru_store)
  then show ?thesis using spec_lookup [OF fresh_run(1) [OF assms(1,2,3) ops, where K = K and clk = clk], where clk = clk and mid = mid and k = k]
    by (simp add: run split: sum.splits)
qed

theorem put_then_get_witness:
  "case snd (cache_get demo_hash demo_str demo_clock [109] (Some 7)
      (fst (cache_put demo_hash demo_str demo_clock [109] (Some 7) [72, 105] [] (cache_run demo_hash demo_str demo_clock small_history (small_cache False))))) of
    Inl _ \<Rightarrow> False | Inr r \<Rightarrow> map_option as_result r = Some ([72, 105], [])"
  by (rule put_then_get [OF small_cache]) (simp_all add: small_history small_history_def admitted_def entry_weight_def verified_def)

lemma lookup_lru_touch: "map_of (lru_touch k' d) k = map_of d k"
  using od_get_move [of k' d k] by (simp add: od_move_lru od_get_def)

lemma lookup_lru_store_other:
  assumes "map_of d k = Some v" "k' \<noteq> k" "distinct (map fst d)"
  shows "pred_option (\<lambda>v'. v' = v) (map_of (lru_store i k' v0 d) k)"
proof (cases "map_of (lru_store i k' v0 d) k")
  case (Some v')
  then have "(k, v') \<in> set (lru_store i k' v0 d)" by (rule map_of_SomeD)
  then have "(k, v') \<in> set (filter (\<lambda>x. fst x \<noteq> k') d @ [(k', v0)])"
    unfolding lru_store_def Let_def by (rule in_set_dropD)
  with assms(2) have "(k, v') \<in> set d" by auto
  with assms(1,3) Some show ?thesis by (auto dest: map_of_is_SomeI)
qed simp

text \<open>In a write-once cache a binding is not changed by any lookup or write: it is there with
  the same content, or it was evicted.\<close>

theorem write_once_immutable:
  assumes "mk_cache n w m True st aud maxaud = Inr c" "w < 2 ^ 30" "m < 2 ^ 32"
    and "length ops < 2 ^ 64 - 1" "list_all (genuine H) ops"
    and "map_of (contents (cache_run H K clk ops c)) k = Some v" "op \<noteq> Clear" "genuine H op"
  shows "pred_option (\<lambda>v'. v' = v) (map_of (contents (cache_step H K clk op (cache_run H K clk ops c))) k)"
proof -
  let ?c = "cache_run H K clk ops c"
  have ops: "length ops < 2 ^ 64" using assms(4) by simp
  note r = fresh_run [OF assms(1,2,3) ops assms(5), where K = K and clk = clk]
  have wo: "c_write_once ?c" using r(2) mk_cache_inv(7) [OF assms(1)] by (simp add: same_bounds_def)
  have "c_sequence ?c < 2 ^ 64 - 1" using r(6) assms(4) by linarith
  from step_refines [OF r(1,5) this assms(8), of clk]
  have "contents (cache_step H K clk op ?c) =
      lru_step True (c_maxsize ?c) (c_max_entry_weight ?c) (c_max_errors ?c) op (contents ?c)"
    using wo by (simp add: step_ok_def)
  moreover have "distinct (map fst (contents ?c))"
    using r(1) by (simp add: contents_def cache_inv_def od_valid_def od_keys_def comp_def)
  moreover have "0 < c_maxsize ?c" using r(1) by (simp add: cache_inv_def)
  ultimately show ?thesis
    using assms(6,7) by (cases op) (auto simp: lookup_lru_touch split: option.split intro!: lookup_lru_store_other)
qed

theorem write_once_immutable_witness:
  "pred_option (\<lambda>v'. v' = ([65], []))
     (map_of (contents (cache_step demo_hash demo_str demo_clock (Put [120] (Some 1) [90] [])
       (cache_run demo_hash demo_str demo_clock [Put [109] (Some 1) [65] []] (small_cache True)))) 1)"
proof -
  let ?ops = "[Put [109] (Some 1) [65] []] :: nat cache_op list"
  have ops: "length ?ops < 2 ^ 64" "length ?ops < 2 ^ 64 - 1" "list_all (genuine demo_hash) ?ops"
    by (simp_all add: verified_def)
  have "contents (cache_run demo_hash demo_str demo_clock ?ops (small_cache True)) = [(1, [65], [])]"
    using run_spec [OF small_cache [of True] _ _ ops(1,3), where K = demo_str and clk = demo_clock and k = 1 and mid = "[]"]
    by (simp add: admitted_def entry_weight_def lru_store_def)
  then show ?thesis
    by (intro write_once_immutable [OF small_cache _ _ ops(2,3)]) (simp_all add: verified_def)
qed

text \<open>A strict write-once cache refuses another content for a key that is cached: the write
  raises, names both sequence numbers, and changes neither the store nor the sequence.\<close>

theorem write_conflict_raises:
  assumes "c_write_once c" "c_strict c" "od_get (c_store c) k = Some old"
    and "admitted (c_max_entry_weight c) (c_max_errors c) s es"
    and "compute_content_hash H s es = Inr h" "h \<noteq> ce_content_hash old"
  shows "\<exists>message ctx.
    snd (cache_put H K clk mid (Some k) s es c) =
      Inl (WriteConflictError message ctx (ce_sequence old) (c_sequence c + 1)) \<and>
    c_store (fst (cache_put H K clk mid (Some k) s es c)) = c_store c \<and>
    c_sequence (fst (cache_put H K clk mid (Some k) s es c)) = c_sequence c"
  using assms
  by (auto simp: cache_put_def admitted_def put_existing_def integrity_error_context_def read_clock_def Let_def
      cache_frame)

definition demo_entry :: cache_entry where
  "demo_entry = \<lparr>ce_formatted = [65], ce_errors = [], ce_checksum = [], ce_created_at = [], ce_sequence = 1,
     ce_key_hash = [1], ce_content_hash = [0, 0, 0, 1, 65, 0, 0, 0, 0]\<rparr>"

lemma demo_content_hash:
  "ch < 128 \<Longrightarrow> compute_content_hash demo_hash [ch] [] = Inr [0, 0, 0, 1, ch, 0, 0, 0, 0]"
  by (simp add: compute_content_hash_def content_bytes_def feed_errors_def frame_ascii to_bytes_def
      big_endian_small demo_hash_def)

theorem write_conflict_raises_witness:
  "\<exists>message ctx.
    snd (cache_put demo_hash demo_str demo_clock [109] (Some 1) [66] []
      ((small_cache True)\<lparr>c_store := [(1, demo_entry)]\<rparr>)) = Inl (WriteConflictError message ctx 1 1)"
proof -
  let ?c = "(small_cache True)\<lparr>c_store := [(1, demo_entry)]\<rparr>"
  have "c_write_once ?c" "c_strict ?c" "od_get (c_store ?c) 1 = Some demo_entry"
    "admitted (c_max_entry_weight ?c) (c_max_errors ?c) [66] []"
    "compute_content_hash demo_hash [66] [] = Inr [0, 0, 0, 1, 66, 0, 0, 0, 0]"
    "[0, 0, 0, 1, 66, 0, 0, 0, 0] \<noteq> ce_content_hash demo_entry"
    by (simp_all add: small_cache_def mk_cache_def od_get_def admitted_def entry_weight_def demo_content_hash
        demo_entry_def)
  from write_conflict_raises [OF this, of demo_str demo_clock "[109]"] show ?thesis
    by (auto simp: demo_entry_def small_cache_def mk_cache_def)
qed

text \<open>An entry that a lookup returns verifies and is bound to the key, whatever happened to
  the store; it is then the most recently used one.\<close>

theorem get_returns_checked:
  assumes "cache_get H K clk mid (Some k) c = (c', Inr (Some e))"
  shows "entry_verify H e = Inr True \<and> ce_key_hash e = compute_key_hash H K k \<and>
    od_get (c_store c) k = Some e \<and> c_store c' = od_move_to_end k (c_store c) \<and> c_hits c' = c_hits c + 1"
  using assms
  by (auto simp: cache_get_def reject_entry_def Let_def cache_frame split: option.splits sum.splits bool.splits
      if_splits prod.splits)

theorem get_returns_checked_witness:
  "\<exists>e. entry_verify demo_hash e = Inr True \<and> as_result e = ([65], [])"
proof -
  let ?ops = "[Put [109] (Some 1) [65] []] :: nat cache_op list"
  let ?c = "cache_run demo_hash demo_str demo_clock ?ops (small_cache False)"
  have ops: "length ?ops < 2 ^ 64" "list_all (genuine demo_hash) ?ops" by (simp_all add: verified_def)
  have "case snd (cache_get demo_hash demo_str demo_clock [109] (Some 1) ?c) of
      Inl _ \<Rightarrow> False | Inr r \<Rightarrow> map_option as_result r = Some ([65], [])"
    using run_spec [OF small_cache [of False] _ _ ops, where K = demo_str and clk = demo_clock
        and k = 1 and mid = "[109]"]
    by (simp add: admitted_def entry_weight_def lru_store_def split: sum.splits)
  then obtain c' e where
    "cache_get demo_hash demo_str demo_clock [109] (Some 1) ?c = (c', Inr (Some e))" "as_result e = ([65], [])"
    by (cases "cache_get demo_hash demo_str demo_clock [109] (Some 1) ?c") (auto split: sum.splits)
  with get_returns_checked [OF this(1)] show ?thesis by blast
qed

text \<open>C36: an entry whose text, errors, time or sequence do not give its checksum, or that was moved
  to another key, is never returned: a strict cache raises and keeps the store as it is, a
  lenient one drops the entry, and both count a corruption.\<close>

theorem tampering_detected:
  assumes "od_get (c_store c) k = Some e" "od_valid (c_store c)"
    and "entry_verify H e = Inr False \<or> entry_verify H e = Inr True \<and> ce_key_hash e \<noteq> compute_key_hash H K k"
  shows "c_corruption (fst (cache_get H K clk mid (Some k) c)) = c_corruption c + 1 \<and>
    (if c_strict c
     then (\<exists>message ctx. snd (cache_get H K clk mid (Some k) c) = Inl (CacheCorruptionError message ctx)) \<and>
       c_store (fst (cache_get H K clk mid (Some k) c)) = c_store c
     else snd (cache_get H K clk mid (Some k) c) = Inr None \<and>
       od_get (c_store (fst (cache_get H K clk mid (Some k) c))) k = None)"
  using assms
  by (auto simp: cache_get_def reject_entry_def integrity_error_context_def read_clock_def Let_def cache_frame
      od_get_del)

theorem tampering_detected_witness:
  "snd (cache_get demo_hash demo_str demo_clock [109] (Some 1)
     ((small_cache False)\<lparr>c_strict := False, c_store := [(1, demo_entry\<lparr>ce_formatted := [66]\<rparr>)]\<rparr>)) = Inr None"
proof -
  let ?e = "demo_entry\<lparr>ce_formatted := [66]\<rparr>"
  let ?c = "(small_cache False)\<lparr>c_strict := False, c_store := [(1, ?e)]\<rparr>"
  have "od_get (c_store ?c) 1 = Some ?e" "od_valid (c_store ?c)" by (simp_all add: od_get_def od_valid_def od_keys_def)
  moreover have "entry_verify demo_hash ?e = Inr False"
    by (simp add: entry_verify_def demo_content_hash demo_entry_def)
  ultimately show ?thesis
    using tampering_detected [of ?c 1 ?e demo_hash demo_str demo_clock "[109]"] by simp
qed

text \<open>The bytes that a content hash digests determine the text and the hashes of the errors,
  so two contents share a hash input only when they agree on both.\<close>

theorem content_framing_injective:
  assumes "content_bytes s es = Inr b" "content_bytes s' es' = Inr b"
    and "list_all (\<lambda>e. length (fe_content_hash e) = 16) es" "list_all (\<lambda>e. length (fe_content_hash e) = 16) es'"
  shows "s = s' \<and> map fe_content_hash es = map fe_content_hash es'"
  using assms by (rule content_bytes_inj)

theorem content_framing_injective_witness:
  "content_bytes [65] [] = content_bytes [65] [] \<and> [65::nat] = [65]"
proof -
  have "content_bytes [65] [] = Inr [0, 0, 0, 1, 65, 0, 0, 0, 0]"
    by (simp add: content_bytes_def feed_errors_def frame_ascii to_bytes_def big_endian_small)
  from content_framing_injective [OF this this] show ?thesis by simp
qed

end
