(* ===== verification/Diagnostic_Templates.thy ===== *)
theory Diagnostic_Templates
  imports Resolution_Context
begin

text \<open>
  \<open>diagnostics/template_reference.py\<close>, \<open>template_runtime.py\<close>, \<open>template_parsing.py\<close> and
  \<open>template_shared.py\<close>: one function per error template, and the \<open>FrozenFluentError\<close> of each
  error of the resolver.
\<close>

section \<open>Diagnostics\<close>

abbreviation CH_APOSTROPHE :: uchar where "CH_APOSTROPHE \<equiv> 39"

text \<open>\<open>str(n)\<close> of a number of few digits.\<close>

definition int_text :: "int \<Rightarrow> ustr" where
  "int_text i = (if i < 0 then CH_MINUS # dec_digits (nat (- i)) else dec_digits (nat i))"

definition docs_url :: "ustr \<Rightarrow> ustr" where
  "docs_url path = u ''https://projectfluent.org/fluent/guide/'' @ path"

text \<open>\<open>Diagnostic(code=..., message=..., hint=...)\<close> with the defaults of the other fields.\<close>

definition mk_diagnostic :: "string \<Rightarrow> ustr \<Rightarrow> ustr option \<Rightarrow> diagnostic" where
  "mk_diagnostic code message hint =
     \<lparr>diag_code = u code, diag_message = message, diag_span = None, diag_hint = hint, diag_help_url = None,
      diag_function_name = None, diag_argument_name = None, diag_expected_type = None,
      diag_received_type = None, diag_ftl_location = None, diag_severity = u ''error'',
      diag_resolution_path = None\<rparr>"

section \<open>Lookup, reference and traversal failures\<close>

definition message_not_found :: "ustr \<Rightarrow> diagnostic" where
  "message_not_found message_id =
     (mk_diagnostic ''MESSAGE_NOT_FOUND''
       (u ''Message '' @ [CH_APOSTROPHE] @ message_id @ [CH_APOSTROPHE] @ u '' not found'')
       (Some (u ''Check that the message is defined in the loaded resources'')))
     \<lparr>diag_help_url := Some (docs_url (u ''messages.html''))\<rparr>"

definition attribute_not_found :: "ustr \<Rightarrow> ustr \<Rightarrow> diagnostic" where
  "attribute_not_found attribute message_id =
     (mk_diagnostic ''ATTRIBUTE_NOT_FOUND''
       (u ''Attribute '' @ [CH_APOSTROPHE] @ attribute @ [CH_APOSTROPHE] @
        u '' not found in message '' @ [CH_APOSTROPHE] @ message_id @ [CH_APOSTROPHE])
       (Some (u ''Check that message '' @ [CH_APOSTROPHE] @ message_id @ [CH_APOSTROPHE] @
         u '' has an attribute '' @ [CH_APOSTROPHE] @ u ''.'' @ attribute @ [CH_APOSTROPHE])))
     \<lparr>diag_help_url := Some (docs_url (u ''attributes.html''))\<rparr>"

definition term_not_found :: "ustr \<Rightarrow> diagnostic" where
  "term_not_found term_id =
     (mk_diagnostic ''TERM_NOT_FOUND''
       (u ''Term '' @ [CH_APOSTROPHE] @ u ''-'' @ term_id @ [CH_APOSTROPHE] @ u '' not found'')
       (Some (u ''Terms must be defined before they are referenced'')))
     \<lparr>diag_help_url := Some (docs_url (u ''terms.html''))\<rparr>"

definition term_attribute_not_found :: "ustr \<Rightarrow> ustr \<Rightarrow> diagnostic" where
  "term_attribute_not_found attribute term_id =
     (mk_diagnostic ''TERM_ATTRIBUTE_NOT_FOUND''
       (u ''Attribute '' @ [CH_APOSTROPHE] @ attribute @ [CH_APOSTROPHE] @ u '' not found in term '' @
        [CH_APOSTROPHE] @ u ''-'' @ term_id @ [CH_APOSTROPHE])
       (Some (u ''Check that term '' @ [CH_APOSTROPHE] @ u ''-'' @ term_id @ [CH_APOSTROPHE] @
         u '' has an attribute '' @ [CH_APOSTROPHE] @ u ''.'' @ attribute @ [CH_APOSTROPHE])))
     \<lparr>diag_help_url := Some (docs_url (u ''terms.html''))\<rparr>"

definition term_positional_args_ignored :: "ustr \<Rightarrow> nat \<Rightarrow> diagnostic" where
  "term_positional_args_ignored term_name count =
     (mk_diagnostic ''TERM_POSITIONAL_ARGS_IGNORED''
       (u ''Term '' @ [CH_APOSTROPHE] @ u ''-'' @ term_name @ [CH_APOSTROPHE] @
        u '' does not accept positional arguments (got '' @ int_text (int count) @
        u ''). Use named arguments: -term(key: value)'')
       (Some (u ''Remove the '' @ int_text (int count) @ u '' positional '' @
         (if count = 1 then u ''argument'' else u ''arguments'') @
         u '' and use named arguments instead'')))
     \<lparr>diag_help_url := Some (docs_url (u ''terms.html''))\<rparr>"

definition plural_support_unavailable :: "diagnostic" where
  "plural_support_unavailable =
     (mk_diagnostic ''PLURAL_SUPPORT_UNAVAILABLE''
       (u ''Plural variant matching unavailable (Babel not installed). Install with: pip install ftllexengine[babel]'')
       (Some (u ''Install Babel for CLDR-based plural category matching'')))
     \<lparr>diag_help_url := Some (docs_url (u ''selectors.html''))\<rparr>"

definition variable_not_provided :: "ustr \<Rightarrow> ustr list option \<Rightarrow> diagnostic" where
  "variable_not_provided variable_name resolution_path =
     (mk_diagnostic ''VARIABLE_NOT_PROVIDED''
       (u ''Variable '' @ [CH_APOSTROPHE] @ u ''$'' @ variable_name @ [CH_APOSTROPHE] @
        u '' not provided'')
       (Some (u ''Pass '' @ [CH_APOSTROPHE] @ variable_name @ [CH_APOSTROPHE] @
         u '' in the arguments dictionary'')))
     \<lparr>diag_help_url := Some (docs_url (u ''variables.html'')), diag_resolution_path := resolution_path\<rparr>"

definition message_no_value :: "ustr \<Rightarrow> diagnostic" where
  "message_no_value message_id =
     (mk_diagnostic ''MESSAGE_NO_VALUE''
       (u ''Message '' @ [CH_APOSTROPHE] @ message_id @ [CH_APOSTROPHE] @ u '' has no value'')
       (Some (u ''Message has only attributes; specify which attribute to format'')))
     \<lparr>diag_help_url := Some (docs_url (u ''messages.html''))\<rparr>"

definition cyclic_reference :: "ustr list \<Rightarrow> diagnostic" where
  "cyclic_reference resolution_path =
     (mk_diagnostic ''CYCLIC_REFERENCE''
       (u ''Circular reference detected: '' @ str_join (u '' -> '') resolution_path)
       (Some (u ''Break the circular dependency by removing one of the references'')))
     \<lparr>diag_help_url := Some (docs_url (u ''references.html''))\<rparr>"

definition max_depth_exceeded :: "ustr \<Rightarrow> int \<Rightarrow> diagnostic" where
  "max_depth_exceeded message_id max_depth =
     (mk_diagnostic ''MAX_DEPTH_EXCEEDED''
       (u ''Maximum resolution depth ('' @ int_text max_depth @ u '') exceeded while resolving '' @
        [CH_APOSTROPHE] @ message_id @ [CH_APOSTROPHE])
       (Some (u ''Reduce message reference chain depth or refactor to avoid deep nesting'')))
     \<lparr>diag_help_url := Some (docs_url (u ''references.html''))\<rparr>"

definition depth_exceeded :: "int \<Rightarrow> diagnostic" where
  "depth_exceeded max_depth =
     (mk_diagnostic ''MAX_DEPTH_EXCEEDED''
       (u ''Maximum nesting depth ('' @ int_text max_depth @ u '') exceeded'')
       (Some (u ''Reduce nesting depth or check for malformed AST construction'')))
     \<lparr>diag_help_url := Some (docs_url (u ''references.html''))\<rparr>"

definition expansion_budget_exceeded :: "int \<Rightarrow> int \<Rightarrow> diagnostic" where
  "expansion_budget_exceeded total_chars max_chars =
     (mk_diagnostic ''EXPANSION_BUDGET_EXCEEDED''
       (u ''Expansion budget exceeded: '' @ int_text total_chars @ u '' characters produced (limit: '' @
        int_text max_chars @ u '')'')
       (Some (u ''Check for exponentially expanding message references (Billion Laughs pattern)'')))
     \<lparr>diag_help_url := Some (docs_url (u ''references.html''))\<rparr>"

definition no_variants :: "diagnostic" where
  "no_variants =
     (mk_diagnostic ''NO_VARIANTS''
       (u ''No variants in select expression'')
       (Some (u ''Select expressions must have at least one variant'')))
     \<lparr>diag_help_url := Some (docs_url (u ''selectors.html''))\<rparr>"

section \<open>Function failures\<close>

definition function_not_found :: "ustr \<Rightarrow> diagnostic" where
  "function_not_found function_name =
     (mk_diagnostic ''FUNCTION_NOT_FOUND''
       (u ''Function '' @ [CH_APOSTROPHE] @ function_name @ [CH_APOSTROPHE] @ u '' not found'')
       (Some (u ''Built-in functions: NUMBER, DATETIME, CURRENCY. Check spelling.'')))
     \<lparr>diag_help_url := Some (docs_url (u ''functions.html''))\<rparr>"

definition function_failed :: "ustr \<Rightarrow> ustr \<Rightarrow> diagnostic" where
  "function_failed function_name error_msg =
     (mk_diagnostic ''FUNCTION_FAILED''
       (u ''Function '' @ [CH_APOSTROPHE] @ function_name @ [CH_APOSTROPHE] @ u '' failed: '' @
        error_msg)
       (Some (u ''Check the function arguments and their types'')))
     \<lparr>diag_help_url := Some (docs_url (u ''functions.html'')), diag_function_name := Some function_name\<rparr>"

definition formatting_failed :: "ustr \<Rightarrow> ustr \<Rightarrow> ustr \<Rightarrow> diagnostic" where
  "formatting_failed function_name val error_reason =
     (mk_diagnostic ''FORMATTING_FAILED''
       (function_name @ u ''() formatting failed for value '' @ [CH_APOSTROPHE] @ val @
        [CH_APOSTROPHE] @ u '': '' @ error_reason)
       (Some (u ''Check that the value is valid for the specified format options'')))
     \<lparr>diag_help_url := Some (docs_url (u ''functions.html'')), diag_function_name := Some function_name\<rparr>"

definition function_arity_mismatch :: "ustr \<Rightarrow> int \<Rightarrow> int \<Rightarrow> diagnostic" where
  "function_arity_mismatch function_name expected received =
     (mk_diagnostic ''FUNCTION_ARITY_MISMATCH''
       (u ''Function '' @ [CH_APOSTROPHE] @ function_name @ [CH_APOSTROPHE] @ u '' expects '' @
        int_text expected @ u '' argument(s), got '' @ int_text received)
       (Some (u ''Pass exactly '' @ int_text expected @ u '' value(s) to '' @ function_name @ u ''()'')))
     \<lparr>diag_help_url := Some (docs_url (u ''functions.html'')), diag_function_name := Some function_name\<rparr>"

definition type_mismatch :: "ustr \<Rightarrow> ustr \<Rightarrow> ustr \<Rightarrow> ustr \<Rightarrow> ustr option \<Rightarrow> diagnostic" where
  "type_mismatch function_name argument_name expected_type received_type ftl_location =
     (mk_diagnostic ''TYPE_MISMATCH''
       (u ''Type mismatch in '' @ function_name @ u ''(): expected '' @ expected_type @ u '', got '' @
        received_type)
       (Some (u ''Convert '' @ [CH_APOSTROPHE] @ argument_name @ [CH_APOSTROPHE] @ u '' to '' @
         expected_type @ u '' before passing to '' @ function_name @ u ''()'')))
     \<lparr>diag_help_url := Some (docs_url (u ''functions.html'')), diag_function_name := Some function_name, diag_argument_name := Some argument_name,
       diag_expected_type := Some expected_type, diag_received_type := Some received_type, diag_ftl_location := ftl_location\<rparr>"

definition invalid_argument :: "ustr \<Rightarrow> ustr \<Rightarrow> ustr \<Rightarrow> ustr option \<Rightarrow> diagnostic" where
  "invalid_argument function_name argument_name reason ftl_location =
     (mk_diagnostic ''INVALID_ARGUMENT''
       (u ''Invalid argument '' @ [CH_APOSTROPHE] @ argument_name @ [CH_APOSTROPHE] @ u '' in '' @
        function_name @ u ''(): '' @ reason)
       (Some (u ''Check the value of '' @ [CH_APOSTROPHE] @ argument_name @ [CH_APOSTROPHE] @ u '' argument'')))
     \<lparr>diag_help_url := Some (docs_url (u ''functions.html'')), diag_function_name := Some function_name, diag_argument_name := Some argument_name, diag_ftl_location := ftl_location\<rparr>"

definition argument_required :: "ustr \<Rightarrow> ustr \<Rightarrow> ustr option \<Rightarrow> diagnostic" where
  "argument_required function_name argument_name ftl_location =
     (mk_diagnostic ''ARGUMENT_REQUIRED''
       (u ''Required argument '' @ [CH_APOSTROPHE] @ argument_name @ [CH_APOSTROPHE] @
        u '' not provided for '' @ function_name @ u ''()'')
       (Some (u ''Add '' @ [CH_APOSTROPHE] @ argument_name @ [CH_APOSTROPHE] @ u '' argument to '' @
         function_name @ u ''() call'')))
     \<lparr>diag_help_url := Some (docs_url (u ''functions.html'')), diag_function_name := Some function_name, diag_argument_name := Some argument_name, diag_ftl_location := ftl_location\<rparr>"

definition pattern_invalid :: "ustr \<Rightarrow> ustr \<Rightarrow> ustr \<Rightarrow> ustr option \<Rightarrow> diagnostic" where
  "pattern_invalid function_name pat reason ftl_location =
     (mk_diagnostic ''PATTERN_INVALID''
       (u ''Invalid pattern in '' @ function_name @ u ''(): '' @ reason)
       (Some (u ''Check pattern syntax: '' @ [CH_APOSTROPHE] @ pat @ [CH_APOSTROPHE])))
     \<lparr>diag_help_url := Some (docs_url (u ''functions.html'')), diag_function_name := Some function_name, diag_argument_name := Some (u ''pattern''), diag_ftl_location := ftl_location\<rparr>"

definition unknown_expression :: "ustr \<Rightarrow> diagnostic" where
  "unknown_expression expr_type =
     mk_diagnostic ''UNKNOWN_EXPRESSION''
       (u ''Unknown expression type: '' @ expr_type)
       (Some (u ''This is likely a bug in the parser or resolver''))"

definition unexpected_eof :: "int \<Rightarrow> diagnostic" where
  "unexpected_eof position =
     mk_diagnostic ''UNEXPECTED_EOF''
       (u ''Unexpected EOF at position '' @ int_text position)
       (Some (u ''Check for unclosed braces or incomplete syntax''))"

section \<open>Parsing of user input\<close>

definition parse_decimal_failed :: "ustr \<Rightarrow> ustr \<Rightarrow> ustr \<Rightarrow> diagnostic" where
  "parse_decimal_failed val locale_code reason =
     mk_diagnostic ''PARSE_DECIMAL_FAILED''
       (u ''Failed to parse decimal '' @ [CH_APOSTROPHE] @ val @ [CH_APOSTROPHE] @ u '' for locale '' @
        [CH_APOSTROPHE] @ locale_code @ [CH_APOSTROPHE] @ u '': '' @ reason)
       (Some (u ''Check that the decimal format matches the locale'' @ [CH_APOSTROPHE] @ u ''s conventions''))"

definition parse_date_failed :: "ustr \<Rightarrow> ustr \<Rightarrow> ustr \<Rightarrow> diagnostic" where
  "parse_date_failed val locale_code reason =
     mk_diagnostic ''PARSE_DATE_FAILED''
       (u ''Failed to parse date '' @ [CH_APOSTROPHE] @ val @ [CH_APOSTROPHE] @ u '' for locale '' @
        [CH_APOSTROPHE] @ locale_code @ [CH_APOSTROPHE] @ u '': '' @ reason)
       (Some (u ''Use ISO 8601 (YYYY-MM-DD) for unambiguous, locale-independent dates''))"

definition parse_datetime_failed :: "ustr \<Rightarrow> ustr \<Rightarrow> ustr \<Rightarrow> diagnostic" where
  "parse_datetime_failed val locale_code reason =
     mk_diagnostic ''PARSE_DATETIME_FAILED''
       (u ''Failed to parse datetime '' @ [CH_APOSTROPHE] @ val @ [CH_APOSTROPHE] @ u '' for locale '' @
        [CH_APOSTROPHE] @ locale_code @ [CH_APOSTROPHE] @ u '': '' @ reason)
       (Some (u ''Use ISO 8601 (YYYY-MM-DD HH:MM:SS) for unambiguous, locale-independent datetimes''))"

definition parse_currency_failed :: "ustr \<Rightarrow> ustr \<Rightarrow> ustr \<Rightarrow> diagnostic" where
  "parse_currency_failed val locale_code reason =
     mk_diagnostic ''PARSE_CURRENCY_FAILED''
       (u ''Failed to parse currency '' @ [CH_APOSTROPHE] @ val @ [CH_APOSTROPHE] @ u '' for locale '' @
        [CH_APOSTROPHE] @ locale_code @ [CH_APOSTROPHE] @ u '': '' @ reason)
       (Some (u ''Use ISO currency codes (USD, EUR, GBP) for unambiguous parsing''))"

definition parse_locale_unknown :: "ustr \<Rightarrow> diagnostic" where
  "parse_locale_unknown locale_code =
     mk_diagnostic ''PARSE_LOCALE_UNKNOWN''
       (u ''Unknown locale '' @ [CH_APOSTROPHE] @ locale_code @ [CH_APOSTROPHE])
       (Some (u ''Use BCP 47 locale codes (e.g., '' @ [CH_APOSTROPHE] @ u ''en_US'' @ [CH_APOSTROPHE] @
         u '', '' @ [CH_APOSTROPHE] @ u ''de_DE'' @ [CH_APOSTROPHE] @ u '', '' @ [CH_APOSTROPHE] @
         u ''lv_LV'' @ [CH_APOSTROPHE] @ u '')''))"

definition parse_currency_ambiguous :: "ustr \<Rightarrow> ustr \<Rightarrow> diagnostic" where
  "parse_currency_ambiguous symbol val =
     mk_diagnostic ''PARSE_CURRENCY_AMBIGUOUS''
       (u ''Ambiguous currency symbol '' @ [CH_APOSTROPHE] @ symbol @ [CH_APOSTROPHE] @ u '' in '' @
        [CH_APOSTROPHE] @ val @ [CH_APOSTROPHE] @ u ''. Symbol '' @ [CH_APOSTROPHE] @ symbol @
        [CH_APOSTROPHE] @ u '' is used by multiple currencies.'')
       (Some (u ''Use default_currency parameter, infer_from_locale=True, or ISO code (USD, EUR)''))"

definition parse_currency_symbol_unknown :: "ustr \<Rightarrow> ustr \<Rightarrow> diagnostic" where
  "parse_currency_symbol_unknown symbol val =
     mk_diagnostic ''PARSE_CURRENCY_SYMBOL_UNKNOWN''
       (u ''Unknown currency symbol '' @ [CH_APOSTROPHE] @ symbol @ [CH_APOSTROPHE] @ u '' in '' @
        [CH_APOSTROPHE] @ val @ [CH_APOSTROPHE])
       (Some (u ''Use ISO currency codes (USD, EUR, GBP) or supported symbols''))"

definition parse_currency_code_invalid :: "ustr \<Rightarrow> ustr \<Rightarrow> diagnostic" where
  "parse_currency_code_invalid code val =
     mk_diagnostic ''PARSE_CURRENCY_CODE_INVALID''
       (u ''Invalid ISO 4217 currency code '' @ [CH_APOSTROPHE] @ code @ [CH_APOSTROPHE] @ u '' in '' @
        [CH_APOSTROPHE] @ val @ [CH_APOSTROPHE])
       (Some (u ''Use valid ISO 4217 codes (USD, EUR, GBP, JPY, etc.)''))"

definition parse_amount_invalid :: "ustr \<Rightarrow> ustr \<Rightarrow> ustr \<Rightarrow> diagnostic" where
  "parse_amount_invalid amount_str val reason =
     mk_diagnostic ''PARSE_AMOUNT_INVALID''
       (u ''Failed to parse amount '' @ [CH_APOSTROPHE] @ amount_str @ [CH_APOSTROPHE] @ u '' from '' @
        [CH_APOSTROPHE] @ val @ [CH_APOSTROPHE] @ u '': '' @ reason)
       (Some (u ''Check that the amount format matches the locale'' @ [CH_APOSTROPHE] @ u ''s conventions''))"

section \<open>The errors of the resolver\<close>

fun template_of :: "resolution_error \<Rightarrow> diagnostic option" where
  "template_of (AttributeNotFound a m) = Some (attribute_not_found a m)"
| "template_of (MessageNoValue m) = Some (message_no_value m)"
| "template_of (MessageNotFound m) = Some (message_not_found m)"
| "template_of (TermNotFound t) = Some (term_not_found t)"
| "template_of (TermAttributeNotFound a t) = Some (term_attribute_not_found a t)"
| "template_of (TermPositionalArgsIgnored t n) = Some (term_positional_args_ignored t n)"
| "template_of PluralSupportUnavailable = Some plural_support_unavailable"
| "template_of (VariableNotProvided v p) = Some (variable_not_provided v p)"
| "template_of (CyclicReference p) = Some (cyclic_reference p)"
| "template_of (MaxDepthExceeded k n) = Some (max_depth_exceeded k n)"
| "template_of (DepthExceeded n) = Some (depth_exceeded n)"
| "template_of (ExpansionBudgetExceeded t m) = Some (expansion_budget_exceeded t m)"
| "template_of NoVariants = Some no_variants"
| "template_of (FunctionNotFound f) = Some (function_not_found f)"
| "template_of (FunctionFailed f t) = Some (function_failed f t)"
| "template_of (FunctionArityMismatch f e n) = Some (function_arity_mismatch f (int e) (int n))"
| "template_of (FloatNotAllowed r) = None"
| "template_of (RaisedByFunction m k d c) = d"

definition float_message :: "ustr \<Rightarrow> ustr" where
  "float_message r =
     u ''float value '' @ r @ u '' is not a valid FluentValue. '' @
     u ''IEEE 754 float cannot represent most decimal fractions exactly. '' @
     u ''Use int for whole amounts or decimal.Decimal for fractional amounts.''"

text \<open>\<open>FrozenFluentError(str(diag), category, diagnostic=diag)\<close>\<close>

definition fluent_error_of :: "digest \<Rightarrow> resolution_error \<Rightarrow> py_error + fluent_error" where
  "fluent_error_of H e =
     (case e of
        RaisedByFunction m k d c \<Rightarrow> mk_fluent_error H m k d c
      | FloatNotAllowed r \<Rightarrow> mk_fluent_error H (float_message r) (category_of e) None None
      | _ \<Rightarrow>
          (case template_of e of
             None \<Rightarrow> mk_fluent_error H [] (category_of e) None None
           | Some d \<Rightarrow> mk_fluent_error H (diag_message d) (category_of e) (Some d) None))"

end
