(* ===== verification/Diagnostic_Formatter.thy ===== *)
theory Diagnostic_Formatter
  imports Diagnostic_Templates Validation_Results
begin

text \<open>
  \<open>diagnostics/formatter.py\<close> and \<open>diagnostics/validation.py\<close>: diagnostics and validation
  results as text, in the style of the Rust compiler, on one line, or as JSON.  \<open>printable\<close> is
  \<open>str.isprintable\<close> on the characters beyond ASCII, which \<open>repr\<close> asks for.
\<close>

section \<open>Escapes\<close>

definition is_control :: "uchar \<Rightarrow> bool" where
  "is_control ch \<longleftrightarrow> ch < 0x20 \<or> ch = 0x7F"

definition lower_hex_digit :: "nat \<Rightarrow> uchar" where
  "lower_hex_digit d = (if d < 10 then 48 + d else 87 + d)"

text \<open>The last \<open>n\<close> hexadecimal digits of a number.\<close>

fun hex_text :: "nat \<Rightarrow> nat \<Rightarrow> ustr" where
  "hex_text 0 c = []"
| "hex_text (Suc n) c = hex_text n (c div 16) @ [lower_hex_digit (c mod 16)]"

definition control_escape :: "uchar \<Rightarrow> ustr" where
  "control_escape ch =
     (if ch = CH_CR then CH_BACKSLASH # u ''r''
      else if ch = CH_LF then CH_BACKSLASH # u ''n''
      else if ch = CH_TAB then CH_BACKSLASH # u ''t''
      else CH_BACKSLASH # u ''x'' @ hex_text 2 ch)"

definition escape_control_chars :: "ustr \<Rightarrow> ustr" where
  "escape_control_chars s = concat (map (\<lambda>ch. if is_control ch then control_escape ch else [ch]) s)"

text \<open>\<open>json.dumps\<close> of a string with \<open>ensure_ascii=False\<close>.\<close>

definition json_char :: "uchar \<Rightarrow> ustr" where
  "json_char ch =
     (if ch = CH_QUOTE then [CH_BACKSLASH, CH_QUOTE]
      else if ch = CH_BACKSLASH then [CH_BACKSLASH, CH_BACKSLASH]
      else if ch = CH_LF then CH_BACKSLASH # u ''n''
      else if ch = CH_CR then CH_BACKSLASH # u ''r''
      else if ch = CH_TAB then CH_BACKSLASH # u ''t''
      else if ch = 8 then CH_BACKSLASH # u ''b''
      else if ch = 12 then CH_BACKSLASH # u ''f''
      else if ch < 0x20 then CH_BACKSLASH # u ''u'' @ hex_text 4 ch
      else [ch])"

definition json_string :: "ustr \<Rightarrow> ustr" where
  "json_string s = [CH_QUOTE] @ concat (map json_char s) @ [CH_QUOTE]"

datatype json_value = JsonString ustr | JsonInt int | JsonStrings "ustr list"

fun json_value_text :: "json_value \<Rightarrow> ustr" where
  "json_value_text (JsonString s) = json_string s"
| "json_value_text (JsonInt i) = int_text i"
| "json_value_text (JsonStrings ss) = u ''['' @ str_join (u '', '') (map json_string ss) @ u '']''"

definition json_object :: "(ustr \<times> json_value) list \<Rightarrow> ustr" where
  "json_object kvs =
     u ''{'' @ str_join (u '', '') (map (\<lambda>(k, v). json_string k @ u '': '' @ json_value_text v) kvs) @ u ''}''"

text \<open>\<open>repr\<close> of a string.\<close>

definition repr_char :: "(uchar \<Rightarrow> bool) \<Rightarrow> uchar \<Rightarrow> uchar \<Rightarrow> ustr" where
  "repr_char printable quote ch =
     (if ch = quote \<or> ch = CH_BACKSLASH then [CH_BACKSLASH, ch]
      else if ch = CH_TAB then CH_BACKSLASH # u ''t''
      else if ch = CH_LF then CH_BACKSLASH # u ''n''
      else if ch = CH_CR then CH_BACKSLASH # u ''r''
      else if is_control ch then CH_BACKSLASH # u ''x'' @ hex_text 2 ch
      else if ch < 0x7F \<or> printable ch then [ch]
      else if ch < 0x100 then CH_BACKSLASH # u ''x'' @ hex_text 2 ch
      else if ch < 0x10000 then CH_BACKSLASH # u ''u'' @ hex_text 4 ch
      else CH_BACKSLASH # u ''U'' @ hex_text 8 ch)"

definition py_repr :: "(uchar \<Rightarrow> bool) \<Rightarrow> ustr \<Rightarrow> ustr" where
  "py_repr printable s =
     (let quote = (if CH_APOSTROPHE \<in> set s \<and> CH_QUOTE \<notin> set s then CH_QUOTE else CH_APOSTROPHE)
      in [quote] @ concat (map (repr_char printable quote) s) @ [quote])"

section \<open>The formatter\<close>

datatype output_format = RUST | SIMPLE | JSON

record diagnostic_formatter =
  fmt_output :: output_format
  fmt_sanitize :: bool
  fmt_redact :: bool
  fmt_color :: bool
  fmt_max_length :: int

text \<open>\<open>s[:n]\<close>\<close>

definition str_prefix :: "int \<Rightarrow> ustr \<Rightarrow> ustr" where
  "str_prefix n s = (if 0 \<le> n then take (nat n) s else take (length s - nat (- n)) s)"

definition maybe_sanitize :: "diagnostic_formatter \<Rightarrow> ustr \<Rightarrow> ustr" where
  "maybe_sanitize F s =
     (if fmt_sanitize F \<and> int (length s) > fmt_max_length F then str_prefix (fmt_max_length F) s @ u ''...'' else s)"

definition redacted :: ustr where
  "redacted = u ''[content redacted]''"

definition maybe_sanitize_content :: "diagnostic_formatter \<Rightarrow> ustr \<Rightarrow> ustr" where
  "maybe_sanitize_content F content =
     (if \<not> fmt_sanitize F then content
      else if fmt_redact F then redacted
      else if int (length content) > fmt_max_length F then str_prefix (fmt_max_length F) content @ u ''...''
      else content)"

definition severity_str :: "diagnostic_formatter \<Rightarrow> ustr \<Rightarrow> ustr" where
  "severity_str F severity =
     (if \<not> fmt_color F then severity
      else if severity = u ''error'' then 27 # u ''[1;31m'' @ severity @ 27 # u ''[0m''
      else 27 # u ''[1;33m'' @ severity @ 27 # u ''[0m'')"

text \<open>A line for a field that is present and not empty.\<close>

definition field_line :: "ustr \<Rightarrow> ustr option \<Rightarrow> ustr list" where
  "field_line label x =
     (case x of None \<Rightarrow> [] | Some s \<Rightarrow> if s = [] then [] else [label @ escape_control_chars s])"

definition location_line :: "diagnostic \<Rightarrow> ustr list" where
  "location_line d =
     (case diag_span d of
        Some sp \<Rightarrow> [u ''  --> line '' @ int_text (ss_line sp) @ u '', column '' @ int_text (ss_column sp)]
      | None \<Rightarrow> field_line (u ''  --> '') (diag_ftl_location d))"

definition path_line :: "ustr list option \<Rightarrow> ustr list" where
  "path_line p =
     (case p of
        None \<Rightarrow> []
      | Some es \<Rightarrow>
          if es = [] then []
          else [u ''  = resolution path: '' @ escape_control_chars (str_join (u '' -> '') es)])"

definition hint_line :: "diagnostic_formatter \<Rightarrow> ustr option \<Rightarrow> ustr list" where
  "hint_line F x =
     (case x of
        None \<Rightarrow> []
      | Some s \<Rightarrow> if s = [] then [] else [u ''  = help: '' @ escape_control_chars (maybe_sanitize F s)])"

definition rust_lines :: "diagnostic_formatter \<Rightarrow> diagnostic \<Rightarrow> ustr list" where
  "rust_lines F d =
     [severity_str F (diag_severity d) @ u ''['' @ diag_code d @ u '']: '' @ escape_control_chars (diag_message d)] @
     location_line d @
     field_line (u ''  = function: '') (diag_function_name d) @
     field_line (u ''  = argument: '') (diag_argument_name d) @
     field_line (u ''  = expected: '') (diag_expected_type d) @
     field_line (u ''  = received: '') (diag_received_type d) @
     path_line (diag_resolution_path d) @
     hint_line F (diag_hint d) @
     field_line (u ''  = note: see '') (diag_help_url d)"

definition format_rust :: "diagnostic_formatter \<Rightarrow> diagnostic \<Rightarrow> ustr" where
  "format_rust F d = str_join [CH_LF] (rust_lines F d)"

definition format_simple :: "diagnostic_formatter \<Rightarrow> diagnostic \<Rightarrow> ustr" where
  "format_simple F d = diag_code d @ u '': '' @ escape_control_chars (maybe_sanitize F (diag_message d))"

text \<open>\<open>code.value\<close> of each \<open>DiagnosticCode\<close>.\<close>

definition code_values :: "(ustr \<times> int) list" where
  "code_values =
    [(u ''MESSAGE_NOT_FOUND'', 1001),
     (u ''ATTRIBUTE_NOT_FOUND'', 1002),
     (u ''TERM_NOT_FOUND'', 1003),
     (u ''TERM_ATTRIBUTE_NOT_FOUND'', 1004),
     (u ''VARIABLE_NOT_PROVIDED'', 1005),
     (u ''MESSAGE_NO_VALUE'', 1006),
     (u ''CYCLIC_REFERENCE'', 2001),
     (u ''NO_VARIANTS'', 2002),
     (u ''FUNCTION_NOT_FOUND'', 2003),
     (u ''FUNCTION_FAILED'', 2004),
     (u ''UNKNOWN_EXPRESSION'', 2005),
     (u ''TYPE_MISMATCH'', 2006),
     (u ''INVALID_ARGUMENT'', 2007),
     (u ''ARGUMENT_REQUIRED'', 2008),
     (u ''PATTERN_INVALID'', 2009),
     (u ''MAX_DEPTH_EXCEEDED'', 2010),
     (u ''FUNCTION_ARITY_MISMATCH'', 2011),
     (u ''TERM_POSITIONAL_ARGS_IGNORED'', 2012),
     (u ''PLURAL_SUPPORT_UNAVAILABLE'', 2013),
     (u ''FORMATTING_FAILED'', 2014),
     (u ''EXPANSION_BUDGET_EXCEEDED'', 2015),
     (u ''UNEXPECTED_EOF'', 3001),
     (u ''PARSE_JUNK'', 3004),
     (u ''PARSE_NESTING_DEPTH_EXCEEDED'', 3005),
     (u ''PARSE_DECIMAL_FAILED'', 4002),
     (u ''PARSE_DATE_FAILED'', 4003),
     (u ''PARSE_DATETIME_FAILED'', 4004),
     (u ''PARSE_CURRENCY_FAILED'', 4005),
     (u ''PARSE_LOCALE_UNKNOWN'', 4006),
     (u ''PARSE_CURRENCY_AMBIGUOUS'', 4007),
     (u ''PARSE_CURRENCY_SYMBOL_UNKNOWN'', 4008),
     (u ''PARSE_AMOUNT_INVALID'', 4009),
     (u ''PARSE_CURRENCY_CODE_INVALID'', 4010),
     (u ''VALIDATION_TERM_NO_VALUE'', 5004),
     (u ''VALIDATION_SELECT_NO_DEFAULT'', 5005),
     (u ''VALIDATION_SELECT_NO_VARIANTS'', 5006),
     (u ''VALIDATION_VARIANT_DUPLICATE'', 5007),
     (u ''VALIDATION_NAMED_ARG_DUPLICATE'', 5010),
     (u ''VALIDATION_PLACEABLE_SELECTOR'', 5011),
     (u ''VALIDATION_PARSE_ERROR'', 5100),
     (u ''VALIDATION_CRITICAL_PARSE_ERROR'', 5101),
     (u ''VALIDATION_DUPLICATE_ID'', 5102),
     (u ''VALIDATION_NO_VALUE_OR_ATTRS'', 5103),
     (u ''VALIDATION_UNDEFINED_REFERENCE'', 5104),
     (u ''VALIDATION_CIRCULAR_REFERENCE'', 5105),
     (u ''VALIDATION_CHAIN_DEPTH_EXCEEDED'', 5106),
     (u ''VALIDATION_DUPLICATE_ATTRIBUTE'', 5107),
     (u ''VALIDATION_SHADOW_WARNING'', 5108),
     (u ''VALIDATION_TERM_POSITIONAL_ARGS'', 5109)]"

definition code_value :: "ustr \<Rightarrow> int" where
  "code_value code = (case map_of code_values code of None \<Rightarrow> 0 | Some n \<Rightarrow> n)"

definition json_field :: "string \<Rightarrow> ustr option \<Rightarrow> (ustr \<times> json_value) list" where
  "json_field key x =
     (case x of None \<Rightarrow> [] | Some s \<Rightarrow> if s = [] then [] else [(u key, JsonString s)])"

definition json_fields :: "diagnostic_formatter \<Rightarrow> diagnostic \<Rightarrow> (ustr \<times> json_value) list" where
  "json_fields F d =
     [(u ''code'', JsonString (diag_code d)), (u ''code_value'', JsonInt (code_value (diag_code d))),
      (u ''message'', JsonString (maybe_sanitize F (diag_message d))), (u ''severity'', JsonString (diag_severity d))] @
     (case diag_span d of
        None \<Rightarrow> []
      | Some sp \<Rightarrow>
          [(u ''line'', JsonInt (ss_line sp)), (u ''column'', JsonInt (ss_column sp)),
           (u ''start'', JsonInt (ss_start sp)), (u ''end'', JsonInt (ss_end sp))]) @
     json_field ''ftl_location'' (diag_ftl_location d) @
     json_field ''function_name'' (diag_function_name d) @
     json_field ''argument_name'' (diag_argument_name d) @
     json_field ''expected_type'' (diag_expected_type d) @
     json_field ''received_type'' (diag_received_type d) @
     (case diag_resolution_path d of
        None \<Rightarrow> []
      | Some es \<Rightarrow> if es = [] then [] else [(u ''resolution_path'', JsonStrings es)]) @
     (case diag_hint d of
        None \<Rightarrow> []
      | Some s \<Rightarrow> if s = [] then [] else [(u ''hint'', JsonString (maybe_sanitize F s))]) @
     json_field ''help_url'' (diag_help_url d)"

definition format_json :: "diagnostic_formatter \<Rightarrow> diagnostic \<Rightarrow> ustr" where
  "format_json F d = json_object (json_fields F d)"

definition format_diagnostic :: "diagnostic_formatter \<Rightarrow> diagnostic \<Rightarrow> ustr" where
  "format_diagnostic F d =
     (case fmt_output F of RUST \<Rightarrow> format_rust F d | SIMPLE \<Rightarrow> format_simple F d | JSON \<Rightarrow> format_json F d)"

definition format_all :: "diagnostic_formatter \<Rightarrow> diagnostic list \<Rightarrow> ustr" where
  "format_all F ds = str_join [CH_LF, CH_LF] (map (format_diagnostic F) ds)"

section \<open>Validation results\<close>

definition position_text :: "nat option \<Rightarrow> nat option \<Rightarrow> ustr" where
  "position_text line column =
     (case line of
        None \<Rightarrow> []
      | Some l \<Rightarrow>
          u '' at line '' @ int_text (int l) @
          (case column of None \<Rightarrow> [] | Some c \<Rightarrow> u '', column '' @ int_text (int c)))"

definition format_validation_error :: "(uchar \<Rightarrow> bool) \<Rightarrow> diagnostic_formatter \<Rightarrow> validation_error \<Rightarrow> ustr" where
  "format_validation_error printable F e =
     u ''['' @ ve_code e @ u '']'' @ position_text (ve_line e) (ve_column e) @ u '': '' @ ve_message e @
     u '' (content: '' @ py_repr printable (maybe_sanitize_content F (ve_content e)) @ u '')''"

definition warning_context :: "diagnostic_formatter \<Rightarrow> ustr \<Rightarrow> ustr" where
  "warning_context F context =
     (if fmt_sanitize F \<and> fmt_redact F then redacted
      else if fmt_sanitize F then maybe_sanitize F context else context)"

definition format_validation_warning :: "(uchar \<Rightarrow> bool) \<Rightarrow> diagnostic_formatter \<Rightarrow> validation_warning \<Rightarrow> ustr" where
  "format_validation_warning printable F w =
     u ''['' @ vw_code w @ u '']'' @ position_text (vw_line w) (vw_column w) @ u '': '' @ vw_message w @
     (case vw_context w of
        None \<Rightarrow> []
      | Some c \<Rightarrow>
          if c = [] then [] else u '' (context: '' @ py_repr printable (warning_context F c) @ u '')'')"

definition format_annotation :: "(uchar \<Rightarrow> bool) \<Rightarrow> diagnostic_formatter \<Rightarrow> annotation \<Rightarrow> ustr" where
  "format_annotation printable F a =
     (let message = escape_control_chars (maybe_sanitize F (annot_message a));
          start = u ''['' @ annot_code a @ u '']: '' @ message
      in case annot_arguments a of
           None \<Rightarrow> start
         | Some kvs \<Rightarrow>
             if kvs = [] then start
             else start @ u '' ('' @ str_join (u '', '') (map (\<lambda>(k, v). k @ u ''='' @ py_repr printable v) kvs) @ u '')'')"

definition result_summary :: "validation_result \<Rightarrow> bool \<Rightarrow> ustr" where
  "result_summary r include_warnings =
     (let warnings = int_text (int (length (vr_warnings r)));
          errs = int_text (int (length (vr_errors r)));
          anns = int_text (int (length (vr_annotations r)));
          total = int_text (int (length (vr_errors r) + length (vr_annotations r)))
      in if is_valid_result r \<and> (\<not> include_warnings \<or> vr_warnings r = [])
         then u ''Validation passed: no errors or warnings''
         else if is_valid_result r then u ''Validation passed with '' @ warnings @ u '' warning(s)''
         else u ''Validation failed: '' @ total @ u '' issue(s) ('' @ errs @ u '' error(s), '' @ anns @
              u '' annotation(s)), '' @ warnings @ u '' warning(s)'')"

definition result_part :: "string \<Rightarrow> ustr list \<Rightarrow> ustr list" where
  "result_part heading items =
     (if items = [] then []
      else (CH_LF # u heading @ u '' ('' @ int_text (int (length items)) @ u ''):'') # map (\<lambda>t. u ''  '' @ t) items)"

definition format_validation_result ::
    "(uchar \<Rightarrow> bool) \<Rightarrow> diagnostic_formatter \<Rightarrow> validation_result \<Rightarrow> bool \<Rightarrow> ustr" where
  "format_validation_result printable F r include_warnings =
     str_join [CH_LF]
       ([result_summary r include_warnings] @
        result_part ''Errors'' (map (format_validation_error printable F) (vr_errors r)) @
        result_part ''Annotations'' (map (format_annotation printable F) (vr_annotations r)) @
        (if include_warnings then result_part ''Warnings'' (map (format_validation_warning printable F) (vr_warnings r)) else []))"

end
