(* ===== verification/Diagnostic_Properties.thy ===== *)
theory Diagnostic_Properties
  imports Diagnostic_Formatter
begin

text \<open>
  What the fields of a diagnostic can do to its text: no field makes a line of its own or
  brings a control character into it, and what is redacted does not show.
\<close>

section \<open>No control character\<close>

definition control_free :: "ustr \<Rightarrow> bool" where
  "control_free s \<longleftrightarrow> list_all (\<lambda>ch. \<not> is_control ch) s"

lemma control_free_simps [simp]:
  "control_free []" "control_free (ch # s) \<longleftrightarrow> \<not> is_control ch \<and> control_free s"
  "control_free (s @ t) \<longleftrightarrow> control_free s \<and> control_free t"
  "control_free (concat ss) \<longleftrightarrow> list_all control_free ss"
  by (auto simp: control_free_def list_all_iff)

lemma control_free_u [simp]: "control_free (u s) \<longleftrightarrow> list_all (\<lambda>c. \<not> is_control (of_char c)) s"
  by (simp add: u_def control_free_def list_all_iff)

lemma is_control_numeral [simp]: "is_control (numeral n) \<longleftrightarrow> (numeral n :: nat) < 32 \<or> (numeral n :: nat) = 127"
  by (simp add: is_control_def)

lemma control_free_hex [simp]: "control_free (hex_text n c)"
  by (induction n arbitrary: c) (auto simp: lower_hex_digit_def is_control_def)

lemma control_free_dec [simp]: "control_free (dec_digits n)"
  by (induction n rule: dec_digits.induct) (subst dec_digits.simps, auto simp: is_control_def simp del: dec_digits.simps)

lemma control_free_int [simp]: "control_free (int_text i)"
  by (simp add: int_text_def del: dec_digits.simps)

lemma control_free_escaped [simp]: "control_free (escape_control_chars s)"
  by (auto simp: escape_control_chars_def control_escape_def list_all_iff)

lemma json_char_visible: "ch' \<in> set (json_char ch) \<Longrightarrow> 0x20 \<le> ch'"
  using control_free_hex [of 4 ch]
  by (cases "ch < 0x20") (auto simp: json_char_def u_def control_free_def list_all_iff is_control_def split: if_splits)

lemma json_string_visible: "list_all (\<lambda>ch. 0x20 \<le> ch) (json_string s)"
  by (auto simp: json_string_def list_all_iff dest: json_char_visible)

lemma control_free_repr [simp]: "(\<And>ch. printable ch \<Longrightarrow> \<not> is_control ch) \<Longrightarrow> control_free (py_repr printable s)"
proof -
  assume P: "\<And>ch. printable ch \<Longrightarrow> \<not> is_control ch"
  have "control_free (repr_char printable q ch)" if "\<not> is_control q" for q ch
    using that P [of ch] by (auto simp: repr_char_def is_control_def)
  then show ?thesis by (simp add: py_repr_def Let_def list_all_iff)
qed

section \<open>One line for each field\<close>

text \<open>The code is the name of an enumeration member, the severity one of two words.\<close>

definition diagnostic_ok :: "diagnostic \<Rightarrow> bool" where
  "diagnostic_ok d \<longleftrightarrow> control_free (diag_code d) \<and> control_free (diag_severity d)"

lemma control_free_field_line [simp]: "control_free label \<Longrightarrow> list_all control_free (field_line label x)"
  by (auto simp: field_line_def split: option.splits)

lemma control_free_rust_lines:
  "diagnostic_ok d \<Longrightarrow> \<not> fmt_color F \<Longrightarrow> list_all control_free (rust_lines F d)"
  by (auto simp: rust_lines_def diagnostic_ok_def severity_str_def location_line_def path_line_def hint_line_def
      split: option.splits)

lemma str_split_free_line: "CH_LF \<notin> set l \<Longrightarrow> str_split CH_LF l = [l]"
  by (induction l) auto

lemma str_split_append: "CH_LF \<notin> set l \<Longrightarrow> str_split CH_LF (l @ CH_LF # s) = l # str_split CH_LF s"
  by (induction l) auto

lemma str_split_join_lines:
  "ls \<noteq> [] \<Longrightarrow> list_all (\<lambda>l. CH_LF \<notin> set l) ls \<Longrightarrow> str_split CH_LF (str_join [CH_LF] ls) = ls"
proof (induction ls)
  case (Cons l ls)
  then show ?case by (cases ls) (simp_all add: str_split_free_line str_split_append)
qed simp

lemma control_free_no_newline: "control_free l \<Longrightarrow> CH_LF \<notin> set l"
  by (auto simp: control_free_def list_all_iff)

text \<open>The optional fields that are there; their contents do not matter.\<close>

definition is_present :: "'a list option \<Rightarrow> bool" where
  "is_present x \<longleftrightarrow> (case x of None \<Rightarrow> False | Some s \<Rightarrow> s \<noteq> [])"

definition present_fields :: "diagnostic \<Rightarrow> nat" where
  "present_fields d =
     length (filter is_present
       [diag_function_name d, diag_argument_name d, diag_expected_type d, diag_received_type d,
        diag_hint d, diag_help_url d]) +
     (if is_present (diag_resolution_path d) then 1 else 0) +
     (if diag_span d \<noteq> None \<or> is_present (diag_ftl_location d) then 1 else 0)"

lemma length_field_line: "length (field_line label x) = (if is_present x then 1 else 0)"
  by (auto simp: field_line_def is_present_def split: option.splits)

lemma length_rust_lines: "length (rust_lines F d) = Suc (present_fields d)"
proof -
  have "length (hint_line F x) = (if is_present x then 1 else 0)" for x
    by (auto simp: hint_line_def is_present_def split: option.splits)
  moreover have "length (path_line p) = (if is_present p then 1 else 0)" for p
    by (auto simp: path_line_def is_present_def split: option.splits)
  moreover have "length (location_line d) = (if diag_span d \<noteq> None \<or> is_present (diag_ftl_location d) then 1 else 0)"
    by (auto simp: location_line_def length_field_line split: option.splits)
  ultimately show ?thesis by (simp add: rust_lines_def length_field_line present_fields_def)
qed

text \<open>C40: without colour, a diagnostic formatted for people has one line for each field that is
  there, whatever the texts in it, and no control character but the line feeds between them.\<close>

theorem rust_lines_contained:
  assumes "control_free (diag_code d)" "control_free (diag_severity d)" "\<not> fmt_color F"
  shows "length (str_split CH_LF (format_rust F d)) = Suc (present_fields d) \<and>
    list_all control_free (str_split CH_LF (format_rust F d)) \<and> control_free (format_simple F d)"
proof -
  have clean: "list_all control_free (rust_lines F d)"
    using assms by (intro control_free_rust_lines) (simp_all add: diagnostic_ok_def)
  moreover have "rust_lines F d \<noteq> []" by (simp add: rust_lines_def)
  ultimately have "str_split CH_LF (format_rust F d) = rust_lines F d"
    using control_free_no_newline by (auto simp: format_rust_def list_all_iff intro!: str_split_join_lines)
  with clean assms(1) show ?thesis by (simp add: length_rust_lines format_simple_def)
qed

definition plain_formatter :: diagnostic_formatter where
  "plain_formatter =
     \<lparr>fmt_output = RUST, fmt_sanitize = False, fmt_redact = False, fmt_color = False, fmt_max_length = 100\<rparr>"

theorem rust_lines_contained_witness:
  "length (str_split CH_LF (format_rust plain_formatter (message_not_found [CH_LF, 0x1B, 0]))) =
     Suc (present_fields (message_not_found [CH_LF, 0x1B, 0])) \<and>
   list_all control_free (str_split CH_LF (format_rust plain_formatter (message_not_found [CH_LF, 0x1B, 0]))) \<and>
   control_free (format_simple plain_formatter (message_not_found [CH_LF, 0x1B, 0]))"
  by (rule rust_lines_contained) (simp_all add: message_not_found_def mk_diagnostic_def plain_formatter_def)

section \<open>Redaction\<close>

text \<open>The same result but for the contents of errors and the contexts of warnings.\<close>

definition same_error :: "validation_error \<Rightarrow> validation_error \<Rightarrow> bool" where
  "same_error e e' \<longleftrightarrow>
     ve_code e = ve_code e' \<and> ve_message e = ve_message e' \<and> ve_line e = ve_line e' \<and> ve_column e = ve_column e'"

definition same_warning :: "validation_warning \<Rightarrow> validation_warning \<Rightarrow> bool" where
  "same_warning w w' \<longleftrightarrow>
     vw_code w = vw_code w' \<and> vw_message w = vw_message w' \<and> vw_line w = vw_line w' \<and> vw_column w = vw_column w' \<and>
     is_present (vw_context w) = is_present (vw_context w')"

definition same_outline :: "validation_result \<Rightarrow> validation_result \<Rightarrow> bool" where
  "same_outline r r' \<longleftrightarrow>
     list_all2 same_error (vr_errors r) (vr_errors r') \<and> list_all2 same_warning (vr_warnings r) (vr_warnings r') \<and>
     vr_annotations r = vr_annotations r'"

lemma list_all2_map_eq: "list_all2 R xs ys \<Longrightarrow> (\<And>x y. R x y \<Longrightarrow> f x = f y) \<Longrightarrow> map f xs = map f ys"
  by (induction rule: list_all2_induct) auto

lemma same_error_text:
  "fmt_sanitize F \<Longrightarrow> fmt_redact F \<Longrightarrow> same_error e e' \<Longrightarrow> format_validation_error P F e = format_validation_error P F e'"
  by (simp add: format_validation_error_def same_error_def maybe_sanitize_content_def)

lemma same_warning_text:
  "fmt_sanitize F \<Longrightarrow> fmt_redact F \<Longrightarrow> same_warning w w' \<Longrightarrow> format_validation_warning P F w = format_validation_warning P F w'"
  by (auto simp: format_validation_warning_def same_warning_def warning_context_def is_present_def split: option.splits)

text \<open>With \<open>sanitize\<close> and \<open>redact_content\<close> the text of a validation result does not depend on
  the contents of its errors and the contexts of its warnings.\<close>

theorem redaction_hides:
  assumes "fmt_sanitize F" "fmt_redact F" "same_outline r r'"
  shows "format_validation_result P F r include_warnings = format_validation_result P F r' include_warnings"
proof -
  have es: "map (format_validation_error P F) (vr_errors r) = map (format_validation_error P F) (vr_errors r')"
    and ws: "map (format_validation_warning P F) (vr_warnings r) = map (format_validation_warning P F) (vr_warnings r')"
    using assms same_error_text same_warning_text by (auto simp: same_outline_def intro: list_all2_map_eq)
  have "length (vr_errors r) = length (vr_errors r')" "length (vr_warnings r) = length (vr_warnings r')"
      "vr_annotations r = vr_annotations r'"
    using assms(3) by (auto simp: same_outline_def list_all2_lengthD)
  moreover from this have "vr_warnings r = [] \<longleftrightarrow> vr_warnings r' = []" by (metis length_0_conv)
  ultimately show ?thesis
    by (simp add: format_validation_result_def es ws result_summary_def is_valid_result_def Let_def)
qed

definition redacting_formatter :: diagnostic_formatter where
  "redacting_formatter = plain_formatter\<lparr>fmt_sanitize := True, fmt_redact := True\<rparr>"

definition one_error :: "ustr \<Rightarrow> validation_result" where
  "one_error content =
     \<lparr>vr_errors = [\<lparr>ve_code = u ''PARSE_JUNK'', ve_message = u ''Parse error'', ve_content = content,
        ve_line = Some 1, ve_column = Some 1\<rparr>], vr_warnings = [], vr_annotations = []\<rparr>"

theorem redaction_hides_witness:
  "format_validation_result (\<lambda>ch. True) redacting_formatter (one_error (u ''a secret'')) True =
   format_validation_result (\<lambda>ch. True) redacting_formatter (one_error (u ''another'')) True"
  by (rule redaction_hides) (simp_all add: redacting_formatter_def one_error_def same_outline_def same_error_def)

text \<open>The arguments of an annotation are neither truncated nor redacted.\<close>

lemma annotation_arguments_show:
  "format_annotation P F (Annotation code message (Some [(k, v)]) sp) =
     u ''['' @ code @ u '']: '' @ escape_control_chars (maybe_sanitize F message) @
     u '' ('' @ k @ u ''='' @ py_repr P v @ u '')''"
  by (simp add: format_annotation_def Let_def)

end
