(* ===== verification/Cache_Keys.thy ===== *)
theory Cache_Keys
  imports Cache Diagnostic_Formatter Function_Registry Parse_Context
begin

text \<open>
  \<open>runtime/cache_keys.py\<close>: the conversion of the arguments of a request to a cache key.  A
  key is a Python tuple; the values in it are \<open>hashable\<close>.  Every value but a string and
  None sits in a tuple behind the tag of its type, so that Python's equality of keys
  (where \<open>True == 1\<close>) is the equality of the model.
\<close>

section \<open>Hashable values\<close>

datatype hashable = HNone | HStr ustr | HBool bool | HInt int | HTuple "hashable list"

definition tagged :: "string \<Rightarrow> hashable list \<Rightarrow> hashable" where
  "tagged tag hs = HTuple (HStr (u tag) # hs)"

definition HASHABLE_NODE_BUDGET :: nat where
  "HASHABLE_NODE_BUDGET = 10000"

definition hashable_decimal :: "decimal_number \<Rightarrow> hashable" where
  "hashable_decimal d =
     (if is_nan d then tagged ''__decimal__'' [HStr (u ''__NaN__'')]
      else tagged ''__decimal__'' [HStr (str_decimal d)])"

definition hashable_datetime :: "ustr \<Rightarrow> ustr option \<Rightarrow> hashable" where
  "hashable_datetime i tz =
     tagged ''__datetime__'' [HStr i, HStr (case tz of None \<Rightarrow> u ''__naive__'' | Some name \<Rightarrow> name)]"

definition sequence_tag :: "sequence_kind \<Rightarrow> string" where
  "sequence_tag kind =
     (case kind of ListValue \<Rightarrow> ''__list__'' | TupleValue \<Rightarrow> ''__tuple__'' | OtherSequence \<Rightarrow> ''__seq__'')"

definition mapping_tag :: "mapping_kind \<Rightarrow> string" where
  "mapping_tag kind = (case kind of DictValue \<Rightarrow> ''__dict__'' | OtherMapping \<Rightarrow> ''__mapping__'')"

definition hashable_sequence :: "string \<Rightarrow> hashable list \<Rightarrow> hashable" where
  "hashable_sequence tag hs = tagged tag [HTuple hs]"

definition hashable_item :: "ustr \<times> hashable \<Rightarrow> hashable" where
  "hashable_item kv = HTuple [HStr (fst kv), snd kv]"

definition hashable_mapping :: "string \<Rightarrow> (ustr \<times> hashable) list \<Rightarrow> hashable" where
  "hashable_mapping tag kvs = tagged tag [HTuple (map hashable_item (sort_key fst kvs))]"

text \<open>The entry of \<open>go\<close>: count the node, check the budget and the depth.\<close>

definition enter_node :: "int \<Rightarrow> nat \<Rightarrow> py_error + nat" where
  "enter_node depth node_count =
     (if HASHABLE_NODE_BUDGET < node_count + 1 then Inl TypeError
      else if depth \<le> 0 then Inl TypeError
      else Inr (node_count + 1))"

text \<open>The number inside a \<open>FluentNumber\<close> is a node of its own.\<close>

definition go_number :: "numeric \<Rightarrow> int \<Rightarrow> nat \<Rightarrow> py_error + hashable \<times> nat" where
  "go_number v depth node_count = res_bind (enter_node depth node_count) (\<lambda>c.
     Inr (case v of IntNumber i \<Rightarrow> tagged ''__int__'' [HInt i] | DecimalNumber d \<Rightarrow> hashable_decimal d, c))"

definition number_type :: "numeric \<Rightarrow> ustr" where
  "number_type v = (case v of IntNumber i \<Rightarrow> u ''int'' | DecimalNumber d \<Rightarrow> u ''Decimal'')"

definition hashable_precision :: "int option \<Rightarrow> hashable" where
  "hashable_precision p = (case p of None \<Rightarrow> HNone | Some i \<Rightarrow> HInt i)"

text \<open>\<open>go\<close>, with the node count as its state; every failure is a \<open>TypeError\<close>.\<close>

fun hash_go :: "fvalue \<Rightarrow> int \<Rightarrow> nat \<Rightarrow> py_error + hashable \<times> nat"
and hash_items :: "fvalue list \<Rightarrow> int \<Rightarrow> nat \<Rightarrow> py_error + hashable list \<times> nat"
and hash_pairs :: "(ustr \<times> fvalue) list \<Rightarrow> int \<Rightarrow> nat \<Rightarrow> py_error + (ustr \<times> hashable) list \<times> nat" where
  "hash_go (VStr s) depth n = res_bind (enter_node depth n) (\<lambda>c. Inr (HStr s, c))"
| "hash_go VNone depth n = res_bind (enter_node depth n) (\<lambda>c. Inr (HNone, c))"
| "hash_go (VBool b) depth n = res_bind (enter_node depth n) (\<lambda>c. Inr (tagged ''__bool__'' [HBool b], c))"
| "hash_go (VInt i) depth n = res_bind (enter_node depth n) (\<lambda>c. Inr (tagged ''__int__'' [HInt i], c))"
| "hash_go (VDecimal d) depth n = res_bind (enter_node depth n) (\<lambda>c. Inr (hashable_decimal d, c))"
| "hash_go (VDatetime i tz s) depth n = res_bind (enter_node depth n) (\<lambda>c. Inr (hashable_datetime i tz, c))"
| "hash_go (VDate i s) depth n = res_bind (enter_node depth n) (\<lambda>c. Inr (tagged ''__date__'' [HStr i], c))"
| "hash_go (VNumber v formatted precision) depth n = res_bind (enter_node depth n) (\<lambda>c.
     res_bind (go_number v (depth - 1) c) (\<lambda>(h, c).
       Inr (tagged ''__fluentnumber__'' [HStr (number_type v), h, HStr formatted, hashable_precision precision], c)))"
| "hash_go (VSequence kind name xs) depth n = res_bind (enter_node depth n) (\<lambda>c.
     res_bind (hash_items xs (depth - 1) c) (\<lambda>(hs, c). Inr (hashable_sequence (sequence_tag kind) hs, c)))"
| "hash_go (VMapping kind name kvs) depth n = res_bind (enter_node depth n) (\<lambda>c.
     res_bind (hash_pairs kvs (depth - 1) c) (\<lambda>(hs, c). Inr (hashable_mapping (mapping_tag kind) hs, c)))"
| "hash_go (VFloat r) depth n = res_bind (enter_node depth n) (\<lambda>c. Inl TypeError)"
| "hash_go (VOther name s) depth n = res_bind (enter_node depth n) (\<lambda>c. Inl TypeError)"
| "hash_items [] depth n = Inr ([], n)"
| "hash_items (x # xs) depth n =
     res_bind (hash_go x depth n) (\<lambda>(h, c).
       res_bind (hash_items xs depth c) (\<lambda>(hs, c). Inr (h # hs, c)))"
| "hash_pairs [] depth n = Inr ([], n)"
| "hash_pairs ((k, x) # kvs) depth n =
     res_bind (hash_go x depth n) (\<lambda>(h, c).
       res_bind (hash_pairs kvs depth c) (\<lambda>(hs, c). Inr ((k, h) # hs, c)))"

definition make_hashable :: "fvalue \<Rightarrow> py_error + hashable" where
  "make_hashable v = res_bind (hash_go v (int MAX_DEPTH) 0) (\<lambda>(h, c). Inr h)"

section \<open>Keys\<close>

fun hash_args :: "(ustr \<times> fvalue) list \<Rightarrow> py_error + (ustr \<times> hashable) list" where
  "hash_args [] = Inr []"
| "hash_args ((k, v) # kvs) =
     res_bind (make_hashable v) (\<lambda>h. res_bind (hash_args kvs) (\<lambda>hs. Inr ((k, h) # hs)))"

definition key_tuple ::
    "ustr \<Rightarrow> (ustr \<times> hashable) list \<Rightarrow> ustr option \<Rightarrow> ustr \<Rightarrow> bool \<Rightarrow> hashable" where
  "key_tuple message_id args_tuple attribute locale_code use_isolating =
     HTuple [HStr message_id, HTuple (map hashable_item args_tuple),
       (case attribute of None \<Rightarrow> HNone | Some a \<Rightarrow> HStr a), HStr locale_code, HBool use_isolating]"

definition make_key ::
    "ustr \<Rightarrow> (ustr \<times> fvalue) list option \<Rightarrow> ustr option \<Rightarrow> ustr \<Rightarrow> bool \<Rightarrow> hashable option" where
  "make_key message_id args attribute locale_code use_isolating =
     (case args of
        None \<Rightarrow> Some (key_tuple message_id [] attribute locale_code use_isolating)
      | Some items \<Rightarrow>
          (case hash_args items of
             Inl e \<Rightarrow> None
           | Inr hs \<Rightarrow> Some (key_tuple message_id (sort_key fst hs) attribute locale_code use_isolating)))"

text \<open>
  \<open>str(key)\<close>, the input of the key hash; it raises \<open>ValueError\<close> for an integer beyond the
  digit limit of the interpreter.  \<open>printable\<close> is \<open>str.isprintable\<close> of a character.
\<close>

fun hashable_repr :: "(uchar \<Rightarrow> bool) \<Rightarrow> nat \<Rightarrow> hashable \<Rightarrow> py_error + ustr"
and hashable_reprs :: "(uchar \<Rightarrow> bool) \<Rightarrow> nat \<Rightarrow> hashable list \<Rightarrow> py_error + ustr list" where
  "hashable_repr printable limit HNone = Inr (u ''None'')"
| "hashable_repr printable limit (HStr s) = Inr (py_repr printable s)"
| "hashable_repr printable limit (HBool b) = Inr (if b then u ''True'' else u ''False'')"
| "hashable_repr printable limit (HInt i) = str_int limit i"
| "hashable_repr printable limit (HTuple hs) = res_bind (hashable_reprs printable limit hs) (\<lambda>rs.
     Inr (u ''('' @ str_join (u '', '') rs @ (if length rs = 1 then u '','' else []) @ u '')''))"
| "hashable_reprs printable limit [] = Inr []"
| "hashable_reprs printable limit (h # hs) = res_bind (hashable_repr printable limit h) (\<lambda>r.
     res_bind (hashable_reprs printable limit hs) (\<lambda>rs. Inr (r # rs)))"

definition key_text :: "(uchar \<Rightarrow> bool) \<Rightarrow> nat \<Rightarrow> hashable \<Rightarrow> ustr" where
  "key_text printable limit k = (case hashable_repr printable limit k of Inl e \<Rightarrow> [] | Inr s \<Rightarrow> s)"

section \<open>Requests with arguments\<close>

text \<open>
  \<open>get\<close> and \<open>put\<close> of the cache for a request.  The hash of a key is computed for each
  audit entry and for each entry to be stored; when \<open>str(key)\<close> raises, nothing can be
  stored under the key, so that a lookup is a miss.
\<close>

definition unprintable_get :: "py_error \<Rightarrow> 'k cache \<Rightarrow> 'k cache \<times> (cache_error + cache_entry option)" where
  "unprintable_get e c =
     (let c = c\<lparr>c_misses := c_misses c + 1\<rparr>
      in if c_audit_log c = None then (c, Inr None) else (c, Inl (CacheRaises e)))"

definition unprintable_put ::
    "py_error \<Rightarrow> ustr \<Rightarrow> fluent_error list \<Rightarrow> 'k cache \<Rightarrow> 'k cache \<times> (cache_error + unit)" where
  "unprintable_put e s es c =
     (if c_max_entry_weight c < length s then (c\<lparr>c_oversize := c_oversize c + 1\<rparr>, Inr ())
      else if c_max_errors c < length es then (c\<lparr>c_error_bloat := c_error_bloat c + 1\<rparr>, Inr ())
      else if c_max_entry_weight c < entry_weight s es then
        (c\<lparr>c_combined_weight := c_combined_weight c + 1\<rparr>, Inr ())
      else (c\<lparr>c_sequence := c_sequence c + 1\<rparr>, Inl (CacheRaises e)))"

definition request_get ::
    "digest \<Rightarrow> (uchar \<Rightarrow> bool) \<Rightarrow> nat \<Rightarrow> clock \<Rightarrow> ustr \<Rightarrow> (ustr \<times> fvalue) list option \<Rightarrow> ustr option \<Rightarrow> ustr \<Rightarrow> bool \<Rightarrow>
     hashable cache \<Rightarrow> hashable cache \<times> (cache_error + cache_entry option)" where
  "request_get H printable limit clk message_id args attribute locale_code use_isolating c =
     (let key = make_key message_id args attribute locale_code use_isolating
      in case map_option (hashable_repr printable limit) key of
           Some (Inl e) \<Rightarrow> unprintable_get e c
         | _ \<Rightarrow> cache_get H (key_text printable limit) clk message_id key c)"

definition request_put ::
    "digest \<Rightarrow> (uchar \<Rightarrow> bool) \<Rightarrow> nat \<Rightarrow> clock \<Rightarrow> ustr \<Rightarrow> (ustr \<times> fvalue) list option \<Rightarrow> ustr option \<Rightarrow> ustr \<Rightarrow> bool \<Rightarrow>
     ustr \<Rightarrow> fluent_error list \<Rightarrow> hashable cache \<Rightarrow> hashable cache \<times> (cache_error + unit)" where
  "request_put H printable limit clk message_id args attribute locale_code use_isolating s es c =
     (let key = make_key message_id args attribute locale_code use_isolating
      in case map_option (hashable_repr printable limit) key of
           Some (Inl e) \<Rightarrow> unprintable_put e s es c
         | _ \<Rightarrow> cache_put H (key_text printable limit) clk message_id key s es c)"

end
