(* ===== verification/Bundle.thy ===== *)
theory Bundle
  imports Cache_Keys Locale_Codes Reference_Extraction Reference_Graph Parser_Core Resolver
begin

text \<open>
  The bundle: \<open>runtime/bundle_lifecycle.py\<close>, \<open>bundle_registration.py\<close>, \<open>bundle_mutation.py\<close>,
  \<open>bundle_formatting.py\<close>, \<open>bundle_queries.py\<close> and \<open>cache_config.py\<close>.  A method that changes the
  bundle returns it with the result or the exception, so that what an exception leaves
  behind is visible.  The methods hold the readers-writer lock for their whole body; they are
  the atomic steps between which the lock of Rwlock orders the threads.
\<close>

section \<open>The platform\<close>

text \<open>What the code takes from the interpreter, from the decimal context and from Babel.\<close>

record platform =
  pl_hash :: digest
  pl_printable :: "uchar \<Rightarrow> bool"
  pl_clock :: clock
  pl_recursion_limit :: int
  pl_int_digits :: nat
  pl_decimal_prec :: nat
  pl_babel :: plural_support

section \<open>Configuration\<close>

record cache_config =
  cfg_size :: int
  cfg_write_once :: bool
  cfg_integrity_strict :: bool
  cfg_enable_audit :: bool
  cfg_max_audit :: int
  cfg_max_entry_weight :: int
  cfg_max_errors :: int

definition mk_cache_config ::
    "py_object \<Rightarrow> bool \<Rightarrow> bool \<Rightarrow> bool \<Rightarrow> py_object \<Rightarrow> py_object \<Rightarrow> py_object \<Rightarrow> py_error + cache_config" where
  "mk_cache_config max_entries write_once integrity_strict enable_audit max_audit max_weight max_errors =
     res_bind (require_positive_int max_entries) (\<lambda>n.
     res_bind (require_positive_int max_weight) (\<lambda>w.
     res_bind (require_positive_int max_errors) (\<lambda>m.
     res_bind (require_positive_int max_audit) (\<lambda>a.
       Inr \<lparr>cfg_size = n, cfg_write_once = write_once, cfg_integrity_strict = integrity_strict,
            cfg_enable_audit = enable_audit, cfg_max_audit = a, cfg_max_entry_weight = w, cfg_max_errors = m\<rparr>))))"

section \<open>The bundle\<close>

type_synonym message_node = "message_data \<times> comment option \<times> span option"
type_synonym term_node = "term_data \<times> comment option \<times> span option"

record fluent_bundle =
  b_locale :: ustr
  b_isolating :: bool
  b_strict :: bool
  b_messages :: "(ustr, message_node) odict"
  b_terms :: "(ustr, term_node) odict"
  b_msg_deps :: "(ustr, ustr set) odict"
  b_term_deps :: "(ustr, ustr set) odict"
  b_max_source_size :: int
  b_max_nesting_depth :: int
  b_max_expansion_size :: int
  b_parser :: fluent_parser
  b_registry :: function_registry
  b_owns_registry :: bool
  b_resolver_registry :: function_registry
  b_cache :: "hashable cache option"
  b_readings :: nat

definition DEFAULT_MAX_EXPANSION_SIZE :: int where
  "DEFAULT_MAX_EXPANSION_SIZE = 1000000"

definition bundle_cache_of :: "bool \<Rightarrow> cache_config option \<Rightarrow> py_error + hashable cache option" where
  "bundle_cache_of strict config =
     (case config of
        None \<Rightarrow> Inr None
      | Some cfg \<Rightarrow>
          map_sum id Some
            (mk_cache (cfg_size cfg) (cfg_max_entry_weight cfg) (cfg_max_errors cfg) (cfg_write_once cfg)
              (cfg_integrity_strict cfg \<and> strict) (cfg_enable_audit cfg) (cfg_max_audit cfg)))"

text \<open>
  \<open>__init__\<close>: the locale context is created first (\<open>contexts\<close> is its class-level cache), then
  the parser, the registry, the cache.  \<open>functions\<close> is Left for an object of another class.
\<close>

definition mk_bundle ::
    "platform \<Rightarrow> (ustr \<Rightarrow> 'l locale_parse) \<Rightarrow> 'l \<Rightarrow> function_registry \<Rightarrow> ustr option \<Rightarrow> bool \<Rightarrow>
     cache_config option \<Rightarrow> unit + function_registry option \<Rightarrow> int option \<Rightarrow> int option \<Rightarrow> int option \<Rightarrow> bool \<Rightarrow>
     'l context_cache \<Rightarrow> (py_error + fluent_bundle) \<times> 'l context_cache" where
  "mk_bundle P babel_parse en_us shared locale use_isolating config functions
       source_limit nesting_limit expansion_limit strict contexts =
     (case require_locale_code locale of
        Inl e \<Rightarrow> (Inl e, contexts)
      | Inr canonical \<Rightarrow>
          (case create_or_raise babel_parse en_us (Some canonical) contexts of
             (Inl e, contexts) \<Rightarrow> (Inl e, contexts)
           | (Inr ctx, contexts) \<Rightarrow>
               let source_size = (case source_limit of Some n \<Rightarrow> n | None \<Rightarrow> MAX_SOURCE_SIZE);
                   nesting = depth_clamp (pl_recursion_limit P)
                     (case nesting_limit of Some d \<Rightarrow> d | None \<Rightarrow> int MAX_DEPTH);
                   expansion = (case expansion_limit of Some n \<Rightarrow> n | None \<Rightarrow> DEFAULT_MAX_EXPANSION_SIZE)
               in (res_bind (mk_parser (pl_recursion_limit P) (Some source_size) (Some nesting) None) (\<lambda>parser.
                   res_bind
                     (case functions of
                        Inl _ \<Rightarrow> Inl TypeError
                      | Inr (Some r) \<Rightarrow> Inr (copy_registry r, True)
                      | Inr None \<Rightarrow> Inr (shared, False)) (\<lambda>(registry, owns).
                   res_bind (bundle_cache_of strict config) (\<lambda>cache.
                     Inr \<lparr>b_locale = lc_locale_code ctx, b_isolating = use_isolating, b_strict = strict,
                          b_messages = [], b_terms = [], b_msg_deps = [], b_term_deps = [],
                          b_max_source_size = source_size, b_max_nesting_depth = nesting,
                          b_max_expansion_size = expansion, b_parser = parser, b_registry = registry,
                          b_owns_registry = owns, b_resolver_registry = registry, b_cache = cache,
                          b_readings = 0\<rparr>))), contexts)))"

definition cache_enabled :: "fluent_bundle \<Rightarrow> bool" where
  "cache_enabled b \<longleftrightarrow> b_cache b \<noteq> None"

definition cache_usage :: "fluent_bundle \<Rightarrow> nat" where
  "cache_usage b = (case b_cache b of None \<Rightarrow> 0 | Some c \<Rightarrow> cache_size c)"

section \<open>Exceptions\<close>

datatype bundle_error =
    FormattingIntegrityError ustr integrity_context "fluent_error list" ustr ustr
  | SyntaxIntegrityError ustr integrity_context "entry list" "ustr option"
  | CacheError cache_error
  | ResolverFatal fatal_error
  | FluentRaised fluent_error
  | PyRaised py_error

type_synonym 'a bundle_result = "fluent_bundle \<times> (bundle_error + 'a)"
type_synonym format_output = "ustr \<times> fluent_error list"

text \<open>A context of the component \<open>bundle\<close>, with two readings of the clock.\<close>

definition bundle_context ::
    "platform \<Rightarrow> string \<Rightarrow> ustr \<Rightarrow> ustr \<Rightarrow> ustr \<Rightarrow> fluent_bundle \<Rightarrow> integrity_context \<times> fluent_bundle" where
  "bundle_context P operation key expected actual b =
     (\<lparr>ic_component = u ''bundle'', ic_operation = u operation, ic_key = key, ic_expected = expected,
       ic_actual = actual, ic_timestamp = pl_clock P (b_readings b), ic_wall_time = pl_clock P (b_readings b + 1)\<rparr>,
      b\<lparr>b_readings := b_readings b + 2\<rparr>)"

definition and_more :: "nat \<Rightarrow> ustr" where
  "and_more n = (if 3 < n then u '' (and '' @ dec_digits (n - 3) @ u '' more)'' else [])"

section \<open>Registration\<close>

record pending_registration =
  pend_messages :: "(ustr, message_node) odict"
  pend_terms :: "(ustr, term_node) odict"
  pend_msg_deps :: "(ustr, ustr set) odict"
  pend_term_deps :: "(ustr, ustr set) odict"
  pend_junk :: "entry list"
  pend_warnings :: "(string \<times> ustr) list"

definition no_pending :: pending_registration where
  "no_pending = \<lparr>pend_messages = [], pend_terms = [], pend_msg_deps = [], pend_term_deps = [], pend_junk = [],
     pend_warnings = []\<rparr>"

text \<open>\<open>entry_dependency_set(*extract_references(entry))\<close>; None when the depth limit is exceeded.\<close>

definition entry_dependencies :: "platform \<Rightarrow> entry_data \<Rightarrow> ustr set option" where
  "entry_dependencies P e =
     map_option (\<lambda>(ms, ts). entry_dependency_set ms ts)
       (extract_references (depth_clamp (pl_recursion_limit P) (int MAX_DEPTH)) e)"

definition collect_entry ::
    "platform \<Rightarrow> fluent_bundle \<Rightarrow> entry \<Rightarrow> pending_registration \<Rightarrow> pending_registration option" where
  "collect_entry P b e pend =
     (case e of
        Message i v ats cm sp \<Rightarrow>
          map_option (\<lambda>deps.
              pend\<lparr>pend_warnings := pend_warnings pend @
                        (if id_name i \<in> set (od_keys (b_messages b)) \<or> id_name i \<in> set (od_keys (pend_messages pend))
                         then [(''message'', id_name i)] else []),
                      pend_messages := od_set (id_name i) ((i, v, ats), cm, sp) (pend_messages pend),
                      pend_msg_deps := od_set (id_name i) deps (pend_msg_deps pend)\<rparr>)
            (entry_dependencies P (v, ats))
      | Term i v ats cm sp \<Rightarrow>
          map_option (\<lambda>deps.
              pend\<lparr>pend_warnings := pend_warnings pend @
                        (if id_name i \<in> set (od_keys (b_terms b)) \<or> id_name i \<in> set (od_keys (pend_terms pend))
                         then [(''term'', id_name i)] else []),
                      pend_terms := od_set (id_name i) ((i, v, ats), cm, sp) (pend_terms pend),
                      pend_term_deps := od_set (id_name i) deps (pend_term_deps pend)\<rparr>)
            (entry_dependencies P (Some v, ats))
      | Junk content ans sp \<Rightarrow> Some (pend\<lparr>pend_junk := pend_junk pend @ [e]\<rparr>)
      | CommentEntry c \<Rightarrow> Some pend)"

fun collect_pending_entries ::
    "platform \<Rightarrow> fluent_bundle \<Rightarrow> entry list \<Rightarrow> pending_registration \<Rightarrow> pending_registration option" where
  "collect_pending_entries P b [] pend = Some pend"
| "collect_pending_entries P b (e # es) pend =
     (case collect_entry P b e pend of
        None \<Rightarrow> None
      | Some pend \<Rightarrow> collect_pending_entries P b es pend)"

text \<open>\<open>dict.update\<close>\<close>

definition od_update :: "('k, 'v) odict \<Rightarrow> ('k, 'v) odict \<Rightarrow> ('k, 'v) odict" where
  "od_update new d = fold (\<lambda>(k, v). od_set k v) new d"

fun junk_content :: "entry \<Rightarrow> ustr" where
  "junk_content (Junk content ans sp) = content"
| "junk_content _ = []"

text \<open>\<open>source_path or "<string>"\<close>\<close>

definition source_desc :: "ustr option \<Rightarrow> ustr" where
  "source_desc path = (case path of Some p \<Rightarrow> if p = [] then u ''<string>'' else p | None \<Rightarrow> u ''<string>'')"

definition syntax_error_message :: "platform \<Rightarrow> entry list \<Rightarrow> ustr option \<Rightarrow> ustr" where
  "syntax_error_message P junk path =
     u ''Strict mode: '' @ dec_digits (length junk) @ u '' syntax error(s) in '' @ source_desc path @ u '': '' @
     str_join (u ''; '') (map (\<lambda>j. py_repr (pl_printable P) (take 50 (junk_content j))) (take 3 junk)) @
     and_more (length junk)"

definition clear_bundle_cache :: "fluent_bundle \<Rightarrow> fluent_bundle" where
  "clear_bundle_cache b = b\<lparr>b_cache := map_option cache_clear (b_cache b)\<rparr>"

definition register_resource ::
    "platform \<Rightarrow> entry list \<Rightarrow> ustr option \<Rightarrow> fluent_bundle \<Rightarrow> entry list bundle_result" where
  "register_resource P es path b =
     (case collect_pending_entries P b es no_pending of
        None \<Rightarrow>
          (case fluent_error_of (pl_hash P) (DepthExceeded (depth_clamp (pl_recursion_limit P) (int MAX_DEPTH))) of
             Inl e \<Rightarrow> (b, Inl (PyRaised e))
           | Inr e \<Rightarrow> (b, Inl (FluentRaised e)))
      | Some pend \<Rightarrow>
          let junk = pend_junk pend
          in if b_strict b \<and> junk \<noteq> [] then
               let (ctx, b) = bundle_context P ''add_resource'' (source_desc path) (u ''<no syntax errors>'')
                     (u ''<'' @ dec_digits (length junk) @ u '' syntax error(s)>'') b
               in (b, Inl (SyntaxIntegrityError (syntax_error_message P junk path) ctx junk path))
             else
               (clear_bundle_cache (b
                  \<lparr>b_messages := od_update (pend_messages pend) (b_messages b),
                   b_terms := od_update (pend_terms pend) (b_terms b),
                   b_msg_deps := od_update (pend_msg_deps pend) (b_msg_deps b),
                   b_term_deps := od_update (pend_term_deps pend) (b_term_deps b)\<rparr>),
                Inr junk))"

text \<open>The source is None when it is not a string.\<close>

definition add_resource :: "platform \<Rightarrow> ustr option \<Rightarrow> ustr option \<Rightarrow> fluent_bundle \<Rightarrow> entry list bundle_result" where
  "add_resource P src path b =
     (case src of
        None \<Rightarrow> (b, Inl (PyRaised TypeError))
      | Some s \<Rightarrow>
          (case parse (b_parser b) s of
             Returns r \<Rightarrow> register_resource P (entries r) path b
           | Raises e \<Rightarrow> (b, Inl (PyRaised e))
           | _ \<Rightarrow> (b, Inl (PyRaised RuntimeError))))"

definition add_resource_stream ::
    "platform \<Rightarrow> ustr list \<Rightarrow> ustr option \<Rightarrow> fluent_bundle \<Rightarrow> entry list bundle_result" where
  "add_resource_stream P lines path b =
     (case parse_stream (b_parser b) lines of
        (es, None) \<Rightarrow> register_resource P es path b
      | (es, Some e) \<Rightarrow> (b, Inl (PyRaised e)))"

section \<open>Functions and the cache\<close>

definition add_function :: "ustr \<Rightarrow> python_function \<Rightarrow> fluent_bundle \<Rightarrow> unit bundle_result" where
  "add_function name f b =
     (let b = (if b_owns_registry b then b
               else b\<lparr>b_registry := copy_registry (b_registry b), b_owns_registry := True\<rparr>)
      in case register f (Some name) [] (b_registry b) of
           Inl e \<Rightarrow> (b, Inl (PyRaised e))
         | Inr r \<Rightarrow> (clear_bundle_cache (b\<lparr>b_registry := r, b_resolver_registry := r\<rparr>), Inr ()))"

section \<open>Formatting\<close>

definition bundle_resolver :: "platform \<Rightarrow> fluent_bundle \<Rightarrow> resolver" where
  "bundle_resolver P b =
     mk_resolver (b_locale b) (\<lambda>name. map_option fst (od_get (b_messages b) name))
       (\<lambda>name. map_option fst (od_get (b_terms b) name)) (b_resolver_registry b) (b_isolating b)
       (b_max_nesting_depth b) (b_max_expansion_size b) (pl_recursion_limit P) (pl_int_digits P)
       (pl_decimal_prec P) (pl_babel P)"

definition strict_error_message :: "ustr \<Rightarrow> fluent_error list \<Rightarrow> ustr" where
  "strict_error_message message_id es =
     u ''Strict mode: formatting '' @ [CH_APOSTROPHE] @ message_id @ [CH_APOSTROPHE] @ u '' produced '' @
     dec_digits (length es) @ u '' error(s): '' @ str_join (u ''; '') (map fe_message (take 3 es)) @
     and_more (length es)"

definition raise_strict_error ::
    "platform \<Rightarrow> ustr \<Rightarrow> ustr \<Rightarrow> fluent_error list \<Rightarrow> fluent_bundle \<Rightarrow> 'a bundle_result" where
  "raise_strict_error P message_id fallback_value es b =
     (let (ctx, b) = bundle_context P ''format_pattern'' message_id (u ''<no errors>'')
            (u ''<'' @ dec_digits (length es) @ u '' error(s)>'') b
      in (b, Inl (FormattingIntegrityError (strict_error_message message_id es) ctx es fallback_value message_id)))"

text \<open>The result, or the strict error when there are errors.\<close>

definition strict_result ::
    "platform \<Rightarrow> ustr \<Rightarrow> format_output \<Rightarrow> fluent_bundle \<Rightarrow> format_output bundle_result" where
  "strict_result P message_id out b =
     (if snd out \<noteq> [] \<and> b_strict b then raise_strict_error P message_id (fst out) (snd out) b else (b, Inr out))"

definition invalid_request_result ::
    "platform \<Rightarrow> ustr \<Rightarrow> error_category \<Rightarrow> string \<Rightarrow> ustr \<Rightarrow> fluent_bundle \<Rightarrow> format_output bundle_result" where
  "invalid_request_result P message_id category code message b =
     (case mk_fluent_error (pl_hash P) message category (Some (mk_diagnostic code message None)) None of
        Inl e \<Rightarrow> (b, Inl (PyRaised e))
      | Inr e \<Rightarrow> strict_result P message_id (FALLBACK_INVALID, [e]) b)"

text \<open>
  A request as it arrives: a message id that may not be a string (None), arguments and an
  attribute that may be objects of a wrong class, given by its name (Left).
\<close>

record request =
  rq_message :: "ustr option"
  rq_args :: "ustr + (ustr \<times> fvalue) list option"
  rq_attribute :: "ustr + ustr option"

definition validate_format_request ::
    "platform \<Rightarrow> request \<Rightarrow> fluent_bundle \<Rightarrow>
     format_output bundle_result + ustr \<times> (ustr \<times> fvalue) list option \<times> ustr option" where
  "validate_format_request P rq b =
     (case rq_message rq of
        None \<Rightarrow> Inl (invalid_request_result P (u ''<empty>'') REFERENCE ''MESSAGE_NOT_FOUND''
                       (u ''Invalid message ID: empty or non-string'') b)
      | Some message_id \<Rightarrow>
          if message_id = [] then
            Inl (invalid_request_result P (u ''<empty>'') REFERENCE ''MESSAGE_NOT_FOUND''
                   (u ''Invalid message ID: empty or non-string'') b)
          else
            (case rq_args rq of
               Inl arg_type \<Rightarrow>
                 Inl (invalid_request_result P message_id RESOLUTION ''INVALID_ARGUMENT''
                   (u ''Invalid args type: expected Mapping or None, got '' @ arg_type) b)
             | Inr args \<Rightarrow>
                 (case rq_attribute rq of
                    Inl attribute_type \<Rightarrow>
                      Inl (invalid_request_result P message_id RESOLUTION ''INVALID_ARGUMENT''
                        (u ''Invalid attribute type: expected str or None, got '' @ attribute_type) b)
                  | Inr attribute \<Rightarrow> Inr (message_id, args, attribute))))"

text \<open>The cached result, if there is one.\<close>

definition lookup_cached_pattern ::
    "platform \<Rightarrow> ustr \<Rightarrow> (ustr \<times> fvalue) list option \<Rightarrow> ustr option \<Rightarrow> fluent_bundle \<Rightarrow> format_output option bundle_result" where
  "lookup_cached_pattern P message_id args attribute b =
     (case b_cache b of
        None \<Rightarrow> (b, Inr None)
      | Some c \<Rightarrow>
          (case request_get (pl_hash P) (pl_printable P) (pl_int_digits P) (pl_clock P) message_id args attribute
                  (b_locale b) (b_isolating b) c of
             (c, Inl e) \<Rightarrow> (b\<lparr>b_cache := Some c\<rparr>, Inl (CacheError e))
           | (c, Inr None) \<Rightarrow> (b\<lparr>b_cache := Some c\<rparr>, Inr None)
           | (c, Inr (Some entry)) \<Rightarrow>
               (case strict_result P message_id (as_result entry) (b\<lparr>b_cache := Some c\<rparr>) of
                  (b, Inl e) \<Rightarrow> (b, Inl e)
                | (b, Inr out) \<Rightarrow> (b, Inr (Some out)))))"

definition store_result ::
    "platform \<Rightarrow> ustr \<Rightarrow> (ustr \<times> fvalue) list option \<Rightarrow> ustr option \<Rightarrow> format_output \<Rightarrow> fluent_bundle \<Rightarrow> unit bundle_result" where
  "store_result P message_id args attribute out b =
     (case b_cache b of
        None \<Rightarrow> (b, Inr ())
      | Some c \<Rightarrow>
          (case request_put (pl_hash P) (pl_printable P) (pl_int_digits P) (pl_clock P) message_id args attribute
                  (b_locale b) (b_isolating b) (fst out) (snd out) c of
             (c, Inl e) \<Rightarrow> (b\<lparr>b_cache := Some c\<rparr>, Inl (CacheError e))
           | (c, Inr _) \<Rightarrow> (b\<lparr>b_cache := Some c\<rparr>, Inr ())))"

fun fluent_errors :: "digest \<Rightarrow> resolution_error list \<Rightarrow> py_error + fluent_error list" where
  "fluent_errors H [] = Inr []"
| "fluent_errors H (e # es) =
     res_bind (fluent_error_of H e) (\<lambda>x. res_bind (fluent_errors H es) (\<lambda>xs. Inr (x # xs)))"

definition args_of :: "(ustr \<times> fvalue) list option \<Rightarrow> fargs" where
  "args_of args = (case args of None \<Rightarrow> Map.empty | Some kvs \<Rightarrow> map_of kvs)"

text \<open>What the resolver makes of a message that exists.\<close>

definition resolved_output ::
    "platform \<Rightarrow> int \<Rightarrow> message_data \<Rightarrow> (ustr \<times> fvalue) list option \<Rightarrow> ustr option \<Rightarrow> fluent_bundle \<Rightarrow>
     bundle_error + format_output" where
  "resolved_output P global_depth m args attribute b =
     (case resolve (bundle_resolver P b) global_depth m (args_of args) attribute of
        Value (text, es) \<Rightarrow>
          (case fluent_errors (pl_hash P) es of
             Inl e \<Rightarrow> Inl (PyRaised e)
           | Inr fes \<Rightarrow> Inr (text, fes))
      | Fluent e \<Rightarrow>
          (case fluent_error_of (pl_hash P) e of Inl x \<Rightarrow> Inl (PyRaised x) | Inr fe \<Rightarrow> Inl (FluentRaised fe))
      | Fatal e \<Rightarrow> Inl (ResolverFatal e)
      | Exhausted \<Rightarrow> Inl (PyRaised RuntimeError))"

definition missing_message ::
    "platform \<Rightarrow> ustr \<Rightarrow> fluent_bundle \<Rightarrow> format_output bundle_result" where
  "missing_message P message_id b =
     (case fluent_error_of (pl_hash P) (MessageNotFound message_id) of
        Inl e \<Rightarrow> (b, Inl (PyRaised e))
      | Inr e \<Rightarrow> strict_result P message_id (fallback_message message_id, [e]) b)"

definition format_checked ::
    "platform \<Rightarrow> int \<Rightarrow> ustr \<Rightarrow> (ustr \<times> fvalue) list option \<Rightarrow> ustr option \<Rightarrow> fluent_bundle \<Rightarrow> format_output bundle_result" where
  "format_checked P global_depth message_id args attribute b =
     (case lookup_cached_pattern P message_id args attribute b of
        (b, Inl e) \<Rightarrow> (b, Inl e)
      | (b, Inr (Some out)) \<Rightarrow> (b, Inr out)
      | (b, Inr None) \<Rightarrow>
          (case od_get (b_messages b) message_id of
             None \<Rightarrow> missing_message P message_id b
           | Some (m, _) \<Rightarrow>
               (case resolved_output P global_depth m args attribute b of
                  Inl e \<Rightarrow> (b, Inl e)
                | Inr out \<Rightarrow>
                    (case store_result P message_id args attribute out b of
                       (b, Inl e) \<Rightarrow> (b, Inl e)
                     | (b, Inr _) \<Rightarrow> strict_result P message_id out b))))"

text \<open>\<open>format_pattern\<close>, in a task whose global resolution depth is \<open>global_depth\<close>.\<close>

definition format_pattern :: "platform \<Rightarrow> int \<Rightarrow> request \<Rightarrow> fluent_bundle \<Rightarrow> format_output bundle_result" where
  "format_pattern P global_depth rq b =
     (case validate_format_request P rq b of
        Inl r \<Rightarrow> r
      | Inr (message_id, args, attribute) \<Rightarrow> format_checked P global_depth message_id args attribute b)"

section \<open>Queries\<close>

definition has_message :: "ustr \<Rightarrow> fluent_bundle \<Rightarrow> bool" where
  "has_message message_id b \<longleftrightarrow> message_id \<in> set (od_keys (b_messages b))"

definition get_message :: "ustr \<Rightarrow> fluent_bundle \<Rightarrow> message_node option" where
  "get_message message_id b = od_get (b_messages b) message_id"

definition get_term :: "ustr \<Rightarrow> fluent_bundle \<Rightarrow> term_node option" where
  "get_term term_id b = od_get (b_terms b) term_id"

definition has_attribute :: "ustr \<Rightarrow> ustr \<Rightarrow> fluent_bundle \<Rightarrow> bool" where
  "has_attribute message_id attribute b =
     (case get_message message_id b of
        None \<Rightarrow> False
      | Some ((i, v, ats), _) \<Rightarrow> list_ex (\<lambda>a. id_name (attr_id a) = attribute) ats)"

definition get_message_ids :: "fluent_bundle \<Rightarrow> ustr list" where
  "get_message_ids b = od_keys (b_messages b)"

end
