(* ===== verification/Digit_Text.thy ===== *)
theory Digit_Text
  imports Ast
begin

text \<open>Strings of decimal digits: their value, and what the readers of numbers make of them.\<close>

lemma digits_value_append: "digits_value (ds @ [ch]) = 10 * digits_value ds + (ch - 48)"
  by (simp add: digits_value_def)

lemma digits_value_dec_digits [simp]: "digits_value (dec_digits n) = n"
proof (induction n rule: dec_digits.induct)
  case (1 n)
  then show ?case
    by (subst dec_digits.simps) (auto simp: digits_value_append, simp_all add: digits_value_def)
qed

lemma digits_value_zeros: "digits_value (replicate k 48 @ ds) = digits_value ds"
  by (induction k) (simp_all add: digits_value_def)

lemma digits_value_zero_head: "digits_value (48 # ds) = digits_value ds"
  by (simp add: digits_value_def)

lemma dec_digits_chars: "ch \<in> set (dec_digits n) \<Longrightarrow> 48 \<le> ch \<and> ch \<le> 57"
proof (induction n rule: dec_digits.induct)
  case (1 n)
  then show ?case by (subst (asm) (2) dec_digits.simps) (auto split: if_splits)
qed

lemma dec_digits_nonempty [simp]: "dec_digits n \<noteq> []"
  by (subst dec_digits.simps) simp

definition digits :: "ustr \<Rightarrow> bool" where
  "digits ds \<longleftrightarrow> (\<forall>ch \<in> set ds. 48 \<le> ch \<and> ch \<le> 57)"

lemma digits_simps [simp]:
  "digits []" "digits (ch # ds) \<longleftrightarrow> 48 \<le> ch \<and> ch \<le> 57 \<and> digits ds"
  "digits (ds @ es) \<longleftrightarrow> digits ds \<and> digits es" "digits (replicate k 48)" "digits (dec_digits n)"
  by (auto simp: digits_def dest: dec_digits_chars)

lemma digits_take: "digits ds \<Longrightarrow> digits (take k ds)" "digits ds \<Longrightarrow> digits (drop k ds)"
  by (auto simp: digits_def dest: in_set_takeD in_set_dropD)

lemma digits_spans:
  assumes "digits ds"
  shows "takeWhile (\<lambda>ch. ch \<noteq> 69) (ds @ s) = ds @ takeWhile (\<lambda>ch. ch \<noteq> 69) s"
    and "dropWhile (\<lambda>ch. ch \<noteq> 69) (ds @ s) = dropWhile (\<lambda>ch. ch \<noteq> 69) s"
    and "dropWhile (\<lambda>ch. ch \<noteq> CH_DOT) (ds @ s) = dropWhile (\<lambda>ch. ch \<noteq> CH_DOT) s"
    and "filter (\<lambda>ch. ch \<noteq> CH_DOT) (ds @ s) = ds @ filter (\<lambda>ch. ch \<noteq> CH_DOT) s"
  using assms by (induction ds) auto

lemma digits_spans_nil:
  assumes "digits ds"
  shows "takeWhile (\<lambda>ch. ch \<noteq> 69) ds = ds" "dropWhile (\<lambda>ch. ch \<noteq> 69) ds = []"
    "dropWhile (\<lambda>ch. ch \<noteq> CH_DOT) ds = []" "filter (\<lambda>ch. ch \<noteq> CH_DOT) ds = ds"
  using assms by (induction ds) auto

lemma digits_value_nil [simp]: "digits_value [] = 0"
  by (simp add: digits_value_def)

lemma plain_digits:
  assumes "digits xs"
  shows "takeWhile (\<lambda>ch. ch \<noteq> CH_DOT) (xs @ CH_DOT # ys) = xs" "dropWhile (\<lambda>ch. ch \<noteq> CH_DOT) (xs @ CH_DOT # ys) = CH_DOT # ys"
    "takeWhile (\<lambda>ch. ch \<noteq> CH_DOT) xs = xs" "dropWhile (\<lambda>ch. ch \<noteq> CH_DOT) xs = []" "list_all is_ascii_digit xs"
  using assms by (induction xs) (auto simp: is_ascii_digit_def)

lemma digits_sign:
  "strip_minus (CH_MINUS # s) = (True, s)"
  "digits xs \<Longrightarrow> xs \<noteq> [] \<Longrightarrow> strip_minus (xs @ ys) = (False, xs @ ys)"
  by (cases xs; auto simp: strip_minus_def)+

end
