(* ===== verification/Cache_Key_Properties.thy ===== *)
theory Cache_Key_Properties
  imports Cache_Keys Digit_Text
begin

text \<open>
  When two requests share a cache key.  The key determines the message, the attribute and
  the arguments, as long as the arguments are of the built-in types; for other sequences and
  mappings it does not determine the class, which is what the resolver writes.
\<close>

section \<open>The text of a decimal determines it\<close>

definition read_exponent :: "ustr \<Rightarrow> int" where
  "read_exponent s =
     (case s of
        [] \<Rightarrow> 0
      | e # [] \<Rightarrow> 0
      | e # sign # ds \<Rightarrow> (if sign = CH_MINUS then - int (digits_value ds) else int (digits_value ds)))"

definition read_finite :: "ustr \<Rightarrow> nat \<times> int" where
  "read_finite body =
     (let mantissa = takeWhile (\<lambda>ch. ch \<noteq> 69) body
      in (digits_value (filter (\<lambda>ch. ch \<noteq> CH_DOT) mantissa),
          read_exponent (dropWhile (\<lambda>ch. ch \<noteq> 69) body) - int (length (tl (dropWhile (\<lambda>ch. ch \<noteq> CH_DOT) mantissa)))))"

lemma read_plain: "digits ds \<Longrightarrow> read_finite ds = (digits_value ds, 0)"
  by (simp add: read_finite_def read_exponent_def digits_spans_nil)

lemma read_point:
  "digits ds \<Longrightarrow> digits es \<Longrightarrow> read_finite (ds @ CH_DOT # es) = (digits_value (ds @ es), - int (length es))"
  by (simp add: read_finite_def read_exponent_def digits_spans digits_spans_nil)

lemma read_scientific:
  "digits ds \<Longrightarrow> digits es \<Longrightarrow>
     read_finite (ds @ CH_DOT # es @ 69 # sign # xs) =
       (digits_value (ds @ es), (if sign = CH_MINUS then - int (digits_value xs) else int (digits_value xs)) - int (length es))"
  "digits ds \<Longrightarrow> read_finite (ds @ 69 # sign # xs) =
     (digits_value ds, if sign = CH_MINUS then - int (digits_value xs) else int (digits_value xs))"
  by (simp_all add: read_finite_def read_exponent_def digits_spans digits_spans_nil)

lemma finite_text_scientific:
  "\<not> (x \<le> 0 \<and> - 6 < int (length ds) + x) \<Longrightarrow>
     finite_text ds x = take 1 ds @ (if 1 < length ds then CH_DOT # drop 1 ds else []) @
       [69, if int (length ds) + x - 1 < 0 then CH_MINUS else CH_PLUS] @ dec_digits (nat \<bar>int (length ds) + x - 1\<bar>)"
  unfolding finite_text_def Let_def by (simp only: if_False) simp

lemma read_finite_text:
  assumes "digits ds" "ds \<noteq> []"
  shows "read_finite (finite_text ds x) = (digits_value ds, x)"
proof -
  let ?left = "int (length ds) + x"
  consider (small) "x \<le> 0" "- 6 < ?left" "?left \<le> 0" | (whole) "x = 0" "0 < ?left"
    | (point) "x < 0" "0 < ?left" | (scientific) "\<not> (x \<le> 0 \<and> - 6 < ?left)" by linarith
  then show ?thesis
  proof cases
    case small
    then have "finite_text ds x = [48] @ CH_DOT # (replicate (nat (- ?left)) 48 @ ds)"
      by (simp add: finite_text_def Let_def)
    moreover have "int (length (replicate (nat (- ?left)) 48 @ ds)) = - x" using small by simp
    ultimately show ?thesis
      using read_point [of "[48]" "replicate (nat (- ?left)) 48 @ ds"] assms(1)
      by (simp add: digits_value_zeros digits_value_zero_head)
  next
    case whole
    then have "finite_text ds x = ds" using assms(2) by (simp add: finite_text_def)
    then show ?thesis using assms(1) whole by (simp add: read_plain)
  next
    case point
    then have "finite_text ds x = take (nat ?left) ds @ CH_DOT # drop (nat ?left) ds"
      by (simp add: finite_text_def Let_def)
    moreover have "int (length (drop (nat ?left) ds)) = - x" using point by simp
    ultimately show ?thesis using assms(1) by (simp only: read_point digits_take) simp
  next
    case scientific
    let ?e = "?left - 1"
    let ?xs = "dec_digits (nat \<bar>?e\<bar>)" and ?sign = "if ?e < 0 then CH_MINUS else CH_PLUS"
    have e: "(if ?sign = CH_MINUS then - int (digits_value ?xs) else int (digits_value ?xs)) = ?e"
      by simp
    show ?thesis
    proof (cases "1 < length ds")
      case True
      then have "finite_text ds x = take 1 ds @ CH_DOT # drop 1 ds @ 69 # ?sign # ?xs"
        by (simp only: finite_text_scientific [OF scientific] if_True append_Cons append_Nil append_assoc)
      then have "read_finite (finite_text ds x) = (digits_value (take 1 ds @ drop 1 ds), ?e - int (length (drop 1 ds)))"
        using assms(1) by (simp only: read_scientific digits_take e)
      moreover have "?e - int (length (drop 1 ds)) = x" using True by simp
      ultimately show ?thesis by (simp only: append_take_drop_id)
    next
      case False
      with assms(2) have one: "take 1 ds = ds" "length ds = 1" by (cases ds; simp)+
      then have "finite_text ds x = ds @ 69 # ?sign # ?xs"
        using False by (simp only: finite_text_scientific [OF scientific] if_False append_Cons append_Nil)
      then have "read_finite (finite_text ds x) = (digits_value ds, ?e)"
        using assms(1) by (simp only: read_scientific e)
      then show ?thesis using one by simp
    qed
  qed
qed

lemma finite_text_digit:
  "digits ds \<Longrightarrow> ds \<noteq> [] \<Longrightarrow> \<exists>ch rest. finite_text ds x = ch # rest \<and> 48 \<le> ch \<and> ch \<le> 57"
  by (cases ds) (auto simp: finite_text_def Let_def take_Cons')

lemma str_finite:
  "\<exists>ch rest. finite_text (dec_digits c) x = ch # rest \<and> 48 \<le> ch \<and> ch \<le> 57"
  by (rule finite_text_digit) simp_all

lemma signed_texts:
  "(if neg then [CH_MINUS] else []) @ ch # s = (if neg' then [CH_MINUS] else []) @ ch' # s' \<Longrightarrow>
     ch \<noteq> CH_MINUS \<Longrightarrow> ch' \<noteq> CH_MINUS \<Longrightarrow> neg = neg' \<and> ch # s = ch' # s'"
  by (auto split: if_splits)

lemma str_decimal_injective:
  assumes "str_decimal d = str_decimal d'" "\<not> is_nan d" "\<not> is_nan d'"
  shows "d = d'"
proof -
  have infinity: "u ''Infinity'' = 73 # u ''nfinity''" by (simp add: u_def)
  show ?thesis
  proof (cases d; cases d')
    fix neg c x neg' c' x'
    assume d: "d = Finite neg c x" "d' = Finite neg' c' x'"
    obtain ch s ch' s' where t: "finite_text (dec_digits c) x = ch # s" "finite_text (dec_digits c') x' = ch' # s'"
        "ch \<noteq> CH_MINUS" "ch' \<noteq> CH_MINUS"
      using str_finite [of c x] str_finite [of c' x'] by auto
    with assms(1) have eq: "neg = neg'" "finite_text (dec_digits c) x = finite_text (dec_digits c') x'"
      using signed_texts [of neg ch s neg' ch' s'] by (simp_all add: d str_decimal_def)
    have "read_finite (finite_text (dec_digits k) y) = (k, y)" for k y by (simp add: read_finite_text)
    with eq(2) have "(c, x) = (c', x')" by metis
    with eq(1) show ?thesis by (simp add: d)
  next
    fix neg c x neg'
    assume d: "d = Finite neg c x" "d' = Infinite neg'"
    obtain ch s where "finite_text (dec_digits c) x = ch # s" "ch \<noteq> CH_MINUS" "ch \<noteq> 73" using str_finite [of c x] by auto
    with assms(1) show ?thesis using signed_texts [of neg ch s neg' 73] by (simp add: d str_decimal_def infinity)
  next
    fix neg c x neg'
    assume d: "d = Infinite neg'" "d' = Finite neg c x"
    obtain ch s where "finite_text (dec_digits c) x = ch # s" "ch \<noteq> CH_MINUS" "ch \<noteq> 73" using str_finite [of c x] by auto
    with assms(1) show ?thesis using signed_texts [of neg' 73 _ neg ch s] by (simp add: d str_decimal_def infinity)
  next
    fix neg neg'
    assume d: "d = Infinite neg" "d' = Infinite neg'"
    with assms(1) show ?thesis using signed_texts [of neg 73 _ neg' 73] by (simp add: str_decimal_def infinity)
  qed (use assms(2,3) in \<open>simp_all add: is_nan_def\<close>)
qed

lemma str_decimal_no_tag: "\<not> is_nan d \<Longrightarrow> str_decimal d \<noteq> u ''__NaN__''"
proof (cases d)
  case (Finite neg c x)
  then show ?thesis using str_finite [of c x] by (auto simp: str_decimal_def u_def)
qed (auto simp: str_decimal_def u_def is_nan_def)


section \<open>Values with the same hashable form\<close>

text \<open>The form of a value without the budget.\<close>

definition number_form :: "numeric \<Rightarrow> hashable" where
  "number_form v = (case v of IntNumber i \<Rightarrow> tagged ''__int__'' [HInt i] | DecimalNumber d \<Rightarrow> hashable_decimal d)"

fun hash_form :: "fvalue \<Rightarrow> hashable" where
  "hash_form (VStr s) = HStr s"
| "hash_form VNone = HNone"
| "hash_form (VBool b) = tagged ''__bool__'' [HBool b]"
| "hash_form (VInt i) = tagged ''__int__'' [HInt i]"
| "hash_form (VDecimal d) = hashable_decimal d"
| "hash_form (VDatetime i tz s) = hashable_datetime i tz"
| "hash_form (VDate i s) = tagged ''__date__'' [HStr i]"
| "hash_form (VNumber v formatted precision) =
     tagged ''__fluentnumber__'' [HStr (number_type v), number_form v, HStr formatted, hashable_precision precision]"
| "hash_form (VSequence kind name xs) = hashable_sequence (sequence_tag kind) (map hash_form xs)"
| "hash_form (VMapping kind name kvs) = hashable_mapping (mapping_tag kind) (map (\<lambda>(k, v). (k, hash_form v)) kvs)"
| "hash_form (VFloat r) = HNone"
| "hash_form (VOther name s) = HNone"

text \<open>The values that have one.\<close>

fun keyable :: "fvalue \<Rightarrow> bool" where
  "keyable (VFloat r) = False"
| "keyable (VOther name s) = False"
| "keyable (VSequence kind name xs) = list_all keyable xs"
| "keyable (VMapping kind name kvs) = list_all (\<lambda>(k, v). keyable v) kvs"
| "keyable v = True"

lemma go_number_form: "go_number v d n = Inr (h, c) \<Longrightarrow> h = number_form v"
  by (auto simp: go_number_def number_form_def res_bind_Inr)

lemma hash_go_form:
  "hash_go v d n = Inr (h, c) \<Longrightarrow> keyable v \<and> h = hash_form v"
  "hash_items xs d n = Inr (hs, c) \<Longrightarrow> list_all keyable xs \<and> hs = map hash_form xs"
  "hash_pairs kvs d n = Inr (ps, c) \<Longrightarrow>
     list_all (\<lambda>(k, v). keyable v) kvs \<and> ps = map (\<lambda>(k, v). (k, hash_form v)) kvs"
  by (induction v d n and xs d n and kvs d n arbitrary: h c and hs c and ps c rule: hash_go_hash_items_hash_pairs.induct)
    (auto simp: res_bind_Inr dest: go_number_form)


text \<open>
  The values that their form determines, NaNs apart: of the built-in classes, dates with the
  text of their class, dictionaries in the order of their keys.
\<close>

definition datetime_text :: "ustr \<Rightarrow> ustr" where
  "datetime_text i = map (\<lambda>ch. if ch = 84 then 32 else ch) i"

fun built_in :: "fvalue \<Rightarrow> bool" where
  "built_in (VDate i s) = (s = i)"
| "built_in (VDatetime i tz s) = (s = datetime_text i \<and> tz \<noteq> Some (u ''__naive__''))"
| "built_in (VSequence kind name xs) =
     (name = (if kind = ListValue then u ''list'' else u ''tuple'') \<and> kind \<noteq> OtherSequence \<and> list_all built_in xs)"
| "built_in (VMapping kind name kvs) =
     (name = u ''dict'' \<and> kind = DictValue \<and> sorted (map fst kvs) \<and> distinct (map fst kvs) \<and>
      list_all (\<lambda>(k, v). built_in v) kvs)"
| "built_in v = True"

lemma u_inject [simp]: "u s = u t \<longleftrightarrow> s = t"
  by (simp add: u_def inj_map_eq_map inj_of_char)

text \<open>All NaNs made one.\<close>

definition forget_nan :: "decimal_number \<Rightarrow> decimal_number" where
  "forget_nan d = (if is_nan d then NotANumber False False 0 else d)"

fun forget_nans :: "fvalue \<Rightarrow> fvalue" where
  "forget_nans (VDecimal d) = VDecimal (forget_nan d)"
| "forget_nans (VNumber (DecimalNumber d) formatted precision) = VNumber (DecimalNumber (forget_nan d)) formatted precision"
| "forget_nans (VSequence kind name xs) = VSequence kind name (map forget_nans xs)"
| "forget_nans (VMapping kind name kvs) = VMapping kind name (map (\<lambda>(k, v). (k, forget_nans v)) kvs)"
| "forget_nans v = v"

lemma map_determines:
  "map f xs = map f ys \<Longrightarrow> (\<And>x y. x \<in> set xs \<Longrightarrow> y \<in> set ys \<Longrightarrow> f x = f y \<Longrightarrow> g x = g y) \<Longrightarrow> map g xs = map g ys"
  by (induction xs arbitrary: ys) (auto simp: Cons_eq_map_conv)

lemma sort_key_sorted: "sorted (map f xs) \<Longrightarrow> sort_key f xs = xs"
  by (induction xs) (auto simp: insort_is_Cons)

lemma hashable_decimal_inject [simp]: "hashable_decimal d = hashable_decimal d' \<longleftrightarrow> forget_nan d = forget_nan d'"
  using str_decimal_no_tag [of d] str_decimal_no_tag [of d'] str_decimal_injective [of d d']
  by (auto simp: hashable_decimal_def tagged_def forget_nan_def is_nan_def)

lemma number_form_inject:
  "number_form v = number_form v' \<longleftrightarrow> forget_nans (VNumber v f p) = forget_nans (VNumber v' f p)"
  by (cases v; cases v') (auto simp: number_form_def, simp_all add: hashable_decimal_def tagged_def split: if_splits)

lemma hashable_precision_inject [simp]: "hashable_precision p = hashable_precision q \<longleftrightarrow> p = q"
  by (simp add: hashable_precision_def split: option.split)

lemma hashable_item_inject [simp]: "hashable_item a = hashable_item b \<longleftrightarrow> a = b"
  by (auto simp: hashable_item_def prod_eq_iff)

lemma hashable_datetime_inject:
  "tz \<noteq> Some (u ''__naive__'') \<Longrightarrow> tz' \<noteq> Some (u ''__naive__'') \<Longrightarrow>
     hashable_datetime i tz = hashable_datetime i' tz' \<longleftrightarrow> i = i' \<and> tz = tz'"
  by (auto simp: hashable_datetime_def tagged_def split: option.splits)

lemma hashable_mapping_inject:
  assumes "hashable_mapping t ps = hashable_mapping t qs" "sorted (map fst ps)" "sorted (map fst qs)"
  shows "ps = qs"
proof -
  have "map hashable_item ps = map hashable_item qs"
    using assms by (simp add: hashable_mapping_def tagged_def sort_key_sorted)
  then show ?thesis using map_determines [of hashable_item ps qs "\<lambda>x. x"] by simp
qed

lemma hashable_decimal_tagged:
  "hashable_decimal d = tagged ''__decimal__'' [HStr (if is_nan d then u ''__NaN__'' else str_decimal d)]"
  by (simp add: hashable_decimal_def)

lemmas hash_form_defs = tagged_def hashable_sequence_def hashable_mapping_def hashable_datetime_def hashable_decimal_tagged
  sequence_tag_def mapping_tag_def

lemma pair_values: "map fst (map (\<lambda>(k, v). (k, f v)) kvs) = map fst kvs"
  by (simp add: case_prod_unfold)

lemma hash_form_determines:
  "hash_form v = hash_form v' \<Longrightarrow> keyable v \<Longrightarrow> keyable v' \<Longrightarrow> built_in v \<Longrightarrow> built_in v' \<Longrightarrow>
     forget_nans v = forget_nans v'"
proof (induction v arbitrary: v')
  case (VSequence kind name xs)
  obtain kind' xs' where v': "v' = VSequence kind' (if kind' = ListValue then u ''list'' else u ''tuple'') xs'"
      "sequence_tag kind' = sequence_tag kind" "map hash_form xs = map hash_form xs'"
    using VSequence.prems by (cases v'; cases kind) (auto simp: hash_form_defs split: if_splits)
  have "map forget_nans xs = map forget_nans xs'"
    using v'(3) by (rule map_determines) (use VSequence v'(1) in \<open>auto simp: list_all_iff\<close>)
  then show ?case using v' VSequence.prems by (auto simp: sequence_tag_def split: sequence_kind.splits)
next
  case (VMapping kind name kvs)
  obtain kvs' where v': "v' = VMapping DictValue (u ''dict'') kvs'"
    using VMapping.prems by (cases v') (auto simp: hash_form_defs split: sequence_kind.splits)
  have eq: "map (\<lambda>(k, v). (k, hash_form v)) kvs = map (\<lambda>(k, v). (k, hash_form v)) kvs'"
    by (rule hashable_mapping_inject [of "mapping_tag DictValue"])
      (use VMapping.prems v' in \<open>simp_all add: pair_values del: map_map\<close>)
  have "map (\<lambda>(k, v). (k, forget_nans v)) kvs = map (\<lambda>(k, v). (k, forget_nans v)) kvs'"
    using eq
  proof (rule map_determines)
    fix p q
    assume pq: "p \<in> set kvs" "q \<in> set kvs'" "(case p of (k, v) \<Rightarrow> (k, hash_form v)) = (case q of (k, v) \<Rightarrow> (k, hash_form v))"
    obtain k x y where "p = (k, x)" "q = (k, y)" "hash_form x = hash_form y" using pq(3) by (cases p; cases q) auto
    with pq(1,2) show "(case p of (k, v) \<Rightarrow> (k, forget_nans v)) = (case q of (k, v) \<Rightarrow> (k, forget_nans v))"
      using VMapping v' by (fastforce simp: list_all_iff)
  qed
  then show ?case using v' VMapping.prems by simp
next
  case (VDatetime i tz s)
  then show ?case by (cases v') (auto simp: hash_form_defs split: option.splits sequence_kind.splits if_splits)
next
  case (VNumber x formatted precision)
  then obtain y where "v' = VNumber y formatted precision" "number_form x = number_form y"
    by (cases v') (auto simp: hash_form_defs split: if_splits)
  then show ?case using number_form_inject [of x y formatted precision] by blast
next
  case (VDecimal d)
  then obtain d' where v': "v' = VDecimal d'" by (cases v') (auto simp: hash_form_defs split: if_splits)
  with VDecimal.prems(1) have "hashable_decimal d = hashable_decimal d'" by simp
  then show ?case by (simp add: v' del: hash_form.simps)
qed (case_tac v'; auto simp: hash_form_defs split: if_splits)+


section \<open>Requests with the same key\<close>

definition args_map :: "(ustr \<times> fvalue) list option \<Rightarrow> ustr \<rightharpoonup> fvalue" where
  "args_map args = (case args of None \<Rightarrow> Map.empty | Some kvs \<Rightarrow> map_of kvs)"

definition built_in_args :: "(ustr \<times> fvalue) list option \<Rightarrow> bool" where
  "built_in_args args =
     (case args of None \<Rightarrow> True | Some kvs \<Rightarrow> distinct (map fst kvs) \<and> list_all (\<lambda>(k, v). built_in v) kvs)"

lemma hash_args_form:
  "hash_args kvs = Inr hs \<Longrightarrow>
     list_all (\<lambda>(k, v). keyable v) kvs \<and> hs = map (\<lambda>(k, v). (k, hash_form v)) kvs"
  by (induction kvs arbitrary: hs)
    (auto simp: res_bind_Inr make_hashable_def dest: hash_go_form(1))

lemma make_key_form:
  assumes "make_key mid args attribute locale iso_flag = Some k"
  shows "\<exists>kvs. args_map args = map_of kvs \<and> (built_in_args args \<longrightarrow> built_in_args (Some kvs)) \<and>
    list_all (\<lambda>(k, v). keyable v) kvs \<and>
    k = key_tuple mid (sort_key fst (map (\<lambda>(k, v). (k, hash_form v)) kvs)) attribute locale iso_flag"
proof (cases args)
  case None
  with assms show ?thesis by (intro exI [of _ "[]"]) (auto simp: make_key_def args_map_def built_in_args_def)
next
  case (Some kvs)
  with assms show ?thesis
    by (intro exI [of _ kvs])
      (auto simp: make_key_def args_map_def built_in_args_def split: sum.splits dest: hash_args_form)
qed

lemma key_tuple_inject:
  "key_tuple mid ps attribute locale iso_flag = key_tuple mid' ps' attribute' locale' iso_flag' \<longleftrightarrow>
     mid = mid' \<and> ps = ps' \<and> attribute = attribute' \<and> locale = locale' \<and> iso_flag = iso_flag'"
  using map_determines [of hashable_item ps ps' "\<lambda>x. x"] by (auto simp: key_tuple_def split: option.splits)

text \<open>Arguments up to the NaNs among their values.\<close>

definition forget_nan_args :: "(ustr \<rightharpoonup> fvalue) \<Rightarrow> ustr \<rightharpoonup> fvalue" where
  "forget_nan_args args = map_option forget_nans \<circ> args"

lemma forget_nan_map: "forget_nan_args (map_of kvs) = map_of (map (\<lambda>(k, v). (k, forget_nans v)) kvs)"
  by (simp add: forget_nan_args_def map_of_map)

lemma same_forms_same_map:
  assumes "sort_key fst (map (\<lambda>(k, v). (k, hash_form v)) kvs) = sort_key fst (map (\<lambda>(k, v). (k, hash_form v)) kvs')"
    and "built_in_args (Some kvs)" "built_in_args (Some kvs')"
    and "list_all (\<lambda>(k, v). keyable v) kvs" "list_all (\<lambda>(k, v). keyable v) kvs'"
  shows "forget_nan_args (map_of kvs) = forget_nan_args (map_of kvs')"
proof -
  let ?f = "\<lambda>(k, v). (k, forget_nans v)" and ?h = "\<lambda>(k, v). (k, hash_form v)"
  have half: "?f ` set kvs \<subseteq> ?f ` set kvs'"
    if sets: "?h ` set kvs = ?h ` set kvs'"
      and ok: "built_in_args (Some kvs)" "built_in_args (Some kvs')"
      "list_all (\<lambda>(k, v). keyable v) kvs" "list_all (\<lambda>(k, v). keyable v) kvs'" for kvs kvs' :: "(ustr \<times> fvalue) list"
  proof
    fix q
    assume "q \<in> ?f ` set kvs"
    then obtain k v where kv: "q = (k, forget_nans v)" "(k, v) \<in> set kvs" by auto
    have "?h (k, v) \<in> ?h ` set kvs'"
      unfolding sets [symmetric] using kv(2) by (rule imageI)
    then obtain v' where v': "(k, v') \<in> set kvs'" "hash_form v = hash_form v'" by auto
    have "forget_nans v = forget_nans v'"
      using ok kv(2) v'(1)
      by (intro hash_form_determines [OF v'(2)]) (fastforce simp: built_in_args_def list_all_iff)+
    then show "q \<in> ?f ` set kvs'" using kv v'(1) by force
  qed
  have "set (sort_key fst (map ?h kvs)) = set (sort_key fst (map ?h kvs'))"
    using assms(1) by simp
  then have "?h ` set kvs = ?h ` set kvs'" by simp
  then have "set (map ?f kvs) = set (map ?f kvs')" using half [of kvs kvs'] half [of kvs' kvs] assms(2-5) by simp
  moreover have "distinct (map fst (map ?f kvs))" "distinct (map fst (map ?f kvs'))"
    using assms(2,3) by (simp_all add: built_in_args_def pair_values del: map_map)
  ultimately show ?thesis unfolding forget_nan_map by (simp only: map_of_inject_set)
qed

lemma same_key_similar_request:
  assumes "make_key mid args attribute locale iso_flag = Some k"
    and "make_key mid' args' attribute' locale' iso_flag' = Some k"
    and "built_in_args args" "built_in_args args'"
  shows "mid = mid' \<and> forget_nan_args (args_map args) = forget_nan_args (args_map args') \<and>
    attribute = attribute' \<and> locale = locale' \<and> iso_flag = iso_flag'"
proof -
  obtain kvs kvs' where k: "args_map args = map_of kvs" "built_in_args (Some kvs)" "list_all (\<lambda>(k, v). keyable v) kvs"
      "k = key_tuple mid (sort_key fst (map (\<lambda>(k, v). (k, hash_form v)) kvs)) attribute locale iso_flag"
      "args_map args' = map_of kvs'" "built_in_args (Some kvs')" "list_all (\<lambda>(k, v). keyable v) kvs'"
      "k = key_tuple mid' (sort_key fst (map (\<lambda>(k, v). (k, hash_form v)) kvs')) attribute' locale' iso_flag'"
    using make_key_form [OF assms(1)] make_key_form [OF assms(2)] assms(3,4) by blast
  then show ?thesis using same_forms_same_map [of kvs kvs'] by (simp add: key_tuple_inject)
qed

text \<open>Arguments without a NaN other than the quiet one: the key determines them.\<close>

definition determined_args :: "(ustr \<times> fvalue) list option \<Rightarrow> bool" where
  "determined_args args \<longleftrightarrow> built_in_args args \<and> forget_nan_args (args_map args) = args_map args"

lemma same_key_same_request:
  assumes "make_key mid args attribute locale iso_flag = Some k"
    and "make_key mid' args' attribute' locale' iso_flag' = Some k"
    and "determined_args args" "determined_args args'"
  shows "mid = mid' \<and> args_map args = args_map args' \<and> attribute = attribute' \<and> locale = locale' \<and> iso_flag = iso_flag'"
  using same_key_similar_request [OF assms(1,2)] assms(3,4) by (simp add: determined_args_def)


text \<open>C35: the key of a request determines the message, the attribute and the value of every
  argument, when the arguments are of the built-in types, up to the identification of all NaNs: it
  determines which arguments are NaNs, but not their signs and payloads.\<close>

theorem key_determines_request:
  assumes "make_key mid args attribute locale iso_flag = Some k"
    and "make_key mid' args' attribute' locale' iso_flag' = Some k"
    and "built_in_args args" "built_in_args args'"
  shows "mid = mid' \<and> forget_nan_args (args_map args) = forget_nan_args (args_map args') \<and>
    attribute = attribute' \<and> locale = locale' \<and> iso_flag = iso_flag'"
  using assms by (rule same_key_similar_request)

definition price_args :: "(ustr \<times> fvalue) list" where
  "price_args =
     [(u ''b'', VDate (u ''2026-01-31'') (u ''2026-01-31'')),
      (u ''a'', VSequence ListValue (u ''list'') [VBool True, VInt 1, VDecimal (NotANumber False False 0)])]"

lemma price_key:
  "make_key (u ''m'') (Some price_args) None (u ''en'') True = make_key (u ''m'') (Some (rev price_args)) None (u ''en'') True"
  "make_key (u ''m'') (Some price_args) None (u ''en'') True \<noteq> None"
  by (simp_all add: make_key_def price_args_def make_hashable_def enter_node_def HASHABLE_NODE_BUDGET_def
      MAX_DEPTH_def sequence_tag_def u_def)

theorem key_determines_request_witness:
  "forget_nan_args (args_map (Some (rev price_args))) = forget_nan_args (args_map (Some price_args))"
proof -
  obtain k where "make_key (u ''m'') (Some price_args) None (u ''en'') True = Some k"
    "make_key (u ''m'') (Some (rev price_args)) None (u ''en'') True = Some k"
    using price_key by force
  moreover have "built_in_args (Some price_args)" "built_in_args (Some (rev price_args))"
    by (simp_all add: built_in_args_def price_args_def)
  ultimately show ?thesis using key_determines_request [of "u ''m''" "Some (rev price_args)"] by blast
qed

text \<open>All NaNs have one key, but the resolver writes the signaling ones, the signs and the payloads.\<close>

theorem nan_keys_collide:
  "make_key mid (Some [(name, VDecimal (NotANumber neg signaling payload))]) attribute locale iso_flag =
     make_key mid (Some [(name, VDecimal (NotANumber False False 0))]) attribute locale iso_flag \<and>
   format_value limit (VDecimal (NotANumber False False 0)) = Formatted (u ''NaN'') \<and>
   format_value limit (VDecimal (NotANumber True False 0)) = Formatted (u ''-NaN'') \<and>
   format_value limit (VDecimal (NotANumber False True 0)) = Formatted (u ''sNaN'')"
  by (simp add: make_key_def make_hashable_def hashable_decimal_def is_nan_def format_value_def str_decimal_def u_def)

text \<open>Two sequences of other classes have one key and two texts: \<open>[range]\<close> and \<open>[UserList]\<close>.
  The same holds for a subclass of \<open>list\<close> and the \<open>list\<close> itself.\<close>

theorem shared_key_different_text:
  "make_hashable (VSequence kind (u ''range'') [VInt 0]) = make_hashable (VSequence kind (u ''UserList'') [VInt 0]) \<and>
   format_value limit (VSequence kind (u ''range'') [VInt 0]) = Formatted (u ''[range]'') \<and>
   format_value limit (VSequence kind (u ''UserList'') [VInt 0]) = Formatted (u ''[UserList]'')"
  by (simp add: make_hashable_def format_value_def u_def)

end
