(* ===== verification/Bundle_Cache.thy ===== *)
theory Bundle_Cache
  imports Bundle Cache_Theorems Cache_Key_Properties
begin

text \<open>
  The format cache as the bundle uses it: what a lookup and a store do to the bindings, and
  the equality of the results of a bundle with a cache and of one without.
\<close>

section \<open>One operation\<close>

text \<open>The state of a cache after at most \<open>n\<close> operations.\<close>

definition cache_good :: "digest \<Rightarrow> ('k \<Rightarrow> ustr) \<Rightarrow> nat \<Rightarrow> 'k cache \<Rightarrow> bool" where
  "cache_good H K n c \<longleftrightarrow> cache_inv H K c \<and> encodable c \<and> c_sequence c \<le> n"

definition binding :: "'k cache \<Rightarrow> 'k \<Rightarrow> (ustr \<times> fluent_error list) option" where
  "binding c k = map_of (contents c) k"

lemma good_new:
  assumes "mk_cache n w m wo st aud maxaud = Inr c" "w < 2 ^ 30" "m < 2 ^ 32"
  shows "cache_good H K 0 c" "binding c k = None"
  using assms mk_cache_inv [OF assms(1)]
  by (auto simp: cache_good_def encodable_def binding_def contents_def nat_less_iff)

lemma good_clear: "cache_good H K n c \<Longrightarrow> cache_good H K n (cache_clear c)" "binding (cache_clear c) k = None"
  by (simp_all add: cache_good_def cache_clear_def cache_inv_def encodable_def od_valid_def od_keys_def od_get_def
      binding_def contents_def)

lemma good_mono: "cache_good H K n c \<Longrightarrow> n \<le> n' \<Longrightarrow> cache_good H K n' c"
  by (simp add: cache_good_def)

lemma good_get:
  assumes "cache_good H K n c"
  obtains c' r where "cache_get H K clk mid key c = (c', Inr r)" "cache_good H K n c'"
    "\<And>k. binding c' k = binding c k"
    "map_option as_result r = (case key of None \<Rightarrow> None | Some k \<Rightarrow> binding c k)"
proof -
  let ?c = "fst (cache_get H K clk mid key c)"
  have inv: "cache_inv H K c" using assms by (simp add: cache_good_def)
  have "binding ?c k = binding c k" for k
    using lookup_lru_touch [of _ "contents c" k]
    by (simp add: binding_def contents_def get_store [OF inv] lru_map(1) split: option.split)
  moreover have "cache_good H K n ?c"
    using assms get_inv [OF inv, of clk mid key] get_bounds [OF inv, of clk mid key]
    by (simp add: cache_good_def encodable_def same_bounds_def)
  moreover have "\<exists>r. snd (cache_get H K clk mid key c) = Inr r \<and>
      map_option as_result r = (case key of None \<Rightarrow> None | Some k \<Rightarrow> binding c k)"
  proof (cases key)
    case None
    then show ?thesis by (simp add: cache_get_def)
  next
    case (Some k)
    with spec_lookup [OF inv, where clk = clk and mid = mid and k = k] show ?thesis by (auto simp: binding_def split: sum.splits)
  qed
  ultimately show ?thesis using that by (metis prod.collapse)
qed

lemma store_lookup:
  assumes "map_of (lru_store n k v d) k' = Some v'" "distinct (map fst d)"
  shows "k' = k \<and> v' = v \<or> map_of d k' = Some v'"
proof -
  have "(k', v') \<in> set (lru_store n k v d)" using assms(1) by (rule map_of_SomeD)
  then have "(k', v') \<in> set (filter (\<lambda>x. fst x \<noteq> k) d @ [(k, v)])"
    unfolding lru_store_def Let_def by (rule in_set_dropD)
  then show ?thesis using assms(2) by (auto simp: map_of_eq_Some_iff)
qed

lemma distinct_contents: "cache_inv H K c \<Longrightarrow> distinct (map fst (contents c))"
  by (simp add: cache_inv_def od_valid_def od_keys_def contents_def comp_def)

text \<open>A store succeeds when the key has no binding or the same one.\<close>

lemma put_same:
  assumes inv: "cache_inv H K c" and enc: "encodable c" "c_sequence c < 2 ^ 64 - 1" and ver: "verified H es"
    and same: "\<And>k v. key = Some k \<Longrightarrow> binding c k = Some v \<Longrightarrow> v = (s, es)"
  shows "snd (cache_put H K clk mid key s es c) = Inr ()"
proof (cases "admitted (c_max_entry_weight c) (c_max_errors c) s es \<and> key \<noteq> None")
  case False
  then show ?thesis by (auto simp: cache_put_def admitted_def)
next
  case True
  then obtain k where k: "key = Some k" and adm: "admitted (c_max_entry_weight c) (c_max_errors c) s es" by auto
  show ?thesis
  proof (cases "if c_write_once c then od_get (c_store c) k else None")
    case None
    with k adm put_new_inv [OF inv enc adm ver, of clk k] show ?thesis
      by (auto simp: cache_put_def admitted_def)
  next
    case (Some old)
    then have old: "od_get (c_store c) k = Some old" by (auto split: if_splits)
    then have "as_result old = (s, es)" using same [OF k] by (simp add: binding_def contents_get)
    moreover have "entry_ok H K (c_sequence c) k old" using inv old by (simp add: cache_inv_def)
    ultimately have "compute_content_hash H s es = Inr (ce_content_hash old)"
      by (simp add: entry_ok_def as_result_def)
    with k adm Some show ?thesis by (simp add: cache_put_def admitted_def put_existing_def)
  qed
qed

lemma good_put:
  assumes "cache_good H K n c" "n < 2 ^ 64 - 1" "verified H es"
    and "\<And>k v. key = Some k \<Longrightarrow> binding c k = Some v \<Longrightarrow> v = (s, es)"
  shows "\<exists>c'. cache_put H K clk mid key s es c = (c', Inr ()) \<and> cache_good H K (Suc n) c' \<and>
    (\<forall>k v. binding c' k = Some v \<longrightarrow> key = Some k \<and> v = (s, es) \<or> binding c k = Some v)"
proof -
  let ?c = "fst (cache_put H K clk mid key s es c)"
  have inv: "cache_inv H K c" and enc: "encodable c" and q: "c_sequence c < 2 ^ 64 - 1"
    using assms(1,2) by (auto simp: cache_good_def)
  have ok: "step_ok H K (Put mid key s es) c ?c" using put_step [OF inv enc q assms(3)] .
  have "key = Some k \<and> v = (s, es) \<or> binding c k = Some v" if new: "binding ?c k = Some v" for k v
  proof (cases "contents ?c = contents c")
    case False
    with ok obtain x where "key = Some x" "contents ?c = lru_store (c_maxsize c) x (s, es) (contents c)"
      by (auto simp: step_ok_def split: option.splits if_splits)
    with new store_lookup [OF _ distinct_contents [OF inv]] show ?thesis by (simp add: binding_def) blast
  qed (use new in \<open>simp add: binding_def\<close>)
  moreover have "cache_good H K (Suc n) ?c"
    using ok assms(1) by (auto simp: cache_good_def step_ok_def encodable_def same_bounds_def)
  moreover have "snd (cache_put H K clk mid key s es c) = Inr ()"
    using put_same [OF inv enc q assms(3,4)] .
  ultimately show ?thesis by (intro exI [of _ ?c]) (auto simp: prod_eq_iff)
qed

section \<open>Errors that the bundle constructs\<close>

lemma mk_fluent_error_verifies: "mk_fluent_error H m k d c = Inr e \<Longrightarrow> verify_integrity H e = Inr True"
  by (auto simp: mk_fluent_error_def verify_integrity_def res_bind_Inr)

lemma fluent_error_verifies: "fluent_error_of H x = Inr e \<Longrightarrow> verify_integrity H e = Inr True"
  by (auto simp: fluent_error_of_def mk_fluent_error_verifies split: resolution_error.splits option.splits)

lemma fluent_errors_verified: "fluent_errors H xs = Inr es \<Longrightarrow> verified H es"
  by (induction xs arbitrary: es) (auto simp: res_bind_Inr verified_def fluent_error_verifies)

lemma fluent_errors_length: "fluent_errors H xs = Inr es \<Longrightarrow> length es = length xs"
  by (induction xs arbitrary: es) (auto simp: res_bind_Inr)

section \<open>A bundle with a cache and one without\<close>

definition printable_key :: "platform \<Rightarrow> ustr \<Rightarrow> (ustr \<times> fvalue) list option \<Rightarrow> ustr option \<Rightarrow> fluent_bundle \<Rightarrow> bool" where
  "printable_key P mid args attribute b \<longleftrightarrow>
     (case make_key mid args attribute (b_locale b) (b_isolating b) of
        None \<Rightarrow> True
      | Some k \<Rightarrow> (case hashable_repr (pl_printable P) (pl_int_digits P) k of Inl e \<Rightarrow> False | Inr t \<Rightarrow> True))"

lemma request_printable:
  assumes "printable_key P mid args attribute b"
  shows "request_get (pl_hash P) (pl_printable P) (pl_int_digits P) clk mid args attribute (b_locale b) (b_isolating b) c =
      cache_get (pl_hash P) (key_text (pl_printable P) (pl_int_digits P)) clk mid
        (make_key mid args attribute (b_locale b) (b_isolating b)) c"
    and "request_put (pl_hash P) (pl_printable P) (pl_int_digits P) clk mid args attribute (b_locale b) (b_isolating b) s es c =
      cache_put (pl_hash P) (key_text (pl_printable P) (pl_int_digits P)) clk mid
        (make_key mid args attribute (b_locale b) (b_isolating b)) s es c"
  using assms
  by (auto simp: printable_key_def request_get_def request_put_def Let_def split: option.splits sum.splits)

text \<open>Every binding is what the resolver would compute now, in a task of the global depth \<open>g\<close>.\<close>

definition serves :: "platform \<Rightarrow> int \<Rightarrow> fluent_bundle \<Rightarrow> hashable cache \<Rightarrow> bool" where
  "serves P g b c \<longleftrightarrow>
     (\<forall>mid args attribute k out.
        make_key mid args attribute (b_locale b) (b_isolating b) = Some k \<longrightarrow> determined_args args \<longrightarrow>
        binding c k = Some out \<longrightarrow>
        (\<exists>m x. od_get (b_messages b) mid = Some (m, x) \<and> resolved_output P g m args attribute b = Inr out))"

definition good_bundle :: "platform \<Rightarrow> int \<Rightarrow> nat \<Rightarrow> fluent_bundle \<Rightarrow> bool" where
  "good_bundle P g n b \<longleftrightarrow>
     (case b_cache b of
        None \<Rightarrow> True
      | Some c \<Rightarrow> cache_good (pl_hash P) (key_text (pl_printable P) (pl_int_digits P)) n c \<and> serves P g b c)"

definition uncached :: "fluent_bundle \<Rightarrow> fluent_bundle" where
  "uncached b = b\<lparr>b_cache := None\<rparr>"

lemma resolver_frame [simp]:
  "bundle_resolver P (b\<lparr>b_cache := x\<rparr>) = bundle_resolver P b"
  "bundle_resolver P (b\<lparr>b_readings := n\<rparr>) = bundle_resolver P b"
  by (simp_all add: bundle_resolver_def)

lemma output_frame [simp]:
  "resolved_output P g m args attribute (b\<lparr>b_cache := x\<rparr>) = resolved_output P g m args attribute b"
  "resolved_output P g m args attribute (b\<lparr>b_readings := n\<rparr>) = resolved_output P g m args attribute b"
  by (simp_all add: resolved_output_def)

lemma serves_frame [simp]:
  "serves P g (b\<lparr>b_cache := x\<rparr>) c = serves P g b c" "serves P g (b\<lparr>b_readings := n\<rparr>) c = serves P g b c"
  by (simp_all add: serves_def)

lemma args_of_map: "args_of args = args_map args"
  by (simp add: args_of_def args_map_def)

text \<open>The strict error depends on nothing of the cache.\<close>

lemma strict_result_cache:
  "snd (strict_result P mid out (b\<lparr>b_cache := x\<rparr>)) = snd (strict_result P mid out b)"
  by (simp add: strict_result_def raise_strict_error_def bundle_context_def)

lemma missing_cache: "snd (missing_message P mid (b\<lparr>b_cache := x\<rparr>)) = snd (missing_message P mid b)"
  by (simp add: missing_message_def strict_result_cache split: sum.split)

lemma strict_result_uncached:
  "uncached (fst (strict_result P mid out b)) = fst (strict_result P mid out (uncached b))"
  "snd (strict_result P mid out (uncached b)) = snd (strict_result P mid out b)"
  "b_cache (fst (strict_result P mid out b)) = b_cache b"
  "good_bundle P g n (fst (strict_result P mid out b)) = good_bundle P g n b"
  by (simp_all add: strict_result_def raise_strict_error_def bundle_context_def uncached_def good_bundle_def split: option.split)

lemma missing_uncached:
  "uncached (fst (missing_message P mid b)) = fst (missing_message P mid (uncached b))"
  "snd (missing_message P mid (uncached b)) = snd (missing_message P mid b)"
  "good_bundle P g n (fst (missing_message P mid b)) = good_bundle P g n b"
  by (simp_all add: missing_message_def strict_result_uncached split: sum.split)

lemma invalid_uncached:
  "uncached (fst (invalid_request_result P mid category code message b)) =
     fst (invalid_request_result P mid category code message (uncached b))"
  "snd (invalid_request_result P mid category code message (uncached b)) =
     snd (invalid_request_result P mid category code message b)"
  "good_bundle P g n (fst (invalid_request_result P mid category code message b)) = good_bundle P g n b"
  by (simp_all add: invalid_request_result_def strict_result_uncached split: sum.split)

text \<open>Formatting without a cache.\<close>

lemma format_uncached:
  assumes "b_cache b = None"
  shows "format_checked P g mid args attribute b =
    (case od_get (b_messages b) mid of
       None \<Rightarrow> missing_message P mid b
     | Some (m, x) \<Rightarrow>
         (case resolved_output P g m args attribute b of
            Inl e \<Rightarrow> (b, Inl e)
          | Inr out \<Rightarrow> strict_result P mid out b))"
  using assms
  by (auto simp: format_checked_def lookup_cached_pattern_def store_result_def split: option.split sum.split)

lemma uncached_simps [simp]:
  "b_cache (uncached b) = None" "b_messages (uncached b) = b_messages b" "b_terms (uncached b) = b_terms b"
  "resolved_output P g m args attribute (uncached b) = resolved_output P g m args attribute b"
  "uncached (b\<lparr>b_cache := x\<rparr>) = uncached b" "uncached (uncached b) = uncached b"
  by (simp_all add: uncached_def)

lemma serves_store:
  assumes "serves P g b c" "determined_args args"
    and "\<And>k v. binding c' k = Some v \<Longrightarrow>
      make_key mid args attribute (b_locale b) (b_isolating b) = Some k \<and> v = out \<or> binding c k = Some v"
    and "od_get (b_messages b) mid = Some (m, x)" "resolved_output P g m args attribute b = Inr out"
  shows "serves P g b c'"
  unfolding serves_def
proof (intro allI impI)
  fix mid' args' attribute' k out'
  assume k: "make_key mid' args' attribute' (b_locale b) (b_isolating b) = Some k" "determined_args args'" "binding c' k = Some out'"
  show "\<exists>m x. od_get (b_messages b) mid' = Some (m, x) \<and> resolved_output P g m args' attribute' b = Inr out'"
  proof (cases "binding c k = Some out'")
    case True
    with k assms(1) show ?thesis unfolding serves_def by blast
  next
    case False
    with assms(3) [OF k(3)] have "make_key mid args attribute (b_locale b) (b_isolating b) = Some k" "out' = out" by auto
    moreover from this k assms(2) have "mid' = mid \<and> args_map args' = args_map args \<and> attribute' = attribute"
      using same_key_same_request by blast
    ultimately show ?thesis using assms(4,5) by (simp add: resolved_output_def args_of_map)
  qed
qed

text \<open>One request, with the cache in a good state.\<close>

lemma format_checked_twin:
  assumes "good_bundle P g n b" "n < 2 ^ 64 - 1" "determined_args args" "printable_key P mid args attribute b"
  shows "snd (format_checked P g mid args attribute b) = snd (format_checked P g mid args attribute (uncached b)) \<and>
    uncached (fst (format_checked P g mid args attribute b)) = fst (format_checked P g mid args attribute (uncached b)) \<and>
    good_bundle P g (Suc n) (fst (format_checked P g mid args attribute b))"
proof (cases "b_cache b")
  case None
  then have "good_bundle P g (Suc n) b" by (simp add: good_bundle_def)
  with None show ?thesis
    by (auto simp: format_uncached missing_uncached strict_result_uncached split: option.splits sum.splits)
next
  case (Some c)
  let ?K = "key_text (pl_printable P) (pl_int_digits P)"
  let ?key = "make_key mid args attribute (b_locale b) (b_isolating b)"
  have c: "cache_good (pl_hash P) ?K n c" "serves P g b c" using assms(1) Some by (simp_all add: good_bundle_def)
  obtain c' r where get: "cache_get (pl_hash P) ?K (pl_clock P) mid ?key c = (c', Inr r)" "cache_good (pl_hash P) ?K n c'"
      "\<And>k. binding c' k = binding c k" "map_option as_result r = (case ?key of None \<Rightarrow> None | Some k \<Rightarrow> binding c k)"
    using good_get [OF c(1)] by blast
  have s': "serves P g b c'" using c(2) get(3) by (simp add: serves_def)
  let ?b = "b\<lparr>b_cache := Some c'\<rparr>"
  have good: "good_bundle P g (Suc n) ?b" using get(2) s' by (simp add: good_bundle_def good_mono)
  note req = request_printable [OF assms(4)]
  show ?thesis
  proof (cases r)
    case (Some entry)
    with get(4) obtain k where "?key = Some k" "binding c k = Some (as_result entry)" by (auto split: option.splits)
    then obtain m x where m: "od_get (b_messages b) mid = Some (m, x)"
        "resolved_output P g m args attribute b = Inr (as_result entry)"
      using c(2) assms(3) unfolding serves_def by blast
    have "format_checked P g mid args attribute b = strict_result P mid (as_result entry) ?b"
      using \<open>b_cache b = Some c\<close> Some get(1)
      by (simp add: format_checked_def lookup_cached_pattern_def req split: prod.split sum.split)
    moreover have "format_checked P g mid args attribute (uncached b) = strict_result P mid (as_result entry) (uncached b)"
      using m by (simp add: format_uncached)
    ultimately show ?thesis using good
      by (simp add: strict_result_uncached strict_result_cache)
  next
    case None
    then have miss: "format_checked P g mid args attribute b =
        (case od_get (b_messages b) mid of
           None \<Rightarrow> missing_message P mid ?b
         | Some (m, x) \<Rightarrow>
             (case resolved_output P g m args attribute b of
                Inl e \<Rightarrow> (?b, Inl e)
              | Inr out \<Rightarrow>
                  (case store_result P mid args attribute out ?b of
                     (b, Inl e) \<Rightarrow> (b, Inl e) | (b, Inr _) \<Rightarrow> strict_result P mid out b)))"
      using \<open>b_cache b = Some c\<close> get(1) by (simp only: format_checked_def lookup_cached_pattern_def req option.case prod.case sum.case)
        (simp split: option.split)
    show ?thesis
    proof (cases "od_get (b_messages b) mid")
      case None
      then show ?thesis using miss good
        by (simp add: format_uncached missing_uncached missing_cache)
    next
      case m: (Some y)
      obtain m x where y: "y = (m, x)" by (cases y)
      show ?thesis
      proof (cases "resolved_output P g m args attribute b")
        case (Inl e)
        then show ?thesis using miss m y good by (simp add: format_uncached)
      next
        case (Inr out)
        have ver: "verified (pl_hash P) (snd out)"
          using Inr by (auto simp: resolved_output_def dest: fluent_errors_verified split: rresult.splits sum.splits prod.splits)
        have nobinding: "binding c' k = None" if "?key = Some k" for k
          using that get(3,4) \<open>r = None\<close> by (auto split: option.splits)
        have same: "\<And>k v. ?key = Some k \<Longrightarrow> binding c' k = Some v \<Longrightarrow> v = (fst out, snd out)"
          using nobinding by auto
        obtain c'' where put: "cache_put (pl_hash P) ?K (pl_clock P) mid ?key (fst out) (snd out) c' = (c'', Inr ())"
            "cache_good (pl_hash P) ?K (Suc n) c''"
            "\<forall>k v. binding c'' k = Some v \<longrightarrow> ?key = Some k \<and> v = (fst out, snd out) \<or> binding c' k = Some v"
          using good_put [where clk = "pl_clock P" and mid = mid and key = ?key and s = "fst out", OF get(2) assms(2) ver] same
          by blast
        have "serves P g b c''"
          by (rule serves_store [OF s' assms(3), of c'' mid attribute out m x])
            (use put(3) m y Inr in \<open>auto simp del: split_paired_All\<close>)
        then have good'': "good_bundle P g (Suc n) (b\<lparr>b_cache := Some c''\<rparr>)" using put(2) by (simp add: good_bundle_def)
        have "format_checked P g mid args attribute b = strict_result P mid out (b\<lparr>b_cache := Some c''\<rparr>)"
          using miss m y Inr put(1) by (simp add: store_result_def req)
        then show ?thesis
          using good'' m y Inr
          by (simp add: format_uncached strict_result_uncached strict_result_cache)
      qed
    qed
  qed
qed

end
