(* ===== verification/Bundle_Properties.thy ===== *)
theory Bundle_Properties
  imports Bundle_Cache
begin

text \<open>
  Histories of the methods of a bundle, and the simulation between a bundle with a cache and
  the same bundle without: every step leaves both with the same contents and the same result.
\<close>

section \<open>Histories\<close>

datatype bundle_op =
    AddResource "ustr option" "ustr option"
  | AddStream "ustr list" "ustr option"
  | AddFunction ustr python_function
  | ClearCache
  | Format int request

fun bundle_step :: "platform \<Rightarrow> bundle_op \<Rightarrow> fluent_bundle \<Rightarrow> fluent_bundle" where
  "bundle_step P (AddResource src path) b = fst (add_resource P src path b)"
| "bundle_step P (AddStream lines path) b = fst (add_resource_stream P lines path b)"
| "bundle_step P (AddFunction name f) b = fst (add_function name f b)"
| "bundle_step P ClearCache b = clear_bundle_cache b"
| "bundle_step P (Format g rq) b = fst (format_pattern P g rq b)"

definition bundle_run :: "platform \<Rightarrow> bundle_op list \<Rightarrow> fluent_bundle \<Rightarrow> fluent_bundle" where
  "bundle_run P ops b = fold (bundle_step P) ops b"

section \<open>The configuration never changes\<close>

definition same_config :: "fluent_bundle \<Rightarrow> fluent_bundle \<Rightarrow> bool" where
  "same_config b b' \<longleftrightarrow>
     b_locale b' = b_locale b \<and> b_isolating b' = b_isolating b \<and> b_strict b' = b_strict b \<and>
     b_parser b' = b_parser b \<and> b_max_nesting_depth b' = b_max_nesting_depth b \<and>
     b_max_expansion_size b' = b_max_expansion_size b \<and> (b_cache b' = None \<longleftrightarrow> b_cache b = None)"

lemma same_config_refl [simp]: "same_config b b"
  by (simp add: same_config_def)

lemma same_config_trans: "same_config a b \<Longrightarrow> same_config b c \<Longrightarrow> same_config a c"
  by (simp add: same_config_def)

lemma strict_result_config: "same_config b (fst (strict_result P mid out b))"
  by (simp add: strict_result_def raise_strict_error_def bundle_context_def same_config_def)

text \<open>Formatting changes nothing but the cache and the readings of the clock.\<close>

definition same_content :: "fluent_bundle \<Rightarrow> fluent_bundle \<Rightarrow> bool" where
  "same_content b b' \<longleftrightarrow> b' = b\<lparr>b_cache := b_cache b', b_readings := b_readings b'\<rparr> \<and> (b_cache b' = None \<longleftrightarrow> b_cache b = None)"

lemma same_content_refl [simp]: "same_content b b"
  by (simp add: same_content_def)

lemma same_content_trans: "same_content a b \<Longrightarrow> same_content b c \<Longrightarrow> same_content a c"
  by (cases a, cases b, cases c) (simp add: same_content_def)

lemma same_content_config: "same_content b b' \<Longrightarrow> same_config b b'"
  by (cases b, cases b') (simp add: same_content_def same_config_def)

lemma with_cache_content: "b_cache b \<noteq> None \<Longrightarrow> same_content b (b\<lparr>b_cache := Some c\<rparr>)"
  by (simp add: same_content_def)

lemma strict_content: "strict_result P mid out b = (b', r) \<Longrightarrow> same_content b b'"
  by (auto simp: strict_result_def raise_strict_error_def bundle_context_def same_content_def split: if_splits)

lemma lookup_content: "lookup_cached_pattern P mid args attribute b = (b', r) \<Longrightarrow> same_content b b'"
  by (auto simp: lookup_cached_pattern_def with_cache_content split: option.splits prod.splits sum.splits
      dest!: strict_content intro: same_content_trans [OF with_cache_content])

lemma store_content: "store_result P mid args attribute out b = (b', r) \<Longrightarrow> same_content b b'"
  by (auto simp: store_result_def with_cache_content split: option.splits prod.splits sum.splits)

lemma missing_content: "missing_message P mid b = (b', r) \<Longrightarrow> same_content b b'"
  by (auto simp: missing_message_def split: sum.splits dest: strict_content)

lemma invalid_content: "invalid_request_result P mid category code message b = (b', r) \<Longrightarrow> same_content b b'"
  by (auto simp: invalid_request_result_def split: sum.splits dest: strict_content)

lemma format_checked_content: "format_checked P g mid args attribute b = (b', r) \<Longrightarrow> same_content b b'"
  by (auto simp: format_checked_def split: prod.splits sum.splits option.splits
      dest!: lookup_content missing_content store_content strict_content intro: same_content_trans)

lemma format_content: "same_content b (fst (format_pattern P g rq b))"
proof (cases "format_pattern P g rq b")
  case (Pair b' r)
  then show ?thesis
    by (auto simp: format_pattern_def validate_format_request_def split: option.splits sum.splits if_splits
        dest!: format_checked_content invalid_content)
qed

lemma register_config: "same_config b (fst (register_resource P es path b))"
  by (auto simp: register_resource_def Let_def bundle_context_def clear_bundle_cache_def same_config_def
      split: option.splits sum.splits)

lemma step_config: "same_config b (bundle_step P op b)"
proof (cases op)
  case (AddResource src path)
  then show ?thesis by (simp add: add_resource_def register_config split: option.split outcome.split)
next
  case (AddStream lines path)
  then show ?thesis by (simp add: add_resource_stream_def register_config split: option.split prod.split)
next
  case (AddFunction name f)
  then show ?thesis by (simp add: add_function_def Let_def clear_bundle_cache_def same_config_def split: sum.split)
next
  case ClearCache
  then show ?thesis by (simp add: clear_bundle_cache_def same_config_def)
next
  case (Format g rq)
  then show ?thesis using same_content_config [OF format_content] by simp
qed

lemma run_config: "same_config b (bundle_run P ops b)"
  by (induction ops arbitrary: b) (auto simp: bundle_run_def intro: same_config_trans step_config)

section \<open>The cache cannot be observed\<close>

text \<open>Requests whose arguments the key determines and whose key has a text.\<close>

definition keyed_request :: "platform \<Rightarrow> fluent_bundle \<Rightarrow> request \<Rightarrow> bool" where
  "keyed_request P b rq \<longleftrightarrow>
     (case (rq_message rq, rq_args rq, rq_attribute rq) of
        (Some mid, Inr args, Inr attribute) \<Rightarrow> determined_args args \<and> printable_key P mid args attribute b
      | _ \<Rightarrow> True)"

fun keyed_op :: "platform \<Rightarrow> int \<Rightarrow> fluent_bundle \<Rightarrow> bundle_op \<Rightarrow> bool" where
  "keyed_op P g b (Format g' rq) = (g' = g \<and> keyed_request P b rq)"
| "keyed_op P g b _ = True"

lemma keyed_config:
  assumes "same_config b b'"
  shows "keyed_request P b' rq = keyed_request P b rq" "keyed_op P g b' op = keyed_op P g b op"
proof -
  have "printable_key P mid args attribute b' = printable_key P mid args attribute b" for mid args attribute
    using assms by (simp add: printable_key_def same_config_def)
  then show "keyed_request P b' rq = keyed_request P b rq" for rq
    by (simp add: keyed_request_def split: option.split sum.split prod.split)
  then show "keyed_op P g b' op = keyed_op P g b op" by (cases op) simp_all
qed

lemma uncached_config [simp]: "b_parser (uncached b) = b_parser b" "b_strict (uncached b) = b_strict b"
  by (simp_all add: uncached_def)

lemma good_later: "good_bundle P g n b \<Longrightarrow> n \<le> n' \<Longrightarrow> good_bundle P g n' b"
  by (auto simp: good_bundle_def good_mono split: option.splits)

lemma good_cleared: "good_bundle P g n b \<Longrightarrow> b_cache b' = map_option cache_clear (b_cache b) \<Longrightarrow> good_bundle P g n b'"
  by (auto simp: good_bundle_def good_clear serves_def split: option.splits)

lemma collect_frame: "collect_pending_entries P (b\<lparr>b_cache := x\<rparr>) es pend = collect_pending_entries P b es pend"
proof -
  have "collect_entry P (b\<lparr>b_cache := x\<rparr>) e pend = collect_entry P b e pend" for e pend
    by (simp add: collect_entry_def split: entry.split)
  then show ?thesis by (induction es arbitrary: pend) (auto split: option.split)
qed

lemma register_twin:
  "snd (register_resource P es path (uncached b)) = snd (register_resource P es path b)"
  "fst (register_resource P es path (uncached b)) = uncached (fst (register_resource P es path b))"
  by (simp_all add: register_resource_def collect_frame Let_def bundle_context_def clear_bundle_cache_def uncached_def
      split: option.split sum.split)

lemma register_good: "good_bundle P g n b \<Longrightarrow> good_bundle P g n (fst (register_resource P es path b))"
  by (auto simp: register_resource_def Let_def bundle_context_def clear_bundle_cache_def
      split: option.split sum.split intro: good_cleared) (simp_all add: good_bundle_def split: option.splits)

lemma validate_cases:
  obtains (bad) mid category code message where
    "\<And>b. validate_format_request P rq b = Inl (invalid_request_result P mid category code message b)"
  | (ok) mid args attribute where "rq_message rq = Some mid" "rq_args rq = Inr args" "rq_attribute rq = Inr attribute"
    "mid \<noteq> []" "\<And>b. validate_format_request P rq b = Inr (mid, args, attribute)"
proof -
  consider "rq_message rq = None \<or> rq_message rq = Some []"
    | mid ty where "rq_message rq = Some mid" "mid \<noteq> []" "rq_args rq = Inl ty"
    | mid args ty where "rq_message rq = Some mid" "mid \<noteq> []" "rq_args rq = Inr args" "rq_attribute rq = Inl ty"
    | mid args attribute where "rq_message rq = Some mid" "mid \<noteq> []" "rq_args rq = Inr args" "rq_attribute rq = Inr attribute"
    by (cases "rq_message rq"; cases "rq_args rq"; cases "rq_attribute rq") blast+
  then show ?thesis
    by cases (rule bad ok; auto simp: validate_format_request_def split: option.split)+
qed

lemma format_twin:
  assumes "good_bundle P g n b" "n < 2 ^ 64 - 1" "keyed_request P b rq"
  shows "snd (format_pattern P g rq b) = snd (format_pattern P g rq (uncached b)) \<and>
    uncached (fst (format_pattern P g rq b)) = fst (format_pattern P g rq (uncached b)) \<and>
    good_bundle P g (Suc n) (fst (format_pattern P g rq b))"
proof (cases rule: validate_cases [of P rq])
  case (bad mid category code message)
  then show ?thesis using good_later [OF assms(1), of "Suc n"] by (simp add: format_pattern_def invalid_uncached)
next
  case (ok mid args attribute)
  then show ?thesis
    using format_checked_twin [OF assms(1,2), of args mid attribute] assms(3)
    by (simp add: format_pattern_def keyed_request_def)
qed

lemma step_twin:
  assumes "good_bundle P g n b" "n < 2 ^ 64 - 1" "keyed_op P g b op"
  shows "good_bundle P g (Suc n) (bundle_step P op b) \<and>
    bundle_step P op (uncached b) = uncached (bundle_step P op b)"
proof (cases op)
  case (AddResource src path)
  then show ?thesis using register_good [OF good_later [OF assms(1), of "Suc n"]] good_later [OF assms(1), of "Suc n"]
    by (simp add: add_resource_def register_twin split: option.split outcome.split)
next
  case (AddStream lines path)
  then show ?thesis using register_good [OF good_later [OF assms(1), of "Suc n"]] good_later [OF assms(1), of "Suc n"]
    by (simp add: add_resource_stream_def register_twin split: option.split prod.split)
next
  case (AddFunction name f)
  have "good_bundle P g (Suc n) (fst (add_function name f b))"
  proof (cases "snd (add_function name f b)")
    case (Inl e)
    then have "resolved_output P g m args attribute (fst (add_function name f b)) = resolved_output P g m args attribute b"
      for m args attribute
      by (auto simp: add_function_def Let_def resolved_output_def bundle_resolver_def split: sum.splits)
    moreover have "b_cache (fst (add_function name f b)) = b_cache b" "b_messages (fst (add_function name f b)) = b_messages b"
      "b_locale (fst (add_function name f b)) = b_locale b" "b_isolating (fst (add_function name f b)) = b_isolating b"
      using Inl by (auto simp: add_function_def Let_def split: sum.splits)
    ultimately show ?thesis using good_later [OF assms(1), of "Suc n"]
      by (simp add: good_bundle_def serves_def split: option.splits)
  next
    case (Inr x)
    then show ?thesis using good_later [OF assms(1), of "Suc n"]
      by (auto simp: add_function_def Let_def clear_bundle_cache_def split: sum.splits intro: good_cleared)
  qed
  moreover have "fst (add_function name f (uncached b)) = uncached (fst (add_function name f b))"
    by (simp add: add_function_def Let_def clear_bundle_cache_def uncached_def split: sum.split)
  ultimately show ?thesis using AddFunction by simp
next
  case ClearCache
  then show ?thesis using good_cleared [OF good_later [OF assms(1), of "Suc n"]]
    by (simp add: clear_bundle_cache_def uncached_def)
next
  case (Format g' rq)
  then show ?thesis using format_twin [OF assms(1,2), of rq] assms(3) by simp
qed

lemma run_twin:
  assumes "good_bundle P g n b" "n + length ops < 2 ^ 64 - 1" "list_all (keyed_op P g b) ops"
  shows "good_bundle P g (n + length ops) (bundle_run P ops b) \<and>
    bundle_run P ops (uncached b) = uncached (bundle_run P ops b)"
  using assms
proof (induction ops arbitrary: b n)
  case (Cons op ops)
  have n: "n < 2 ^ 64 - 1" using Cons.prems(2) by simp
  have "keyed_op P g b op" using Cons.prems(3) by simp
  note step = step_twin [OF Cons.prems(1) n this]
  have "list_all (keyed_op P g (bundle_step P op b)) ops"
    using Cons.prems(3) keyed_config(2) [OF step_config] by (simp add: list_all_iff)
  with Cons.IH [OF conjunct1 [OF step]] Cons.prems(2) step show ?case by (simp add: bundle_run_def)
qed (simp add: bundle_run_def)

lemma mk_bundle_cases:
  assumes "mk_bundle P babel_parse en_us shared locale iso_flag config functions sz nd es strict ctxs = (Inr b, ctxs')"
  shows "b_messages b = [] \<and> b_terms b = [] \<and> b_msg_deps b = [] \<and> b_term_deps b = [] \<and> b_strict b = strict \<and>
    b_isolating b = iso_flag \<and> b_readings b = 0 \<and> b_resolver_registry b = b_registry b \<and>
    bundle_cache_of strict config = Inr (b_cache b) \<and>
    mk_bundle P babel_parse en_us shared locale iso_flag None functions sz nd es strict ctxs = (Inr (uncached b), ctxs')"
  using assms
  by (auto simp: mk_bundle_def Let_def res_bind_Inr uncached_def bundle_cache_of_def split: sum.splits prod.splits)

end
