(* ===== verification/Bundle_Tables.thy ===== *)
theory Bundle_Tables
  imports Bundle Parser_Properties Resolver_Properties
begin

text \<open>
  The dictionaries of a bundle.  The locale \<open>entry_table\<close> states what a dictionary of entries
  and the dictionary of their dependencies have in common for messages and for terms: every
  entry is well-formed and stored under its own name, and its dependencies are recorded.
\<close>

section \<open>Updates of dictionaries\<close>

lemma od_get_update: "od_get (od_update new d) = od_get d ++ map_of (rev new)"
proof (induction new arbitrary: d)
  case (Cons p new)
  obtain k v where p: "p = (k, v)" by (cases p)
  have "od_get (od_update (p # new) d) = od_get (od_set k v d) ++ map_of (rev new)"
    using Cons.IH [of "od_set k v d"] by (simp add: od_update_def p)
  then show ?case by (simp add: p od_get_set fun_eq_iff map_add_def split: option.split)
qed (simp add: od_update_def)

lemma od_valid_update: "od_valid d \<Longrightarrow> od_valid (od_update new d)"
  by (induction new arbitrary: d) (auto simp: od_update_def od.valid_set split: prod.splits)

lemma od_get_update_valid:
  assumes "od_valid new"
  shows "od_get (od_update new d) = od_get d ++ od_get new"
proof -
  have "map_of (rev new) = map_of new"
    using assms by (subst map_of_inject_set) (simp_all add: od_valid_def od_keys_def rev_map [symmetric])
  moreover have "od_get new = map_of new" by (simp add: od_get_def fun_eq_iff)
  ultimately show ?thesis by (simp add: od_get_update)
qed

section \<open>Tables of entries\<close>

locale entry_table =
  fixes ok :: "ustr \<Rightarrow> 'n \<Rightarrow> bool" and deps :: "'n \<Rightarrow> ustr set option"
  assumes ok_deps: "ok name n \<Longrightarrow> deps n \<noteq> None"
begin

definition table :: "(ustr, 'n) odict \<Rightarrow> (ustr, ustr set) odict \<Rightarrow> bool" where
  "table d ds \<longleftrightarrow>
     od_valid d \<and> od_valid ds \<and> (\<forall>name n. od_get d name = Some n \<longrightarrow> ok name n) \<and>
     (\<forall>name. od_get ds name = Option.bind (od_get d name) deps)"

lemma table_empty: "table [] []"
  by (simp add: table_def od_valid_def od_keys_def od_get_def)

lemma table_set: "table d ds \<Longrightarrow> ok name n \<Longrightarrow> deps n = Some s \<Longrightarrow> table (od_set name n d) (od_set name s ds)"
  by (auto simp: table_def od_get_set od.valid_set)

lemma table_update:
  assumes "table d ds" "table new new_deps"
  shows "table (od_update new d) (od_update new_deps ds)"
proof -
  have new: "od_get (od_update new d) = od_get d ++ od_get new"
    "od_get (od_update new_deps ds) = od_get ds ++ od_get new_deps"
    using assms(2) by (simp_all add: table_def od_get_update_valid)
  have "od_get (od_update new_deps ds) name = Option.bind (od_get (od_update new d) name) deps" for name
  proof (cases "od_get new name")
    case (Some n)
    with assms(2) have "ok name n" "od_get new_deps name = deps n" by (auto simp: table_def)
    with ok_deps [of name n] Some show ?thesis unfolding new by (cases "deps n") (simp_all add: map_add_def)
  next
    case None
    with assms show ?thesis unfolding new by (simp add: table_def map_add_def)
  qed
  moreover have "ok name n" if "od_get (od_update new d) name = Some n" for name n
    using that assms unfolding new by (auto simp: table_def map_add_Some_iff)
  ultimately show ?thesis using assms by (simp add: table_def od_valid_update)
qed

lemma table_names: "table d ds \<Longrightarrow> set (od_keys ds) = set (od_keys d)"
proof -
  assume t: "table d ds"
  have "name \<notin> set (od_keys ds) \<longleftrightarrow> name \<notin> set (od_keys d)" for name
  proof (cases "od_get d name")
    case (Some n)
    with t ok_deps [of name n] show ?thesis by (auto simp: table_def od_get_None [symmetric])
  qed (use t in \<open>auto simp: table_def od_get_None [symmetric]\<close>)
  then show ?thesis by blast
qed

end

section \<open>Messages and terms\<close>

definition message_deps :: "platform \<Rightarrow> message_node \<Rightarrow> ustr set option" where
  "message_deps P n = (case n of ((i, v, ats), x) \<Rightarrow> entry_dependencies P (v, ats))"

definition term_deps :: "platform \<Rightarrow> term_node \<Rightarrow> ustr set option" where
  "term_deps P n = (case n of ((i, v, ats), x) \<Rightarrow> entry_dependencies P (Some v, ats))"

definition message_ok :: "platform \<Rightarrow> ustr \<Rightarrow> message_node \<Rightarrow> bool" where
  "message_ok P name n \<longleftrightarrow>
     id_name (fst (fst n)) = name \<and> grammar_identifier name \<and> wf_message (fst n) \<and> message_deps P n \<noteq> None"

definition term_ok :: "platform \<Rightarrow> ustr \<Rightarrow> term_node \<Rightarrow> bool" where
  "term_ok P name n \<longleftrightarrow>
     id_name (fst (fst n)) = name \<and> grammar_identifier name \<and> wf_term (fst n) \<and> term_deps P n \<noteq> None"

interpretation messages: entry_table "message_ok P" "message_deps P" for P
  by unfold_locales (simp add: message_ok_def)

interpretation terms: entry_table "term_ok P" "term_deps P" for P
  by unfold_locales (simp add: term_ok_def)

definition bundle_wf :: "platform \<Rightarrow> fluent_bundle \<Rightarrow> bool" where
  "bundle_wf P b \<longleftrightarrow>
     messages.table P (b_messages b) (b_msg_deps b) \<and> terms.table P (b_terms b) (b_term_deps b) \<and>
     fr_functions (b_resolver_registry b) = fr_functions (b_registry b)"

definition pending_wf :: "platform \<Rightarrow> pending_registration \<Rightarrow> bool" where
  "pending_wf P p \<longleftrightarrow>
     messages.table P (pend_messages p) (pend_msg_deps p) \<and> terms.table P (pend_terms p) (pend_term_deps p)"

definition entry_wf :: "entry \<Rightarrow> bool" where
  "entry_wf e \<longleftrightarrow> (\<exists>n. wf_entry n e)"

lemma wf_attributes_of: "list_all (wf_attribute n) ats \<Longrightarrow> wf_attributes ats"
  unfolding wf_attributes_def list_all_iff
  by (metis attribute.exhaust attribute.sel(2) wf_attribute.simps)

lemma identifier_grammar: "identifier_ok n i \<Longrightarrow> grammar_identifier (id_name i)"
  by (cases i) simp

lemma wf_entry_data:
  "entry_wf (Message i v ats cm sp) \<Longrightarrow> grammar_identifier (id_name i) \<and> wf_message (i, v, ats)"
  "entry_wf (Term i p ats cm sp) \<Longrightarrow> grammar_identifier (id_name i) \<and> wf_term (i, p, ats)"
  by (auto simp: entry_wf_def wf_message_def wf_term_def identifier_grammar wf_attributes_of pred_option_def)

lemma collect_entry_wf:
  assumes "pending_wf P p" "entry_wf e" "collect_entry P b e p = Some p'"
  shows "pending_wf P p'"
  using assms
  by (cases e)
    (auto simp: pending_wf_def collect_entry_def message_ok_def term_ok_def message_deps_def term_deps_def
      intro!: messages.table_set terms.table_set dest!: wf_entry_data)

lemma collect_wf:
  "pending_wf P p \<Longrightarrow> list_all entry_wf es \<Longrightarrow> collect_pending_entries P b es p = Some p' \<Longrightarrow> pending_wf P p'"
  by (induction es arbitrary: p) (auto split: option.splits dest: collect_entry_wf)

lemma no_pending_wf: "pending_wf P no_pending"
  by (simp add: pending_wf_def no_pending_def messages.table_empty terms.table_empty)

lemma register_wf:
  assumes "bundle_wf P b" "list_all entry_wf es"
  shows "bundle_wf P (fst (register_resource P es path b))"
proof (cases "collect_pending_entries P b es no_pending")
  case None
  then show ?thesis using assms(1) by (simp add: register_resource_def split: sum.split)
next
  case (Some p)
  have "pending_wf P p" using collect_wf [OF no_pending_wf assms(2) Some] .
  then show ?thesis
    using assms(1) Some
    by (auto simp: register_resource_def Let_def bundle_context_def clear_bundle_cache_def bundle_wf_def pending_wf_def
        intro: messages.table_update terms.table_update)
qed

lemma parse_entries_wf: "parse S s = Returns r \<Longrightarrow> list_all entry_wf (entries r)"
  by (cases rule: parse_cases [of S s]) (auto simp: resource_ok_def entry_wf_def list_all_iff)

lemma parse_chunks_wf: "list_all entry_wf (fst (parse_chunks S chunks))"
proof (induction chunks)
  case (Cons chunk chunks)
  then show ?case using parse_entries_wf [of S chunk]
    by (auto split: outcome.split prod.split)
qed simp

lemma stream_wf: "list_all entry_wf (fst (parse_stream S lines))"
  by (simp add: parse_stream_def parse_chunks_wf)

section \<open>What a registration does\<close>

text \<open>The last message or term of a list of entries that has a name.\<close>

fun last_message :: "entry list \<Rightarrow> ustr \<Rightarrow> message_node option" where
  "last_message [] name = None"
| "last_message (e # es) name =
     (case last_message es name of
        Some n \<Rightarrow> Some n
      | None \<Rightarrow>
          (case e of Message i v ats cm sp \<Rightarrow> if id_name i = name then Some ((i, v, ats), cm, sp) else None
                   | _ \<Rightarrow> None))"

fun last_term :: "entry list \<Rightarrow> ustr \<Rightarrow> term_node option" where
  "last_term [] name = None"
| "last_term (e # es) name =
     (case last_term es name of
        Some n \<Rightarrow> Some n
      | None \<Rightarrow>
          (case e of Term i v ats cm sp \<Rightarrow> if id_name i = name then Some ((i, v, ats), cm, sp) else None
                   | _ \<Rightarrow> None))"

lemma collect_effect:
  "collect_pending_entries P b es p = Some p' \<Longrightarrow>
     od_get (pend_messages p') = od_get (pend_messages p) ++ last_message es \<and>
     od_get (pend_terms p') = od_get (pend_terms p) ++ last_term es \<and>
     pend_junk p' = pend_junk p @ filter is_junk es"
proof (induction es arbitrary: p)
  case (Cons e es)
  then obtain q where q: "collect_entry P b e p = Some q" "collect_pending_entries P b es q = Some p'"
    by (auto split: option.splits)
  then show ?case using Cons.IH [OF q(2)]
    by (cases e) (auto simp: collect_entry_def od_get_set map_add_def fun_eq_iff split: option.splits)
qed (simp add: fun_eq_iff map_add_def)

lemma od_get_empty: "od_get [] = Map.empty"
  by (simp add: od_get_def fun_eq_iff)

lemma register_effect:
  assumes "bundle_wf P b" "list_all entry_wf es" "register_resource P es path b = (b', r)"
  shows "case r of
      Inl e \<Rightarrow> b' = b\<lparr>b_readings := b_readings b'\<rparr>
    | Inr junk \<Rightarrow>
        junk = filter is_junk es \<and> (b_strict b \<longrightarrow> junk = []) \<and>
        od_get (b_messages b') = od_get (b_messages b) ++ last_message es \<and>
        od_get (b_terms b') = od_get (b_terms b) ++ last_term es \<and> cache_usage b' = 0"
proof (cases "collect_pending_entries P b es no_pending")
  case None
  then show ?thesis using assms(3) by (auto simp: register_resource_def split: sum.splits)
next
  case (Some p)
  have wf: "pending_wf P p" using collect_wf [OF no_pending_wf assms(2) Some] .
  have eff: "od_get (pend_messages p) = last_message es" "od_get (pend_terms p) = last_term es" "pend_junk p = filter is_junk es"
    using collect_effect [OF Some] by (simp_all add: no_pending_def od_get_empty)
  have "od_valid (pend_messages p)" "od_valid (pend_terms p)"
    using wf by (simp_all add: pending_wf_def messages.table_def terms.table_def)
  then have upd: "od_get (od_update (pend_messages p) (b_messages b)) = od_get (b_messages b) ++ last_message es"
      "od_get (od_update (pend_terms p) (b_terms b)) = od_get (b_terms b) ++ last_term es"
    by (simp_all add: od_get_update_valid eff)
  show ?thesis
    using assms(3) Some
    by (auto simp: register_resource_def Let_def bundle_context_def clear_bundle_cache_def cache_usage_def cache_clear_def
        cache_size_def eff upd split: if_splits option.splits)
qed

section \<open>Adding functions\<close>

lemma add_function_wf: "bundle_wf P b \<Longrightarrow> bundle_wf P (fst (add_function name f b))"
  by (auto simp: add_function_def Let_def bundle_wf_def clear_bundle_cache_def copy_registry_def split: sum.split)

section \<open>The resolver of a bundle\<close>

lemma bundle_resolver_wf: "bundle_wf P b \<Longrightarrow> wf_resolver (bundle_resolver P b)"
  by (auto simp: wf_resolver_def bundle_resolver_def mk_resolver_def bundle_wf_def messages.table_def terms.table_def
      message_ok_def term_ok_def)

lemma bundle_message_wf:
  assumes "bundle_wf P b" "od_get (b_messages b) mid = Some (m, x)"
  shows "wf_message m"
proof -
  have "\<forall>name n. od_get (b_messages b) name = Some n \<longrightarrow> message_ok P name n"
    using assms(1) unfolding bundle_wf_def messages.table_def by blast
  with assms(2) have "message_ok P mid (m, x)" by blast
  then show ?thesis by (simp add: message_ok_def)
qed

end
