(* ===== verification/Bundle_Theorems.thy ===== *)
theory Bundle_Theorems
  imports Bundle_Properties Bundle_Tables
begin

text \<open>
  What a bundle guarantees over whole histories of its methods: the cache cannot be observed,
  the entries stay well-formed, formatting returns for every message, and the strict mode
  lets no error and no syntax error through.
\<close>

section \<open>A small bundle\<close>

definition demo_platform :: platform where
  "demo_platform = \<lparr>pl_hash = demo_hash, pl_printable = (\<lambda>ch. False), pl_clock = demo_clock, pl_recursion_limit = 1000,
     pl_int_digits = 4300, pl_decimal_prec = 28, pl_babel = demo_babel\<rparr>"

definition demo_config :: cache_config where
  "demo_config = \<lparr>cfg_size = 10, cfg_write_once = False, cfg_integrity_strict = True, cfg_enable_audit = False,
     cfg_max_audit = 10, cfg_max_entry_weight = 10000, cfg_max_errors = 50\<rparr>"

definition demo_cache :: "hashable cache" where
  "demo_cache = \<lparr>c_store = [], c_maxsize = 10, c_max_entry_weight = 10000, c_max_errors = 50, c_write_once = False,
     c_strict = False, c_audit_log = None, c_max_audit = 10, c_hits = 0, c_misses = 0, c_unhashable = 0, c_oversize = 0,
     c_error_bloat = 0, c_combined_weight = 0, c_corruption = 0, c_idempotent = 0, c_conflicts = 0, c_sequence = 0,
     c_readings = 0\<rparr>"

definition demo_bundle :: fluent_bundle where
  "demo_bundle = \<lparr>b_locale = u ''en'', b_isolating = False, b_strict = False, b_messages = [], b_terms = [],
     b_msg_deps = [], b_term_deps = [], b_max_source_size = 10000000, b_max_nesting_depth = 100,
     b_max_expansion_size = 1000000,
     b_parser = \<lparr>max_source_size = 10000000, max_parse_errors = MAX_PARSE_ERRORS, parser_nesting_depth = 100\<rparr>,
     b_registry = empty_registry, b_owns_registry = False, b_resolver_registry = empty_registry,
     b_cache = Some demo_cache, b_readings = 0\<rparr>"

definition demo_context :: "ustr locale_context" where
  "demo_context = \<lparr>lc_locale_code = u ''en'', lc_babel_locale = u ''en'', lc_is_fallback = False\<rparr>"

definition demo_parse :: "ustr \<Rightarrow> ustr locale_parse" where
  "demo_parse s = KnownLocale s"

lemma demo_locale: "require_locale_code (Some (u ''en'')) = Inr (u ''en'')"
  by (rule require_canonical(4) [of "Some (u ''en'')"])
    (simp add: require_locale_code_def py_strip_def is_py_space_def u_def Let_def
      is_structurally_valid_locale_code_def is_ascii_alpha_def is_ascii_digit_def is_ascii_alnum_def
      MAX_LOCALE_LENGTH_HARD_LIMIT_def normalize_locale_def ascii_lower_def)

lemma demo_bundle:
  "mk_bundle demo_platform demo_parse (u ''en'') empty_registry (Some (u ''en'')) False (Some demo_config) (Inr None)
     None None None False [] = (Inr demo_bundle, [(u ''en'', demo_context)])"
  "mk_bundle demo_platform demo_parse (u ''en'') empty_registry (Some (u ''en'')) False None (Inr None)
     None None None False [] = (Inr (uncached demo_bundle), [(u ''en'', demo_context)])"
proof -
  show m: "mk_bundle demo_platform demo_parse (u ''en'') empty_registry (Some (u ''en'')) False (Some demo_config) (Inr None)
     None None None False [] = (Inr demo_bundle, [(u ''en'', demo_context)])"
    by (simp add: mk_bundle_def demo_locale create_or_raise_def create_context_def od_get_def od_set_def Let_def
        new_locale_context_def MAX_LOCALE_CACHE_SIZE_def demo_parse_def demo_platform_def depth_clamp_def MAX_DEPTH_def
        mk_parser_def bundle_cache_of_def mk_cache_def demo_config_def demo_bundle_def demo_cache_def
        demo_context_def MAX_SOURCE_SIZE_def DEFAULT_MAX_EXPANSION_SIZE_def)
  show "mk_bundle demo_platform demo_parse (u ''en'') empty_registry (Some (u ''en'')) False None (Inr None)
     None None None False [] = (Inr (uncached demo_bundle), [(u ''en'', demo_context)])"
    using mk_bundle_cases [OF m] by simp
qed

section \<open>The cache cannot be observed\<close>

text \<open>C7: a bundle with a format cache gives, after any history of its methods and for every
  request whose key determines it (arguments of the built-in types, no NaN but the plain one), the
  same result or exception as a bundle without one, when all requests come at one global
  resolution depth.\<close>

theorem cache_transparent:
  assumes "mk_bundle P babel_parse en_us shared locale iso_flag (Some cfg) functions sz nd es strict ctxs = (Inr b, ctxs')"
    and "mk_bundle P babel_parse en_us shared locale iso_flag None functions sz nd es strict ctxs = (Inr b0, ctxs')"
    and "cfg_max_entry_weight cfg < 2 ^ 30" "cfg_max_errors cfg < 2 ^ 32" "length ops < 2 ^ 64 - 1"
    and "list_all (keyed_op P g b) ops" "keyed_request P b rq"
  shows "snd (format_pattern P g rq (bundle_run P ops b)) = snd (format_pattern P g rq (bundle_run P ops b0)) \<and>
    bundle_run P ops b0 = uncached (bundle_run P ops b)"
proof -
  note mk = mk_bundle_cases [OF assms(1)]
  have b0: "b0 = uncached b" using mk assms(2) by simp
  let ?mk = "mk_cache (cfg_size cfg) (cfg_max_entry_weight cfg) (cfg_max_errors cfg) (cfg_write_once cfg)
    (cfg_integrity_strict cfg \<and> strict) (cfg_enable_audit cfg) (cfg_max_audit cfg) :: py_error + hashable cache"
  have "map_sum id Some ?mk = Inr (b_cache b)" using mk by (simp add: bundle_cache_of_def)
  then obtain c where c: "b_cache b = Some c" "?mk = Inr c" by (cases ?mk) (auto dest: sym)
  have "good_bundle P g 0 b"
    using good_new [OF c(2) assms(3,4)] c(1) by (simp add: good_bundle_def serves_def)
  from run_twin [OF this _ assms(6)] assms(5)
  have run: "good_bundle P g (length ops) (bundle_run P ops b)" "bundle_run P ops (uncached b) = uncached (bundle_run P ops b)"
    by simp_all
  have "keyed_request P (bundle_run P ops b) rq" using keyed_config(1) [OF run_config] assms(7) by blast
  from format_twin [OF run(1) assms(5) this] show ?thesis using run(2) b0 by simp
qed

definition hello_request :: request where
  "hello_request = \<lparr>rq_message = Some (u ''hello''), rq_args = Inr (Some [(u ''name'', VStr (u ''Bob''))]), rq_attribute = Inr None\<rparr>"

lemma hello_keyed: "keyed_request demo_platform demo_bundle hello_request"
proof -
  have "make_key (u ''hello'') (Some [(u ''name'', VStr (u ''Bob''))]) None (u ''en'') False =
      Some (key_tuple (u ''hello'') [(u ''name'', HStr (u ''Bob''))] None (u ''en'') False)"
    by (simp add: make_key_def make_hashable_def enter_node_def HASHABLE_NODE_BUDGET_def MAX_DEPTH_def)
  then show ?thesis
    by (simp add: keyed_request_def hello_request_def determined_args_def built_in_args_def forget_nan_args_def
        args_map_def printable_key_def demo_bundle_def demo_platform_def
        key_tuple_def hashable_item_def)
qed

theorem cache_transparent_witness:
  "snd (format_pattern demo_platform 0 hello_request
      (bundle_run demo_platform [AddResource (Some (u ''hello = Hi'')) None, Format 0 hello_request] demo_bundle)) =
   snd (format_pattern demo_platform 0 hello_request
      (bundle_run demo_platform [AddResource (Some (u ''hello = Hi'')) None, Format 0 hello_request] (uncached demo_bundle)))"
  using cache_transparent [OF demo_bundle, of "[AddResource (Some (u ''hello = Hi'')) None, Format 0 hello_request]" 0 hello_request]
    hello_keyed by (simp add: demo_config_def)

section \<open>The entries stay well-formed\<close>

lemma content_wf: "same_content b b' \<Longrightarrow> bundle_wf P b' = bundle_wf P b"
  by (cases b, cases b') (simp add: same_content_def bundle_wf_def)

lemma step_wf: "bundle_wf P b \<Longrightarrow> bundle_wf P (bundle_step P op b)"
proof (cases op)
  case (AddResource src path)
  assume "bundle_wf P b"
  then show ?thesis using AddResource
    by (auto simp: add_resource_def register_wf parse_entries_wf split: option.split outcome.split)
next
  case (AddStream lines path)
  assume wf: "bundle_wf P b"
  obtain es e where "parse_stream (b_parser b) lines = (es, e)" by (cases "parse_stream (b_parser b) lines")
  then show ?thesis using AddStream wf register_wf [OF wf] stream_wf [of "b_parser b" lines]
    by (simp add: add_resource_stream_def split: option.split)
next
  case (AddFunction name f)
  then show "bundle_wf P b \<Longrightarrow> ?thesis" by (simp add: add_function_wf)
next
  case ClearCache
  then show "bundle_wf P b \<Longrightarrow> ?thesis" by (simp add: bundle_wf_def clear_bundle_cache_def)
next
  case (Format g rq)
  then show "bundle_wf P b \<Longrightarrow> ?thesis" using content_wf [OF format_content] by simp
qed

lemma run_wf: "bundle_wf P b \<Longrightarrow> bundle_wf P (bundle_run P ops b)"
  by (induction ops arbitrary: b) (simp_all add: bundle_run_def step_wf)

lemma new_wf:
  "mk_bundle P babel_parse en_us shared locale iso_flag config functions sz nd es strict ctxs = (Inr b, ctxs') \<Longrightarrow> bundle_wf P b"
  using mk_bundle_cases by (fastforce simp: bundle_wf_def messages.table_empty terms.table_empty)

text \<open>C8: after any history of its methods, exceptions included, a bundle holds only well-formed
  messages and terms, each under its own name with its dependencies recorded, and its
  resolver has the functions of its registry.\<close>

theorem bundle_invariant:
  assumes "mk_bundle P babel_parse en_us shared locale iso_flag config functions sz nd es strict ctxs = (Inr b, ctxs')"
  shows "wf_resolver (bundle_resolver P (bundle_run P ops b)) \<and>
    set (od_keys (b_msg_deps (bundle_run P ops b))) = set (get_message_ids (bundle_run P ops b)) \<and>
    fr_functions (b_resolver_registry (bundle_run P ops b)) = fr_functions (b_registry (bundle_run P ops b)) \<and>
    (case get_message name (bundle_run P ops b) of
       None \<Rightarrow> \<not> has_message name (bundle_run P ops b)
     | Some ((i, v, ats), x) \<Rightarrow>
         id_name i = name \<and> grammar_identifier name \<and> wf_message (i, v, ats) \<and>
         od_get (b_msg_deps (bundle_run P ops b)) name = entry_dependencies P (v, ats))"
proof -
  let ?b = "bundle_run P ops b"
  have wf: "bundle_wf P ?b" using run_wf [OF new_wf [OF assms]] .
  then have t: "messages.table P (b_messages ?b) (b_msg_deps ?b)" by (simp add: bundle_wf_def)
  have "case get_message name ?b of
       None \<Rightarrow> \<not> has_message name ?b
     | Some ((i, v, ats), x) \<Rightarrow>
         id_name i = name \<and> grammar_identifier name \<and> wf_message (i, v, ats) \<and>
         od_get (b_msg_deps ?b) name = entry_dependencies P (v, ats)"
  proof (cases "get_message name ?b")
    case None
    then show ?thesis using od_get_None [of "b_messages ?b" name] by (simp add: get_message_def has_message_def)
  next
    case (Some n)
    then have "message_ok P name n" "od_get (b_msg_deps ?b) name = message_deps P n"
      using t Some unfolding messages.table_def get_message_def by (cases n; auto)+
    then show ?thesis using Some by (auto simp: message_ok_def message_deps_def split: prod.split)
  qed
  then show ?thesis
    using wf bundle_resolver_wf [OF wf] messages.table_names [OF t] by (simp add: bundle_wf_def get_message_ids_def)
qed

theorem bundle_invariant_witness:
  "wf_resolver (bundle_resolver demo_platform (bundle_run demo_platform
     [AddResource (Some (u ''hello = { hello }'')) None, ClearCache] demo_bundle))"
  using bundle_invariant [OF demo_bundle(1)] by (rule conjunct1)

section \<open>Registration\<close>

text \<open>C9: adding a resource either raises and changes nothing but the readings of the clock, or
  returns the junk of the resource, none in strict mode; then every message and term of the
  resource has its last definition, all others are as before, and the cache is empty.\<close>

theorem add_resource_effect:
  assumes "mk_bundle P babel_parse en_us shared locale iso_flag config functions sz nd es strict ctxs = (Inr b0, ctxs')"
    and "b = bundle_run P ops b0"
  shows "case add_resource P (Some s) path b of
      (b', Inl e) \<Rightarrow> b' = b\<lparr>b_readings := b_readings b'\<rparr>
    | (b', Inr junk) \<Rightarrow>
        \<exists>r. parse (b_parser b) s = Returns r \<and> junk = filter is_junk (entries r) \<and> (strict \<longrightarrow> junk = []) \<and>
          get_message name b' = (case last_message (entries r) name of Some n \<Rightarrow> Some n | None \<Rightarrow> get_message name b) \<and>
          get_term name b' = (case last_term (entries r) name of Some n \<Rightarrow> Some n | None \<Rightarrow> get_term name b) \<and>
          cache_usage b' = 0"
proof (cases rule: parse_cases [of "b_parser b" s])
  case too_large
  then show ?thesis by (simp add: add_resource_def)
next
  case (parsed r)
  have wf: "bundle_wf P b" using run_wf [OF new_wf [OF assms(1)]] assms(2) by simp
  have strict: "b_strict b = strict"
    using mk_bundle_cases [OF assms(1)] run_config [of b0 P ops] assms(2) by (simp add: same_config_def)
  obtain b' q where reg: "register_resource P (entries r) path b = (b', q)" by (cases "register_resource P (entries r) path b")
  show ?thesis
    using register_effect [OF wf parse_entries_wf [OF parsed(2)] reg] parsed(2) reg strict
    unfolding get_message_def get_term_def by (cases q) (auto simp: add_resource_def map_add_def)
qed

theorem add_resource_effect_witness:
  "case add_resource demo_platform (Some (u ''hello = Hi'')) None
      (bundle_run demo_platform [AddResource (Some (u ''hello = Hey'')) None] demo_bundle) of
      (b', Inl e) \<Rightarrow> b' = (bundle_run demo_platform [AddResource (Some (u ''hello = Hey'')) None] demo_bundle)
          \<lparr>b_readings := b_readings b'\<rparr>
    | (b', Inr junk) \<Rightarrow> cache_usage b' = 0"
  using add_resource_effect [OF demo_bundle(1) refl, of "[AddResource (Some (u ''hello = Hey'')) None]"
      "u ''hello = Hi''" "u ''hello''" None]
  by (auto split: prod.splits sum.splits)

section \<open>Formatting\<close>

text \<open>The hashing of an error raises nothing but \<open>OverflowError\<close>, for a text of four gigabytes.\<close>

definition overflows :: "py_error + 'a \<Rightarrow> bool" where
  "overflows x \<longleftrightarrow> (\<forall>e. x = Inl e \<longrightarrow> e = OverflowError)"

lemma overflows_simps [simp]:
  "overflows (Inr a)" "overflows (Inl e) = (e = OverflowError)" "overflows (to_bytes n v)" "overflows (to_bytes_signed n i)"
  by (simp_all add: overflows_def to_bytes_def to_bytes_signed_def)

lemma overflows_bind: "overflows x \<Longrightarrow> (\<And>a. overflows (f a)) \<Longrightarrow> overflows (res_bind x f)"
  by (cases x) simp_all

lemma overflows_concat: "(\<And>x. x \<in> set xs \<Longrightarrow> overflows x) \<Longrightarrow> overflows (res_concat xs)"
  by (induction xs) (simp_all add: overflows_bind)

lemma overflows_frame [simp]: "overflows (frame s)"
  unfolding frame_def by (intro overflows_bind) simp_all

lemma overflows_fields [simp]:
  "overflows (span_bytes sp)" "overflows (optional_bytes x)" "overflows (path_bytes p)" "overflows (context_bytes c)"
  unfolding span_bytes_def optional_bytes_def path_bytes_def context_bytes_def
  by (auto split: option.split simp del: res_concat.simps intro!: overflows_concat)

lemma overflows_diagnostic [simp]: "overflows (diagnostic_bytes d)"
  unfolding diagnostic_bytes_def
  by (auto split: option.split simp del: res_concat.simps intro!: overflows_concat)

lemma error_overflow: "mk_fluent_error H m k d c = Inl e \<Longrightarrow> e = OverflowError"
proof -
  have "overflows (mk_fluent_error H m k d c)"
    unfolding mk_fluent_error_def error_hash_def error_bytes_def
    by (auto simp del: res_concat.simps intro!: overflows_bind overflows_concat)
  then show "mk_fluent_error H m k d c = Inl e \<Longrightarrow> e = OverflowError" by (simp add: overflows_def)
qed

lemma fluent_error_overflow: "fluent_error_of H x = Inl e \<Longrightarrow> e = OverflowError"
  by (auto simp: fluent_error_of_def error_overflow split: resolution_error.splits option.splits)

lemma fluent_errors_overflow: "fluent_errors H xs = Inl e \<Longrightarrow> e = OverflowError"
  by (induction xs) (auto simp: res_bind_def fluent_error_overflow split: sum.splits)

text \<open>The values that a request can bring into the resolver.\<close>

definition request_values :: "resolver \<Rightarrow> request \<Rightarrow> fvalue set" where
  "request_values R rq =
     provided_values R (case rq_args rq of Inl kind \<Rightarrow> Map.empty | Inr args \<Rightarrow> args_of args)"

text \<open>What a strict or a lenient bundle makes of a result, where the values \<open>V\<close> can be selectors.\<close>

definition outcome_ok :: "platform \<Rightarrow> bool \<Rightarrow> fluent_bundle \<Rightarrow> fvalue set \<Rightarrow> bundle_error + format_output \<Rightarrow> bool" where
  "outcome_ok P strict b V out \<longleftrightarrow>
     (case out of
        Inr (text, es) \<Rightarrow> strict \<longrightarrow> es = []
      | Inl (FormattingIntegrityError message ctx es fallback mid) \<Rightarrow> strict \<and> es \<noteq> []
      | Inl (ResolverFatal f) \<Rightarrow> fatal_ok (bundle_resolver P b) V f
      | Inl (PyRaised e) \<Rightarrow> e = OverflowError
      | Inl _ \<Rightarrow> False)"

lemma outcome_simps [simp]:
  "outcome_ok P strict b V (Inl (PyRaised e)) \<longleftrightarrow> e = OverflowError"
  "outcome_ok P strict b V (Inl (ResolverFatal f)) \<longleftrightarrow> fatal_ok (bundle_resolver P b) V f"
  by (simp_all add: outcome_ok_def)

lemma strict_outcome: "outcome_ok P (b_strict b) b' V (snd (strict_result P mid out b))"
  by (cases out) (simp add: strict_result_def raise_strict_error_def bundle_context_def outcome_ok_def)

lemma resolved_outcome:
  assumes "bundle_wf P b" "wf_message m"
  shows "case resolved_output P g m args attribute b of
      Inr out \<Rightarrow> True
    | Inl (ResolverFatal f) \<Rightarrow> fatal_ok (bundle_resolver P b) (provided_values (bundle_resolver P b) (args_of args)) f
    | Inl (PyRaised e) \<Rightarrow> e = OverflowError
    | Inl _ \<Rightarrow> False"
proof -
  let ?R = "bundle_resolver P b"
  have "case resolve ?R g m (args_of args) attribute of
      Value (t, errors) \<Rightarrow> True | Fluent e \<Rightarrow> False | Fatal f \<Rightarrow> fatal_ok ?R (provided_values ?R (args_of args)) f | Exhausted \<Rightarrow> False"
    by (rule resolves [OF bundle_resolver_wf [OF assms(1)] assms(2)])
  then show ?thesis
    by (auto simp: resolved_output_def split: rresult.splits sum.splits prod.splits dest: fluent_errors_overflow)
qed

text \<open>C6: in a bundle without a cache, after any history, formatting returns for every request.  A
  strict bundle returns a text without errors or raises the integrity error with all of
  them, a lenient one returns the text with its errors; the bundle is as before.  Besides, what
  can leave it is a cancellation, the \<open>ValueError\<close> of a huge integer, the overflow of a text of
  four gigabytes and, for a number among the arguments, the literals and the results of
  functions, what its plural selection raises: \<open>InvalidOperation\<close> of a signaling NaN or of a
  precision that the decimal context cannot hold, or an exception of a plural rule of Babel.\<close>

theorem format_returns:
  assumes "mk_bundle P babel_parse en_us shared locale iso_flag None functions sz nd es strict ctxs = (Inr b, ctxs')"
  shows "outcome_ok P strict (bundle_run P ops b) (request_values (bundle_resolver P (bundle_run P ops b)) rq) (snd (format_pattern P g rq (bundle_run P ops b))) \<and>
    fst (format_pattern P g rq (bundle_run P ops b)) =
      (bundle_run P ops b)\<lparr>b_readings := b_readings (fst (format_pattern P g rq (bundle_run P ops b)))\<rparr>"
proof -
  let ?b = "bundle_run P ops b"
  let ?V = "request_values (bundle_resolver P ?b) rq"
  note mk = mk_bundle_cases [OF assms]
  have conf: "same_config b ?b" by (rule run_config)
  have strict: "b_strict ?b = strict" and cache: "b_cache ?b = None"
    using mk conf by (auto simp: same_config_def bundle_cache_of_def)
  have wf: "bundle_wf P ?b" using run_wf [OF new_wf [OF assms]] .
  have "outcome_ok P strict ?b ?V (snd (format_pattern P g rq ?b))"
  proof (cases rule: validate_cases [of P rq])
    case (bad mid category code message)
    then show ?thesis
      using strict_outcome [of P ?b ?b ?V mid] strict
      by (auto simp: format_pattern_def invalid_request_result_def error_overflow split: sum.split)
  next
    case (ok mid args attribute)
    have "outcome_ok P strict ?b ?V (snd (format_checked P g mid args attribute ?b))"
    proof (cases "od_get (b_messages ?b) mid")
      case None
      then show ?thesis
        using strict_outcome [of P ?b ?b ?V mid] strict
        by (auto simp: format_uncached [OF cache] missing_message_def fluent_error_overflow split: sum.split)
    next
      case (Some n)
      obtain m x where n: "n = (m, x)" by (cases n)
      show ?thesis
        using resolved_outcome [OF wf bundle_message_wf [OF wf Some [unfolded n]], where g = g and args = args and attribute = attribute]
          strict_outcome [of P ?b ?b ?V mid] strict Some n ok(2)
        by (cases "resolved_output P g m args attribute ?b")
          (auto simp: format_uncached [OF cache] request_values_def split: bundle_error.splits)
    qed
    then show ?thesis using ok by (simp add: format_pattern_def)
  qed
  moreover have "fst (format_pattern P g rq ?b) = ?b\<lparr>b_readings := b_readings (fst (format_pattern P g rq ?b))\<rparr>"
    using format_content [of ?b P g rq] cache by (cases "fst (format_pattern P g rq ?b)", cases ?b) (simp add: same_content_def)
  ultimately show ?thesis by blast
qed

theorem format_returns_witness:
  "outcome_ok demo_platform False (bundle_run demo_platform
       [AddResource (Some (u ''hello = { hello }'')) None] (uncached demo_bundle))
     (request_values (bundle_resolver demo_platform (bundle_run demo_platform
       [AddResource (Some (u ''hello = { hello }'')) None] (uncached demo_bundle))) hello_request)
     (snd (format_pattern demo_platform 0 hello_request (bundle_run demo_platform
       [AddResource (Some (u ''hello = { hello }'')) None] (uncached demo_bundle))))"
  using format_returns [OF demo_bundle(2)] by (rule conjunct1)

end
