(* ===== verification/Semantic_Validator.thy ===== *)
theory Semantic_Validator
  imports Diagnostic_Formatter Serializer Parse_Context
begin

text \<open>
  \<open>syntax/validator.py\<close>: the semantic validation of a parsed resource.  The annotations of
  a run are its result, in order; an exception discards them.  The depth guard is its limit
  \<open>L\<close> and the current depth \<open>d\<close>.  A context name (\<open>message\<close>, \<open>select_variant\<close>, ...) is passed
  through by the code and never read.  The check for a term without a value has no
  counterpart, as every \<open>Term\<close> of the model has one.
\<close>

section \<open>Variant keys\<close>

text \<open>
  \<open>Decimal(raw).normalize()\<close> rounds to the precision of the decimal context (28 digits by
  default), half to even, and strips the trailing zeros; a number without a fractional part
  stays a coefficient with scale 0, which has the same fixed-point text.
\<close>

definition round_decimal :: "nat \<Rightarrow> plain_decimal \<Rightarrow> plain_decimal" where
  "round_decimal prec d =
     (let n = length (dec_digits (dec_coefficient d)); k = n - prec
      in if n \<le> prec then d
         else if k \<le> dec_scale d then
           Decimal (dec_negative d) (half_even (dec_coefficient d) k) (dec_scale d - k)
         else Decimal (dec_negative d) (half_even (dec_coefficient d) k * 10 ^ (k - dec_scale d)) 0)"

fun strip_zeros :: "nat \<Rightarrow> nat \<Rightarrow> nat \<times> nat" where
  "strip_zeros c 0 = (c, 0)"
| "strip_zeros c (Suc s) = (if c mod 10 = 0 then strip_zeros (c div 10) s else (c, Suc s))"

definition normalize_decimal :: "nat \<Rightarrow> plain_decimal \<Rightarrow> plain_decimal" where
  "normalize_decimal prec d =
     (let r = round_decimal prec d; (c, s) = strip_zeros (dec_coefficient r) (dec_scale r)
      in Decimal (dec_negative r) c s)"

text \<open>\<open>format(d, "f")\<close>\<close>

definition fixed_point :: "plain_decimal \<Rightarrow> ustr" where
  "fixed_point d =
     (let ds = dec_digits (dec_coefficient d); s = dec_scale d;
          body =
            (if s = 0 then ds
             else if s < length ds then take (length ds - s) ds @ [CH_DOT] @ drop (length ds - s) ds
             else [48, CH_DOT] @ replicate (s - length ds) 48 @ ds)
      in if dec_negative d then CH_MINUS # body else body)"

text \<open>
  A raw text that is no decimal and a select expression as an argument, which the parser does
  not return, raise.
\<close>

datatype semantic_error = DepthGuardExceeded | InvalidDecimal | UnexpectedExpression

definition variant_key_to_string :: "nat \<Rightarrow> variant_key \<Rightarrow> semantic_error + ustr" where
  "variant_key_to_string prec k =
     (case k of
        KeyIdentifier i \<Rightarrow> Inr (id_name i)
      | KeyNumber v raw sp \<Rightarrow>
          (case py_decimal raw of
             None \<Rightarrow> Inl InvalidDecimal
           | Some d \<Rightarrow> Inr (fixed_point (normalize_decimal prec d))))"

section \<open>Annotations\<close>

type_synonym findings = "semantic_error + annotation list"

definition join_findings :: "findings \<Rightarrow> findings \<Rightarrow> findings" where
  "join_findings a b =
     (case a of
        Inl e \<Rightarrow> Inl e
      | Inr xs \<Rightarrow> (case b of Inl e \<Rightarrow> Inl e | Inr ys \<Rightarrow> Inr (xs @ ys)))"

text \<open>\<open>with depth_guard: ...\<close>\<close>

definition guard_findings :: "int \<Rightarrow> int \<Rightarrow> findings \<Rightarrow> findings" where
  "guard_findings L d r = (if L \<le> d then Inl DepthGuardExceeded else r)"

definition report :: "bool \<Rightarrow> annotation \<Rightarrow> findings" where
  "report b a = Inr (if b then [a] else [])"

text \<open>\<open>_add_error\<close> with the messages of \<open>_VALIDATION_MESSAGES\<close>.\<close>

definition named_arg_duplicate :: "ustr \<Rightarrow> annotation" where
  "named_arg_duplicate name =
     Annotation (u ''VALIDATION_NAMED_ARG_DUPLICATE'') (u ''Duplicate named argument'')
       (Some [(u ''argument_name'', name)]) None"

definition term_positional_args :: "ustr \<Rightarrow> span option \<Rightarrow> annotation" where
  "term_positional_args name sp =
     Annotation (u ''VALIDATION_TERM_POSITIONAL_ARGS'')
       (u ''Term '' @ [CH_APOSTROPHE, CH_MINUS] @ name @ [CH_APOSTROPHE] @
        u '' called with positional arguments; positional arguments are ignored for term references'')
       None sp"

definition placeable_selector :: annotation where
  "placeable_selector =
     Annotation (u ''VALIDATION_PLACEABLE_SELECTOR'')
       (u ''Placeable is not valid as a select expression selector'') None None"

definition select_no_variants :: annotation where
  "select_no_variants =
     Annotation (u ''VALIDATION_SELECT_NO_VARIANTS'')
       (u ''Select expression must have at least one variant'') None None"

definition select_no_default :: "nat \<Rightarrow> annotation" where
  "select_no_default default_count =
     Annotation (u ''VALIDATION_SELECT_NO_DEFAULT'')
       (u ''Select expression must have exactly one default variant, found '' @ dec_digits default_count) None None"

definition variant_duplicate :: "ustr \<Rightarrow> annotation" where
  "variant_duplicate key_str =
     Annotation (u ''VALIDATION_VARIANT_DUPLICATE'') (u ''Variant keys must be unique within select expression'')
       (Some [(u ''variant_key'', key_str)]) None"

section \<open>The traversal\<close>

fun check_named_args :: "ustr set \<Rightarrow> named_argument list \<Rightarrow> annotation list" where
  "check_named_args seen_names [] = []"
| "check_named_args seen_names (n # ns) =
     (if named_name n \<in> seen_names then [named_arg_duplicate (named_name n)] else []) @
     check_named_args (insert (named_name n) seen_names) ns"

fun is_placeable :: "expression \<Rightarrow> bool" where
  "is_placeable (NestedPlaceable p) = True"
| "is_placeable e = False"

fun validate_expression_sem :: "nat \<Rightarrow> int \<Rightarrow> int \<Rightarrow> expression \<Rightarrow> findings"
and validate_call_arguments_sem :: "nat \<Rightarrow> int \<Rightarrow> int \<Rightarrow> call_arguments \<Rightarrow> findings"
and validate_positional_sem :: "nat \<Rightarrow> int \<Rightarrow> int \<Rightarrow> expression list \<Rightarrow> findings"
and validate_variants_sem :: "nat \<Rightarrow> int \<Rightarrow> int \<Rightarrow> ustr set \<Rightarrow> variant list \<Rightarrow> findings"
and validate_pattern_sem :: "nat \<Rightarrow> int \<Rightarrow> int \<Rightarrow> pattern \<Rightarrow> findings"
and validate_elements_sem :: "nat \<Rightarrow> int \<Rightarrow> int \<Rightarrow> pattern_element list \<Rightarrow> findings" where
  "validate_expression_sem prec L d (StringLiteral v sp) = Inr []"
| "validate_expression_sem prec L d (NumberLiteral v raw sp) = Inr []"
| "validate_expression_sem prec L d (VariableReference i sp) = Inr []"
| "validate_expression_sem prec L d (MessageReference i a sp) = Inr []"
| "validate_expression_sem prec L d (TermReference i a None sp) = Inr []"
| "validate_expression_sem prec L d (TermReference i a (Some (CallArguments ps ns asp)) sp) =
     join_findings (report (ps \<noteq> []) (term_positional_args (id_name i) sp))
       (validate_call_arguments_sem prec L d (CallArguments ps ns asp))"
| "validate_expression_sem prec L d (FunctionReference i args sp) = validate_call_arguments_sem prec L d args"
| "validate_expression_sem prec L d (NestedPlaceable (Placeable e sp)) =
     guard_findings L d (validate_expression_sem prec L (d + 1) e)"
| "validate_expression_sem prec L d (SelectExpression sel vs sp) =
     join_findings (report (is_placeable sel) placeable_selector)
       (join_findings (validate_expression_sem prec L d sel)
          (if vs = [] then Inr [select_no_variants]
           else join_findings (report (count_default_variants vs \<noteq> 1) (select_no_default (count_default_variants vs)))
                  (validate_variants_sem prec L d {} vs)))"
| "validate_call_arguments_sem prec L d (CallArguments ps ns sp) =
     join_findings (Inr (check_named_args {} ns)) (validate_positional_sem prec L d ps)"
| "validate_positional_sem prec L d [] = Inr []"
| "validate_positional_sem prec L d (e # es) =
     join_findings
       (guard_findings L d (if is_inline e then validate_expression_sem prec L (d + 1) e else Inl UnexpectedExpression))
       (validate_positional_sem prec L d es)"
| "validate_variants_sem prec L d seen_keys [] = Inr []"
| "validate_variants_sem prec L d seen_keys (Variant k p starred sp # vs) =
     (case variant_key_to_string prec k of
        Inl e \<Rightarrow> Inl e
      | Inr key_str \<Rightarrow>
          join_findings (report (key_str \<in> seen_keys) (variant_duplicate key_str))
            (join_findings (validate_pattern_sem prec L d p)
               (validate_variants_sem prec L d (insert key_str seen_keys) vs)))"
| "validate_pattern_sem prec L d (Pattern es sp) = validate_elements_sem prec L d es"
| "validate_elements_sem prec L d [] = Inr []"
| "validate_elements_sem prec L d (TextElement v sp # es) = validate_elements_sem prec L d es"
| "validate_elements_sem prec L d (PlaceableElement (Placeable e sp) # es) =
     join_findings (guard_findings L d (validate_expression_sem prec L (d + 1) e)) (validate_elements_sem prec L d es)"

fun validate_attributes_sem :: "nat \<Rightarrow> int \<Rightarrow> attribute list \<Rightarrow> findings" where
  "validate_attributes_sem prec L [] = Inr []"
| "validate_attributes_sem prec L (Attribute i p sp # ats) =
     join_findings (validate_pattern_sem prec L 0 p) (validate_attributes_sem prec L ats)"

fun validate_entry_sem :: "nat \<Rightarrow> int \<Rightarrow> entry \<Rightarrow> findings" where
  "validate_entry_sem prec L (Message i v ats cm sp) =
     join_findings (case v of None \<Rightarrow> Inr [] | Some p \<Rightarrow> validate_pattern_sem prec L 0 p) (validate_attributes_sem prec L ats)"
| "validate_entry_sem prec L (Term i v ats cm sp) =
     join_findings (validate_pattern_sem prec L 0 v) (validate_attributes_sem prec L ats)"
| "validate_entry_sem prec L (CommentEntry cm) = Inr []"
| "validate_entry_sem prec L (Junk content ans sp) = Inr []"

fun validate_entries_sem :: "nat \<Rightarrow> int \<Rightarrow> entry list \<Rightarrow> findings" where
  "validate_entries_sem prec L [] = Inr []"
| "validate_entries_sem prec L (e # es) = join_findings (validate_entry_sem prec L e) (validate_entries_sem prec L es)"

text \<open>\<open>SemanticValidator.validate\<close>; the depth guard has the limit \<open>MAX_DEPTH\<close>, clamped.\<close>

definition semantic_validate :: "nat \<Rightarrow> int \<Rightarrow> resource \<Rightarrow> semantic_error + validation_result" where
  "semantic_validate prec recursion_limit r =
     map_sum id from_annotations (validate_entries_sem prec (depth_clamp recursion_limit (int MAX_DEPTH)) (entries r))"

end
