(* ===== verification/Semantic_Properties.thy ===== *)
theory Semantic_Properties
  imports Semantic_Validator Selection_Properties Parser_Properties Digit_Text
begin

text \<open>
  What the semantic validator decides: it raises exactly when the levels of its depth guard
  exceed the limit, and it reports nothing exactly when the tree satisfies the rules of the
  specification, stated here as predicates on trees; number keys are told apart by value, as
  the resolver does, up to the precision of the decimal context.
\<close>

section \<open>The rules\<close>

text \<open>The texts of the keys; \<open>key_str\<close> is total where every number key is a decimal.\<close>

definition key_str :: "nat \<Rightarrow> variant \<Rightarrow> ustr" where
  "key_str prec w = (case variant_key_to_string prec (variant_key_of w) of Inl e \<Rightarrow> [] | Inr s \<Rightarrow> s)"

fun valid_expr :: "nat \<Rightarrow> expression \<Rightarrow> bool"
and valid_args :: "nat \<Rightarrow> call_arguments \<Rightarrow> bool"
and valid_positional :: "nat \<Rightarrow> expression list \<Rightarrow> bool"
and valid_variants :: "nat \<Rightarrow> variant list \<Rightarrow> bool"
and valid_pattern :: "nat \<Rightarrow> pattern \<Rightarrow> bool"
and valid_elements :: "nat \<Rightarrow> pattern_element list \<Rightarrow> bool" where
  "valid_expr prec (StringLiteral v sp) = True"
| "valid_expr prec (NumberLiteral v raw sp) = True"
| "valid_expr prec (VariableReference i sp) = True"
| "valid_expr prec (MessageReference i a sp) = True"
| "valid_expr prec (TermReference i a None sp) = True"
| "valid_expr prec (TermReference i a (Some (CallArguments ps ns asp)) sp) =
     (ps = [] \<and> valid_args prec (CallArguments ps ns asp))"
| "valid_expr prec (FunctionReference i args sp) = valid_args prec args"
| "valid_expr prec (NestedPlaceable (Placeable e sp)) = valid_expr prec e"
| "valid_expr prec (SelectExpression sel vs sp) =
     (\<not> is_placeable sel \<and> valid_expr prec sel \<and> length (filter variant_default vs) = 1 \<and>
      distinct (map (key_str prec) vs) \<and> valid_variants prec vs)"
| "valid_args prec (CallArguments ps ns sp) = (distinct (map named_name ns) \<and> valid_positional prec ps)"
| "valid_positional prec [] = True"
| "valid_positional prec (e # es) = (valid_expr prec e \<and> valid_positional prec es)"
| "valid_variants prec [] = True"
| "valid_variants prec (Variant k p starred sp # vs) = (valid_pattern prec p \<and> valid_variants prec vs)"
| "valid_pattern prec (Pattern es sp) = valid_elements prec es"
| "valid_elements prec [] = True"
| "valid_elements prec (TextElement v sp # es) = valid_elements prec es"
| "valid_elements prec (PlaceableElement (Placeable e sp) # es) = (valid_expr prec e \<and> valid_elements prec es)"

fun valid_entry :: "nat \<Rightarrow> entry \<Rightarrow> bool" where
  "valid_entry prec (Message i v ats cm sp) =
     (pred_option (valid_pattern prec) v \<and> list_all (\<lambda>a. valid_pattern prec (attr_value a)) ats)"
| "valid_entry prec (Term i v ats cm sp) =
     (valid_pattern prec v \<and> list_all (\<lambda>a. valid_pattern prec (attr_value a)) ats)"
| "valid_entry prec _ = True"

text \<open>The levels of the depth guard: placeables and positional arguments.\<close>

fun guard_expr :: "expression \<Rightarrow> nat"
and guard_args :: "call_arguments \<Rightarrow> nat"
and guard_positional :: "expression list \<Rightarrow> nat"
and guard_variants :: "variant list \<Rightarrow> nat"
and guard_pattern :: "pattern \<Rightarrow> nat"
and guard_elements :: "pattern_element list \<Rightarrow> nat" where
  "guard_expr (StringLiteral v sp) = 0"
| "guard_expr (NumberLiteral v raw sp) = 0"
| "guard_expr (VariableReference i sp) = 0"
| "guard_expr (MessageReference i a sp) = 0"
| "guard_expr (TermReference i a None sp) = 0"
| "guard_expr (TermReference i a (Some args) sp) = guard_args args"
| "guard_expr (FunctionReference i args sp) = guard_args args"
| "guard_expr (NestedPlaceable (Placeable e sp)) = Suc (guard_expr e)"
| "guard_expr (SelectExpression sel vs sp) = max (guard_expr sel) (guard_variants vs)"
| "guard_args (CallArguments ps ns sp) = guard_positional ps"
| "guard_positional [] = 0"
| "guard_positional (e # es) = max (Suc (guard_expr e)) (guard_positional es)"
| "guard_variants [] = 0"
| "guard_variants (Variant k p starred sp # vs) = max (guard_pattern p) (guard_variants vs)"
| "guard_pattern (Pattern es sp) = guard_elements es"
| "guard_elements [] = 0"
| "guard_elements (TextElement v sp # es) = guard_elements es"
| "guard_elements (PlaceableElement (Placeable e sp) # es) = max (Suc (guard_expr e)) (guard_elements es)"

fun guard_entry :: "entry \<Rightarrow> nat" where
  "guard_entry (Message i v ats cm sp) =
     max (case v of None \<Rightarrow> 0 | Some p \<Rightarrow> guard_pattern p) (max_list (map (\<lambda>a. guard_pattern (attr_value a)) ats))"
| "guard_entry (Term i v ats cm sp) = max (guard_pattern v) (max_list (map (\<lambda>a. guard_pattern (attr_value a)) ats))"
| "guard_entry _ = 0"

section \<open>The traversal decides them\<close>

text \<open>The outcome of a traversal that fits the guard when \<open>fits\<close> and is clean when \<open>ok\<close>.\<close>

definition verdict :: "findings \<Rightarrow> bool \<Rightarrow> bool \<Rightarrow> bool" where
  "verdict r fits ok \<longleftrightarrow>
     (if fits then \<exists>ans. r = Inr ans \<and> (ans = [] \<longleftrightarrow> ok) else r = Inl DepthGuardExceeded)"

definition guard_fits :: "int \<Rightarrow> int \<Rightarrow> nat \<Rightarrow> bool" where
  "guard_fits L d n \<longleftrightarrow> n = 0 \<or> d + int n \<le> L"

lemma guard_fits_max [simp]: "guard_fits L d (max m n) \<longleftrightarrow> guard_fits L d m \<and> guard_fits L d n"
  by (auto simp: guard_fits_def max_def)

lemma guard_fits_0 [simp]: "guard_fits L d 0"
  by (simp add: guard_fits_def)

lemma verdict_report [simp]: "verdict (report b a) True ok \<longleftrightarrow> ok = (\<not> b)"
  by (auto simp: verdict_def report_def)

lemma verdict_Inr [simp]: "verdict (Inr ans) True ok \<longleftrightarrow> (ans = [] \<longleftrightarrow> ok)"
  by (simp add: verdict_def)

lemma verdict_join: "verdict a f ok \<Longrightarrow> verdict b g ok' \<Longrightarrow> verdict (join_findings a b) (f \<and> g) (ok \<and> ok')"
  by (auto simp: verdict_def join_findings_def split: if_splits)

lemma verdict_guard: "verdict r (guard_fits L (d + 1) n) ok \<Longrightarrow> verdict (guard_findings L d r) (guard_fits L d (Suc n)) ok"
  by (auto simp: verdict_def guard_findings_def guard_fits_def)

lemma named_args_clean: "check_named_args seen ns = [] \<longleftrightarrow> distinct (map named_name ns) \<and> seen \<inter> named_name ` set ns = {}"
  by (induction ns arbitrary: seen) auto

section \<open>The trees\<close>

text \<open>
  The trees that the types of the AST admit: a number key has passed \<open>NumberLiteral.__post_init__\<close>,
  so that its text is a decimal, and a positional argument is an inline expression.  Nothing else
  is asked: a select expression may have any selector, no variant, and no or several defaults
  (which \<open>object.__new__\<close> can build), and arguments and keys may be repeated.
\<close>

definition key_parses :: "variant_key \<Rightarrow> bool" where
  "key_parses k = (case k of KeyIdentifier i \<Rightarrow> True | KeyNumber v raw sp \<Rightarrow> py_decimal raw \<noteq> None)"

lemma key_ok_parses: "key_ok n k \<Longrightarrow> key_parses k"
  by (cases k) (auto simp: key_parses_def elim: literal_text_value)

lemma key_parses_str:
  "key_parses (variant_key_of w) \<Longrightarrow> variant_key_to_string prec (variant_key_of w) = Inr (key_str prec w)"
  by (auto simp: key_parses_def key_str_def variant_key_to_string_def split: variant_key.split option.split)

fun typed_expr :: "expression \<Rightarrow> bool"
and typed_args :: "call_arguments \<Rightarrow> bool"
and typed_positional :: "expression list \<Rightarrow> bool"
and typed_variants :: "variant list \<Rightarrow> bool"
and typed_pattern :: "pattern \<Rightarrow> bool"
and typed_elements :: "pattern_element list \<Rightarrow> bool" where
  "typed_expr (TermReference i a (Some args) sp) = typed_args args"
| "typed_expr (FunctionReference i args sp) = typed_args args"
| "typed_expr (NestedPlaceable (Placeable e sp)) = typed_expr e"
| "typed_expr (SelectExpression sel vs sp) = (typed_expr sel \<and> typed_variants vs)"
| "typed_expr e = True"
| "typed_args (CallArguments ps ns sp) = typed_positional ps"
| "typed_positional [] = True"
| "typed_positional (e # es) = (is_inline e \<and> typed_expr e \<and> typed_positional es)"
| "typed_variants [] = True"
| "typed_variants (Variant k p starred sp # vs) = (key_parses k \<and> typed_pattern p \<and> typed_variants vs)"
| "typed_pattern (Pattern es sp) = typed_elements es"
| "typed_elements [] = True"
| "typed_elements (TextElement v sp # es) = typed_elements es"
| "typed_elements (PlaceableElement (Placeable e sp) # es) = (typed_expr e \<and> typed_elements es)"

fun typed_entry :: "entry \<Rightarrow> bool" where
  "typed_entry (Message i v ats cm sp) = (pred_option typed_pattern v \<and> list_all (\<lambda>a. typed_pattern (attr_value a)) ats)"
| "typed_entry (Term i v ats cm sp) = (typed_pattern v \<and> list_all (\<lambda>a. typed_pattern (attr_value a)) ats)"
| "typed_entry _ = True"

text \<open>The trees of the parser are among them.\<close>

lemma wf_typed:
  "wf_expr n e \<Longrightarrow> typed_expr e"
  "wf_args n args \<Longrightarrow> typed_args args"
  "list_all (wf_expr n) es \<Longrightarrow> list_all is_inline es \<Longrightarrow> typed_positional es"
  "list_all (wf_variant n) vs \<Longrightarrow> typed_variants vs"
  "wf_pattern n p \<Longrightarrow> typed_pattern p"
  "list_all (wf_element n) ps \<Longrightarrow> typed_elements ps"
  by (induction e and args and es and vs and p and ps
      rule: typed_expr_typed_args_typed_positional_typed_variants_typed_pattern_typed_elements.induct)
    (auto dest: key_ok_parses)

lemma wf_attribute_typed: "wf_attribute n a \<Longrightarrow> typed_pattern (attr_value a)"
  by (cases a) (auto intro: wf_typed(5))

lemma wf_entry_typed: "wf_entry n e \<Longrightarrow> typed_entry e"
  by (cases e) (auto simp: list_all_iff pred_option_def intro: wf_typed(5) wf_attribute_typed)

section \<open>The traversal of a tree\<close>

lemma traversal_verdict:
  "typed_expr e \<Longrightarrow> verdict (validate_expression_sem prec L d e) (guard_fits L d (guard_expr e)) (valid_expr prec e)"
  "typed_args args \<Longrightarrow> verdict (validate_call_arguments_sem prec L d args) (guard_fits L d (guard_args args)) (valid_args prec args)"
  "typed_positional es \<Longrightarrow>
     verdict (validate_positional_sem prec L d es) (guard_fits L d (guard_positional es)) (valid_positional prec es)"
  "typed_variants vs \<Longrightarrow>
     verdict (validate_variants_sem prec L d seen vs) (guard_fits L d (guard_variants vs))
       (distinct (map (key_str prec) vs) \<and> seen \<inter> key_str prec ` set vs = {} \<and> valid_variants prec vs)"
  "typed_pattern p \<Longrightarrow> verdict (validate_pattern_sem prec L d p) (guard_fits L d (guard_pattern p)) (valid_pattern prec p)"
  "typed_elements ps \<Longrightarrow>
     verdict (validate_elements_sem prec L d ps) (guard_fits L d (guard_elements ps)) (valid_elements prec ps)"
proof (induction prec L d e and prec L d args and prec L d es and prec L d seen vs and prec L d p and prec L d ps
    rule: validate_expression_sem_validate_call_arguments_sem_validate_positional_sem_validate_variants_sem_validate_pattern_sem_validate_elements_sem.induct)
  case (6 prec L d i a ps ns asp sp)
  then show ?case
    using verdict_join [OF _ 6(1), of "report (ps \<noteq> []) (term_positional_args (id_name i) sp)" True "ps = []"] by simp
next
  case (8 prec L d e sp)
  then show ?case using verdict_guard by simp
next
  case (9 prec L d sel vs sp)
  let ?count = "count_default_variants vs"
  have sel: "verdict (validate_expression_sem prec L d sel) (guard_fits L d (guard_expr sel)) (valid_expr prec sel)"
    using 9 by simp
  have "verdict (if vs = [] then Inr [select_no_variants]
        else join_findings (report (?count \<noteq> 1) (select_no_default ?count)) (validate_variants_sem prec L d {} vs))
      (guard_fits L d (guard_variants vs))
      (length (filter variant_default vs) = 1 \<and> distinct (map (key_str prec) vs) \<and> valid_variants prec vs)"
    using 9 verdict_join [OF _ 9(2), of "report (?count \<noteq> 1) (select_no_default ?count)" True "?count = 1"]
    by (auto simp: count_default_variants_def)
  from verdict_join [OF _ verdict_join [OF sel this], of "report (is_placeable sel) placeable_selector" True "\<not> is_placeable sel"]
  show ?case by simp
next
  case (10 prec L d ps ns sp)
  then show ?case
    using verdict_join [OF _ 10(1), of "Inr (check_named_args {} ns)" True "distinct (map named_name ns)"]
    by (simp add: named_args_clean)
next
  case (12 prec L d e es)
  then show ?case using verdict_join [OF verdict_guard] by simp
next
  case (14 prec L d seen k p starred sp vs)
  let ?w = "Variant k p starred sp"
  have key: "variant_key_to_string prec k = Inr (key_str prec ?w)"
    using 14(3) key_parses_str [of ?w] by simp
  show ?case
    using verdict_join [OF _ verdict_join [OF 14(1,2) [OF key]], of "report (key_str prec ?w \<in> seen) (variant_duplicate (key_str prec ?w))" True "key_str prec ?w \<notin> seen"]
      14(3) key by (auto elim: back_subst [of "verdict _ _"])
next
  case (18 prec L d e sp es)
  then show ?case using verdict_join [OF verdict_guard] by simp
qed simp_all

section \<open>Resources\<close>

lemma attributes_verdict:
  "list_all (\<lambda>a. typed_pattern (attr_value a)) ats \<Longrightarrow>
     verdict (validate_attributes_sem prec L ats) (guard_fits L 0 (max_list (map (\<lambda>a. guard_pattern (attr_value a)) ats)))
       (list_all (\<lambda>a. valid_pattern prec (attr_value a)) ats)"
proof (induction ats)
  case (Cons a ats)
  then show ?case
    by (cases a) (auto simp: max_list_def intro!: verdict_join traversal_verdict(5))
qed (simp add: max_list_def)

lemma entry_verdict:
  "typed_entry e \<Longrightarrow> verdict (validate_entry_sem prec L e) (guard_fits L 0 (guard_entry e)) (valid_entry prec e)"
proof (induction e)
  case (Message i v ats cm sp)
  have "verdict (case v of None \<Rightarrow> Inr [] | Some p \<Rightarrow> validate_pattern_sem prec L 0 p)
      (guard_fits L 0 (case v of None \<Rightarrow> 0 | Some p \<Rightarrow> guard_pattern p)) (pred_option (valid_pattern prec) v)"
    using Message traversal_verdict(5) by (cases v) auto
  from verdict_join [OF this attributes_verdict] Message show ?case by simp
next
  case (Term i v ats cm sp)
  then show ?case using verdict_join [OF traversal_verdict(5) attributes_verdict] by simp
qed simp_all

lemma entries_verdict:
  "list_all typed_entry es \<Longrightarrow>
     verdict (validate_entries_sem prec L es) (list_all (\<lambda>e. guard_fits L 0 (guard_entry e)) es) (list_all (valid_entry prec) es)"
  by (induction es) (auto intro!: verdict_join entry_verdict)

lemma validation_verdict:
  assumes "list_all typed_entry (entries r)"
  shows "case semantic_validate prec recursion_limit r of
      Inl e \<Rightarrow> e = DepthGuardExceeded \<and>
        (\<exists>x \<in> set (entries r). 0 < guard_entry x \<and> depth_clamp recursion_limit (int MAX_DEPTH) < int (guard_entry x))
    | Inr res \<Rightarrow>
        (\<forall>x \<in> set (entries r). guard_entry x = 0 \<or> int (guard_entry x) \<le> depth_clamp recursion_limit (int MAX_DEPTH)) \<and>
        (is_valid_result res \<longleftrightarrow> list_all (valid_entry prec) (entries r))"
  using entries_verdict [OF assms, of prec "depth_clamp recursion_limit (int MAX_DEPTH)"]
  by (auto simp: verdict_def semantic_validate_def is_valid_result_def from_annotations_def guard_fits_def list_all_iff
      not_le split: if_splits)


section \<open>What the parser returns\<close>

lemma guard_le_nesting:
  "guard_expr e \<le> nesting_expr e"
  "guard_args args \<le> Suc (nesting_args args)"
  "guard_positional es \<le> Suc (max_list (map nesting_expr es))"
  "guard_variants vs \<le> max_list (map nesting_variant vs)"
  "guard_pattern p \<le> nesting_pattern p"
  "guard_elements ps \<le> max_list (map nesting_element ps)"
  by (induction e and args and es and vs and p and ps
      rule: guard_expr_guard_args_guard_positional_guard_variants_guard_pattern_guard_elements.induct)
    (auto simp: max_list_def max_def)

lemma guard_entry_le: "guard_entry e \<le> nesting_entry e"
proof -
  have "max_list (map (\<lambda>a. guard_pattern (attr_value a)) ats) \<le> max_list (map (\<lambda>a. nesting_pattern (attr_value a)) ats)" for ats
    by (induction ats) (auto simp: max_list_def intro: max.coboundedI1 [OF guard_le_nesting(5)] max.coboundedI2)
  then show ?thesis by (cases e) (auto split: option.split intro: max.coboundedI1 max.coboundedI2 guard_le_nesting(5))
qed

text \<open>What the parser returns is validated without an exception, when its nesting limit is at most
  the limit of the validator.\<close>

theorem parsed_resource_validates:
  assumes "parse P s = Returns r" "parser_nesting_depth P \<le> depth_clamp recursion_limit (int MAX_DEPTH)"
  shows "\<exists>res. semantic_validate prec recursion_limit r = Inr res \<and>
    (is_valid_result res \<longleftrightarrow> list_all (valid_entry prec) (entries r))"
proof -
  have wf: "list_all typed_entry (entries r)"
    and small: "list_all (\<lambda>e. nesting_entry e \<le> nat (parser_nesting_depth P)) (entries r)"
    using assms(1) by (cases rule: parse_cases [of P s]; auto simp: resource_ok_def list_all_iff intro: wf_entry_typed)+
  have "guard_entry x = 0 \<or> int (guard_entry x) \<le> depth_clamp recursion_limit (int MAX_DEPTH)" if "x \<in> set (entries r)" for x
    using small that guard_entry_le [of x] assms(2) by (force simp: list_all_iff)
  then show ?thesis
    using validation_verdict [OF wf, where prec = prec and recursion_limit = recursion_limit]
    by (fastforce split: sum.splits dest: leD)
qed

section \<open>Keys\<close>

text \<open>The fixed-point text of a decimal reads back as the decimal.\<close>

lemma fixed_point_read: "py_decimal (fixed_point d) = Some d"
proof -
  obtain neg n s where d: "d = Decimal neg n s" by (cases d)
  let ?ds = "dec_digits n"
  have take: "digits (take k ?ds)" "digits (drop k ?ds)" for k by (rule digits_take, simp)+
  consider (whole) "s = 0" | (inside) "0 < s" "s < length ?ds" | (small) "0 < s" "length ?ds \<le> s" by linarith
  then show ?thesis
  proof cases
    case whole
    have "strip_minus (fixed_point d) = (neg, ?ds)"
      using digits_sign(2) [of ?ds "[]"] whole d by (simp add: fixed_point_def Let_def digits_sign(1))
    then show ?thesis using whole d by (simp add: py_decimal_def Let_def plain_digits)
  next
    case inside
    let ?i = "take (length ?ds - s) ?ds" and ?f = "drop (length ?ds - s) ?ds"
    have "strip_minus (fixed_point d) = (neg, ?i @ CH_DOT # ?f)"
      using digits_sign(2) [of ?i "CH_DOT # ?f"] take inside d by (simp add: fixed_point_def Let_def digits_sign(1))
    then show ?thesis
      using plain_digits [OF take(1)] plain_digits(5) [OF take(2)] inside d by (simp add: py_decimal_def Let_def)
  next
    case small
    let ?f = "replicate (s - length ?ds) 48 @ ?ds"
    have "strip_minus (fixed_point d) = (neg, [48] @ CH_DOT # ?f)"
      using digits_sign(2) [of "[48]" "CH_DOT # ?f"] small d by (simp add: fixed_point_def Let_def digits_sign(1))
    then show ?thesis
      using plain_digits(1,2) [of "[48]" ?f] plain_digits(5) [of ?f] plain_digits(5) [of "[48]"] small d
      by (simp add: py_decimal_def Let_def digits_value_zero_head digits_value_zeros)
  qed
qed

lemma fixed_point_inject: "fixed_point a = fixed_point b \<longleftrightarrow> a = b"
  using fixed_point_read by (metis option.inject)

text \<open>Stripping the zeros keeps the value and leaves one form for each.\<close>

lemma strip_zeros_value: "strip_zeros c s = (c', s') \<Longrightarrow> c * 10 ^ s' = c' * 10 ^ s \<and> (s' = 0 \<or> c' mod 10 \<noteq> 0)"
proof (induction c s arbitrary: c' s' rule: strip_zeros.induct)
  case (2 c s)
  show ?case
  proof (cases "c mod 10 = 0")
    case True
    then have "c = 10 * (c div 10)" by presburger
    moreover have "c div 10 * 10 ^ s' = c' * 10 ^ s \<and> (s' = 0 \<or> c' mod 10 \<noteq> 0)"
      using 2 True by simp
    ultimately show ?thesis by (metis (no_types) mult.assoc mult.commute power_Suc)
  qed (use 2 in simp)
qed simp

lemma stripped_unique:
  assumes "c * 10 ^ s' = c' * (10 :: nat) ^ s" "s = 0 \<or> c mod 10 \<noteq> 0" "s' = 0 \<or> c' mod 10 \<noteq> 0" "s \<le> s'"
  shows "c = c' \<and> s = s'"
proof -
  have "c * 10 ^ (s' - s) = c'"
  proof -
    have "10 ^ s' = 10 ^ (s' - s) * (10 :: nat) ^ s" using assms(4) by (simp flip: power_add)
    with assms(1) show ?thesis by (simp flip: mult.assoc)
  qed
  moreover have "s' - s = 0"
  proof (rule ccontr)
    assume "s' - s \<noteq> 0"
    then have "10 dvd c * 10 ^ (s' - s)" by simp
    with calculation assms(3) show False using \<open>s' - s \<noteq> 0\<close> by auto
  qed
  ultimately show ?thesis using assms(4) by simp
qed

lemma normalize_value:
  assumes "length (dec_digits (dec_coefficient d)) \<le> prec" "normalize_decimal prec d = Decimal neg c s"
  shows "dec_coefficient d * 10 ^ s = c * 10 ^ dec_scale d" "s = 0 \<or> c mod 10 \<noteq> 0" "neg = dec_negative d"
  using assms strip_zeros_value [of "dec_coefficient d" "dec_scale d" c s]
  by (auto simp: normalize_decimal_def round_decimal_def Let_def split: prod.splits)

text \<open>A number that the context does not round, and no negative zero.\<close>

definition plain_number :: "nat \<Rightarrow> ustr \<Rightarrow> bool" where
  "plain_number prec raw \<longleftrightarrow>
     (\<exists>d. py_decimal raw = Some d \<and> length (dec_digits (dec_coefficient d)) \<le> prec \<and>
        \<not> (dec_negative d \<and> dec_coefficient d = 0))"

lemma normal_forms:
  assumes "length (dec_digits (dec_coefficient d)) \<le> prec" "length (dec_digits (dec_coefficient d')) \<le> prec"
    and "\<not> (dec_negative d \<and> dec_coefficient d = 0)" "\<not> (dec_negative d' \<and> dec_coefficient d' = 0)"
  shows "normalize_decimal prec d = normalize_decimal prec d' \<longleftrightarrow> decimal_eq d d'"
proof -
  obtain neg c s neg' c' s' where n: "normalize_decimal prec d = Decimal neg c s" "normalize_decimal prec d' = Decimal neg' c' s'"
    by (metis plain_decimal.exhaust)
  note v = normalize_value [OF assms(1) n(1)] and v' = normalize_value [OF assms(2) n(2)]
  have pos: "dec_coefficient d = 0 \<longleftrightarrow> c = 0" "dec_coefficient d' = 0 \<longleftrightarrow> c' = 0"
    using v(1) v'(1) by (metis mult_eq_0_iff power_not_zero zero_neq_numeral)+
  define N N' S S' where "N = dec_coefficient d" and "N' = dec_coefficient d'" and "S = dec_scale d" and "S' = dec_scale d'"
  have "N * 10 ^ S' = N' * 10 ^ S \<longleftrightarrow> c * 10 ^ s' = c' * 10 ^ s"
  proof -
    have "(N * 10 ^ S') * (10 ^ s * 10 ^ s') = (c * 10 ^ s') * (10 ^ S * 10 ^ S')"
      using v(1) by (simp add: N_def S_def mult_ac)
    moreover have "(N' * 10 ^ S) * (10 ^ s * 10 ^ s') = (c' * 10 ^ s) * (10 ^ S * 10 ^ S')"
      using v'(1) by (simp add: N'_def S'_def mult_ac)
    ultimately show ?thesis by (metis mult_right_cancel mult_eq_0_iff power_not_zero zero_neq_numeral)
  qed
  moreover have "c * 10 ^ s' = c' * 10 ^ s \<longleftrightarrow> c = c' \<and> s = s'"
    using stripped_unique [of c s' c' s] stripped_unique [of c' s c s'] v(2) v'(2) by (metis nat_le_linear)
  moreover have "decimal_eq d d' \<longleftrightarrow> N * 10 ^ S' = N' * 10 ^ S \<and> (dec_negative d = dec_negative d' \<or> N = 0 \<and> N' = 0)"
  proof -
    have int: "int N * 10 ^ S' = int N' * 10 ^ S \<longleftrightarrow> N * 10 ^ S' = N' * 10 ^ S"
      using of_nat_eq_iff [of "N * 10 ^ S'" "N' * 10 ^ S", where 'a = int] by simp
    have "0 \<le> int N * 10 ^ S'" "0 \<le> int N' * 10 ^ S" "int N * 10 ^ S' = 0 \<longleftrightarrow> N = 0" "int N' * 10 ^ S = 0 \<longleftrightarrow> N' = 0" by simp_all
    then have "- (int N * 10 ^ S') = int N' * 10 ^ S \<longleftrightarrow> N = 0 \<and> N' = 0"
        "int N * 10 ^ S' = - (int N' * 10 ^ S) \<longleftrightarrow> N = 0 \<and> N' = 0"
      by linarith+
    with int show ?thesis by (auto simp: decimal_eq_def N_def N'_def S_def S'_def)
  qed
  ultimately show ?thesis using n v(3) v'(3) assms(3,4) pos by (auto simp: N_def N'_def)
qed

text \<open>Two number keys within the precision of the context are reported as duplicates exactly when
  the resolver cannot tell them apart.\<close>

lemma number_keys:
  assumes "number_literal_ok v raw" "number_literal_ok v' raw'" "plain_number prec raw" "plain_number prec raw'"
  shows "variant_key_to_string prec (KeyNumber v raw sp) = variant_key_to_string prec (KeyNumber v' raw' sp') \<longleftrightarrow>
    number_rat v = number_rat v'"
proof -
  obtain d d' where d: "py_decimal raw = Some d" "py_decimal raw' = Some d'"
      "normalize_decimal prec d = normalize_decimal prec d' \<longleftrightarrow> decimal_eq d d'"
    using assms(3,4) normal_forms by (auto simp: plain_number_def)
  moreover have "decimal_value d = number_rat v" "decimal_value d' = number_rat v'"
    using literal_text_value [OF assms(1)] literal_text_value [OF assms(2)] d by auto
  ultimately show ?thesis by (simp add: variant_key_to_string_def fixed_point_inject decimal_eq_value)
qed

text \<open>Two number keys within the precision of the decimal context, neither of them a negative
  zero, have one text exactly when they are the same number, and so when the resolver matches
  the same selectors against both; a number key never has the text of a name.\<close>

theorem variant_keys_by_value:
  assumes "key_ok n (KeyNumber v raw sp)" "key_ok n (KeyNumber v' raw' sp')"
    and "plain_number prec raw" "plain_number prec raw'"
  shows "(variant_key_to_string prec (KeyNumber v raw sp) = variant_key_to_string prec (KeyNumber v' raw' sp') \<longleftrightarrow>
      (\<forall>value text. matches value text (Variant (KeyNumber v raw sp) p d vsp) =
         matches value text (Variant (KeyNumber v' raw' sp') p d vsp))) \<and>
    (key_ok n (KeyIdentifier i) \<longrightarrow>
       variant_key_to_string prec (KeyIdentifier i) \<noteq> variant_key_to_string prec (KeyNumber v raw sp))"
proof
  have "number_rat v = number_rat v' \<longleftrightarrow>
      (\<forall>value text. matches value text (Variant (KeyNumber v raw sp) p d vsp) =
         matches value text (Variant (KeyNumber v' raw' sp') p d vsp))" (is "_ \<longleftrightarrow> ?same")
  proof
    assume ?same
    then have "matches (literal_value v) [] (Variant (KeyNumber v raw sp) p d vsp) =
        matches (literal_value v) [] (Variant (KeyNumber v' raw' sp') p d vsp)" by blast
    then show "number_rat v = number_rat v'" by (simp add: matches_def literal_numeric)
  qed (simp add: matches_def)
  then show "variant_key_to_string prec (KeyNumber v raw sp) = variant_key_to_string prec (KeyNumber v' raw' sp') \<longleftrightarrow> ?same"
    using assms number_keys by simp
next
  obtain x where x: "py_decimal raw = Some x" using assms(3) by (auto simp: plain_number_def)
  have "\<not> grammar_identifier (fixed_point y)" for y
  proof -
    have "\<exists>ch rest. xs @ ys = ch # rest \<and> \<not> is_ascii_alpha ch" if "digits xs" "xs \<noteq> []" for xs ys
      using that by (cases xs) (auto simp: is_ascii_alpha_def)
    from this [of "dec_digits (dec_coefficient y)" "[]"] this [of "take (length (dec_digits (dec_coefficient y)) - dec_scale y) (dec_digits (dec_coefficient y))"]
    have "\<exists>ch rest. fixed_point y = ch # rest \<and> \<not> is_ascii_alpha ch"
      using digits_take(1) by (auto simp: fixed_point_def Let_def is_ascii_alpha_def)
    then show ?thesis by (auto simp: grammar_identifier_def is_identifier_start_def)
  qed
  then show "key_ok n (KeyIdentifier i) \<longrightarrow>
      variant_key_to_string prec (KeyIdentifier i) \<noteq> variant_key_to_string prec (KeyNumber v raw sp)"
    using x by (cases i) (auto simp: variant_key_to_string_def)
qed

theorem variant_keys_by_value_witness:
  "variant_key_to_string 28 (KeyNumber (IntValue 10) (u ''10'') None) =
     variant_key_to_string 28 (KeyNumber (DecimalValue (Decimal False 100 1)) (u ''10.0'') None)"
proof -
  have "plain_number 28 (u ''10'')" "plain_number 28 (u ''10.0'')"
    by (auto simp: plain_number_def py_decimal_def strip_minus_def u_def is_ascii_digit_def digits_value_def dec_digits.simps)
  moreover have "key_ok 0 (KeyNumber (IntValue 10) (u ''10'') None)"
      "key_ok 0 (KeyNumber (DecimalValue (Decimal False 100 1)) (u ''10.0'') None)"
    by (auto simp: number_literal_ok_def py_int_def py_decimal_def strip_minus_def u_def is_ascii_digit_def digits_value_def decimal_eq_def)
  ultimately show ?thesis
    using variant_keys_by_value [of 0 "IntValue 10" "u ''10''" None "DecimalValue (Decimal False 100 1)" "u ''10.0''" None 28]
    by (simp add: matches_def number_rat_def decimal_value_def)
qed

text \<open>Two keys that differ in the 29th digit have one text, and a negative zero has another text
  than zero, although the resolver takes it for the same number.\<close>

lemma long_keys_collide:
  "variant_key_to_string 28 (KeyNumber v (u ''1.0000000000000000000000000001'') sp) =
   variant_key_to_string 28 (KeyNumber v' (u ''1.0000000000000000000000000002'') sp')"
proof -
  have "py_decimal (u ''1.0000000000000000000000000001'') = Some (Decimal False 10000000000000000000000000001 28)"
    "py_decimal (u ''1.0000000000000000000000000002'') = Some (Decimal False 10000000000000000000000000002 28)"
    by (simp_all add: py_decimal_def strip_minus_def u_def is_ascii_digit_def digits_value_def)
  moreover have "round_decimal 28 (Decimal False 10000000000000000000000000001 28) = Decimal False 1000000000000000000000000000 27"
    "round_decimal 28 (Decimal False 10000000000000000000000000002 28) = Decimal False 1000000000000000000000000000 27"
    by (simp_all add: round_decimal_def dec_digits.simps half_even_def Let_def)
  ultimately show ?thesis by (simp add: variant_key_to_string_def normalize_decimal_def)
qed

lemma negative_zero_key:
  "variant_key_to_string 28 (KeyNumber (IntValue 0) (u ''-0'') sp) = Inr (u ''-0'')"
  "variant_key_to_string 28 (KeyNumber (IntValue 0) (u ''0'') sp) = Inr (u ''0'')"
  by (simp_all add: variant_key_to_string_def py_decimal_def strip_minus_def u_def is_ascii_digit_def digits_value_def
      normalize_decimal_def round_decimal_def dec_digits.simps fixed_point_def Let_def)



end
