(* ===== verification/Introspection.thy ===== *)
theory Introspection
  imports Reference_Extraction Resolution_Context Parse_Context
begin

text \<open>
  \<open>introspection/message.py\<close>: the variables, function calls and references of a message or term.
  The visitor counts a level of its depth guard for every pattern it visits, every placeable and
  every argument, and raises above the limit (None).  What it finds is a set, so the visitor's
  state is the union of what its parts find.  The module's weak cache holds the result of equal
  entries and is not a state of the model.
\<close>

datatype variable_context = PATTERN | SELECTOR | VARIANT | FUNCTION_ARG

datatype reference_kind = KIND_MESSAGE | KIND_TERM

record variable_info =
  vi_name :: ustr
  vi_context :: variable_context
  vi_span :: "span option"

record function_call_info =
  fci_name :: ustr
  fci_positional_arg_vars :: "ustr list"
  fci_named_args :: "ustr set"
  fci_span :: "span option"

record reference_info =
  ri_id :: ustr
  ri_kind :: reference_kind
  ri_attribute :: "ustr option"
  ri_span :: "span option"

section \<open>The visitor\<close>

record visited =
  iv_variables :: "variable_info set"
  iv_functions :: "function_call_info set"
  iv_references :: "reference_info set"
  iv_has_selectors :: bool

definition nothing_visited :: visited where
  "nothing_visited = \<lparr>iv_variables = {}, iv_functions = {}, iv_references = {}, iv_has_selectors = False\<rparr>"

definition join_visited :: "visited option list \<Rightarrow> visited option" where
  "join_visited vs =
     foldr (\<lambda>v acc.
         case (v, acc) of
           (Some a, Some b) \<Rightarrow>
             Some \<lparr>iv_variables = iv_variables a \<union> iv_variables b, iv_functions = iv_functions a \<union> iv_functions b,
                   iv_references = iv_references a \<union> iv_references b,
                   iv_has_selectors = (iv_has_selectors a \<or> iv_has_selectors b)\<rparr>
         | _ \<Rightarrow> None) vs (Some nothing_visited)"

text \<open>\<open>with self._depth_guard\<close> at depth \<open>d\<close>\<close>

definition depth_guarded :: "int \<Rightarrow> int \<Rightarrow> 'a option \<Rightarrow> 'a option" where
  "depth_guarded limit d r = (if limit \<le> d then None else r)"

definition reference_to :: "reference_kind \<Rightarrow> ident \<Rightarrow> ident option \<Rightarrow> span option \<Rightarrow> visited" where
  "reference_to kind i a sp = nothing_visited\<lparr>iv_references :=
     {\<lparr>ri_id = id_name i, ri_kind = kind, ri_attribute = map_option id_name a, ri_span = sp\<rparr>}\<rparr>"

fun unwrapped :: "expression \<Rightarrow> expression" where
  "unwrapped (NestedPlaceable (Placeable e sp)) = e"
| "unwrapped e = e"

fun variable_name :: "expression \<Rightarrow> ustr list" where
  "variable_name (VariableReference i sp) = [id_name i]"
| "variable_name _ = []"

definition call_info :: "ident \<Rightarrow> expression list \<Rightarrow> named_argument list \<Rightarrow> span option \<Rightarrow> visited" where
  "call_info i ps ns sp = nothing_visited\<lparr>iv_functions :=
     {\<lparr>fci_name = id_name i, fci_positional_arg_vars = concat (map (\<lambda>e. variable_name (unwrapped e)) ps),
       fci_named_args = set (map named_name ns), fci_span = sp\<rparr>}\<rparr>"

fun introspect_expression :: "int \<Rightarrow> int \<Rightarrow> variable_context \<Rightarrow> expression \<Rightarrow> visited option"
and introspect_arguments :: "int \<Rightarrow> int \<Rightarrow> variable_context \<Rightarrow> call_arguments \<Rightarrow> visited option"
and introspect_named :: "int \<Rightarrow> int \<Rightarrow> variable_context \<Rightarrow> named_argument \<Rightarrow> visited option"
and introspect_variant :: "int \<Rightarrow> int \<Rightarrow> variant \<Rightarrow> visited option"
and introspect_pattern :: "int \<Rightarrow> int \<Rightarrow> variable_context \<Rightarrow> pattern \<Rightarrow> visited option"
and introspect_element :: "int \<Rightarrow> int \<Rightarrow> variable_context \<Rightarrow> pattern_element \<Rightarrow> visited option"
and introspect_placeable :: "int \<Rightarrow> int \<Rightarrow> variable_context \<Rightarrow> placeable \<Rightarrow> visited option" where
  "introspect_expression L d ctx (StringLiteral s sp) = Some nothing_visited"
| "introspect_expression L d ctx (NumberLiteral v raw sp) = Some nothing_visited"
| "introspect_expression L d ctx (VariableReference i sp) = Some (nothing_visited\<lparr>iv_variables :=
     {\<lparr>vi_name = id_name i, vi_context = ctx, vi_span = sp\<rparr>}\<rparr>)"
| "introspect_expression L d ctx (MessageReference i a sp) = Some (reference_to KIND_MESSAGE i a sp)"
| "introspect_expression L d ctx (TermReference i a None sp) = Some (reference_to KIND_TERM i a sp)"
| "introspect_expression L d ctx (TermReference i a (Some args) sp) =
     join_visited [Some (reference_to KIND_TERM i a sp), introspect_arguments L d ctx args]"
| "introspect_expression L d ctx (FunctionReference i (CallArguments ps ns asp) sp) =
     join_visited [introspect_arguments L d FUNCTION_ARG (CallArguments ps ns asp), Some (call_info i ps ns sp)]"
| "introspect_expression L d ctx (NestedPlaceable p) = introspect_placeable L d ctx p"
| "introspect_expression L d ctx (SelectExpression sel vs sp) =
     join_visited (Some (nothing_visited\<lparr>iv_has_selectors := True\<rparr>) #
       depth_guarded L d (introspect_expression L (d + 1) SELECTOR sel) # map (introspect_variant L d) vs)"
| "introspect_arguments L d ctx (CallArguments ps ns sp) =
     join_visited (map (\<lambda>e. depth_guarded L d (introspect_expression L (d + 1) ctx e)) ps @
       map (introspect_named L d ctx) ns)"
| "introspect_named L d ctx (NamedArgument i e sp) = depth_guarded L d (introspect_expression L (d + 1) ctx e)"
| "introspect_variant L d (Variant k p b sp) = depth_guarded L d (introspect_pattern L (d + 1) VARIANT p)"
| "introspect_pattern L d ctx (Pattern es sp) = join_visited (map (introspect_element L d ctx) es)"
| "introspect_element L d ctx (TextElement s sp) = Some nothing_visited"
| "introspect_element L d ctx (PlaceableElement p) = introspect_placeable L d ctx p"
| "introspect_placeable L d ctx (Placeable e sp) = depth_guarded L d (introspect_expression L (d + 1) ctx e)"

section \<open>The interface\<close>

record message_introspection =
  mi_message_id :: ustr
  mi_variables :: "variable_info set"
  mi_functions :: "function_call_info set"
  mi_references :: "reference_info set"
  mi_has_selectors :: bool

text \<open>A message or a term: its name, value and attributes.\<close>

definition introspect_message :: "int \<Rightarrow> ustr \<Rightarrow> entry_data \<Rightarrow> message_introspection option" where
  "introspect_message recursion_limit name entry =
     (let limit = depth_clamp recursion_limit (int MAX_DEPTH);
          visit_value = (\<lambda>p. depth_guarded limit 0 (introspect_pattern limit 1 PATTERN p))
      in map_option (\<lambda>v.
           \<lparr>mi_message_id = name, mi_variables = iv_variables v, mi_functions = iv_functions v,
            mi_references = iv_references v, mi_has_selectors = iv_has_selectors v\<rparr>)
         (join_visited ((case fst entry of None \<Rightarrow> [] | Some p \<Rightarrow> [visit_value p]) @
            map (\<lambda>a. visit_value (attr_value a)) (snd entry))))"

definition get_variable_names :: "message_introspection \<Rightarrow> ustr set" where
  "get_variable_names r = vi_name ` mi_variables r"

definition requires_variable :: "ustr \<Rightarrow> message_introspection \<Rightarrow> bool" where
  "requires_variable name r \<longleftrightarrow> name \<in> get_variable_names r"

definition get_function_names :: "message_introspection \<Rightarrow> ustr set" where
  "get_function_names r = fci_name ` mi_functions r"

definition extract_variables :: "int \<Rightarrow> ustr \<Rightarrow> entry_data \<Rightarrow> ustr set option" where
  "extract_variables recursion_limit name entry =
     map_option get_variable_names (introspect_message recursion_limit name entry)"

record variable_validation =
  mv_message_id :: ustr
  mv_is_valid :: bool
  mv_declared_variables :: "ustr set"
  mv_missing_variables :: "ustr set"
  mv_extra_variables :: "ustr set"

definition validate_message_variables :: "int \<Rightarrow> ustr \<Rightarrow> entry_data \<Rightarrow> ustr set \<Rightarrow> variable_validation option" where
  "validate_message_variables recursion_limit name entry expected =
     map_option (\<lambda>declared.
         let missing = expected - declared; extra = declared - expected
         in \<lparr>mv_message_id = name, mv_is_valid = (missing = {} \<and> extra = {}), mv_declared_variables = declared,
             mv_missing_variables = missing, mv_extra_variables = extra\<rparr>)
       (extract_variables recursion_limit name entry)"

end
