(* ===== verification/Resource_Validation.thy ===== *)
theory Resource_Validation
  imports Semantic_Validator Reference_Extraction Parser_Core Function_Registry
begin

text \<open>
  \<open>validation/resource.py\<close>: the validation of a source without adding it to a bundle.  The
  passes run in the order of the code; what a pass raises ends the validation.  The iteration
  order of a set is the parameter \<open>order\<close>.
\<close>

section \<open>Positions and syntax errors\<close>

definition span_position :: "line_offset_cache \<Rightarrow> span option \<Rightarrow> nat option \<times> nat option" where
  "span_position line_cache sp =
     (case sp of
        None \<Rightarrow> (None, None)
      | Some s \<Rightarrow> (case get_line_col line_cache (int (span_start s)) of (line, column) \<Rightarrow> (Some line, Some column)))"

definition annotation_to_diagnostic_code :: "ustr \<Rightarrow> ustr" where
  "annotation_to_diagnostic_code code = (if code \<in> set (map fst code_values) then code else u ''PARSE_JUNK'')"

definition junk_error :: "ustr \<Rightarrow> ustr \<Rightarrow> ustr \<Rightarrow> nat option \<times> nat option \<Rightarrow> validation_error" where
  "junk_error code message content position =
     \<lparr>ve_code = code, ve_message = message, ve_content = content, ve_line = fst position, ve_column = snd position\<rparr>"

fun entry_syntax_errors :: "line_offset_cache \<Rightarrow> entry \<Rightarrow> validation_error list" where
  "entry_syntax_errors line_cache (Junk content ans sp) =
     (if ans \<noteq> [] then
        map (\<lambda>a. junk_error (annotation_to_diagnostic_code (annot_code a)) (annot_message a) content
               (span_position line_cache (if annot_span a \<noteq> None then annot_span a else sp))) ans
      else [junk_error (u ''VALIDATION_PARSE_ERROR'') (u ''Failed to parse FTL content'') content
              (span_position line_cache sp)])"
| "entry_syntax_errors line_cache _ = []"

definition extract_syntax_errors :: "resource \<Rightarrow> line_offset_cache \<Rightarrow> validation_error list" where
  "extract_syntax_errors r line_cache = concat (map (entry_syntax_errors line_cache) (entries r))"

section \<open>Entries\<close>

definition capitalize :: "ustr \<Rightarrow> ustr" where
  "capitalize s = (case s of [] \<Rightarrow> [] | ch # rest \<Rightarrow> ascii_upper ch # map ascii_lower rest)"

definition quoted :: "ustr \<Rightarrow> ustr" where
  "quoted s = CH_APOSTROPHE # s @ [CH_APOSTROPHE]"

definition structure_warning :: "string \<Rightarrow> ustr \<Rightarrow> ustr \<Rightarrow> nat option \<times> nat option \<Rightarrow> validation_warning" where
  "structure_warning code message context position =
     \<lparr>vw_code = u code, vw_message = message, vw_context = Some context, vw_line = fst position,
      vw_column = snd position, vw_severity = WARNING\<rparr>"

fun duplicate_attributes ::
    "ustr \<Rightarrow> ustr \<Rightarrow> nat option \<times> nat option \<Rightarrow> ustr set \<Rightarrow> attribute list \<Rightarrow> validation_warning list" where
  "duplicate_attributes kind entry_name position seen_attr_ids [] = []"
| "duplicate_attributes kind entry_name position seen_attr_ids (a # as) =
     (let attr_name = id_name (attr_id a)
      in (if attr_name \<in> seen_attr_ids then
            [structure_warning ''VALIDATION_DUPLICATE_ATTRIBUTE''
               (capitalize kind @ u '' '' @ quoted entry_name @ u '' has duplicate attribute '' @ quoted attr_name @
                u '' (later will override earlier)'')
               (entry_name @ u ''.'' @ attr_name) position]
          else []) @
         duplicate_attributes kind entry_name position (insert attr_name seen_attr_ids) as)"

definition check_entry ::
    "ustr \<Rightarrow> ustr \<Rightarrow> attribute list \<Rightarrow> ustr set \<Rightarrow> ustr set option \<Rightarrow> nat option \<times> nat option \<Rightarrow> validation_warning list" where
  "check_entry kind entry_name ats seen_ids known_ids position =
     (if entry_name \<in> seen_ids then
        [structure_warning ''VALIDATION_DUPLICATE_ID''
           (u ''Duplicate '' @ kind @ u '' ID '' @ quoted entry_name @ u '' (later definition will overwrite earlier)'')
           entry_name position]
      else []) @
     (if (case known_ids of None \<Rightarrow> False | Some ids \<Rightarrow> entry_name \<in> ids) then
        [structure_warning ''VALIDATION_SHADOW_WARNING''
           (capitalize kind @ u '' '' @ quoted entry_name @ u '' shadows existing '' @ kind @
            u '' (this definition will override the earlier one)'')
           entry_name position]
      else []) @
     duplicate_attributes kind entry_name position {} ats"

text \<open>What is collected: an entry's value, attributes and span by its name.\<close>

type_synonym collected_entries = "(ustr, entry_data \<times> span option) odict"

record collection =
  col_messages :: collected_entries
  col_terms :: collected_entries
  col_seen_messages :: "ustr set"
  col_seen_terms :: "ustr set"
  col_warnings :: "validation_warning list"

definition no_collection :: collection where
  "no_collection = \<lparr>col_messages = [], col_terms = [], col_seen_messages = {}, col_seen_terms = {}, col_warnings = []\<rparr>"

definition collect_valid_entry ::
    "line_offset_cache \<Rightarrow> ustr set option \<Rightarrow> ustr set option \<Rightarrow> entry \<Rightarrow> collection \<Rightarrow> collection" where
  "collect_valid_entry line_cache known_messages known_terms e col =
     (case e of
        Message i v ats cm sp \<Rightarrow>
          let name = id_name i; position = span_position line_cache sp
          in col\<lparr>col_warnings := col_warnings col @
                   check_entry (u ''message'') name ats (col_seen_messages col) known_messages position @
                   (if v = None \<and> ats = [] then
                      [structure_warning ''VALIDATION_NO_VALUE_OR_ATTRS''
                         (u ''Message '' @ quoted name @ u '' has neither value nor attributes'') name position]
                    else []),
                 col_seen_messages := insert name (col_seen_messages col),
                 col_messages := od_set name ((v, ats), sp) (col_messages col)\<rparr>
      | Term i v ats cm sp \<Rightarrow>
          let name = id_name i; position = span_position line_cache sp
          in col\<lparr>col_warnings := col_warnings col @
                   check_entry (u ''term'') name ats (col_seen_terms col) known_terms position,
                 col_seen_terms := insert name (col_seen_terms col),
                 col_terms := od_set name ((Some v, ats), sp) (col_terms col)\<rparr>
      | _ \<Rightarrow> col)"

definition collect_entries ::
    "resource \<Rightarrow> line_offset_cache \<Rightarrow> ustr set option \<Rightarrow> ustr set option \<Rightarrow> collection" where
  "collect_entries r line_cache known_messages known_terms =
     fold (collect_valid_entry line_cache known_messages known_terms) (entries r) no_collection"

section \<open>Undefined references\<close>

definition base_ref :: "ustr \<Rightarrow> ustr" where
  "base_ref ref = (if CH_DOT \<in> set ref then takeWhile (\<lambda>ch. ch \<noteq> CH_DOT) ref else ref)"

text \<open>\<open>subject\<close> is the entry as the message names it; \<open>mark\<close> is the hyphen of a term.\<close>

definition undefined_warning ::
    "ustr \<Rightarrow> ustr \<Rightarrow> ustr \<Rightarrow> nat option \<times> nat option \<Rightarrow> ustr \<Rightarrow> validation_warning" where
  "undefined_warning subject kind mark position base =
     \<lparr>vw_code = u ''VALIDATION_UNDEFINED_REFERENCE'',
      vw_message = subject @ u '' references undefined '' @ kind @ u '' '' @ quoted (mark @ base),
      vw_context = Some (mark @ base), vw_line = fst position, vw_column = snd position, vw_severity = CRITICAL\<rparr>"

definition undefined_among ::
    "(ustr set \<Rightarrow> ustr list) \<Rightarrow> ustr set \<Rightarrow> ustr \<Rightarrow> ustr \<Rightarrow> ustr \<Rightarrow> nat option \<times> nat option \<Rightarrow> ustr set \<Rightarrow>
     validation_warning list" where
  "undefined_among order all_ids subject kind mark position refs =
     map (undefined_warning subject kind mark position)
       (filter (\<lambda>base. base \<notin> all_ids) (map base_ref (order refs)))"

text \<open>None when the extraction exceeds its depth limit.\<close>

fun undefined_in ::
    "int \<Rightarrow> (ustr set \<Rightarrow> ustr list) \<Rightarrow> line_offset_cache \<Rightarrow> ustr set \<Rightarrow> ustr set \<Rightarrow> (ustr \<Rightarrow> ustr) \<Rightarrow> collected_entries \<Rightarrow>
     validation_warning list option" where
  "undefined_in limit order line_cache all_messages all_terms subject [] = Some []"
| "undefined_in limit order line_cache all_messages all_terms subject ((name, entry, sp) # rest) =
     (case extract_references limit entry of
        None \<Rightarrow> None
      | Some (msg_refs, term_refs) \<Rightarrow>
          let position = span_position line_cache sp
          in map_option ((@)
               (undefined_among order all_messages (subject name) (u ''message'') [] position msg_refs @
                undefined_among order all_terms (subject name) (u ''term'') (u ''-'') position term_refs))
             (undefined_in limit order line_cache all_messages all_terms subject rest))"

definition ids_with :: "collected_entries \<Rightarrow> ustr set option \<Rightarrow> ustr set" where
  "ids_with d known = set (od_keys d) \<union> (case known of None \<Rightarrow> {} | Some ids \<Rightarrow> ids)"

definition check_undefined_references ::
    "int \<Rightarrow> (ustr set \<Rightarrow> ustr list) \<Rightarrow> collected_entries \<Rightarrow> collected_entries \<Rightarrow> line_offset_cache \<Rightarrow>
     ustr set option \<Rightarrow> ustr set option \<Rightarrow> validation_warning list option" where
  "check_undefined_references limit order messages_dict terms_dict line_cache known_messages known_terms =
     (let all_messages = ids_with messages_dict known_messages; all_terms = ids_with terms_dict known_terms
      in case undefined_in limit order line_cache all_messages all_terms
                (\<lambda>name. u ''Message '' @ quoted name) messages_dict of
           None \<Rightarrow> None
         | Some ws \<Rightarrow>
             map_option ((@) ws)
               (undefined_in limit order line_cache all_messages all_terms
                  (\<lambda>name. u ''Term '' @ quoted (u ''-'' @ name)) terms_dict))"

section \<open>The passes\<close>

definition MAX_DETECTED_CYCLES :: nat where
  "MAX_DETECTED_CYCLES = 1000"

definition MAX_GRAPH_DFS_STACK :: nat where
  "MAX_GRAPH_DFS_STACK = 100000"

datatype resource_error = ValidationRaises py_error | VisitorDepthExceeded | SemanticRaises semantic_error | Diverges

definition collected_data :: "collected_entries \<Rightarrow> (ustr, entry_data) odict" where
  "collected_data d = map (\<lambda>(name, entry, sp). (name, entry)) d"

text \<open>
  \<open>validate_resource\<close>.  The source is None when it is not a string.  The graph searches
  return None if they do not return, which they are proved not to do.
\<close>

definition validate_parsed ::
    "nat \<Rightarrow> int \<Rightarrow> (ustr set \<Rightarrow> ustr list) \<Rightarrow> ustr set option \<Rightarrow> ustr set option \<Rightarrow> (ustr \<rightharpoonup> ustr set) option \<Rightarrow>
     (ustr \<rightharpoonup> ustr set) option \<Rightarrow> ustr \<Rightarrow> resource \<Rightarrow> resource_error + validation_result" where
  "validate_parsed prec recursion_limit order known_messages known_terms known_msg_deps known_term_deps s r =
     (let line_cache = mk_line_offset_cache (normalize_newlines s);
          limit = depth_clamp recursion_limit (int MAX_DEPTH);
          col = collect_entries r line_cache known_messages known_terms
      in case check_undefined_references limit order (col_messages col) (col_terms col) line_cache known_messages known_terms of
           None \<Rightarrow> Inl VisitorDepthExceeded
         | Some ref_warnings \<Rightarrow>
             (case build_dependency_graph limit order (collected_data (col_messages col)) (collected_data (col_terms col))
                     known_messages known_terms known_msg_deps known_term_deps of
                None \<Rightarrow> Inl VisitorDepthExceeded
              | Some graph \<Rightarrow>
                  (case (detect_circular_references (iterated order graph) MAX_DETECTED_CYCLES MAX_GRAPH_DFS_STACK,
                         detect_long_chains (iterated order graph) (int MAX_DEPTH)) of
                     (Some cycle_warnings, Some chain_warnings) \<Rightarrow>
                       (case semantic_validate prec recursion_limit r of
                          Inl e \<Rightarrow> Inl (SemanticRaises e)
                        | Inr semantic_result \<Rightarrow>
                            Inr \<lparr>vr_errors = extract_syntax_errors r line_cache,
                                 vr_warnings = col_warnings col @ ref_warnings @ cycle_warnings @ chain_warnings,
                                 vr_annotations = vr_annotations semantic_result\<rparr>)
                   | _ \<Rightarrow> Inl Diverges)))"

definition validate_source ::
    "nat \<Rightarrow> int \<Rightarrow> (ustr set \<Rightarrow> ustr list) \<Rightarrow> fluent_parser \<Rightarrow> ustr set option \<Rightarrow> ustr set option \<Rightarrow>
     (ustr \<rightharpoonup> ustr set) option \<Rightarrow> (ustr \<rightharpoonup> ustr set) option \<Rightarrow> ustr option \<Rightarrow> resource_error + validation_result" where
  "validate_source prec recursion_limit order parser known_messages known_terms known_msg_deps known_term_deps src =
     (case src of
        None \<Rightarrow> Inl (ValidationRaises TypeError)
      | Some s \<Rightarrow>
          (case parse parser s of
             Returns r \<Rightarrow>
               validate_parsed prec recursion_limit order known_messages known_terms known_msg_deps known_term_deps s r
           | Raises e \<Rightarrow> Inl (ValidationRaises e)
           | _ \<Rightarrow> Inl (ValidationRaises RuntimeError)))"

end
