(* ===== verification/Reference_Errors.thy ===== *)
theory Reference_Errors
  imports Graph_Properties
begin

text \<open>
  Which errors the resolver reports, by a calculus on the errors of a run.  The locale
  \<open>tolerated\<close> proves once which missing variables, messages and terms a pattern can report; its
  interpretations give that a resolver whose references are all defined reports no missing
  message or term, and that a pattern without references whose variables are provided reports no
  missing variable.
\<close>

named_theorems logs_rule \<open>rules for the predicate logs\<close>

section \<open>The calculus\<close>

text \<open>Every error that is appended or thrown satisfies \<open>Z\<close>, and every result \<open>Q\<close>.\<close>

definition logs :: "(resolution_error \<Rightarrow> bool) \<Rightarrow> ('a \<Rightarrow> bool) \<Rightarrow> 'a res \<Rightarrow> bool" where
  "logs Z Q p \<longleftrightarrow>
     (\<forall>s. list_all Z (rs_errors s) \<longrightarrow>
        (case p s of (r, s') \<Rightarrow>
           list_all Z (rs_errors s') \<and> (case r of Value a \<Rightarrow> Q a | Fluent e \<Rightarrow> Z e | _ \<Rightarrow> True)))"

abbreviation reports :: "(resolution_error \<Rightarrow> bool) \<Rightarrow> 'a res \<Rightarrow> bool" where
  "reports Z p \<equiv> logs Z (\<lambda>_. True) p"

lemma logsD:
  assumes "logs Z Q p" "list_all Z (rs_errors s)" "p s = (r, s')"
  shows "list_all Z (rs_errors s')" "r = Value a \<Longrightarrow> Q a" "r = Fluent e \<Longrightarrow> Z e"
  using assms by (auto simp: logs_def split: prod.splits)

lemma logs_bind:
  assumes "logs Z P p" "\<And>a. P a \<Longrightarrow> logs Z Q (k a)"
  shows "logs Z Q (rbind p k)"
  unfolding logs_def
proof (intro allI impI)
  fix s :: rstate assume s: "list_all Z (rs_errors s)"
  obtain r s' where p: "p s = (r, s')" by (cases "p s")
  note d = logsD [OF assms(1) s p]
  show "case rbind p k s of (r, s') \<Rightarrow>
      list_all Z (rs_errors s') \<and> (case r of Value a \<Rightarrow> Q a | Fluent e \<Rightarrow> Z e | _ \<Rightarrow> True)"
  proof (cases r)
    case (Value a)
    then have "logs Z Q (k a)" using d(2) assms(2) by blast
    then show ?thesis using d(1) Value p by (simp add: rbind_def logs_def)
  qed (use d p in \<open>simp_all add: rbind_def\<close>)
qed

lemma logs_basic [logs_rule]:
  "Q a \<Longrightarrow> logs Z Q (rret a)" "Z e \<Longrightarrow> logs Z Q (rthrow e)" "logs Z Q (rfatal f)" "logs Z Q rexhausted"
  "Z e \<Longrightarrow> reports Z (append_error e)" "list_all Z es \<Longrightarrow> reports Z (extend_errors es)"
  "reports Z (track_expansion k)" "reports Z (push key)" "reports Z pop"
  by (auto simp: logs_def rret_def rthrow_def rfatal_def rexhausted_def append_error_def extend_errors_def
      track_expansion_def push_def pop_def Let_def)

lemma reports_bind [logs_rule]: "reports Z p \<Longrightarrow> (\<And>a. logs Z Q (k a)) \<Longrightarrow> logs Z Q (rbind p k)"
  by (rule logs_bind)

lemma logs_with_state [logs_rule]: "(\<And>s. logs Z Q (f s)) \<Longrightarrow> logs Z Q (with_state f)"
  by (simp add: logs_def with_state_def)

lemma logsI:
  assumes "\<And>s r s'. list_all Z (rs_errors s) \<Longrightarrow> p s = (r, s') \<Longrightarrow>
    list_all Z (rs_errors s') \<and> (\<forall>a. r = Value a \<longrightarrow> Q a) \<and> (\<forall>e. r = Fluent e \<longrightarrow> Z e)"
  shows "logs Z Q p"
  unfolding logs_def
proof (intro allI impI)
  fix s :: rstate assume s: "list_all Z (rs_errors s)"
  show "case p s of (r, s') \<Rightarrow>
      list_all Z (rs_errors s') \<and> (case r of Value a \<Rightarrow> Q a | Fluent e \<Rightarrow> Z e | _ \<Rightarrow> True)"
    using assms [OF s] by (cases "p s") (auto split: rresult.split)
qed

lemma logs_catch [logs_rule]:
  assumes "logs Z Q p" "\<And>e. Z e \<Longrightarrow> logs Z Q (h e)"
  shows "logs Z Q (rcatch p h)"
proof (rule logsI)
  fix s r s' assume s: "list_all Z (rs_errors s)" and c: "rcatch p h s = (r, s')"
  obtain q t where p: "p s = (q, t)" by (cases "p s")
  note d = logsD [OF assms(1) s p]
  show "list_all Z (rs_errors s') \<and> (\<forall>a. r = Value a \<longrightarrow> Q a) \<and> (\<forall>e. r = Fluent e \<longrightarrow> Z e)"
  proof (cases q)
    case (Fluent e)
    then show ?thesis using c p logsD [OF assms(2) d(1), of e r s'] d(3) by (auto simp: rcatch_def)
  qed (use c p d in \<open>auto simp: rcatch_def\<close>)
qed

lemma logs_guarded [logs_rule]:
  assumes "logs Z Q p" "\<And>k. Z (DepthExceeded k)"
  shows "logs Z Q (expression_guarded p)"
proof (rule logsI)
  fix s r s' assume s: "list_all Z (rs_errors s)" and c: "expression_guarded p s = (r, s')"
  obtain q t where p: "p (s\<lparr>rs_depth := rs_depth s + 1\<rparr>) = (q, t)" by (cases "p (s\<lparr>rs_depth := rs_depth s + 1\<rparr>)")
  then show "list_all Z (rs_errors s') \<and> (\<forall>a. r = Value a \<longrightarrow> Q a) \<and> (\<forall>e. r = Fluent e \<longrightarrow> Z e)"
    using logsD [OF assms(1) _ p] s c assms(2) by (auto simp: expression_guarded_def split: if_splits)
qed

lemma logs_globally [logs_rule]:
  assumes "logs Z Q p" "\<And>k. Z (DepthExceeded k)"
  shows "logs Z Q (globally_guarded limit m p)"
proof (rule logsI)
  fix s r s' assume s: "list_all Z (rs_errors s)" and c: "globally_guarded limit m p s = (r, s')"
  obtain q t where p: "p (s\<lparr>rs_global := rs_global s + 1\<rparr>) = (q, t)" by (cases "p (s\<lparr>rs_global := rs_global s + 1\<rparr>)")
  then show "list_all Z (rs_errors s') \<and> (\<forall>a. r = Value a \<longrightarrow> Q a) \<and> (\<forall>e. r = Fluent e \<longrightarrow> Z e)"
    using logsD [OF assms(1) _ p] s c assms(2) by (auto simp: globally_guarded_def Let_def split: if_splits)
qed

lemma logs_finally [logs_rule]:
  assumes "logs Z Q p" "reports Z q"
  shows "logs Z Q (rfinally p q)"
proof (rule logsI)
  fix s r s' assume s: "list_all Z (rs_errors s)" and c: "rfinally p q s = (r, s')"
  obtain x t where p: "p s = (x, t)" by (cases "p s")
  obtain y w where q: "q t = (y, w)" by (cases "q t")
  note d = logsD [OF assms(1) s p]
  show "list_all Z (rs_errors s') \<and> (\<forall>a. r = Value a \<longrightarrow> Q a) \<and> (\<forall>e. r = Fluent e \<longrightarrow> Z e)"
    using c p q d logsD [OF assms(2) d(1) q] by (auto simp: rfinally_def split: rresult.splits)
qed

lemma logs_own_errors:
  assumes "logs Z Q p"
  shows "logs Z (\<lambda>(a, es). Q a \<and> list_all Z es) (own_errors p)"
proof (rule logsI)
  fix s r s' assume s: "list_all Z (rs_errors s)" and c: "own_errors p s = (r, s')"
  obtain x t where p: "p (s\<lparr>rs_errors := []\<rparr>) = (x, t)" by (cases "p (s\<lparr>rs_errors := []\<rparr>)")
  show "list_all Z (rs_errors s') \<and> (\<forall>a. r = Value a \<longrightarrow> (case a of (a, es) \<Rightarrow> Q a \<and> list_all Z es)) \<and>
      (\<forall>e. r = Fluent e \<longrightarrow> Z e)"
    using c p s logsD [OF assms _ p] by (auto simp: own_errors_def split: rresult.splits)
qed

section \<open>Errors of a pattern\<close>

fun looks_up :: "resolution_error \<Rightarrow> bool" where
  "looks_up (MessageNotFound name) = True"
| "looks_up (TermNotFound name) = True"
| "looks_up (VariableNotProvided name path) = True"
| "looks_up _ = False"

definition functions_report :: "(resolution_error \<Rightarrow> bool) \<Rightarrow> resolver \<Rightarrow> bool" where
  "functions_report Z R \<longleftrightarrow>
     (\<forall>name ps ns g e. registry_call (rv_registry R) name ps ns g = RaisedFluent e \<longrightarrow> Z e)"

text \<open>What an expression looks up: provided or tolerated variables, and messages and terms whose
  resolution reports tolerated errors.\<close>

definition lookups_ok ::
    "(resolution_error \<Rightarrow> bool) \<Rightarrow> resolver \<Rightarrow> pattern_resolver \<Rightarrow> fargs \<Rightarrow> expression set \<Rightarrow> bool" where
  "lookups_ok Z R rp args E \<longleftrightarrow>
     (\<forall>e \<in> E. case e of
        VariableReference i sp \<Rightarrow> args (id_name i) = None \<longrightarrow> (\<forall>path. Z (VariableNotProvided (id_name i) path))
      | MessageReference i a sp \<Rightarrow>
          (case rv_messages R (id_name i) of
             None \<Rightarrow> Z (MessageNotFound (id_name i))
           | Some m \<Rightarrow> logs Z (\<lambda>(t, es). list_all Z es) (resolve_message R rp m args (map_option id_name a)))
      | TermReference i a as sp \<Rightarrow>
          (case rv_terms R (id_name i) of
             None \<Rightarrow> Z (TermNotFound (id_name i))
           | Some t \<Rightarrow> \<forall>p args'. term_pattern t a = Inr p \<longrightarrow> reports Z (rp p args'))
      | _ \<Rightarrow> True)"

lemma lookups_ok_parts [simp]:
  "lookups_ok Z R rp args (E \<union> F) \<longleftrightarrow> lookups_ok Z R rp args E \<and> lookups_ok Z R rp args F"
  "lookups_ok Z R rp args (\<Union>(f ` X)) \<longleftrightarrow> (\<forall>x \<in> X. lookups_ok Z R rp args (f x))"
  "lookups_ok Z R rp args {}"
  by (auto simp: lookups_ok_def)

lemma lookups_ok_insert [simp]:
  "lookups_ok Z R rp args (insert e E) \<longleftrightarrow> lookups_ok Z R rp args {e} \<and> lookups_ok Z R rp args E" if "E \<noteq> {}"
  by (simp add: lookups_ok_def)

locale tolerated =
  fixes Z :: "resolution_error \<Rightarrow> bool"
  assumes others: "\<not> looks_up e \<Longrightarrow> Z e"
begin

lemma error_text_logs: "Z e \<Longrightarrow> reports Z (error_text e t)"
  by (auto simp: error_text_def intro!: logs_rule)

lemma select_pattern_ok: "select_pattern m attribute = Inl (e, name) \<Longrightarrow> Z e"
  by (auto simp: select_pattern_def others split: prod.splits option.splits if_splits)

lemma term_pattern_ok: "term_pattern t attr = Inl e \<Longrightarrow> Z e"
  by (auto simp: term_pattern_def others split: prod.splits option.splits)

lemma message_logs:
  assumes "\<And>key p. select_pattern m a = Inr (key, p) \<Longrightarrow> reports Z (rp p args)"
  shows "logs Z (\<lambda>(t, es). list_all Z es) (resolve_message R rp m args a)"
proof -
  have "logs Z (\<lambda>(t, es). True \<and> list_all Z es) (resolve_message R rp m args a)"
    unfolding resolve_message_def
    by (intro logs_own_errors) (auto simp: select_pattern_ok others assms intro!: logs_rule error_text_logs split: sum.split)
  then show ?thesis by (simp add: case_prod_unfold)
qed

lemma term_logs: "\<forall>args. reports Z (rp p args) \<Longrightarrow> reports Z eval \<Longrightarrow> reports Z (resolve_term rp name p eval)"
  by (auto simp: resolve_term_def others intro!: logs_rule error_text_logs)

lemma part_logs: "reports Z (text_part t)" "reports Z (emit_placeable R t)"
  by (auto simp: text_part_def emit_placeable_def budget_error_def others intro!: logs_rule)

lemma lift_format_logs: "reports Z (lift_format limit v)"
  by (auto simp: lift_format_def others intro!: logs_rule split: format_result.split)

lemma dispatch_logs: "functions_report Z R \<Longrightarrow> reports Z (dispatch_function R name ps ns)"
  by (auto simp: dispatch_function_def call_function_safe_def functions_report_def others
      intro!: logs_rule split: call_outcome.split option.split)

lemma then_rest_logs: "reports Z p \<Longrightarrow> reports Z q \<Longrightarrow> reports Z (then_rest p q)"
  by (auto simp: then_rest_def intro!: logs_rule split: option.split)

lemma placeable_logs: "reports Z p \<Longrightarrow> reports Z (placeable_part R e p)"
  by (auto simp: placeable_part_def others intro!: logs_rule lift_format_logs part_logs)

lemma selector_logs: "reports Z p \<Longrightarrow> reports Z (try_selector p)"
  by (auto simp: try_selector_def others intro!: logs_rule)

text \<open>Lists of arguments and of elements, given what holds of each.\<close>

lemma positionals_logs:
  "(\<And>e. e \<in> set es \<Longrightarrow> reports Z (resolve_expression R rp e args)) \<Longrightarrow>
     reports Z (resolve_positionals R rp es args)"
  by (induction es) (auto intro!: logs_rule)

lemma nameds_logs:
  "(\<And>na. na \<in> set ns \<Longrightarrow> reports Z (resolve_named R rp na args)) \<Longrightarrow>
     reports Z (resolve_nameds R rp ns args)"
  by (induction ns) (auto intro!: logs_rule)

lemma term_nameds_logs:
  "(\<And>na. na \<in> set ns \<Longrightarrow> reports Z (resolve_named R rp na args)) \<Longrightarrow>
     reports Z (term_nameds R rp ns args acc)"
  by (induction ns arbitrary: acc) (auto simp: others intro!: logs_rule)

lemma term_positionals_logs:
  "(\<And>e. e \<in> set es \<Longrightarrow> reports Z (resolve_expression R rp e args)) \<Longrightarrow>
     reports Z (term_positionals R rp es args)"
  by (induction es) (auto simp: others intro!: logs_rule)

lemma elements_logs:
  assumes "\<And>el e. el \<in> set els \<Longrightarrow> element_expression el = Some e \<Longrightarrow>
      reports Z (resolve_expression R rp e args)"
  shows "reports Z (resolve_elements R rp els args)"
  using assms
proof (induction els)
  case Nil
  then show ?case by (simp add: logs_rule)
next
  case (Cons el els)
  then have rest: "reports Z (resolve_elements R rp els args)" by (intro Cons.IH Cons.prems) auto
  show ?case
  proof (cases el rule: element_expression.cases)
    case (1 t sp)
    with rest show ?thesis by (simp add: then_rest_logs part_logs)
  next
    case (2 e sp)
    with rest Cons.prems [of el e] show ?thesis by (auto intro!: then_rest_logs placeable_logs)
  qed
qed

lemma resolver_logs:
  assumes F: "functions_report Z R"
  shows "lookups_ok Z R rp args (expressions_of e) \<Longrightarrow> reports Z (resolve_expression R rp e args)"
    and "lookups_ok Z R rp args (args_expressions ca) \<Longrightarrow> case ca of CallArguments ps ns sp \<Rightarrow>
      (\<forall>e \<in> set ps. reports Z (resolve_expression R rp e args)) \<and>
      (\<forall>na \<in> set ns. reports Z (resolve_named R rp na args))"
    and "lookups_ok Z R rp args (named_expressions na) \<Longrightarrow> reports Z (resolve_named R rp na args)"
    and "lookups_ok Z R rp args (variant_expressions w) \<Longrightarrow> reports Z (resolve_pattern R rp (variant_value w) args)"
    and "lookups_ok Z R rp args (pattern_expressions p) \<Longrightarrow> reports Z (resolve_pattern R rp p args)"
    and "lookups_ok Z R rp args (element_expressions el) \<Longrightarrow> \<forall>e. element_expression el = Some e \<longrightarrow>
      reports Z (resolve_expression R rp e args)"
    and "lookups_ok Z R rp args (placeable_expressions pl) \<Longrightarrow> case pl of Placeable e sp \<Rightarrow>
      reports Z (resolve_expression R rp e args)"
proof (induction e and ca and na and w and p and el and pl)
  case (VariableReference i sp)
  then show ?case by (auto simp: lookups_ok_def intro!: logs_rule split: option.split)
next
  case (MessageReference i attr sp)
  show ?case
  proof (cases "rv_messages R (id_name i)")
    case None
    with MessageReference show ?thesis by (simp add: lookups_ok_def logs_rule)
  next
    case (Some m)
    with MessageReference have "logs Z (\<lambda>(t, es). list_all Z es) (resolve_message R rp m args (map_option id_name attr))"
      by (simp add: lookups_ok_def)
    then show ?thesis unfolding resolve_expression.simps Some option.case
      by (rule logs_bind) (auto intro!: logs_rule)
  qed
next
  case (TermReference i attr as sp)
  have self: "lookups_ok Z R rp args {TermReference i attr as sp}"
    using TermReference.prems by (cases as) (simp_all add: lookups_ok_def)
  have t: "reports Z (resolve_term rp name pat eval)"
    if "rv_terms R (id_name i) = Some t" "term_pattern t attr = Inr pat" "reports Z eval" for t pat eval name
    using self that by (auto simp: lookups_ok_def intro: term_logs)
  have missing: "rv_terms R (id_name i) = None \<Longrightarrow> Z (TermNotFound (id_name i))"
    using self by (simp add: lookups_ok_def)
  show ?case
  proof (cases as)
    case None
    then show ?thesis
      by (auto intro!: logs_rule t missing dest: term_pattern_ok split: option.split sum.split)
  next
    case (Some ca)
    obtain ps ns asp where ca: "ca = CallArguments ps ns asp" by (cases ca)
    have "lookups_ok Z R rp args (args_expressions ca)"
      using TermReference.prems Some by (simp add: lookups_ok_def)
    with TermReference.IH Some ca show ?thesis
      by (auto intro!: logs_rule t term_nameds_logs term_positionals_logs missing
        dest: term_pattern_ok simp: warn_positional_def others split: option.split sum.split)
  qed
next
  case (FunctionReference i ca sp)
  from FunctionReference.prems have "lookups_ok Z R rp args (args_expressions ca)" by (simp add: lookups_ok_def)
  with FunctionReference.IH show ?case
    by (cases ca) (auto intro!: logs_rule positionals_logs nameds_logs dispatch_logs [OF F] simp: others)
next
  case (NestedPlaceable pl)
  then have "lookups_ok Z R rp args (placeable_expressions pl)" by (simp add: lookups_ok_def)
  with NestedPlaceable show ?case by (cases pl) (auto intro!: logs_rule simp: others)
next
  case (SelectExpression sel vs sp)
  from SelectExpression.prems have "lookups_ok Z R rp args (expressions_of sel)"
    "\<forall>w \<in> set vs. lookups_ok Z R rp args (variant_expressions w)" by (auto simp: lookups_ok_def)
  with SelectExpression.IH have sel: "reports Z (resolve_expression R rp sel args)"
    and pats: "w \<in> set vs \<Longrightarrow> reports Z (resolve_pattern R rp (variant_value w) args)" for w by auto
  show ?case
    by (auto intro!: logs_rule selector_logs sel lift_format_logs pats simp: others
      split: option.split sum.split)
      (use choose_variant_in fallback_variant_in in blast)+
next
  case (CallArguments ps ns sp)
  then show ?case by auto
next
  case (NamedArgument i e sp)
  then show ?case by (auto intro!: logs_rule)
next
  case (Variant key v d sp)
  then show ?case by auto
next
  case (Pattern els sp)
  then show ?case by (auto intro!: logs_rule elements_logs simp: budget_error_def others)
next
  case (PlaceableElement pl)
  then show ?case by (cases pl) auto
next
  case (TextElement t sp)
  then show ?case by simp
qed (auto intro!: logs_rule split: option.split)

lemma resolve_message_logs:
  assumes "\<And>key p n. select_pattern m a = Inr (key, p) \<Longrightarrow> reports Z (resolve_pattern_at R n p args)"
    "list_all Z (rs_errors s)" "resolve_message_in R m args a s = (Value (t, es), s')"
  shows "list_all Z es"
proof -
  have "logs Z (\<lambda>(t, es). list_all Z es) (resolve_message_in R m args a)"
    unfolding resolve_message_in_def by (intro logs_with_state message_logs assms(1))
  from logsD(2) [OF this assms(2,3)] show ?thesis by auto
qed

end

section \<open>Missing references\<close>

fun found :: "resolution_error \<Rightarrow> bool" where
  "found (MessageNotFound name) = False"
| "found (TermNotFound name) = False"
| "found _ = True"

interpretation found: tolerated found
proof
  show "\<not> looks_up e \<Longrightarrow> found e" for e by (cases e) simp_all
qed

definition references_defined :: "resolver \<Rightarrow> expression set \<Rightarrow> bool" where
  "references_defined R E \<longleftrightarrow>
     (\<forall>e \<in> E. case e of
        MessageReference i a sp \<Rightarrow> rv_messages R (id_name i) \<noteq> None
      | TermReference i a args sp \<Rightarrow> rv_terms R (id_name i) \<noteq> None
      | _ \<Rightarrow> True)"

definition data_patterns :: "pattern option \<Rightarrow> attribute list \<Rightarrow> pattern set" where
  "data_patterns value attributes = set_option value \<union> attr_value ` set attributes"

definition closed_resolver :: "resolver \<Rightarrow> bool" where
  "closed_resolver R \<longleftrightarrow>
     (\<forall>name i v ats. rv_messages R name = Some (i, v, ats) \<longrightarrow>
        (\<forall>p \<in> data_patterns v ats. references_defined R (pattern_expressions p))) \<and>
     (\<forall>name i p ats. rv_terms R name = Some (i, p, ats) \<longrightarrow>
        (\<forall>q \<in> data_patterns (Some p) ats. references_defined R (pattern_expressions q)))"

lemma select_pattern_in:
  "select_pattern (i, v, ats) attribute = Inr (key, p) \<Longrightarrow> p \<in> data_patterns v ats"
  by (auto simp: select_pattern_def data_patterns_def split: option.splits if_splits dest!: find_attribute_in)

lemma term_pattern_in:
  "term_pattern (i, v, ats) attr = Inr p \<Longrightarrow> p \<in> data_patterns (Some v) ats"
  by (auto simp: term_pattern_def data_patterns_def split: option.splits dest!: find_attribute_in)

lemma closed_message:
  "closed_resolver R \<Longrightarrow> rv_messages R name = Some m \<Longrightarrow> select_pattern m a = Inr (key, p) \<Longrightarrow>
     references_defined R (pattern_expressions p)"
  by (cases m) (blast dest: select_pattern_in closed_resolver_def [THEN iffD1])

lemma closed_term:
  "closed_resolver R \<Longrightarrow> rv_terms R name = Some t \<Longrightarrow> term_pattern t a = Inr p \<Longrightarrow>
     references_defined R (pattern_expressions p)"
  by (cases t) (blast dest: term_pattern_in closed_resolver_def [THEN iffD1])

text \<open>Every pattern of a closed resolver, at every depth.\<close>

lemma level_found:
  assumes "closed_resolver R" "functions_report found R"
  shows "references_defined R (pattern_expressions p) \<Longrightarrow> reports found (resolve_pattern_at R n p args)"
proof (induction n arbitrary: p args)
  case 0
  then show ?case by (simp add: logs_rule)
next
  case (Suc n)
  let ?rp = "resolve_pattern_at R n"
  have m: "logs found (\<lambda>(t, es). list_all found es) (resolve_message R ?rp m args' a)"
    if "rv_messages R name = Some m" for name m args' a
    by (intro found.message_logs Suc.IH closed_message [OF assms(1) that])
  have t: "reports found (?rp q args')" if "rv_terms R name = Some t" "term_pattern t a = Inr q" for name t a q args'
    by (intro Suc.IH closed_term [OF assms(1) that])
  have "lookups_ok found R ?rp args (pattern_expressions p)"
    using Suc.prems unfolding lookups_ok_def references_defined_def
    by (fastforce split: expression.splits option.splits intro: m t)
  then show ?case using found.resolver_logs(5) [OF assms(2)] by simp
qed

text \<open>A message of a closed resolver is resolved without a missing message or term.\<close>

lemma resolve_message_found:
  assumes "closed_resolver R" "functions_report found R" "rv_messages R name = Some m"
    "list_all found (rs_errors s)" "resolve_message_in R m args a s = (Value (t, es), s')"
  shows "list_all found es"
  by (rule found.resolve_message_logs [OF level_found [OF assms(1,2) closed_message [OF assms(1,3)]] assms(4,5)])

section \<open>Missing variables\<close>

fun provided :: "resolution_error \<Rightarrow> bool" where
  "provided (VariableNotProvided name path) = False"
| "provided _ = True"

interpretation provided: tolerated provided
proof
  show "\<not> looks_up e \<Longrightarrow> provided e" for e by (cases e) simp_all
qed

text \<open>Every variable has an argument, and nothing else is referenced that a term or message of the
  resolver defines.\<close>

definition variables_provided :: "resolver \<Rightarrow> fargs \<Rightarrow> expression set \<Rightarrow> bool" where
  "variables_provided R args E \<longleftrightarrow>
     (\<forall>e \<in> E. case e of
        VariableReference i sp \<Rightarrow> args (id_name i) \<noteq> None
      | MessageReference i a sp \<Rightarrow> rv_messages R (id_name i) = None
      | TermReference i a as sp \<Rightarrow> rv_terms R (id_name i) = None
      | _ \<Rightarrow> True)"

lemma resolve_message_provided:
  assumes "functions_report provided R"
    "\<forall>p \<in> data_patterns v ats. variables_provided R args (pattern_expressions p)"
    "list_all provided (rs_errors s)" "resolve_message_in R (i, v, ats) args a s = (Value (t, es), s')"
  shows "list_all provided es"
proof (rule provided.resolve_message_logs [OF _ assms(3,4)])
  fix key p n assume "select_pattern (i, v, ats) a = Inr (key, p)"
  then have "variables_provided R args (pattern_expressions p)" using assms(2) by (blast dest: select_pattern_in)
  then have "lookups_ok provided R rp args (pattern_expressions p)" for rp
    unfolding lookups_ok_def variables_provided_def by (fastforce split: expression.splits option.splits)
  then show "reports provided (resolve_pattern_at R n p args)"
    using provided.resolver_logs(5) [OF assms(1)] by (cases n) (simp_all add: logs_rule)
qed

end
