(* ===== verification/Validated_Resources.thy ===== *)
theory Validated_Resources
  imports Resource_Validation Semantic_Properties Reference_Errors Bundle_Theorems
begin

text \<open>
  What the validation of a source promises: it returns or raises one of two exceptions; it is
  valid exactly when nothing of the source is junk and every entry satisfies the rules; and a
  source that is validated against a bundle without an undefined reference can be added to it
  without formatting ever missing a message or a term.
\<close>

section \<open>The passes of a validation\<close>

lemma searches_return:
  "\<exists>ws. detect_circular_references g m k = Some ws" "\<exists>ws. detect_long_chains g limit = Some ws"
  using detect_cycles_returns [of g m k] compute_longest_paths_returns [of g]
  by (auto simp: detect_circular_references_def detect_cycles_def detect_long_chains_def)

abbreviation undefined_code :: ustr where
  "undefined_code \<equiv> u ''VALIDATION_UNDEFINED_REFERENCE''"

lemma warn_cycles_code: "w \<in> set (warn_cycles cs seen) \<Longrightarrow> vw_code w = u ''VALIDATION_CIRCULAR_REFERENCE''"
  by (induction cs arbitrary: seen) (auto simp: cycle_warning_def Let_def split: if_splits)

lemma search_codes:
  "detect_circular_references g m k = Some ws \<Longrightarrow> w \<in> set ws \<Longrightarrow> vw_code w \<noteq> undefined_code"
  "detect_long_chains g limit = Some ws \<Longrightarrow> w \<in> set ws \<Longrightarrow> vw_code w \<noteq> undefined_code"
  by (auto simp: detect_circular_references_def detect_long_chains_def chain_warning_def Let_def u_def
      dest!: warn_cycles_code split: if_splits prod.splits)

lemma structure_code [simp]: "vw_code (structure_warning code message context position) = u code"
  by (simp add: structure_warning_def)

lemma other_codes [simp]:
  "u ''VALIDATION_DUPLICATE_ATTRIBUTE'' \<noteq> undefined_code" "u ''VALIDATION_DUPLICATE_ID'' \<noteq> undefined_code"
  "u ''VALIDATION_SHADOW_WARNING'' \<noteq> undefined_code" "u ''VALIDATION_NO_VALUE_OR_ATTRS'' \<noteq> undefined_code"
  by (simp_all add: u_def)

lemma duplicate_attributes_codes:
  "\<forall>w \<in> set (duplicate_attributes kind name position seen ats). vw_code w \<noteq> undefined_code"
proof (induction ats arbitrary: seen)
  case (Cons a ats)
  then show ?case unfolding duplicate_attributes.simps Let_def set_append ball_Un by simp
qed simp

lemma check_entry_codes: "\<forall>w \<in> set (check_entry kind name ats seen known position). vw_code w \<noteq> undefined_code"
  using duplicate_attributes_codes [of kind name position "{}" ats] unfolding check_entry_def set_append ball_Un by simp

lemma collect_warnings:
  "\<exists>ws. col_warnings (collect_valid_entry lc km kt e col) = col_warnings col @ ws \<and>
     (\<forall>w \<in> set ws. vw_code w \<noteq> undefined_code)"
proof (cases e)
  case (Message i v ats cm sp)
  then show ?thesis
    by (intro exI [of _ "check_entry (u ''message'') (id_name i) ats (col_seen_messages col) km (span_position lc sp) @
        (if v = None \<and> ats = [] then [structure_warning ''VALIDATION_NO_VALUE_OR_ATTRS''
           (u ''Message '' @ quoted (id_name i) @ u '' has neither value nor attributes'') (id_name i) (span_position lc sp)]
         else [])"])
      (simp add: collect_valid_entry_def Let_def ball_Un check_entry_codes)
next
  case (Term i p ats cm sp)
  then show ?thesis
    by (intro exI [of _ "check_entry (u ''term'') (id_name i) ats (col_seen_terms col) kt (span_position lc sp)"])
      (simp add: collect_valid_entry_def Let_def check_entry_codes)
qed (simp_all add: collect_valid_entry_def)

lemma collect_codes:
  assumes "\<forall>w \<in> set (col_warnings col). vw_code w \<noteq> undefined_code"
  shows "\<forall>w \<in> set (col_warnings (collect_valid_entry lc km kt e col)). vw_code w \<noteq> undefined_code"
proof -
  obtain ws where "col_warnings (collect_valid_entry lc km kt e col) = col_warnings col @ ws"
    "\<forall>w \<in> set ws. vw_code w \<noteq> undefined_code" using collect_warnings by blast
  with assms show ?thesis by (simp add: ball_Un)
qed

lemma collection_codes: "\<forall>w \<in> set (col_warnings (collect_entries r lc km kt)). vw_code w \<noteq> undefined_code"
proof -
  have "\<forall>w \<in> set (col_warnings (fold (collect_valid_entry lc km kt) es col)). vw_code w \<noteq> undefined_code"
    if "\<forall>w \<in> set (col_warnings col). vw_code w \<noteq> undefined_code" for es col
    using that
  proof (induction es arbitrary: col)
    case (Cons e es)
    then show ?case using Cons.IH [OF collect_codes [OF Cons.prems]] by (simp only: fold_simps comp_apply)
  qed simp
  from this [of no_collection "entries r"] show ?thesis by (simp add: collect_entries_def no_collection_def)
qed

lemma validate_parsed_cases:
  obtains (deep) "validate_parsed prec rl order km kt kmd ktd s r = Inl VisitorDepthExceeded"
      "let lc = mk_line_offset_cache (normalize_newlines s); limit = depth_clamp rl (int MAX_DEPTH);
           col = collect_entries r lc km kt
       in check_undefined_references limit order (col_messages col) (col_terms col) lc km kt = None \<or>
          build_dependency_graph limit order (collected_data (col_messages col)) (collected_data (col_terms col))
            km kt kmd ktd = None"
  | (semantic) e where "semantic_validate prec rl r = Inl e"
      "validate_parsed prec rl order km kt kmd ktd s r = Inl (SemanticRaises e)"
  | (validated) lc col refs ws sem where "lc = mk_line_offset_cache (normalize_newlines s)"
      "col = collect_entries r lc km kt"
      "check_undefined_references (depth_clamp rl (int MAX_DEPTH)) order (col_messages col) (col_terms col) lc km kt = Some refs"
      "semantic_validate prec rl r = Inr sem"
      "validate_parsed prec rl order km kt kmd ktd s r = Inr \<lparr>vr_errors = extract_syntax_errors r lc,
         vr_warnings = col_warnings col @ refs @ ws, vr_annotations = vr_annotations sem\<rparr>"
      "\<forall>w \<in> set ws. vw_code w \<noteq> undefined_code"
proof -
  let ?lc = "mk_line_offset_cache (normalize_newlines s)" and ?limit = "depth_clamp rl (int MAX_DEPTH)"
  let ?col = "collect_entries r ?lc km kt"
  show ?thesis
  proof (cases "check_undefined_references ?limit order (col_messages ?col) (col_terms ?col) ?lc km kt")
    case None
    then show ?thesis by (intro deep) (simp_all add: validate_parsed_def Let_def)
  next
    case refs: (Some refs)
    show ?thesis
    proof (cases "build_dependency_graph ?limit order (collected_data (col_messages ?col))
        (collected_data (col_terms ?col)) km kt kmd ktd")
      case None
      then show ?thesis using refs by (intro deep) (simp_all add: validate_parsed_def Let_def)
    next
      case (Some graph)
      obtain cs ls where found: "detect_circular_references (iterated order graph) MAX_DETECTED_CYCLES MAX_GRAPH_DFS_STACK = Some cs"
          "detect_long_chains (iterated order graph) (int MAX_DEPTH) = Some ls"
        using searches_return by blast
      then have "\<forall>w \<in> set (cs @ ls). vw_code w \<noteq> undefined_code" by (auto dest: search_codes)
      then show ?thesis using refs Some found semantic validated [OF refl refl refs, where ws = "cs @ ls"]
        by (cases "semantic_validate prec rl r") (simp_all add: validate_parsed_def Let_def)
    qed
  qed
qed

lemma extract_syntax_errors_empty: "extract_syntax_errors r lc = [] \<longleftrightarrow> \<not> list_ex is_junk (entries r)"
proof -
  have "entry_syntax_errors lc e = [] \<longleftrightarrow> \<not> is_junk e" for e by (cases e) simp_all
  then show ?thesis by (auto simp: extract_syntax_errors_def list_ex_iff)
qed

section \<open>Undefined references\<close>

definition order_ok :: "(ustr set \<Rightarrow> ustr list) \<Rightarrow> bool" where
  "order_ok order \<longleftrightarrow> (\<forall>S. finite S \<longrightarrow> set (order S) = S)"

lemma undefined_among_empty:
  "order_ok order \<Longrightarrow> finite refs \<Longrightarrow>
     undefined_among order ids subject kind mark position refs = [] \<longleftrightarrow> base_ref ` refs \<subseteq> ids"
  by (auto simp: undefined_among_def order_ok_def filter_empty_conv)

lemma expressions_finite [simp]:
  "finite (expressions_of e)" "finite (args_expressions ca)" "finite (named_expressions n)"
  "finite (variant_expressions v)" "finite (pattern_expressions p)" "finite (element_expressions el)"
  "finite (placeable_expressions pl)"
  by (induction e and ca and n and v and p and el and pl
      rule: expressions_of_args_expressions_named_expressions_variant_expressions_pattern_expressions_element_expressions_placeable_expressions.induct)
    simp_all

lemma refs_of_finite: "finite E \<Longrightarrow> finite (fst (refs_of E)) \<and> finite (snd (refs_of E))"
proof -
  assume E: "finite E"
  have "fst (refs_of E) \<subseteq> (\<lambda>e. case e of MessageReference i a sp \<Rightarrow> ref_name i a | _ \<Rightarrow> []) ` E"
    "snd (refs_of E) \<subseteq> (\<lambda>e. case e of TermReference i a as sp \<Rightarrow> ref_name i a | _ \<Rightarrow> []) ` E"
    by (force simp: refs_of_def)+
  with E show ?thesis by (meson finite_imageI finite_subset)
qed

lemma extracted_refs:
  assumes "extract_references limit (v, ats) = Some r"
  shows "r = refs_of (\<Union>p \<in> data_patterns v ats. pattern_expressions p)"
proof -
  have "collects (visit_option (visit_pattern limit 0) v) (\<Union>p \<in> set_option v. pattern_expressions p)"
    by (simp add: visit_option_def collects_nothing collects_mutual split: option.split)
  then have "list_all2 collects (visit_option (visit_pattern limit 0) v # map (\<lambda>a. visit_pattern limit 0 (attr_value a)) ats)
      ((\<Union>p \<in> set_option v. pattern_expressions p) # map (\<lambda>a. pattern_expressions (attr_value a)) ats)"
    by (auto intro: list_all2_map_collects collects_mutual)
  from collects_join [OF this] assms show ?thesis
    by (cases r) (simp add: extract_references_def data_patterns_def collects_def UN_Un)
qed

text \<open>No warning: the names of all references of the entries are known.\<close>

definition refs_known :: "ustr set \<Rightarrow> ustr set \<Rightarrow> entry_data \<Rightarrow> bool" where
  "refs_known ms ts d \<longleftrightarrow>
     (let r = refs_of (\<Union>p \<in> data_patterns (fst d) (snd d). pattern_expressions p)
      in base_ref ` fst r \<subseteq> ms \<and> base_ref ` snd r \<subseteq> ts)"

lemma undefined_in_empty:
  assumes "order_ok order" "undefined_in limit order lc ms ts subject es = Some ws"
  shows "ws = [] \<longleftrightarrow> (\<forall>(name, d, sp) \<in> set es. refs_known ms ts d)"
  using assms(2)
proof (induction es arbitrary: ws)
  case (Cons x es)
  obtain name v ats sp where x: "x = (name, (v, ats), sp)" by (cases x) auto
  from Cons.prems obtain m t ws' where r: "extract_references limit (v, ats) = Some (m, t)"
      "undefined_in limit order lc ms ts subject es = Some ws'"
      "ws = undefined_among order ms (subject name) (u ''message'') [] (span_position lc sp) m @
        undefined_among order ts (subject name) (u ''term'') (u ''-'') (span_position lc sp) t @ ws'"
    by (auto simp: x Let_def split: option.splits)
  have mt: "(m, t) = refs_of (\<Union>p \<in> data_patterns v ats. pattern_expressions p)"
    using extracted_refs [OF r(1)] .
  have "finite (\<Union>p \<in> data_patterns v ats. pattern_expressions p)" by (simp add: data_patterns_def)
  then have "finite m \<and> finite t" using refs_of_finite mt by (metis fst_conv snd_conv)
  then have "ws = [] \<longleftrightarrow> (base_ref ` m \<subseteq> ms \<and> base_ref ` t \<subseteq> ts) \<and> ws' = []"
    by (simp add: r(3) undefined_among_empty [OF assms(1)])
  also have "(base_ref ` m \<subseteq> ms \<and> base_ref ` t \<subseteq> ts) \<longleftrightarrow> refs_known ms ts (v, ats)"
    by (simp add: refs_known_def mt [symmetric])
  finally show ?case using Cons.IH [OF r(2)] by (simp add: x)
qed simp

section \<open>References of parsed entries\<close>

text \<open>The names in the references of a parsed tree are identifiers, so that the name of a reference
  with an attribute ends at its dot.\<close>

definition plain_names :: "expression set \<Rightarrow> bool" where
  "plain_names E \<longleftrightarrow>
     (\<forall>e \<in> E. case e of
        MessageReference i a sp \<Rightarrow> CH_DOT \<notin> set (id_name i)
      | TermReference i a as sp \<Rightarrow> CH_DOT \<notin> set (id_name i)
      | _ \<Rightarrow> True)"

lemma plain_names_parts [simp]:
  "plain_names (E \<union> F) \<longleftrightarrow> plain_names E \<and> plain_names F"
  "plain_names (insert e E) \<longleftrightarrow>
     (case e of
        MessageReference i a sp \<Rightarrow> CH_DOT \<notin> set (id_name i)
      | TermReference i a as sp \<Rightarrow> CH_DOT \<notin> set (id_name i)
      | _ \<Rightarrow> True) \<and> plain_names E"
  "plain_names (\<Union>(f ` X)) \<longleftrightarrow> (\<forall>x \<in> X. plain_names (f x))" "plain_names {}"
  by (auto simp: plain_names_def)

lemma identifier_plain: "identifier_ok k i \<Longrightarrow> CH_DOT \<notin> set (id_name i)"
  by (cases i) (use identifier_char_not_special in \<open>auto simp: list_all_iff dest!: grammar_identifier_chars bspec\<close>)

lemma wf_plain_names:
  "wf_expr k e \<Longrightarrow> plain_names (expressions_of e)"
  "wf_args k ca \<Longrightarrow> plain_names (args_expressions ca)"
  "wf_named k n \<Longrightarrow> plain_names (named_expressions n)"
  "wf_variant k v \<Longrightarrow> plain_names (variant_expressions v)"
  "wf_pattern k p \<Longrightarrow> plain_names (pattern_expressions p)"
  "wf_element k el \<Longrightarrow> plain_names (element_expressions el)"
  "wf_placeable k pl \<Longrightarrow> plain_names (placeable_expressions pl)"
  by (induction k e and k ca and k n and k v and k p and k el and k pl
      rule: wf_expr_wf_args_wf_named_wf_variant_wf_pattern_wf_element_wf_placeable.induct)
    (auto simp: list_all_iff dest: identifier_plain)

lemma base_ref_name: "CH_DOT \<notin> set (id_name i) \<Longrightarrow> base_ref (ref_name i a) = id_name i"
  by (cases a) (auto simp: base_ref_def ref_name_def u_def takeWhile_append takeWhile_eq_all_conv)

definition expressions_known :: "ustr set \<Rightarrow> ustr set \<Rightarrow> expression set \<Rightarrow> bool" where
  "expressions_known ms ts E \<longleftrightarrow>
     (\<forall>e \<in> E. case e of
        MessageReference i a sp \<Rightarrow> id_name i \<in> ms
      | TermReference i a as sp \<Rightarrow> id_name i \<in> ts
      | _ \<Rightarrow> True)"

lemma base_refs:
  assumes "plain_names E"
  shows "base_ref ` fst (refs_of E) = {id_name i |i a sp. MessageReference i a sp \<in> E}"
    and "base_ref ` snd (refs_of E) = {id_name i |i a as sp. TermReference i a as sp \<in> E}"
proof -
  have m: "base_ref (ref_name i a) = id_name i" if "MessageReference i a sp \<in> E" for i a sp
    using assms that by (fastforce simp: plain_names_def intro: base_ref_name)
  have t: "base_ref (ref_name i a) = id_name i" if "TermReference i a as sp \<in> E" for i a as sp
    using assms that by (fastforce simp: plain_names_def intro: base_ref_name)
  have "base_ref ` fst (refs_of E) = {base_ref (ref_name i a) |i a. \<exists>sp. MessageReference i a sp \<in> E}"
    by (auto simp: refs_of_def)
  also have "\<dots> = {id_name i |i a sp. MessageReference i a sp \<in> E}" by (metis (lifting) m)
  finally show "base_ref ` fst (refs_of E) = {id_name i |i a sp. MessageReference i a sp \<in> E}" .
  have "base_ref ` snd (refs_of E) = {base_ref (ref_name i a) |i a. \<exists>as sp. TermReference i a as sp \<in> E}"
    unfolding refs_of_def snd_conv by blast
  also have "\<dots> = {id_name i |i a as sp. TermReference i a as sp \<in> E}" by (metis (lifting) t)
  finally show "base_ref ` snd (refs_of E) = {id_name i |i a as sp. TermReference i a as sp \<in> E}" .
qed

lemma refs_known_iff:
  assumes "\<forall>p \<in> data_patterns v ats. plain_names (pattern_expressions p)"
  shows "refs_known ms ts (v, ats) \<longleftrightarrow> (\<forall>p \<in> data_patterns v ats. expressions_known ms ts (pattern_expressions p))"
proof -
  let ?E = "\<Union>p \<in> data_patterns v ats. pattern_expressions p"
  have "plain_names ?E" using assms by simp
  then have "refs_known ms ts (v, ats) \<longleftrightarrow> expressions_known ms ts ?E"
    by (simp add: refs_known_def Let_def base_refs)
      (fastforce simp: expressions_known_def split: expression.splits)
  also have "\<dots> \<longleftrightarrow> (\<forall>p \<in> data_patterns v ats. expressions_known ms ts (pattern_expressions p))"
    by (auto simp: expressions_known_def)
  finally show ?thesis .
qed

text \<open>Known references are defined, in a resolver that has the names.\<close>

lemma known_defined:
  "expressions_known ms ts E \<Longrightarrow> ms \<subseteq> {name. rv_messages R name \<noteq> None} \<Longrightarrow>
     ts \<subseteq> {name. rv_terms R name \<noteq> None} \<Longrightarrow> references_defined R E"
  unfolding expressions_known_def references_defined_def by (fastforce split: expression.splits)

section \<open>Validated against a bundle, then added to it\<close>

text \<open>\<open>validate_resource\<close> of a bundle is in \<open>Bundle_Queries\<close>.  What it collects are the last
  definitions, which are the ones that a registration adds.\<close>

lemma collect_valid_step:
  "od_get (col_messages (collect_valid_entry lc km kt e col)) name =
     (case e of Message i v ats cm sp \<Rightarrow> if id_name i = name then Some ((v, ats), sp) else od_get (col_messages col) name
      | _ \<Rightarrow> od_get (col_messages col) name)"
  "od_get (col_terms (collect_valid_entry lc km kt e col)) name =
     (case e of Term i p ats cm sp \<Rightarrow> if id_name i = name then Some ((Some p, ats), sp) else od_get (col_terms col) name
      | _ \<Rightarrow> od_get (col_terms col) name)"
  by (auto simp: collect_valid_entry_def Let_def od_get_set split: entry.split)

lemma collected_entries:
  "od_get (col_messages (fold (collect_valid_entry lc km kt) es col)) name =
     (case last_message es name of
        Some ((i, v, ats), cm, sp) \<Rightarrow> Some ((v, ats), sp) | None \<Rightarrow> od_get (col_messages col) name)"
  "od_get (col_terms (fold (collect_valid_entry lc km kt) es col)) name =
     (case last_term es name of
        Some ((i, p, ats), cm, sp) \<Rightarrow> Some ((Some p, ats), sp) | None \<Rightarrow> od_get (col_terms col) name)"
  by (induction es arbitrary: col) (auto simp: collect_valid_step split: option.split entry.split)

lemma collected:
  "od_get (col_messages (collect_entries r lc km kt)) name =
     map_option (\<lambda>((i, v, ats), cm, sp). ((v, ats), sp)) (last_message (entries r) name)"
  "od_get (col_terms (collect_entries r lc km kt)) name =
     map_option (\<lambda>((i, p, ats), cm, sp). ((Some p, ats), sp)) (last_term (entries r) name)"
  by (auto simp: collect_entries_def collected_entries no_collection_def od_get_empty split: option.split)

lemma od_get_in: "od_get d k = Some v \<Longrightarrow> (k, v) \<in> set d"
  by (simp add: od_get_def map_of_SomeD)

lemma od_keys_dom: "set (od_keys d) = {k. od_get d k \<noteq> None}"
  by (auto simp: od_get_None)

lemma check_undefined_empty:
  assumes "order_ok order" "check_undefined_references limit order d t lc km kt = Some []"
  shows "(\<forall>(name, x, sp) \<in> set d. refs_known (ids_with d km) (ids_with t kt) x) \<and>
    (\<forall>(name, x, sp) \<in> set t. refs_known (ids_with d km) (ids_with t kt) x)"
  using assms(2) undefined_in_empty [OF assms(1)]
  by (fastforce simp: check_undefined_references_def Let_def split: option.splits)

lemma last_entry_in:
  "last_message es name = Some ((i, v, ats), cm, sp) \<Longrightarrow> Message i v ats cm sp \<in> set es"
  "last_term es name = Some ((i, p, ats), cm, sp) \<Longrightarrow> Term i p ats cm sp \<in> set es"
  by (induction es) (auto split: option.splits entry.splits if_splits)

lemma wf_attribute_plain: "wf_attribute k a \<Longrightarrow> plain_names (pattern_expressions (attr_value a))"
  by (cases a) (auto dest: wf_plain_names)

lemma entry_plain:
  "entry_wf (Message i v ats cm sp) \<Longrightarrow> q \<in> data_patterns v ats \<Longrightarrow> plain_names (pattern_expressions q)"
  "entry_wf (Term i p ats cm sp) \<Longrightarrow> q \<in> data_patterns (Some p) ats \<Longrightarrow> plain_names (pattern_expressions q)"
  by (auto simp: entry_wf_def data_patterns_def list_all_iff pred_option_def
      dest: wf_plain_names wf_attribute_plain)

text \<open>Which names a source knows, and what it means that nothing is undefined.\<close>

definition known_names :: "('n \<Rightarrow> 'a option) \<Rightarrow> 'n set option \<Rightarrow> 'n set" where
  "known_names defined known = {name. defined name \<noteq> None} \<union> (case known of None \<Rightarrow> {} | Some ids \<Rightarrow> ids)"

definition source_closed :: "entry list \<Rightarrow> ustr set \<Rightarrow> ustr set \<Rightarrow> bool" where
  "source_closed es ms ts \<longleftrightarrow>
     (\<forall>name i v ats cm sp. last_message es name = Some ((i, v, ats), cm, sp) \<longrightarrow>
        (\<forall>p \<in> data_patterns v ats. expressions_known ms ts (pattern_expressions p))) \<and>
     (\<forall>name i p ats cm sp. last_term es name = Some ((i, p, ats), cm, sp) \<longrightarrow>
        (\<forall>q \<in> data_patterns (Some p) ats. expressions_known ms ts (pattern_expressions q)))"

lemma collected_valid:
  "od_valid (col_messages (collect_entries r lc km kt))" "od_valid (col_terms (collect_entries r lc km kt))"
proof -
  have step: "od_valid (col_messages col) \<Longrightarrow> od_valid (col_messages (collect_valid_entry lc km kt e col))"
    "od_valid (col_terms col) \<Longrightarrow> od_valid (col_terms (collect_valid_entry lc km kt e col))" for e col
    by (auto simp: collect_valid_entry_def Let_def od.valid_set split: entry.split)
  have "od_valid (col_messages col) \<Longrightarrow> od_valid (col_messages (fold (collect_valid_entry lc km kt) es col))"
    "od_valid (col_terms col) \<Longrightarrow> od_valid (col_terms (fold (collect_valid_entry lc km kt) es col))" for es col
    by (induction es arbitrary: col) (simp_all add: step)
  then show "od_valid (col_messages (collect_entries r lc km kt))" "od_valid (col_terms (collect_entries r lc km kt))"
    by (simp_all add: collect_entries_def no_collection_def od_valid_def od_keys_def)
qed

lemma od_entries: "od_valid d \<Longrightarrow> (\<forall>(k, x, y) \<in> set d. Q x) \<longleftrightarrow> (\<forall>k x y. od_get d k = Some (x, y) \<longrightarrow> Q x)"
  by (auto simp: od_valid_def od_get_def od_keys_def intro: map_of_is_SomeI dest: map_of_SomeD)

lemma refs_empty_iff:
  assumes "order_ok order" "list_all entry_wf (entries r)" "col = collect_entries r lc km kt"
    and "check_undefined_references limit order (col_messages col) (col_terms col) lc km kt = Some refs"
  shows "refs = [] \<longleftrightarrow>
    source_closed (entries r) (known_names (last_message (entries r)) km) (known_names (last_term (entries r)) kt)"
proof -
  let ?ms = "ids_with (col_messages col) km" and ?ts = "ids_with (col_terms col) kt"
  have ids: "?ms = known_names (last_message (entries r)) km" "?ts = known_names (last_term (entries r)) kt"
    by (auto simp: ids_with_def known_names_def od_keys_dom assms(3) collected)
  have "refs = [] \<longleftrightarrow> (\<forall>(name, d, sp) \<in> set (col_messages col). refs_known ?ms ?ts d) \<and>
      (\<forall>(name, d, sp) \<in> set (col_terms col). refs_known ?ms ?ts d)"
    using assms(4) undefined_in_empty [OF assms(1)]
    by (fastforce simp: check_undefined_references_def Let_def split: option.splits)
  also have "\<dots> \<longleftrightarrow> (\<forall>name d sp. od_get (col_messages col) name = Some (d, sp) \<longrightarrow> refs_known ?ms ?ts d) \<and>
      (\<forall>name d sp. od_get (col_terms col) name = Some (d, sp) \<longrightarrow> refs_known ?ms ?ts d)"
    using collected_valid by (simp only: assms(3) od_entries)
  also have "(\<forall>name d sp. od_get (col_messages col) name = Some (d, sp) \<longrightarrow> refs_known ?ms ?ts d) \<longleftrightarrow>
      (\<forall>name i v ats cm sp. last_message (entries r) name = Some ((i, v, ats), cm, sp) \<longrightarrow> refs_known ?ms ?ts (v, ats))"
    by (auto simp: assms(3) collected; blast)
  also have "(\<forall>name d sp. od_get (col_terms col) name = Some (d, sp) \<longrightarrow> refs_known ?ms ?ts d) \<longleftrightarrow>
      (\<forall>name i p ats cm sp. last_term (entries r) name = Some ((i, p, ats), cm, sp) \<longrightarrow> refs_known ?ms ?ts (Some p, ats))"
    by (auto simp: assms(3) collected; blast)
  also have "(\<forall>name i v ats cm sp. last_message (entries r) name = Some ((i, v, ats), cm, sp) \<longrightarrow> refs_known ?ms ?ts (v, ats)) \<longleftrightarrow>
      (\<forall>name i v ats cm sp. last_message (entries r) name = Some ((i, v, ats), cm, sp) \<longrightarrow>
        (\<forall>p \<in> data_patterns v ats. expressions_known ?ms ?ts (pattern_expressions p)))"
    using refs_known_iff entry_plain(1) last_entry_in(1) assms(2) unfolding list_all_iff by (metis (lifting))
  also have "(\<forall>name i p ats cm sp. last_term (entries r) name = Some ((i, p, ats), cm, sp) \<longrightarrow> refs_known ?ms ?ts (Some p, ats)) \<longleftrightarrow>
      (\<forall>name i p ats cm sp. last_term (entries r) name = Some ((i, p, ats), cm, sp) \<longrightarrow>
        (\<forall>q \<in> data_patterns (Some p) ats. expressions_known ?ms ?ts (pattern_expressions q)))"
    using refs_known_iff entry_plain(2) last_entry_in(2) assms(2) unfolding list_all_iff by (metis (lifting))
  finally show ?thesis unfolding source_closed_def ids .
qed

lemma references_defined_mono:
  "references_defined R E \<Longrightarrow> (\<And>n. rv_messages R n \<noteq> None \<Longrightarrow> rv_messages R' n \<noteq> None) \<Longrightarrow>
     (\<And>n. rv_terms R n \<noteq> None \<Longrightarrow> rv_terms R' n \<noteq> None) \<Longrightarrow> references_defined R' E"
  unfolding references_defined_def by (auto split: expression.splits)

lemma bundle_lookup:
  "rv_messages (bundle_resolver P b) name = map_option fst (od_get (b_messages b) name)"
  "rv_terms (bundle_resolver P b) name = map_option fst (od_get (b_terms b) name)"
  by (simp_all add: bundle_resolver_def mk_resolver_def)

lemma registered_closed:
  assumes "bundle_wf P b" "list_all entry_wf (entries r)" "register_resource P (entries r) path b = (b', Inr junk)"
    and closed: "closed_resolver (bundle_resolver P b)" and order: "order_ok order"
    and none: "check_undefined_references limit order (col_messages col) (col_terms col) lc
        (Some (set (od_keys (b_messages b)))) (Some (set (od_keys (b_terms b)))) = Some []"
    and col: "col = collect_entries r lc km kt"
  shows "closed_resolver (bundle_resolver P b')"
proof -
  let ?R = "bundle_resolver P b" and ?R' = "bundle_resolver P b'"
  have eff: "od_get (b_messages b') = od_get (b_messages b) ++ last_message (entries r)"
    "od_get (b_terms b') = od_get (b_terms b) ++ last_term (entries r)"
    using register_effect [OF assms(1-3)] by simp_all
  let ?ms = "ids_with (col_messages col) (Some (set (od_keys (b_messages b))))"
  let ?ts = "ids_with (col_terms col) (Some (set (od_keys (b_terms b))))"
  have ids: "?ms \<subseteq> {name. rv_messages ?R' name \<noteq> None}" "?ts \<subseteq> {name. rv_terms ?R' name \<noteq> None}"
    by (auto simp: ids_with_def bundle_lookup od_keys_dom eff map_add_def col collected split: option.splits)
  note known = check_undefined_empty [OF order none]
  have mono: "references_defined ?R E \<Longrightarrow> references_defined ?R' E" for E
    by (erule references_defined_mono) (auto simp: bundle_lookup eff map_add_def split: option.splits)
  have m: "references_defined ?R' (pattern_expressions p)"
    if "od_get (b_messages b') name = Some ((i, v, ats), cm, sp)" "p \<in> data_patterns v ats" for name i v ats cm sp p
  proof (cases "last_message (entries r) name")
    case None
    with that(1) have "rv_messages ?R name = Some (i, v, ats)" by (simp add: eff map_add_def bundle_lookup)
    then show ?thesis using closed that(2) by (auto simp: closed_resolver_def intro: mono)
  next
    case (Some n)
    with that(1) have l: "last_message (entries r) name = Some ((i, v, ats), cm, sp)" by (simp add: eff map_add_def)
    then have "od_get (col_messages col) name = Some ((v, ats), sp)" by (simp add: col collected)
    then have "refs_known ?ms ?ts (v, ats)" using known od_get_in by fastforce
    moreover have "\<forall>q \<in> data_patterns v ats. plain_names (pattern_expressions q)"
      using last_entry_in(1) [OF l] assms(2) entry_plain(1) by (auto simp: list_all_iff)
    ultimately show ?thesis using known_defined [OF _ ids] that(2) by (simp add: refs_known_iff)
  qed
  have t: "references_defined ?R' (pattern_expressions q)"
    if "od_get (b_terms b') name = Some ((i, p, ats), cm, sp)" "q \<in> data_patterns (Some p) ats" for name i p ats cm sp q
  proof (cases "last_term (entries r) name")
    case None
    with that(1) have "rv_terms ?R name = Some (i, p, ats)" by (simp add: eff map_add_def bundle_lookup)
    then show ?thesis using closed that(2) by (auto simp: closed_resolver_def intro: mono)
  next
    case (Some n)
    with that(1) have l: "last_term (entries r) name = Some ((i, p, ats), cm, sp)" by (simp add: eff map_add_def)
    then have "od_get (col_terms col) name = Some ((Some p, ats), sp)" by (simp add: col collected)
    then have "refs_known ?ms ?ts (Some p, ats)" using known od_get_in by fastforce
    moreover have "\<forall>q \<in> data_patterns (Some p) ats. plain_names (pattern_expressions q)"
      using last_entry_in(2) [OF l] assms(2) entry_plain(2) by (auto simp: list_all_iff)
    ultimately show ?thesis using known_defined [OF _ ids] that(2) by (simp add: refs_known_iff)
  qed
  show ?thesis unfolding closed_resolver_def bundle_lookup using m t by fastforce
qed

end
