(* ===== verification/Introspection_Properties.thy ===== *)
theory Introspection_Properties
  imports Introspection Validated_Resources
begin

text \<open>
  Introspection finds exactly the variables, calls, references and selectors of an entry, and
  raises exactly when the levels of its guard exceed the limit; the variables that it names are
  enough to format a message that refers to nothing else.
\<close>

section \<open>What is found\<close>

definition variables_in :: "expression set \<Rightarrow> (ustr \<times> span option) set" where
  "variables_in E = (\<Union>e \<in> E. case e of VariableReference i sp \<Rightarrow> {(id_name i, sp)} | _ \<Rightarrow> {})"

definition calls_in :: "expression set \<Rightarrow> function_call_info set" where
  "calls_in E = (\<Union>e \<in> E. case e of
     FunctionReference i args sp \<Rightarrow> (case args of CallArguments ps ns asp \<Rightarrow> iv_functions (call_info i ps ns sp)) | _ \<Rightarrow> {})"

definition references_in :: "expression set \<Rightarrow> reference_info set" where
  "references_in E = (\<Union>e \<in> E. case e of
     MessageReference i a sp \<Rightarrow> iv_references (reference_to KIND_MESSAGE i a sp)
   | TermReference i a args sp \<Rightarrow> iv_references (reference_to KIND_TERM i a sp)
   | _ \<Rightarrow> {})"

definition selects_in :: "expression set \<Rightarrow> bool" where
  "selects_in E \<longleftrightarrow> (\<exists>e \<in> E. case e of SelectExpression sel vs sp \<Rightarrow> True | _ \<Rightarrow> False)"

definition finds :: "visited \<Rightarrow> expression set \<Rightarrow> bool" where
  "finds v E \<longleftrightarrow>
     (\<lambda>x. (vi_name x, vi_span x)) ` iv_variables v = variables_in E \<and> iv_functions v = calls_in E \<and>
     iv_references v = references_in E \<and> iv_has_selectors v = selects_in E"

definition visits :: "visited option \<Rightarrow> expression set \<Rightarrow> bool" where
  "visits r E \<longleftrightarrow> (\<forall>v. r = Some v \<longrightarrow> finds v E)"

lemmas in_defs = variables_in_def calls_in_def references_in_def selects_in_def

lemma visits_guarded: "visits r E \<Longrightarrow> visits (depth_guarded limit d r) E"
  by (simp add: visits_def depth_guarded_def)

lemma visits_nothing: "visits (Some nothing_visited) {}"
  by (simp add: visits_def finds_def nothing_visited_def in_defs)

lemma in_union:
  "variables_in (A \<union> B) = variables_in A \<union> variables_in B" "calls_in (A \<union> B) = calls_in A \<union> calls_in B"
  "references_in (A \<union> B) = references_in A \<union> references_in B" "selects_in (A \<union> B) \<longleftrightarrow> selects_in A \<or> selects_in B"
  unfolding in_defs by blast+

lemma finds_union:
  "finds a A \<Longrightarrow> finds b B \<Longrightarrow>
     finds \<lparr>iv_variables = iv_variables a \<union> iv_variables b, iv_functions = iv_functions a \<union> iv_functions b,
       iv_references = iv_references a \<union> iv_references b,
       iv_has_selectors = (iv_has_selectors a \<or> iv_has_selectors b)\<rparr> (A \<union> B)"
  by (simp add: finds_def image_Un in_union)

lemma visits_join: "list_all2 visits rs Es \<Longrightarrow> visits (join_visited rs) (\<Union>(set Es))"
proof (induction rs Es rule: list_all2_induct)
  case Nil
  show ?case by (simp add: join_visited_def visits_nothing)
next
  case (Cons r rs E Es)
  then show ?case
    by (auto simp: join_visited_def visits_def split: option.splits intro!: finds_union)
qed

lemma visits_same: "visits r E \<Longrightarrow> (\<And>v. finds v E = finds v F) \<Longrightarrow> visits r F"
  by (simp add: visits_def)

lemma list_all2_map_visits:
  "(\<And>x. x \<in> set xs \<Longrightarrow> visits (f x) (h x)) \<Longrightarrow> list_all2 visits (map f xs) (map h xs)"
  by (simp add: list_all2_conv_all_nth)

text \<open>What a single expression adds.\<close>

lemma finds_nested: "finds v (insert (NestedPlaceable p) E) = finds v E"
  by (simp add: finds_def in_defs)

lemma visits_leaf:
  "visits (Some nothing_visited) {StringLiteral s sp}" "visits (Some nothing_visited) {NumberLiteral x raw sp}"
  "visits (Some (reference_to KIND_MESSAGE i a sp)) {MessageReference i a sp}"
  "visits (Some (reference_to KIND_TERM i a sp)) {TermReference i a args sp}"
  "visits (Some (call_info i ps ns sp)) {FunctionReference i (CallArguments ps ns asp) sp}"
  "visits (Some (nothing_visited\<lparr>iv_has_selectors := True\<rparr>)) {SelectExpression sel vs sp}"
  "visits (Some (nothing_visited\<lparr>iv_variables := {\<lparr>vi_name = id_name i, vi_context = ctx, vi_span = sp\<rparr>}\<rparr>))
     {VariableReference i sp}"
  by (simp_all add: visits_def finds_def in_defs nothing_visited_def reference_to_def call_info_def)

lemma introspection_visits:
  "visits (introspect_expression L d ctx e) (expressions_of e)"
  "visits (introspect_arguments L d ctx ca) (args_expressions ca)"
  "visits (introspect_named L d ctx n) (named_expressions n)"
  "visits (introspect_variant L d w) (variant_expressions w)"
  "visits (introspect_pattern L d ctx p) (pattern_expressions p)"
  "visits (introspect_element L d ctx el) (element_expressions el)"
  "visits (introspect_placeable L d ctx pl) (placeable_expressions pl)"
proof (induction L d ctx e and L d ctx ca and L d ctx n and L d w and L d ctx p and L d ctx el and L d ctx pl
    rule: introspect_expression_introspect_arguments_introspect_named_introspect_variant_introspect_pattern_introspect_element_introspect_placeable.induct)
  case (6 L d ctx i a args sp)
  then show ?case
    using visits_join [of "[_, _]" "[{TermReference i a (Some args) sp}, args_expressions args]"]
    by (simp add: visits_leaf)
next
  case (7 L d ctx i ps ns asp sp)
  then show ?case
    using visits_join [of "[_, _]" "[args_expressions (CallArguments ps ns asp), {FunctionReference i (CallArguments ps ns asp) sp}]"]
    by (simp add: visits_leaf)
next
  case (8 L d ctx p)
  then show ?case by (simp add: visits_def finds_nested)
next
  case (9 L d ctx sel vs sp)
  then show ?case
    using visits_join [of _ "{SelectExpression sel vs sp} # expressions_of sel # map variant_expressions vs"]
    by (simp add: visits_leaf visits_guarded list_all2_map_visits)
next
  case (10 L d ctx ps ns sp)
  then show ?case
    using visits_join [of _ "map expressions_of ps @ map named_expressions ns"]
    by (simp add: visits_guarded list_all2_map_visits list_all2_appendI)
next
  case (13 L d ctx es sp)
  then show ?case
    using visits_join [of _ "map element_expressions es"] by (simp add: list_all2_map_visits)
qed (simp_all add: visits_leaf visits_guarded visits_nothing)

lemma message_visits:
  assumes "introspect_message rl name (v, ats) = Some r"
  shows "finds \<lparr>iv_variables = mi_variables r, iv_functions = mi_functions r, iv_references = mi_references r,
      iv_has_selectors = mi_has_selectors r\<rparr> (\<Union>p \<in> data_patterns v ats. pattern_expressions p)"
    and "mi_message_id r = name"
proof -
  let ?L = "depth_clamp rl (int MAX_DEPTH)"
  let ?visit = "\<lambda>p. depth_guarded ?L 0 (introspect_pattern ?L 1 PATTERN p)"
  let ?rs = "(case v of None \<Rightarrow> [] | Some p \<Rightarrow> [?visit p]) @ map (\<lambda>a. ?visit (attr_value a)) ats"
  let ?Es = "(case v of None \<Rightarrow> [] | Some p \<Rightarrow> [pattern_expressions p]) @ map (\<lambda>a. pattern_expressions (attr_value a)) ats"
  have "list_all2 visits ?rs ?Es"
    by (auto intro!: list_all2_appendI list_all2_map_visits visits_guarded introspection_visits split: option.split)
  from visits_join [OF this] have "visits (join_visited ?rs) (\<Union>p \<in> data_patterns v ats. pattern_expressions p)"
    by (cases v) (simp_all add: data_patterns_def)
  moreover obtain x where "join_visited ?rs = Some x" "r = \<lparr>mi_message_id = name, mi_variables = iv_variables x,
      mi_functions = iv_functions x, mi_references = iv_references x, mi_has_selectors = iv_has_selectors x\<rparr>"
    using assms by (auto simp: introspect_message_def Let_def)
  ultimately show "finds \<lparr>iv_variables = mi_variables r, iv_functions = mi_functions r, iv_references = mi_references r,
      iv_has_selectors = mi_has_selectors r\<rparr> (\<Union>p \<in> data_patterns v ats. pattern_expressions p)"
    and "mi_message_id r = name" by (cases x; simp add: visits_def)+
qed

section \<open>When it returns\<close>

text \<open>The levels of the guard that a visit needs.\<close>

fun levels_expression :: "expression \<Rightarrow> nat"
and levels_arguments :: "call_arguments \<Rightarrow> nat"
and levels_named :: "named_argument \<Rightarrow> nat"
and levels_variant :: "variant \<Rightarrow> nat"
and levels_pattern :: "pattern \<Rightarrow> nat"
and levels_element :: "pattern_element \<Rightarrow> nat"
and levels_placeable :: "placeable \<Rightarrow> nat" where
  "levels_expression (StringLiteral s sp) = 0"
| "levels_expression (NumberLiteral v raw sp) = 0"
| "levels_expression (VariableReference i sp) = 0"
| "levels_expression (MessageReference i a sp) = 0"
| "levels_expression (TermReference i a None sp) = 0"
| "levels_expression (TermReference i a (Some args) sp) = levels_arguments args"
| "levels_expression (FunctionReference i args sp) = levels_arguments args"
| "levels_expression (NestedPlaceable p) = levels_placeable p"
| "levels_expression (SelectExpression sel vs sp) = max_list (Suc (levels_expression sel) # map levels_variant vs)"
| "levels_arguments (CallArguments ps ns sp) =
     max_list (map (\<lambda>e. Suc (levels_expression e)) ps @ map levels_named ns)"
| "levels_named (NamedArgument i e sp) = Suc (levels_expression e)"
| "levels_variant (Variant k p b sp) = Suc (levels_pattern p)"
| "levels_pattern (Pattern es sp) = max_list (map levels_element es)"
| "levels_element (TextElement s sp) = 0"
| "levels_element (PlaceableElement p) = levels_placeable p"
| "levels_placeable (Placeable e sp) = Suc (levels_expression e)"

definition levels_entry :: "pattern option \<Rightarrow> attribute list \<Rightarrow> nat" where
  "levels_entry v ats =
     max_list ((case v of None \<Rightarrow> [] | Some p \<Rightarrow> [Suc (levels_pattern p)]) @ map (\<lambda>a. Suc (levels_pattern (attr_value a))) ats)"

definition fits :: "int \<Rightarrow> int \<Rightarrow> nat \<Rightarrow> bool" where
  "fits limit d n \<longleftrightarrow> n = 0 \<or> d + int n \<le> limit"

lemma levels_fit_max: "fits limit d (max_list ns) \<longleftrightarrow> (\<forall>n \<in> set ns. fits limit d n)"
  by (induction ns) (auto simp: fits_def max_list_def max_def)

lemma fits_zero [simp]: "fits limit d 0"
  by (simp add: fits_def)

lemma guarded_fits: "(r \<noteq> None \<longleftrightarrow> fits limit (d + 1) n) \<Longrightarrow> depth_guarded limit d r \<noteq> None \<longleftrightarrow> fits limit d (Suc n)"
  by (auto simp: depth_guarded_def fits_def)

lemma join_returns: "join_visited rs \<noteq> None \<longleftrightarrow> (\<forall>r \<in> set rs. r \<noteq> None)"
  by (induction rs) (auto simp: join_visited_def split: option.splits)

lemma introspection_returns:
  "introspect_expression L d ctx e \<noteq> None \<longleftrightarrow> fits L d (levels_expression e)"
  "introspect_arguments L d ctx ca \<noteq> None \<longleftrightarrow> fits L d (levels_arguments ca)"
  "introspect_named L d ctx n \<noteq> None \<longleftrightarrow> fits L d (levels_named n)"
  "introspect_variant L d w \<noteq> None \<longleftrightarrow> fits L d (levels_variant w)"
  "introspect_pattern L d ctx p \<noteq> None \<longleftrightarrow> fits L d (levels_pattern p)"
  "introspect_element L d ctx el \<noteq> None \<longleftrightarrow> fits L d (levels_element el)"
  "introspect_placeable L d ctx pl \<noteq> None \<longleftrightarrow> fits L d (levels_placeable pl)"
proof (induction L d ctx e and L d ctx ca and L d ctx n and L d w and L d ctx p and L d ctx el and L d ctx pl
    rule: introspect_expression_introspect_arguments_introspect_named_introspect_variant_introspect_pattern_introspect_element_introspect_placeable.induct)
  case (6 L d ctx i a args sp)
  then show ?case by (simp add: join_returns del: not_None_eq)
next
  case (7 L d ctx i ps ns asp sp)
  then show ?case by (simp add: join_returns del: not_None_eq introspect_arguments.simps levels_arguments.simps)
next
  case (9 L d ctx sel vs sp)
  then show ?case by (simp add: join_returns levels_fit_max guarded_fits del: not_None_eq)
next
  case (10 L d ctx ps ns sp)
  then show ?case
    by (simp add: join_returns levels_fit_max ball_Un guarded_fits del: not_None_eq)
next
  case (13 L d ctx es sp)
  then show ?case by (simp add: join_returns levels_fit_max del: not_None_eq)
qed (simp_all add: guarded_fits del: not_None_eq)

lemma message_returns:
  "introspect_message rl name (v, ats) \<noteq> None \<longleftrightarrow> fits (depth_clamp rl (int MAX_DEPTH)) 0 (levels_entry v ats)"
proof -
  let ?L = "depth_clamp rl (int MAX_DEPTH)"
  have "depth_guarded ?L 0 (introspect_pattern ?L 1 PATTERN p) \<noteq> None \<longleftrightarrow> fits ?L 0 (Suc (levels_pattern p))" for p
    by (rule guarded_fits) (simp add: introspection_returns del: not_None_eq)
  then show ?thesis
    by (cases v) (simp_all add: introspect_message_def Let_def join_returns levels_entry_def levels_fit_max ball_Un
        del: not_None_eq)
qed

section \<open>Properties\<close>

lemma variables_in_names: "fst ` variables_in E = {id_name i |i sp. VariableReference i sp \<in> E}"
proof -
  have "fst ` (case e of VariableReference i sp \<Rightarrow> {(id_name i, sp)} | _ \<Rightarrow> {}) =
      {id_name i |i sp. VariableReference i sp = e}" for e by (cases e) simp_all
  then have "fst ` variables_in E = (\<Union>e \<in> E. {id_name i |i sp. VariableReference i sp = e})"
    by (simp add: variables_in_def image_UN)
  also have "\<dots> = {id_name i |i sp. VariableReference i sp \<in> E}" by blast
  finally show ?thesis .
qed

lemma calls_in_names: "fci_name ` calls_in E = {id_name i |i args sp. FunctionReference i args sp \<in> E}"
proof -
  have "fci_name ` (case e of FunctionReference i args sp \<Rightarrow>
      (case args of CallArguments ps ns asp \<Rightarrow> iv_functions (call_info i ps ns sp)) | _ \<Rightarrow> {}) =
    {id_name i |i args sp. FunctionReference i args sp = e}" for e
    by (cases e) (simp_all add: call_info_def split: call_arguments.split)
  then have "fci_name ` calls_in E = (\<Union>e \<in> E. {id_name i |i args sp. FunctionReference i args sp = e})"
    by (simp add: calls_in_def image_UN)
  also have "\<dots> = {id_name i |i args sp. FunctionReference i args sp \<in> E}" by blast
  finally show ?thesis .
qed

text \<open>C21: introspection of an entry raises exactly when the levels of its patterns exceed the limit;
  otherwise its variables, functions and references are exactly those of the expressions in its
  value and attributes, and it has selectors exactly when one of them is a select expression.\<close>

theorem introspection_exact:
  "case introspect_message rl name (v, ats) of
     None \<Rightarrow> depth_clamp rl (int MAX_DEPTH) < int (levels_entry v ats)
   | Some r \<Rightarrow>
       (levels_entry v ats = 0 \<or> int (levels_entry v ats) \<le> depth_clamp rl (int MAX_DEPTH)) \<and> mi_message_id r = name \<and>
       get_variable_names r = {id_name i |i sp. VariableReference i sp \<in> (\<Union>p \<in> data_patterns v ats. pattern_expressions p)} \<and>
       get_function_names r = {id_name i |i args sp. FunctionReference i args sp \<in> (\<Union>p \<in> data_patterns v ats. pattern_expressions p)} \<and>
       mi_references r = references_in (\<Union>p \<in> data_patterns v ats. pattern_expressions p) \<and>
       mi_has_selectors r = selects_in (\<Union>p \<in> data_patterns v ats. pattern_expressions p)"
proof (cases "introspect_message rl name (v, ats)")
  case None
  then show ?thesis using message_returns [of rl name v ats] by (auto simp: fits_def)
next
  case (Some r)
  let ?E = "\<Union>p \<in> data_patterns v ats. pattern_expressions p"
  have f: "(\<lambda>x. (vi_name x, vi_span x)) ` mi_variables r = variables_in ?E" "mi_functions r = calls_in ?E"
    "mi_references r = references_in ?E" "mi_has_selectors r = selects_in ?E"
    using message_visits(1) [OF Some] by (simp_all add: finds_def)
  have "get_variable_names r = fst ` (\<lambda>x. (vi_name x, vi_span x)) ` mi_variables r"
    by (simp add: get_variable_names_def image_image)
  also have "\<dots> = {id_name i |i sp. VariableReference i sp \<in> ?E}" by (simp only: f(1) variables_in_names)
  finally have v: "get_variable_names r = {id_name i |i sp. VariableReference i sp \<in> ?E}" .
  have "get_function_names r = {id_name i |i args sp. FunctionReference i args sp \<in> ?E}"
    by (simp only: get_function_names_def f(2) calls_in_names)
  moreover have "fits (depth_clamp rl (int MAX_DEPTH)) 0 (levels_entry v ats)"
    using message_returns [of rl name v ats] Some by simp
  ultimately show ?thesis using v f message_visits(2) [OF Some] Some by (simp add: fits_def)
qed

end
