(* ===== verification/Bundle_Queries.thy ===== *)
theory Bundle_Queries
  imports Bundle Introspection Resource_Validation
begin

text \<open>
  The queries of \<open>runtime/bundle_queries.py\<close> that introspect entries, and the method
  \<open>validate_resource\<close> of a bundle, which validates a source against what the bundle holds.
\<close>

datatype query_error = KeyError | QueryDepthExceeded

definition introspected :: "'a option \<Rightarrow> query_error + 'a" where
  "introspected r = (case r of None \<Rightarrow> Inl QueryDepthExceeded | Some x \<Rightarrow> Inr x)"

definition message_entry :: "message_node \<Rightarrow> entry_data" where
  "message_entry n = (case n of ((i, v, ats), x) \<Rightarrow> (v, ats))"

definition term_entry :: "term_node \<Rightarrow> entry_data" where
  "term_entry n = (case n of ((i, p, ats), x) \<Rightarrow> (Some p, ats))"

definition node_name :: "(ident \<times> 'a) \<times> 'b \<Rightarrow> ustr" where
  "node_name n = id_name (fst (fst n))"

definition get_message_variables :: "platform \<Rightarrow> ustr \<Rightarrow> fluent_bundle \<Rightarrow> query_error + ustr set" where
  "get_message_variables P message_id b =
     (case od_get (b_messages b) message_id of
        None \<Rightarrow> Inl KeyError
      | Some n \<Rightarrow> introspected (extract_variables (pl_recursion_limit P) (node_name n) (message_entry n)))"

fun all_variables :: "int \<Rightarrow> (ustr, message_node) odict \<Rightarrow> query_error + (ustr, ustr set) odict" where
  "all_variables limit [] = Inr []"
| "all_variables limit ((message_id, n) # rest) =
     res_bind (introspected (extract_variables limit (node_name n) (message_entry n))) (\<lambda>vs.
       res_bind (all_variables limit rest) (\<lambda>others. Inr ((message_id, vs) # others)))"

definition get_all_message_variables :: "platform \<Rightarrow> fluent_bundle \<Rightarrow> query_error + (ustr, ustr set) odict" where
  "get_all_message_variables P b = all_variables (pl_recursion_limit P) (b_messages b)"

definition bundle_introspect_message :: "platform \<Rightarrow> ustr \<Rightarrow> fluent_bundle \<Rightarrow> query_error + message_introspection" where
  "bundle_introspect_message P message_id b =
     (case od_get (b_messages b) message_id of
        None \<Rightarrow> Inl KeyError
      | Some n \<Rightarrow> introspected (introspect_message (pl_recursion_limit P) (node_name n) (message_entry n)))"

definition bundle_introspect_term :: "platform \<Rightarrow> ustr \<Rightarrow> fluent_bundle \<Rightarrow> query_error + message_introspection" where
  "bundle_introspect_term P term_id b =
     (case od_get (b_terms b) term_id of
        None \<Rightarrow> Inl KeyError
      | Some n \<Rightarrow> introspected (introspect_message (pl_recursion_limit P) (node_name n) (term_entry n)))"

text \<open>\<open>prec\<close> is the precision of the decimal context, \<open>order\<close> the order of iteration of a set.\<close>

definition validate_in_bundle ::
    "platform \<Rightarrow> nat \<Rightarrow> (ustr set \<Rightarrow> ustr list) \<Rightarrow> ustr option \<Rightarrow> fluent_bundle \<Rightarrow> resource_error + validation_result" where
  "validate_in_bundle P prec order src b =
     validate_source prec (pl_recursion_limit P) order (b_parser b) (Some (set (od_keys (b_messages b))))
       (Some (set (od_keys (b_terms b)))) (Some (od_get (b_msg_deps b))) (Some (od_get (b_term_deps b))) src"

end
