(* ===== verification/Validation_Theorems.thy ===== *)
theory Validation_Theorems
  imports Introspection_Properties Bundle_Queries "HOL-Library.List_Lexorder"
begin

text \<open>
  The properties of validation and introspection that span components: a validation returns, a
  resource that is validated against a bundle and then added leaves no reference of the bundle
  undefined, and the variables that introspection names are enough to format a message.
\<close>

section \<open>A validation returns\<close>

lemma semantic_shape: "semantic_validate prec rl r = Inr sem \<Longrightarrow> vr_errors sem = []"
  by (auto simp: semantic_validate_def from_annotations_def map_sum_def split: sum.splits)

text \<open>C19: validating a source, with a parser whose nesting limit is at most the depth limit, as that
  of the default parser is, either returns, and then it reports an error exactly when the parser
  found junk and is valid exactly when there is no junk and every entry satisfies the rules of
  the specification; or it raises \<open>ValueError\<close> for a source over the size limit, or the
  depth error of the traversal.\<close>

theorem validation_returns:
  assumes "parser_nesting_depth S \<le> depth_clamp rl (int MAX_DEPTH)"
  shows "case validate_source prec rl order S km kt kmd ktd (Some s) of
     Inl e \<Rightarrow> e = VisitorDepthExceeded \<or>
       e = ValidationRaises ValueError \<and> 0 < max_source_size S \<and> max_source_size S < int (length s)
   | Inr res \<Rightarrow> \<exists>r. parse S s = Returns r \<and> (vr_errors res = [] \<longleftrightarrow> \<not> list_ex is_junk (entries r)) \<and>
       (is_valid_result res \<longleftrightarrow> \<not> list_ex is_junk (entries r) \<and> list_all (valid_entry prec) (entries r))"
proof (cases rule: parse_cases [of S s])
  case too_large
  then show ?thesis by (simp add: validate_source_def)
next
  case (parsed r)
  obtain sem where sem: "semantic_validate prec rl r = Inr sem"
      "is_valid_result sem \<longleftrightarrow> list_all (valid_entry prec) (entries r)"
    using parsed_resource_validates [OF parsed(2) assms] by blast
  have src: "validate_source prec rl order S km kt kmd ktd (Some s) =
      validate_parsed prec rl order km kt kmd ktd s r"
    using parsed(2) by (simp add: validate_source_def)
  show ?thesis
  proof (cases rule: validate_parsed_cases [of prec rl order km kt kmd ktd s r])
    case deep
    then show ?thesis by (simp add: src)
  next
    case (semantic e)
    then show ?thesis using sem by simp
  next
    case (validated lc col refs ws sem')
    then show ?thesis using sem semantic_shape [OF sem(1)] parsed(2)
      by (auto simp: src is_valid_result_def extract_syntax_errors_empty)
  qed
qed

definition witness_parser :: fluent_parser where
  "witness_parser = \<lparr>max_source_size = 1000, max_parse_errors = 10, parser_nesting_depth = 3\<rparr>"

theorem validation_returns_witness:
  "case validate_source 28 1000 sorted_list_of_set witness_parser None None None None (Some (u ''m = { $n }'')) of
     Inl e \<Rightarrow> e = VisitorDepthExceeded \<or> e = ValidationRaises ValueError \<and> (1000 :: int) < 11
   | Inr res \<Rightarrow> \<exists>r. parse witness_parser (u ''m = { $n }'') = Returns r"
  using validation_returns [of witness_parser 1000 "u ''m = { $n }''" 28 sorted_list_of_set None None None None]
  by (auto simp: witness_parser_def depth_clamp_def MAX_DEPTH_def u_def split: sum.splits)

section \<open>A validated resource\<close>

text \<open>No warning of an undefined reference.\<close>

definition no_undefined :: "validation_result \<Rightarrow> bool" where
  "no_undefined res \<longleftrightarrow> list_all (\<lambda>w. vw_code w \<noteq> undefined_code) (vr_warnings res)"

lemma undefined_codes:
  assumes "undefined_in limit order lc ms ts subject es = Some ws"
  shows "list_all (\<lambda>w. vw_code w = undefined_code) ws"
  using assms
proof (induction es arbitrary: ws)
  case (Cons x es)
  then show ?case
    by (cases x) (fastforce simp: Let_def undefined_among_def undefined_warning_def list_all_iff split: option.splits)
qed simp

lemma check_undefined_codes:
  "check_undefined_references limit order d t lc km kt = Some ws \<Longrightarrow> list_all (\<lambda>w. vw_code w = undefined_code) ws"
  by (auto simp: check_undefined_references_def Let_def split: option.splits dest!: undefined_codes)

lemma no_undefined_refs:
  assumes "check_undefined_references limit order d t lc km kt = Some refs" "\<forall>w \<in> set ws. vw_code w \<noteq> undefined_code"
  shows "no_undefined \<lparr>vr_errors = es, vr_warnings = col_warnings (collect_entries r lc' km' kt') @ refs @ ws,
      vr_annotations = ans\<rparr> \<longleftrightarrow> refs = []"
  using check_undefined_codes [OF assms(1)] assms(2) collection_codes [of r lc' km' kt']
  by (cases refs) (auto simp: no_undefined_def list_all_iff)

text \<open>C18: a validation reports no undefined reference exactly when every message and term that is
  referenced by the last definition of an entry, in its value or an attribute, is defined in the
  source or among the known names.\<close>

theorem undefined_references_exact:
  assumes "order_ok order" "parse S s = Returns r" "validate_source prec rl order S km kt kmd ktd (Some s) = Inr res"
  shows "no_undefined res \<longleftrightarrow>
    source_closed (entries r) (known_names (last_message (entries r)) km) (known_names (last_term (entries r)) kt)"
proof -
  have val: "validate_parsed prec rl order km kt kmd ktd s r = Inr res"
    using assms(2,3) by (simp add: validate_source_def)
  show ?thesis
  proof (cases rule: validate_parsed_cases [of prec rl order km kt kmd ktd s r])
    case (validated lc col refs ws sem)
    have "no_undefined res \<longleftrightarrow> refs = []"
      using val validated(5) no_undefined_refs [OF validated(3,6)] validated(2) by auto
    also have "\<dots> \<longleftrightarrow> source_closed (entries r) (known_names (last_message (entries r)) km)
        (known_names (last_term (entries r)) kt)"
      by (rule refs_empty_iff [OF assms(1) parse_entries_wf [OF assms(2)] validated(2,3)])
    finally show ?thesis .
  qed (use val in simp_all)
qed

lemma validated_closed:
  assumes "bundle_wf P b" "closed_resolver (bundle_resolver P b)" "order_ok order"
    and "validate_in_bundle P prec order (Some s) b = Inr res" "no_undefined res"
    and "add_resource P (Some s) path b = (b', Inr junk)"
  shows "closed_resolver (bundle_resolver P b')"
proof (cases rule: parse_cases [of "b_parser b" s])
  case too_large
  then show ?thesis using assms(6) by (simp add: add_resource_def)
next
  case (parsed r)
  let ?km = "Some (set (od_keys (b_messages b)))" and ?kt = "Some (set (od_keys (b_terms b)))"
  have reg: "register_resource P (entries r) path b = (b', Inr junk)"
    using assms(6) parsed(2) by (simp add: add_resource_def)
  have val: "validate_parsed prec (pl_recursion_limit P) order ?km ?kt (Some (od_get (b_msg_deps b)))
      (Some (od_get (b_term_deps b))) s r = Inr res"
    using assms(4) parsed(2) by (simp add: validate_in_bundle_def validate_source_def)
  show ?thesis
  proof (cases rule: validate_parsed_cases [of prec "pl_recursion_limit P" order ?km ?kt
        "Some (od_get (b_msg_deps b))" "Some (od_get (b_term_deps b))" s r])
    case (validated lc col refs ws sem)
    have "refs = []"
      using val validated(5) no_undefined_refs [OF validated(3,6)] validated(2) assms(5) by auto
    then show ?thesis
      using registered_closed [OF assms(1) parse_entries_wf [OF parsed(2)] reg assms(2,3)] validated(2,3) by simp
  qed (use val in simp_all)
qed

text \<open>C17: when a source is validated against a bundle whose references are all defined, without a
  warning about an undefined reference, and is then added to it, the references of the bundle
  are still all defined, and no message of it resolves with a missing message or term.\<close>

theorem validated_resource_resolves:
  assumes "mk_bundle P babel_parse en_us shared locale iso_flag config functions sz nd es strict ctxs = (Inr b0, ctxs')"
    and "closed_resolver (bundle_resolver P (bundle_run P ops b0))" "order_ok order"
    and "validate_in_bundle P prec order (Some s) (bundle_run P ops b0) = Inr res" "no_undefined res"
    and "add_resource P (Some s) path (bundle_run P ops b0) = (b, Inr junk)"
    and "functions_report found (bundle_resolver P b)"
  shows "closed_resolver (bundle_resolver P b) \<and>
    (case get_message name b of
       None \<Rightarrow> True
     | Some (m, x) \<Rightarrow>
         (case resolve (bundle_resolver P b) g m args a of Value (t, errors) \<Rightarrow> list_all found errors | _ \<Rightarrow> True))"
proof -
  have closed: "closed_resolver (bundle_resolver P b)"
    by (rule validated_closed [OF run_wf [OF new_wf [OF assms(1)]] assms(2-6)])
  have "list_all found errors"
    if get: "get_message name b = Some (m, x)" and res: "resolve (bundle_resolver P b) g m args a = Value (t, errors)"
    for m x t errors
  proof -
    obtain s' where "resolve_message_in (bundle_resolver P b) m args a (fresh_context (bundle_resolver P b) g) =
        (Value (t, errors), s')"
      using res by (cases "resolve_message_in (bundle_resolver P b) m args a (fresh_context (bundle_resolver P b) g)")
        (simp add: resolve_def)
    moreover have "rv_messages (bundle_resolver P b) name = Some m"
      using get by (simp add: bundle_lookup get_message_def)
    moreover have "list_all found (rs_errors (fresh_context (bundle_resolver P b) g))"
      by (simp add: fresh_context_def mk_context_def)
    ultimately show ?thesis by (blast intro: resolve_message_found [OF closed assms(7)])
  qed
  with closed show ?thesis by (auto split: option.split rresult.split)
qed

definition demo_source :: ustr where
  "demo_source = u ''-t = x'' @ [CH_LF] @ u ''hello = { -t }''"

lemma entry_deps_code [code]:
  "entry_deps ms ts kms kts r =
     (\<Union>ref \<in> fst r. set_option (resolve_reference ref (u ''msg'') ms kms)) \<union>
     (\<Union>ref \<in> snd r. set_option (resolve_reference ref (u ''term'') ts kts))"
  by (auto simp: entry_deps_def elem_set)

lemma demo_checks:
  "case parse (b_parser demo_bundle) demo_source of
     Returns r \<Rightarrow>
       (let lc = mk_line_offset_cache (normalize_newlines demo_source); limit = depth_clamp 1000 (int MAX_DEPTH);
            col = collect_entries r lc (Some {}) (Some {})
        in check_undefined_references limit sorted_list_of_set (col_messages col) (col_terms col) lc (Some {}) (Some {}) = Some [] \<and>
           build_dependency_graph limit sorted_list_of_set (collected_data (col_messages col)) (collected_data (col_terms col))
             (Some {}) (Some {}) (Some Map.empty) (Some Map.empty) \<noteq> None)
   | _ \<Rightarrow> False"
  by code_simp

lemma demo_added:
  "case add_resource demo_platform (Some demo_source) None demo_bundle of
     (b, Inr junk) \<Rightarrow> (case fr_functions (b_resolver_registry b) of [] \<Rightarrow> has_message (u ''hello'') b | _ \<Rightarrow> False)
   | _ \<Rightarrow> False"
  by code_simp

lemma demo_order: "order_ok sorted_list_of_set"
  by (simp add: order_ok_def)

lemma demo_validated:
  obtains r res where "parse (b_parser demo_bundle) demo_source = Returns r"
    "validate_in_bundle demo_platform 28 sorted_list_of_set (Some demo_source) demo_bundle = Inr res" "no_undefined res"
proof -
  obtain r where r: "parse (b_parser demo_bundle) demo_source = Returns r"
    using demo_checks by (cases "parse (b_parser demo_bundle) demo_source") simp_all
  have empty: "set (od_keys (b_messages demo_bundle)) = {}" "set (od_keys (b_terms demo_bundle)) = {}"
    "od_get (b_msg_deps demo_bundle) = Map.empty" "od_get (b_term_deps demo_bundle) = Map.empty"
    by (simp_all add: demo_bundle_def od_keys_def od_get_empty)
  have val: "validate_in_bundle demo_platform 28 sorted_list_of_set (Some demo_source) demo_bundle =
      validate_parsed 28 1000 sorted_list_of_set (Some {}) (Some {}) (Some Map.empty) (Some Map.empty) demo_source r"
    using r by (simp add: validate_in_bundle_def validate_source_def empty demo_platform_def)
  have "parser_nesting_depth (b_parser demo_bundle) \<le> depth_clamp 1000 (int MAX_DEPTH)"
    by (simp add: demo_bundle_def depth_clamp_def MAX_DEPTH_def)
  from parsed_resource_validates [OF r this, of 28] obtain sem where sem: "semantic_validate 28 1000 r = Inr sem" by blast
  show thesis
  proof (cases rule: validate_parsed_cases [of 28 1000 sorted_list_of_set "Some {}" "Some {}" "Some Map.empty"
        "Some Map.empty" demo_source r])
    case deep
    then show thesis using demo_checks r by (simp add: Let_def)
  next
    case (semantic e)
    then show thesis using sem by simp
  next
    case (validated lc col refs ws sem')
    moreover from this have "refs = []" using demo_checks r by (simp add: Let_def)
    ultimately have "no_undefined \<lparr>vr_errors = extract_syntax_errors r lc, vr_warnings = col_warnings col @ refs @ ws,
        vr_annotations = vr_annotations sem'\<rparr>" using no_undefined_refs [OF validated(3,6)] by simp
    then show thesis by (rule that [OF r, rotated]) (simp add: val validated(5))
  qed
qed

theorem undefined_references_exact_witness:
  "\<exists>r. parse (b_parser demo_bundle) demo_source = Returns r \<and>
     source_closed (entries r) (known_names (last_message (entries r)) (Some {})) (known_names (last_term (entries r)) (Some {}))"
proof -
  obtain r res where r: "parse (b_parser demo_bundle) demo_source = Returns r"
    "validate_in_bundle demo_platform 28 sorted_list_of_set (Some demo_source) demo_bundle = Inr res" "no_undefined res"
    by (rule demo_validated)
  with undefined_references_exact [OF demo_order r(1) r(2) [unfolded validate_in_bundle_def]] show ?thesis
    by (auto simp: demo_bundle_def od_keys_def)
qed

theorem validated_resource_resolves_witness:
  "case add_resource demo_platform (Some demo_source) None demo_bundle of
     (b, Inr junk) \<Rightarrow> closed_resolver (bundle_resolver demo_platform b)
   | _ \<Rightarrow> False"
proof -
  obtain b junk where b: "add_resource demo_platform (Some demo_source) None demo_bundle = (b, Inr junk)"
      "fr_functions (b_resolver_registry b) = []"
    using demo_added by (auto split: prod.splits sum.splits list.splits)
  obtain r res where r: "validate_in_bundle demo_platform 28 sorted_list_of_set (Some demo_source) demo_bundle = Inr res"
      "no_undefined res"
    by (rule demo_validated)
  have start: "bundle_run demo_platform [] demo_bundle = demo_bundle" by (simp add: bundle_run_def)
  have empty: "closed_resolver (bundle_resolver demo_platform demo_bundle)"
    by (simp add: closed_resolver_def bundle_lookup demo_bundle_def od_get_empty)
  have clean: "functions_report found (bundle_resolver demo_platform b)"
    using b(2) by (simp add: functions_report_def registry_call_def bundle_resolver_def mk_resolver_def od_get_empty)
  from validated_resource_resolves [OF demo_bundle(1), of "[]", unfolded start, OF empty demo_order r b(1) clean] b(1)
  show ?thesis by simp
qed

section \<open>The variables of a message\<close>

lemma no_references:
  assumes "references_in E = {}"
  shows "MessageReference i a sp \<notin> E" "TermReference i a as sp \<notin> E"
proof -
  have "\<forall>e \<in> E. (case e of MessageReference i a sp \<Rightarrow> iv_references (reference_to KIND_MESSAGE i a sp)
      | TermReference i a args sp \<Rightarrow> iv_references (reference_to KIND_TERM i a sp) | _ \<Rightarrow> {}) = {}"
    using assms by (simp add: references_in_def)
  then show "MessageReference i a sp \<notin> E" "TermReference i a as sp \<notin> E"
    by (auto simp: reference_to_def dest: bspec)
qed

text \<open>C22: when the arguments provide every variable that introspection finds in a message, and it
  finds no reference, the resolution of the message reports no missing variable.\<close>

theorem introspected_variables_suffice:
  assumes "introspect_message rl name (v, ats) = Some r" "mi_references r = {}" "get_variable_names r \<subseteq> dom args"
    and "functions_report provided R" "resolve R g (i, v, ats) args a = Value (t, errors)"
  shows "list_all provided errors"
proof -
  let ?E = "\<Union>p \<in> data_patterns v ats. pattern_expressions p"
  have f: "finds \<lparr>iv_variables = mi_variables r, iv_functions = mi_functions r, iv_references = mi_references r,
      iv_has_selectors = mi_has_selectors r\<rparr> ?E" by (rule message_visits(1) [OF assms(1)])
  have refs: "references_in ?E = {}" using f assms(2) by (simp add: finds_def)
  have "get_variable_names r = fst ` (\<lambda>x. (vi_name x, vi_span x)) ` mi_variables r"
    by (simp add: get_variable_names_def image_image)
  also have "\<dots> = fst ` variables_in ?E" using f by (simp add: finds_def)
  finally have vars: "{id_name i |i sp. VariableReference i sp \<in> ?E} \<subseteq> dom args"
    using assms(3) by (simp add: variables_in_names)
  have "variables_provided R args (pattern_expressions p)" if p: "p \<in> data_patterns v ats" for p
    unfolding variables_provided_def
  proof
    fix e assume "e \<in> pattern_expressions p"
    with p have e: "e \<in> ?E" by blast
    show "case e of VariableReference i sp \<Rightarrow> args (id_name i) \<noteq> None
        | MessageReference i a sp \<Rightarrow> rv_messages R (id_name i) = None
        | TermReference i a as sp \<Rightarrow> rv_terms R (id_name i) = None | _ \<Rightarrow> True"
    proof (cases e)
      case (VariableReference i sp)
      with e have "id_name i \<in> {id_name i |i sp. VariableReference i sp \<in> ?E}" by blast
      then have "id_name i \<in> dom args" using vars by (rule subsetD [rotated])
      then show ?thesis using VariableReference by (simp add: domIff)
    next
      case (MessageReference i a sp)
      then show ?thesis using e no_references(1) [OF refs] by blast
    next
      case (TermReference i a as sp)
      then show ?thesis using e no_references(2) [OF refs] by blast
    qed simp_all
  qed
  moreover obtain s' where "resolve_message_in R (i, v, ats) args a (fresh_context R g) = (Value (t, errors), s')"
    using assms(5) by (cases "resolve_message_in R (i, v, ats) args a (fresh_context R g)") (simp add: resolve_def)
  moreover have "list_all provided (rs_errors (fresh_context R g))" by (simp add: fresh_context_def mk_context_def)
  ultimately show ?thesis by (blast intro: resolve_message_provided [OF assms(4)])
qed

definition greeting :: pattern where
  "greeting = Pattern [TextElement (u ''Hi '') None,
     PlaceableElement (Placeable (VariableReference (Identifier (u ''x'') None) None) None)] None"

lemma greeting_run:
  "case introspect_message 1000 (u ''m'') (Some greeting, []) of
     None \<Rightarrow> False | Some r \<Rightarrow> mi_references r = {} \<and> get_variable_names r = {u ''x''}"
  "case resolve (bundle_resolver demo_platform demo_bundle) 0 (Identifier (u ''m'') None, Some greeting, [])
      [u ''x'' \<mapsto> VStr (u ''Bob'')] None of Value (t, errors) \<Rightarrow> t = u ''Hi Bob'' | _ \<Rightarrow> False"
  by code_simp+

theorem introspected_variables_suffice_witness:
  "case resolve (bundle_resolver demo_platform demo_bundle) 0 (Identifier (u ''m'') None, Some greeting, [])
      [u ''x'' \<mapsto> VStr (u ''Bob'')] None of Value (t, errors) \<Rightarrow> list_all provided errors | _ \<Rightarrow> False"
proof -
  let ?R = "bundle_resolver demo_platform demo_bundle"
  obtain r where r: "introspect_message 1000 (u ''m'') (Some greeting, []) = Some r" "mi_references r = {}"
      "get_variable_names r = {u ''x''}"
    using greeting_run(1) by (auto split: option.splits)
  obtain t errors where t: "resolve ?R 0 (Identifier (u ''m'') None, Some greeting, []) [u ''x'' \<mapsto> VStr (u ''Bob'')] None =
      Value (t, errors)"
    using greeting_run(2) by (auto split: rresult.splits)
  have "functions_report provided ?R"
    by (simp add: functions_report_def registry_call_def bundle_resolver_def mk_resolver_def demo_bundle_def
        empty_registry_def od_get_empty)
  from introspected_variables_suffice [OF r(1,2) _ this t] r(3) t show ?thesis by simp
qed

end
