(* ===== verification/Localization.thy ===== *)
theory Localization
  imports Bundle_Queries
begin

text \<open>
  \<open>localization/orchestrator.py\<close> with its mixins: one bundle for each locale of the fallback
  chain, created when it is first needed.  The loader of the resources and what Babel knows are
  parameters; the callback for a fallback only observes and is the log of its calls.  The lock
  is the one of \<open>Rwlock\<close>, and an operation is one atomic step here.
\<close>

section \<open>Parameters and state\<close>

record 'l host =
  h_platform :: platform
  h_babel :: "ustr \<Rightarrow> 'l locale_parse"
  h_en_us :: 'l
  h_shared :: function_registry

text \<open>A loader gives the text, or raises \<open>FileNotFoundError\<close>, another \<open>OSError\<close> or \<open>ValueError\<close>.\<close>

datatype load_outcome = Loaded ustr | FileMissing | LoadFailed ustr

record resource_loader =
  rl_describe_path :: "ustr \<Rightarrow> ustr \<Rightarrow> ustr"
  rl_load :: "ustr \<Rightarrow> ustr \<Rightarrow> load_outcome"

datatype load_status = LOAD_SUCCESS | LOAD_NOT_FOUND | LOAD_ERROR

record load_result =
  lr_locale :: ustr
  lr_resource_id :: ustr
  lr_status :: load_status
  lr_error :: "ustr option"
  lr_source_path :: "ustr option"
  lr_junk :: "entry list"

record fallback_info =
  fb_requested_locale :: ustr
  fb_resolved_locale :: ustr
  fb_message_id :: ustr

record 'l localization =
  ln_locales :: "ustr list"
  ln_isolating :: bool
  ln_config :: "cache_config option"
  ln_has_callback :: bool
  ln_strict :: bool
  ln_bundles :: "(ustr, fluent_bundle) odict"
  ln_load_results :: "load_result list"
  ln_pending :: "(ustr, python_function) odict"
  ln_fallbacks :: "fallback_info list"
  ln_contexts :: "'l context_cache"
  ln_readings :: nat

definition primary_locale :: "'l localization \<Rightarrow> ustr" where
  "primary_locale L = hd (ln_locales L)"

type_synonym ('l, 'a) localized = "'l localization \<times> (bundle_error + 'a)"

section \<open>Bundles\<close>

fun apply_pending :: "(ustr, python_function) odict \<Rightarrow> fluent_bundle \<Rightarrow> fluent_bundle bundle_result" where
  "apply_pending [] b = (b, Inr b)"
| "apply_pending ((name, f) # rest) b =
     (case add_function name f b of
        (b, Inl e) \<Rightarrow> (b, Inl e)
      | (b, Inr _) \<Rightarrow> apply_pending rest b)"

definition create_bundle :: "'l host \<Rightarrow> ustr \<Rightarrow> 'l localization \<Rightarrow> ('l, fluent_bundle) localized" where
  "create_bundle H locale L =
     (case mk_bundle (h_platform H) (h_babel H) (h_en_us H) (h_shared H) (Some locale) (ln_isolating L) (ln_config L)
             (Inr None) None None None (ln_strict L) (ln_contexts L) of
        (Inl e, contexts) \<Rightarrow> (L\<lparr>ln_contexts := contexts\<rparr>, Inl (PyRaised e))
      | (Inr b, contexts) \<Rightarrow>
          (case apply_pending (ln_pending L) b of
             (_, Inl e) \<Rightarrow> (L\<lparr>ln_contexts := contexts\<rparr>, Inl e)
           | (_, Inr b) \<Rightarrow>
               (L\<lparr>ln_contexts := contexts, ln_bundles := od_set locale b (ln_bundles L)\<rparr>, Inr b)))"

definition get_or_create_bundle :: "'l host \<Rightarrow> ustr \<Rightarrow> 'l localization \<Rightarrow> ('l, fluent_bundle) localized" where
  "get_or_create_bundle H locale L =
     (case od_get (ln_bundles L) locale of
        Some b \<Rightarrow> (L, Inr b)
      | None \<Rightarrow> create_bundle H locale L)"

text \<open>A bundle is mutable: a call on it replaces it in the dictionary, whatever it raises.\<close>

definition on_bundle ::
    "'l host \<Rightarrow> ustr \<Rightarrow> (fluent_bundle \<Rightarrow> 'a bundle_result) \<Rightarrow> 'l localization \<Rightarrow> ('l, 'a) localized" where
  "on_bundle H locale call L =
     (case get_or_create_bundle H locale L of
        (L, Inl e) \<Rightarrow> (L, Inl e)
      | (L, Inr b) \<Rightarrow> (case call b of (b, r) \<Rightarrow> (L\<lparr>ln_bundles := od_set locale b (ln_bundles L)\<rparr>, r)))"

section \<open>Loading\<close>

definition loaded_result :: "ustr \<Rightarrow> ustr \<Rightarrow> ustr \<Rightarrow> load_status \<Rightarrow> ustr option \<Rightarrow> entry list \<Rightarrow> load_result" where
  "loaded_result locale resource_id path status error junk =
     \<lparr>lr_locale = locale, lr_resource_id = resource_id, lr_status = status, lr_error = error,
      lr_source_path = Some path, lr_junk = junk\<rparr>"

text \<open>What the handler for \<open>OSError\<close> and \<open>ValueError\<close> catches.\<close>

fun caught_by_loading :: "bundle_error \<Rightarrow> ustr option" where
  "caught_by_loading (PyRaised ValueError) = Some (u ''ValueError'')"
| "caught_by_loading (PyRaised TimeoutError) = Some (u ''TimeoutError'')"
| "caught_by_loading _ = None"

definition load_single_resource ::
    "'l host \<Rightarrow> ustr \<Rightarrow> ustr \<Rightarrow> resource_loader \<Rightarrow> 'l localization \<Rightarrow> ('l, load_result) localized" where
  "load_single_resource H locale resource_id loader L =
     (let path = rl_describe_path loader locale resource_id;
          outcome = loaded_result locale resource_id path
      in case rl_load loader locale resource_id of
           FileMissing \<Rightarrow> (L, Inr (outcome LOAD_NOT_FOUND None []))
         | LoadFailed error \<Rightarrow> (L, Inr (outcome LOAD_ERROR (Some error) []))
         | Loaded s \<Rightarrow>
             (case on_bundle H locale (add_resource (h_platform H) (Some s) (Some path)) L of
                (L, Inr junk) \<Rightarrow> (L, Inr (outcome LOAD_SUCCESS None junk))
              | (L, Inl e) \<Rightarrow>
                  (case caught_by_loading e of
                     Some name \<Rightarrow> (L, Inr (outcome LOAD_ERROR (Some name) []))
                   | None \<Rightarrow> (L, Inl e))))"

fun load_resources ::
    "'l host \<Rightarrow> resource_loader \<Rightarrow> (ustr \<times> ustr) list \<Rightarrow> 'l localization \<Rightarrow> ('l, unit) localized" where
  "load_resources H loader [] L = (L, Inr ())"
| "load_resources H loader ((locale, resource_id) # rest) L =
     (case load_single_resource H locale resource_id loader L of
        (L, Inl e) \<Rightarrow> (L, Inl e)
      | (L, Inr result) \<Rightarrow>
          load_resources H loader rest (L\<lparr>ln_load_results := ln_load_results L @ [result]\<rparr>))"

section \<open>Construction\<close>

fun validate_locales :: "ustr option list \<Rightarrow> py_error + ustr list" where
  "validate_locales [] = Inr []"
| "validate_locales (l # ls) =
     res_bind (require_locale_code l) (\<lambda>code. res_bind (validate_locales ls) (\<lambda>codes. Inr (code # codes)))"

fun strict_locales ::
    "'l host \<Rightarrow> ustr list \<Rightarrow> 'l context_cache \<Rightarrow> (py_error + ustr list) \<times> 'l context_cache" where
  "strict_locales H [] contexts = (Inr [], contexts)"
| "strict_locales H (l # ls) contexts =
     (case create_or_raise (h_babel H) (h_en_us H) (Some l) contexts of
        (Inl e, contexts) \<Rightarrow> (Inl e, contexts)
      | (Inr ctx, contexts) \<Rightarrow>
          (case strict_locales H ls contexts of
             (r, contexts) \<Rightarrow> (res_bind r (\<lambda>codes. Inr (lc_locale_code ctx # codes)), contexts)))"

text \<open>\<open>tuple(dict.fromkeys(xs))\<close>\<close>

definition dict_fromkeys :: "'a list \<Rightarrow> 'a list" where
  "dict_fromkeys xs = foldl (\<lambda>acc x. if x \<in> set acc then acc else acc @ [x]) [] xs"

definition mk_localization ::
    "'l host \<Rightarrow> ustr option list \<Rightarrow> ustr list \<Rightarrow> resource_loader option \<Rightarrow> bool \<Rightarrow> cache_config option \<Rightarrow> bool \<Rightarrow> bool \<Rightarrow>
     'l context_cache \<Rightarrow> (bundle_error + 'l localization) \<times> 'l context_cache" where
  "mk_localization H locales resource_ids loader isolating config has_callback strict contexts =
     (if locales = [] then (Inl (PyRaised ValueError), contexts)
      else if resource_ids \<noteq> [] \<and> loader = None then (Inl (PyRaised ValueError), contexts)
      else
        (case validate_locales locales of
           Inl e \<Rightarrow> (Inl (PyRaised e), contexts)
         | Inr codes \<Rightarrow>
             (case strict_locales H codes contexts of
                (Inl e, contexts) \<Rightarrow> (Inl (PyRaised e), contexts)
              | (Inr codes, contexts) \<Rightarrow>
                  let L = \<lparr>ln_locales = dict_fromkeys codes, ln_isolating = isolating, ln_config = config,
                           ln_has_callback = has_callback, ln_strict = strict, ln_bundles = [], ln_load_results = [],
                           ln_pending = [], ln_fallbacks = [], ln_contexts = contexts, ln_readings = 0\<rparr>
                  in case loader of
                       None \<Rightarrow> (Inr L, contexts)
                     | Some ld \<Rightarrow>
                         (case load_resources H ld (List.product (ln_locales L) resource_ids) L of
                            (L, Inl e) \<Rightarrow> (Inl e, ln_contexts L)
                          | (L, Inr _) \<Rightarrow> (Inr L, ln_contexts L)))))"

section \<open>Resources, functions and caches\<close>

definition in_chain :: "ustr option \<Rightarrow> 'l localization \<Rightarrow> py_error + ustr" where
  "in_chain locale L =
     res_bind (require_locale_code locale) (\<lambda>code. if code \<in> set (ln_locales L) then Inr code else Inl ValueError)"

definition localized_add_resource ::
    "'l host \<Rightarrow> ustr option \<Rightarrow> ustr option \<Rightarrow> 'l localization \<Rightarrow> ('l, entry list) localized" where
  "localized_add_resource H locale src L =
     (case in_chain locale L of
        Inl e \<Rightarrow> (L, Inl (PyRaised e))
      | Inr code \<Rightarrow> on_bundle H code (add_resource (h_platform H) src None) L)"

definition localized_add_stream ::
    "'l host \<Rightarrow> ustr option \<Rightarrow> ustr list \<Rightarrow> ustr option \<Rightarrow> 'l localization \<Rightarrow> ('l, entry list) localized" where
  "localized_add_stream H locale lines path L =
     (case in_chain locale L of
        Inl e \<Rightarrow> (L, Inl (PyRaised e))
      | Inr code \<Rightarrow> on_bundle H code (add_resource_stream (h_platform H) lines path) L)"

text \<open>The function is added to the existing bundles in the order of their creation; the first one
  that raises ends the loop.\<close>

fun add_to_bundles ::
    "ustr \<Rightarrow> python_function \<Rightarrow> (ustr, fluent_bundle) odict \<Rightarrow> (ustr, fluent_bundle) odict \<times> (bundle_error + unit)" where
  "add_to_bundles name f [] = ([], Inr ())"
| "add_to_bundles name f ((locale, b) # rest) =
     (case add_function name f b of
        (b, Inl e) \<Rightarrow> ((locale, b) # rest, Inl e)
      | (b, Inr _) \<Rightarrow> (case add_to_bundles name f rest of (rest, r) \<Rightarrow> ((locale, b) # rest, r)))"

definition localized_add_function :: "ustr \<Rightarrow> python_function \<Rightarrow> 'l localization \<Rightarrow> ('l, unit) localized" where
  "localized_add_function name f L =
     (case add_to_bundles name f (ln_bundles L) of
        (bundles, r) \<Rightarrow> (L\<lparr>ln_pending := od_set name f (ln_pending L), ln_bundles := bundles\<rparr>, r))"

definition localized_clear_cache :: "'l localization \<Rightarrow> 'l localization" where
  "localized_clear_cache L = L\<lparr>ln_bundles := map (\<lambda>(locale, b). (locale, clear_bundle_cache b)) (ln_bundles L)\<rparr>"

section \<open>Formatting\<close>

text \<open>An error of the localization itself; \<open>shown\<close> is \<open>str(message_id)\<close>.\<close>

definition localization_context :: "'l host \<Rightarrow> ustr \<Rightarrow> 'l localization \<Rightarrow> integrity_context \<times> 'l localization" where
  "localization_context H key L =
     (\<lparr>ic_component = u ''localization'', ic_operation = u ''format_pattern'', ic_key = key,
       ic_expected = u ''<no errors>'', ic_actual = u ''<1 error>'',
       ic_timestamp = pl_clock (h_platform H) (ln_readings L), ic_wall_time = pl_clock (h_platform H) (ln_readings L + 1)\<rparr>,
      L\<lparr>ln_readings := ln_readings L + 2\<rparr>)"

definition fallback_result ::
    "'l host \<Rightarrow> ustr \<Rightarrow> ustr \<Rightarrow> ustr \<Rightarrow> error_category \<Rightarrow> string \<Rightarrow> 'l localization \<Rightarrow> ('l, format_output) localized" where
  "fallback_result H shown fallback message category code L =
     (case mk_fluent_error (pl_hash (h_platform H)) message category (Some (mk_diagnostic code message None)) None of
        Inl e \<Rightarrow> (L, Inl (PyRaised e))
      | Inr e \<Rightarrow>
          if ln_strict L then
            (let (ctx, L) = localization_context H shown L
             in (L, Inl (FormattingIntegrityError
                   (u ''Strict mode: '' @ quoted shown @ u '' failed: '' @ fe_message e) ctx [e] fallback shown)))
          else (L, Inr (fallback, [e])))"

definition handle_message_not_found ::
    "'l host \<Rightarrow> ustr \<Rightarrow> ustr option \<Rightarrow> 'l localization \<Rightarrow> ('l, format_output) localized" where
  "handle_message_not_found H shown message_id L =
     (case message_id of
        Some mid \<Rightarrow>
          if mid \<noteq> [] then
            fallback_result H shown (fallback_message mid) (u ''Message '' @ quoted mid @ u '' not found in any locale'')
              REFERENCE ''MESSAGE_NOT_FOUND'' L
          else
            fallback_result H shown FALLBACK_INVALID (u ''Empty or invalid message ID'') REFERENCE ''MESSAGE_NOT_FOUND'' L
      | None \<Rightarrow>
          fallback_result H shown FALLBACK_INVALID (u ''Empty or invalid message ID'') REFERENCE ''MESSAGE_NOT_FOUND'' L)"

definition has_requested :: "ustr option \<Rightarrow> fluent_bundle \<Rightarrow> bool" where
  "has_requested message_id b = (case message_id of None \<Rightarrow> False | Some mid \<Rightarrow> has_message mid b)"

text \<open>The error of a bundle is raised again with the component of the localization.\<close>

fun relocalized :: "bundle_error \<Rightarrow> bundle_error" where
  "relocalized (FormattingIntegrityError message ctx es fallback mid) =
     FormattingIntegrityError message (ctx\<lparr>ic_component := u ''localization''\<rparr>) es fallback mid"
| "relocalized e = e"

definition note_fallback :: "ustr \<Rightarrow> ustr option \<Rightarrow> 'l localization \<Rightarrow> 'l localization" where
  "note_fallback locale message_id L =
     (case message_id of
        Some mid \<Rightarrow>
          if ln_has_callback L \<and> locale \<noteq> primary_locale L then
            L\<lparr>ln_fallbacks := ln_fallbacks L @
              [\<lparr>fb_requested_locale = primary_locale L, fb_resolved_locale = locale, fb_message_id = mid\<rparr>]\<rparr>
          else L
      | None \<Rightarrow> L)"

fun format_chain ::
    "'l host \<Rightarrow> int \<Rightarrow> ustr \<Rightarrow> request \<Rightarrow> ustr list \<Rightarrow> 'l localization \<Rightarrow> ('l, format_output) localized" where
  "format_chain H g shown rq [] L = handle_message_not_found H shown (rq_message rq) L"
| "format_chain H g shown rq (locale # rest) L =
     (case get_or_create_bundle H locale L of
        (L, Inl e) \<Rightarrow> (L, Inl e)
      | (L, Inr b) \<Rightarrow>
          if \<not> has_requested (rq_message rq) b then format_chain H g shown rq rest L
          else
            (case on_bundle H locale (format_pattern (h_platform H) g rq) L of
               (L, Inl e) \<Rightarrow> (L, Inl (relocalized e))
             | (L, Inr out) \<Rightarrow> (note_fallback locale (rq_message rq) L, Inr out)))"

definition localized_format_pattern ::
    "'l host \<Rightarrow> int \<Rightarrow> ustr \<Rightarrow> request \<Rightarrow> 'l localization \<Rightarrow> ('l, format_output) localized" where
  "localized_format_pattern H g shown rq L =
     (case rq_args rq of
        Inl arg_type \<Rightarrow>
          fallback_result H shown FALLBACK_INVALID (u ''Invalid args type: expected Mapping or None, got '' @ arg_type)
            RESOLUTION ''INVALID_ARGUMENT'' L
      | Inr args \<Rightarrow>
          (case rq_attribute rq of
             Inl attribute_type \<Rightarrow>
               fallback_result H shown FALLBACK_INVALID
                 (u ''Invalid attribute type: expected str or None, got '' @ attribute_type)
                 RESOLUTION ''INVALID_ARGUMENT'' L
           | Inr attribute \<Rightarrow> format_chain H g shown rq (ln_locales L) L))"

definition localized_format_value ::
    "'l host \<Rightarrow> int \<Rightarrow> ustr \<Rightarrow> ustr option \<Rightarrow> ustr + (ustr \<times> fvalue) list option \<Rightarrow> 'l localization \<Rightarrow>
     ('l, format_output) localized" where
  "localized_format_value H g shown message_id args L =
     localized_format_pattern H g shown \<lparr>rq_message = message_id, rq_args = args, rq_attribute = Inr None\<rparr> L"

section \<open>Queries along the chain\<close>

text \<open>The first bundle of the chain for which the query gives a result.\<close>

fun first_in_chain ::
    "'l host \<Rightarrow> (fluent_bundle \<Rightarrow> 'a option) \<Rightarrow> ustr list \<Rightarrow> 'l localization \<Rightarrow> ('l, 'a option) localized" where
  "first_in_chain H query [] L = (L, Inr None)"
| "first_in_chain H query (locale # rest) L =
     (case get_or_create_bundle H locale L of
        (L, Inl e) \<Rightarrow> (L, Inl e)
      | (L, Inr b) \<Rightarrow> (case query b of Some x \<Rightarrow> (L, Inr (Some x)) | None \<Rightarrow> first_in_chain H query rest L))"

definition yes :: "bool \<Rightarrow> unit option" where
  "yes b = (if b then Some () else None)"

definition localized_has_message :: "'l host \<Rightarrow> ustr \<Rightarrow> 'l localization \<Rightarrow> ('l, bool) localized" where
  "localized_has_message H message_id L =
     (case first_in_chain H (\<lambda>b. yes (has_message message_id b)) (ln_locales L) L of
        (L, r) \<Rightarrow> (L, map_sum id (\<lambda>x. x \<noteq> None) r))"

definition localized_has_attribute :: "'l host \<Rightarrow> ustr \<Rightarrow> ustr \<Rightarrow> 'l localization \<Rightarrow> ('l, bool) localized" where
  "localized_has_attribute H message_id attribute L =
     (case first_in_chain H (\<lambda>b. yes (has_attribute message_id attribute b)) (ln_locales L) L of
        (L, r) \<Rightarrow> (L, map_sum id (\<lambda>x. x \<noteq> None) r))"

definition localized_get_message :: "'l host \<Rightarrow> ustr \<Rightarrow> 'l localization \<Rightarrow> ('l, message_node option) localized" where
  "localized_get_message H message_id L = first_in_chain H (get_message message_id) (ln_locales L) L"

definition localized_get_term :: "'l host \<Rightarrow> ustr \<Rightarrow> 'l localization \<Rightarrow> ('l, term_node option) localized" where
  "localized_get_term H term_id L = first_in_chain H (get_term term_id) (ln_locales L) L"

text \<open>The results of the chain from all bundles, the first locale of each name.\<close>

fun all_bundles :: "'l host \<Rightarrow> ustr list \<Rightarrow> 'l localization \<Rightarrow> ('l, fluent_bundle list) localized" where
  "all_bundles H [] L = (L, Inr [])"
| "all_bundles H (locale # rest) L =
     (case get_or_create_bundle H locale L of
        (L, Inl e) \<Rightarrow> (L, Inl e)
      | (L, Inr b) \<Rightarrow>
          (case all_bundles H rest L of (L, r) \<Rightarrow> (L, map_sum id (\<lambda>bs. b # bs) r)))"

definition get_bundles :: "'l host \<Rightarrow> 'l localization \<Rightarrow> ('l, fluent_bundle list) localized" where
  "get_bundles H L = all_bundles H (ln_locales L) L"

definition localized_message_ids :: "'l host \<Rightarrow> 'l localization \<Rightarrow> ('l, ustr list) localized" where
  "localized_message_ids H L =
     (case all_bundles H (ln_locales L) L of
        (L, r) \<Rightarrow> (L, map_sum id (\<lambda>bs. dict_fromkeys (concat (map get_message_ids bs))) r))"

end
