(* ===== verification/Path_Loader.thy ===== *)
theory Path_Loader
  imports Localization "HOL-Library.Sublist"
begin

text \<open>
  \<open>PathResourceLoader\<close> of \<open>localization/loading.py\<close>.  Paths are those of \<open>pathlib\<close> on POSIX: the
  list of the parts, the root first.  What the file system does, resolving links and reading a
  file, is a parameter.
\<close>

section \<open>Paths\<close>

type_synonym path = "ustr list"

record file_system =
  fs_cwd :: path
  fs_resolve :: "path \<Rightarrow> path"
  fs_read :: "path \<Rightarrow> load_outcome"

text \<open>\<open>s.split("/")\<close>\<close>

definition split_slash :: "ustr \<Rightarrow> ustr list" where
  "split_slash s = foldr (\<lambda>c acc. if c = CH_SLASH then [] # acc else (c # hd acc) # tl acc) s [[]]"

text \<open>\<open>Path(s)\<close>: two leading slashes are a root of their own, three or more are one.\<close>

definition path_root :: "ustr \<Rightarrow> path" where
  "path_root s =
     (if prefix [CH_SLASH, CH_SLASH] s \<and> \<not> prefix [CH_SLASH, CH_SLASH, CH_SLASH] s then [[CH_SLASH, CH_SLASH]]
      else if prefix [CH_SLASH] s then [[CH_SLASH]]
      else [])"

definition path_parts :: "ustr \<Rightarrow> path" where
  "path_parts s = filter (\<lambda>p. p \<noteq> [] \<and> p \<noteq> [CH_DOT]) (split_slash s)"

definition path_of :: "ustr \<Rightarrow> path" where
  "path_of s = path_root s @ path_parts s"

definition path_join :: "path \<Rightarrow> ustr \<Rightarrow> path" where
  "path_join base s = (if path_root s \<noteq> [] then path_of s else base @ path_parts s)"

definition is_absolute :: "ustr \<Rightarrow> bool" where
  "is_absolute s \<longleftrightarrow> path_root s \<noteq> []"

section \<open>Templates\<close>

definition LOCALE_PLACEHOLDER :: ustr where
  "LOCALE_PLACEHOLDER = u ''{locale}''"

text \<open>\<open>s.replace("{locale}", code)\<close>\<close>

fun replace_locale :: "ustr \<Rightarrow> ustr \<Rightarrow> ustr" where
  "replace_locale code [] = []"
| "replace_locale code (c # cs) =
     (if prefix LOCALE_PLACEHOLDER (c # cs) then code @ replace_locale code (drop (length LOCALE_PLACEHOLDER - 1) cs)
      else c # replace_locale code cs)"

text \<open>\<open>s.split("{locale}")[0]\<close>\<close>

fun before_locale :: "ustr \<Rightarrow> ustr" where
  "before_locale [] = []"
| "before_locale (c # cs) = (if prefix LOCALE_PLACEHOLDER (c # cs) then [] else c # before_locale cs)"

definition has_placeholder :: "ustr \<Rightarrow> bool" where
  "has_placeholder s \<longleftrightarrow> sublist LOCALE_PLACEHOLDER s"

definition strip_separators :: "ustr \<Rightarrow> ustr" where
  "strip_separators s = rev (dropWhile (\<lambda>c. c = CH_SLASH \<or> c = CH_BACKSLASH) (rev s))"

section \<open>The loader\<close>

record path_loader =
  px_base_path :: ustr
  px_root :: path

text \<open>\<open>__post_init__\<close>\<close>

definition mk_path_loader :: "file_system \<Rightarrow> ustr \<Rightarrow> ustr option \<Rightarrow> py_error + path_loader" where
  "mk_path_loader fs base_path root_dir =
     (if \<not> has_placeholder base_path then Inl ValueError
      else
        (let root = (case root_dir of
                       Some d \<Rightarrow> fs_resolve fs (path_of d)
                     | None \<Rightarrow>
                         let static_prefix = strip_separators (before_locale base_path)
                         in if static_prefix \<noteq> [] then fs_resolve fs (path_of static_prefix)
                            else fs_resolve fs (fs_cwd fs))
         in Inr \<lparr>px_base_path = base_path, px_root = root\<rparr>))"

definition validate_resource_id :: "ustr \<Rightarrow> py_error + unit" where
  "validate_resource_id resource_id =
     (if py_strip resource_id \<noteq> resource_id then Inl ValueError
      else if is_absolute resource_id then Inl ValueError
      else if sublist [CH_DOT, CH_DOT] resource_id then Inl ValueError
      else if prefix [CH_SLASH] resource_id \<or> prefix [CH_BACKSLASH] resource_id then Inl ValueError
      else Inr ())"

definition is_safe_path :: "file_system \<Rightarrow> path \<Rightarrow> path \<Rightarrow> bool" where
  "is_safe_path fs base_dir full_path \<longleftrightarrow> prefix (fs_resolve fs base_dir) (fs_resolve fs full_path)"

definition describe_path :: "path_loader \<Rightarrow> ustr option \<Rightarrow> ustr \<Rightarrow> py_error + ustr" where
  "describe_path X locale resource_id =
     res_bind (require_locale_code locale) (\<lambda>code.
       Inr (replace_locale code (px_base_path X) @ [CH_SLASH] @ resource_id))"

text \<open>The path that \<open>load\<close> reads.\<close>

definition load_target :: "file_system \<Rightarrow> path_loader \<Rightarrow> ustr option \<Rightarrow> ustr \<Rightarrow> py_error + path" where
  "load_target fs X locale resource_id =
     res_bind (require_locale_code locale) (\<lambda>code.
       res_bind (validate_resource_id resource_id) (\<lambda>_.
         let locale_path = replace_locale code (px_base_path X);
             base_dir = fs_resolve fs (path_of locale_path);
             full_path = fs_resolve fs (path_join base_dir resource_id)
         in if \<not> is_safe_path fs (px_root X) full_path then Inl ValueError else Inr full_path))"

definition path_load :: "file_system \<Rightarrow> path_loader \<Rightarrow> ustr option \<Rightarrow> ustr \<Rightarrow> py_error + load_outcome" where
  "path_load fs X locale resource_id = map_sum id (fs_read fs) (load_target fs X locale resource_id)"

text \<open>As the loader of a localization, which only asks for canonical locales; of the two
  exceptions \<open>load\<close> raises itself, only \<open>ValueError\<close> can occur then.\<close>

definition path_resource_loader :: "file_system \<Rightarrow> path_loader \<Rightarrow> resource_loader" where
  "path_resource_loader fs X =
     \<lparr>rl_describe_path = (\<lambda>locale resource_id.
        case describe_path X (Some locale) resource_id of Inr s \<Rightarrow> s | Inl e \<Rightarrow> []),
      rl_load = (\<lambda>locale resource_id.
        case path_load fs X (Some locale) resource_id of Inr r \<Rightarrow> r | Inl e \<Rightarrow> LoadFailed (u ''ValueError''))\<rparr>"

section \<open>Containment\<close>

text \<open>C16: the loader reads a file only below its root directory, and only for a valid locale and a
  resource identifier without a parent step, a leading separator or blanks around it, if resolving a
  path leaves a resolved path as it is; everything else it rejects.\<close>

theorem path_load_contained:
  assumes "mk_path_loader fs base_path root_dir = Inr X" and "\<And>p. fs_resolve fs (fs_resolve fs p) = fs_resolve fs p"
  shows "case load_target fs X locale resource_id of
      Inl e \<Rightarrow> (e = ValueError \<or> e = TypeError) \<and> path_load fs X locale resource_id = Inl e
    | Inr p \<Rightarrow>
        prefix (px_root X) p \<and> path_load fs X locale resource_id = Inr (fs_read fs p) \<and>
        isl (require_locale_code locale) = False \<and> py_strip resource_id = resource_id \<and>
        \<not> sublist (u ''..'') resource_id \<and> \<not> is_absolute resource_id \<and> \<not> prefix [CH_BACKSLASH] resource_id"
proof -
  have root: "fs_resolve fs (px_root X) = px_root X"
    using assms by (auto simp: mk_path_loader_def Let_def split: if_splits option.splits)
  have "require_locale_code locale = Inl e \<Longrightarrow> e = ValueError \<or> e = TypeError" for e
    by (auto simp: require_locale_code_def Let_def split: option.splits if_splits)
  moreover have "validate_resource_id resource_id = Inl e \<Longrightarrow> e = ValueError" for e
    by (auto simp: validate_resource_id_def split: if_splits)
  ultimately show ?thesis
    using root assms(2)
    by (auto simp: load_target_def path_load_def Let_def res_bind_def is_safe_path_def validate_resource_id_def
        u_def split: sum.splits if_splits)
qed

definition demo_files :: file_system where
  "demo_files = \<lparr>fs_cwd = [u ''/'', u ''srv''],
     fs_resolve = (\<lambda>p. if prefix [u ''/''] p then p else [u ''/'', u ''srv''] @ p),
     fs_read = (\<lambda>p. if p = [u ''/'', u ''srv'', u ''locales'', u ''en'', u ''main.ftl''] then Loaded (u ''hello = Hi'')
       else FileMissing)\<rparr>"

lemma demo_path_loader:
  "mk_path_loader demo_files (u ''locales/{locale}'') None =
     Inr \<lparr>px_base_path = u ''locales/{locale}'', px_root = [u ''/'', u ''srv'', u ''locales'']\<rparr>"
  by code_simp

theorem path_load_contained_witness:
  "case load_target demo_files \<lparr>px_base_path = u ''locales/{locale}'', px_root = [u ''/'', u ''srv'', u ''locales'']\<rparr>
      (Some (u ''en'')) (u ''main.ftl'') of
      Inl e \<Rightarrow> e = ValueError \<or> e = TypeError
    | Inr p \<Rightarrow> prefix [u ''/'', u ''srv'', u ''locales''] p"
  using path_load_contained [OF demo_path_loader, of "Some (u ''en'')" "u ''main.ftl''"]
  by (auto simp: demo_files_def split: sum.splits)

end
