(* ===== verification/Localization_Boot.thy ===== *)
theory Localization_Boot
  imports Path_Loader "HOL-Library.List_Lexorder"
begin

text \<open>
  The checks of a localization when a program starts: the summary of the load results
  (\<open>localization/loading.py\<close>), \<open>require_clean\<close> and the schema validation of
  \<open>localization/orchestrator_loading.py\<close>, and \<open>LocalizationBootConfig\<close> of
  \<open>localization/boot.py\<close>.
\<close>

section \<open>Load results\<close>

definition is_success :: "load_result \<Rightarrow> bool" where
  "is_success r \<longleftrightarrow> lr_status r = LOAD_SUCCESS"

definition is_not_found :: "load_result \<Rightarrow> bool" where
  "is_not_found r \<longleftrightarrow> lr_status r = LOAD_NOT_FOUND"

definition is_error :: "load_result \<Rightarrow> bool" where
  "is_error r \<longleftrightarrow> lr_status r = LOAD_ERROR"

definition result_has_junk :: "load_result \<Rightarrow> bool" where
  "result_has_junk r \<longleftrightarrow> lr_junk r \<noteq> []"

type_synonym load_summary = "load_result list"

definition get_load_summary :: "'l localization \<Rightarrow> load_summary" where
  "get_load_summary L = ln_load_results L"

definition get_successful :: "load_summary \<Rightarrow> load_result list" where
  "get_successful rs = filter is_success rs"

definition get_not_found :: "load_summary \<Rightarrow> load_result list" where
  "get_not_found rs = filter is_not_found rs"

definition get_load_errors :: "load_summary \<Rightarrow> load_result list" where
  "get_load_errors rs = filter is_error rs"

definition get_by_locale :: "ustr \<Rightarrow> load_summary \<Rightarrow> load_result list" where
  "get_by_locale locale rs = filter (\<lambda>r. lr_locale r = locale) rs"

definition get_with_junk :: "load_summary \<Rightarrow> load_result list" where
  "get_with_junk rs = filter result_has_junk rs"

definition get_all_junk :: "load_summary \<Rightarrow> entry list" where
  "get_all_junk rs = concat (map lr_junk rs)"

definition junk_count :: "load_summary \<Rightarrow> nat" where
  "junk_count rs = sum_list (map (\<lambda>r. length (lr_junk r)) rs)"

definition all_successful :: "load_summary \<Rightarrow> bool" where
  "all_successful rs \<longleftrightarrow> get_load_errors rs = [] \<and> get_not_found rs = []"

definition all_clean :: "load_summary \<Rightarrow> bool" where
  "all_clean rs \<longleftrightarrow> get_load_errors rs = [] \<and> get_not_found rs = [] \<and> junk_count rs = 0"

text \<open>\<open>repr(summary)\<close>\<close>

definition summary_repr :: "load_summary \<Rightarrow> ustr" where
  "summary_repr rs =
     u ''LoadSummary(total='' @ dec_digits (length rs) @ u '', ok='' @ dec_digits (length (get_successful rs)) @
     u '', not_found='' @ dec_digits (length (get_not_found rs)) @
     u '', errors='' @ dec_digits (length (get_load_errors rs)) @ u '', junk='' @ dec_digits (junk_count rs) @ u '')''"

section \<open>The clean load\<close>

datatype boot_error =
    IntegrityCheckFailedError ustr integrity_context
  | LocalizationRaised bundle_error
  | SchemaDepthExceeded
  | AssertionFailed

type_synonym ('l, 'a) checked = "'l localization \<times> (boot_error + 'a)"

text \<open>An error that reads the two clocks.\<close>

definition integrity_check_failed ::
    "'l host \<Rightarrow> ustr \<Rightarrow> ustr \<Rightarrow> ustr \<Rightarrow> ustr \<Rightarrow> ustr \<Rightarrow> ustr \<Rightarrow> 'l localization \<Rightarrow> ('l, 'a) checked" where
  "integrity_check_failed H component operation message key expected actual L =
     (L\<lparr>ln_readings := ln_readings L + 2\<rparr>,
      Inl (IntegrityCheckFailedError message
        \<lparr>ic_component = component, ic_operation = operation, ic_key = key, ic_expected = expected, ic_actual = actual,
          ic_timestamp = pl_clock (h_platform H) (ln_readings L),
          ic_wall_time = pl_clock (h_platform H) (ln_readings L + 1)\<rparr>))"

definition result_key :: "load_result \<Rightarrow> ustr" where
  "result_key r =
     (case lr_source_path r of
        Some s \<Rightarrow> if s \<noteq> [] then s else lr_locale r @ [CH_SLASH] @ lr_resource_id r
      | None \<Rightarrow> lr_locale r @ [CH_SLASH] @ lr_resource_id r)"

definition describe_unclean_load_result :: "load_result \<Rightarrow> ustr \<times> ustr" where
  "describe_unclean_load_result r =
     (if is_error r then
        (result_key r,
         u ''load error ('' @ (case lr_error r of Some name \<Rightarrow> name | None \<Rightarrow> u ''UnknownError'') @ u '')'')
      else if is_not_found r then (result_key r, u ''resource not found'')
      else
        (result_key r, dec_digits (length (lr_junk r)) @
           (if length (lr_junk r) = 1 then u '' junk entry'' else u '' junk entries'')))"

definition is_unclean :: "load_result \<Rightarrow> bool" where
  "is_unclean r \<longleftrightarrow> is_error r \<or> is_not_found r \<or> result_has_junk r"

text \<open>A summary that is not clean has such a result.\<close>

definition require_clean :: "'l host \<Rightarrow> 'l localization \<Rightarrow> ('l, load_summary) checked" where
  "require_clean H L =
     (let summary = get_load_summary L; actual = summary_repr summary
      in if all_clean summary then (L, Inr summary)
         else
           (case find is_unclean summary of
              Some r \<Rightarrow>
                (case describe_unclean_load_result r of
                   (key, detail) \<Rightarrow>
                     integrity_check_failed H (u ''localization'') (u ''require_clean'')
                       (u ''Localization initialization is not clean: '' @ actual @ u ''.'' @
                        (if key \<noteq> [] \<and> detail \<noteq> [] then u '' First issue: '' @ detail @ u '' at '' @ key @ u ''.'' else []))
                       key (u ''LoadSummary(all_clean=True)'') actual L)
            | None \<Rightarrow>
                integrity_check_failed H (u ''localization'') (u ''require_clean'')
                  (u ''Localization initialization is not clean: '' @ actual @ u ''.'') []
                  (u ''LoadSummary(all_clean=True)'') actual L))"

section \<open>Schemas of messages\<close>

definition format_schema_difference :: "variable_validation \<Rightarrow> ustr" where
  "format_schema_difference v =
     (let part = (\<lambda>word names. if names = {} then []
          else [word @ u '' {'' @ str_join (u '', '') (sorted_list_of_set names) @ u ''}''])
      in str_join (u ''; '') (part (u ''missing'') (mv_missing_variables v) @ part (u ''extra'') (mv_extra_variables v)))"

definition resolve_schema_validation ::
    "'l host \<Rightarrow> ustr \<Rightarrow> ustr set \<Rightarrow> 'l localization \<Rightarrow> ('l, variable_validation option) checked" where
  "resolve_schema_validation H message_id expected L =
     (case localized_get_message H message_id L of
        (L, Inl e) \<Rightarrow> (L, Inl (LocalizationRaised e))
      | (L, Inr None) \<Rightarrow> (L, Inr None)
      | (L, Inr (Some n)) \<Rightarrow>
          (case Introspection.validate_message_variables (pl_recursion_limit (h_platform H)) (node_name n) (message_entry n)
              expected of
             None \<Rightarrow> (L, Inl SchemaDepthExceeded)
           | Some v \<Rightarrow> (L, Inr (Some v))))"

definition schema_failure :: "ustr \<Rightarrow> ustr" where
  "schema_failure detail = u ''Localization message schema validation failed: '' @ detail"

definition localized_validate_variables ::
    "'l host \<Rightarrow> ustr \<Rightarrow> ustr set \<Rightarrow> 'l localization \<Rightarrow> ('l, variable_validation) checked" where
  "localized_validate_variables H message_id expected L =
     (case resolve_schema_validation H message_id expected L of
        (L, Inl e) \<Rightarrow> (L, Inl e)
      | (L, Inr None) \<Rightarrow>
          integrity_check_failed H (u ''localization'') (u ''validate_message_variables'')
            (schema_failure (message_id @ u '': not found'')) message_id (u ''1 exact schema match'')
            (u ''missing_messages=1'') L
      | (L, Inr (Some v)) \<Rightarrow>
          if mv_is_valid v then (L, Inr v)
          else
            integrity_check_failed H (u ''localization'') (u ''validate_message_variables'')
              (schema_failure (message_id @ u '': '' @ format_schema_difference v)) message_id
              (u ''1 exact schema match'') (u ''schema_mismatches=1'') L)"

record schema_report =
  sr_results :: "variable_validation list"
  sr_mismatches :: "ustr list"
  sr_first_failure :: "ustr option"
  sr_missing :: nat
  sr_mismatched :: nat

definition empty_report :: schema_report where
  "empty_report = \<lparr>sr_results = [], sr_mismatches = [], sr_first_failure = None, sr_missing = 0, sr_mismatched = 0\<rparr>"

text \<open>\<open>first_failure or message_id\<close>\<close>

definition first_or :: "ustr option \<Rightarrow> ustr \<Rightarrow> ustr option" where
  "first_or first message_id = (case first of Some s \<Rightarrow> if s \<noteq> [] then Some s else Some message_id | None \<Rightarrow> Some message_id)"

definition report_missing :: "ustr \<Rightarrow> schema_report \<Rightarrow> schema_report" where
  "report_missing message_id R = R\<lparr>sr_first_failure := first_or (sr_first_failure R) message_id,
     sr_missing := sr_missing R + 1, sr_mismatches := sr_mismatches R @ [message_id @ u '': not found'']\<rparr>"

definition report_validation :: "ustr \<Rightarrow> variable_validation \<Rightarrow> schema_report \<Rightarrow> schema_report" where
  "report_validation message_id v R =
     (let R = R\<lparr>sr_results := sr_results R @ [v]\<rparr>
      in if mv_is_valid v then R
         else R\<lparr>sr_first_failure := first_or (sr_first_failure R) message_id, sr_mismatched := sr_mismatched R + 1,
           sr_mismatches := sr_mismatches R @ [message_id @ u '': '' @ format_schema_difference v]\<rparr>)"

fun collect_schemas ::
    "'l host \<Rightarrow> (ustr \<times> ustr set) list \<Rightarrow> schema_report \<Rightarrow> 'l localization \<Rightarrow> ('l, schema_report) checked" where
  "collect_schemas H [] R L = (L, Inr R)"
| "collect_schemas H ((message_id, expected) # rest) R L =
     (case resolve_schema_validation H message_id expected L of
        (L, Inl e) \<Rightarrow> (L, Inl e)
      | (L, Inr None) \<Rightarrow> collect_schemas H rest (report_missing message_id R) L
      | (L, Inr (Some v)) \<Rightarrow> collect_schemas H rest (report_validation message_id v R) L)"

definition schema_fragments :: "ustr list \<Rightarrow> ustr list" where
  "schema_fragments mismatches =
     (let fragments = take 3 mismatches; remaining = length mismatches - length fragments
      in fragments @ (if 0 < remaining then
           [u ''... '' @ dec_digits remaining @ (if remaining = 1 then u '' more issue'' else u '' more issues'')] else []))"

definition validate_message_schemas ::
    "'l host \<Rightarrow> (ustr \<times> ustr set) list \<Rightarrow> 'l localization \<Rightarrow> ('l, variable_validation list) checked" where
  "validate_message_schemas H schemas L =
     (case collect_schemas H schemas empty_report L of
        (L, Inl e) \<Rightarrow> (L, Inl e)
      | (L, Inr R) \<Rightarrow>
          if 0 < sr_missing R \<or> 0 < sr_mismatched R then
            integrity_check_failed H (u ''localization'') (u ''validate_message_schemas'')
              (schema_failure (str_join (u ''; '') (schema_fragments (sr_mismatches R))))
              (case sr_first_failure R of Some s \<Rightarrow> s | None \<Rightarrow> [])
              (dec_digits (length schemas) @ u '' exact schema match(es)'')
              (str_join (u '', '')
                ((if 0 < sr_missing R then [u ''missing_messages='' @ dec_digits (sr_missing R)] else []) @
                 (if 0 < sr_mismatched R then [u ''schema_mismatches='' @ dec_digits (sr_mismatched R)] else []))) L
          else (L, Inr (sr_results R)))"

section \<open>Boot\<close>

record boot_config =
  bc_locales :: "ustr option list"
  bc_resource_ids :: "ustr list"
  bc_loader :: "resource_loader option"
  bc_base_path :: "ustr option"
  bc_schemas :: "(ustr \<times> ustr set) list option"
  bc_required :: "ustr set option"
  bc_strict :: bool
  bc_isolating :: bool
  bc_cache :: "cache_config option"
  bc_has_callback :: bool
  bc_booted :: bool

text \<open>\<open>__post_init__\<close>\<close>

definition mk_boot_config :: "boot_config \<Rightarrow> py_error + boot_config" where
  "mk_boot_config C =
     (if bc_locales C = [] then Inl ValueError
      else if bc_resource_ids C = [] then Inl ValueError
      else (case (bc_loader C, bc_base_path C) of
              (None, None) \<Rightarrow> Inl ValueError
            | (Some _, Some _) \<Rightarrow> Inl ValueError
            | _ \<Rightarrow> Inr (C\<lparr>bc_booted := False\<rparr>)))"

definition resolve_loader :: "file_system \<Rightarrow> boot_config \<Rightarrow> boot_error + resource_loader" where
  "resolve_loader fs C =
     (case bc_loader C of
        Some loader \<Rightarrow> Inr loader
      | None \<Rightarrow>
          (case bc_base_path C of
             None \<Rightarrow> Inl AssertionFailed
           | Some base_path \<Rightarrow> map_sum (\<lambda>e. LocalizationRaised (PyRaised e)) (path_resource_loader fs) (mk_path_loader fs base_path None)))"

fun absent_messages :: "'l host \<Rightarrow> ustr list \<Rightarrow> 'l localization \<Rightarrow> ('l, ustr list) localized" where
  "absent_messages H [] L = (L, Inr [])"
| "absent_messages H (message_id # rest) L =
     (case localized_has_message H message_id L of
        (L, Inl e) \<Rightarrow> (L, Inl e)
      | (L, Inr found) \<Rightarrow>
          (case absent_messages H rest L of
             (L, r) \<Rightarrow> (L, map_sum id (\<lambda>absent. if found then absent else message_id # absent) r)))"

definition check_required_messages :: "'l host \<Rightarrow> ustr set option \<Rightarrow> 'l localization \<Rightarrow> ('l, unit) checked" where
  "check_required_messages H required L =
     (case required of
        None \<Rightarrow> (L, Inr ())
      | Some names \<Rightarrow>
          (case absent_messages H (sorted_list_of_set names) L of
             (L, Inl e) \<Rightarrow> (L, Inl (LocalizationRaised e))
           | (L, Inr []) \<Rightarrow> (L, Inr ())
           | (L, Inr (first # rest)) \<Rightarrow>
               integrity_check_failed H (u ''localization.boot'') (u ''required_messages'')
                 (u ''Required message(s) absent from all locales in the fallback chain: '' @
                  str_join (u '', '') (map (py_repr (pl_printable (h_platform H))) (first # rest)))
                 first (u ''message present in at least one locale'')
                 (u ''absent_messages='' @ dec_digits (length (first # rest))) L))"

definition boot_checks ::
    "'l host \<Rightarrow> boot_config \<Rightarrow> 'l localization \<Rightarrow> ('l, load_summary \<times> variable_validation list) checked" where
  "boot_checks H C L =
     (case require_clean H L of
        (L, Inl e) \<Rightarrow> (L, Inl e)
      | (L, Inr summary) \<Rightarrow>
          (case check_required_messages H (bc_required C) L of
             (L, Inl e) \<Rightarrow> (L, Inl e)
           | (L, Inr _) \<Rightarrow>
               (case bc_schemas C of
                  None \<Rightarrow> (L, Inr (summary, []))
                | Some schemas \<Rightarrow>
                    (case validate_message_schemas H schemas L of
                       (L, Inl e) \<Rightarrow> (L, Inl e)
                     | (L, Inr results) \<Rightarrow> (L, Inr (summary, results))))))"

text \<open>The localization is lost when a check raises; the shared cache of locale contexts stays.\<close>

definition boot ::
    "'l host \<Rightarrow> file_system \<Rightarrow> boot_config \<Rightarrow> 'l context_cache \<Rightarrow>
     boot_config \<times> 'l context_cache \<times> (boot_error + 'l localization \<times> load_summary \<times> variable_validation list)" where
  "boot H fs C contexts =
     (if bc_booted C then (C, contexts, Inl (LocalizationRaised (PyRaised RuntimeError)))
      else
        (let C = C\<lparr>bc_booted := True\<rparr>
         in case resolve_loader fs C of
              Inl e \<Rightarrow> (C, contexts, Inl e)
            | Inr loader \<Rightarrow>
                (case mk_localization H (bc_locales C) (bc_resource_ids C) (Some loader) (bc_isolating C) (bc_cache C)
                    (bc_has_callback C) (bc_strict C) contexts of
                   (Inl e, contexts) \<Rightarrow> (C, contexts, Inl (LocalizationRaised e))
                 | (Inr L, contexts) \<Rightarrow>
                     (case boot_checks H C L of
                        (L, Inl e) \<Rightarrow> (C, ln_contexts L, Inl e)
                      | (L, Inr (summary, results)) \<Rightarrow> (C, ln_contexts L, Inr (L, summary, results))))))"

definition boot_simple ::
    "'l host \<Rightarrow> file_system \<Rightarrow> boot_config \<Rightarrow> 'l context_cache \<Rightarrow>
     boot_config \<times> 'l context_cache \<times> (boot_error + 'l localization)" where
  "boot_simple H fs C contexts =
     (case boot H fs C contexts of (C, contexts, r) \<Rightarrow> (C, contexts, map_sum id fst r))"

end
