(* ===== verification/Localization_Invariant.thy ===== *)
theory Localization_Invariant
  imports Localization Bundle_Theorems
begin

text \<open>
  The invariant of a localization: its settings never change, and its bundles are for locales of
  the chain, in its mode and well-formed.  Every operation keeps it, a call that raises included,
  and a new localization has it.
\<close>

section \<open>Creating bundles\<close>

lemma apply_pending_content:
  "apply_pending fs b = (b', r) \<Longrightarrow>
     b_messages b' = b_messages b \<and> b_terms b' = b_terms b \<and> b_msg_deps b' = b_msg_deps b \<and>
     b_term_deps b' = b_term_deps b \<and> (\<forall>x. r = Inr x \<longrightarrow> x = b')"
proof (induction fs arbitrary: b)
  case (Cons f fs)
  obtain name g where f: "f = (name, g)" by (cases f)
  obtain c q where c: "add_function name g b = (c, q)" by (cases "add_function name g b")
  have "b_messages c = b_messages b \<and> b_terms c = b_terms b \<and> b_msg_deps c = b_msg_deps b \<and> b_term_deps c = b_term_deps b"
    using c by (auto simp: add_function_def Let_def clear_bundle_cache_def split: sum.splits if_splits)
  with Cons c f show ?case by (cases q) fastforce+
qed auto

text \<open>A bundle that is created has no entries; nothing else of the localization changes.\<close>

lemma create_bundle_cases:
  assumes "create_bundle H locale L = (L', r)"
  obtains (fails) e contexts where "r = Inl e" "L' = L\<lparr>ln_contexts := contexts\<rparr>"
  | (created) b contexts where "r = Inr b" "b_messages b = []" "b_terms b = []" "b_msg_deps b = []" "b_term_deps b = []"
      "L' = L\<lparr>ln_contexts := contexts, ln_bundles := od_set locale b (ln_bundles L)\<rparr>"
proof -
  obtain m contexts where m: "mk_bundle (h_platform H) (h_babel H) (h_en_us H) (h_shared H) (Some locale) (ln_isolating L)
      (ln_config L) (Inr None) None None None (ln_strict L) (ln_contexts L) = (m, contexts)" by force
  show ?thesis
  proof (cases m)
    case (Inl e)
    then show ?thesis using assms m by (intro fails [of "PyRaised e" contexts]) (auto simp: create_bundle_def)
  next
    case (Inr b)
    note mk = mk_bundle_cases [OF m [unfolded Inr]]
    obtain c q where c: "apply_pending (ln_pending L) b = (c, q)" by (cases "apply_pending (ln_pending L) b")
    note content = apply_pending_content [OF c]
    show ?thesis
    proof (cases q)
      case (Inl e)
      show ?thesis by (rule fails [of e contexts]) (use assms m Inr c Inl in \<open>auto simp: create_bundle_def\<close>)
    next
      case q: (Inr x)
      show ?thesis
        by (rule created [of c contexts]) (use assms m Inr c q mk content in \<open>auto simp: create_bundle_def\<close>)
    qed
  qed
qed

text \<open>Whether a bundle can be created does not depend on the bundles that exist.\<close>

definition creation_error :: "'l host \<Rightarrow> 'l localization \<Rightarrow> ustr \<Rightarrow> bundle_error \<Rightarrow> bool" where
  "creation_error H L locale e \<longleftrightarrow>
     od_get (ln_bundles L) locale = None \<and>
     (\<exists>contexts. snd (create_bundle H locale (L\<lparr>ln_contexts := contexts\<rparr>)) = Inl e)"

definition has_here :: "'l localization \<Rightarrow> ustr option \<Rightarrow> ustr \<Rightarrow> bool" where
  "has_here L message_id locale \<longleftrightarrow>
     (case od_get (ln_bundles L) locale of None \<Rightarrow> False | Some b \<Rightarrow> has_requested message_id b)"

lemma create_frame:
  "snd (create_bundle H l (L\<lparr>ln_bundles := bs, ln_contexts := c\<rparr>)) = snd (create_bundle H l (L\<lparr>ln_contexts := c\<rparr>))"
  by (simp add: create_bundle_def split: prod.split sum.split)

lemma get_or_create_cases:
  assumes "get_or_create_bundle H locale L = (L', r)"
  obtains (exists) b where "od_get (ln_bundles L) locale = Some b" "L' = L" "r = Inr b"
  | (fails) e where "r = Inl e" "creation_error H L locale e"
  | (created) b contexts where "r = Inr b" "b_messages b = []" "od_get (ln_bundles L) locale = None"
      "L' = L\<lparr>ln_contexts := contexts, ln_bundles := od_set locale b (ln_bundles L)\<rparr>"
proof (cases "od_get (ln_bundles L) locale")
  case None
  with assms have c: "create_bundle H locale L = (L', r)" by (simp add: get_or_create_bundle_def)
  then show ?thesis
  proof (cases rule: create_bundle_cases)
    case (fails e contexts)
    then have "snd (create_bundle H locale (L\<lparr>ln_contexts := ln_contexts L\<rparr>)) = Inl e" using c by simp
    then show ?thesis using None fails by (intro that(2) [of e]) (simp_all only: creation_error_def, blast)
  next
    case (created b contexts)
    then show ?thesis using None by (intro that(3))
  qed
next
  case (Some b)
  with assms show ?thesis by (intro that(1) [of b]) (auto simp: get_or_create_bundle_def)
qed

lemma fresh_has_nothing: "b_messages b = [] \<Longrightarrow> \<not> has_requested mid b"
  by (simp add: has_requested_def has_message_def od_keys_def split: option.split)

lemma created_invariant:
  assumes "od_get (ln_bundles L) locale = None" "b_messages b = []"
    and "L' = L\<lparr>ln_contexts := contexts, ln_bundles := od_set locale b (ln_bundles L)\<rparr>"
  shows "has_here L' mid l = has_here L mid l" "creation_error H L' l e \<Longrightarrow> creation_error H L l e"
proof -
  show "has_here L' mid l = has_here L mid l"
    using assms fresh_has_nothing [OF assms(2)] by (auto simp: has_here_def od_get_set split: option.split)
  show "creation_error H L' l e \<Longrightarrow> creation_error H L l e"
    using assms(1) create_frame [where L = L and H = H and l = l] by (auto simp: creation_error_def assms(3) od_get_set split: if_splits)
qed

section \<open>The invariant\<close>

definition accepted_locale :: "ustr \<Rightarrow> bool" where
  "accepted_locale l \<longleftrightarrow> require_locale_code (Some l) = Inr l"

definition bundle_ok :: "'l host \<Rightarrow> 'l localization \<Rightarrow> ustr \<Rightarrow> fluent_bundle \<Rightarrow> bool" where
  "bundle_ok H L l b \<longleftrightarrow>
     l \<in> set (ln_locales L) \<and> bundle_wf (h_platform H) b \<and> b_locale b = l \<and> b_strict b = ln_strict L \<and>
     b_isolating b = ln_isolating L \<and> (b_cache b = None \<longleftrightarrow> ln_config L = None)"

definition localization_wf :: "'l host \<Rightarrow> 'l localization \<Rightarrow> bool" where
  "localization_wf H L \<longleftrightarrow>
     ln_locales L \<noteq> [] \<and> distinct (ln_locales L) \<and> (\<forall>l \<in> set (ln_locales L). accepted_locale l) \<and>
     od_valid (ln_bundles L) \<and> (\<forall>l b. od_get (ln_bundles L) l = Some b \<longrightarrow> bundle_ok H L l b) \<and>
     context_cache_ok (ln_contexts L)"

text \<open>What an operation keeps of a localization.\<close>

definition same_settings :: "'l localization \<Rightarrow> 'l localization \<Rightarrow> bool" where
  "same_settings L L' \<longleftrightarrow>
     ln_locales L' = ln_locales L \<and> ln_isolating L' = ln_isolating L \<and> ln_config L' = ln_config L \<and>
     ln_has_callback L' = ln_has_callback L \<and> ln_strict L' = ln_strict L"

lemma same_settings_refl [simp]: "same_settings L L"
  by (simp add: same_settings_def)

lemma same_settings_trans: "same_settings L M \<Longrightarrow> same_settings M N \<Longrightarrow> same_settings L N"
  by (simp add: same_settings_def)

lemma bundle_ok_settings: "same_settings L L' \<Longrightarrow> bundle_ok H L' l b = bundle_ok H L l b"
  by (simp add: same_settings_def bundle_ok_def)

definition keeps_wf :: "'l host \<Rightarrow> 'l localization \<Rightarrow> 'l localization \<Rightarrow> bool" where
  "keeps_wf H L L' \<longleftrightarrow> same_settings L L' \<and> (localization_wf H L \<longrightarrow> localization_wf H L')"

lemma keeps_wf_refl [simp]: "keeps_wf H L L"
  by (simp add: keeps_wf_def)

lemma keeps_wf_trans: "keeps_wf H L M \<Longrightarrow> keeps_wf H M N \<Longrightarrow> keeps_wf H L N"
  by (auto simp: keeps_wf_def intro: same_settings_trans)

lemma keeps_wf_frame [simp]:
  "keeps_wf H L (L\<lparr>ln_readings := n\<rparr>)" "keeps_wf H L (L\<lparr>ln_fallbacks := fs\<rparr>)" "keeps_wf H L (L\<lparr>ln_load_results := rs\<rparr>)"
  "keeps_wf H L (L\<lparr>ln_pending := p\<rparr>)"
  by (simp_all add: keeps_wf_def same_settings_def localization_wf_def bundle_ok_def)

lemma set_bundle_wf:
  assumes "localization_wf H L" "bundle_ok H L l b"
  shows "localization_wf H (L\<lparr>ln_bundles := od_set l b (ln_bundles L)\<rparr>)"
  using assms by (simp add: localization_wf_def od.valid_set od_get_set bundle_ok_def)

text \<open>Locale contexts.\<close>

lemma create_or_raise_code:
  assumes "create_or_raise babel_parse en_us (Some l) cache = (r, cache')" "context_cache_ok cache" "accepted_locale l"
  shows "context_cache_ok cache' \<and> (\<forall>ctx. r = Inr ctx \<longrightarrow> lc_locale_code ctx = l)"
proof (cases "od_get cache l")
  case None
  have c: "canonical_code l" using require_canonical(1) assms(3) by (simp add: accepted_locale_def)
  have code: "lc_locale_code (new_locale_context babel_parse en_us l) = l"
    by (simp add: new_locale_context_def split: locale_parse.split)
  from None assms insert_context [OF assms(2) None c code] code show ?thesis
    by (auto simp: create_or_raise_def create_context_def accepted_locale_def Let_def split: locale_parse.splits)
next
  case (Some ctx)
  have "(l, ctx) \<in> set cache" using Some by (simp add: od_get_def map_of_SomeD)
  then have "lc_locale_code ctx = l" using assms(2) by (auto simp: context_cache_ok_def list_all_iff)
  with Some assms touch_context [OF assms(2) Some] show ?thesis
    by (auto simp: create_or_raise_def create_context_def accepted_locale_def split: locale_parse.splits)
qed

lemma mk_bundle_locale:
  assumes "mk_bundle P babel_parse en_us shared (Some l) iso_flag config functions sz nd es strict ctxs = (r, ctxs')"
    and "context_cache_ok ctxs" "accepted_locale l"
  shows "context_cache_ok ctxs' \<and> (\<forall>b. r = Inr b \<longrightarrow> b_locale b = l)"
proof -
  obtain q c where q: "create_or_raise babel_parse en_us (Some l) ctxs = (q, c)"
    by (cases "create_or_raise babel_parse en_us (Some l) ctxs")
  from create_or_raise_code [OF q assms(2,3)] assms(1,3) q show ?thesis
    by (cases q) (auto simp: mk_bundle_def accepted_locale_def Let_def res_bind_Inr)
qed

lemma cache_of_config: "bundle_cache_of strict config = Inr x \<Longrightarrow> x = None \<longleftrightarrow> config = None"
proof (cases config)
  case (Some cfg)
  assume "bundle_cache_of strict config = Inr x"
  with Some obtain c where "map_sum id Some c = (Inr x :: py_error + hashable cache option)"
    by (auto simp: bundle_cache_of_def)
  then show ?thesis using Some by (cases c) auto
qed (auto simp: bundle_cache_of_def)

lemma apply_pending_wf:
  "apply_pending fs b = (b', r) \<Longrightarrow> (bundle_wf P b \<longrightarrow> bundle_wf P b') \<and> same_config b b'"
proof (induction fs arbitrary: b)
  case (Cons f fs)
  obtain name g where f: "f = (name, g)" by (cases f)
  obtain c q where c: "add_function name g b = (c, q)" by (cases "add_function name g b")
  have "same_config b c" "bundle_wf P b \<longrightarrow> bundle_wf P c"
    using step_config [of b P "AddFunction name g"] add_function_wf [of P b name g] c by simp_all
  with Cons c f show ?case by (cases q) (auto intro: same_config_trans)
qed auto

lemma create_wf:
  assumes "create_bundle H l L = (L', r)" "l \<in> set (ln_locales L)"
  shows "keeps_wf H L L' \<and> (localization_wf H L \<longrightarrow> (\<forall>b. r = Inr b \<longrightarrow> bundle_ok H L' l b))"
proof -
  obtain m contexts where m: "mk_bundle (h_platform H) (h_babel H) (h_en_us H) (h_shared H) (Some l) (ln_isolating L)
      (ln_config L) (Inr None) None None None (ln_strict L) (ln_contexts L) = (m, contexts)" by force
  have set: "same_settings L L'"
    using assms(1) by (cases rule: create_bundle_cases) (simp_all add: same_settings_def)
  have "localization_wf H L' \<and> (\<forall>b. r = Inr b \<longrightarrow> bundle_ok H L' l b)" if wf: "localization_wf H L"
  proof -
    have acc: "accepted_locale l" "context_cache_ok (ln_contexts L)" using wf assms(2) by (auto simp: localization_wf_def)
    note loc = mk_bundle_locale [OF m acc(2,1)]
    have fail: "localization_wf H (L\<lparr>ln_contexts := contexts\<rparr>)"
      using wf loc by (simp add: localization_wf_def bundle_ok_def)
    show ?thesis
    proof (cases m)
      case (Inl e)
      then show ?thesis using assms(1) m fail by (auto simp: create_bundle_def)
    next
      case (Inr b)
      note mk = mk_bundle_cases [OF m [unfolded Inr]]
      obtain c q where c: "apply_pending (ln_pending L) b = (c, q)" by (cases "apply_pending (ln_pending L) b")
      note pend = apply_pending_wf [OF c, of "h_platform H"]
      have "b_cache b = None \<longleftrightarrow> ln_config L = None"
        using mk cache_of_config by blast
      then have ok: "bundle_ok H L l c"
        using pend new_wf [OF m [unfolded Inr]] mk loc Inr assms(2) by (auto simp: bundle_ok_def same_config_def)
      show ?thesis
      proof (cases q)
        case (Inl e)
        then show ?thesis using assms(1) m Inr c fail by (auto simp: create_bundle_def)
      next
        case (Inr x)
        have "x = c" using apply_pending_content [OF c] Inr by blast
        have L': "L' = L\<lparr>ln_contexts := contexts, ln_bundles := od_set l c (ln_bundles L)\<rparr>" "r = Inr c"
          using assms(1) m \<open>m = Inr b\<close> c Inr \<open>x = c\<close> by (auto simp: create_bundle_def)
        show ?thesis using wf ok loc
          by (auto simp: L' localization_wf_def od.valid_set od_get_set bundle_ok_def)
      qed
    qed
  qed
  with set show ?thesis by (simp add: keeps_wf_def)
qed

lemma get_or_create_wf:
  assumes "get_or_create_bundle H l L = (L', r)" "l \<in> set (ln_locales L)"
  shows "keeps_wf H L L' \<and> (localization_wf H L \<longrightarrow> (\<forall>b. r = Inr b \<longrightarrow> bundle_ok H L' l b))"
  using assms create_wf [of H l L L' r]
  by (auto simp: get_or_create_bundle_def localization_wf_def split: option.splits)

text \<open>A call on a bundle, when it keeps the bundle's configuration and tables.\<close>

definition keeps_bundle :: "platform \<Rightarrow> (fluent_bundle \<Rightarrow> 'a bundle_result) \<Rightarrow> bool" where
  "keeps_bundle P call \<longleftrightarrow> (\<forall>b. same_config b (fst (call b)) \<and> (bundle_wf P b \<longrightarrow> bundle_wf P (fst (call b))))"

lemma keeps_step: "(\<And>b. fst (call b) = bundle_step P op b) \<Longrightarrow> keeps_bundle P call"
  by (simp add: keeps_bundle_def step_config step_wf)

lemma on_bundle_wf:
  assumes "l \<in> set (ln_locales L)" "keeps_bundle (h_platform H) call"
  shows "keeps_wf H L (fst (on_bundle H l call L))"
proof -
  obtain L1 r where g: "get_or_create_bundle H l L = (L1, r)" by (cases "get_or_create_bundle H l L")
  note w = get_or_create_wf [OF g assms(1)]
  show ?thesis
  proof (cases r)
    case (Inl e)
    then show ?thesis using g w by (simp add: on_bundle_def)
  next
    case (Inr b)
    obtain b' x where c: "call b = (b', x)" by (cases "call b")
    have k: "same_config b b'" "bundle_wf (h_platform H) b \<longrightarrow> bundle_wf (h_platform H) b'"
      using assms(2) c by (auto simp: keeps_bundle_def dest: spec [of _ b])
    let ?L2 = "L1\<lparr>ln_bundles := od_set l b' (ln_bundles L1)\<rparr>"
    have "localization_wf H ?L2" if "localization_wf H L"
    proof (rule set_bundle_wf)
      show "localization_wf H L1" using w that by (simp add: keeps_wf_def)
      have "bundle_ok H L1 l b" using w that Inr by simp
      then show "bundle_ok H L1 l b'" using k by (simp add: bundle_ok_def same_config_def)
    qed
    moreover have "same_settings L ?L2" using w by (simp add: keeps_wf_def same_settings_def)
    ultimately show ?thesis using g Inr c by (simp add: on_bundle_def keeps_wf_def)
  qed
qed

lemma keeps_format: "keeps_bundle P (format_pattern P g rq)"
  by (rule keeps_step [where op = "Format g rq"]) simp

lemma keeps_add: "keeps_bundle P (add_resource P src path)" "keeps_bundle P (add_resource_stream P lines path)"
  by (rule keeps_step [where op = "AddResource src path"], simp) (rule keeps_step [where op = "AddStream lines path"], simp)

section \<open>Operations along the chain\<close>

lemma not_found_wf: "keeps_wf H L (fst (handle_message_not_found H shown mid L))"
  by (auto simp: handle_message_not_found_def fallback_result_def localization_context_def split: option.split sum.split)

lemma fallback_wf: "keeps_wf H L (fst (fallback_result H shown fallback message category code L))"
  by (auto simp: fallback_result_def localization_context_def split: sum.split)

lemma note_fallback_wf: "keeps_wf H L (note_fallback l mid L)"
  by (auto simp: note_fallback_def split: option.split)

lemma keeps_locales: "keeps_wf H L L' \<Longrightarrow> ln_locales L' = ln_locales L"
  by (simp add: keeps_wf_def same_settings_def)

lemma format_chain_wf: "set ls \<subseteq> set (ln_locales L) \<Longrightarrow> keeps_wf H L (fst (format_chain H g shown rq ls L))"
proof (induction ls arbitrary: L)
  case Nil
  show ?case by (simp add: not_found_wf)
next
  case (Cons l ls)
  obtain L1 r where g: "get_or_create_bundle H l L = (L1, r)" by (cases "get_or_create_bundle H l L")
  have k: "keeps_wf H L L1" using get_or_create_wf [OF g] Cons.prems by simp
  have IH: "keeps_wf H L (fst (format_chain H g shown rq ls L1))"
    using Cons.IH [of L1] Cons.prems keeps_locales [OF k] keeps_wf_trans [OF k] by simp
  obtain L2 q where c: "on_bundle H l (format_pattern (h_platform H) g rq) L1 = (L2, q)"
    by (cases "on_bundle H l (format_pattern (h_platform H) g rq) L1")
  have "keeps_wf H L1 L2"
    using on_bundle_wf [of l L1 H "format_pattern (h_platform H) g rq"] keeps_format c Cons.prems keeps_locales [OF k] by simp
  then have "keeps_wf H L L2" using k by (rule keeps_wf_trans [rotated])
  then show ?case using g k IH c keeps_wf_trans [OF _ note_fallback_wf] by (auto split: sum.split)
qed

lemma first_in_chain_wf: "set ls \<subseteq> set (ln_locales L) \<Longrightarrow> keeps_wf H L (fst (first_in_chain H query ls L))"
proof (induction ls arbitrary: L)
  case (Cons l ls)
  obtain L1 r where g: "get_or_create_bundle H l L = (L1, r)" by (cases "get_or_create_bundle H l L")
  have k: "keeps_wf H L L1" using get_or_create_wf [OF g] Cons.prems by simp
  then have "keeps_wf H L (fst (first_in_chain H query ls L1))"
    using Cons.IH [of L1] Cons.prems keeps_locales [OF k] keeps_wf_trans [OF k] by simp
  then show ?case using g k by (auto split: sum.split option.split)
qed simp

lemma all_bundles_wf: "set ls \<subseteq> set (ln_locales L) \<Longrightarrow> keeps_wf H L (fst (all_bundles H ls L))"
proof (induction ls arbitrary: L)
  case (Cons l ls)
  obtain L1 r where g: "get_or_create_bundle H l L = (L1, r)" by (cases "get_or_create_bundle H l L")
  have k: "keeps_wf H L L1" using get_or_create_wf [OF g] Cons.prems by simp
  then have "keeps_wf H L (fst (all_bundles H ls L1))"
    using Cons.IH [of L1] Cons.prems keeps_locales [OF k] keeps_wf_trans [OF k] by simp
  then show ?case using g k by (auto split: sum.split prod.split)
qed simp

lemma replaced_bundles_wf:
  assumes "map fst bs = map fst (ln_bundles L)"
    and "\<And>l b'. od_get bs l = Some b' \<Longrightarrow> \<exists>b. od_get (ln_bundles L) l = Some b \<and> same_config b b' \<and>
      (bundle_wf (h_platform H) b \<longrightarrow> bundle_wf (h_platform H) b')"
  shows "keeps_wf H L (L\<lparr>ln_bundles := bs\<rparr>)"
proof -
  have "localization_wf H (L\<lparr>ln_bundles := bs\<rparr>)" if wf: "localization_wf H L"
  proof -
    have "bundle_ok H L l b'" if "od_get bs l = Some b'" for l b'
    proof -
      from assms(2) [OF that] obtain b where b: "od_get (ln_bundles L) l = Some b" "same_config b b'"
        "bundle_wf (h_platform H) b \<longrightarrow> bundle_wf (h_platform H) b'" by blast
      then have "bundle_ok H L l b" using wf by (simp add: localization_wf_def)
      then show ?thesis using b by (simp add: bundle_ok_def same_config_def)
    qed
    then show ?thesis using wf assms(1) by (simp add: localization_wf_def bundle_ok_def od_valid_def od_keys_def)
  qed
  then show ?thesis by (simp add: keeps_wf_def same_settings_def)
qed

lemma add_to_bundles_keys: "add_to_bundles name f bs = (bs', r) \<Longrightarrow> map fst bs' = map fst bs"
  by (induction bs arbitrary: bs' r) (auto split: prod.splits sum.splits)

lemma add_to_bundles_wf:
  "add_to_bundles name f bs = (bs', r) \<Longrightarrow> od_get bs' l = Some b' \<Longrightarrow>
     \<exists>b. od_get bs l = Some b \<and> same_config b b' \<and> (bundle_wf P b \<longrightarrow> bundle_wf P b')"
proof (induction bs arbitrary: bs' r)
  case (Cons x bs)
  obtain k b where x: "x = (k, b)" by (cases x)
  obtain c q where c: "add_function name f b = (c, q)" by (cases "add_function name f b")
  have keep: "same_config b c" "bundle_wf P b \<longrightarrow> bundle_wf P c"
    using step_config [of b P "AddFunction name f"] add_function_wf [of P b name f] c by simp_all
  show ?case
  proof (cases q)
    case (Inl e)
    with Cons.prems x c keep show ?thesis by (auto simp: od_get_def split: if_splits)
  next
    case (Inr y)
    obtain rest r' where rest: "add_to_bundles name f bs = (rest, r')" by (cases "add_to_bundles name f bs")
    with Inr Cons.prems x c have "bs' = (k, c) # rest" by auto
    then show ?thesis using Cons.prems(2) Cons.IH [OF rest] keep x by (auto simp: od_get_def split: if_splits)
  qed
qed (auto simp: od_get_def)

lemma add_function_localization_wf: "keeps_wf H L (fst (localized_add_function name f L))"
proof -
  obtain bs r where b: "add_to_bundles name f (ln_bundles L) = (bs, r)" by (cases "add_to_bundles name f (ln_bundles L)")
  have "keeps_wf H (L\<lparr>ln_pending := od_set name f (ln_pending L)\<rparr>)
      (L\<lparr>ln_pending := od_set name f (ln_pending L)\<rparr>\<lparr>ln_bundles := bs\<rparr>)"
    by (rule replaced_bundles_wf) (use add_to_bundles_keys [OF b] add_to_bundles_wf [OF b] in auto)
  then have "keeps_wf H L (L\<lparr>ln_pending := od_set name f (ln_pending L)\<rparr>\<lparr>ln_bundles := bs\<rparr>)"
    by (rule keeps_wf_trans [rotated]) simp
  then show ?thesis using b by (simp add: localized_add_function_def)
qed

lemma clear_cache_localization_wf: "keeps_wf H L (localized_clear_cache L)"
  unfolding localized_clear_cache_def
proof (rule replaced_bundles_wf)
  fix l b' assume "od_get (map (\<lambda>(l, b). (l, clear_bundle_cache b)) (ln_bundles L)) l = Some b'"
  then obtain b where "od_get (ln_bundles L) l = Some b" "b' = clear_bundle_cache b"
    by (auto simp: od_get_def map_of_map split: prod.splits)
  then show "\<exists>b. od_get (ln_bundles L) l = Some b \<and> same_config b b' \<and>
      (bundle_wf (h_platform H) b \<longrightarrow> bundle_wf (h_platform H) b')"
    using step_config [of b _ ClearCache] step_wf [of "h_platform H" b ClearCache] by auto
qed (auto simp: comp_def)

section \<open>Histories\<close>

datatype localization_op =
    AddResourceTo "ustr option" "ustr option"
  | AddStreamTo "ustr option" "ustr list" "ustr option"
  | AddFunctionTo ustr python_function
  | ClearCaches
  | FormatWith int ustr request
  | AskMessage ustr
  | AskMessageIds

fun localization_step :: "'l host \<Rightarrow> localization_op \<Rightarrow> 'l localization \<Rightarrow> 'l localization" where
  "localization_step H (AddResourceTo l src) L = fst (localized_add_resource H l src L)"
| "localization_step H (AddStreamTo l lines path) L = fst (localized_add_stream H l lines path L)"
| "localization_step H (AddFunctionTo name f) L = fst (localized_add_function name f L)"
| "localization_step H ClearCaches L = localized_clear_cache L"
| "localization_step H (FormatWith g shown rq) L = fst (localized_format_pattern H g shown rq L)"
| "localization_step H (AskMessage mid) L = fst (localized_has_message H mid L)"
| "localization_step H AskMessageIds L = fst (localized_message_ids H L)"

definition localization_run :: "'l host \<Rightarrow> localization_op list \<Rightarrow> 'l localization \<Rightarrow> 'l localization" where
  "localization_run H ops L = fold (localization_step H) ops L"

lemma in_chain_set: "in_chain l L = Inr code \<Longrightarrow> code \<in> set (ln_locales L)"
  by (auto simp: in_chain_def res_bind_Inr split: if_splits)

lemma localization_step_wf: "keeps_wf H L (localization_step H op L)"
proof (cases op)
  case (AddResourceTo l src)
  then show ?thesis
    by (auto simp: localized_add_resource_def split: sum.split intro!: on_bundle_wf keeps_add dest: in_chain_set)
next
  case (AddStreamTo l lines path)
  then show ?thesis
    by (auto simp: localized_add_stream_def split: sum.split intro!: on_bundle_wf keeps_add dest: in_chain_set)
next
  case (FormatWith g shown rq)
  then show ?thesis
    by (auto simp: localized_format_pattern_def split: sum.split intro!: fallback_wf format_chain_wf)
next
  case (AskMessage mid)
  then show ?thesis using first_in_chain_wf [of "ln_locales L" L H "\<lambda>b. yes (has_message mid b)"]
    by (auto simp: localized_has_message_def split: prod.split)
next
  case AskMessageIds
  then show ?thesis using all_bundles_wf [of "ln_locales L" L H]
    by (auto simp: localized_message_ids_def split: prod.split)
qed (simp_all add: add_function_localization_wf clear_cache_localization_wf)

lemma localization_run_wf: "keeps_wf H L (localization_run H ops L)"
  by (induction ops arbitrary: L) (auto simp: localization_run_def intro: keeps_wf_trans localization_step_wf)

section \<open>A new localization\<close>

lemma dict_fromkeys_set: "set (dict_fromkeys xs) = set xs" "distinct (dict_fromkeys xs)"
proof -
  have "set (foldl (\<lambda>acc x. if x \<in> set acc then acc else acc @ [x]) acc xs) = set acc \<union> set xs \<and>
      (distinct acc \<longrightarrow> distinct (foldl (\<lambda>acc x. if x \<in> set acc then acc else acc @ [x]) acc xs))" for acc
    by (induction xs arbitrary: acc) auto
  from this [of "[]"] show "set (dict_fromkeys xs) = set xs" "distinct (dict_fromkeys xs)"
    by (simp_all add: dict_fromkeys_def)
qed

lemma validate_locales_accepted: "validate_locales ls = Inr codes \<Longrightarrow> length codes = length ls \<and> list_all accepted_locale codes"
proof (induction ls arbitrary: codes)
  case (Cons l ls)
  then obtain c cs where "require_locale_code l = Inr c" "validate_locales ls = Inr cs" "codes = c # cs"
    by (auto simp: res_bind_Inr)
  with Cons.IH require_canonical(4) show ?case by (auto simp: accepted_locale_def)
qed simp

lemma strict_locales_same:
  assumes "strict_locales H ls ctxs = (r, ctxs')" "context_cache_ok ctxs" "list_all accepted_locale ls"
  shows "context_cache_ok ctxs' \<and> (\<forall>codes. r = Inr codes \<longrightarrow> codes = ls)"
  using assms
proof (induction ls arbitrary: r ctxs ctxs')
  case (Cons l ls)
  obtain q c where q: "create_or_raise (h_babel H) (h_en_us H) (Some l) ctxs = (q, c)"
    by (cases "create_or_raise (h_babel H) (h_en_us H) (Some l) ctxs")
  have k: "context_cache_ok c" "\<forall>ctx. q = Inr ctx \<longrightarrow> lc_locale_code ctx = l"
    using create_or_raise_code [OF q] Cons.prems by auto
  show ?case
  proof (cases q)
    case (Inl e)
    then show ?thesis using Cons.prems q k by auto
  next
    case (Inr ctx)
    obtain r' c' where "strict_locales H ls c = (r', c')" by (cases "strict_locales H ls c")
    with Cons.IH [OF this k(1)] Cons.prems q Inr k show ?thesis by (auto simp: res_bind_Inr)
  qed
qed auto

lemma load_single_wf: "l \<in> set (ln_locales L) \<Longrightarrow> keeps_wf H L (fst (load_single_resource H l rid loader L))"
proof -
  assume l: "l \<in> set (ln_locales L)"
  have "keeps_wf H L (fst (on_bundle H l (add_resource (h_platform H) (Some s) (Some path)) L))" for s path
    by (rule on_bundle_wf [OF l keeps_add(1)])
  then show ?thesis
    by (auto simp: load_single_resource_def Let_def split: load_outcome.split prod.split sum.split option.split)
      (metis fst_conv)+
qed

lemma load_resources_wf: "fst ` set ps \<subseteq> set (ln_locales L) \<Longrightarrow> keeps_wf H L (fst (load_resources H loader ps L))"
proof (induction ps arbitrary: L)
  case (Cons p ps)
  obtain l rid where p: "p = (l, rid)" by (cases p)
  obtain L1 r where g: "load_single_resource H l rid loader L = (L1, r)" by (cases "load_single_resource H l rid loader L")
  have k: "keeps_wf H L L1" using load_single_wf [of l L H rid loader] g Cons.prems p by simp
  show ?case
  proof (cases r)
    case (Inl e)
    then show ?thesis using p g k by simp
  next
    case (Inr x)
    let ?L = "L1\<lparr>ln_load_results := ln_load_results L1 @ [x]\<rparr>"
    have "keeps_wf H L ?L" using k by (rule keeps_wf_trans) simp
    then have "keeps_wf H L (fst (load_resources H loader ps ?L))"
      using Cons.IH [of ?L] Cons.prems keeps_locales [OF k] keeps_wf_trans by fastforce
    then show ?thesis using p g Inr by simp
  qed
qed simp

lemma mk_localization_wf:
  assumes "mk_localization H ls rids loader iso_flag cfg cb strict ctxs = (Inr L, ctxs')" "context_cache_ok ctxs"
  shows "localization_wf H L \<and> ln_strict L = strict"
proof -
  obtain codes c where v: "validate_locales ls = Inr codes" "strict_locales H codes ctxs = (Inr codes, c)" "ls \<noteq> []"
    "context_cache_ok c" "list_all accepted_locale codes"
  proof (cases "validate_locales ls")
    case (Inl e)
    then show thesis using assms(1) by (auto simp: mk_localization_def split: if_splits)
  next
    case (Inr codes)
    obtain q c where q: "strict_locales H codes ctxs = (q, c)" by (cases "strict_locales H codes ctxs")
    have acc: "list_all accepted_locale codes" using validate_locales_accepted [OF Inr] by simp
    note s = strict_locales_same [OF q assms(2) acc]
    show thesis
    proof (cases q)
      case (Inl e)
      then show thesis using assms(1) Inr q by (auto simp: mk_localization_def split: if_splits)
    next
      case x: (Inr codes')
      then show thesis using that [OF Inr] s q acc assms(1) by (auto simp: mk_localization_def split: if_splits)
    qed
  qed
  let ?L = "\<lparr>ln_locales = dict_fromkeys codes, ln_isolating = iso_flag, ln_config = cfg, ln_has_callback = cb, ln_strict = strict,
    ln_bundles = [], ln_load_results = [], ln_pending = [], ln_fallbacks = [], ln_contexts = c, ln_readings = 0\<rparr>"
  have "codes \<noteq> []" using validate_locales_accepted [OF v(1)] v(3) by auto
  then have "dict_fromkeys codes \<noteq> []" using dict_fromkeys_set(1) [of codes] by auto
  then have wf: "localization_wf H ?L"
    using v(4,5) by (simp add: localization_wf_def dict_fromkeys_set list_all_iff od_valid_def od_keys_def od_get_empty)
  have "keeps_wf H ?L L"
  proof (cases loader)
    case None
    then show ?thesis using assms(1) v by (auto simp: mk_localization_def Let_def split: if_splits)
  next
    case (Some ld)
    have "keeps_wf H ?L (fst (load_resources H ld (List.product (dict_fromkeys codes) rids) ?L))"
      by (rule load_resources_wf) auto
    then show ?thesis using assms(1) v Some
      by (auto simp: mk_localization_def Let_def split: if_splits prod.splits sum.splits)
  qed
  then show ?thesis using wf by (simp add: keeps_wf_def same_settings_def)
qed

end
