(* ===== verification/Localization_Theorems.thy ===== *)
theory Localization_Theorems
  imports Localization_Invariant
begin

text \<open>
  The properties of a localization: its invariant, the fallback chain and what it leaves behind,
  and what a function that is not accepted does to it.
\<close>

section \<open>Formatting along the chain\<close>

text \<open>What the chain promises for the locales \<open>ls\<close>.\<close>

definition chain_result ::
    "'l host \<Rightarrow> int \<Rightarrow> ustr \<Rightarrow> request \<Rightarrow> ustr list \<Rightarrow> 'l localization \<Rightarrow> bundle_error + format_output \<Rightarrow> bool" where
  "chain_result H g shown rq ls L r \<longleftrightarrow>
     (\<exists>l \<in> set ls. \<exists>e. creation_error H L l e \<and> r = Inl e) \<or>
     (case find (has_here L (rq_message rq)) ls of
        None \<Rightarrow> r = snd (handle_message_not_found H shown (rq_message rq) L)
      | Some l \<Rightarrow> \<exists>b. od_get (ln_bundles L) l = Some b \<and>
          r = map_sum relocalized id (snd (format_pattern (h_platform H) g rq b)))"

lemma not_found_frame:
  "snd (handle_message_not_found H shown mid (L\<lparr>ln_contexts := c, ln_bundles := bs\<rparr>)) =
     snd (handle_message_not_found H shown mid L)"
  by (simp add: handle_message_not_found_def fallback_result_def localization_context_def split: option.split sum.split)

lemma chain_result_created:
  assumes "od_get (ln_bundles L) locale = None" "b_messages b = []"
    and "L' = L\<lparr>ln_contexts := contexts, ln_bundles := od_set locale b (ln_bundles L)\<rparr>"
    and "chain_result H g shown rq ls L' r"
  shows "chain_result H g shown rq ls L r"
proof -
  note c = created_invariant [OF assms(1-3)]
  have h: "has_here L' (rq_message rq) = has_here L (rq_message rq)" using c(1) by (simp add: fun_eq_iff)
  have nf: "snd (handle_message_not_found H shown (rq_message rq) L') = snd (handle_message_not_found H shown (rq_message rq) L)"
    by (simp add: assms(3) not_found_frame)
  show ?thesis
  proof (cases "\<exists>l \<in> set ls. \<exists>e. creation_error H L' l e \<and> r = Inl e")
    case True
    then obtain l e where "l \<in> set ls" "creation_error H L' l e" "r = Inl e" by blast
    then show ?thesis unfolding chain_result_def using c(2) by blast
  next
    case False
    then have r: "case find (has_here L (rq_message rq)) ls of
        None \<Rightarrow> r = snd (handle_message_not_found H shown (rq_message rq) L)
      | Some l \<Rightarrow> \<exists>b. od_get (ln_bundles L') l = Some b \<and>
          r = map_sum relocalized id (snd (format_pattern (h_platform H) g rq b))"
      using assms(4) unfolding chain_result_def h nf by blast
    show ?thesis
    proof (cases "find (has_here L (rq_message rq)) ls")
      case None
      with r show ?thesis by (simp add: chain_result_def)
    next
      case (Some l)
      then have "has_here L (rq_message rq) l" by (auto simp: find_Some_iff)
      then have "l \<noteq> locale" using assms(1) by (auto simp: has_here_def)
      with r Some show ?thesis by (simp add: chain_result_def assms(3) od_get_set)
    qed
  qed
qed

lemma format_chain_result: "chain_result H g shown rq ls L (snd (format_chain H g shown rq ls L))"
proof (induction ls arbitrary: L)
  case Nil
  show ?case by (simp add: chain_result_def)
next
  case (Cons l ls)
  obtain L1 r where gc: "get_or_create_bundle H l L = (L1, r)" by (cases "get_or_create_bundle H l L")
  then show ?case
  proof (cases rule: get_or_create_cases)
    case (exists b)
    show ?thesis
    proof (cases "has_requested (rq_message rq) b")
      case True
      obtain b' q where f: "format_pattern (h_platform H) g rq b = (b', q)" by (cases "format_pattern (h_platform H) g rq b")
      have "has_here L (rq_message rq) l" using exists True by (simp add: has_here_def)
      moreover have "on_bundle H l (format_pattern (h_platform H) g rq) L =
          (L\<lparr>ln_bundles := od_set l b' (ln_bundles L)\<rparr>, q)"
        using gc exists f by (simp add: on_bundle_def)
      ultimately show ?thesis using gc exists True f by (cases q) (simp_all add: chain_result_def)
    next
      case False
      then have "\<not> has_here L (rq_message rq) l" using exists by (simp add: has_here_def)
      with Cons.IH [of L] gc exists False show ?thesis by (auto simp: chain_result_def)
    qed
  next
    case (fails e)
    then show ?thesis using gc by (auto simp: chain_result_def)
  next
    case (created b contexts)
    have "\<not> has_here L (rq_message rq) l" using created(3) by (simp add: has_here_def)
    moreover have "chain_result H g shown rq ls L (snd (format_chain H g shown rq ls L1))"
      by (rule chain_result_created [OF created(3,2,4) Cons.IH])
    ultimately show ?thesis using gc created(1) fresh_has_nothing [OF created(2)] by (auto simp: chain_result_def)
  qed
qed

section \<open>The chain\<close>

text \<open>C11: after any history of its operations, exceptions included, a localization has the locales
  it was made with, without repetitions, and a bundle only for a locale of the chain: one of
  well-formed entries, for that locale and in the mode of the localization.\<close>

theorem localization_invariant:
  assumes "mk_localization H ls rids loader iso_flag cfg cb strict ctxs = (Inr L0, ctxs')" "context_cache_ok ctxs"
    and "L = localization_run H ops L0"
  shows "ln_locales L = ln_locales L0 \<and> distinct (ln_locales L) \<and> ln_locales L \<noteq> [] \<and>
    (case od_get (ln_bundles L) l of
       None \<Rightarrow> True
     | Some b \<Rightarrow> l \<in> set (ln_locales L) \<and> b_locale b = l \<and> b_strict b = strict \<and> bundle_wf (h_platform H) b)"
proof -
  have wf: "localization_wf H L0" "ln_strict L0 = strict" using mk_localization_wf [OF assms(1,2)] by auto
  have "keeps_wf H L0 L" unfolding assms(3) by (rule localization_run_wf)
  then have "same_settings L0 L" "localization_wf H L" using wf by (simp_all add: keeps_wf_def)
  then show ?thesis using wf by (auto simp: localization_wf_def same_settings_def bundle_ok_def split: option.split)
qed

text \<open>C10: formatting with valid arguments either raises what the creation of a bundle raises, or
  gives what the first bundle of the chain gives that has the message, with an integrity error
  raised in the name of the localization, or, when no bundle has it, the error of a missing
  message.\<close>

theorem fallback_chain:
  assumes "rq_args rq = Inr args" "rq_attribute rq = Inr attribute"
  shows "(\<exists>l \<in> set (ln_locales L). \<exists>e. creation_error H L l e \<and> snd (localized_format_pattern H g shown rq L) = Inl e) \<or>
    (case find (has_here L (rq_message rq)) (ln_locales L) of
       None \<Rightarrow> snd (localized_format_pattern H g shown rq L) = snd (handle_message_not_found H shown (rq_message rq) L)
     | Some l \<Rightarrow> \<exists>b. od_get (ln_bundles L) l = Some b \<and>
         snd (localized_format_pattern H g shown rq L) =
           map_sum relocalized id (snd (format_pattern (h_platform H) g rq b)))"
proof -
  have "localized_format_pattern H g shown rq L = format_chain H g shown rq (ln_locales L) L"
    using assms by (simp add: localized_format_pattern_def)
  then show ?thesis using format_chain_result [of H g shown rq "ln_locales L" L] by (simp only: chain_result_def)
qed

section \<open>What formatting leaves behind\<close>

text \<open>The calls of the callback for a success along the locales \<open>ls\<close>.\<close>

definition observed :: "'l localization \<Rightarrow> ustr \<Rightarrow> ustr list \<Rightarrow> fallback_info list" where
  "observed L mid ls =
     (case find (has_here L (Some mid)) ls of
        Some l \<Rightarrow>
          if ln_has_callback L \<and> l \<noteq> primary_locale L then
            [\<lparr>fb_requested_locale = primary_locale L, fb_resolved_locale = l, fb_message_id = mid\<rparr>]
          else []
      | None \<Rightarrow> [])"

text \<open>The entries of the bundles stay, and a bundle that is created has none.\<close>

definition same_bundle :: "fluent_bundle option \<Rightarrow> fluent_bundle option \<Rightarrow> bool" where
  "same_bundle x y \<longleftrightarrow>
     (case x of
        Some b \<Rightarrow> (case y of Some b' \<Rightarrow> same_content b b' | None \<Rightarrow> False)
      | None \<Rightarrow> (case y of Some b' \<Rightarrow> b_messages b' = [] | None \<Rightarrow> True))"

lemma same_bundle_refl [simp]: "same_bundle x x"
  by (simp add: same_bundle_def split: option.split)

lemma same_content_messages: "same_content b b' \<Longrightarrow> b_messages b' = b_messages b"
  by (cases b, cases b') (simp add: same_content_def)

lemma same_bundle_created: "b_messages b = [] \<Longrightarrow> same_bundle (Some b) y \<Longrightarrow> same_bundle None y"
  by (auto simp: same_bundle_def dest: same_content_messages split: option.splits)

lemma not_found_observed:
  "ln_fallbacks (fst (handle_message_not_found H shown mid L)) = ln_fallbacks L"
  "ln_bundles (fst (handle_message_not_found H shown mid L)) = ln_bundles L"
  by (auto simp: handle_message_not_found_def fallback_result_def localization_context_def split: option.split sum.split)

lemma observed_created:
  assumes "od_get (ln_bundles L) locale = None" "b_messages b = []"
    and "L' = L\<lparr>ln_contexts := contexts, ln_bundles := od_set locale b (ln_bundles L)\<rparr>"
  shows "observed L' mid ls = observed L mid ls" "ln_fallbacks L' = ln_fallbacks L"
proof -
  have "has_here L' (Some mid) = has_here L (Some mid)" using created_invariant(1) [OF assms] by (simp add: fun_eq_iff)
  then show "observed L' mid ls = observed L mid ls" "ln_fallbacks L' = ln_fallbacks L"
    by (simp_all add: observed_def assms(3) primary_locale_def split: option.split)
qed

lemma create_frame_observed: "create_bundle H l L = (L', Inl e) \<Longrightarrow> ln_fallbacks L' = ln_fallbacks L \<and> ln_bundles L' = ln_bundles L"
  by (cases rule: create_bundle_cases) auto

lemma get_or_create_raise:
  "get_or_create_bundle H l L = (L', Inl e) \<Longrightarrow> ln_fallbacks L' = ln_fallbacks L \<and> ln_bundles L' = ln_bundles L"
  by (auto simp: get_or_create_bundle_def dest: create_frame_observed split: option.splits)

lemma note_fallback_observed:
  "ln_bundles (note_fallback l mid L) = ln_bundles L"
  "ln_fallbacks (note_fallback l (Some m) L) = ln_fallbacks L @
     (if ln_has_callback L \<and> l \<noteq> primary_locale L then
        [\<lparr>fb_requested_locale = primary_locale L, fb_resolved_locale = l, fb_message_id = m\<rparr>] else [])"
  by (auto simp: note_fallback_def split: option.split)

lemma format_chain_observed:
  assumes "rq_message rq = Some mid"
  shows "format_chain H g shown rq ls L = (L', r) \<Longrightarrow>
    ln_fallbacks L' = ln_fallbacks L @ (case r of Inl e \<Rightarrow> [] | Inr out \<Rightarrow> observed L mid ls) \<and>
    same_bundle (od_get (ln_bundles L) k) (od_get (ln_bundles L') k)"
proof (induction ls arbitrary: L)
  case Nil
  then show ?case using not_found_observed [of H shown "rq_message rq" L] by (auto simp: observed_def split: sum.split)
next
  case (Cons l ls)
  obtain L1 q where gc: "get_or_create_bundle H l L = (L1, q)" by (cases "get_or_create_bundle H l L")
  then show ?case
  proof (cases rule: get_or_create_cases)
    case (exists b)
    show ?thesis
    proof (cases "has_requested (rq_message rq) b")
      case True
      obtain b' x where f: "format_pattern (h_platform H) g rq b = (b', x)" by (cases "format_pattern (h_platform H) g rq b")
      then have same: "same_content b b'" using format_content [of b "h_platform H" g rq] by simp
      have "has_here L (Some mid) l" using exists True assms by (simp add: has_here_def)
      moreover have "on_bundle H l (format_pattern (h_platform H) g rq) L =
          (L\<lparr>ln_bundles := od_set l b' (ln_bundles L)\<rparr>, x)"
        using gc exists f by (simp add: on_bundle_def)
      ultimately show ?thesis using Cons.prems gc exists True assms same
        by (cases x) (auto simp: observed_def note_fallback_observed primary_locale_def od_get_set same_bundle_def split: option.split if_splits)
    next
      case False
      then have "\<not> has_here L (Some mid) l" using exists assms by (simp add: has_here_def)
      then have "observed L mid (l # ls) = observed L mid ls" by (simp add: observed_def)
      with Cons.IH [of L] Cons.prems gc exists False show ?thesis by (simp split: sum.split)
    qed
  next
    case (fails e)
    then show ?thesis using gc Cons.prems get_or_create_raise [of H l L L1 e] by auto
  next
    case (created b contexts)
    have "\<not> has_here L (Some mid) l" using created(3) by (simp add: has_here_def)
    then have o: "observed L mid (l # ls) = observed L1 mid ls"
      using observed_created(1) [OF created(3,2,4)] by (simp add: observed_def)
    have c: "format_chain H g shown rq ls L1 = (L', r)"
      using Cons.prems gc created(1) fresh_has_nothing [OF created(2)] by simp
    note IH = Cons.IH [OF c]
    have "same_bundle (od_get (ln_bundles L) k) (od_get (ln_bundles L') k)"
      using IH created(2,3,4) same_bundle_created [of b] by (auto simp: od_get_set split: if_splits)
    with IH o show ?thesis using observed_created(2) [OF created(3,2,4)] by (simp split: sum.split)
  qed
qed

text \<open>C12: formatting with valid arguments calls the callback exactly once, with the primary locale and
  the locale of the message, when it succeeds from a bundle that is not the primary one, and otherwise
  not at all; it changes no entry of a bundle, and a bundle that it creates has none.\<close>

theorem fallback_observed:
  assumes "rq_args rq = Inr args" "rq_attribute rq = Inr attribute" "rq_message rq = Some mid"
    and "localized_format_pattern H g shown rq L = (L', r)"
  shows "ln_fallbacks L' = ln_fallbacks L @ (case r of Inl e \<Rightarrow> [] | Inr out \<Rightarrow> observed L mid (ln_locales L)) \<and>
    same_bundle (od_get (ln_bundles L) l) (od_get (ln_bundles L') l)"
  using assms by (intro format_chain_observed) (simp_all add: localized_format_pattern_def)

section \<open>Functions that are not accepted\<close>

lemma register_rejects: "build_function_signature f (Some name) [] = Inl e \<Longrightarrow> isl (register f (Some name) [] r)"
  by (simp add: register_def)

lemma add_function_rejects: "build_function_signature f (Some name) [] = Inl e \<Longrightarrow> isl (snd (add_function name f b))"
  using register_rejects by (auto simp: add_function_def Let_def split: sum.split) (metis sum.disc(2))+

lemma pending_rejects:
  "(name, f) \<in> set fs \<Longrightarrow> build_function_signature f (Some name) [] = Inl e \<Longrightarrow> isl (snd (apply_pending fs b))"
proof (induction fs arbitrary: b)
  case (Cons x fs)
  obtain k h where x: "x = (k, h)" by (cases x)
  obtain c q where c: "add_function k h b = (c, q)" by (cases "add_function k h b")
  show ?case
  proof (cases q)
    case (Inl e)
    then show ?thesis using x c by simp
  next
    case (Inr y)
    then have "(name, f) \<in> set fs" using Cons.prems add_function_rejects [of f name e b] x c by auto
    from Cons.IH [OF this Cons.prems(2)] show ?thesis using x c Inr by simp
  qed
qed simp

lemma create_rejects:
  "od_get (ln_pending L) name = Some f \<Longrightarrow> build_function_signature f (Some name) [] = Inl e \<Longrightarrow>
     isl (snd (create_bundle H l L))"
proof -
  assume "od_get (ln_pending L) name = Some f" "build_function_signature f (Some name) [] = Inl e"
  then have "isl (snd (apply_pending (ln_pending L) b))" for b
    by (intro pending_rejects) (auto simp: od_get_def map_of_SomeD)
  then show ?thesis
    by (auto simp: create_bundle_def split: prod.split sum.split) (metis sum.disc(2) snd_conv)+
qed

text \<open>A function that a bundle rejects is accepted while no bundle exists, and from then on no
  bundle can be created and every call to format raises.\<close>

theorem rejected_function_poisons:
  assumes "build_function_signature f (Some name) [] = Inl e" "ln_bundles L = []" "ln_locales L \<noteq> []"
    and "rq_args rq = Inr args" "rq_attribute rq = Inr attribute"
    and "localized_add_function name f L = (L', r)"
  shows "r = Inr () \<and> isl (snd (get_or_create_bundle H l L')) \<and> isl (snd (localized_format_pattern H g shown rq L'))"
proof -
  have L': "L' = L\<lparr>ln_pending := od_set name f (ln_pending L), ln_bundles := []\<rparr>" "r = Inr ()"
    using assms(2,6) by (auto simp: localized_add_function_def)
  then have g: "isl (snd (get_or_create_bundle H k L'))" for k
    using create_rejects [of L' name f e H k] assms(1) by (simp add: get_or_create_bundle_def od_get_empty od_get_set)
  obtain k ks where "ln_locales L' = k # ks" using assms(3) L' by (cases "ln_locales L'") auto
  then have "isl (snd (localized_format_pattern H g shown rq L'))"
    using g [of k] assms(4,5) by (auto simp: localized_format_pattern_def split: prod.split sum.split)
  then show ?thesis using L' g by simp
qed

section \<open>Witnesses\<close>

definition demo_host :: "ustr host" where
  "demo_host = \<lparr>h_platform = demo_platform, h_babel = demo_parse, h_en_us = u ''en'', h_shared = empty_registry\<rparr>"

definition demo_localization :: "ustr localization" where
  "demo_localization = \<lparr>ln_locales = [u ''en'', u ''lv''], ln_isolating = False, ln_config = None, ln_has_callback = True,
     ln_strict = False, ln_bundles = [], ln_load_results = [], ln_pending = [], ln_fallbacks = [],
     ln_contexts = [(u ''en'', \<lparr>lc_locale_code = u ''en'', lc_babel_locale = u ''en'', lc_is_fallback = False\<rparr>),
       (u ''lv'', \<lparr>lc_locale_code = u ''lv'', lc_babel_locale = u ''lv'', lc_is_fallback = False\<rparr>)],
     ln_readings = 0\<rparr>"

lemma latvian_locale: "require_locale_code (Some (u ''lv'')) = Inr (u ''lv'')"
  by (rule require_canonical(4) [of "Some (u ''lv'')"])
    (simp add: require_locale_code_def py_strip_def is_py_space_def u_def Let_def
      is_structurally_valid_locale_code_def is_ascii_alpha_def is_ascii_digit_def is_ascii_alnum_def
      MAX_LOCALE_LENGTH_HARD_LIMIT_def normalize_locale_def ascii_lower_def)

lemma two_locales: "u ''en'' \<noteq> u ''lv''" "u ''lv'' \<noteq> u ''en''"
  by (simp_all add: u_def)

lemma demo_localization:
  "mk_localization demo_host [Some (u ''en''), Some (u ''lv'')] [] None False None True False [] =
     (Inr demo_localization, ln_contexts demo_localization)"
  by (simp add: mk_localization_def demo_locale latvian_locale create_or_raise_def create_context_def od_get_def od_set_def
      Let_def new_locale_context_def MAX_LOCALE_CACHE_SIZE_def demo_parse_def demo_host_def demo_localization_def
      dict_fromkeys_def two_locales)

definition hello_bundle :: fluent_bundle where
  "hello_bundle = fst (add_resource demo_platform (Some (u ''hello = Hi'')) None (uncached demo_bundle))"

lemma hello_bundle: "has_message (u ''hello'') hello_bundle"
  by code_simp

definition latvian_hello :: "ustr localization" where
  "latvian_hello = demo_localization\<lparr>ln_bundles :=
     [(u ''en'', uncached demo_bundle), (u ''lv'', hello_bundle\<lparr>b_locale := u ''lv''\<rparr>)]\<rparr>"

lemma hello_falls_back:
  "find (has_here latvian_hello (Some (u ''hello''))) (ln_locales latvian_hello) = Some (u ''lv'')"
  "od_get (ln_bundles latvian_hello) (u ''lv'') = Some (hello_bundle\<lparr>b_locale := u ''lv''\<rparr>)"
  "creation_error demo_host latvian_hello l e \<Longrightarrow> l \<notin> set (ln_locales latvian_hello)"
  using hello_bundle
  by (auto simp: latvian_hello_def demo_localization_def has_here_def od_get_def has_requested_def has_message_def od_keys_def
      creation_error_def demo_bundle_def u_def)

theorem localization_invariant_witness:
  "case od_get (ln_bundles (localization_run demo_host
       [AddResourceTo (Some (u ''lv'')) (Some (u ''hello = Hi'')), FormatWith 0 (u ''hello'') hello_request] demo_localization))
     (u ''lv'') of
     None \<Rightarrow> True
   | Some b \<Rightarrow> b_locale b = u ''lv'' \<and> b_strict b = False \<and> bundle_wf (h_platform demo_host) b"
proof -
  have "context_cache_ok []" by (simp add: context_cache_ok_def od_valid_def od_keys_def)
  from localization_invariant [OF demo_localization this refl, where l = "u ''lv''" and
      ops = "[AddResourceTo (Some (u ''lv'')) (Some (u ''hello = Hi'')), FormatWith 0 (u ''hello'') hello_request]"]
  show ?thesis by (auto split: option.splits)
qed

theorem fallback_chain_witness:
  "snd (localized_format_pattern demo_host 0 (u ''hello'') hello_request latvian_hello) =
     map_sum relocalized id (snd (format_pattern demo_platform 0 hello_request (hello_bundle\<lparr>b_locale := u ''lv''\<rparr>)))"
  using fallback_chain [of hello_request _ None latvian_hello demo_host 0 "u ''hello''"] hello_falls_back
  by (auto simp: hello_request_def demo_host_def)

theorem fallback_observed_witness:
  "case localized_format_pattern demo_host 0 (u ''hello'') hello_request latvian_hello of
     (L, Inr out) \<Rightarrow> ln_fallbacks L =
       [\<lparr>fb_requested_locale = u ''en'', fb_resolved_locale = u ''lv'', fb_message_id = u ''hello''\<rparr>]
   | (L, Inl e) \<Rightarrow> ln_fallbacks L = []"
  using fallback_observed [of hello_request _ None "u ''hello''" demo_host 0 "u ''hello''" latvian_hello] hello_falls_back(1)
  by (auto simp: hello_request_def observed_def split: prod.split sum.split)
    (simp_all add: latvian_hello_def demo_localization_def primary_locale_def u_def)

definition no_signature :: python_function where
  "no_signature = \<lparr>pf_name = None, pf_params = None, pf_requires_locale = False, pf_call = (\<lambda>l ps ns. RaisedCancelled)\<rparr>"

theorem rejected_function_poisons_witness:
  "isl (snd (localized_format_pattern demo_host 0 (u ''hello'') hello_request
     (fst (localized_add_function (u ''F'') no_signature demo_localization))))"
  using rejected_function_poisons [of no_signature "u ''F''" TypeError demo_localization hello_request _ None
      _ _ demo_host _ 0 "u ''hello''"]
  by (cases "localized_add_function (u ''F'') no_signature demo_localization")
    (auto simp: hello_request_def no_signature_def build_function_signature_def demo_localization_def)

end
