(* ===== verification/Loaded_Localization.thy ===== *)
theory Loaded_Localization
  imports Localization_Boot Localization_Theorems
begin

text \<open>
  A localization whose load is clean: each bundle is a new bundle to which the resources were added
  in their order, so that every property of bundles holds for it.  Its chain is complete, and the
  queries and the checks of a boot find what the bundles hold.
\<close>

section \<open>A clean load\<close>

definition made_for :: "'l host \<Rightarrow> 'l localization \<Rightarrow> ustr \<Rightarrow> fluent_bundle \<Rightarrow> bool" where
  "made_for H L locale b \<longleftrightarrow>
     (\<exists>contexts contexts'.
        mk_bundle (h_platform H) (h_babel H) (h_en_us H) (h_shared H) (Some locale) (ln_isolating L) (ln_config L)
          (Inr None) None None None (ln_strict L) contexts = (Inr b, contexts'))"

text \<open>The addition of a resource that the loader has.\<close>

definition resource_op :: "resource_loader \<Rightarrow> ustr \<Rightarrow> ustr \<Rightarrow> bundle_op list" where
  "resource_op loader locale resource_id =
     (case rl_load loader locale resource_id of
        Loaded s \<Rightarrow> [AddResource (Some s) (Some (rl_describe_path loader locale resource_id))]
      | _ \<Rightarrow> [])"

definition loading_ops :: "resource_loader \<Rightarrow> ustr \<Rightarrow> (ustr \<times> ustr) list \<Rightarrow> bundle_op list" where
  "loading_ops loader locale ps =
     concat (map (\<lambda>(l, resource_id). if l = locale then resource_op loader l resource_id else []) ps)"

lemma loading_ops_simps [simp]:
  "loading_ops loader locale [] = []"
  "loading_ops loader locale ((l, rid) # ps) =
     (if l = locale then resource_op loader l rid else []) @ loading_ops loader locale ps"
  by (simp_all add: loading_ops_def)

definition same_frame :: "'l localization \<Rightarrow> 'l localization \<Rightarrow> bool" where
  "same_frame L L' \<longleftrightarrow>
     L' = L\<lparr>ln_contexts := ln_contexts L', ln_bundles := ln_bundles L', ln_load_results := ln_load_results L'\<rparr>"

lemma made_for_frame: "same_frame L L' \<Longrightarrow> made_for H L' l b = made_for H L l b"
  by (cases L, cases L') (simp add: same_frame_def made_for_def)

lemma get_or_create_made:
  assumes "get_or_create_bundle H l L = (L', Inr b)" "ln_pending L = []"
  shows "(od_get (ln_bundles L) l = Some b \<or> od_get (ln_bundles L) l = None \<and> made_for H L l b) \<and>
    same_frame L L' \<and> ln_load_results L' = ln_load_results L \<and> od_get (ln_bundles L') = (od_get (ln_bundles L))(l \<mapsto> b)"
proof (cases "od_get (ln_bundles L) l")
  case None
  obtain m contexts where m: "mk_bundle (h_platform H) (h_babel H) (h_en_us H) (h_shared H) (Some l) (ln_isolating L)
      (ln_config L) (Inr None) None None None (ln_strict L) (ln_contexts L) = (m, contexts)" by force
  with assms None have "m = Inr b" "L' = L\<lparr>ln_contexts := contexts, ln_bundles := od_set l b (ln_bundles L)\<rparr>"
    by (auto simp: get_or_create_bundle_def create_bundle_def split: sum.splits)
  with m None show ?thesis by (auto simp: made_for_def same_frame_def od_get_set)
next
  case (Some x)
  with assms show ?thesis by (auto simp: get_or_create_bundle_def same_frame_def)
qed

lemma load_single_clean:
  assumes "load_single_resource H l rid loader L = (L', Inr r)" "\<not> is_unclean r" "ln_pending L = []"
  obtains b where "od_get (ln_bundles L) l = Some b \<or> od_get (ln_bundles L) l = None \<and> made_for H L l b"
    "resource_op loader l rid \<noteq> []"
    "od_get (ln_bundles L') = (od_get (ln_bundles L))(l \<mapsto> bundle_run (h_platform H) (resource_op loader l rid) b)"
    "same_frame L L'" "ln_load_results L' = ln_load_results L"
    "r = loaded_result l rid (rl_describe_path loader l rid) LOAD_SUCCESS None []"
proof -
  let ?path = "rl_describe_path loader l rid"
  obtain s where s: "rl_load loader l rid = Loaded s"
    using assms(1,2)
    by (cases "rl_load loader l rid")
      (auto simp: load_single_resource_def Let_def is_unclean_def is_not_found_def is_error_def loaded_result_def)
  obtain L1 q where on: "on_bundle H l (add_resource (h_platform H) (Some s) (Some ?path)) L = (L1, q)"
    by (cases "on_bundle H l (add_resource (h_platform H) (Some s) (Some ?path)) L")
  obtain junk where q: "q = Inr junk"
    using assms(1,2) s on
    by (cases q) (auto simp: load_single_resource_def Let_def is_unclean_def is_error_def loaded_result_def split: option.splits)
  have r: "L' = L1" "r = loaded_result l rid ?path LOAD_SUCCESS None []"
    using assms(1,2) s on q
    by (auto simp: load_single_resource_def Let_def is_unclean_def result_has_junk_def loaded_result_def)
  obtain L2 b where g: "get_or_create_bundle H l L = (L2, Inr b)"
    using on q by (auto simp: on_bundle_def split: prod.splits sum.splits)
  note made = get_or_create_made [OF g assms(3)]
  have L1: "L1 = L2\<lparr>ln_bundles := od_set l (fst (add_resource (h_platform H) (Some s) (Some ?path) b)) (ln_bundles L2)\<rparr>"
    using on g by (auto simp: on_bundle_def split: prod.splits)
  show ?thesis
  proof (rule that [of b])
    show "od_get (ln_bundles L') = (od_get (ln_bundles L))(l \<mapsto> bundle_run (h_platform H) (resource_op loader l rid) b)"
      using made by (simp add: r L1 od_get_set resource_op_def s bundle_run_def)
    show "same_frame L L'" using made by (cases L, cases L2) (simp add: r L1 same_frame_def)
  qed (use made s r L1 in \<open>simp_all add: resource_op_def\<close>)
qed

lemma get_or_create_results: "ln_load_results (fst (get_or_create_bundle H l L)) = ln_load_results L"
  by (auto simp: get_or_create_bundle_def create_bundle_def split: option.split prod.split sum.split)

lemma on_bundle_results: "ln_load_results (fst (on_bundle H l call L)) = ln_load_results L"
  using get_or_create_results [of H l L] by (auto simp: on_bundle_def split: prod.split sum.split)

lemma load_single_results: "ln_load_results (fst (load_single_resource H l rid loader L)) = ln_load_results L"
proof -
  have "ln_load_results (fst (on_bundle H l (add_resource (h_platform H) (Some s) (Some path)) L)) = ln_load_results L" for s path
    by (rule on_bundle_results)
  then show ?thesis
    by (auto simp: load_single_resource_def Let_def split: load_outcome.split prod.split sum.split option.split)
      (metis fst_conv)+
qed

lemma load_results_append:
  "load_resources H loader ps L = (L', Inr ()) \<Longrightarrow> \<exists>rs. ln_load_results L' = ln_load_results L @ rs"
proof (induction ps arbitrary: L)
  case (Cons p ps)
  obtain l rid where p: "p = (l, rid)" by (cases p)
  obtain L1 r where g: "load_single_resource H l rid loader L = (L1, Inr r)"
    "load_resources H loader ps (L1\<lparr>ln_load_results := ln_load_results L1 @ [r]\<rparr>) = (L', Inr ())"
    using Cons.prems p by (auto split: prod.splits sum.splits)
  have "ln_load_results L1 = ln_load_results L" using load_single_results [of H l rid loader L] g by simp
  with Cons.IH [OF g(2)] show ?case by auto
qed simp

lemma same_frame_trans: "same_frame L M \<Longrightarrow> same_frame M N \<Longrightarrow> same_frame L N"
  by (cases L, cases M, cases N) (simp add: same_frame_def)

lemma same_frame_pending: "same_frame L M \<Longrightarrow> ln_pending M = ln_pending L"
  by (cases L, cases M) (simp add: same_frame_def)

lemma load_clean:
  assumes "load_resources H loader ps L = (L', Inr ())" "ln_load_results L' = ln_load_results L @ rs"
    "list_all (\<lambda>r. \<not> is_unclean r) rs" "ln_pending L = []"
  shows "same_frame L L' \<and>
    rs = map (\<lambda>(l, rid). loaded_result l rid (rl_describe_path loader l rid) LOAD_SUCCESS None []) ps \<and>
    list_all (\<lambda>(l, rid). resource_op loader l rid \<noteq> []) ps \<and>
    (case od_get (ln_bundles L) k of
       Some b \<Rightarrow> od_get (ln_bundles L') k = Some (bundle_run (h_platform H) (loading_ops loader k ps) b)
     | None \<Rightarrow>
         if k \<in> fst ` set ps then
           \<exists>b. made_for H L k b \<and> od_get (ln_bundles L') k = Some (bundle_run (h_platform H) (loading_ops loader k ps) b)
         else od_get (ln_bundles L') k = None)"
  using assms
proof (induction ps arbitrary: L rs)
  case Nil
  then show ?case by (simp add: same_frame_def bundle_run_def split: option.split)
next
  case (Cons p ps)
  obtain l rid where p: "p = (l, rid)" by (cases p)
  obtain L1 r where g: "load_single_resource H l rid loader L = (L1, Inr r)"
    "load_resources H loader ps (L1\<lparr>ln_load_results := ln_load_results L1 @ [r]\<rparr>) = (L', Inr ())"
    using Cons.prems(1) p by (auto split: prod.splits sum.splits)
  let ?L = "L1\<lparr>ln_load_results := ln_load_results L1 @ [r]\<rparr>"
  have "ln_load_results L1 = ln_load_results L" using load_single_results [of H l rid loader L] g by simp
  with load_results_append [OF g(2)] Cons.prems(2) obtain rs' where rs: "rs = r # rs'"
    "ln_load_results L' = ln_load_results ?L @ rs'" by auto
  then have clean: "\<not> is_unclean r" "list_all (\<lambda>r. \<not> is_unclean r) rs'" using Cons.prems(3) by simp_all
  obtain b where b: "od_get (ln_bundles L) l = Some b \<or> od_get (ln_bundles L) l = None \<and> made_for H L l b"
    "resource_op loader l rid \<noteq> []"
    "od_get (ln_bundles L1) = (od_get (ln_bundles L))(l \<mapsto> bundle_run (h_platform H) (resource_op loader l rid) b)"
    "same_frame L L1" "r = loaded_result l rid (rl_describe_path loader l rid) LOAD_SUCCESS None []"
    by (rule load_single_clean [OF g(1) clean(1) Cons.prems(4)])
  have frame: "same_frame L ?L" using b(4) by (cases L, cases L1) (simp add: same_frame_def)
  then have "ln_pending ?L = []" using Cons.prems(4) same_frame_pending by fastforce
  note IH = Cons.IH [OF g(2) rs(2) clean(2) this]
  have made: "made_for H ?L k c = made_for H L k c" for c by (rule made_for_frame [OF frame])
  have run: "bundle_run P (xs @ ys) c = bundle_run P ys (bundle_run P xs c)" for P xs ys c
    by (simp add: bundle_run_def)
  have "case od_get (ln_bundles L) k of
       Some b \<Rightarrow> od_get (ln_bundles L') k = Some (bundle_run (h_platform H) (loading_ops loader k (p # ps)) b)
     | None \<Rightarrow>
         if k \<in> fst ` set (p # ps) then
           \<exists>b. made_for H L k b \<and> od_get (ln_bundles L') k = Some (bundle_run (h_platform H) (loading_ops loader k (p # ps)) b)
         else od_get (ln_bundles L') k = None"
  proof (cases "l = k")
    case True
    then have "od_get (ln_bundles ?L) k = Some (bundle_run (h_platform H) (resource_op loader l rid) b)" using b(3) by simp
    then have "od_get (ln_bundles L') k = Some (bundle_run (h_platform H) (loading_ops loader k (p # ps)) b)"
      using IH True p by (simp add: run)
    then show ?thesis using b(1) True p by (auto split: option.split)
  next
    case False
    then have "od_get (ln_bundles ?L) k = od_get (ln_bundles L) k" using b(3) by simp
    then show ?thesis using IH False p unfolding made by (cases "od_get (ln_bundles L) k") simp_all
  qed
  moreover have "same_frame L L'" using IH same_frame_trans [OF frame] by blast
  ultimately show ?case using IH b(2,5) rs(1) p by simp
qed

lemma all_clean_iff: "all_clean rs \<longleftrightarrow> list_all (\<lambda>r. \<not> is_unclean r) rs"
  by (induction rs)
    (auto simp: all_clean_def get_load_errors_def get_not_found_def junk_count_def is_unclean_def result_has_junk_def)

lemma mk_localization_cases:
  assumes "mk_localization H ls rids (Some loader) iso_flag cfg cb strict ctxs = (Inr L, ctxs')"
  obtains L0 where "load_resources H loader (List.product (ln_locales L0) rids) L0 = (L, Inr ())"
    "distinct (ln_locales L0)" "ln_bundles L0 = []" "ln_pending L0 = []" "ln_load_results L0 = []"
    "ln_isolating L0 = iso_flag" "ln_config L0 = cfg" "ln_strict L0 = strict" "ctxs' = ln_contexts L"
proof -
  obtain codes q c where v: "validate_locales ls = Inr codes" "strict_locales H codes ctxs = (q, c)"
    using assms by (cases "strict_locales H (projr (validate_locales ls)) ctxs")
      (auto simp: mk_localization_def split: if_splits sum.splits)
  then obtain codes' where q: "q = Inr codes'" using assms by (auto simp: mk_localization_def split: if_splits sum.splits)
  let ?L0 = "\<lparr>ln_locales = dict_fromkeys codes', ln_isolating = iso_flag, ln_config = cfg, ln_has_callback = cb, ln_strict = strict,
    ln_bundles = [], ln_load_results = [], ln_pending = [], ln_fallbacks = [], ln_contexts = c, ln_readings = 0\<rparr>"
  show ?thesis
    by (rule that [of ?L0])
      (use assms v q in \<open>auto simp: mk_localization_def Let_def dict_fromkeys_set split: if_splits prod.splits sum.splits\<close>)
qed

lemma loading_ops_append: "loading_ops loader l (ps @ qs) = loading_ops loader l ps @ loading_ops loader l qs"
  by (simp add: loading_ops_def)

lemma loading_ops_row:
  "loading_ops loader l (map (Pair k) rids) = (if k = l then concat (map (resource_op loader l) rids) else [])"
  by (induction rids) auto

lemma loading_ops_product:
  "distinct ls \<Longrightarrow>
     loading_ops loader l (List.product ls rids) = (if l \<in> set ls then concat (map (resource_op loader l) rids) else [])"
  by (induction ls) (auto simp: loading_ops_append loading_ops_row)

text \<open>The bundles of a localization whose load is clean.\<close>

definition loaded_bundle :: "'l host \<Rightarrow> 'l localization \<Rightarrow> resource_loader \<Rightarrow> ustr list \<Rightarrow> ustr \<Rightarrow> fluent_bundle \<Rightarrow> bool" where
  "loaded_bundle H L loader rids l b \<longleftrightarrow>
     (\<exists>b0. made_for H L l b0 \<and> b = bundle_run (h_platform H) (concat (map (resource_op loader l) rids)) b0)"

lemma clean_localization:
  assumes "mk_localization H ls rids (Some loader) iso_flag cfg cb strict ctxs = (Inr L, ctxs')" "all_clean (ln_load_results L)"
  shows "ln_load_results L = map (\<lambda>(l, rid). loaded_result l rid (rl_describe_path loader l rid) LOAD_SUCCESS None [])
      (List.product (ln_locales L) rids)"
    and "l \<in> set (ln_locales L) \<Longrightarrow> rid \<in> set rids \<Longrightarrow> resource_op loader l rid \<noteq> []"
    and "l \<in> set (ln_locales L) \<Longrightarrow> rids \<noteq> [] \<Longrightarrow> \<exists>b. od_get (ln_bundles L) l = Some b \<and> loaded_bundle H L loader rids l b"
proof -
  obtain L0 where L0: "load_resources H loader (List.product (ln_locales L0) rids) L0 = (L, Inr ())"
    "distinct (ln_locales L0)" "ln_bundles L0 = []" "ln_pending L0 = []" "ln_load_results L0 = []"
    by (rule mk_localization_cases [OF assms(1)])
  have c: "list_all (\<lambda>r. \<not> is_unclean r) (ln_load_results L)" using assms(2) by (simp add: all_clean_iff)
  note load = load_clean [OF L0(1) _ c L0(4)]
  have frame: "same_frame L0 L" using load L0(5) by simp
  then have locales: "ln_locales L = ln_locales L0" by (cases L, cases L0) (simp add: same_frame_def)
  show "ln_load_results L = map (\<lambda>(l, rid). loaded_result l rid (rl_describe_path loader l rid) LOAD_SUCCESS None [])
      (List.product (ln_locales L) rids)"
    using load L0(5) locales by simp
  show "resource_op loader l rid \<noteq> []" if "l \<in> set (ln_locales L)" "rid \<in> set rids"
    using load L0(5) that locales by (fastforce simp: list_all_iff)
  show "\<exists>b. od_get (ln_bundles L) l = Some b \<and> loaded_bundle H L loader rids l b" if l: "l \<in> set (ln_locales L)" "rids \<noteq> []"
  proof -
    obtain rid where "rid \<in> set rids" using l(2) by (cases rids) auto
    then have "l \<in> fst ` set (List.product (ln_locales L0) rids)" using l locales by force
    then have "\<exists>b. made_for H L0 l b \<and> od_get (ln_bundles L) l =
        Some (bundle_run (h_platform H) (loading_ops loader l (List.product (ln_locales L0) rids)) b)"
      using load [where k = l] L0(3,5) by (simp add: od_get_empty)
    then show ?thesis
      using l locales made_for_frame [OF frame] by (auto simp: loaded_bundle_def loading_ops_product [OF L0(2)])
  qed
qed

section \<open>Queries of complete chains\<close>

definition complete :: "'l localization \<Rightarrow> bool" where
  "complete L \<longleftrightarrow> (\<forall>l \<in> set (ln_locales L). od_get (ln_bundles L) l \<noteq> None)"

definition bundle_at :: "'l localization \<Rightarrow> ustr \<Rightarrow> fluent_bundle" where
  "bundle_at L l = the (od_get (ln_bundles L) l)"

lemma complete_get:
  "complete L \<Longrightarrow> l \<in> set (ln_locales L) \<Longrightarrow> get_or_create_bundle H l L = (L, Inr (bundle_at L l))"
  by (auto simp: complete_def get_or_create_bundle_def bundle_at_def)

lemma first_in_complete:
  "complete L \<Longrightarrow> set ls \<subseteq> set (ln_locales L) \<Longrightarrow>
     first_in_chain H query ls L =
       (L, Inr (case find (\<lambda>l. query (bundle_at L l) \<noteq> None) ls of None \<Rightarrow> None | Some l \<Rightarrow> query (bundle_at L l)))"
  by (induction ls) (auto simp: complete_get split: option.split)

lemma has_message_complete:
  "complete L \<Longrightarrow> localized_has_message H mid L = (L, Inr (\<exists>l \<in> set (ln_locales L). has_message mid (bundle_at L l)))"
  by (auto simp: localized_has_message_def first_in_complete yes_def find_None_iff find_Some_iff split: option.splits)

lemma absent_complete:
  "complete L \<Longrightarrow> absent_messages H mids L =
     (L, Inr (filter (\<lambda>mid. \<not> (\<exists>l \<in> set (ln_locales L). has_message mid (bundle_at L l))) mids))"
  by (induction mids) (auto simp: has_message_complete)

lemma required_complete:
  assumes "complete L" "check_required_messages H required L = (L', Inr ())"
  shows "L' = L \<and> (\<forall>names mid. required = Some names \<longrightarrow> finite names \<longrightarrow> mid \<in> names \<longrightarrow>
    (\<exists>l \<in> set (ln_locales L). has_message mid (bundle_at L l)))"
proof (cases required)
  case (Some names)
  let ?absent = "filter (\<lambda>mid. \<not> (\<exists>l \<in> set (ln_locales L). has_message mid (bundle_at L l))) (sorted_list_of_set names)"
  have "?absent = []" using assms Some
    by (cases ?absent) (auto simp: check_required_messages_def absent_complete integrity_check_failed_def)
  then show ?thesis using assms Some
    by (auto simp: check_required_messages_def absent_complete filter_empty_conv)
qed (use assms in \<open>simp add: check_required_messages_def\<close>)

text \<open>The schema of a message holds for its first definition along the chain.\<close>

definition schema_holds :: "platform \<Rightarrow> 'l localization \<Rightarrow> ustr \<Rightarrow> ustr set \<Rightarrow> bool" where
  "schema_holds P L mid names \<longleftrightarrow>
     (case find (has_here L (Some mid)) (ln_locales L) of
        None \<Rightarrow> False
      | Some l \<Rightarrow> get_message_variables P mid (bundle_at L l) = Inr names)"

lemma has_here_complete:
  "complete L \<Longrightarrow> l \<in> set (ln_locales L) \<Longrightarrow> has_here L (Some mid) l = (get_message mid (bundle_at L l) \<noteq> None)"
  by (auto simp: complete_def has_here_def bundle_at_def has_requested_def has_message_def get_message_def od_get_None
      split: option.split)

lemma find_has_here: "complete L \<Longrightarrow>
    find (\<lambda>l. get_message mid (bundle_at L l) \<noteq> None) (ln_locales L) = find (has_here L (Some mid)) (ln_locales L)"
  by (rule find_cong) (simp_all add: has_here_complete)

text \<open>Formatting along a complete chain takes the first bundle with the message and replaces no other.\<close>

definition formatted_state :: "'l localization \<Rightarrow> ustr \<Rightarrow> ustr \<Rightarrow> fluent_bundle \<Rightarrow> bundle_error + format_output \<Rightarrow> 'l localization" where
  "formatted_state L mid l b r =
     L\<lparr>ln_bundles := od_set l b (ln_bundles L),
       ln_fallbacks := ln_fallbacks L @ (case r of Inl e \<Rightarrow> [] | Inr out \<Rightarrow> observed L mid (ln_locales L))\<rparr>"

lemma format_chain_found:
  assumes "complete L" "rq_message rq = Some mid" "format_pattern (h_platform H) g rq (bundle_at L l) = (b, r)"
  shows "set ls \<subseteq> set (ln_locales L) \<Longrightarrow> find (has_here L (Some mid)) ls = Some l \<Longrightarrow>
    format_chain H g shown rq ls L =
      (case r of
         Inl e \<Rightarrow> (L\<lparr>ln_bundles := od_set l b (ln_bundles L)\<rparr>, Inl (relocalized e))
       | Inr out \<Rightarrow> (note_fallback l (Some mid) (L\<lparr>ln_bundles := od_set l b (ln_bundles L)\<rparr>), Inr out))"
proof (induction ls)
  case (Cons k ls)
  then have get: "od_get (ln_bundles L) k = Some (bundle_at L k)" "get_or_create_bundle H k L = (L, Inr (bundle_at L k))"
    using assms(1) by (auto simp: complete_get) (auto simp: complete_def bundle_at_def)
  then have "has_here L (Some mid) k = has_requested (Some mid) (bundle_at L k)" by (simp add: has_here_def)
  with Cons get assms(2,3) show ?case by (auto simp: on_bundle_def split: if_splits sum.split)
qed simp

lemma format_complete:
  assumes "complete L" "rq_message rq = Some mid" "rq_args rq = Inr args" "rq_attribute rq = Inr attribute"
    and "find (has_here L (Some mid)) (ln_locales L) = Some l"
    and "format_pattern (h_platform H) g rq (bundle_at L l) = (b, r)"
  shows "localized_format_pattern H g shown rq L = (formatted_state L mid l b r, map_sum relocalized id r)"
  using format_chain_found [OF assms(1,2,6) subset_refl assms(5)] assms(3-5)
  by (cases r) (simp_all add: localized_format_pattern_def formatted_state_def note_fallback_def observed_def primary_locale_def)

lemma schema_valid:
  assumes "complete L" "resolve_schema_validation H mid names L = (L', r)"
  shows "L' = L \<and> (\<forall>v. r = Inr (Some v) \<longrightarrow> mv_is_valid v \<longrightarrow> schema_holds (h_platform H) L mid names)"
proof -
  have "localized_get_message H mid L = (L, Inr (case find (has_here L (Some mid)) (ln_locales L) of
      None \<Rightarrow> None | Some l \<Rightarrow> get_message mid (bundle_at L l)))"
    unfolding localized_get_message_def first_in_complete [OF assms(1) subset_refl] find_has_here [OF assms(1)] ..
  with assms(2) show ?thesis
    by (auto simp: resolve_schema_validation_def schema_holds_def get_message_variables_def get_message_def
        Introspection.validate_message_variables_def Let_def introspected_def split: option.splits)
qed

lemma collect_complete:
  assumes "complete L"
  shows "collect_schemas H ss R L = (L', Inr R') \<Longrightarrow>
    L' = L \<and> sr_missing R \<le> sr_missing R' \<and> sr_mismatched R \<le> sr_mismatched R' \<and>
    (sr_missing R' = 0 \<longrightarrow> sr_mismatched R' = 0 \<longrightarrow> list_all (\<lambda>(mid, names). schema_holds (h_platform H) L mid names) ss)"
proof (induction ss arbitrary: R)
  case (Cons x ss)
  obtain mid names where x: "x = (mid, names)" by (cases x)
  obtain L1 r where r: "resolve_schema_validation H mid names L = (L1, r)" by (cases "resolve_schema_validation H mid names L")
  note v = schema_valid [OF assms r]
  show ?case
  proof (cases r)
    case (Inl e)
    then show ?thesis using Cons.prems x r by simp
  next
    case (Inr o')
    show ?thesis
    proof (cases o')
      case None
      then show ?thesis using Cons.IH [of "report_missing mid R"] Cons.prems x r Inr v by (auto simp: report_missing_def)
    next
      case (Some w)
      then show ?thesis using Cons.IH [of "report_validation mid w R"] Cons.prems x r Inr v
        by (cases "mv_is_valid w") (auto simp: report_validation_def Let_def)
    qed
  qed
qed simp

lemma schemas_complete:
  assumes "complete L" "validate_message_schemas H ss L = (L', Inr results)"
  shows "L' = L \<and> list_all (\<lambda>(mid, names). schema_holds (h_platform H) L mid names) ss"
proof -
  obtain L1 R where c: "collect_schemas H ss empty_report L = (L1, Inr R)" "sr_missing R = 0" "sr_mismatched R = 0" "L' = L1"
    using assms(2) by (auto simp: validate_message_schemas_def integrity_check_failed_def split: prod.splits sum.splits if_splits)
  then show ?thesis using collect_complete [OF assms(1) c(1)] by simp
qed

section \<open>Boot\<close>

lemma require_clean_returns: "require_clean H L = (L', Inr summary) \<Longrightarrow> L' = L \<and> summary = ln_load_results L \<and> all_clean summary"
  by (auto simp: require_clean_def Let_def get_load_summary_def integrity_check_failed_def
      split: if_splits option.splits prod.splits)

lemma boot_cases:
  assumes "boot H fs C contexts = (C', contexts', Inr (L, summary, results))" "bc_resource_ids C \<noteq> []"
  obtains loader ctxs where "resolve_loader fs (C\<lparr>bc_booted := True\<rparr>) = Inr loader"
    "mk_localization H (bc_locales C) (bc_resource_ids C) (Some loader) (bc_isolating C) (bc_cache C) (bc_has_callback C)
       (bc_strict C) contexts = (Inr L, ctxs)"
    "all_clean summary" "summary = ln_load_results L" "complete L"
    "check_required_messages H (bc_required C) L = (L, Inr ())"
    "case bc_schemas C of None \<Rightarrow> results = [] | Some schemas \<Rightarrow> validate_message_schemas H schemas L = (L, Inr results)"
proof -
  obtain loader where l: "resolve_loader fs (C\<lparr>bc_booted := True\<rparr>) = Inr loader" "\<not> bc_booted C"
    using assms(1) by (auto simp: boot_def Let_def split: if_splits sum.splits)
  obtain L0 ctxs where mk: "mk_localization H (bc_locales C) (bc_resource_ids C) (Some loader) (bc_isolating C) (bc_cache C)
      (bc_has_callback C) (bc_strict C) contexts = (Inr L0, ctxs)"
    "boot_checks H (C\<lparr>bc_booted := True\<rparr>) L0 = (L, Inr (summary, results))"
    using assms(1) l by (auto simp: boot_def Let_def split: if_splits sum.splits prod.splits)
  obtain L1 where rc: "require_clean H L0 = (L1, Inr summary)"
    using mk(2) by (auto simp: boot_checks_def split: prod.splits sum.splits option.splits)
  note clean = require_clean_returns [OF rc]
  have "complete L0"
    using clean_localization(3) [OF mk(1)] clean assms(2) unfolding complete_def by (metis option.distinct(1))
  obtain L2 where req: "check_required_messages H (bc_required C) L0 = (L2, Inr ())"
    using mk(2) rc clean by (auto simp: boot_checks_def split: prod.splits sum.splits)
  then have L2: "L2 = L0" using required_complete [OF \<open>complete L0\<close>] by blast
  show ?thesis
  proof (cases "bc_schemas C")
    case None
    then show ?thesis using that [OF l(1)] mk rc clean req L2 \<open>complete L0\<close> by (auto simp: boot_checks_def)
  next
    case (Some schemas)
    then have "validate_message_schemas H schemas L0 = (L, Inr results)"
      using mk(2) rc clean req L2 by (auto simp: boot_checks_def split: prod.splits sum.splits)
    moreover from this have "L = L0" using schemas_complete [OF \<open>complete L0\<close>] by blast
    ultimately show ?thesis using that [OF l(1)] mk rc clean req L2 \<open>complete L0\<close> Some by auto
  qed
qed

text \<open>A configuration boots once.\<close>

lemma boot_once:
  "boot H fs C contexts = (C', contexts', r) \<Longrightarrow>
     bc_booted C' \<and> boot H fs C' contexts'' = (C', contexts'', Inl (LocalizationRaised (PyRaised RuntimeError)))"
  by (auto simp: boot_def Let_def split: if_splits sum.splits prod.splits)

end
