(* ===== verification/Boot_Theorems.thy ===== *)
theory Boot_Theorems
  imports Loaded_Localization
begin

text \<open>
  What a boot that returns guarantees: the load of every resource for every locale, the messages
  that are required and the schemas; with a boot from a file system as the witness.
\<close>

section \<open>Guarantees\<close>

text \<open>C14: a boot that returns has loaded every resource for every locale of the chain, without an
  error and without junk, and the bundle of each locale is a new bundle to which the resources were
  added in their order.\<close>

theorem boot_loads_everything:
  assumes "mk_boot_config C0 = Inr C" "boot H fs C contexts = (C', contexts', Inr (L, summary, results))"
    and "l \<in> set (ln_locales L)"
  shows "\<exists>loader b. resolve_loader fs C' = Inr loader \<and>
    summary = map (\<lambda>(l, rid). loaded_result l rid (rl_describe_path loader l rid) LOAD_SUCCESS None [])
      (List.product (ln_locales L) (bc_resource_ids C)) \<and>
    od_get (ln_bundles L) l = Some b \<and> loaded_bundle H L loader (bc_resource_ids C) l b"
proof -
  have ids: "bc_resource_ids C \<noteq> []" using assms(1) by (auto simp: mk_boot_config_def split: if_splits option.splits)
  have C': "C' = C\<lparr>bc_booted := True\<rparr>"
    using assms(2) by (auto simp: boot_def Let_def split: if_splits sum.splits prod.splits)
  obtain loader ctxs where b: "resolve_loader fs (C\<lparr>bc_booted := True\<rparr>) = Inr loader"
    "mk_localization H (bc_locales C) (bc_resource_ids C) (Some loader) (bc_isolating C) (bc_cache C) (bc_has_callback C)
       (bc_strict C) contexts = (Inr L, ctxs)" "all_clean summary" "summary = ln_load_results L"
    by (rule boot_cases [OF assms(2) ids])
  note clean = clean_localization [OF b(2) b(3) [unfolded b(4)]]
  show ?thesis using b clean(1) clean(3) [OF assms(3) ids] C' by blast
qed

text \<open>C13: after a boot that returns, formatting a required message with valid arguments gives what
  the first bundle of the chain that has the message gives: it is never missing.  No bundle is
  created: the bundle that formats is replaced by itself, with the change of its cache, every other
  bundle and the rest of the localization stay, and the callback is told of the fallback, if there
  is one and the formatting returns.\<close>

theorem boot_required_found:
  assumes "mk_boot_config C0 = Inr C" "boot H fs C contexts = (C', contexts', Inr (L, summary, results))"
    and "bc_required C = Some names" "finite names" "mid \<in> names"
    and "rq_message rq = Some mid" "rq_args rq = Inr args" "rq_attribute rq = Inr attribute"
  shows "\<exists>l b b' r. find (has_here L (Some mid)) (ln_locales L) = Some l \<and> od_get (ln_bundles L) l = Some b \<and>
    has_message mid b \<and> format_pattern (h_platform H) g rq b = (b', r) \<and>
    localized_format_pattern H g shown rq L = (formatted_state L mid l b' r, map_sum relocalized id r) \<and>
    od_keys (ln_bundles (formatted_state L mid l b' r)) = od_keys (ln_bundles L)"
proof -
  have ids: "bc_resource_ids C \<noteq> []" using assms(1) by (auto simp: mk_boot_config_def split: if_splits option.splits)
  obtain loader where b: "resolve_loader fs (C\<lparr>bc_booted := True\<rparr>) = Inr loader" "complete L"
    "check_required_messages H (bc_required C) L = (L, Inr ())"
    by (rule boot_cases [OF assms(2) ids])
  obtain k where k: "k \<in> set (ln_locales L)" "has_message mid (bundle_at L k)"
    using required_complete [OF b(2,3)] assms(3-5) by blast
  then have "has_here L (Some mid) k"
    using b(2) by (auto simp: complete_def has_here_def bundle_at_def has_requested_def)
  then obtain l where l: "find (has_here L (Some mid)) (ln_locales L) = Some l"
    using k(1) by (cases "find (has_here L (Some mid)) (ln_locales L)") (auto simp: find_None_iff)
  then have "has_here L (Some mid) l" by (auto simp: find_Some_iff)
  then have at: "od_get (ln_bundles L) l = Some (bundle_at L l)" "has_message mid (bundle_at L l)"
    by (auto simp: has_here_def bundle_at_def has_requested_def split: option.splits)
  obtain b' r where f: "format_pattern (h_platform H) g rq (bundle_at L l) = (b', r)" by fastforce
  have "od_keys (ln_bundles (formatted_state L mid l b' r)) = od_keys (ln_bundles L)"
    using at(1) by (simp add: formatted_state_def od_keys_set) (metis od_get_None option.distinct(1))
  with l at f format_complete [OF b(2) assms(6-8) l f] show ?thesis by blast
qed

text \<open>C15: after a boot that returns, the variables of every message with a schema are exactly those of
  the schema, in the bundle from which formatting takes the message.\<close>

theorem boot_schemas_hold:
  assumes "mk_boot_config C0 = Inr C" "boot H fs C contexts = (C', contexts', Inr (L, summary, results))"
    and "bc_schemas C = Some schemas" "(mid, names) \<in> set schemas"
  shows "case find (has_here L (Some mid)) (ln_locales L) of
      None \<Rightarrow> False
    | Some l \<Rightarrow> (case od_get (ln_bundles L) l of
          None \<Rightarrow> False | Some b \<Rightarrow> get_message_variables (h_platform H) mid b = Inr names)"
proof -
  have ids: "bc_resource_ids C \<noteq> []" using assms(1) by (auto simp: mk_boot_config_def split: if_splits option.splits)
  obtain loader where b: "resolve_loader fs (C\<lparr>bc_booted := True\<rparr>) = Inr loader" "complete L"
    "case bc_schemas C of None \<Rightarrow> results = [] | Some schemas \<Rightarrow> validate_message_schemas H schemas L = (L, Inr results)"
    by (rule boot_cases [OF assms(2) ids])
  then have "schema_holds (h_platform H) L mid names"
    using schemas_complete [OF b(2)] assms(3,4) by (fastforce simp: list_all_iff)
  moreover have "l \<in> set (ln_locales L)" if "find (has_here L (Some mid)) (ln_locales L) = Some l" for l
    using that by (auto simp: find_Some_iff)
  ultimately show ?thesis using b(2)
    by (auto simp: schema_holds_def complete_def bundle_at_def split: option.splits)
qed

section \<open>Witnesses\<close>

definition demo_config_raw :: boot_config where
  "demo_config_raw = \<lparr>bc_locales = [Some (u ''en'')], bc_resource_ids = [u ''main.ftl''], bc_loader = None,
     bc_base_path = Some (u ''locales/{locale}''), bc_schemas = Some [(u ''hello'', {})], bc_required = Some {u ''hello''},
     bc_strict = False, bc_isolating = False, bc_cache = None, bc_has_callback = False, bc_booted = False\<rparr>"

definition demo_loader :: resource_loader where
  "demo_loader = path_resource_loader demo_files
     \<lparr>px_base_path = u ''locales/{locale}'', px_root = [u ''/'', u ''srv'', u ''locales'']\<rparr>"

lemma demo_config_made: "mk_boot_config demo_config_raw = Inr demo_config_raw"
  by (simp add: mk_boot_config_def demo_config_raw_def)

lemma demo_resolves: "resolve_loader demo_files (demo_config_raw\<lparr>bc_booted := True\<rparr>) = Inr demo_loader"
  by (simp add: resolve_loader_def demo_config_raw_def demo_path_loader demo_loader_def)

lemma demo_paths:
  "replace_locale (u ''en'') (u ''locales/{locale}'') = u ''locales/en''"
  "validate_resource_id (u ''main.ftl'') = Inr ()"
  "path_of (u ''locales/en'') = [u ''locales'', u ''en'']"
  "path_join [u ''/'', u ''srv'', u ''locales'', u ''en''] (u ''main.ftl'') =
     [u ''/'', u ''srv'', u ''locales'', u ''en'', u ''main.ftl'']"
  "u ''locales'' \<noteq> u ''/''"
  by (simp_all add: u_def LOCALE_PLACEHOLDER_def validate_resource_id_def py_strip_def is_py_space_def is_absolute_def
      path_root_def sublist_Cons_right path_of_def path_parts_def split_slash_def path_join_def)

lemma demo_loads:
  "rl_load demo_loader (u ''en'') (u ''main.ftl'') = Loaded (u ''hello = Hi'')"
  "rl_describe_path demo_loader (u ''en'') (u ''main.ftl'') = u ''locales/en'' @ [CH_SLASH] @ u ''main.ftl''"
  by (simp_all add: demo_loader_def path_resource_loader_def path_load_def load_target_def describe_path_def demo_locale
      demo_paths demo_files_def is_safe_path_def Let_def)

lemma demo_hello:
  "case add_resource demo_platform (Some (u ''hello = Hi'')) (Some (u ''locales/en'' @ [CH_SLASH] @ u ''main.ftl''))
      (uncached demo_bundle) of
     (b, Inr []) \<Rightarrow> has_message (u ''hello'') b \<and>
       (case od_get (b_messages b) (u ''hello'') of
          Some n \<Rightarrow> node_name n = u ''hello'' \<and>
            (case extract_variables 1000 (node_name n) (message_entry n) of Some vs \<Rightarrow> vs = {} | None \<Rightarrow> False)
        | None \<Rightarrow> False)
   | _ \<Rightarrow> False"
  by code_simp

lemma demo_made:
  "mk_bundle demo_platform demo_parse (u ''en'') empty_registry (Some (u ''en'')) False None (Inr None)
     None None None False [(u ''en'', demo_context)] = (Inr (uncached demo_bundle), [(u ''en'', demo_context)])"
  by (simp add: mk_bundle_def demo_locale create_or_raise_def create_context_def od_get_def od_set_def Let_def
        od_move_to_end_def od_del_def demo_platform_def demo_parse_def depth_clamp_def MAX_DEPTH_def uncached_def
        mk_parser_def bundle_cache_of_def demo_bundle_def
        demo_context_def MAX_SOURCE_SIZE_def DEFAULT_MAX_EXPANSION_SIZE_def)

definition booting :: "ustr localization" where
  "booting = \<lparr>ln_locales = [u ''en''], ln_isolating = False, ln_config = None, ln_has_callback = False, ln_strict = False,
     ln_bundles = [], ln_load_results = [], ln_pending = [], ln_fallbacks = [],
     ln_contexts = [(u ''en'', demo_context)], ln_readings = 0\<rparr>"

definition booted :: "fluent_bundle \<Rightarrow> ustr localization" where
  "booted b = booting\<lparr>ln_bundles := [(u ''en'', b)],
     ln_load_results := [loaded_result (u ''en'') (u ''main.ftl'') (u ''locales/en'' @ [CH_SLASH] @ u ''main.ftl'') LOAD_SUCCESS None []]\<rparr>"

lemma demo_load_single:
  assumes "add_resource demo_platform (Some (u ''hello = Hi'')) (Some (u ''locales/en'' @ [CH_SLASH] @ u ''main.ftl''))
      (uncached demo_bundle) = (b, Inr [])"
  shows "load_resources demo_host demo_loader [(u ''en'', u ''main.ftl'')] booting = (booted b, Inr ())"
proof -
  have "get_or_create_bundle demo_host (u ''en'') booting =
      (booting\<lparr>ln_bundles := [(u ''en'', uncached demo_bundle)]\<rparr>, Inr (uncached demo_bundle))"
    using demo_made by (simp add: get_or_create_bundle_def create_bundle_def booting_def demo_host_def od_get_def od_set_def)
  then show ?thesis using assms
    by (simp add: load_single_resource_def demo_loads on_bundle_def booted_def Let_def od_set_def demo_host_def)
      (simp add: booting_def)
qed

lemma demo_made_localization:
  assumes "add_resource demo_platform (Some (u ''hello = Hi'')) (Some (u ''locales/en'' @ [CH_SLASH] @ u ''main.ftl''))
      (uncached demo_bundle) = (b, Inr [])"
  shows "mk_localization demo_host [Some (u ''en'')] [u ''main.ftl''] (Some demo_loader) False None False False [] =
    (Inr (booted b), ln_contexts (booted b))"
proof -
  have "strict_locales demo_host [u ''en''] [] = (Inr [u ''en''], [(u ''en'', demo_context)])"
    by (simp add: demo_locale create_or_raise_def create_context_def od_get_def od_set_def demo_context_def
      Let_def new_locale_context_def MAX_LOCALE_CACHE_SIZE_def demo_parse_def demo_host_def)
  moreover have "dict_fromkeys [u ''en''] = [u ''en'']" by (simp add: dict_fromkeys_def)
  ultimately show ?thesis using demo_load_single [OF assms]
    by (simp add: mk_localization_def demo_locale booting_def)
qed

lemma demo_boots:
  obtains b where "boot demo_host demo_files demo_config_raw [] =
    (demo_config_raw\<lparr>bc_booted := True\<rparr>, [(u ''en'', demo_context)],
     Inr (booted b, ln_load_results (booted b),
       [\<lparr>mv_message_id = u ''hello'', mv_is_valid = True, mv_declared_variables = {}, mv_missing_variables = {},
         mv_extra_variables = {}\<rparr>]))"
proof -
  obtain b n where b: "add_resource demo_platform (Some (u ''hello = Hi'')) (Some (u ''locales/en'' @ [CH_SLASH] @ u ''main.ftl''))
      (uncached demo_bundle) = (b, Inr [])" "has_message (u ''hello'') b" "od_get (b_messages b) (u ''hello'') = Some n"
      "extract_variables 1000 (node_name n) (message_entry n) = Some {}" "node_name n = u ''hello''"
    using demo_hello by (auto split: prod.splits sum.splits list.splits option.splits)
  let ?L = "booted b"
  have comp: "complete ?L" by (simp add: complete_def booted_def booting_def od_get_def)
  have at: "bundle_at ?L (u ''en'') = b" by (simp add: bundle_at_def booted_def od_get_def)
  have locales: "ln_locales ?L = [u ''en'']" by (simp add: booted_def booting_def)
  have clean: "require_clean demo_host ?L = (?L, Inr (ln_load_results ?L))"
    by (simp add: require_clean_def Let_def get_load_summary_def all_clean_iff booted_def is_unclean_def is_error_def is_not_found_def
        result_has_junk_def loaded_result_def)
  have req: "check_required_messages demo_host (Some {u ''hello''}) ?L = (?L, Inr ())"
    using absent_complete [OF comp, of demo_host "[u ''hello'']"] b(2) at locales by (simp add: check_required_messages_def)
  have get: "localized_get_message demo_host (u ''hello'') ?L = (?L, Inr (Some n))"
    using complete_get [OF comp, of "u ''en''" demo_host] b(3) at locales
    by (simp add: localized_get_message_def get_message_def)
  have "validate_message_schemas demo_host [(u ''hello'', {})] ?L = (?L, Inr [\<lparr>mv_message_id = u ''hello'', mv_is_valid = True,
      mv_declared_variables = {}, mv_missing_variables = {}, mv_extra_variables = {}\<rparr>])"
    using get b(4,5)
    by (simp add: validate_message_schemas_def resolve_schema_validation_def Introspection.validate_message_variables_def
        demo_host_def demo_platform_def report_validation_def empty_report_def Let_def)
  with clean req have "boot_checks demo_host (demo_config_raw\<lparr>bc_booted := True\<rparr>) ?L = (?L, Inr (ln_load_results ?L,
      [\<lparr>mv_message_id = u ''hello'', mv_is_valid = True, mv_declared_variables = {}, mv_missing_variables = {},
         mv_extra_variables = {}\<rparr>]))"
    by (simp add: boot_checks_def demo_config_raw_def)
  then show thesis
    using that [of b] demo_made_localization [OF b(1)] demo_resolves
    by (simp add: boot_def demo_config_raw_def booted_def booting_def)
qed

theorem boot_loads_everything_witness:
  "\<exists>L b. snd (snd (boot demo_host demo_files demo_config_raw [])) = Inr L \<and>
     od_get (ln_bundles (fst L)) (u ''en'') = Some b \<and> loaded_bundle demo_host (fst L) demo_loader [u ''main.ftl''] (u ''en'') b"
proof (rule demo_boots)
  fix b assume b: "boot demo_host demo_files demo_config_raw [] = (demo_config_raw\<lparr>bc_booted := True\<rparr>,
    [(u ''en'', demo_context)], Inr (booted b, ln_load_results (booted b), [\<lparr>mv_message_id = u ''hello'', mv_is_valid = True,
      mv_declared_variables = {}, mv_missing_variables = {}, mv_extra_variables = {}\<rparr>]))"
  have "u ''en'' \<in> set (ln_locales (booted b))" by (simp add: booted_def booting_def)
  from boot_loads_everything [OF demo_config_made b this] b demo_resolves show ?thesis
    by (auto simp: demo_config_raw_def)
qed

theorem boot_required_found_witness:
  "\<exists>L. snd (snd (boot demo_host demo_files demo_config_raw [])) = Inr L \<and>
     (\<exists>b b' r. od_get (ln_bundles (fst L)) (u ''en'') = Some b \<and> format_pattern demo_platform 0 hello_request b = (b', r) \<and>
       localized_format_pattern demo_host 0 (u ''hello'') hello_request (fst L) =
         (formatted_state (fst L) (u ''hello'') (u ''en'') b' r, map_sum relocalized id r))"
proof (rule demo_boots)
  fix b assume b: "boot demo_host demo_files demo_config_raw [] = (demo_config_raw\<lparr>bc_booted := True\<rparr>,
    [(u ''en'', demo_context)], Inr (booted b, ln_load_results (booted b), [\<lparr>mv_message_id = u ''hello'', mv_is_valid = True,
      mv_declared_variables = {}, mv_missing_variables = {}, mv_extra_variables = {}\<rparr>]))"
  have "bc_required demo_config_raw = Some {u ''hello''}" by (simp add: demo_config_raw_def)
  then obtain l b0 b' r where r: "find (has_here (booted b) (Some (u ''hello''))) (ln_locales (booted b)) = Some l"
      "od_get (ln_bundles (booted b)) l = Some b0" "format_pattern demo_platform 0 hello_request b0 = (b', r)"
      "localized_format_pattern demo_host 0 (u ''hello'') hello_request (booted b) =
        (formatted_state (booted b) (u ''hello'') l b' r, map_sum relocalized id r)"
    using boot_required_found [OF demo_config_made b, of "{u ''hello''}" "u ''hello''" hello_request _ None 0 "u ''hello''"]
    by (auto simp: hello_request_def demo_host_def)
  have "l = u ''en''" using r(1) by (auto simp: booted_def booting_def split: if_splits)
  with b r(2-4) show ?thesis by auto
qed

theorem boot_schemas_hold_witness:
  "\<exists>L. snd (snd (boot demo_host demo_files demo_config_raw [])) = Inr L \<and>
     (case find (has_here (fst L) (Some (u ''hello''))) (ln_locales (fst L)) of
        None \<Rightarrow> False
      | Some l \<Rightarrow> (case od_get (ln_bundles (fst L)) l of
            None \<Rightarrow> False | Some b \<Rightarrow> get_message_variables demo_platform (u ''hello'') b = Inr {}))"
proof (rule demo_boots)
  fix b assume b: "boot demo_host demo_files demo_config_raw [] = (demo_config_raw\<lparr>bc_booted := True\<rparr>,
    [(u ''en'', demo_context)], Inr (booted b, ln_load_results (booted b), [\<lparr>mv_message_id = u ''hello'', mv_is_valid = True,
      mv_declared_variables = {}, mv_missing_variables = {}, mv_extra_variables = {}\<rparr>]))"
  have "bc_schemas demo_config_raw = Some [(u ''hello'', {})]" by (simp add: demo_config_raw_def)
  moreover have "h_platform demo_host = demo_platform" by (simp add: demo_host_def)
  ultimately show ?thesis
    using boot_schemas_hold [OF demo_config_made b, of "[(u ''hello'', {})]" "u ''hello''" "{}"] b
    by (auto split: option.splits)
qed

end
