(* ===== verification/Localization_Queries.thy ===== *)
theory Localization_Queries
  imports Loaded_Localization
begin

text \<open>
  The queries of \<open>localization/orchestrator_queries.py\<close> that introspect along the fallback chain,
  and that they agree with each other.
\<close>

section \<open>Queries\<close>

datatype chain_error = ChainQuery query_error | ChainBundle bundle_error

type_synonym ('l, 'a) queried = "'l localization \<times> (chain_error + 'a)"

text \<open>The query of the first bundle that has the message.\<close>

fun query_in_chain ::
    "'l host \<Rightarrow> ustr \<Rightarrow> (fluent_bundle \<Rightarrow> query_error + 'a) \<Rightarrow> ustr list \<Rightarrow> 'l localization \<Rightarrow> ('l, 'a option) queried" where
  "query_in_chain H message_id query [] L = (L, Inr None)"
| "query_in_chain H message_id query (locale # rest) L =
     (case get_or_create_bundle H locale L of
        (L, Inl e) \<Rightarrow> (L, Inl (ChainBundle e))
      | (L, Inr b) \<Rightarrow>
          if has_message message_id b then (L, map_sum ChainQuery Some (query b))
          else query_in_chain H message_id query rest L)"

definition localized_introspect_message ::
    "'l host \<Rightarrow> ustr \<Rightarrow> 'l localization \<Rightarrow> ('l, message_introspection option) queried" where
  "localized_introspect_message H message_id L =
     query_in_chain H message_id (bundle_introspect_message (h_platform H) message_id) (ln_locales L) L"

definition localized_message_variables :: "'l host \<Rightarrow> ustr \<Rightarrow> 'l localization \<Rightarrow> ('l, ustr set) queried" where
  "localized_message_variables H message_id L =
     (case query_in_chain H message_id (get_message_variables (h_platform H) message_id) (ln_locales L) L of
        (L, Inl e) \<Rightarrow> (L, Inl e)
      | (L, Inr (Some names)) \<Rightarrow> (L, Inr names)
      | (L, Inr None) \<Rightarrow> (L, Inl (ChainQuery KeyError)))"

text \<open>A term is looked for by its \<open>KeyError\<close>.\<close>

fun introspect_term_in_chain ::
    "'l host \<Rightarrow> ustr \<Rightarrow> ustr list \<Rightarrow> 'l localization \<Rightarrow> ('l, message_introspection option) queried" where
  "introspect_term_in_chain H term_id [] L = (L, Inr None)"
| "introspect_term_in_chain H term_id (locale # rest) L =
     (case get_or_create_bundle H locale L of
        (L, Inl e) \<Rightarrow> (L, Inl (ChainBundle e))
      | (L, Inr b) \<Rightarrow>
          (case bundle_introspect_term (h_platform H) term_id b of
             Inl KeyError \<Rightarrow> introspect_term_in_chain H term_id rest L
           | Inl e \<Rightarrow> (L, Inl (ChainQuery e))
           | Inr r \<Rightarrow> (L, Inr (Some r))))"

definition localized_introspect_term ::
    "'l host \<Rightarrow> ustr \<Rightarrow> 'l localization \<Rightarrow> ('l, message_introspection option) queried" where
  "localized_introspect_term H term_id L = introspect_term_in_chain H term_id (ln_locales L) L"

definition merge_variables :: "(ustr, ustr set) odict \<Rightarrow> (ustr, ustr set) odict \<Rightarrow> (ustr, ustr set) odict" where
  "merge_variables found result =
     fold (\<lambda>(message_id, names) result. if od_get result message_id = None then od_set message_id names result else result)
       found result"

fun variables_in_chain ::
    "'l host \<Rightarrow> ustr list \<Rightarrow> (ustr, ustr set) odict \<Rightarrow> 'l localization \<Rightarrow> ('l, (ustr, ustr set) odict) queried" where
  "variables_in_chain H [] result L = (L, Inr result)"
| "variables_in_chain H (locale # rest) result L =
     (case get_or_create_bundle H locale L of
        (L, Inl e) \<Rightarrow> (L, Inl (ChainBundle e))
      | (L, Inr b) \<Rightarrow>
          (case get_all_message_variables (h_platform H) b of
             Inl e \<Rightarrow> (L, Inl (ChainQuery e))
           | Inr found \<Rightarrow> variables_in_chain H rest (merge_variables found result) L))"

definition localized_all_variables :: "'l host \<Rightarrow> 'l localization \<Rightarrow> ('l, (ustr, ustr set) odict) queried" where
  "localized_all_variables H L = variables_in_chain H (ln_locales L) [] L"

text \<open>The validation of a source against the bundle of the primary locale.\<close>

definition localized_validate_resource ::
    "'l host \<Rightarrow> nat \<Rightarrow> (ustr set \<Rightarrow> ustr list) \<Rightarrow> ustr option \<Rightarrow> 'l localization \<Rightarrow>
     'l localization \<times> (bundle_error + (resource_error + validation_result))" where
  "localized_validate_resource H prec order src L =
     (case get_or_create_bundle H (primary_locale L) L of
        (L, Inl e) \<Rightarrow> (L, Inl e)
      | (L, Inr b) \<Rightarrow> (L, Inr (validate_in_bundle (h_platform H) prec order src b)))"

section \<open>Agreement\<close>

definition variables_of :: "platform \<Rightarrow> ustr \<Rightarrow> fluent_bundle \<Rightarrow> ustr set option" where
  "variables_of P mid b = (case get_message_variables P mid b of Inl e \<Rightarrow> None | Inr names \<Rightarrow> Some names)"

lemma all_variables_get:
  "all_variables limit ns = Inr ds \<Longrightarrow>
     od_get ds mid = (case od_get ns mid of None \<Rightarrow> None | Some n \<Rightarrow> extract_variables limit (node_name n) (message_entry n)) \<and>
     (\<forall>n. od_get ns mid = Some n \<longrightarrow> extract_variables limit (node_name n) (message_entry n) \<noteq> None)"
  by (induction ns arbitrary: ds)
    (auto simp: od_get_def res_bind_Inr introspected_def split: option.splits)

lemma all_variables_of:
  assumes "get_all_message_variables P b = Inr ds"
  shows "od_get ds mid = variables_of P mid b" "variables_of P mid b = None \<longleftrightarrow> \<not> has_message mid b"
  using all_variables_get [OF assms [unfolded get_all_message_variables_def], of mid]
  by (auto simp: variables_of_def get_message_variables_def introspected_def has_message_def od_get_None [symmetric]
      split: option.splits)

lemma merge_get: "od_get (merge_variables found result) mid = (case od_get result mid of None \<Rightarrow> od_get found mid | Some v \<Rightarrow> Some v)"
proof (induction found arbitrary: result)
  case Nil
  show ?case by (simp add: merge_variables_def od_get_empty split: option.split)
next
  case (Cons x found)
  obtain k names where x: "x = (k, names)" by (cases x)
  let ?result = "if od_get result k = None then od_set k names result else result"
  have "od_get (merge_variables (x # found) result) mid = od_get (merge_variables found ?result) mid"
    by (simp add: merge_variables_def x)
  also have "\<dots> = (case od_get ?result mid of None \<Rightarrow> od_get found mid | Some v \<Rightarrow> Some v)" by (rule Cons.IH)
  also have "\<dots> = (case od_get result mid of None \<Rightarrow> od_get (x # found) mid | Some v \<Rightarrow> Some v)"
    by (auto simp: x od_get_set od_get_def [of "_ # _"] od_get_def [of found] split: option.split)
  finally show ?case .
qed

lemma variables_found:
  assumes "complete L"
  shows "set ls \<subseteq> set (ln_locales L) \<Longrightarrow> variables_in_chain H ls result L = (L', Inr d) \<Longrightarrow> l \<in> set ls \<Longrightarrow>
    \<exists>found. get_all_message_variables (h_platform H) (bundle_at L l) = Inr found"
proof (induction ls arbitrary: result)
  case (Cons k ls)
  obtain found where "get_all_message_variables (h_platform H) (bundle_at L k) = Inr found"
    "variables_in_chain H ls (merge_variables found result) L = (L', Inr d)"
    using Cons.prems complete_get [OF assms, of k H] by (auto split: sum.splits)
  then show ?case using Cons.IH Cons.prems by auto
qed simp

lemma query_complete:
  "complete L \<Longrightarrow> set ls \<subseteq> set (ln_locales L) \<Longrightarrow>
     query_in_chain H mid query ls L =
       (L, case find (\<lambda>l. has_message mid (bundle_at L l)) ls of
             None \<Rightarrow> Inr None | Some l \<Rightarrow> map_sum ChainQuery Some (query (bundle_at L l)))"
  by (induction ls) (auto simp: complete_get)

lemma variables_complete:
  assumes "complete L"
  shows "set ls \<subseteq> set (ln_locales L) \<Longrightarrow> variables_in_chain H ls result L = (L', Inr d) \<Longrightarrow>
    od_get d mid =
      (case od_get result mid of
         Some v \<Rightarrow> Some v
       | None \<Rightarrow>
           (case find (\<lambda>l. has_message mid (bundle_at L l)) ls of
              None \<Rightarrow> None | Some l \<Rightarrow> variables_of (h_platform H) mid (bundle_at L l)))"
proof (induction ls arbitrary: result)
  case (Cons l ls)
  obtain found where f: "get_all_message_variables (h_platform H) (bundle_at L l) = Inr found"
    "variables_in_chain H ls (merge_variables found result) L = (L', Inr d)"
    using Cons.prems complete_get [OF assms, of l H] by (auto split: sum.splits)
  show ?case
    using Cons.IH [OF _ f(2)] Cons.prems(1) all_variables_of [OF f(1), of mid]
    by (auto simp: merge_get split: option.splits)
qed (auto split: option.split)

text \<open>In a localization whose bundles all exist, the table of the variables of all messages has for
  every identifier exactly what the query for this message returns, and no entry where the query
  raises \<open>KeyError\<close>.\<close>

theorem all_variables_agree:
  assumes "\<forall>l \<in> set (ln_locales L). od_get (ln_bundles L) l \<noteq> None"
    and "localized_all_variables H L = (L', Inr d)"
  shows "snd (localized_message_variables H mid L) =
    (case od_get d mid of None \<Rightarrow> Inl (ChainQuery KeyError) | Some names \<Rightarrow> Inr names)"
proof -
  have comp: "complete L" using assms(1) by (simp add: complete_def)
  let ?l = "find (\<lambda>l. has_message mid (bundle_at L l)) (ln_locales L)"
  have d: "od_get d mid = (case ?l of None \<Rightarrow> None | Some l \<Rightarrow> variables_of (h_platform H) mid (bundle_at L l))"
    using variables_complete [OF comp subset_refl assms(2) [unfolded localized_all_variables_def]] by (simp add: od_get_empty)
  show ?thesis
  proof (cases ?l)
    case None
    then show ?thesis using d by (simp add: localized_message_variables_def query_complete [OF comp])
  next
    case (Some l)
    then have "has_message mid (bundle_at L l)" "l \<in> set (ln_locales L)" by (auto simp: find_Some_iff)
    moreover from this obtain found where "get_all_message_variables (h_platform H) (bundle_at L l) = Inr found"
      using variables_found [OF comp subset_refl assms(2) [unfolded localized_all_variables_def]] by blast
    ultimately have "variables_of (h_platform H) mid (bundle_at L l) \<noteq> None" using all_variables_of(2) by blast
    then obtain names where "get_message_variables (h_platform H) mid (bundle_at L l) = Inr names"
      by (auto simp: variables_of_def split: sum.splits)
    then show ?thesis using d Some
      by (simp add: localized_message_variables_def query_complete [OF comp] variables_of_def)
  qed
qed

theorem all_variables_agree_witness:
  "case snd (localized_all_variables demo_host latvian_hello) of
     Inr d \<Rightarrow> snd (localized_message_variables demo_host (u ''hello'') latvian_hello) =
       (case od_get d (u ''hello'') of None \<Rightarrow> Inl (ChainQuery KeyError) | Some names \<Rightarrow> Inr names)
   | Inl e \<Rightarrow> False"
proof -
  have "case snd (localized_all_variables demo_host latvian_hello) of Inr d \<Rightarrow> True | Inl e \<Rightarrow> False"
    by code_simp
  moreover have "\<forall>l \<in> set (ln_locales latvian_hello). od_get (ln_bundles latvian_hello) l \<noteq> None"
    by (simp add: latvian_hello_def demo_localization_def od_get_def)
  ultimately show ?thesis
    using all_variables_agree [of latvian_hello demo_host _ _ "u ''hello''"]
    by (cases "localized_all_variables demo_host latvian_hello") (auto split: sum.splits)
qed

end
