(* ===== verification/Spec2Isabelle.thy ===== *)
theory Spec2Isabelle
  imports Graph_Properties Round_Trip Parser_Properties Lexical_Properties Rwlock_Proofs Cache_Theorems
    Diagnostic_Properties Bundle_Theorems Cache_Key_Properties Locale_Codes
    Semantic_Properties Validation_Theorems Boot_Theorems Localization_Queries
begin

text \<open>
  A verification library for FTLLexEngine, a Python implementation of the Fluent
  localization language.  All paths below are relative to \<open>src/src/ftllexengine/\<close>.

  \<^bold>\<open>The program.\<close>  A resource (Fluent source text) is parsed into a tree
  (\<open>syntax/\<close>); a bundle keeps the messages and terms of the tree and formats one of them
  with arguments (\<open>runtime/resolver*.py\<close>), calling registered functions
  (\<open>runtime/function_bridge.py\<close>); results are kept in a bounded cache that is checked
  against corruption (\<open>runtime/cache*.py\<close>, \<open>diagnostics/errors.py\<close>); readers and writers
  of a bundle are ordered by a lock (\<open>runtime/rwlock.py\<close>); and the references between entries
  are analysed for cycles and for chains the resolver would not follow
  (\<open>core/reference_graph.py\<close>, \<open>validation/resource_graph.py\<close>).

  \<^bold>\<open>Conventions.\<close>  A Python string is a list of code points (\<open>ustr\<close>; the prefix \<open>u\<close> turns an
  Isabelle string into one), an unbounded integer is \<open>int\<close> or, where the code keeps it
  non-negative, \<open>nat\<close>; an exception is a value (\<open>Inl\<close>, or the outcome \<open>Raises\<close>); a
  \<open>dict\<close> whose order matters is an \<open>odict\<close> (Ordered_Dict), otherwise a map.  Code that is not
  part of the repository is a parameter: the 16-byte hash of a cache entry and of an error
  (\<open>digest\<close>), the clock, \<open>str.isprintable\<close> of a character, whether Babel is installed, its
  locale parser and its plural rules (which may raise), the Python functions a user registers,
  the precision of the decimal context, and the iteration order of a set.  A bundle takes
  those of the interpreter and of Babel as one record, \<open>platform\<close>.

  \<^bold>\<open>Parsing.\<close>
  \<^item> Prelude, Outcomes: strings, Python slices, the outcomes of a parsing function (a value,
    \<open>None\<close>, an exception, no fuel) and the predicates \<open>safe\<close> and \<open>yields\<close> with their rules.
  \<^item> Identifiers: \<open>core/identifier_validation.py\<close>.
  \<^item> Cursor: \<open>syntax/cursor.py\<close>, cursors and the cached line offsets.
  \<^item> Ast: \<open>syntax/ast.py\<close>.
  \<^item> Primitives, Whitespace, Parse_Context, Patterns, Expressions, Entries, Parser_Core: the
    modules of the same names in \<open>syntax/parser/\<close>, one definition per function, and the main
    loop \<open>parse\<close> with its limits on source size, entries, nesting and junk.
  \<^item> Expression_Safety, Parser_Safety, Parser_Properties, Lexical_Properties: every parsing
    function returns and consumes input, what it returns is well-formed and no deeper than the
    limit; the entries of a resource cover the source; positions, identifiers, numbers and
    escapes mean what the grammar says.  The mutual recursion between patterns and
    expressions is cut at placeables: the locales \<open>placeable_parser\<close> and
    \<open>expression_parser\<close> state what one side relies on, and are interpreted on the code's
    own definitions by induction on the nesting allowance.
  The loops of the parser run with fuel equal to the number of characters left plus one;
  every iteration consumes a character, and the theorems state that the parser returns.

  \<^bold>\<open>Serializing.\<close>
  \<^item> Serializer: \<open>syntax/serializer.py\<close>, \<open>serializer_lines.py\<close>, \<open>serializer_validation.py\<close>,
    \<open>validation_helpers.py\<close>: from a tree to source text, with the depth guard and the
    validation before it.
  \<^item> Serializer_Properties: when it fails, and that it does not fail on what the parser returns.
  \<^item> Token_Text, Printable_Trees, Printed_Inline, Printed_Patterns,
    Printed_Elements, Printed_Selects, Printed_Entries, Printed_Loop, Printed_Resources,
    Round_Trip: what the parser does on the serializer's text, bottom up, from tokens to the
    main loop.  The locale \<open>printed_parser\<close> is the contract of the placeable parser on such
    text (interpreted by induction on the fuel), \<open>pattern_reader\<close> the contract of the two
    pattern loops (interpreted on both).  A resource of printable entries reads back as it was
    but for positions.  Junk, messages without a value and texts that the serializer has to
    quote are outside: their trees change.

  \<^bold>\<open>Validating.\<close>
  \<^item> Semantic_Validator: \<open>syntax/validator.py\<close>, the rules of the specification that
    the grammar does not express; Semantic_Properties: it raises exactly when its depth guard is
    exceeded, which the parser's trees do not, and reports nothing exactly when the rules, stated
    as predicates on trees, hold, on constructed trees as on parsed ones; the texts of number keys against the resolver's comparison.
    Digit_Text has the lemmas on digits that several theories share.
  \<^item> Validation_Results, Resource_Validation: \<open>diagnostics/validation.py\<close>,
    \<open>validation/resource.py\<close>: the passes over a source, against what a bundle knows.
  \<^item> Introspection: \<open>introspection/message.py\<close>; Introspection_Properties: it finds exactly what
    occurs in an entry, and returns exactly when its levels fit the limit.
  \<^item> Bundle_Queries: the queries of a bundle that introspect, and its \<open>validate_resource\<close>.
  \<^item> Reference_Errors: which errors a resolution can report, with the locale \<open>tolerated\<close> that
    proves it once and its two interpretations, for missing entries and for missing variables.
  \<^item> Validated_Resources, Validation_Theorems: a validation returns and its verdict is exact; a
    source that is validated without an undefined reference can be added to the bundle without
    formatting ever missing a message or a term.

  \<^bold>\<open>Errors and the cache.\<close>
  \<^item> Bytes, Frozen_Errors: \<open>diagnostics/errors.py\<close>, \<open>diagnostics/codes.py\<close>: the byte strings
    that are hashed, the integrity check, the equality and the weight of an error.
  \<^item> Ordered_Dict: \<open>collections.OrderedDict\<close>, with the locale \<open>ordered_dict\<close> of its laws.
  \<^item> Cache: \<open>get\<close>, \<open>put\<close>, \<open>clear\<close> of \<open>runtime/cache.py\<close>, entries, idempotent writes,
    write-once mode, eviction, the audit log and the integrity errors.
  \<^item> Cache_Proofs, Cache_Properties, Cache_Theorems: the invariant of the cache over all
    histories, the refinement of a least-recently-used dictionary, and what is raised or
    refused when the store has been tampered with (for any store, not only reachable ones).

  \<^item> Cache_Keys, Cache_Key_Properties: \<open>runtime/cache_keys.py\<close>: the key of a request, and that it
    determines the request when the arguments are of the built-in types, up to the
    identification of all NaNs (and examples of two NaNs and of two classes of sequences that
    share a key and have different texts).

  \<^bold>\<open>Diagnostics.\<close>  Diagnostic_Templates, Diagnostic_Formatter: the templates of all errors and
  the three formats of \<open>diagnostics/formatter.py\<close>; Diagnostic_Properties: no text of a field can
  forge a line of the report, and redaction hides what it should.

  \<^bold>\<open>The lock.\<close>  Rwlock: the lock of \<open>runtime/rwlock.py\<close> as a step relation over the
  atomic sections between two waits, with any number of threads, timeouts and spurious
  wakeups; Rwlock_Proofs: its invariant over all interleavings, mutual exclusion, no lost
  wakeup, no deadlock, and the results of single requests.

  \<^bold>\<open>Resolving.\<close>
  \<^item> Fluent_Values, Resolution_Context: \<open>core/value_types.py\<close>, \<open>runtime/resolution_context.py\<close>,
    \<open>core/depth_guard.py\<close>: values and their text, Python's decimals with infinities and NaNs,
    their comparison and \<open>quantize\<close>, the stack of a resolution, the three depth
    limits and the expansion budget, and the state-and-exception effects of the resolver.
  \<^item> Function_Registry: \<open>runtime/function_bridge.py\<close> and its helpers.
  \<^item> Resolver: \<open>runtime/resolver.py\<close>, \<open>resolver_runtime.py\<close>, \<open>resolver_selection.py\<close>,
    \<open>plural_rules.py\<close>.
    Within an entry the recursion follows the tree; a reference to another entry takes one
    unit of fuel, and as many units as the depth limit are enough, which is proved.
  \<^item> Resolver_Safety, Resolver_Properties, Selection_Properties: resolving ends for every
    message, restores the context, reports every overrun of the budget and bounds the text;
    what leaves it is the cancellation of a function, the \<open>ValueError\<close> of an integer with too
    many digits, or what the selection of a variant raises for a number that the request, a
    literal or a function provides: \<open>InvalidOperation\<close> of a signaling NaN or of a precision beyond
    the decimal context, or an exception of a plural rule.  The variant selected is the one
    that the comparison of exact numbers asks for, and the operand of the plural rule is the
    number rounded to its precision.

  \<^bold>\<open>The bundle.\<close>
  \<^item> Locale_Codes: \<open>core/locale_utils.py\<close>, \<open>core/validators.py\<close> and the factories of
    \<open>runtime/locale_context.py\<close>; a code that is accepted is canonical, and the cache of
    contexts keeps its size and its keys.
  \<^item> Bundle: \<open>runtime/bundle_*.py\<close> and \<open>runtime/cache_config.py\<close>: construction, registration of
    resources in two phases, functions, \<open>format_pattern\<close> with the cache and the strict mode,
    and the queries.  A method returns the bundle also when it raises.
  \<^item> Bundle_Cache: the invariant of the bundle's cache (every binding is what formatting without
    the cache returns); Bundle_Properties: histories of methods, and that bundles with and
    without a cache are twins along them; Bundle_Tables: the tables of entries, with the locale
    \<open>entry_table\<close> interpreted for messages and for terms; Bundle_Theorems: the theorems.

  \<^bold>\<open>The fallback chain.\<close>
  \<^item> Localization: \<open>localization/orchestrator*.py\<close>: one bundle for each locale of the chain,
    created when it is first needed, loading, functions that wait for their bundles, formatting
    with the first bundle that has the message, and queries.  The loader of resources is a
    parameter, and so is what Babel knows of a locale (one record, \<open>host\<close>); the callback for a
    fallback is the log of its calls.  An operation is one atomic step.
  \<^item> Localization_Invariant: every operation keeps the locales, and every bundle well-formed and
    in its place; Localization_Theorems: what formatting gives, does and leaves behind, and what a
    function that is not accepted does to a localization without bundles.
  \<^item> Path_Loader: \<open>PathResourceLoader\<close> of \<open>localization/loading.py\<close> over a file system that is a
    parameter, with the paths of \<open>pathlib\<close>; it reads nothing outside its root.
  \<^item> Localization_Boot: load summaries, \<open>require_clean\<close>, the schema validation and
    \<open>localization/boot.py\<close>; Loaded_Localization, Boot_Theorems: a boot that returns has loaded
    everything, has every required message and has exactly the variables of its schemas.
  \<^item> Localization_Queries: the queries along the chain that introspect, and that they agree.

  \<^bold>\<open>References.\<close>
  \<^item> Reference_Extraction: \<open>syntax/reference_extraction.py\<close> over the traversal of
    \<open>syntax/visitor.py\<close>, and the dependency graph.
  \<^item> Reference_Graph, Reference_Graph_Proofs: the depth-first search for cycles; a loop of
    the option monad (not returning is \<open>None\<close>), proved to return by a measure.
  \<^item> Resource_Graph, Graph_Properties: the warnings about cycles and long chains; the search
    finds only cycles, and all cycles of a graph within its limits; chains are compared with
    the resolver's depth limit.

  \<^bold>\<open>Decimals.\<close>  A number literal of the grammar is a \<open>plain_decimal\<close> (no exponent); a decimal of
  the runtime is a \<open>decimal_number\<close>, with every exponent, the infinities and the NaNs.  Of the
  decimal context the precision is a parameter (28 by default); the traps and the exponent
  limits are those of the default context.

  \<^bold>\<open>Not modelled.\<close>  The exhaustion of Python's stack (\<open>RecursionError\<close>) and of memory.  Number literals
  that only a constructed tree can hold (an exponent, white space or underscores in the raw
  text).  Number, date and currency formatting and locale-aware parsing (they
  consist of calls to Babel and CLDR data), the cache statistics and audit logs of bundles and
  localizations, log calls, thread and task plumbing of the asynchronous bundle, the fuzzing
  harnesses and scripts.
\<close>

end
